(* ===== verification/Sway_Prelude.thy ===== *)
theory Sway_Prelude
  imports Main "HOL-Library.Word"
begin

text \<open>
  Shared vocabulary of the development: the result type that models
  \<^verbatim>\<open>Result<_, ErrorEmitted>\<close> together with Rust panics, the sequencing
  combinators the fallible code is written with, the part of Rust's
  \<^verbatim>\<open>Vec\<close> interface the sources use, and the generic lemmas on lists that
  the component theories share.
\<close>

section \<open>Machine integers\<close>

type_synonym u8 = "8 word"

type_synonym u16 = "16 word"

type_synonym u32 = "32 word"

type_synonym u64 = "64 word"

section \<open>Errors as values\<close>

text \<open>
  In \<^verbatim>\<open>sway-core\<close> an error is emitted to a \<^verbatim>\<open>Handler\<close> and the token
  \<^verbatim>\<open>ErrorEmitted\<close> is returned at the same place, so a failing call is a value of
  the sum type below. \<open>Internal\<close> carries the message of
  \<^verbatim>\<open>CompileError::Internal\<close>, \<open>Panic\<close> stands for a Rust panic (an arithmetic
  overflow, an \<^verbatim>\<open>unwrap\<close> of a missing value, \<^verbatim>\<open>unreachable!\<close>), and
  \<open>OutOfFuel\<close> marks a fuelled model that was given too little fuel: the source never
  produces it, and each fuelled function comes with a theorem that bounds the fuel.
\<close>

datatype compile_error =
    Internal string
  | NotAnEnum
  | ImmediateTooLarge nat u64
  | Panic string
  | OutOfFuel

type_synonym 'a result = "compile_error + 'a"

definition bindE :: "'a result \<Rightarrow> ('a \<Rightarrow> 'b result) \<Rightarrow> 'b result" where
  "bindE m f = (case m of Inl e \<Rightarrow> Inl e | Inr x \<Rightarrow> f x)"

lemma bindE_simps [simp]:
  "bindE (Inl e) f = Inl e"
  "bindE (Inr x) f = f x"
  by (simp_all add: bindE_def)

lemma bindE_Inr_iff: "bindE m f = Inr y \<longleftrightarrow> (\<exists>x. m = Inr x \<and> f x = Inr y)"
  by (cases m) auto

lemma bindE_InrE:
  assumes "bindE m f = Inr y"
  obtains x where "m = Inr x" "f x = Inr y"
  using assms by (auto simp: bindE_Inr_iff)

lemma bindE_cong [fundef_cong]:
  assumes "m = m'" and "\<And>x. m' = Inr x \<Longrightarrow> f x = f' x"
  shows "bindE m f = bindE m' f'"
  using assms by (cases m') auto

text \<open>\<open>mapM\<close> is a loop that pushes one fallible result per element and stops at the first error.\<close>

fun mapM :: "('a \<Rightarrow> 'b result) \<Rightarrow> 'a list \<Rightarrow> 'b list result" where
  "mapM f [] = Inr []"
| "mapM f (x # xs) = bindE (f x) (\<lambda>y. bindE (mapM f xs) (\<lambda>ys. Inr (y # ys)))"

lemma mapM_cong [fundef_cong]:
  assumes "xs = ys" and "\<And>x. x \<in> set ys \<Longrightarrow> f x = g x"
  shows "mapM f xs = mapM g ys"
  using assms(2) unfolding assms(1) by (induction ys) auto

lemma mapM_Inr_iff:
  "mapM f xs = Inr ys \<longleftrightarrow> list_all2 (\<lambda>x y. f x = Inr y) xs ys"
  by (induction xs arbitrary: ys) (auto simp: bindE_Inr_iff list_all2_Cons1)

lemma mapM_map_pure: "(\<And>x. f (g x) = Inr x) \<Longrightarrow> mapM f (map g xs) = Inr xs"
  by (induction xs) auto

lemma mapM_pure:
  assumes "\<And>x. x \<in> set xs \<Longrightarrow> f x = Inr (g x)"
  shows "mapM f xs = Inr (map g xs)"
  using assms by (induction xs) auto

lemma mapM_Inr_exI:
  assumes "\<And>x. x \<in> set xs \<Longrightarrow> \<exists>y. f x = Inr y"
  shows "\<exists>ys. mapM f xs = Inr ys"
  using assms by (induction xs) (fastforce simp: bindE_Inr_iff)+

text \<open>\<open>foldM\<close> is a \<^verbatim>\<open>for\<close> loop that updates a state and may leave with an error.\<close>

fun foldM :: "('a \<Rightarrow> 's \<Rightarrow> 's result) \<Rightarrow> 'a list \<Rightarrow> 's \<Rightarrow> 's result" where
  "foldM f [] s = Inr s"
| "foldM f (x # xs) s = bindE (f x s) (foldM f xs)"

lemma foldM_cong [fundef_cong]:
  assumes "xs = ys" and "s = t" and "\<And>x s. x \<in> set ys \<Longrightarrow> f x s = g x s"
  shows "foldM f xs s = foldM g ys t"
proof -
  have "foldM f ys t = foldM g ys t" for t
    using assms(3) by (induction ys arbitrary: t) (auto intro!: bindE_cong)
  then show ?thesis using assms(1,2) by simp
qed

lemma foldM_append: "foldM f (xs @ ys) s = bindE (foldM f xs s) (foldM f ys)"
proof (induction xs arbitrary: s)
  case (Cons x xs)
  then show ?case by (cases "f x s") auto
qed simp

text \<open>Invariant rules for \<open>foldM\<close>: what every successful step keeps, the loop keeps.\<close>

lemma foldM_invariant:
  assumes "foldM f xs s = Inr t" and "I s"
    and "\<And>x s s'. x \<in> set xs \<Longrightarrow> I s \<Longrightarrow> f x s = Inr s' \<Longrightarrow> I s'"
  shows "I t"
  using assms
proof (induction xs arbitrary: s)
  case (Cons x xs)
  from Cons.prems(1) obtain s' where s': "f x s = Inr s'" "foldM f xs s' = Inr t"
    by (auto simp: bindE_Inr_iff)
  moreover from s'(1) Cons.prems(2) have "I s'" using Cons.prems(3) by (meson list.set_intros(1))
  ultimately show ?case using Cons.IH Cons.prems(3) by (meson list.set_intros(2))
qed simp

lemma foldM_total:
  assumes "I s"
    and "\<And>x s. x \<in> set xs \<Longrightarrow> I s \<Longrightarrow> \<exists>s'. f x s = Inr s' \<and> I s'"
  shows "\<exists>t. foldM f xs s = Inr t \<and> I t"
  using assms
proof (induction xs arbitrary: s)
  case (Cons x xs)
  obtain s' where "f x s = Inr s'" "I s'" using Cons.prems by (meson list.set_intros(1))
  moreover obtain t where "foldM f xs s' = Inr t" "I t"
    using Cons.IH[OF \<open>I s'\<close>] Cons.prems(2) by (meson list.set_intros(2))
  ultimately show ?case by auto
qed simp

section \<open>Vectors\<close>

text \<open>
  A \<^verbatim>\<open>Vec\<close> is a list in index order: \<^verbatim>\<open>push\<close> appends at the end and
  \<^verbatim>\<open>pop\<close> removes from the end.
\<close>

definition vec_push :: "'a list \<Rightarrow> 'a \<Rightarrow> 'a list" where
  "vec_push v x = v @ [x]"

definition vec_pop :: "'a list \<Rightarrow> ('a \<times> 'a list) option" where
  "vec_pop v = (if v = [] then None else Some (last v, butlast v))"

lemma vec_pop_snoc [simp]: "vec_pop (v @ [x]) = Some (x, v)"
  by (simp add: vec_pop_def)

lemma vec_pop_Nil [simp]: "vec_pop [] = None"
  by (simp add: vec_pop_def)

lemma vec_pop_Some_iff: "vec_pop v = Some (x, w) \<longleftrightarrow> v = w @ [x]"
  by (auto simp: vec_pop_def)

text \<open>\<^verbatim>\<open>if !v.contains(&x) { v.push(x) }\<close>, the loop body of the de-duplicating helpers.\<close>

definition push_if_absent :: "'a \<Rightarrow> 'a list \<Rightarrow> 'a list" where
  "push_if_absent x v = (if x \<in> set v then v else vec_push v x)"

lemma set_push_if_absent [simp]: "set (push_if_absent x v) = insert x (set v)"
  by (auto simp: push_if_absent_def vec_push_def)

lemma distinct_push_if_absent: "distinct v \<Longrightarrow> distinct (push_if_absent x v)"
  by (simp add: push_if_absent_def vec_push_def)

section \<open>Machine integers\<close>


lemma unat_plus_one: "x \<noteq> - 1 \<Longrightarrow> unat (x + 1) = Suc (unat x)"
  for x :: "'a::len word"
  using unatSuc [of x] by (simp add: add.commute eq_neg_iff_add_eq_0)

lemma Suc_unat_minus_one: "x \<noteq> 0 \<Longrightarrow> Suc (unat (x - 1)) = unat x"
  for x :: "'a::len word"
  using unat_plus_one [of "x - 1"] by simp

end
