(* ===== verification/Match_Range.thy ===== *)
theory Match_Range
  imports Sway_Prelude
begin

text \<open>
  \<^verbatim>\<open>match_expression/analysis/range.rs\<close>: inclusive integer ranges, used by the
  exhaustivity analysis to decide whether integer patterns cover their type and to
  compute the values they leave out. The theory translates every operation of
  \<^verbatim>\<open>Range<T>\<close> for \<open>T\<close> one of the four unsigned integer types (the machine word
  type \<open>'a word\<close> at width 8, 16, 32 and 64) and relates each operation to the set of
  values a range stands for.
\<close>

section \<open>The trait MyMath\<close>

text \<open>
  \<^verbatim>\<open>self + 1\<close> and \<^verbatim>\<open>self - 1\<close> panic on overflow in a checked build; the
  model makes the panic a result, so a theorem that an operation returns \<open>Inr\<close> also
  states that no overflow happens on the way.
\<close>

definition global_max :: "'a::len word" where
  "global_max = - 1"

definition global_min :: "'a::len word" where
  "global_min = 0"

definition incr :: "'a::len word \<Rightarrow> 'a word result" where
  "incr x = (if x = global_max then Inl (Panic ''attempt to add with overflow'') else Inr (x + 1))"

definition decr :: "'a::len word \<Rightarrow> 'a word result" where
  "decr x = (if x = global_min then Inl (Panic ''attempt to subtract with overflow'') else Inr (x - 1))"

section \<open>Ranges\<close>

record 'w range =
  first_v :: 'w
  last_v :: 'w

definition range_u8 :: "u8 range" where
  "range_u8 = \<lparr>first_v = global_min, last_v = global_max\<rparr>"

definition range_u16 :: "u16 range" where
  "range_u16 = \<lparr>first_v = global_min, last_v = global_max\<rparr>"

definition range_u32 :: "u32 range" where
  "range_u32 = \<lparr>first_v = global_min, last_v = global_max\<rparr>"

definition range_u64 :: "u64 range" where
  "range_u64 = \<lparr>first_v = global_min, last_v = global_max\<rparr>"

definition from_single :: "'a::len word \<Rightarrow> 'a word range" where
  "from_single x = \<lparr>first_v = x, last_v = x\<rparr>"

definition from_double :: "'a::len word \<Rightarrow> 'a word \<Rightarrow> 'a word range result" where
  "from_double fst_v lst_v =
     (if lst_v < fst_v then Inl (Internal ''attempted to create an invalid range'')
      else Inr \<lparr>first_v = fst_v, last_v = lst_v\<rparr>)"

definition overlaps :: "'a::len word range \<Rightarrow> 'a word range \<Rightarrow> bool" where
  "overlaps self other \<longleftrightarrow>
     first_v other \<ge> first_v self \<and> last_v other \<le> last_v self
   \<or> first_v other \<le> first_v self \<and> last_v other \<ge> last_v self
   \<or> first_v other \<le> first_v self \<and> last_v other \<le> last_v self \<and> last_v other \<ge> first_v self
   \<or> first_v other \<ge> first_v self \<and> first_v other \<le> last_v self \<and> last_v other \<ge> last_v self"

definition encompasses :: "'a::len word range \<Rightarrow> 'a word range \<Rightarrow> bool" where
  "encompasses self other \<longleftrightarrow> first_v self \<le> first_v other \<and> last_v self \<ge> last_v other"

definition encompasses_all :: "'a::len word range \<Rightarrow> 'a word range list \<Rightarrow> bool" where
  "encompasses_all self others \<longleftrightarrow> list_all (encompasses self) others"

text \<open>
  The differences are taken only where they cannot wrap, and \<^verbatim>\<open>into::<u64>()\<close>
  keeps the value of a word of at most 64 bits, so the comparison with \<^verbatim>\<open>1u64\<close>
  is a comparison of natural numbers.
\<close>

definition within_one :: "'a::len word range \<Rightarrow> 'a word range \<Rightarrow> bool" where
  "within_one self other \<longleftrightarrow>
     \<not> overlaps self other \<and>
     (first_v other > last_v self \<and> unat (first_v other - last_v self) = 1
      \<or> first_v self > last_v other \<and> unat (first_v self - last_v other) = 1)"

definition join_ranges :: "'a::len word range \<Rightarrow> 'a word range \<Rightarrow> 'a word range result" where
  "join_ranges a b =
     (if \<not> overlaps a b \<and> \<not> within_one a b then Inl (Internal ''these two ranges cannot be joined'')
      else
        let fst_v = (if first_v a < first_v b then first_v a else first_v b);
            lst_v = (if last_v a > last_v b then last_v a else last_v b)
        in from_double fst_v lst_v)"

text \<open>
  \<^verbatim>\<open>ranges.sort_by(|a, b| b.first.cmp(&a.first))\<close> is a stable sort into descending
  order of \<^verbatim>\<open>first\<close>; \<open>sort_key\<close> is stable, and the negated key turns the
  order round.
\<close>

definition sort_desc :: "'a::len word range list \<Rightarrow> 'a word range list" where
  "sort_desc ranges = sort_key (\<lambda>r. - uint (first_v r)) ranges"

fun condense_loop ::
  "'a::len word range list \<Rightarrow> 'a word range list \<Rightarrow> 'a word range list result" where
  "condense_loop [] stack = Inr stack"
| "condense_loop (rng # rest) stack =
     (case vec_pop stack of
        None \<Rightarrow> Inl (Internal ''stack empty'')
      | Some (tp, stack') \<Rightarrow>
          if overlaps rng tp \<or> within_one rng tp
          then bindE (join_ranges rng tp) (\<lambda>j. condense_loop rest (vec_push stack' j))
          else condense_loop rest (vec_push (vec_push stack' tp) rng))"

definition condense_ranges :: "'a::len word range list \<Rightarrow> 'a word range list result" where
  "condense_ranges ranges =
     (case sort_desc ranges of
        [] \<Rightarrow> Inl (Internal ''unable to split vec'')
      | fst_r # rest \<Rightarrow> bindE (condense_loop rest [fst_r]) (\<lambda>stack. Inr (rev stack)))"

definition exclusionary_gaps :: "'a::len word range list \<Rightarrow> 'a word range list result" where
  "exclusionary_gaps condensed =
     mapM (\<lambda>(left, right).
        bindE (incr (last_v left)) (\<lambda>l. bindE (decr (first_v right)) (\<lambda>r. from_double l r)))
       (zip condensed (tl condensed))"

definition exclusionary_before :: "'a::len word range \<Rightarrow> 'a word range \<Rightarrow> 'a word range list result" where
  "exclusionary_before oracle fst_r =
     (if first_v oracle \<noteq> first_v fst_r
      then bindE (decr (first_v fst_r)) (\<lambda>d.
           bindE (from_double (first_v oracle) d) (\<lambda>r. Inr [r]))
      else Inr [])"

definition exclusionary_after :: "'a::len word range \<Rightarrow> 'a word range \<Rightarrow> 'a word range list result" where
  "exclusionary_after oracle lst_r =
     (if last_v oracle \<noteq> last_v lst_r
      then bindE (incr (last_v lst_r)) (\<lambda>i.
           bindE (from_double i (last_v oracle)) (\<lambda>r. Inr [r]))
      else Inr [])"

definition find_exclusionary_ranges ::
  "'a::len word range list \<Rightarrow> 'a word range \<Rightarrow> 'a word range list result" where
  "find_exclusionary_ranges guides oracle =
     bindE (condense_ranges guides) (\<lambda>condensed.
     if \<not> encompasses_all oracle condensed then Inl (Internal ''ranges OOB with the oracle'')
     else if condensed = [] then Inl (Internal ''could not split vec'')
     else
       bindE (exclusionary_before oracle (hd condensed)) (\<lambda>pre.
       bindE (exclusionary_gaps condensed) (\<lambda>gaps.
       bindE (exclusionary_after oracle (last condensed)) (\<lambda>post.
       Inr (pre @ gaps @ post)))))"

definition do_ranges_equal_range ::
  "'a::len word range list \<Rightarrow> 'a word range \<Rightarrow> bool result" where
  "do_ranges_equal_range ranges oracle =
     bindE (condense_ranges ranges) (\<lambda>condensed.
     if length condensed > 1 then Inr False
     else case condensed of
            [] \<Rightarrow> Inl (Internal ''vec empty'')
          | fst_r # _ \<Rightarrow> Inr (fst_r = oracle))"

datatype ordering = Less | Equal | Greater

definition word_cmp :: "'a::len word \<Rightarrow> 'a word \<Rightarrow> ordering" where
  "word_cmp x y = (if x < y then Less else if x = y then Equal else Greater)"

definition range_cmp :: "'a::len word range \<Rightarrow> 'a word range \<Rightarrow> ordering" where
  "range_cmp self other =
     (case (word_cmp (first_v self) (first_v other), word_cmp (last_v self) (last_v other)) of
        (Less, _) \<Rightarrow> Less
      | (Equal, Less) \<Rightarrow> Less
      | (Equal, Equal) \<Rightarrow> Equal
      | (Equal, Greater) \<Rightarrow> Greater
      | (Greater, _) \<Rightarrow> Greater)"

section \<open>What a range stands for\<close>

definition range_set :: "'a::len word range \<Rightarrow> 'a word set" where
  "range_set r = {first_v r .. last_v r}"

definition ranges_set :: "'a::len word range list \<Rightarrow> 'a word set" where
  "ranges_set rs = (\<Union>r \<in> set rs. range_set r)"

definition valid_range :: "'a::len word range \<Rightarrow> bool" where
  "valid_range r \<longleftrightarrow> first_v r \<le> last_v r"

text \<open>
  No range of the list is nested in another: a range that starts later also ends later.
  Ranges made from literals (\<open>from_single\<close>), the only ones the parser produces, satisfy it.
\<close>

definition unnested :: "'a::len word range list \<Rightarrow> bool" where
  "unnested rs \<longleftrightarrow>
     (\<forall>a \<in> set rs. \<forall>b \<in> set rs. first_v a \<le> first_v b \<longrightarrow> last_v a \<le> last_v b)"

text \<open>Two ranges in order, with at least one value between them.\<close>

definition gap :: "'a::len word range \<Rightarrow> 'a word range \<Rightarrow> bool" where
  "gap a b \<longleftrightarrow> Suc (unat (last_v a)) < unat (first_v b)"

lemmas range_unat_simps = word_le_nat_alt word_less_nat_alt

lemma ranges_set_simps [simp]:
  "ranges_set [] = {}"
  "ranges_set (r # rs) = range_set r \<union> ranges_set rs"
  "ranges_set (rs @ ss) = ranges_set rs \<union> ranges_set ss"
  "ranges_set (rev rs) = ranges_set rs"
  by (auto simp: ranges_set_def)

lemma range_set_eq_empty: "range_set r = {} \<longleftrightarrow> \<not> valid_range r"
  by (auto simp: range_set_def valid_range_def)

lemma overlaps_iff:
  assumes "valid_range a" "valid_range b"
  shows "overlaps a b \<longleftrightarrow> range_set a \<inter> range_set b \<noteq> {}"
  using assms by (auto simp: overlaps_def valid_range_def range_set_def)

lemma overlaps_or_within_one_iff:
  assumes "valid_range a" "valid_range b"
  shows "overlaps a b \<or> within_one a b \<longleftrightarrow> \<not> gap a b \<and> \<not> gap b a"
  using assms
  by (auto simp: overlaps_def within_one_def gap_def valid_range_def range_unat_simps unat_sub)

lemma join_ranges_correct:
  assumes "valid_range a" "valid_range b" and near: "overlaps a b \<or> within_one a b"
  shows "\<exists>r. join_ranges a b = Inr r \<and> valid_range r \<and> range_set r = range_set a \<union> range_set b
     \<and> first_v r = min (first_v a) (first_v b) \<and> last_v r = max (last_v a) (last_v b)"
proof -
  let ?r = "\<lparr>first_v = min (first_v a) (first_v b), last_v = max (last_v a) (last_v b)\<rparr>"
  have join: "join_ranges a b = Inr ?r"
    using assms by (auto simp: join_ranges_def from_double_def valid_range_def min_def max_def Let_def)
  have "range_set ?r = range_set a \<union> range_set b"
    using near assms(1,2) unfolding overlaps_or_within_one_iff[OF assms(1,2)]
    by (auto simp: range_set_def gap_def valid_range_def range_unat_simps min_def max_def
        split: if_splits)
  moreover have "valid_range ?r"
    using assms by (auto simp: valid_range_def min_def max_def)
  ultimately show ?thesis using join by auto
qed

section \<open>Condensing\<close>

text \<open>The loop invariant: the stack holds well separated ranges in descending order, and what
  is still to come starts and ends no later than the range on top.\<close>

definition condense_inv :: "'a::len word range list \<Rightarrow> 'a word range list \<Rightarrow> bool" where
  "condense_inv rest stack \<longleftrightarrow>
     stack \<noteq> [] \<and> sorted_wrt (\<lambda>a b. gap b a) stack
   \<and> (\<forall>r \<in> set stack \<union> set rest. valid_range r)
   \<and> sorted_wrt (\<lambda>a b. first_v b \<le> first_v a) rest \<and> unnested rest
   \<and> (\<forall>r \<in> set rest. first_v r \<le> first_v (last stack) \<and> last_v r \<le> last_v (last stack))"

lemma gap_first_mono: "gap b a \<Longrightarrow> first_v a' = first_v a \<Longrightarrow> gap b a'"
  by (simp add: gap_def)

lemma gap_trans: "valid_range b \<Longrightarrow> gap a b \<Longrightarrow> gap b c \<Longrightarrow> gap a c"
  by (auto simp: gap_def valid_range_def range_unat_simps)

lemma condense_inv_push:
  assumes inv: "condense_inv (r # rest) (stack @ [tp])"
    and far: "\<not> (overlaps r tp \<or> within_one r tp)"
  shows "condense_inv rest (stack @ [tp, r])"
proof -
  have vr: "valid_range r" "valid_range tp" and le: "first_v r \<le> first_v tp"
    using inv by (auto simp: condense_inv_def)
  have g: "gap r tp"
    using far le vr unfolding overlaps_or_within_one_iff[OF vr]
    by (auto simp: gap_def valid_range_def range_unat_simps)
  have "gap r s" if "s \<in> set stack" for s
  proof -
    have "gap tp s" using inv that by (auto simp: condense_inv_def sorted_wrt_append)
    with g show ?thesis using vr by (blast intro: gap_trans)
  qed
  with g inv show ?thesis
    by (auto simp: condense_inv_def sorted_wrt_append unnested_def)
qed

lemma condense_inv_join:
  assumes inv: "condense_inv (r # rest) (stack @ [tp])"
    and near: "overlaps r tp \<or> within_one r tp"
  shows "\<exists>j. join_ranges r tp = Inr j \<and> condense_inv rest (stack @ [j])
     \<and> range_set j = range_set r \<union> range_set tp"
proof -
  have vr: "valid_range r" "valid_range tp"
    and le: "first_v r \<le> first_v tp" "last_v r \<le> last_v tp"
    using inv by (auto simp: condense_inv_def)
  obtain j where j: "join_ranges r tp = Inr j" "valid_range j"
      "range_set j = range_set r \<union> range_set tp" "first_v j = first_v r" "last_v j = last_v tp"
    using join_ranges_correct[OF vr near] le by (auto simp: min_def max_def)
  have "gap j s" if "s \<in> set stack" for s
  proof -
    have "gap tp s" using inv that by (auto simp: condense_inv_def sorted_wrt_append)
    then show ?thesis using j(5) by (simp add: gap_def)
  qed
  then have "condense_inv rest (stack @ [j])"
    using inv j by (auto simp: condense_inv_def sorted_wrt_append unnested_def)
  then show ?thesis using j by blast
qed

lemma condense_loop_correct:
  assumes "condense_inv rest stack"
  shows "\<exists>out. condense_loop rest stack = Inr out \<and> condense_inv [] out
     \<and> ranges_set out = ranges_set stack \<union> ranges_set rest"
  using assms
proof (induction rest arbitrary: stack)
  case Nil
  then show ?case by simp
next
  case (Cons r rest)
  from Cons.prems obtain stack' tp where st: "stack = stack' @ [tp]"
    by (cases stack rule: rev_cases) (auto simp: condense_inv_def)
  show ?case
  proof (cases "overlaps r tp \<or> within_one r tp")
    case True
    from condense_inv_join[OF Cons.prems[unfolded st] True] obtain j where
      j: "join_ranges r tp = Inr j" "condense_inv rest (stack' @ [j])"
        "range_set j = range_set r \<union> range_set tp" by blast
    from Cons.IH[OF j(2)] show ?thesis
      using True j(1,3) by (auto simp: st vec_push_def)
  next
    case False
    have "condense_inv rest (stack' @ [tp, r])"
      by (rule condense_inv_push[OF Cons.prems[unfolded st] False])
    from Cons.IH[OF this] show ?thesis
      using False by (auto simp: st vec_push_def)
  qed
qed

lemma set_sort_desc [simp]: "set (sort_desc rs) = set rs"
  by (simp add: sort_desc_def)

lemma sort_desc_eq_Nil [simp]: "sort_desc rs = [] \<longleftrightarrow> rs = []"
  by (metis set_empty set_sort_desc)

lemma sorted_sort_desc: "sorted_wrt (\<lambda>a b. first_v b \<le> first_v a) (sort_desc rs)"
proof -
  have "sorted (map (\<lambda>r. - uint (first_v r)) (sort_desc rs))"
    by (simp add: sort_desc_def)
  then show ?thesis by (simp add: sorted_map word_le_def)
qed

lemma ranges_set_cong: "set rs = set ss \<Longrightarrow> ranges_set rs = ranges_set ss"
  by (simp add: ranges_set_def)

text \<open>The result of condensing: ascending, pairwise separated ranges with the same values.\<close>

definition condensed :: "'a::len word range list \<Rightarrow> bool" where
  "condensed rs \<longleftrightarrow> rs \<noteq> [] \<and> sorted_wrt gap rs \<and> (\<forall>r \<in> set rs. valid_range r)"

lemma condense_ranges_ok:
  assumes "rs \<noteq> []" "\<forall>r \<in> set rs. valid_range r" "unnested rs"
  shows "\<exists>out. condense_ranges rs = Inr out \<and> condensed out \<and> ranges_set out = ranges_set rs"
proof -
  from assms(1) obtain r rest where sd: "sort_desc rs = r # rest"
    by (cases "sort_desc rs") auto
  then have mem: "set rs = insert r (set rest)"
    by (metis list.simps(15) set_sort_desc)
  have sorted: "sorted_wrt (\<lambda>a b. first_v b \<le> first_v a) (r # rest)"
    using sorted_sort_desc[of rs] sd by simp
  have "condense_inv rest [r]"
    using sorted assms(2,3) by (auto simp: condense_inv_def unnested_def mem)
  from condense_loop_correct[OF this] obtain out where
    out: "condense_loop rest [r] = Inr out" "condense_inv [] out"
      "ranges_set out = ranges_set [r] \<union> ranges_set rest" by blast
  have "ranges_set (r # rest) = ranges_set rs"
    by (rule ranges_set_cong) (simp add: mem)
  with out show ?thesis
    by (auto simp: condense_ranges_def sd condense_inv_def condensed_def sorted_wrt_rev)
qed

section \<open>Exclusionary ranges\<close>

lemma incr_ok: "unat x < unat y \<Longrightarrow> incr x = Inr (x + 1) \<and> unat (x + 1) = Suc (unat x)"
  for x y :: "'a::len word"
proof -
  assume "unat x < unat y"
  then have "x < y" by (simp add: word_less_nat_alt)
  then have "x \<noteq> - 1" using max_word_max [of y] by (metis leD)
  then show ?thesis by (simp add: incr_def global_max_def unat_plus_one)
qed

lemma decr_ok: "unat x < unat y \<Longrightarrow> decr y = Inr (y - 1) \<and> Suc (unat (y - 1)) = unat y"
proof -
  assume "unat x < unat y"
  then have "y \<noteq> 0" by auto
  then show ?thesis by (simp add: decr_def global_min_def Suc_unat_minus_one)
qed

lemma condensed_Cons:
  "condensed (a # b # rs) \<longleftrightarrow> valid_range a \<and> gap a b \<and> condensed (b # rs)"
  by (auto simp: condensed_def intro: gap_trans)

lemma condensed_bounds:
  assumes "condensed (b # rs)"
  shows "valid_range b" and "first_v b \<le> last_v (last (b # rs))"
    and "ranges_set (b # rs) \<subseteq> {first_v b .. last_v (last (b # rs))}"
proof -
  show "valid_range b" using assms by (simp add: condensed_def)
  have "first_v b \<le> last_v (last (b # rs)) \<and> ranges_set (b # rs) \<subseteq> {first_v b .. last_v (last (b # rs))}"
    using assms
  proof (induction rs arbitrary: b)
    case Nil
    then show ?case by (auto simp: condensed_def range_set_def valid_range_def)
  next
    case (Cons c rs)
    then have c: "valid_range b" "gap b c" "condensed (c # rs)" by (auto simp: condensed_Cons)
    have vc: "valid_range c" using c(3) by (simp add: condensed_def)
    have bc: "first_v b \<le> first_v c" "last_v b \<le> first_v c"
      using c(1,2) by (auto simp: gap_def valid_range_def range_unat_simps)
    show ?case using Cons.IH[OF c(3)] bc by (fastforce simp: range_set_def)
  qed
  then show "first_v b \<le> last_v (last (b # rs))"
    and "ranges_set (b # rs) \<subseteq> {first_v b .. last_v (last (b # rs))}" by blast+
qed

lemma gap_range:
  assumes "gap a b"
  shows "\<exists>l r. incr (last_v a) = Inr l \<and> decr (first_v b) = Inr r
     \<and> from_double l r = Inr \<lparr>first_v = l, last_v = r\<rparr>
     \<and> valid_range \<lparr>first_v = l, last_v = r\<rparr>
     \<and> {l .. r} = {last_v a <..< first_v b}"
proof -
  have lt: "unat (last_v a) < unat (first_v b)" using assms by (simp add: gap_def)
  note inc = incr_ok[OF lt] and dec = decr_ok[OF lt]
  have le: "unat (last_v a + 1) \<le> unat (first_v b - 1)"
    using assms inc dec by (simp add: gap_def)
  have "{last_v a + 1 .. first_v b - 1} = {last_v a <..< first_v b}"
    using inc dec by (auto simp: range_unat_simps)
  with inc dec le show ?thesis
    by (auto simp: from_double_def valid_range_def range_unat_simps)
qed

lemma interval_minus_split:
  fixes S :: "'b::linorder set"
  assumes "S \<subseteq> {fb .. z}" "fa \<le> la" "la < fb" "fb \<le> z"
  shows "{fa .. z} - ({fa .. la} \<union> S) = {la <..< fb} \<union> ({fb .. z} - S)"
  using assms by force

lemma exclusionary_gaps_correct:
  assumes "condensed (a # rs)"
  shows "\<exists>g. exclusionary_gaps (a # rs) = Inr g \<and> (\<forall>r \<in> set g. valid_range r)
     \<and> ranges_set g = {first_v a .. last_v (last (a # rs))} - ranges_set (a # rs)"
  using assms
proof (induction rs arbitrary: a)
  case Nil
  then show ?case by (simp add: exclusionary_gaps_def range_set_def)
next
  case (Cons b rs)
  then have ab: "valid_range a" "gap a b" and cb: "condensed (b # rs)" by (auto simp: condensed_Cons)
  from Cons.IH[OF cb] obtain g where g: "exclusionary_gaps (b # rs) = Inr g"
      "\<forall>r \<in> set g. valid_range r"
      "ranges_set g = {first_v b .. last_v (last (b # rs))} - ranges_set (b # rs)" by blast
  from gap_range[OF ab(2)] obtain l r where lr: "incr (last_v a) = Inr l" "decr (first_v b) = Inr r"
      "from_double l r = Inr \<lparr>first_v = l, last_v = r\<rparr>" "valid_range \<lparr>first_v = l, last_v = r\<rparr>"
      "{l .. r} = {last_v a <..< first_v b}" by blast
  have ex: "exclusionary_gaps (a # b # rs) = Inr (\<lparr>first_v = l, last_v = r\<rparr> # g)"
    using g(1) lr(1-3) by (simp add: exclusionary_gaps_def)
  have order: "first_v a \<le> last_v a" "last_v a < first_v b"
    using ab by (auto simp: gap_def valid_range_def range_unat_simps)
  note bb = condensed_bounds(2,3)[OF cb]
  have "{first_v a .. last_v (last (a # b # rs))} - ranges_set (a # b # rs)
      = {last_v a <..< first_v b} \<union> ({first_v b .. last_v (last (b # rs))} - ranges_set (b # rs))"
    using interval_minus_split [OF bb(2) order bb(1)]
    by (simp add: range_set_def ranges_set_simps(2) [of a "b # rs"] del: ranges_set_simps(2))
  then show ?case using ex g(2,3) lr(4,5) by (auto simp: range_set_def)
qed

lemma exclusionary_before_correct:
  assumes "first_v oracle \<le> first_v a"
  shows "\<exists>pre. exclusionary_before oracle a = Inr pre \<and> (\<forall>r \<in> set pre. valid_range r)
     \<and> ranges_set pre = {first_v oracle ..< first_v a}"
proof (cases "first_v oracle = first_v a")
  case False
  with assms have lt: "unat (first_v oracle) < unat (first_v a)"
    by (simp flip: word_less_nat_alt)
  have "{first_v oracle .. first_v a - 1} = {first_v oracle ..< first_v a}"
    using decr_ok[OF lt] by (auto simp: range_unat_simps)
  with False decr_ok[OF lt] lt show ?thesis
    by (auto simp: exclusionary_before_def from_double_def valid_range_def range_unat_simps
        range_set_def)
qed (simp add: exclusionary_before_def)

lemma exclusionary_after_correct:
  assumes "last_v z \<le> last_v oracle"
  shows "\<exists>post. exclusionary_after oracle z = Inr post \<and> (\<forall>r \<in> set post. valid_range r)
     \<and> ranges_set post = {last_v z <.. last_v oracle}"
proof (cases "last_v oracle = last_v z")
  case False
  with assms have lt: "unat (last_v z) < unat (last_v oracle)"
    by (simp flip: word_less_nat_alt)
  have "{last_v z + 1 .. last_v oracle} = {last_v z <.. last_v oracle}"
    using incr_ok[OF lt] by (auto simp: range_unat_simps)
  with False incr_ok[OF lt] lt show ?thesis
    by (auto simp: exclusionary_after_def from_double_def valid_range_def range_unat_simps
        range_set_def)
qed (simp add: exclusionary_after_def)

lemma find_exclusionary_ranges_ok:
  assumes "guides \<noteq> []" "\<forall>r \<in> set guides. valid_range r" "unnested guides"
    and inside: "ranges_set guides \<subseteq> range_set oracle"
  shows "\<exists>ex. find_exclusionary_ranges guides oracle = Inr ex \<and> (\<forall>r \<in> set ex. valid_range r)
     \<and> ranges_set ex = range_set oracle - ranges_set guides"
proof -
  from condense_ranges_ok[OF assms(1-3)] obtain c where
    c: "condense_ranges guides = Inr c" "condensed c" "ranges_set c = ranges_set guides" by blast
  then obtain a rs where ars: "c = a # rs" by (cases c) (auto simp: condensed_def)
  let ?z = "last (a # rs)" and ?S = "ranges_set (a # rs)"
  have ca: "condensed (a # rs)" using c ars by simp
  note bounds = condensed_bounds[OF ca]
  have enc: "encompasses oracle r" if "r \<in> set c" for r
  proof -
    have "range_set r \<subseteq> range_set oracle"
      using that inside unfolding c(3) [symmetric] by (auto simp: ranges_set_def)
    moreover have "valid_range r" using that c(2) by (simp add: condensed_def)
    ultimately show ?thesis by (auto simp: range_set_def valid_range_def encompasses_def)
  qed
  have oa: "first_v oracle \<le> first_v a" and oz: "last_v ?z \<le> last_v oracle"
    using enc[of a] enc[of ?z] last_in_set[of "a # rs"] by (auto simp: ars encompasses_def)
  from exclusionary_before_correct[OF oa] exclusionary_after_correct[OF oz]
    exclusionary_gaps_correct[OF ca]
  obtain pre g post where
    parts: "exclusionary_before oracle a = Inr pre" "exclusionary_gaps (a # rs) = Inr g"
      "exclusionary_after oracle ?z = Inr post"
    and valid: "\<forall>r \<in> set (pre @ g @ post). valid_range r"
    and sets: "ranges_set pre = {first_v oracle ..< first_v a}"
      "ranges_set g = {first_v a .. last_v ?z} - ?S"
      "ranges_set post = {last_v ?z <.. last_v oracle}"
    by (metis Un_iff set_append)
  have "find_exclusionary_ranges guides oracle = Inr (pre @ g @ post)"
    using c(1) enc parts
    by (simp add: find_exclusionary_ranges_def ars encompasses_all_def list_all_iff del: last.simps)
  moreover have "ranges_set (pre @ g @ post) = range_set oracle - ?S"
    using bounds(2,3) oa oz unfolding range_set_def ranges_set_simps(3) sets by fastforce
  ultimately show ?thesis using valid c(3) ars by metis
qed

lemma condensed_length_one:
  assumes "condensed (a # b # rs)"
  shows "ranges_set (a # b # rs) \<noteq> range_set oracle"
proof
  assume eq: "ranges_set (a # b # rs) = range_set oracle"
  from assms have ab: "valid_range a" "gap a b" and cb: "condensed (b # rs)" by (auto simp: condensed_Cons)
  from gap_range[OF ab(2)] obtain l r where lr: "{l .. r} = {last_v a <..< first_v b}" "l \<le> r"
    by (auto simp: valid_range_def)
  then have l: "last_v a < l" "l < first_v b" by (metis atLeastAtMost_iff greaterThanLessThan_iff order_refl)+
  have "last_v a \<in> range_set oracle" "first_v b \<in> range_set oracle"
    using eq ab condensed_bounds(1)[OF cb] by (auto simp: range_set_def valid_range_def)
  then have "l \<in> range_set oracle" using l by (auto simp: range_set_def)
  moreover have "l \<notin> ranges_set (b # rs)" "l \<notin> range_set a"
    using l subsetD [OF condensed_bounds(3) [OF cb], of l]
    by (auto simp: range_set_def simp del: ranges_set_simps(2))
  then have "l \<notin> ranges_set (a # b # rs)" by simp
  ultimately show False using eq by blast
qed

lemma range_set_inject: "valid_range a \<Longrightarrow> range_set a = range_set b \<longleftrightarrow> a = b"
  by (auto simp: range_set_def valid_range_def Icc_eq_Icc)

lemma do_ranges_equal_range_ok:
  assumes "rs \<noteq> []" "\<forall>r \<in> set rs. valid_range r" "unnested rs"
  shows "do_ranges_equal_range rs oracle = Inr (ranges_set rs = range_set oracle)"
proof -
  from condense_ranges_ok[OF assms] obtain c where
    c: "condense_ranges rs = Inr c" "condensed c" "ranges_set c = ranges_set rs" by blast
  show ?thesis
  proof (cases c)
    case Nil
    with c(2) show ?thesis by (simp add: condensed_def)
  next
    case (Cons a bs)
    show ?thesis
    proof (cases bs)
      case Nil
      then show ?thesis
        using c Cons range_set_inject [of a "oracle"]
        by (auto simp: do_ranges_equal_range_def condensed_def)
    next
      case (Cons b ds)
      have "ranges_set c \<noteq> range_set oracle"
        using condensed_length_one c(2) \<open>c = a # bs\<close> Cons by blast
      then show ?thesis
        using c Cons \<open>c = a # bs\<close> by (simp add: do_ranges_equal_range_def)
    qed
  qed
qed

end
