(* ===== verification/Match_Pattern.thy ===== *)
theory Match_Pattern
  imports Match_Range "HOL-Library.Multiset"
begin

text \<open>
  The data of the exhaustivity analysis: \<^verbatim>\<open>pattern.rs\<close> (patterns, their
  constructors and arguments), \<^verbatim>\<open>patstack.rs\<close> (rows of patterns),
  \<^verbatim>\<open>matrix.rs\<close> (the rows seen so far) and \<^verbatim>\<open>witness_report.rs\<close> (what a
  pattern still catches). Operations that can fail return a \<open>result\<close>; the spans and the
  handler that only feed error messages are left out.
\<close>

section \<open>Patterns\<close>

text \<open>
  \<^verbatim>\<open>StructPattern\<close> and \<^verbatim>\<open>EnumPattern\<close> are inlined into their constructors (a
  record cannot take part in a recursive datatype). A \<^verbatim>\<open>PatStack\<close> is its vector.
\<close>

datatype pattern =
    Wildcard
  | U8 "u8 range"
  | U16 "u16 range"
  | U32 "u32 range"
  | U64 "u64 range"
  | B256 "u8 list"
  | Boolean bool
  | Numeric "u64 range"
  | PString string
  | Struct string "(string \<times> pattern) list"
  | Enum string string pattern
  | Tuple "pattern list"
  | Or "pattern list"

type_synonym pat_stack = "pattern list"

type_synonym matrix = "pat_stack list"

fun is_or :: "pattern \<Rightarrow> bool" where
  "is_or (Or _) = True"
| "is_or _ = False"

subsection \<open>Scrutinees\<close>

datatype literal =
    LitU8 u8
  | LitU16 u16
  | LitU32 u32
  | LitU64 u64
  | LitU256 nat
  | LitString string
  | LitNumeric u64
  | LitBoolean bool
  | LitB256 "u8 list"

datatype ty_scrutinee =
    ScrOr "ty_scrutinee list"
  | ScrCatchAll
  | ScrLiteral literal
  | ScrVariable string
  | ScrConstant string literal
  | ScrStruct string "(string \<times> ty_scrutinee option) list"
  | ScrEnum string string ty_scrutinee
  | ScrTuple "ty_scrutinee list"

fun from_literal :: "literal \<Rightarrow> pattern result" where
  "from_literal (LitU8 x) = Inr (U8 (from_single x))"
| "from_literal (LitU16 x) = Inr (U16 (from_single x))"
| "from_literal (LitU32 x) = Inr (U32 (from_single x))"
| "from_literal (LitU64 x) = Inr (U64 (from_single x))"
| "from_literal (LitU256 x) =
     (if x < 2 ^ 64 then Inr (U64 (from_single (of_nat x)))
      else Inl (Panic ''pattern only works with 64 bits''))"
| "from_literal (LitB256 x) = Inr (B256 x)"
| "from_literal (LitBoolean b) = Inr (Boolean b)"
| "from_literal (LitNumeric x) = Inr (Numeric (from_single x))"
| "from_literal (LitString s) = Inr (PString s)"

fun from_scrutinee :: "ty_scrutinee \<Rightarrow> pattern result" where
  "from_scrutinee ScrCatchAll = Inr Wildcard"
| "from_scrutinee (ScrVariable _) = Inr Wildcard"
| "from_scrutinee (ScrLiteral value) = from_literal value"
| "from_scrutinee (ScrConstant _ value) = from_literal value"
| "from_scrutinee (ScrStruct struct_name flds) =
     bindE (mapM (\<lambda>(field, scr). case scr of
              Some s \<Rightarrow> bindE (from_scrutinee s) (\<lambda>f. Inr (field, f))
            | None \<Rightarrow> Inr (field, Wildcard)) flds)
       (\<lambda>new_fields. Inr (Struct struct_name new_fields))"
| "from_scrutinee (ScrOr elems) =
     bindE (mapM from_scrutinee elems) (\<lambda>new_elems. Inr (Or new_elems))"
| "from_scrutinee (ScrTuple elems) =
     bindE (mapM from_scrutinee elems) (\<lambda>new_elems. Inr (Tuple new_elems))"
| "from_scrutinee (ScrEnum enum_name variant_name value) =
     bindE (from_scrutinee value) (\<lambda>v. Inr (Enum enum_name variant_name v))"

subsection \<open>Constructors and arguments\<close>

text \<open>The \<open>a\<close> value of a pattern: the number of sub-patterns of its constructor.\<close>

fun a_value :: "pattern \<Rightarrow> nat" where
  "a_value (U8 _) = 0"
| "a_value (U16 _) = 0"
| "a_value (U32 _) = 0"
| "a_value (U64 _) = 0"
| "a_value (B256 _) = 0"
| "a_value (Boolean _) = 0"
| "a_value (Numeric _) = 0"
| "a_value (PString _) = 0"
| "a_value (Struct _ flds) = length flds"
| "a_value (Enum _ _ _) = 1"
| "a_value (Tuple elems) = length elems"
| "a_value Wildcard = 0"
| "a_value (Or elems) = length elems"

fun has_the_same_constructor :: "pattern \<Rightarrow> pattern \<Rightarrow> bool result" where
  "has_the_same_constructor Wildcard other = (case other of Wildcard \<Rightarrow> Inr True | _ \<Rightarrow> Inr False)"
| "has_the_same_constructor (U8 a) other = (case other of U8 b \<Rightarrow> Inr (a = b) | _ \<Rightarrow> Inr False)"
| "has_the_same_constructor (U16 a) other = (case other of U16 b \<Rightarrow> Inr (a = b) | _ \<Rightarrow> Inr False)"
| "has_the_same_constructor (U32 a) other = (case other of U32 b \<Rightarrow> Inr (a = b) | _ \<Rightarrow> Inr False)"
| "has_the_same_constructor (U64 a) other = (case other of U64 b \<Rightarrow> Inr (a = b) | _ \<Rightarrow> Inr False)"
| "has_the_same_constructor (B256 a) other = (case other of B256 b \<Rightarrow> Inr (a = b) | _ \<Rightarrow> Inr False)"
| "has_the_same_constructor (Boolean a) other =
     (case other of Boolean b \<Rightarrow> Inr (a = b) | _ \<Rightarrow> Inr False)"
| "has_the_same_constructor (Numeric a) other =
     (case other of Numeric b \<Rightarrow> Inr (a = b) | _ \<Rightarrow> Inr False)"
| "has_the_same_constructor (PString a) other =
     (case other of PString b \<Rightarrow> Inr (a = b) | _ \<Rightarrow> Inr False)"
| "has_the_same_constructor (Struct struct_name1 fields1) other =
     (case other of
        Struct struct_name2 fields2 \<Rightarrow>
          Inr (struct_name1 = struct_name2 \<and> length fields1 = length fields2)
      | _ \<Rightarrow> Inr False)"
| "has_the_same_constructor (Enum enum_name1 variant_name1 _) other =
     (case other of
        Enum enum_name2 variant_name2 _ \<Rightarrow>
          Inr (enum_name1 = enum_name2 \<and> variant_name1 = variant_name2)
      | _ \<Rightarrow> Inr False)"
| "has_the_same_constructor (Tuple elems1) other =
     (case other of Tuple elems2 \<Rightarrow> Inr (length elems1 = length elems2) | _ \<Rightarrow> Inr False)"
| "has_the_same_constructor (Or _) other =
     (case other of
        Or _ \<Rightarrow> Inl (Panic ''internal error: entered unreachable code'')
      | _ \<Rightarrow> Inr False)"

fun sub_patterns :: "pattern \<Rightarrow> pat_stack result" where
  "sub_patterns self =
     (let pats = (case self of
            Struct _ flds \<Rightarrow> map snd flds
          | Enum _ _ v \<Rightarrow> [v]
          | Tuple elems \<Rightarrow> elems
          | _ \<Rightarrow> [])
      in if a_value self \<noteq> length pats then Inl (Internal ''invariant self.a() == pats.len() broken'')
         else Inr pats)"

text \<open>One layer of or-patterns, as a row.\<close>

fun pattern_flatten :: "pattern \<Rightarrow> pat_stack" where
  "pattern_flatten (Or pats) = pats"
| "pattern_flatten pat = [pat]"

fun into_root_constructor :: "pattern \<Rightarrow> pattern" where
  "into_root_constructor Wildcard = Wildcard"
| "into_root_constructor (U8 n) = U8 n"
| "into_root_constructor (U16 n) = U16 n"
| "into_root_constructor (U32 n) = U32 n"
| "into_root_constructor (U64 n) = U64 n"
| "into_root_constructor (B256 n) = B256 n"
| "into_root_constructor (Boolean b) = Boolean b"
| "into_root_constructor (Numeric n) = Numeric n"
| "into_root_constructor (PString s) = PString s"
| "into_root_constructor (Struct struct_name flds) =
     Struct struct_name (map (\<lambda>(name, _). (name, Wildcard)) flds)"
| "into_root_constructor (Enum enum_name variant_name _) = Enum enum_name variant_name Wildcard"
| "into_root_constructor (Tuple elems) = Tuple (replicate (length elems) Wildcard)"
| "into_root_constructor (Or elems) = Or (map into_root_constructor elems)"

section \<open>Rows of patterns\<close>

definition fill_wildcards :: "nat \<Rightarrow> pat_stack" where
  "fill_wildcards n = replicate n Wildcard"

fun pat_stack_first :: "pat_stack \<Rightarrow> pattern result" where
  "pat_stack_first (p # _) = Inr p"
| "pat_stack_first [] = Inl (Internal ''empty PatStack'')"

fun split_first :: "pat_stack \<Rightarrow> (pattern \<times> pat_stack) result" where
  "split_first (p # ps) = Inr (p, ps)"
| "split_first [] = Inl (Internal ''empty PatStack'')"

lemma split_first_Inr_iff [simp]: "split_first row = Inr (p, ps) \<longleftrightarrow> row = p # ps"
  by (cases row) auto

lemma pat_stack_first_Inr_iff [simp]: "pat_stack_first row = Inr p \<longleftrightarrow> (\<exists>ps. row = p # ps)"
  by (cases row) auto

definition pat_stack_split_at :: "pat_stack \<Rightarrow> nat \<Rightarrow> (pat_stack \<times> pat_stack) result" where
  "pat_stack_split_at self n =
     (if n > length self then Inl (Internal ''attempting to split OOB'')
      else Inr (take n self, drop n self))"

fun contains_or_pattern :: "pat_stack \<Rightarrow> bool" where
  "contains_or_pattern [] = False"
| "contains_or_pattern (pat # pats) = (if is_or pat then True else contains_or_pattern pats)"

definition pat_stack_flatten :: "pat_stack \<Rightarrow> pat_stack" where
  "pat_stack_flatten self = concat (map pattern_flatten self)"

definition filter_out_wildcards :: "pat_stack \<Rightarrow> pat_stack" where
  "filter_out_wildcards self = filter (\<lambda>pat. pat \<noteq> Wildcard) self"

definition pat_stack_is_empty :: "pat_stack \<Rightarrow> bool" where
  "pat_stack_is_empty self \<longleftrightarrow> filter_out_wildcards (pat_stack_flatten self) = []"

definition remove_duplicates :: "pat_stack \<Rightarrow> pat_stack" where
  "remove_duplicates self = fold push_if_absent self []"

text \<open>
  The loop body of \<^verbatim>\<open>serialize_multi_patterns\<close> for a row that still has an or-pattern:
  for every or-pattern of the row, and every alternative of it, the row with the
  or-pattern replaced by the alternative.
\<close>

definition expand_or_patterns :: "pat_stack \<Rightarrow> pat_stack list" where
  "expand_or_patterns row =
     concat (map (\<lambda>(i, pat). case pat of
         Or elems \<Rightarrow> map (\<lambda>elem. row[i := elem]) elems
       | _ \<Rightarrow> [])
       (enumerate 0 row))"

lemma contains_or_pattern_iff: "contains_or_pattern row \<longleftrightarrow> (\<exists>p \<in> set row. is_or p)"
  by (induction row) auto

lemma size_list_update_less:
  "i < length xs \<Longrightarrow> f y < f (xs ! i) \<Longrightarrow> size_list f (xs[i := y]) < size_list f xs"
  by (induction xs arbitrary: i) (auto split: nat.splits)

lemma size_list_member: "x \<in> set xs \<Longrightarrow> f x < size_list f xs"
  by (induction xs) auto

lemma expand_or_patterns_size:
  "row' \<in> set (expand_or_patterns row) \<Longrightarrow> size_list size row' < size_list size row"
  by (auto simp: expand_or_patterns_def in_set_enumerate_eq split: pattern.splits
      intro!: size_list_update_less) (metis size_list_member less_SucI)

function serialize_loop :: "pat_stack list \<Rightarrow> pat_stack list \<Rightarrow> pat_stack list" where
  "serialize_loop stack output =
     (case vec_pop stack of
        None \<Rightarrow> rev output
      | Some (tp, stack') \<Rightarrow>
          if \<not> contains_or_pattern tp then serialize_loop stack' (vec_push output tp)
          else serialize_loop (stack' @ expand_or_patterns tp) output)"
  by pat_completeness auto
termination
proof (relation "inv_image (mult less_than) (\<lambda>(stack, output). image_mset (size_list size) (mset stack))",
    goal_cases)
  case 1
  show ?case by (simp add: wf_mult)
next
  case (2 stack out x tp stack')
  then show ?case
    using one_step_implies_mult [of "{#size_list size tp#}" "{#}" less_than]
    by (auto simp: vec_pop_Some_iff)
next
  case (3 stack out x tp stack')
  then show ?case
    using one_step_implies_mult [of "{#size_list size tp#}"
        "image_mset (size_list size) (mset (expand_or_patterns tp))" less_than
        "image_mset (size_list size) (mset stack')"] expand_or_patterns_size [of _ tp]
    by (auto simp: vec_pop_Some_iff)
qed

declare serialize_loop.simps [simp del]

definition serialize_multi_patterns :: "pat_stack \<Rightarrow> pat_stack list result" where
  "serialize_multi_patterns self = Inr (serialize_loop [self] [])"

section \<open>From rows back to patterns\<close>

fun from_pat_stack :: "pat_stack \<Rightarrow> pattern result" where
  "from_pat_stack pats = (if length pats = 1 then pat_stack_first pats else Inr (Or pats))"

text \<open>The arms of the constructors without arguments share one check.\<close>

definition nullary_constructor :: "pattern \<Rightarrow> pat_stack \<Rightarrow> pattern result" where
  "nullary_constructor c args =
     (if \<not> pat_stack_is_empty args then Inl (Internal ''malformed constructor request'') else Inr c)"

fun from_constructor_and_arguments :: "pattern \<Rightarrow> pat_stack \<Rightarrow> pattern result" where
  "from_constructor_and_arguments Wildcard args = nullary_constructor Wildcard args"
| "from_constructor_and_arguments (U8 r) args = nullary_constructor (U8 r) args"
| "from_constructor_and_arguments (U16 r) args = nullary_constructor (U16 r) args"
| "from_constructor_and_arguments (U32 r) args = nullary_constructor (U32 r) args"
| "from_constructor_and_arguments (U64 r) args = nullary_constructor (U64 r) args"
| "from_constructor_and_arguments (B256 b) args = nullary_constructor (B256 b) args"
| "from_constructor_and_arguments (Boolean b) args = nullary_constructor (Boolean b) args"
| "from_constructor_and_arguments (Numeric r) args = nullary_constructor (Numeric r) args"
| "from_constructor_and_arguments (PString s) args = nullary_constructor (PString s) args"
| "from_constructor_and_arguments (Struct struct_name flds) args =
     (if length args \<noteq> length flds then Inl (Internal ''malformed constructor request'')
      else bindE (serialize_multi_patterns args) (\<lambda>rows.
           from_pat_stack (map (\<lambda>row. Struct struct_name
             (map (\<lambda>((name, _), arg). (name, arg)) (zip flds row))) rows)))"
| "from_constructor_and_arguments (Enum enum_name variant_name _) args =
     (if length args \<noteq> 1 then Inl (Internal ''malformed constructor request'')
      else bindE (serialize_multi_patterns args) (\<lambda>rows.
           bindE (mapM (\<lambda>row. bindE (pat_stack_first row) (\<lambda>arg.
                     Inr (Enum enum_name variant_name arg))) rows) (\<lambda>pats.
           from_pat_stack pats)))"
| "from_constructor_and_arguments (Tuple elems) args =
     (if length elems \<noteq> length args then Inl (Internal ''malformed constructor request'')
      else bindE (serialize_multi_patterns args) (\<lambda>rows. from_pat_stack (map Tuple rows)))"
| "from_constructor_and_arguments (Or elems) args =
     (if length elems \<noteq> length args then Inl (Internal ''malformed constructor request'')
      else bindE (serialize_multi_patterns args) (\<lambda>rows. from_pat_stack (map Or rows)))"

section \<open>Matrices\<close>

definition m_n :: "matrix \<Rightarrow> (nat \<times> nat) result" where
  "m_n rows =
     (case rows of
        [] \<Rightarrow> Inr (0, 0)
      | fst_row # rest \<Rightarrow>
          let n = length fst_row in
          if \<exists>row \<in> set rest. length row \<noteq> n then Inl (Internal ''found invalid matrix size'')
          else Inr (length rows, n))"

definition compute_sigma :: "matrix \<Rightarrow> pat_stack result" where
  "compute_sigma rows =
     bindE (mapM (\<lambda>row. bindE (pat_stack_first row) (\<lambda>p. Inr (into_root_constructor p))) rows)
       (\<lambda>pats. Inr (remove_duplicates pats))"

section \<open>Witness reports\<close>

datatype witness_report = NoWitnesses | Witnesses pat_stack

fun join_witness_reports :: "witness_report \<Rightarrow> witness_report \<Rightarrow> witness_report" where
  "join_witness_reports NoWitnesses NoWitnesses = NoWitnesses"
| "join_witness_reports NoWitnesses (Witnesses wits) = Witnesses wits"
| "join_witness_reports (Witnesses wits) NoWitnesses = Witnesses wits"
| "join_witness_reports (Witnesses wits1) (Witnesses wits2) = Witnesses (wits1 @ wits2)"

fun split_into_leading_constructor ::
  "witness_report \<Rightarrow> pattern \<Rightarrow> (pattern \<times> witness_report) result" where
  "split_into_leading_constructor NoWitnesses c =
     Inl (Internal ''expected to find witnesses to use as arguments to a constructor'')"
| "split_into_leading_constructor (Witnesses witnesses) c =
     bindE (pat_stack_split_at witnesses (a_value c)) (\<lambda>(rs, ps).
     bindE (from_constructor_and_arguments c rs) (\<lambda>pat. Inr (pat, Witnesses ps)))"

fun add_witness :: "witness_report \<Rightarrow> pattern \<Rightarrow> witness_report result" where
  "add_witness NoWitnesses witness = Inl (Internal ''expected to find witnesses'')"
| "add_witness (Witnesses witnesses) witness = Inr (Witnesses (witness # witnesses))"

fun has_witnesses :: "witness_report \<Rightarrow> bool" where
  "has_witnesses NoWitnesses = False"
| "has_witnesses (Witnesses _) = True"

end
