(* ===== verification/Match_Factory.thy ===== *)
theory Match_Factory
  imports Match_Pattern
begin

text \<open>
  \<^verbatim>\<open>constructor_factory.rs\<close>: deciding whether the head constructors of a matrix column
  form a complete signature of their type, and making a pattern for the constructors that
  are missing.
\<close>

section \<open>Serialized rows have no or-patterns\<close>

lemma serialize_loop_no_or:
  assumes "row \<in> set (serialize_loop stack out)" and "\<forall>r \<in> set out. \<not> contains_or_pattern r"
  shows "\<not> contains_or_pattern row"
  using assms
proof (induction stack out rule: serialize_loop.induct)
  case (1 stack out)
  show ?case
  proof (cases "vec_pop stack")
    case None
    with 1(3,4) show ?thesis by (simp add: serialize_loop.simps [of stack])
  next
    case (Some p)
    then obtain tp stack' where p: "vec_pop stack = Some (tp, stack')" by (cases p) auto
    show ?thesis
    proof (cases "contains_or_pattern tp")
      case True
      with p 1(3,4) show ?thesis
        by (intro 1(2) [OF p refl])
          (auto simp: serialize_loop.simps [of stack])
    next
      case False
      with p 1(3,4) show ?thesis
        by (intro 1(1) [OF p refl])
          (auto simp: serialize_loop.simps [of stack] vec_push_def)
    qed
  qed
qed

lemma serialize_multi_patterns_no_or:
  assumes "serialize_multi_patterns ps = Inr rows" "row \<in> set rows" "p \<in> set row"
  shows "\<not> is_or p"
  using assms serialize_loop_no_or [of row "[ps]" "[]"]
  by (auto simp: serialize_multi_patterns_def contains_or_pattern_iff)

text \<open>A row without or-patterns is its own serialization.\<close>

lemma serialize_or_free:
  "\<not> contains_or_pattern ps \<Longrightarrow> serialize_multi_patterns ps = Inr [ps]"
  using serialize_loop.simps [of "[ps]" "[]"] serialize_loop.simps [of "[]" "[ps]"]
  by (simp add: serialize_multi_patterns_def vec_pop_def vec_push_def)

section \<open>Types\<close>

text \<open>
  \<^verbatim>\<open>TypeInfo\<close> with the ids of the type and declaration engines resolved: an enum or
  struct type carries the name (\<^verbatim>\<open>call_path.suffix\<close>) and the variants or fields of its
  declaration. \<open>OtherType\<close> stands for the constructors the analysis treats alike.
\<close>

datatype type_info =
    Unknown
  | Never
  | StringSlice
  | UnsignedInteger nat
  | EnumType string "(string \<times> type_info) list"
  | StructType string "(string \<times> type_info) list"
  | BooleanType
  | TupleType "type_info list"
  | B256Type
  | NumericType
  | ErrorRecovery
  | Alias string type_info
  | OtherType string

fun has_valid_constructor :: "type_info \<Rightarrow> bool" where
  "has_valid_constructor Unknown = False"
| "has_valid_constructor Never = False"
| "has_valid_constructor (EnumType _ variants) = (variants \<noteq> [])"
| "has_valid_constructor _ = True"

fun expect_enum :: "type_info \<Rightarrow> (string \<times> (string \<times> type_info) list) result" where
  "expect_enum (EnumType name variants) = Inr (name, variants)"
| "expect_enum (Alias _ ty) = expect_enum ty"
| "expect_enum ErrorRecovery = Inl (Internal ''error recovery'')"
| "expect_enum _ = Inl NotAnEnum"

fun matches_type_info :: "pattern \<Rightarrow> type_info \<Rightarrow> bool" where
  "matches_type_info (Enum l_enum_name variant_name _) (EnumType r_enum_name variants) \<longleftrightarrow>
     l_enum_name = r_enum_name \<and> variant_name \<in> set (map fst variants)"
| "matches_type_info _ _ = False"

section \<open>The factory\<close>

record constructor_factory =
  possible_types :: "type_info list"

definition resolve_possible_types :: "constructor_factory \<Rightarrow> pattern \<Rightarrow> type_info result" where
  "resolve_possible_types self pattern =
     (case find (matches_type_info pattern) (possible_types self) of
        Some ty \<Rightarrow> Inr ty
      | None \<Rightarrow> Inl (Internal ''there is no type that matches this pattern''))"

text \<open>
  The two \<^verbatim>\<open>HashSet\<close>s of \<^verbatim>\<open>resolve_enum\<close> as lists: the declared variants in
  declaration order and the variants seen. The iteration order of a \<^verbatim>\<open>HashSet\<close> is
  unspecified; the model fixes the declaration order.
\<close>

definition resolve_enum ::
  "string \<Rightarrow> (string \<times> type_info) list \<Rightarrow> string \<Rightarrow> string \<Rightarrow> pat_stack
     \<Rightarrow> (string list \<times> string list) result" where
  "resolve_enum enum_name enum_variants pat_enum_name pat_variant_name rest =
     (if pat_enum_name \<noteq> enum_name then Inl (Internal ''expected matching enum names'')
      else
        bindE (mapM (\<lambda>pat. case pat of
            Enum enum_name2 variant_name2 _ \<Rightarrow>
              if enum_name2 \<noteq> enum_name then Inl (Internal ''expected matching enum names'')
              else Inr variant_name2
          | _ \<Rightarrow> Inl (Internal ''expected all patterns to be of the same type'')) rest)
          (\<lambda>seen. Inr (remdups (map fst enum_variants), pat_variant_name # seen)))"

definition hash_difference :: "string list \<Rightarrow> string list \<Rightarrow> string list" where
  "hash_difference all_variants variant_tracker =
     filter (\<lambda>x. x \<notin> set variant_tracker) all_variants"

abbreviation (input) wrong_type :: "'a result" where
  "wrong_type \<equiv> Inl (Internal ''expected all patterns to be of the same type'')"

definition collect_u8 :: "pat_stack \<Rightarrow> u8 range list result" where
  "collect_u8 rest = mapM (\<lambda>pat. case pat of U8 r \<Rightarrow> Inr r | _ \<Rightarrow> wrong_type) rest"

definition collect_u16 :: "pat_stack \<Rightarrow> u16 range list result" where
  "collect_u16 rest = mapM (\<lambda>pat. case pat of U16 r \<Rightarrow> Inr r | _ \<Rightarrow> wrong_type) rest"

definition collect_u32 :: "pat_stack \<Rightarrow> u32 range list result" where
  "collect_u32 rest = mapM (\<lambda>pat. case pat of U32 r \<Rightarrow> Inr r | _ \<Rightarrow> wrong_type) rest"

definition collect_u64 :: "pat_stack \<Rightarrow> u64 range list result" where
  "collect_u64 rest = mapM (\<lambda>pat. case pat of U64 r \<Rightarrow> Inr r | _ \<Rightarrow> wrong_type) rest"

definition collect_numeric :: "pat_stack \<Rightarrow> u64 range list result" where
  "collect_numeric rest = mapM (\<lambda>pat. case pat of Numeric r \<Rightarrow> Inr r | _ \<Rightarrow> wrong_type) rest"

definition collect_boolean :: "pat_stack \<Rightarrow> bool list result" where
  "collect_boolean rest = mapM (\<lambda>pat. case pat of Boolean b \<Rightarrow> Inr b | _ \<Rightarrow> wrong_type) rest"

definition boolean_not_present :: "bool \<Rightarrow> pat_stack \<Rightarrow> pattern result" where
  "boolean_not_present b rest =
     (let true_found = b \<or> Boolean True \<in> set rest;
          false_found = \<not> b \<or> Boolean True \<notin> set rest \<and> Boolean False \<in> set rest
      in if true_found \<and> false_found then Inl (Internal ''unable to create a new pattern'')
         else if true_found then Inr (Boolean False)
         else Inr (Boolean True))"

lemma flatten_size:
  assumes "p \<in> set (pat_stack_flatten sigma)"
  shows "size p < size_list size sigma"
proof -
  from assms obtain q where q: "q \<in> set sigma" "p \<in> set (pattern_flatten q)"
    by (auto simp: pat_stack_flatten_def)
  have "size p \<le> size q"
    using q(2) by (cases q) (auto dest!: size_list_member [where f = size])
  with size_list_member [OF q(1), of size] show ?thesis by simp
qed

function create_pattern_not_present :: "constructor_factory \<Rightarrow> pat_stack \<Rightarrow> pattern result" where
  "create_pattern_not_present self sigma =
     bindE (split_first (filter_out_wildcards (pat_stack_flatten sigma))) (\<lambda>(fst_p, rest).
     case fst_p of
       U8 r \<Rightarrow> bindE (collect_u8 rest) (\<lambda>rs.
         bindE (find_exclusionary_ranges (r # rs) range_u8) (\<lambda>ex. from_pat_stack (map U8 ex)))
     | U16 r \<Rightarrow> bindE (collect_u16 rest) (\<lambda>rs.
         bindE (find_exclusionary_ranges (r # rs) range_u16) (\<lambda>ex. from_pat_stack (map U16 ex)))
     | U32 r \<Rightarrow> bindE (collect_u32 rest) (\<lambda>rs.
         bindE (find_exclusionary_ranges (r # rs) range_u32) (\<lambda>ex. from_pat_stack (map U32 ex)))
     | U64 r \<Rightarrow> bindE (collect_u64 rest) (\<lambda>rs.
         bindE (find_exclusionary_ranges (r # rs) range_u64) (\<lambda>ex. from_pat_stack (map U64 ex)))
     | Numeric r \<Rightarrow> bindE (collect_numeric rest) (\<lambda>rs.
         bindE (find_exclusionary_ranges (r # rs) range_u64) (\<lambda>ex. from_pat_stack (map Numeric ex)))
     | PString _ \<Rightarrow> Inr Wildcard
     | Wildcard \<Rightarrow> Inr Wildcard
     | B256 _ \<Rightarrow> Inr Wildcard
     | Boolean b \<Rightarrow> boolean_not_present b rest
     | Struct struct_name flds \<Rightarrow> Inr (Struct struct_name (map (\<lambda>(name, _). (name, Wildcard)) flds))
     | Enum pat_enum_name pat_variant_name _ \<Rightarrow>
         bindE (resolve_possible_types self fst_p) (\<lambda>ty.
         bindE (expect_enum ty) (\<lambda>(enum_name, enum_variants).
         bindE (resolve_enum enum_name enum_variants pat_enum_name pat_variant_name rest)
           (\<lambda>(all_variants, variant_tracker).
         from_pat_stack (map (\<lambda>x. Enum enum_name x Wildcard)
           (hash_difference all_variants variant_tracker)))))
     | Tuple elems \<Rightarrow> Inr (Tuple (fill_wildcards (length elems)))
     | Or elems \<Rightarrow>
         bindE (mapM (\<lambda>pat. create_pattern_not_present self [pat]) elems) from_pat_stack)"
  by pat_completeness auto
termination
proof (relation "measure (\<lambda>(self, sigma). size_list size sigma)", goal_cases)
  case 1
  show ?case by simp
next
  case (2 self sigma x fst_p rest elems pat)
  then have "fst_p \<in> set (filter_out_wildcards (pat_stack_flatten sigma))"
    by (cases "filter_out_wildcards (pat_stack_flatten sigma)") auto
  then have "size (Or elems) < size_list size sigma"
    using 2 by (intro flatten_size) (auto simp: filter_out_wildcards_def)
  moreover have "size_list size [pat] < size (Or elems) + 1"
    using size_list_member [of pat elems size] 2 by simp
  ultimately show ?case by simp
qed

declare create_pattern_not_present.simps [simp del]

fun all_same_constructor :: "pattern \<Rightarrow> pat_stack \<Rightarrow> bool result" where
  "all_same_constructor c [] = Inr True"
| "all_same_constructor c (pat # rest) =
     bindE (has_the_same_constructor pat c) (\<lambda>same.
     if \<not> same then Inr False else all_same_constructor c rest)"

function is_complete_signature :: "constructor_factory \<Rightarrow> pat_stack \<Rightarrow> bool result" where
  "is_complete_signature self sigma =
     bindE (serialize_multi_patterns sigma) (\<lambda>rows.
     let pat_stack = concat rows in
     if pat_stack_is_empty pat_stack then Inr False
     else if Wildcard \<in> set pat_stack then Inr True
     else bindE (split_first pat_stack) (\<lambda>(fst_p, rest).
       case fst_p of
         PString _ \<Rightarrow> Inr False
       | B256 _ \<Rightarrow> Inr False
       | U8 r \<Rightarrow> bindE (collect_u8 rest) (\<lambda>rs. do_ranges_equal_range (r # rs) range_u8)
       | U16 r \<Rightarrow> bindE (collect_u16 rest) (\<lambda>rs. do_ranges_equal_range (r # rs) range_u16)
       | U32 r \<Rightarrow> bindE (collect_u32 rest) (\<lambda>rs. do_ranges_equal_range (r # rs) range_u32)
       | U64 r \<Rightarrow> bindE (collect_u64 rest) (\<lambda>rs. do_ranges_equal_range (r # rs) range_u64)
       | Numeric r \<Rightarrow> bindE (collect_numeric rest) (\<lambda>rs. do_ranges_equal_range (r # rs) range_u64)
       | Boolean b \<Rightarrow> bindE (collect_boolean rest) (\<lambda>bs.
           Inr (True \<in> set (b # bs) \<and> False \<in> set (b # bs)))
       | Enum pat_enum_name pat_variant_name _ \<Rightarrow>
           bindE (resolve_possible_types self fst_p) (\<lambda>ty.
           bindE (expect_enum ty) (\<lambda>(enum_name, enum_variants).
           bindE (resolve_enum enum_name enum_variants pat_enum_name pat_variant_name rest)
             (\<lambda>(all_variants, variant_tracker).
           Inr (hash_difference all_variants variant_tracker = []))))
       | Tuple _ \<Rightarrow> all_same_constructor fst_p rest
       | Struct _ _ \<Rightarrow> all_same_constructor fst_p rest
       | Wildcard \<Rightarrow> Inl (Internal ''expected the wildcard pattern to be filtered out here'')
       | Or elems \<Rightarrow> is_complete_signature self (elems @ rest)))"
  by pat_completeness auto
termination
proof (relation "measure (\<lambda>(self, sigma). 0)", goal_cases)
  case 1
  show ?case by simp
next
  case (2 self sigma rows pat_stack x fst_p rest elems)
  then have "Or elems \<in> set (concat rows)"
    by (cases "concat rows") auto
  then show ?case
    using serialize_multi_patterns_no_or [OF 2(1), of _ "Or elems"] by auto
qed

declare is_complete_signature.simps [simp del]

end
