(* ===== verification/Match_Usefulness.thy ===== *)
theory Match_Usefulness
  imports Match_Factory
begin

text \<open>
  \<^verbatim>\<open>usefulness.rs\<close>: the usefulness algorithm \<open>U(P, q)\<close> (after Maranget), the default
  and the specialized matrix it recurses on, and the entry point that checks the arms of a
  match expression for exhaustivity and reachability.

  The recursion of \<open>U(P, q)\<close> is fuelled: \<open>is_useful k\<close> allows \<open>k\<close> nested calls and
  reports \<open>OutOfFuel\<close> beyond. \<^verbatim>\<open>is_useful_wildcard\<close>, \<^verbatim>\<open>is_useful_constructed\<close>
  and \<^verbatim>\<open>is_useful_or\<close> are not recursive themselves; they take the recursive call as
  the argument \<open>U\<close>.
\<close>

section \<open>Default matrix\<close>

definition head_size :: "pat_stack \<Rightarrow> nat" where
  "head_size row = (case row of [] \<Rightarrow> 0 | p # _ \<Rightarrow> size p)"

definition heads_size :: "matrix \<Rightarrow> nat" where
  "heads_size p = size_list head_size p"

definition misshapen :: "nat \<Rightarrow> nat \<Rightarrow> nat \<Rightarrow> string \<Rightarrow> matrix \<Rightarrow> matrix result" where
  "misshapen m n columns_plus_one msg rows =
     (if m > 0 then
        if columns_plus_one = 0 then Inl (Panic ''attempt to subtract with overflow'')
        else if n \<noteq> columns_plus_one - 1 then Inl (Internal msg)
        else Inr rows
      else Inr rows)"

lemma head_size_Cons [simp]: "head_size (p # rest) = size p"
  by (simp add: head_size_def)

lemma heads_size_member: "row \<in> set p \<Longrightarrow> head_size row < heads_size p"
  unfolding heads_size_def by (rule size_list_member)

lemma heads_size_alternatives:
  "heads_size (map (\<lambda>pat. pat # rest) pats) < size (Or pats)"
  by (induction pats) (auto simp: heads_size_def)

function compute_default_matrix :: "matrix \<Rightarrow> pat_stack \<Rightarrow> matrix result"
  and compute_default_matrix_row :: "pat_stack \<Rightarrow> pat_stack \<Rightarrow> pat_stack list result" where
  "compute_default_matrix p q =
     bindE (mapM (\<lambda>p_i. compute_default_matrix_row p_i q) p) (\<lambda>rowss.
     bindE (m_n (concat rowss)) (\<lambda>(m, n).
     misshapen m n (length q) ''D(P) matrix is misshapen'' (concat rowss)))"
| "compute_default_matrix_row p_i q =
     bindE (split_first p_i) (\<lambda>(p_i_1, p_i_rest).
     case p_i_1 of
       Wildcard \<Rightarrow> Inr [p_i_rest]
     | Or pats \<Rightarrow> compute_default_matrix (map (\<lambda>pat. pat # p_i_rest) pats) q
     | _ \<Rightarrow> Inr [])"
  by pat_completeness auto

termination
proof (relation "measure (case_sum (\<lambda>(p, q). 2 * heads_size p + 1) (\<lambda>(p_i, q). 2 * head_size p_i + 2))",
    goal_cases)
  case 1
  show ?case by simp
next
  case (2 p q z)
  then show ?case using heads_size_member [of z p] by simp
next
  case (3 p_i q x p_i_1 p_i_rest pats)
  then show ?case using heads_size_alternatives [of p_i_rest pats]
    by (cases p_i) (auto simp: head_size_def)
qed

declare compute_default_matrix.simps [simp del] compute_default_matrix_row.simps [simp del]

section \<open>Specialized matrix\<close>

lemma specialized_row_decreases:
  "p_i \<in> set p \<Longrightarrow> Suc (2 * head_size p_i) < 2 * heads_size p"
  using heads_size_member [of p_i p] by simp

lemma specialized_alternatives_decrease:
  "2 * heads_size (map (\<lambda>pat. pat # rest) pats) < Suc (Suc (Suc (2 * size_list size pats)))"
  using heads_size_alternatives [of rest pats] by simp

function compute_specialized_matrix :: "pattern \<Rightarrow> matrix \<Rightarrow> pat_stack \<Rightarrow> matrix result"
  and compute_specialized_matrix_row ::
    "pattern \<Rightarrow> pat_stack \<Rightarrow> pat_stack \<Rightarrow> pat_stack list result" where
  "compute_specialized_matrix c p q =
     (case c of
        Or cpats \<Rightarrow>
          bindE (mapM (\<lambda>cpat. compute_specialized_matrix cpat p q) cpats) (\<lambda>rowss. Inr (concat rowss))
      | _ \<Rightarrow>
          bindE (mapM (\<lambda>p_i. compute_specialized_matrix_row c p_i q) p) (\<lambda>rowss.
          bindE (m_n (concat rowss)) (\<lambda>(m, n).
          misshapen m n (a_value c + length q) ''S(c,P) matrix is misshapen'' (concat rowss))))"
| "compute_specialized_matrix_row c p_i q =
     bindE (split_first p_i) (\<lambda>(p_i_1, p_i_rest).
     case p_i_1 of
       Wildcard \<Rightarrow> Inr [fill_wildcards (a_value c) @ p_i_rest]
     | Or pats \<Rightarrow> compute_specialized_matrix c (map (\<lambda>pat. pat # p_i_rest) pats) q
     | other \<Rightarrow>
         bindE (has_the_same_constructor c other) (\<lambda>same.
         if same then bindE (sub_patterns other) (\<lambda>row. Inr [row @ p_i_rest]) else Inr []))"
  by pat_completeness auto

termination
  by (relation "measures [case_sum (\<lambda>(c, p, q). size c) (\<lambda>(c, p_i, q). size c),
        case_sum (\<lambda>(c, p, q). 2 * heads_size p + 1) (\<lambda>(c, p_i, q). 2 * head_size p_i + 2)]")
    (auto dest: specialized_row_decreases size_list_member [where f = size]
      intro: specialized_alternatives_decrease)

declare compute_specialized_matrix.simps [simp del] compute_specialized_matrix_row.simps [simp del]

section \<open>Usefulness\<close>

definition join_all ::
  "(matrix \<Rightarrow> pat_stack \<Rightarrow> witness_report result) \<Rightarrow> matrix \<Rightarrow> pat_stack list
     \<Rightarrow> witness_report result" where
  "join_all U s_c_p rows =
     foldM (\<lambda>row wr. bindE (U s_c_p row) (\<lambda>new_wr. Inr (join_witness_reports wr new_wr)))
       rows NoWitnesses"

text \<open>One turn of the loop over the constructors of a complete signature (steps 3.1 to 3.5).\<close>

definition wildcard_complete_step ::
  "(matrix \<Rightarrow> pat_stack \<Rightarrow> witness_report result) \<Rightarrow> matrix \<Rightarrow> pat_stack \<Rightarrow> pattern
     \<Rightarrow> witness_report \<times> pat_stack \<Rightarrow> (witness_report \<times> pat_stack) result" where
  "wildcard_complete_step U p q c_k = (\<lambda>(witness_report, pat_stack).
     bindE (compute_specialized_matrix c_k p q) (\<lambda>s_c_k_p.
     bindE (compute_specialized_matrix c_k [q] q) (\<lambda>s_c_k_q.
     bindE (join_all U s_c_k_p s_c_k_q) (\<lambda>wr.
     case (witness_report, wr) of
       (NoWitnesses, NoWitnesses) \<Rightarrow> Inr (witness_report, pat_stack)
     | (Witnesses _, NoWitnesses) \<Rightarrow> Inr (witness_report, pat_stack)
     | (NoWitnesses, Witnesses _) \<Rightarrow>
         bindE (split_into_leading_constructor wr c_k) (\<lambda>(pat, wr').
         Inr (wr', push_if_absent pat pat_stack))
     | (_, wr) \<Rightarrow>
         bindE (split_into_leading_constructor wr c_k) (\<lambda>(pat, wr').
         Inr (join_witness_reports witness_report wr', push_if_absent pat pat_stack))))))"

definition is_useful_wildcard ::
  "(matrix \<Rightarrow> pat_stack \<Rightarrow> witness_report result) \<Rightarrow> constructor_factory \<Rightarrow> matrix
     \<Rightarrow> pat_stack \<Rightarrow> witness_report result" where
  "is_useful_wildcard U factory p q =
     bindE (compute_sigma p) (\<lambda>sigma.
     bindE (is_complete_signature factory sigma) (\<lambda>is_complete.
     if is_complete then
       bindE (foldM (wildcard_complete_step U p q) sigma (NoWitnesses, [])) (\<lambda>(witness_report, pat_stack).
       case witness_report of
         NoWitnesses \<Rightarrow> Inr NoWitnesses
       | _ \<Rightarrow> bindE (from_pat_stack pat_stack) (add_witness witness_report))
     else
       bindE (compute_default_matrix p q) (\<lambda>d_p.
       bindE (split_first q) (\<lambda>(_, q_rest).
       bindE (U d_p q_rest) (\<lambda>witness_report.
       bindE (if pat_stack_is_empty sigma then Inr Wildcard
              else create_pattern_not_present factory sigma) (\<lambda>witness_to_add.
       case witness_report of
         NoWitnesses \<Rightarrow> Inr NoWitnesses
       | _ \<Rightarrow> add_witness witness_report witness_to_add))))))"

definition is_useful_constructed ::
  "(matrix \<Rightarrow> pat_stack \<Rightarrow> witness_report result) \<Rightarrow> matrix \<Rightarrow> pat_stack \<Rightarrow> pattern
     \<Rightarrow> witness_report result" where
  "is_useful_constructed U p q c =
     bindE (compute_specialized_matrix c p q) (\<lambda>s_c_p.
     bindE (compute_specialized_matrix c [q] q) (\<lambda>s_c_q.
     join_all U s_c_p s_c_q))"

definition is_useful_or ::
  "(matrix \<Rightarrow> pat_stack \<Rightarrow> witness_report result) \<Rightarrow> matrix \<Rightarrow> pat_stack \<Rightarrow> pat_stack
     \<Rightarrow> witness_report result" where
  "is_useful_or U p q pats =
     bindE (split_first q) (\<lambda>(_, q_rest).
     bindE (foldM (\<lambda>pat (p, witness_report).
         let v = pat # q_rest in
         bindE (U p v) (\<lambda>wr. Inr (vec_push p v, join_witness_reports witness_report wr)))
       pats (p, NoWitnesses)) (\<lambda>(_, witness_report).
     Inr witness_report))"

fun is_useful :: "nat \<Rightarrow> constructor_factory \<Rightarrow> matrix \<Rightarrow> pat_stack \<Rightarrow> witness_report result" where
  "is_useful 0 factory p q = Inl OutOfFuel"
| "is_useful (Suc fuel) factory p q =
     bindE (m_n p) (\<lambda>(m, n).
     if m = 0 \<and> n = 0 then Inr (Witnesses (fill_wildcards (length q)))
     else if n = 0 then Inr NoWitnesses
     else bindE (pat_stack_first q) (\<lambda>c.
       case c of
         Wildcard \<Rightarrow> is_useful_wildcard (is_useful fuel factory) factory p q
       | Or pats \<Rightarrow> is_useful_or (is_useful fuel factory) p q pats
       | c \<Rightarrow> is_useful_constructed (is_useful fuel factory) p q c))"

section \<open>Match expressions\<close>

record reachable_report =
  reachable :: bool
  scrutinee :: ty_scrutinee

definition check_arm ::
  "nat \<Rightarrow> constructor_factory \<Rightarrow> ty_scrutinee \<Rightarrow> matrix \<times> reachable_report list
     \<Rightarrow> (matrix \<times> reachable_report list) result" where
  "check_arm fuel factory scr = (\<lambda>(matrix, arms_reachability).
     bindE (from_scrutinee scr) (\<lambda>pat.
     bindE (is_useful fuel factory matrix [pat]) (\<lambda>witness_report.
     Inr (vec_push matrix [pat],
       vec_push arms_reachability \<lparr>reachable = has_witnesses witness_report, scrutinee = scr\<rparr>))))"

definition check_match_expression_usefulness ::
  "nat \<Rightarrow> constructor_factory \<Rightarrow> type_info \<Rightarrow> ty_scrutinee list
     \<Rightarrow> (witness_report \<times> reachable_report list) result" where
  "check_match_expression_usefulness fuel factory ty scrutinees =
     (if \<not> has_valid_constructor ty \<and> scrutinees = [] then Inr (NoWitnesses, [])
      else
        bindE (foldM (check_arm fuel factory) scrutinees ([], [])) (\<lambda>(matrix, arms_reachability).
        bindE (is_useful fuel factory matrix [Wildcard]) (\<lambda>witness_report.
        Inr (witness_report, arms_reachability))))"

end
