(* ===== verification/Match_Semantics.thy ===== *)
theory Match_Semantics
  imports Match_Usefulness
begin

text \<open>
  What a match expression means: values of Sway types, which values a pattern matches, and
  which patterns are well typed. The usefulness analysis is proved sound against this
  meaning in \<open>Match_Soundness\<close>.
\<close>

section \<open>Values and types\<close>

datatype val =
    VU8 u8
  | VU16 u16
  | VU32 u32
  | VU64 u64
  | VB256 "u8 list"
  | VBoolean bool
  | VNumeric u64
  | VString string
  | VStruct string "(string \<times> val) list"
  | VEnum string string val
  | VTuple "val list"

fun unalias :: "type_info \<Rightarrow> type_info" where
  "unalias (Alias _ ty) = unalias ty"
| "unalias ty = ty"

lemma list_all2_fundef_cong [fundef_cong]:
  assumes "xs = xs'" "ys = ys'"
    and "\<And>x y. x \<in> set xs' \<Longrightarrow> y \<in> set ys' \<Longrightarrow> R x y = R' x y"
  shows "list_all2 R xs ys = list_all2 R' xs' ys'"
  using assms by (auto simp: list_all2_conv_all_nth)

fun has_type :: "val \<Rightarrow> type_info \<Rightarrow> bool" where
  "has_type (VU8 _) t \<longleftrightarrow> unalias t = UnsignedInteger 8"
| "has_type (VU16 _) t \<longleftrightarrow> unalias t = UnsignedInteger 16"
| "has_type (VU32 _) t \<longleftrightarrow> unalias t = UnsignedInteger 32"
| "has_type (VU64 _) t \<longleftrightarrow> unalias t = UnsignedInteger 64"
| "has_type (VB256 _) t \<longleftrightarrow> unalias t = B256Type"
| "has_type (VBoolean _) t \<longleftrightarrow> unalias t = BooleanType"
| "has_type (VNumeric _) t \<longleftrightarrow> unalias t = NumericType"
| "has_type (VString _) t \<longleftrightarrow> unalias t = StringSlice"
| "has_type (VStruct n fvs) t \<longleftrightarrow>
     (case unalias t of
        StructType m fts \<Rightarrow> n = m \<and> distinct (map fst fts) \<and> map fst fvs = map fst fts
          \<and> list_all2 has_type (map snd fvs) (map snd fts)
      | _ \<Rightarrow> False)"
| "has_type (VEnum n x v) t \<longleftrightarrow>
     (case unalias t of
        EnumType m vts \<Rightarrow> n = m
          \<and> (case map_of vts x of Some u \<Rightarrow> has_type v u | None \<Rightarrow> False)
      | _ \<Rightarrow> False)"
| "has_type (VTuple vs) t \<longleftrightarrow>
     (case unalias t of TupleType ts \<Rightarrow> list_all2 has_type vs ts | _ \<Rightarrow> False)"

section \<open>Matching\<close>

definition in_range :: "'a::len word range \<Rightarrow> 'a word \<Rightarrow> bool" where
  "in_range r x \<longleftrightarrow> first_v r \<le> x \<and> x \<le> last_v r"

lemma in_range_iff: "in_range r x \<longleftrightarrow> x \<in> range_set r"
  by (simp add: in_range_def range_set_def)

text \<open>A struct pattern constrains the fields it names, wherever they stand in the value.\<close>

fun pmatch :: "pattern \<Rightarrow> val \<Rightarrow> bool" where
  "pmatch Wildcard v \<longleftrightarrow> True"
| "pmatch (U8 r) v \<longleftrightarrow> (case v of VU8 x \<Rightarrow> in_range r x | _ \<Rightarrow> False)"
| "pmatch (U16 r) v \<longleftrightarrow> (case v of VU16 x \<Rightarrow> in_range r x | _ \<Rightarrow> False)"
| "pmatch (U32 r) v \<longleftrightarrow> (case v of VU32 x \<Rightarrow> in_range r x | _ \<Rightarrow> False)"
| "pmatch (U64 r) v \<longleftrightarrow> (case v of VU64 x \<Rightarrow> in_range r x | _ \<Rightarrow> False)"
| "pmatch (B256 b) v \<longleftrightarrow> (case v of VB256 x \<Rightarrow> x = b | _ \<Rightarrow> False)"
| "pmatch (Boolean b) v \<longleftrightarrow> (case v of VBoolean x \<Rightarrow> x = b | _ \<Rightarrow> False)"
| "pmatch (Numeric r) v \<longleftrightarrow> (case v of VNumeric x \<Rightarrow> in_range r x | _ \<Rightarrow> False)"
| "pmatch (PString s) v \<longleftrightarrow> (case v of VString x \<Rightarrow> x = s | _ \<Rightarrow> False)"
| "pmatch (Struct n fps) v \<longleftrightarrow>
     (case v of
        VStruct m fvs \<Rightarrow> n = m \<and> (\<forall>(f, p) \<in> set fps.
          case map_of fvs f of Some w \<Rightarrow> pmatch p w | None \<Rightarrow> False)
      | _ \<Rightarrow> False)"
| "pmatch (Enum n x p) v \<longleftrightarrow>
     (case v of VEnum m y w \<Rightarrow> n = m \<and> x = y \<and> pmatch p w | _ \<Rightarrow> False)"
| "pmatch (Tuple ps) v \<longleftrightarrow> (case v of VTuple ws \<Rightarrow> list_all2 pmatch ps ws | _ \<Rightarrow> False)"
| "pmatch (Or ps) v \<longleftrightarrow> (\<exists>p \<in> set ps. pmatch p v)"

text \<open>The values below the root constructor of a pattern, when the value is built with it.\<close>

fun val_args :: "pattern \<Rightarrow> val \<Rightarrow> val list option" where
  "val_args (U8 r) v = (case v of VU8 x \<Rightarrow> if in_range r x then Some [] else None | _ \<Rightarrow> None)"
| "val_args (U16 r) v = (case v of VU16 x \<Rightarrow> if in_range r x then Some [] else None | _ \<Rightarrow> None)"
| "val_args (U32 r) v = (case v of VU32 x \<Rightarrow> if in_range r x then Some [] else None | _ \<Rightarrow> None)"
| "val_args (U64 r) v = (case v of VU64 x \<Rightarrow> if in_range r x then Some [] else None | _ \<Rightarrow> None)"
| "val_args (B256 b) v = (case v of VB256 x \<Rightarrow> if x = b then Some [] else None | _ \<Rightarrow> None)"
| "val_args (Boolean b) v = (case v of VBoolean x \<Rightarrow> if x = b then Some [] else None | _ \<Rightarrow> None)"
| "val_args (Numeric r) v =
     (case v of VNumeric x \<Rightarrow> if in_range r x then Some [] else None | _ \<Rightarrow> None)"
| "val_args (PString s) v = (case v of VString x \<Rightarrow> if x = s then Some [] else None | _ \<Rightarrow> None)"
| "val_args (Struct n fps) v =
     (case v of
        VStruct m fvs \<Rightarrow> if n = m \<and> length fps = length fvs then Some (map snd fvs) else None
      | _ \<Rightarrow> None)"
| "val_args (Enum n x p) v =
     (case v of VEnum m y w \<Rightarrow> if n = m \<and> x = y then Some [w] else None | _ \<Rightarrow> None)"
| "val_args (Tuple ps) v =
     (case v of VTuple ws \<Rightarrow> if length ps = length ws then Some ws else None | _ \<Rightarrow> None)"
| "val_args Wildcard v = None"
| "val_args (Or ps) v = None"

section \<open>Well-typed patterns\<close>

text \<open>
  Integer patterns come from literals and stand for one value. A struct pattern lists all
  fields of its type in declaration order; this is what the analysis silently relies on
  when it compares struct patterns position by position.
\<close>

definition single :: "'a::len word range \<Rightarrow> bool" where
  "single r \<longleftrightarrow> first_v r = last_v r"

fun wt_pat :: "pattern \<Rightarrow> type_info \<Rightarrow> bool" where
  "wt_pat Wildcard t \<longleftrightarrow> True"
| "wt_pat (U8 r) t \<longleftrightarrow> unalias t = UnsignedInteger 8 \<and> single r"
| "wt_pat (U16 r) t \<longleftrightarrow> unalias t = UnsignedInteger 16 \<and> single r"
| "wt_pat (U32 r) t \<longleftrightarrow> unalias t = UnsignedInteger 32 \<and> single r"
| "wt_pat (U64 r) t \<longleftrightarrow> unalias t = UnsignedInteger 64 \<and> single r"
| "wt_pat (B256 _) t \<longleftrightarrow> unalias t = B256Type"
| "wt_pat (Boolean _) t \<longleftrightarrow> unalias t = BooleanType"
| "wt_pat (Numeric r) t \<longleftrightarrow> unalias t = NumericType \<and> single r"
| "wt_pat (PString _) t \<longleftrightarrow> unalias t = StringSlice"
| "wt_pat (Struct n fps) t \<longleftrightarrow>
     (case unalias t of
        StructType m fts \<Rightarrow> n = m \<and> map fst fps = map fst fts
          \<and> list_all2 wt_pat (map snd fps) (map snd fts)
      | _ \<Rightarrow> False)"
| "wt_pat (Enum n x p) t \<longleftrightarrow>
     (case unalias t of
        EnumType m vts \<Rightarrow> n = m \<and> (case map_of vts x of Some u \<Rightarrow> wt_pat p u | None \<Rightarrow> False)
      | _ \<Rightarrow> False)"
| "wt_pat (Tuple ps) t \<longleftrightarrow>
     (case unalias t of TupleType ts \<Rightarrow> list_all2 wt_pat ps ts | _ \<Rightarrow> False)"
| "wt_pat (Or ps) t \<longleftrightarrow> (\<forall>p \<in> set ps. wt_pat p t)"

fun or_free :: "pattern \<Rightarrow> bool" where
  "or_free (Struct _ fps) \<longleftrightarrow> (\<forall>p \<in> set (map snd fps). or_free p)"
| "or_free (Enum _ _ p) \<longleftrightarrow> or_free p"
| "or_free (Tuple ps) \<longleftrightarrow> (\<forall>p \<in> set ps. or_free p)"
| "or_free (Or _) \<longleftrightarrow> False"
| "or_free _ \<longleftrightarrow> True"

text \<open>A pattern the analysis is exact on: well typed and without or-patterns.\<close>

definition plain_pat :: "pattern \<Rightarrow> type_info \<Rightarrow> bool" where
  "plain_pat p t \<longleftrightarrow> wt_pat p t \<and> or_free p"

definition sub_pats :: "pattern \<Rightarrow> pattern list" where
  "sub_pats p =
     (case p of Struct _ fps \<Rightarrow> map snd fps | Enum _ _ q \<Rightarrow> [q] | Tuple ps \<Rightarrow> ps | _ \<Rightarrow> [])"

definition arg_types :: "pattern \<Rightarrow> type_info \<Rightarrow> type_info list" where
  "arg_types p t =
     (case unalias t of
        StructType _ fts \<Rightarrow> map snd fts
      | EnumType _ vts \<Rightarrow>
          (case p of Enum _ x _ \<Rightarrow> (case map_of vts x of Some u \<Rightarrow> [u] | None \<Rightarrow> []) | _ \<Rightarrow> [])
      | TupleType ts \<Rightarrow> ts
      | _ \<Rightarrow> [])"

text \<open>The types nested in a type, the type itself first.\<close>

fun nested_types :: "type_info \<Rightarrow> type_info list" where
  "nested_types (EnumType n vts) =
     EnumType n vts # concat (map (\<lambda>(_, t). nested_types t) vts)"
| "nested_types (StructType n fts) =
     StructType n fts # concat (map (\<lambda>(_, t). nested_types t) fts)"
| "nested_types (TupleType ts) = TupleType ts # concat (map nested_types ts)"
| "nested_types (Alias n t) = Alias n t # nested_types t"
| "nested_types t = [t]"

text \<open>
  A factory fits a type when it knows the types nested in it, and when enum types of the
  same name have the same variants: the factory finds an enum by the last segment of its
  path only.
\<close>

fun enums_agree :: "type_info \<Rightarrow> type_info \<Rightarrow> bool" where
  "enums_agree (EnumType n vs) (EnumType m ws) \<longleftrightarrow>
     (n = m \<longrightarrow> set (map fst vs) = set (map fst ws))"
| "enums_agree _ _ \<longleftrightarrow> True"

definition factory_for :: "constructor_factory \<Rightarrow> type_info \<Rightarrow> bool" where
  "factory_for factory t \<longleftrightarrow>
     set (nested_types t) \<subseteq> set (possible_types factory)
   \<and> (\<forall>a \<in> set (possible_types factory). \<forall>b \<in> set (possible_types factory). enums_agree a b)"

lemma factory_for_enums:
  assumes "factory_for factory t" "EnumType n vs \<in> set (possible_types factory)"
    "EnumType n ws \<in> set (possible_types factory)"
  shows "set (map fst vs) = set (map fst ws)"
proof -
  have "enums_agree (EnumType n vs) (EnumType n ws)"
    using assms unfolding factory_for_def by blast
  then show ?thesis by simp
qed

end
