(* ===== verification/Match_Soundness.thy ===== *)
theory Match_Soundness
  imports Match_Semantics
begin

text \<open>
  Soundness of the usefulness analysis. The matrix operations are first given closed forms
  on rectangular matrices whose first column has no or-patterns; the locale
  \<open>value_semantics\<close> states what the analysis needs to know about values, and its main
  lemma is the soundness of \<open>U(P, q)\<close>; the model's own values interpret it.
\<close>

section \<open>Closed forms of the matrix operations\<close>

definition same_ctor :: "pattern \<Rightarrow> pattern \<Rightarrow> bool" where
  "same_ctor c p \<longleftrightarrow> has_the_same_constructor c p = Inr True"

definition spec_row :: "pattern \<Rightarrow> pat_stack \<Rightarrow> pat_stack list" where
  "spec_row c row =
     (if hd row = Wildcard then [fill_wildcards (a_value c) @ tl row]
      else if same_ctor c (hd row) then [sub_pats (hd row) @ tl row] else [])"

definition default_row :: "pat_stack \<Rightarrow> pat_stack list" where
  "default_row row = (if hd row = Wildcard then [tl row] else [])"

text \<open>Rows of length \<open>n\<close>, not empty, whose first pattern is not an or-pattern.\<close>

definition shaped :: "nat \<Rightarrow> matrix \<Rightarrow> bool" where
  "shaped n p \<longleftrightarrow> 0 < n \<and> (\<forall>row \<in> set p. length row = n \<and> \<not> is_or (hd row))"

lemma shaped_rowE:
  assumes "shaped n p" "row \<in> set p"
  obtains x xs where "row = x # xs" "\<not> is_or x" "n = Suc (length xs)"
proof -
  have "length row = n" "\<not> is_or (hd row)" "0 < n" using assms by (auto simp: shaped_def)
  then show ?thesis using that by (metis length_Suc_conv gr0_implies_Suc list.sel(1))
qed

lemma has_the_same_constructor_ok:
  "\<not> is_or p \<Longrightarrow> has_the_same_constructor c p = Inr (same_ctor c p)"
  unfolding same_ctor_def by (cases c; cases p) auto

lemma sub_patterns_ok: "\<not> is_or p \<Longrightarrow> sub_patterns p = Inr (sub_pats p)"
  by (cases p) (auto simp: sub_pats_def)

lemma length_sub_pats: "\<not> is_or p \<Longrightarrow> length (sub_pats p) = a_value p"
  by (cases p) (auto simp: sub_pats_def)

lemma same_ctor_a_value: "same_ctor c p \<Longrightarrow> a_value p = a_value c"
  unfolding same_ctor_def by (cases c; cases p) auto

lemma same_ctor_refl: "\<not> is_or c \<Longrightarrow> same_ctor c c"
  unfolding same_ctor_def by (cases c) auto

lemma m_n_rect:
  assumes "\<forall>row \<in> set rows. length row = k"
  shows "m_n rows = Inr (length rows, if rows = [] then 0 else k)"
  using assms by (cases rows) (auto simp: m_n_def)

lemma misshapen_ok:
  "0 < k \<Longrightarrow> misshapen m (if m = 0 then 0 else k - 1) k msg rows = Inr rows"
  by (simp add: misshapen_def)

lemma spec_row_ok:
  assumes "row \<noteq> []" "\<not> is_or (hd row)"
  shows "compute_specialized_matrix_row c row q = Inr (spec_row c row)"
  using assms has_the_same_constructor_ok [of "hd row" c] sub_patterns_ok [of "hd row"]
  by (cases row; cases "hd row")
    (auto simp: compute_specialized_matrix_row.simps spec_row_def simp del: sub_patterns.simps)

lemma spec_row_length:
  assumes "row \<noteq> []" "\<not> is_or (hd row)" "r \<in> set (spec_row c row)"
  shows "length r = a_value c + length row - 1"
  using assms length_sub_pats [of "hd row"] same_ctor_a_value [of c "hd row"]
  by (cases row) (auto simp: spec_row_def fill_wildcards_def split: if_splits)

lemma compute_specialized_matrix_not_or:
  assumes "\<not> is_or c"
  shows "compute_specialized_matrix c p q =
     bindE (mapM (\<lambda>p_i. compute_specialized_matrix_row c p_i q) p) (\<lambda>rowss.
     bindE (m_n (concat rowss)) (\<lambda>(m, n).
     misshapen m n (a_value c + length q) ''S(c,P) matrix is misshapen'' (concat rowss)))"
  using assms by (subst compute_specialized_matrix.simps) (cases c, simp_all)

lemma compute_specialized_matrix_closed:
  assumes "shaped n p" "length q = n" "\<not> is_or c"
  shows "compute_specialized_matrix c p q = Inr (concat (map (spec_row c) p))"
proof -
  let ?S = "concat (map (spec_row c) p)"
  have ne: "row \<noteq> []" "\<not> is_or (hd row)" "length row = n" if "row \<in> set p" for row
    using assms(1) that by (auto simp: shaped_def)
  have rows: "mapM (\<lambda>p_i. compute_specialized_matrix_row c p_i q) p = Inr (map (spec_row c) p)"
    using ne by (intro mapM_pure spec_row_ok) auto
  have "length r = a_value c + n - 1" if r: "r \<in> set ?S" for r
  proof -
    from r obtain row where "row \<in> set p" "r \<in> set (spec_row c row)" by auto
    then show ?thesis using spec_row_length [of row r c] ne [of row] by simp
  qed
  then have mn: "m_n ?S = Inr (length ?S, if ?S = [] then 0 else a_value c + n - 1)"
    by (intro m_n_rect) blast
  have "0 < n" using assms(1) by (simp add: shaped_def)
  then have "bindE (m_n ?S) (\<lambda>(m, k). misshapen m k (a_value c + length q)
      ''S(c,P) matrix is misshapen'' ?S) = Inr ?S"
    unfolding mn assms(2) by (simp add: misshapen_def)
  then show ?thesis
    unfolding compute_specialized_matrix_not_or [OF assms(3)] rows by simp
qed

lemma default_row_ok:
  assumes "row \<noteq> []" "\<not> is_or (hd row)"
  shows "compute_default_matrix_row row q = Inr (default_row row)"
  using assms
  by (cases row; cases "hd row") (auto simp: compute_default_matrix_row.simps default_row_def)

lemma compute_default_matrix_closed:
  assumes "shaped n p" "length q = n"
  shows "compute_default_matrix p q = Inr (concat (map default_row p))"
proof -
  let ?D = "concat (map default_row p)"
  have ne: "row \<noteq> []" "\<not> is_or (hd row)" "length row = n" if "row \<in> set p" for row
    using assms(1) that by (auto simp: shaped_def)
  have rows: "mapM (\<lambda>p_i. compute_default_matrix_row p_i q) p = Inr (map default_row p)"
    using ne by (intro mapM_pure default_row_ok) auto
  have "\<forall>r \<in> set ?D. length r = n - 1"
    using ne by (auto simp: default_row_def split: if_splits)
  then have mn: "m_n ?D = Inr (length ?D, if ?D = [] then 0 else n - 1)"
    by (rule m_n_rect)
  have "0 < n" using assms(1) by (simp add: shaped_def)
  then have "bindE (m_n ?D) (\<lambda>(m, k). misshapen m k (length q) ''D(P) matrix is misshapen'' ?D) = Inr ?D"
    unfolding mn assms(2) by (simp add: misshapen_def)
  then show ?thesis
    using rows unfolding compute_default_matrix.simps [of p q] by simp
qed

lemma set_remove_duplicates [simp]: "set (remove_duplicates ps) = set ps"
proof -
  have "set (fold push_if_absent ps acc) = set acc \<union> set ps" for acc
    by (induction ps arbitrary: acc) auto
  then show ?thesis by (simp add: remove_duplicates_def)
qed

definition sigma_of :: "matrix \<Rightarrow> pat_stack" where
  "sigma_of p = remove_duplicates (map (\<lambda>row. into_root_constructor (hd row)) p)"

lemma compute_sigma_closed:
  assumes "shaped n p"
  shows "compute_sigma p = Inr (sigma_of p)"
proof -
  have "mapM (\<lambda>row. bindE (pat_stack_first row) (\<lambda>p. Inr (into_root_constructor p))) p
      = Inr (map (\<lambda>row. into_root_constructor (hd row)) p)"
  proof (rule mapM_pure)
    fix row assume "row \<in> set p"
    with assms obtain x xs where "row = x # xs" by (rule shaped_rowE)
    then show "bindE (pat_stack_first row) (\<lambda>p. Inr (into_root_constructor p))
        = Inr (into_root_constructor (hd row))" by simp
  qed
  then show ?thesis by (simp add: compute_sigma_def sigma_of_def)
qed

section \<open>Root constructors\<close>

lemma is_or_root [simp]: "is_or (into_root_constructor p) = is_or p"
  by (cases p) auto

lemma root_eq_Wildcard [simp]: "into_root_constructor p = Wildcard \<longleftrightarrow> p = Wildcard"
  by (cases p) auto

lemma a_value_root [simp]: "a_value (into_root_constructor p) = a_value p"
  by (cases p) auto

lemma same_ctor_root: "same_ctor (into_root_constructor p) q = same_ctor p q"
  by (cases p; cases q) (auto simp: same_ctor_def)

lemma list_all2_wt_wildcards: "length ts = n \<Longrightarrow> list_all2 wt_pat (replicate n Wildcard) ts"
  by (auto simp: list_all2_conv_all_nth)

lemma wt_pat_root: "wt_pat p t \<Longrightarrow> \<not> is_or p \<Longrightarrow> wt_pat (into_root_constructor p) t"
  by (cases p)
    (auto simp: list_all2_conv_all_nth comp_def case_prod_beta split: type_info.splits option.splits)

lemma or_free_not_or: "or_free p \<Longrightarrow> \<not> is_or p"
  by (cases p) auto

lemma or_free_root: "\<not> is_or p \<Longrightarrow> or_free (into_root_constructor p)"
  by (cases p) auto

lemma plain_pat_root: "plain_pat p t \<Longrightarrow> plain_pat (into_root_constructor p) t"
  by (auto simp: plain_pat_def or_free_not_or intro: wt_pat_root or_free_root)

lemma plain_pat_Wildcard [simp]: "plain_pat Wildcard t"
  by (simp add: plain_pat_def)

text \<open>Patterns of one row, typed position by position.\<close>

abbreviation (input) plain_row :: "pat_stack \<Rightarrow> type_info list \<Rightarrow> bool" where
  "plain_row row ts \<equiv> list_all2 plain_pat row ts"

lemma plain_sub_pats:
  assumes "plain_pat p t" "p \<noteq> Wildcard"
  shows "plain_row (sub_pats p) (arg_types p t)"
  using assms
  by (cases p)
    (auto simp: plain_pat_def sub_pats_def arg_types_def list_all2_conv_all_nth
      split: type_info.splits option.splits)

lemma length_arg_types:
  assumes "plain_pat p t" "p \<noteq> Wildcard"
  shows "length (arg_types p t) = a_value p"
  using list_all2_lengthD [OF plain_sub_pats [OF assms]] length_sub_pats [of p] assms(1)
  by (simp add: plain_pat_def or_free_not_or)

lemma arg_types_same_ctor: "same_ctor c p \<Longrightarrow> arg_types c t = arg_types p t"
  unfolding same_ctor_def
  by (cases c; cases p) (auto simp: arg_types_def split: type_info.splits)

lemma plain_row_wildcards: "length ts = n \<Longrightarrow> plain_row (fill_wildcards n) ts"
  by (auto simp: fill_wildcards_def list_all2_conv_all_nth)

definition plain_matrix :: "matrix \<Rightarrow> type_info list \<Rightarrow> bool" where
  "plain_matrix p ts \<longleftrightarrow> (\<forall>row \<in> set p. plain_row row ts)"

lemma plain_matrix_rowE:
  assumes "plain_matrix p (t # ts)" "row \<in> set p"
  obtains x xs where "row = x # xs" "plain_pat x t" "plain_row xs ts"
  using assms by (auto simp: plain_matrix_def list_all2_Cons2)

lemma plain_matrix_shaped:
  assumes "plain_matrix p (t # ts)"
  shows "shaped (Suc (length ts)) p"
  unfolding shaped_def
proof (intro conjI ballI)
  fix row assume "row \<in> set p"
  with assms obtain x xs where "row = x # xs" "plain_pat x t" "plain_row xs ts"
    by (rule plain_matrix_rowE)
  then show "length row = Suc (length ts)" "\<not> is_or (hd row)"
    by (auto simp: plain_pat_def or_free_not_or dest: list_all2_lengthD)
qed simp

lemma plain_matrix_default:
  assumes "plain_matrix p (t # ts)"
  shows "plain_matrix (concat (map default_row p)) ts"
  using assms by (auto simp: plain_matrix_def default_row_def list_all2_Cons2 split: if_splits)

lemma plain_spec_row:
  assumes "plain_row row (t # ts)" "plain_pat c t" "c \<noteq> Wildcard" "r \<in> set (spec_row c row)"
  shows "plain_row r (arg_types c t @ ts)"
proof -
  obtain p rest where row: "row = p # rest" "plain_pat p t" "plain_row rest ts"
    using assms(1) by (auto simp: list_all2_Cons2)
  show ?thesis
  proof (cases "p = Wildcard")
    case True
    then show ?thesis
      using assms(4) row(1,3) plain_row_wildcards [OF length_arg_types [OF assms(2,3)]]
      by (auto simp: spec_row_def intro: list_all2_appendI)
  next
    case False
    then have "same_ctor c p" "r = sub_pats p @ rest"
      using assms(4) row(1) by (auto simp: spec_row_def split: if_splits)
    then show ?thesis
      using plain_sub_pats [OF row(2) False] row(3) arg_types_same_ctor [of c p t]
      by (auto intro: list_all2_appendI)
  qed
qed

lemma plain_matrix_specialized:
  assumes "plain_matrix p (t # ts)" "plain_pat c t" "c \<noteq> Wildcard"
  shows "plain_matrix (concat (map (spec_row c) p)) (arg_types c t @ ts)"
  using assms plain_spec_row [OF _ assms(2,3)] by (auto simp: plain_matrix_def)

lemma sigma_of_plain:
  assumes "plain_matrix p (t # ts)" "c \<in> set (sigma_of p)"
  shows "plain_pat c t"
proof -
  obtain row where row: "row \<in> set p" "c = into_root_constructor (hd row)"
    using assms(2) by (auto simp: sigma_of_def)
  from assms(1) row(1) obtain x xs where "row = x # xs" "plain_pat x t" by (rule plain_matrix_rowE)
  then show ?thesis using row(2) by (simp add: plain_pat_root)
qed

text \<open>Specializing by the wildcard is taking the default matrix.\<close>

lemma spec_row_Wildcard: "\<not> is_or (hd row) \<Longrightarrow> spec_row Wildcard row = default_row row"
  by (cases "hd row") (auto simp: spec_row_def default_row_def same_ctor_def fill_wildcards_def)

section \<open>The loops over recursive calls\<close>

lemma join_NoWitnesses_iff [simp]:
  "join_witness_reports a b = NoWitnesses \<longleftrightarrow> a = NoWitnesses \<and> b = NoWitnesses"
  by (cases a; cases b) auto

lemma join_loop_NoWitnesses:
  assumes "foldM (\<lambda>row wr. bindE (U m row) (\<lambda>new_wr. Inr (join_witness_reports wr new_wr))) rows wr
    = Inr NoWitnesses"
  shows "wr = NoWitnesses \<and> (\<forall>row \<in> set rows. U m row = Inr NoWitnesses)"
  using assms
proof (induction rows arbitrary: wr)
  case (Cons row rows)
  then obtain new where new: "U m row = Inr new"
    and rest: "foldM (\<lambda>row wr. bindE (U m row) (\<lambda>new_wr. Inr (join_witness_reports wr new_wr))) rows
      (join_witness_reports wr new) = Inr NoWitnesses"
    by (auto simp: bindE_Inr_iff)
  from Cons.IH [OF rest] new show ?case by simp
qed simp

lemma join_all_NoWitnesses:
  "join_all U m rows = Inr NoWitnesses \<Longrightarrow> row \<in> set rows \<Longrightarrow> U m row = Inr NoWitnesses"
  using join_loop_NoWitnesses [of U m rows NoWitnesses] unfolding join_all_def by simp

text \<open>A turn of the constructor loop keeps a report without witnesses only if its own calls
  found none.\<close>

lemma split_not_NoWitnesses:
  "split_into_leading_constructor wr c = Inr (pat, wr') \<Longrightarrow> wr' \<noteq> NoWitnesses"
  by (cases wr) (auto simp: bindE_Inr_iff)

lemma wildcard_complete_step_NoWitnesses:
  assumes "wildcard_complete_step U p q c (wr, pats) = Inr (NoWitnesses, pats')"
  shows "wr = NoWitnesses \<and> (\<exists>s_p s_q. compute_specialized_matrix c p q = Inr s_p
     \<and> compute_specialized_matrix c [q] q = Inr s_q \<and> join_all U s_p s_q = Inr NoWitnesses)"
proof -
  obtain s_p s_q new where s: "compute_specialized_matrix c p q = Inr s_p"
      "compute_specialized_matrix c [q] q = Inr s_q" "join_all U s_p s_q = Inr new"
    using assms by (auto simp: wildcard_complete_step_def bindE_Inr_iff)
  then have "wr = NoWitnesses \<and> new = NoWitnesses"
    using assms split_not_NoWitnesses [of new c]
    by (cases wr; cases new) (auto simp: wildcard_complete_step_def bindE_Inr_iff)
  with s show ?thesis by blast
qed

lemma wildcard_complete_loop_NoWitnesses:
  assumes "foldM (wildcard_complete_step U p q) cs (wr, pats) = Inr (NoWitnesses, pats')"
    and "c \<in> set cs"
  shows "\<exists>s_p s_q. compute_specialized_matrix c p q = Inr s_p
     \<and> compute_specialized_matrix c [q] q = Inr s_q \<and> join_all U s_p s_q = Inr NoWitnesses"
proof -
  have "wr = NoWitnesses \<and> (\<forall>c \<in> set cs. \<exists>s_p s_q. compute_specialized_matrix c p q = Inr s_p
     \<and> compute_specialized_matrix c [q] q = Inr s_q \<and> join_all U s_p s_q = Inr NoWitnesses)"
    using assms(1)
  proof (induction cs arbitrary: wr pats)
    case (Cons c cs)
    then obtain wr1 pats1 where
      step: "wildcard_complete_step U p q c (wr, pats) = Inr (wr1, pats1)"
      and rest: "foldM (wildcard_complete_step U p q) cs (wr1, pats1) = Inr (NoWitnesses, pats')"
      by (auto simp: bindE_Inr_iff)
    note ih = Cons.IH [OF rest]
    then have "wr1 = NoWitnesses" ..
    with step ih wildcard_complete_step_NoWitnesses [of U p q c wr pats pats1]
    show ?case by auto
  qed simp
  then show ?thesis using assms(2) by blast
qed

lemma not_Witnesses_iff [simp]: "(\<forall>ps. wr \<noteq> Witnesses ps) \<longleftrightarrow> wr = NoWitnesses"
  by (cases wr) auto

lemma add_witness_not_NoWitnesses: "add_witness wr p \<noteq> Inr NoWitnesses"
  by (cases wr) auto

lemma wildcard_specialization:
  assumes "shaped n p" "length (Wildcard # xs) = n"
  shows "compute_specialized_matrix Wildcard p (Wildcard # xs) = Inr (concat (map default_row p))"
    and "compute_specialized_matrix Wildcard [Wildcard # xs] (Wildcard # xs) = Inr [xs]"
proof -
  have "spec_row Wildcard row = default_row row" if "row \<in> set p" for row
    using assms(1) that by (intro spec_row_Wildcard) (auto simp: shaped_def)
  then show "compute_specialized_matrix Wildcard p (Wildcard # xs) = Inr (concat (map default_row p))"
    using compute_specialized_matrix_closed [OF assms, of Wildcard] by (simp cong: map_cong)
  have "shaped n [Wildcard # xs]" using assms(2) by (auto simp: shaped_def)
  then show "compute_specialized_matrix Wildcard [Wildcard # xs] (Wildcard # xs) = Inr [xs]"
    using compute_specialized_matrix_closed [OF _ assms(2), of "[Wildcard # xs]" Wildcard]
    by (simp add: spec_row_Wildcard default_row_def)
qed

section \<open>Soundness over an interface of values\<close>

text \<open>
  What the analysis relies on: a value of the type of a pattern either is built with the
  root constructor of the pattern, and then \<open>args\<close> takes it apart, or it is not; a
  complete signature has a constructor for every value.
\<close>

locale value_semantics =
  fixes typed :: "'v \<Rightarrow> type_info \<Rightarrow> bool"
    and matches :: "pattern \<Rightarrow> 'v \<Rightarrow> bool"
    and args :: "pattern \<Rightarrow> 'v \<Rightarrow> 'v list option"
    and covers :: "constructor_factory \<Rightarrow> type_info \<Rightarrow> bool"
  assumes matches_Wildcard: "matches Wildcard v"
    and args_typed: "typed v t \<Longrightarrow> plain_pat c t \<Longrightarrow> args c v = Some ws
          \<Longrightarrow> list_all2 typed ws (arg_types c t)"
    and matches_iff_args: "typed v t \<Longrightarrow> plain_pat c t \<Longrightarrow> c \<noteq> Wildcard
          \<Longrightarrow> matches c v \<longleftrightarrow> (\<exists>ws. args c v = Some ws \<and> list_all2 matches (sub_pats c) ws)"
    and args_same_ctor: "plain_pat c t \<Longrightarrow> plain_pat d t \<Longrightarrow> same_ctor c d \<Longrightarrow> args d v = args c v"
    and args_root: "args (into_root_constructor c) v = args c v"
    and complete_signature_covers:
      "is_complete_signature factory sigma = Inr True \<Longrightarrow> Wildcard \<notin> set sigma
          \<Longrightarrow> \<forall>c \<in> set sigma. plain_pat c t \<Longrightarrow> covers factory t \<Longrightarrow> typed v t
          \<Longrightarrow> \<exists>c \<in> set sigma. args c v \<noteq> None"
    and covers_args: "covers factory t \<Longrightarrow> plain_pat c t \<Longrightarrow> u \<in> set (arg_types c t) \<Longrightarrow> covers factory u"
begin

lemma matches_wildcards: "length ws = n \<Longrightarrow> list_all2 matches (fill_wildcards n) ws"
  by (simp add: fill_wildcards_def list_all2_conv_all_nth matches_Wildcard)

text \<open>A row of the specialized matrix that matches comes from a row that matches.\<close>

lemma spec_row_matches:
  assumes "plain_row row (t # ts)" "plain_pat c t" "c \<noteq> Wildcard"
    and "typed v t" "args c v = Some ws"
    and "r \<in> set (spec_row c row)" "list_all2 matches r (ws @ vs)"
  shows "list_all2 matches row (v # vs)"
proof -
  obtain p rest where row: "row = p # rest" "plain_pat p t" "plain_row rest ts"
    using assms(1) by (auto simp: list_all2_Cons2)
  have len: "length ws = a_value c"
    using list_all2_lengthD [OF args_typed [OF assms(4,2,5)]] length_arg_types [OF assms(2,3)]
    by simp
  show ?thesis
  proof (cases "p = Wildcard")
    case True
    then have "r = fill_wildcards (a_value c) @ rest" using assms(6) row(1) by (simp add: spec_row_def)
    then have "list_all2 matches rest vs"
      using assms(7) len by (simp add: list_all2_append fill_wildcards_def)
    then show ?thesis using True row(1) by (simp add: matches_Wildcard)
  next
    case False
    then have same: "same_ctor c p" and r: "r = sub_pats p @ rest"
      using assms(6) row(1) by (auto simp: spec_row_def split: if_splits)
    have "length (sub_pats p) = length ws"
      using length_sub_pats [of p] same_ctor_a_value [OF same] row(2) len
      by (simp add: plain_pat_def or_free_not_or)
    then have "list_all2 matches (sub_pats p) ws" "list_all2 matches rest vs"
      using assms(7) r by (auto simp: list_all2_append)
    moreover have "args p v = Some ws"
      using args_same_ctor [OF assms(2) row(2) same] assms(5) by simp
    ultimately show ?thesis
      using matches_iff_args [OF assms(4) row(2) False] row(1) by auto
  qed
qed

text \<open>Conversely, the specialized query row matches when the query row does.\<close>

lemma spec_row_query:
  assumes "plain_pat c t" "c \<noteq> Wildcard" "typed v t" "args c v = Some ws"
    and "list_all2 matches (x # xs) (v # vs)" "x = Wildcard \<or> same_ctor c x" "plain_pat x t"
  shows "\<exists>r. spec_row c (x # xs) = [r] \<and> list_all2 matches r (ws @ vs)"
proof (cases "x = Wildcard")
  case True
  have "length ws = a_value c"
    using list_all2_lengthD [OF args_typed [OF assms(3,1,4)]] length_arg_types [OF assms(1,2)]
    by simp
  with True assms(5) show ?thesis
    by (auto simp: spec_row_def intro!: list_all2_appendI matches_wildcards)
next
  case False
  with assms(6) have same: "same_ctor c x" by simp
  obtain us where us: "args x v = Some us" "list_all2 matches (sub_pats x) us"
    using matches_iff_args [OF assms(3,7) False] assms(5) by auto
  moreover have "us = ws" using args_same_ctor [OF assms(1,7) same] us(1) assms(4) by simp
  ultimately show ?thesis
    using False same assms(5) by (auto simp: spec_row_def intro: list_all2_appendI)
qed

definition sound_at :: "(matrix \<Rightarrow> pat_stack \<Rightarrow> witness_report result) \<Rightarrow> constructor_factory \<Rightarrow> bool" where
  "sound_at U factory \<longleftrightarrow>
     (\<forall>p q ts vs. plain_matrix p ts \<longrightarrow> plain_row q ts \<longrightarrow> (\<forall>t \<in> set ts. covers factory t)
        \<longrightarrow> list_all2 typed vs ts \<longrightarrow> U p q = Inr NoWitnesses \<longrightarrow> list_all2 matches q vs
        \<longrightarrow> (\<exists>row \<in> set p. list_all2 matches row vs))"

lemma sound_atD:
  assumes "sound_at U factory" "plain_matrix p ts" "plain_row q ts"
    and "\<forall>t \<in> set ts. covers factory t" "list_all2 typed vs ts" "U p q = Inr NoWitnesses"
    and "list_all2 matches q vs"
  shows "\<exists>row \<in> set p. list_all2 matches row vs"
  using assms unfolding sound_at_def by blast

text \<open>One constructor: if the specialized query has no witnesses, the value is matched.\<close>

lemma specialized_sound:
  assumes sound: "sound_at U factory"
    and p: "plain_matrix p (t # ts)" and q: "plain_row (x # xs) (t # ts)"
    and cov: "\<forall>t \<in> set (t # ts). covers factory t" and vs: "list_all2 typed (v # vs) (t # ts)"
    and c: "plain_pat c t" "c \<noteq> Wildcard" "args c v = Some ws"
    and x: "x = Wildcard \<or> same_ctor c x" and m: "list_all2 matches (x # xs) (v # vs)"
    and s_p: "compute_specialized_matrix c p (x # xs) = Inr s_p"
    and s_q: "compute_specialized_matrix c [x # xs] (x # xs) = Inr s_q"
    and none: "join_all U s_p s_q = Inr NoWitnesses"
  shows "\<exists>row \<in> set p. list_all2 matches row (v # vs)"
proof -
  have no: "\<not> is_or c" "plain_pat x t" "plain_row xs ts" "typed v t" "list_all2 typed vs ts"
    using c(1) q vs by (auto simp: plain_pat_def or_free_not_or)
  have len: "length (x # xs) = Suc (length ts)" using list_all2_lengthD [OF q] by simp
  have sp: "s_p = concat (map (spec_row c) p)"
    using compute_specialized_matrix_closed [OF plain_matrix_shaped [OF p] len no(1)] s_p by simp
  have qm: "plain_matrix [x # xs] (t # ts)" using q by (simp add: plain_matrix_def)
  have sq: "s_q = spec_row c (x # xs)"
    using compute_specialized_matrix_closed [OF plain_matrix_shaped [OF qm] len no(1)] s_q by simp
  obtain r where r: "spec_row c (x # xs) = [r]" "list_all2 matches r (ws @ vs)"
    using spec_row_query [OF c(1,2) no(4) c(3) m x no(2)] by blast
  have "U s_p r = Inr NoWitnesses" using join_all_NoWitnesses [OF none] sq r(1) by simp
  moreover have "plain_matrix s_p (arg_types c t @ ts)"
    using plain_matrix_specialized [OF p c(1,2)] sp by simp
  moreover have "plain_row r (arg_types c t @ ts)"
    using plain_spec_row [OF q c(1,2)] r(1) by simp
  moreover have "\<forall>u \<in> set (arg_types c t @ ts). covers factory u"
    using cov covers_args [OF _ c(1)] by auto
  moreover have "list_all2 typed (ws @ vs) (arg_types c t @ ts)"
    using args_typed [OF no(4) c(1,3)] no(5) by (rule list_all2_appendI)
  ultimately obtain s where s: "s \<in> set s_p" "list_all2 matches s (ws @ vs)"
    using sound_atD [OF sound] r(2) by blast
  then obtain row where row: "row \<in> set p" "s \<in> set (spec_row c row)" using sp by auto
  moreover have "plain_row row (t # ts)" using p row(1) by (simp add: plain_matrix_def)
  ultimately show ?thesis using spec_row_matches [OF _ c(1,2) no(4) c(3) _ s(2)] by blast
qed

text \<open>The default matrix: if its query has no witnesses, the value is matched.\<close>

lemma default_sound:
  assumes sound: "sound_at U factory"
    and p: "plain_matrix p (t # ts)" and q: "plain_row (x # xs) (t # ts)"
    and cov: "\<forall>t \<in> set (t # ts). covers factory t" and vs: "list_all2 typed (v # vs) (t # ts)"
    and m: "list_all2 matches (x # xs) (v # vs)"
    and none: "U (concat (map default_row p)) xs = Inr NoWitnesses"
  shows "\<exists>row \<in> set p. list_all2 matches row (v # vs)"
proof -
  obtain s where s: "s \<in> set (concat (map default_row p))" "list_all2 matches s vs"
    using sound_atD [OF sound plain_matrix_default [OF p] _ _ _ none, of vs] q cov vs m by auto
  then obtain row where row: "row \<in> set p" "s \<in> set (default_row row)" by auto
  from p row(1) obtain y ys where "row = y # ys" "plain_pat y t" "plain_row ys ts"
    by (rule plain_matrix_rowE)
  with row(2) s(2) have "list_all2 matches row (v # vs)"
    by (auto simp: default_row_def matches_Wildcard split: if_splits)
  with row(1) show ?thesis by blast
qed

lemma wildcard_sound:
  assumes sound: "sound_at U factory"
    and p: "plain_matrix p (t # ts)" and q: "plain_row (Wildcard # xs) (t # ts)"
    and cov: "\<forall>t \<in> set (t # ts). covers factory t" and vs: "list_all2 typed (v # vs) (t # ts)"
    and m: "list_all2 matches (Wildcard # xs) (v # vs)"
    and none: "is_useful_wildcard U factory p (Wildcard # xs) = Inr NoWitnesses"
  shows "\<exists>row \<in> set p. list_all2 matches row (v # vs)"
proof -
  let ?q = "Wildcard # xs"
  note sh = plain_matrix_shaped [OF p]
  have len: "length ?q = Suc (length ts)" using list_all2_lengthD [OF q] by simp
  have sg: "compute_sigma p = Inr (sigma_of p)" using sh by (rule compute_sigma_closed)
  then obtain b where b: "is_complete_signature factory (sigma_of p) = Inr b"
    using none by (auto simp: is_useful_wildcard_def bindE_Inr_iff)
  show ?thesis
  proof (cases b)
    case True
    then obtain pats where loop: "foldM (wildcard_complete_step U p ?q) (sigma_of p) (NoWitnesses, [])
        = Inr (NoWitnesses, pats)"
      using none b sg add_witness_not_NoWitnesses
      by (auto simp: is_useful_wildcard_def bindE_Inr_iff split: witness_report.splits)
    note step = wildcard_complete_loop_NoWitnesses [OF loop]
    show ?thesis
    proof (cases "Wildcard \<in> set (sigma_of p)")
      case True
      from step [OF True] have "U (concat (map default_row p)) xs = Inr NoWitnesses"
        using wildcard_specialization [OF sh len] join_all_NoWitnesses by auto
      then show ?thesis by (rule default_sound [OF sound p q cov vs m])
    next
      case False
      have pl: "\<forall>c \<in> set (sigma_of p). plain_pat c t" using sigma_of_plain [OF p] by blast
      obtain c ws where c: "c \<in> set (sigma_of p)" "args c v = Some ws"
        using complete_signature_covers [OF _ False pl, of factory v] b \<open>b\<close> cov vs by auto
      then have "plain_pat c t" "c \<noteq> Wildcard" using pl False by auto
      with step [OF c(1)] c(2) show ?thesis
        using specialized_sound [OF sound p q cov vs, of c ws] m by blast
    qed
  next
    case False
    then have "U (concat (map default_row p)) xs = Inr NoWitnesses"
      using none b sg compute_default_matrix_closed [OF sh len] add_witness_not_NoWitnesses
      by (auto simp: is_useful_wildcard_def bindE_Inr_iff split: witness_report.splits)
    then show ?thesis by (rule default_sound [OF sound p q cov vs m])
  qed
qed

lemma constructed_sound:
  assumes sound: "sound_at U factory"
    and p: "plain_matrix p (t # ts)" and q: "plain_row (x # xs) (t # ts)"
    and cov: "\<forall>t \<in> set (t # ts). covers factory t" and vs: "list_all2 typed (v # vs) (t # ts)"
    and m: "list_all2 matches (x # xs) (v # vs)" and x: "x \<noteq> Wildcard"
    and none: "is_useful_constructed U p (x # xs) x = Inr NoWitnesses"
  shows "\<exists>row \<in> set p. list_all2 matches row (v # vs)"
proof -
  have x': "plain_pat x t" "\<not> is_or x" "typed v t"
    using q vs by (auto simp: plain_pat_def or_free_not_or)
  obtain ws where "args x v = Some ws" using matches_iff_args [OF x'(3,1) x] m by auto
  with none show ?thesis
    using specialized_sound [OF sound p q cov vs x'(1) x _ _ m] same_ctor_refl [OF x'(2)]
    by (auto simp: is_useful_constructed_def bindE_Inr_iff)
qed

theorem is_useful_sound: "sound_at (is_useful fuel factory) factory"
proof (induction fuel)
  case 0
  show ?case by (simp add: sound_at_def)
next
  case (Suc fuel)
  show ?case
    unfolding sound_at_def
  proof (intro allI impI)
    fix p q ts vs
    assume p: "plain_matrix p ts" and q: "plain_row q ts" and cov: "\<forall>t \<in> set ts. covers factory t"
      and vs: "list_all2 typed vs ts" and none: "is_useful (Suc fuel) factory p q = Inr NoWitnesses"
      and m: "list_all2 matches q vs"
    have mn: "m_n p = Inr (length p, if p = [] then 0 else length ts)"
      using p by (intro m_n_rect) (auto simp: plain_matrix_def dest: list_all2_lengthD)
    then have ne: "p \<noteq> []" using none by auto
    show "\<exists>row \<in> set p. list_all2 matches row vs"
    proof (cases ts)
      case Nil
      then show ?thesis using ne vs p by (cases p) (auto simp: plain_matrix_def)
    next
      case (Cons t us)
      then obtain x xs v ws where ex: "q = x # xs" "vs = v # ws" "plain_pat x t"
        using q vs by (auto simp: list_all2_Cons2)
      note * = Suc.IH p [unfolded Cons] q [unfolded Cons ex] cov [unfolded Cons]
        vs [unfolded Cons ex] m [unfolded ex]
      show ?thesis
      proof (cases "x = Wildcard")
        case True
        then show ?thesis
          using wildcard_sound [OF * [unfolded True]] none mn ne ex Cons by simp
      next
        case False
        have "\<not> is_or x" using ex(3) by (simp add: plain_pat_def or_free_not_or)
        then show ?thesis
          using constructed_sound [OF * False] none mn ne ex Cons False by (cases x) auto
      qed
    qed
  qed
qed

end

end
