(* ===== verification/Match_Values.thy ===== *)
theory Match_Values
  imports Match_Soundness
begin

text \<open>
  The values of \<open>Match_Semantics\<close> are an instance of the interface of
  \<open>Match_Soundness\<close>: a signature that the factory declares complete covers all
  values of its type. The file ends with the interpretation.
\<close>

section \<open>The values of the model\<close>

lemma pmatch_args:
  assumes "has_type v t" "plain_pat c t" "c \<noteq> Wildcard"
  shows "pmatch c v \<longleftrightarrow> (\<exists>ws. val_args c v = Some ws \<and> list_all2 pmatch (sub_pats c) ws)"
proof (cases c)
  case (Struct n fps)
  show ?thesis
  proof (cases v)
    case (VStruct m fvs)
    obtain fts where t: "unalias t = StructType m fts" "distinct (map fst fts)"
        "map fst fvs = map fst fts"
      using assms(1) VStruct by (auto split: type_info.splits)
    have fps: "n = m" "map fst fps = map fst fvs" "distinct (map fst fvs)"
      using assms(2) Struct t by (auto simp: plain_pat_def)
    then have len: "length fps = length fvs" by (metis length_map)
    have look: "map_of fvs (fst (fps ! i)) = Some (snd (fvs ! i))" if "i < length fvs" for i
    proof -
      have "fst (fps ! i) = fst (fvs ! i)" using fps(2) len that by (metis nth_map)
      then show ?thesis using fps(3) that by (simp add: map_of_eq_Some_iff [OF fps(3)] prod.collapse)
    qed
    have "pmatch c v \<longleftrightarrow> (\<forall>i < length fvs. pmatch (snd (fps ! i)) (snd (fvs ! i)))"
      using Struct VStruct fps(1) len look by (auto simp: all_set_conv_all_nth case_prod_beta)
    also have "\<dots> \<longleftrightarrow> list_all2 pmatch (map snd fps) (map snd fvs)"
      using len by (simp add: list_all2_conv_all_nth)
    finally show ?thesis using Struct VStruct fps(1) len by (simp add: sub_pats_def)
  qed (use Struct in auto)
next
  case (Tuple ps)
  then show ?thesis by (cases v) (auto simp: sub_pats_def dest: list_all2_lengthD)
qed (use assms in \<open>auto simp: sub_pats_def plain_pat_def split: val.splits if_splits\<close>)

lemma val_args_typed:
  assumes "has_type v t" "plain_pat c t" "val_args c v = Some ws"
  shows "list_all2 has_type ws (arg_types c t)"
  using assms
  by (cases c; cases v)
    (auto simp: plain_pat_def arg_types_def split: if_splits type_info.splits option.splits)

lemma val_args_same_ctor:
  assumes "same_ctor c d"
  shows "val_args d v = val_args c v"
  using assms unfolding same_ctor_def
  by (cases c; cases d) (auto split: val.splits)

lemma val_args_root: "val_args (into_root_constructor c) v = val_args c v"
  by (cases c) (auto split: val.splits)

text \<open>The constructors of a column of plain patterns, without its wildcards, are alike.\<close>

definition column :: "pat_stack \<Rightarrow> type_info \<Rightarrow> bool" where
  "column cs t \<longleftrightarrow> (\<forall>c \<in> set cs. plain_pat c t \<and> c \<noteq> Wildcard)"

lemma column_Cons [simp]:
  "column (c # cs) t \<longleftrightarrow> plain_pat c t \<and> c \<noteq> Wildcard \<and> column cs t"
  by (auto simp: column_def)

lemma column_map:
  assumes "column cs t"
    and "\<And>c. plain_pat c t \<Longrightarrow> c \<noteq> Wildcard \<Longrightarrow> \<exists>r. c = f r \<and> P r"
  shows "\<exists>rs. cs = map f rs \<and> (\<forall>r \<in> set rs. P r)"
  using assms(1)
proof (induction cs)
  case Nil
  show ?case by simp
next
  case (Cons c cs)
  then obtain rs where "cs = map f rs" "\<forall>r \<in> set rs. P r" by auto
  moreover obtain r where "c = f r" "P r" using assms(2) [of c] Cons.prems by auto
  ultimately have "c # cs = map f (r # rs) \<and> (\<forall>x \<in> set (r # rs). P x)" by simp
  then show ?case by (rule exI)
qed

lemma collect_map:
  "collect_u8 (map U8 r8) = Inr r8" "collect_u16 (map U16 r16) = Inr r16"
  "collect_u32 (map U32 r32) = Inr r32" "collect_u64 (map U64 r64) = Inr r64"
  "collect_numeric (map Numeric r64) = Inr r64" "collect_boolean (map Boolean bs) = Inr bs"
  by (simp_all add: collect_u8_def collect_u16_def collect_u32_def collect_u64_def
      collect_numeric_def collect_boolean_def mapM_map_pure)

lemma singles_ok:
  assumes "\<forall>r \<in> set rs. single r"
  shows "\<forall>r \<in> set rs. valid_range r" "unnested rs"
  using assms by (auto simp: single_def valid_range_def unnested_def)

lemma do_singles_equal_range:
  assumes "single r" "\<forall>r \<in> set rs. single r"
  shows "do_ranges_equal_range (r # rs) full = Inr (ranges_set (r # rs) = range_set full)"
  by (rule do_ranges_equal_range_ok) (use assms singles_ok [of "r # rs"] in auto)

lemma range_set_full:
  "range_set range_u8 = UNIV" "range_set range_u16 = UNIV" "range_set range_u32 = UNIV"
  "range_set range_u64 = UNIV"
  by (auto simp: range_set_def range_u8_def range_u16_def range_u32_def range_u64_def
      global_min_def global_max_def)

lemma flatten_column:
  "column cs t \<Longrightarrow> filter_out_wildcards (pat_stack_flatten cs) = cs"
proof (induction cs)
  case (Cons c cs)
  then have "\<not> is_or c" by (auto simp: plain_pat_def or_free_not_or)
  with Cons show ?case
    by (cases c) (auto simp: pat_stack_flatten_def filter_out_wildcards_def)
qed (simp add: pat_stack_flatten_def filter_out_wildcards_def)

lemma is_complete_signature_column:
  assumes "column (c # cs) t"
  shows "is_complete_signature factory (c # cs) =
    (case c of
         PString _ \<Rightarrow> Inr False
       | B256 _ \<Rightarrow> Inr False
       | U8 r \<Rightarrow> bindE (collect_u8 cs) (\<lambda>rs. do_ranges_equal_range (r # rs) range_u8)
       | U16 r \<Rightarrow> bindE (collect_u16 cs) (\<lambda>rs. do_ranges_equal_range (r # rs) range_u16)
       | U32 r \<Rightarrow> bindE (collect_u32 cs) (\<lambda>rs. do_ranges_equal_range (r # rs) range_u32)
       | U64 r \<Rightarrow> bindE (collect_u64 cs) (\<lambda>rs. do_ranges_equal_range (r # rs) range_u64)
       | Numeric r \<Rightarrow> bindE (collect_numeric cs) (\<lambda>rs. do_ranges_equal_range (r # rs) range_u64)
       | Boolean b \<Rightarrow> bindE (collect_boolean cs) (\<lambda>bs.
           Inr (True \<in> set (b # bs) \<and> False \<in> set (b # bs)))
       | Enum n x _ \<Rightarrow>
           bindE (resolve_possible_types factory c) (\<lambda>ty.
           bindE (expect_enum ty) (\<lambda>(enum_name, enum_variants).
           bindE (resolve_enum enum_name enum_variants n x cs)
             (\<lambda>(all_variants, seen). Inr (hash_difference all_variants seen = []))))
       | _ \<Rightarrow> all_same_constructor c cs)"
proof -
  have "\<not> contains_or_pattern (c # cs)" "Wildcard \<notin> set (c # cs)" "\<not> is_or c"
    using assms by (auto simp: contains_or_pattern_iff column_def plain_pat_def or_free_not_or)
  then show ?thesis
    using serialize_or_free [of "c # cs"] flatten_column [OF assms]
    by (subst is_complete_signature.simps) (cases c, auto simp: pat_stack_is_empty_def Let_def)
qed

text \<open>What the factory has to establish for a column: it answers, and a positive answer is right.\<close>

definition signature_ok :: "constructor_factory \<Rightarrow> pat_stack \<Rightarrow> type_info \<Rightarrow> bool" where
  "signature_ok factory cs t \<longleftrightarrow>
     (\<exists>b. is_complete_signature factory cs = Inr b
        \<and> (b \<longrightarrow> (\<forall>v. has_type v t \<longrightarrow> (\<exists>c \<in> set cs. val_args c v \<noteq> None))))"

lemma signature_ok_ranges:
  assumes "is_complete_signature factory (f r # map f rs) = do_ranges_equal_range (r # rs) full"
    and "single r" "\<forall>r \<in> set rs. single r" "range_set full = UNIV"
    and "\<And>v. has_type v t \<Longrightarrow> \<exists>x. \<forall>r. x \<in> range_set r \<longrightarrow> val_args (f r) v \<noteq> None"
  shows "signature_ok factory (f r # map f rs) t"
proof -
  have eq: "is_complete_signature factory (f r # map f rs) = Inr (ranges_set (r # rs) = UNIV)"
    using assms(1,4) do_singles_equal_range [OF assms(2,3), of full] by simp
  have "\<exists>c \<in> set (f r # map f rs). val_args c v \<noteq> None"
    if full: "ranges_set (r # rs) = UNIV" and ty: "has_type v t" for v
  proof -
    obtain x where x: "\<forall>r. x \<in> range_set r \<longrightarrow> val_args (f r) v \<noteq> None"
      using assms(5) [OF ty] by blast
    have "x \<in> ranges_set (r # rs)" using full by simp
    then obtain s where "s \<in> set (r # rs)" "x \<in> range_set s" by (auto simp: ranges_set_def)
    with x show ?thesis by auto
  qed
  with eq show ?thesis unfolding signature_ok_def by blast
qed

lemma map_of_Some_fst: "map_of xs x = Some y \<Longrightarrow> x \<in> fst ` set xs"
  by (force dest: map_of_SomeD)

lemma map_fst_eq_length: "map fst xs = map fst ys \<Longrightarrow> length xs = length ys"
  by (metis length_map)

lemmas shape_simps = list_all2_conv_all_nth map_of_Some_fst

lemma plain_pat_int8:
  "plain_pat c t \<Longrightarrow> c \<noteq> Wildcard \<Longrightarrow> unalias t = UnsignedInteger 8 \<Longrightarrow> \<exists>r. c = U8 r \<and> single r"
  by (cases c) (auto simp: plain_pat_def shape_simps dest: map_fst_eq_length split: option.splits)

lemma plain_pat_int16:
  "plain_pat c t \<Longrightarrow> c \<noteq> Wildcard \<Longrightarrow> unalias t = UnsignedInteger 16 \<Longrightarrow> \<exists>r. c = U16 r \<and> single r"
  by (cases c) (auto simp: plain_pat_def shape_simps dest: map_fst_eq_length split: option.splits)

lemma plain_pat_int32:
  "plain_pat c t \<Longrightarrow> c \<noteq> Wildcard \<Longrightarrow> unalias t = UnsignedInteger 32 \<Longrightarrow> \<exists>r. c = U32 r \<and> single r"
  by (cases c) (auto simp: plain_pat_def shape_simps dest: map_fst_eq_length split: option.splits)

lemma plain_pat_int64:
  "plain_pat c t \<Longrightarrow> c \<noteq> Wildcard \<Longrightarrow> unalias t = UnsignedInteger 64 \<Longrightarrow> \<exists>r. c = U64 r \<and> single r"
  by (cases c) (auto simp: plain_pat_def shape_simps dest: map_fst_eq_length split: option.splits)

lemma plain_pat_numeric:
  "plain_pat c t \<Longrightarrow> c \<noteq> Wildcard \<Longrightarrow> unalias t = NumericType \<Longrightarrow> \<exists>r. c = Numeric r \<and> single r"
  by (cases c) (auto simp: plain_pat_def shape_simps dest: map_fst_eq_length split: option.splits)

lemma plain_pat_bool:
  "plain_pat c t \<Longrightarrow> c \<noteq> Wildcard \<Longrightarrow> unalias t = BooleanType \<Longrightarrow> \<exists>b. c = Boolean b"
  by (cases c) (auto simp: plain_pat_def shape_simps dest: map_fst_eq_length split: option.splits)

lemma plain_pat_tuple:
  "plain_pat c t \<Longrightarrow> c \<noteq> Wildcard \<Longrightarrow> unalias t = TupleType ts \<Longrightarrow> \<exists>ps. c = Tuple ps \<and> length ps = length ts"
  by (cases c) (auto simp: plain_pat_def shape_simps dest: map_fst_eq_length split: option.splits)

lemma plain_pat_struct:
  "plain_pat c t \<Longrightarrow> c \<noteq> Wildcard \<Longrightarrow> unalias t = StructType n fts \<Longrightarrow> \<exists>fps. c = Struct n fps \<and> length fps = length fts"
  by (cases c) (auto simp: plain_pat_def shape_simps dest: map_fst_eq_length split: option.splits)

lemma plain_pat_enum:
  "plain_pat c t \<Longrightarrow> c \<noteq> Wildcard \<Longrightarrow> unalias t = EnumType n vts \<Longrightarrow> \<exists>x p. c = Enum n x p \<and> x \<in> fst ` set vts"
  by (cases c) (auto simp: plain_pat_def shape_simps dest: map_fst_eq_length split: option.splits)

lemma has_type_int8: "has_type v t \<Longrightarrow> unalias t = UnsignedInteger 8 \<Longrightarrow> \<exists>x. v = VU8 x"
  by (cases v) (auto simp: shape_simps dest: map_fst_eq_length split: option.splits)

lemma has_type_int16: "has_type v t \<Longrightarrow> unalias t = UnsignedInteger 16 \<Longrightarrow> \<exists>x. v = VU16 x"
  by (cases v) (auto simp: shape_simps dest: map_fst_eq_length split: option.splits)

lemma has_type_int32: "has_type v t \<Longrightarrow> unalias t = UnsignedInteger 32 \<Longrightarrow> \<exists>x. v = VU32 x"
  by (cases v) (auto simp: shape_simps dest: map_fst_eq_length split: option.splits)

lemma has_type_int64: "has_type v t \<Longrightarrow> unalias t = UnsignedInteger 64 \<Longrightarrow> \<exists>x. v = VU64 x"
  by (cases v) (auto simp: shape_simps dest: map_fst_eq_length split: option.splits)

lemma has_type_numeric: "has_type v t \<Longrightarrow> unalias t = NumericType \<Longrightarrow> \<exists>x. v = VNumeric x"
  by (cases v) (auto simp: shape_simps dest: map_fst_eq_length split: option.splits)

lemma has_type_bool: "has_type v t \<Longrightarrow> unalias t = BooleanType \<Longrightarrow> \<exists>b. v = VBoolean b"
  by (cases v) (auto simp: shape_simps dest: map_fst_eq_length split: option.splits)

lemma has_type_tuple: "has_type v t \<Longrightarrow> unalias t = TupleType ts \<Longrightarrow> \<exists>vs. v = VTuple vs \<and> length vs = length ts"
  by (cases v) (auto simp: shape_simps dest: map_fst_eq_length split: option.splits)

lemma has_type_struct: "has_type v t \<Longrightarrow> unalias t = StructType n fts \<Longrightarrow> \<exists>fvs. v = VStruct n fvs \<and> length fvs = length fts"
  by (cases v) (auto simp: shape_simps dest: map_fst_eq_length split: option.splits)

lemma has_type_enum: "has_type v t \<Longrightarrow> unalias t = EnumType n vts \<Longrightarrow> \<exists>x w. v = VEnum n x w \<and> x \<in> fst ` set vts"
  by (cases v) (auto simp: shape_simps dest: map_fst_eq_length split: option.splits)

lemma column_int8:
  "column cs t \<Longrightarrow> unalias t = UnsignedInteger 8 \<Longrightarrow> \<exists>rs. cs = map U8 rs \<and> (\<forall>r \<in> set rs. single r)"
  by (rule column_map) (auto dest: plain_pat_int8)

lemma column_int16:
  "column cs t \<Longrightarrow> unalias t = UnsignedInteger 16 \<Longrightarrow> \<exists>rs. cs = map U16 rs \<and> (\<forall>r \<in> set rs. single r)"
  by (rule column_map) (auto dest: plain_pat_int16)

lemma column_int32:
  "column cs t \<Longrightarrow> unalias t = UnsignedInteger 32 \<Longrightarrow> \<exists>rs. cs = map U32 rs \<and> (\<forall>r \<in> set rs. single r)"
  by (rule column_map) (auto dest: plain_pat_int32)

lemma column_int64:
  "column cs t \<Longrightarrow> unalias t = UnsignedInteger 64 \<Longrightarrow> \<exists>rs. cs = map U64 rs \<and> (\<forall>r \<in> set rs. single r)"
  by (rule column_map) (auto dest: plain_pat_int64)

lemma column_numeric:
  "column cs t \<Longrightarrow> unalias t = NumericType \<Longrightarrow> \<exists>rs. cs = map Numeric rs \<and> (\<forall>r \<in> set rs. single r)"
  by (rule column_map) (auto dest: plain_pat_numeric)

lemma signature_ok_int8:
  assumes "column (U8 r # cs) t"
  shows "signature_ok factory (U8 r # cs) t"
proof -
  have t: "unalias t = UnsignedInteger 8" using assms by (simp add: plain_pat_def)
  obtain rs where rs: "cs = map U8 rs" "single r" "\<forall>r \<in> set rs. single r"
    using column_int8 [OF _ t, of cs] assms by (auto simp: plain_pat_def)
  show ?thesis
    unfolding rs(1)
  proof (rule signature_ok_ranges [where full = range_u8])
    show "is_complete_signature factory (U8 r # map U8 rs) = do_ranges_equal_range (r # rs) range_u8"
      using is_complete_signature_column [OF assms [unfolded rs(1)]] by (simp add: collect_map)
    show "\<exists>x. \<forall>r. x \<in> range_set r \<longrightarrow> val_args (U8 r) v \<noteq> None" if "has_type v t" for v
      using has_type_int8 [OF that t] by (auto simp: in_range_iff)
  qed (use rs range_set_full in auto)
qed

lemma signature_ok_int16:
  assumes "column (U16 r # cs) t"
  shows "signature_ok factory (U16 r # cs) t"
proof -
  have t: "unalias t = UnsignedInteger 16" using assms by (simp add: plain_pat_def)
  obtain rs where rs: "cs = map U16 rs" "single r" "\<forall>r \<in> set rs. single r"
    using column_int16 [OF _ t, of cs] assms by (auto simp: plain_pat_def)
  show ?thesis
    unfolding rs(1)
  proof (rule signature_ok_ranges [where full = range_u16])
    show "is_complete_signature factory (U16 r # map U16 rs) = do_ranges_equal_range (r # rs) range_u16"
      using is_complete_signature_column [OF assms [unfolded rs(1)]] by (simp add: collect_map)
    show "\<exists>x. \<forall>r. x \<in> range_set r \<longrightarrow> val_args (U16 r) v \<noteq> None" if "has_type v t" for v
      using has_type_int16 [OF that t] by (auto simp: in_range_iff)
  qed (use rs range_set_full in auto)
qed

lemma signature_ok_int32:
  assumes "column (U32 r # cs) t"
  shows "signature_ok factory (U32 r # cs) t"
proof -
  have t: "unalias t = UnsignedInteger 32" using assms by (simp add: plain_pat_def)
  obtain rs where rs: "cs = map U32 rs" "single r" "\<forall>r \<in> set rs. single r"
    using column_int32 [OF _ t, of cs] assms by (auto simp: plain_pat_def)
  show ?thesis
    unfolding rs(1)
  proof (rule signature_ok_ranges [where full = range_u32])
    show "is_complete_signature factory (U32 r # map U32 rs) = do_ranges_equal_range (r # rs) range_u32"
      using is_complete_signature_column [OF assms [unfolded rs(1)]] by (simp add: collect_map)
    show "\<exists>x. \<forall>r. x \<in> range_set r \<longrightarrow> val_args (U32 r) v \<noteq> None" if "has_type v t" for v
      using has_type_int32 [OF that t] by (auto simp: in_range_iff)
  qed (use rs range_set_full in auto)
qed

lemma signature_ok_int64:
  assumes "column (U64 r # cs) t"
  shows "signature_ok factory (U64 r # cs) t"
proof -
  have t: "unalias t = UnsignedInteger 64" using assms by (simp add: plain_pat_def)
  obtain rs where rs: "cs = map U64 rs" "single r" "\<forall>r \<in> set rs. single r"
    using column_int64 [OF _ t, of cs] assms by (auto simp: plain_pat_def)
  show ?thesis
    unfolding rs(1)
  proof (rule signature_ok_ranges [where full = range_u64])
    show "is_complete_signature factory (U64 r # map U64 rs) = do_ranges_equal_range (r # rs) range_u64"
      using is_complete_signature_column [OF assms [unfolded rs(1)]] by (simp add: collect_map)
    show "\<exists>x. \<forall>r. x \<in> range_set r \<longrightarrow> val_args (U64 r) v \<noteq> None" if "has_type v t" for v
      using has_type_int64 [OF that t] by (auto simp: in_range_iff)
  qed (use rs range_set_full in auto)
qed

lemma signature_ok_numeric:
  assumes "column (Numeric r # cs) t"
  shows "signature_ok factory (Numeric r # cs) t"
proof -
  have t: "unalias t = NumericType" using assms by (simp add: plain_pat_def)
  obtain rs where rs: "cs = map Numeric rs" "single r" "\<forall>r \<in> set rs. single r"
    using column_numeric [OF _ t, of cs] assms by (auto simp: plain_pat_def)
  show ?thesis
    unfolding rs(1)
  proof (rule signature_ok_ranges [where full = range_u64])
    show "is_complete_signature factory (Numeric r # map Numeric rs) = do_ranges_equal_range (r # rs) range_u64"
      using is_complete_signature_column [OF assms [unfolded rs(1)]] by (simp add: collect_map)
    show "\<exists>x. \<forall>r. x \<in> range_set r \<longrightarrow> val_args (Numeric r) v \<noteq> None" if "has_type v t" for v
      using has_type_numeric [OF that t] by (auto simp: in_range_iff)
  qed (use rs range_set_full in auto)
qed

lemma signature_ok_bool:
  assumes "column (Boolean b # cs) t"
  shows "signature_ok factory (Boolean b # cs) t"
proof -
  have t: "unalias t = BooleanType" using assms by (simp add: plain_pat_def)
  obtain bs where bs: "cs = map Boolean bs"
    using column_map [of cs t Boolean "\<lambda>_. True"] plain_pat_bool [OF _ _ t] assms by auto
  have "is_complete_signature factory (Boolean b # cs) = Inr (True \<in> set (b # bs) \<and> False \<in> set (b # bs))"
    using is_complete_signature_column [OF assms] by (simp add: collect_map bs)
  moreover have "\<exists>c \<in> set (Boolean b # cs). val_args c v \<noteq> None"
    if all: "True \<in> set (b # bs) \<and> False \<in> set (b # bs)" and v: "has_type v t" for v
  proof -
    obtain x where x: "v = VBoolean x" using has_type_bool [OF v t] by blast
    have "x \<in> set (b # bs)" using all by (cases x) auto
    then have "Boolean x \<in> set (Boolean b # cs)" unfolding bs by auto
    then show ?thesis unfolding x by (rule bexI [rotated]) simp
  qed
  ultimately show ?thesis unfolding signature_ok_def by blast
qed

lemma all_same_constructor_ok:
  "\<forall>d \<in> set cs. same_ctor d c \<Longrightarrow> all_same_constructor c cs = Inr True"
  by (induction cs) (auto simp: same_ctor_def)

lemma signature_ok_one:
  assumes "column (c # cs) t" "\<And>d. d \<in> set cs \<Longrightarrow> same_ctor d c"
    and "is_complete_signature factory (c # cs) = all_same_constructor c cs"
    and "\<And>v. has_type v t \<Longrightarrow> val_args c v \<noteq> None"
  shows "signature_ok factory (c # cs) t"
  using assms all_same_constructor_ok [of cs c] unfolding signature_ok_def by auto

lemma signature_ok_tuple:
  assumes "column (Tuple ps # cs) t"
  shows "signature_ok factory (Tuple ps # cs) t"
proof -
  obtain ts where t: "unalias t = TupleType ts"
    using assms by (auto simp: plain_pat_def split: type_info.splits)
  have sh: "\<exists>qs. d = Tuple qs \<and> length qs = length ts" if "d \<in> set (Tuple ps # cs)" for d
    using plain_pat_tuple [OF _ _ t] that assms by (auto simp: column_def)
  then have ps: "length ps = length ts" by auto
  show ?thesis
  proof (rule signature_ok_one [OF assms])
    show "same_ctor d (Tuple ps)" if "d \<in> set cs" for d
      using sh [of d] that ps by (auto simp: same_ctor_def)
    show "is_complete_signature factory (Tuple ps # cs) = all_same_constructor (Tuple ps) cs"
      using is_complete_signature_column [OF assms] by simp
    show "val_args (Tuple ps) v \<noteq> None" if "has_type v t" for v
      using has_type_tuple [OF that t] ps by auto
  qed
qed

lemma signature_ok_struct:
  assumes "column (Struct n fps # cs) t"
  shows "signature_ok factory (Struct n fps # cs) t"
proof -
  obtain fts where t: "unalias t = StructType n fts"
    using assms by (auto simp: plain_pat_def split: type_info.splits)
  have sh: "\<exists>qs. d = Struct n qs \<and> length qs = length fts" if "d \<in> set (Struct n fps # cs)" for d
    using plain_pat_struct [OF _ _ t] that assms by (auto simp: column_def)
  then have fps: "length fps = length fts" by auto
  show ?thesis
  proof (rule signature_ok_one [OF assms])
    show "same_ctor d (Struct n fps)" if "d \<in> set cs" for d
      using sh [of d] that fps by (auto simp: same_ctor_def)
    show "is_complete_signature factory (Struct n fps # cs) = all_same_constructor (Struct n fps) cs"
      using is_complete_signature_column [OF assms] by simp
    show "val_args (Struct n fps) v \<noteq> None" if "has_type v t" for v
      using has_type_struct [OF that t] fps by auto
  qed
qed

text \<open>Enums: the factory finds some enum type with the name and the variant of the pattern.\<close>

lemma unalias_nested: "unalias t \<in> set (nested_types t)"
  by (induction t rule: unalias.induct) auto

lemma find_Some_D: "find P xs = Some x \<Longrightarrow> x \<in> set xs \<and> P x"
  by (auto simp: find_Some_iff)

lemma resolve_possible_types_enum:
  assumes "factory_for factory t" "unalias t = EnumType n vts" "x \<in> fst ` set vts"
  obtains ws where "resolve_possible_types factory (Enum n x p) = Inr (EnumType n ws)"
    and "fst ` set ws = fst ` set vts"
proof -
  have t: "EnumType n vts \<in> set (possible_types factory)"
    using assms(1,2) unalias_nested [of t] by (auto simp: factory_for_def)
  moreover have "matches_type_info (Enum n x p) (EnumType n vts)" using assms(3) by simp
  ultimately obtain ty where ty: "find (matches_type_info (Enum n x p)) (possible_types factory) = Some ty"
    by (metis find_None_iff option.exhaust)
  from find_Some_D [OF ty] obtain ws where ws: "ty = EnumType n ws"
      "EnumType n ws \<in> set (possible_types factory)"
    by (cases ty) auto
  then have "fst ` set ws = fst ` set vts"
    using factory_for_enums [OF assms(1) ws(2) t] by simp
  with ty ws(1) show ?thesis using that by (simp add: resolve_possible_types_def)
qed

lemma enum_column:
  assumes "column cs t" "unalias t = EnumType n vts"
  shows "\<exists>xps. cs = map (\<lambda>(x, p). Enum n x p) xps"
  using column_map [OF assms(1), of "\<lambda>(x, p). Enum n x p" "\<lambda>_. True"] plain_pat_enum [OF _ _ assms(2)]
  by fastforce

lemma resolve_enum_column:
  "resolve_enum n ws n x (map (\<lambda>(x, p). Enum n x p) xps)
     = Inr (remdups (map fst ws), x # map fst xps)"
proof -
  have "mapM (\<lambda>pat. case pat of
            Enum m y _ \<Rightarrow> if m \<noteq> n then Inl (Internal ''expected matching enum names'') else Inr y
          | _ \<Rightarrow> wrong_type) (map (\<lambda>(x, p). Enum n x p) xps) = Inr (map fst xps)"
    by (induction xps) auto
  then show ?thesis by (simp add: resolve_enum_def)
qed

lemma signature_ok_enum:
  assumes "column (Enum n x p # cs) t" "factory_for factory t"
  shows "signature_ok factory (Enum n x p # cs) t"
proof -
  obtain vts where t: "unalias t = EnumType n vts"
    using assms by (auto simp: plain_pat_def split: type_info.splits)
  have x: "x \<in> fst ` set vts" using plain_pat_enum [OF _ _ t, of "Enum n x p"] assms(1) by auto
  obtain xps where cs: "cs = map (\<lambda>(x, p). Enum n x p) xps"
    using enum_column [OF _ t, of cs] assms(1) by auto
  obtain ws where ws: "resolve_possible_types factory (Enum n x p) = Inr (EnumType n ws)"
      "fst ` set ws = fst ` set vts"
    by (rule resolve_possible_types_enum [OF assms(2) t x])
  have eq: "is_complete_signature factory (Enum n x p # cs)
      = Inr (hash_difference (remdups (map fst ws)) (x # map fst xps) = [])"
    using is_complete_signature_column [OF assms(1), of factory] ws(1) resolve_enum_column cs by simp
  have "\<exists>c \<in> set (Enum n x p # cs). val_args c v \<noteq> None"
    if all: "hash_difference (remdups (map fst ws)) (x # map fst xps) = []" and v: "has_type v t" for v
  proof -
    obtain y w where v: "v = VEnum n y w" "y \<in> fst ` set vts" using has_type_enum [OF v t] by blast
    have "y \<in> set (x # map fst xps)"
      using all v(2) ws(2) by (auto simp: hash_difference_def filter_empty_conv)
    then obtain p' where "Enum n y p' \<in> set (Enum n x p # cs)" unfolding cs by force
    then show ?thesis unfolding v(1) by (rule bexI [rotated]) simp
  qed
  with eq show ?thesis unfolding signature_ok_def by blast
qed

lemma signature_ok:
  assumes "column (c # cs) t" "factory_for factory t"
  shows "signature_ok factory (c # cs) t"
proof (cases c)
  case (Enum n x p)
  then show ?thesis using signature_ok_enum assms by simp
next
  case (Or ps)
  then show ?thesis using assms(1) by (simp add: plain_pat_def)
next
  case (B256 b)
  then show ?thesis using is_complete_signature_column [OF assms(1), of factory]
    by (auto simp: signature_ok_def)
next
  case (PString b)
  then show ?thesis using is_complete_signature_column [OF assms(1), of factory]
    by (auto simp: signature_ok_def)
qed (use assms signature_ok_int8 signature_ok_int16 signature_ok_int32 signature_ok_int64
      signature_ok_numeric signature_ok_bool signature_ok_tuple signature_ok_struct in auto)

lemma empty_signature: "is_complete_signature factory [] = Inr False"
  using serialize_or_free [of "[]"]
  by (subst is_complete_signature.simps)
    (simp add: pat_stack_is_empty_def pat_stack_flatten_def filter_out_wildcards_def)

lemma val_signature_covers:
  assumes "is_complete_signature factory sigma = Inr True" "Wildcard \<notin> set sigma"
    and "\<forall>c \<in> set sigma. plain_pat c t" "factory_for factory t" "has_type v t"
  shows "\<exists>c \<in> set sigma. val_args c v \<noteq> None"
proof (cases sigma)
  case (Cons c cs)
  then have "column (c # cs) t" using assms(2,3) by (auto simp: column_def)
  from signature_ok [OF this assms(4)] show ?thesis
    using assms(1,5) Cons by (auto simp: signature_ok_def)
qed (use assms(1) empty_signature in simp)

lemma set_nested_types:
  "set (nested_types (EnumType n vts)) =
     insert (EnumType n vts) (\<Union>u \<in> snd ` set vts. set (nested_types u))"
  "set (nested_types (StructType n vts)) =
     insert (StructType n vts) (\<Union>u \<in> snd ` set vts. set (nested_types u))"
  by (simp_all add: case_prod_beta)

lemma nested_types_self: "t \<in> set (nested_types t)"
  by (cases t) auto

declare nested_types.simps(1,2) [simp del]

lemma nested_types_trans: "u \<in> set (nested_types t) \<Longrightarrow> set (nested_types u) \<subseteq> set (nested_types t)"
proof (induction t rule: nested_types.induct)
  case (1 n vts)
  have "\<And>v. v \<in> snd ` set vts \<Longrightarrow> u \<in> set (nested_types v)
      \<Longrightarrow> set (nested_types u) \<subseteq> set (nested_types v)"
    using "1.IH" by force
  with "1.prems" show ?case by (auto simp: set_nested_types)
next
  case (2 n fts)
  have "\<And>v. v \<in> snd ` set fts \<Longrightarrow> u \<in> set (nested_types v)
      \<Longrightarrow> set (nested_types u) \<subseteq> set (nested_types v)"
    using "2.IH" by force
  with "2.prems" show ?case by (auto simp: set_nested_types)
next
  case (3 ts)
  then show ?case by auto
next
  case (4 n t)
  then show ?case by auto
qed simp_all

lemma arg_types_nested: "u \<in> set (arg_types c t) \<Longrightarrow> u \<in> set (nested_types t)"
proof -
  assume u: "u \<in> set (arg_types c t)"
  have "u \<in> set (nested_types (unalias t))"
  proof (cases "unalias t")
    case (EnumType n vts)
    then obtain x where "map_of vts x = Some u"
      using u by (auto simp: arg_types_def split: pattern.splits option.splits)
    then have "u \<in> snd ` set vts" by (force dest: map_of_SomeD)
    then show ?thesis using EnumType nested_types_self [of u] by (auto simp: set_nested_types)
  next
    case (StructType n fts)
    then show ?thesis using u nested_types_self [of u] by (auto simp: arg_types_def set_nested_types)
  qed (use u nested_types_self [of u] in \<open>auto simp: arg_types_def\<close>)
  then show ?thesis using nested_types_trans [OF unalias_nested [of t]] by blast
qed

lemma factory_for_args:
  assumes "factory_for factory t" "u \<in> set (arg_types c t)"
  shows "factory_for factory u"
  using assms nested_types_trans [OF arg_types_nested [OF assms(2)]]
  by (auto simp: factory_for_def)

interpretation sway_values: value_semantics has_type pmatch val_args factory_for
proof unfold_locales
  show "pmatch Wildcard v" for v by simp
  show "list_all2 has_type ws (arg_types c t)"
    if "has_type v t" "plain_pat c t" "val_args c v = Some ws" for v t c ws
    using that by (rule val_args_typed)
  show "pmatch c v \<longleftrightarrow> (\<exists>ws. val_args c v = Some ws \<and> list_all2 pmatch (sub_pats c) ws)"
    if "has_type v t" "plain_pat c t" "c \<noteq> Wildcard" for v t c
    using that by (rule pmatch_args)
qed (use val_args_same_ctor val_args_root val_signature_covers factory_for_args in blast)+

end
