(* ===== verification/Match_Total.thy ===== *)
theory Match_Total
  imports Match_Values
begin

text \<open>
  The analysis of plain, well-typed matches always answers: none of its internal errors
  is reachable, and its recursion is bounded by the size of the matched types. The key
  invariant is that a report with witnesses has at least one witness for every wildcard of
  the query, so that taking it apart never runs out of patterns.
\<close>

section \<open>Serialization keeps the length of rows\<close>

lemma expand_or_patterns_length:
  "row' \<in> set (expand_or_patterns row) \<Longrightarrow> length row' = length row"
  by (auto simp: expand_or_patterns_def split: pattern.splits)

lemma serialize_loop_length:
  assumes "row \<in> set (serialize_loop stack out)"
    and "\<forall>r \<in> set stack. length r = n" "\<forall>r \<in> set out. length r = n"
  shows "length row = n"
  using assms
proof (induction stack out rule: serialize_loop.induct)
  case (1 stack out)
  show ?case
  proof (cases "vec_pop stack")
    case None
    then show ?thesis using "1.prems" by (subst (asm) serialize_loop.simps) auto
  next
    case (Some a)
    obtain tp stack' where a: "a = (tp, stack')" by (cases a)
    then have stack: "stack = stack' @ [tp]" using Some by (simp add: vec_pop_Some_iff)
    show ?thesis
    proof (cases "contains_or_pattern tp")
      case True
      then have "row \<in> set (serialize_loop (stack' @ expand_or_patterns tp) out)"
        using "1.prems"(1) Some a by (subst (asm) serialize_loop.simps) simp
      then show ?thesis
        using "1.IH"(2) [OF Some a [symmetric]] True "1.prems"(2,3) stack expand_or_patterns_length
        by auto
    next
      case False
      then have "row \<in> set (serialize_loop stack' (vec_push out tp))"
        using "1.prems"(1) Some a by (subst (asm) serialize_loop.simps) simp
      then show ?thesis
        using "1.IH"(1) [OF Some a [symmetric]] False "1.prems"(2,3) stack
        by (auto simp: vec_push_def)
    qed
  qed
qed

lemma serialize_multi_patterns_length:
  "serialize_multi_patterns ps = Inr rows \<Longrightarrow> row \<in> set rows \<Longrightarrow> length row = length ps"
  using serialize_loop_length [of row "[ps]" "[]" "length ps"]
  by (auto simp: serialize_multi_patterns_def)

section \<open>Reports that are long enough\<close>

lemma from_pat_stack_total: "\<exists>p. from_pat_stack ps = Inr p"
  by (cases ps) auto

lemma from_constructor_and_arguments_total:
  assumes "\<not> is_or c" "length args = a_value c"
  shows "\<exists>p. from_constructor_and_arguments c args = Inr p"
proof (cases c)
  case (Enum n x q)
  obtain rows where rows: "serialize_multi_patterns args = Inr rows"
    by (simp add: serialize_multi_patterns_def)
  have "\<exists>p. bindE (pat_stack_first row) (\<lambda>arg. Inr (Enum n x arg)) = Inr p" if "row \<in> set rows" for row
    using serialize_multi_patterns_length [OF rows that] assms(2) Enum
    by (cases row) auto
  then obtain ps where "mapM (\<lambda>row. bindE (pat_stack_first row) (\<lambda>arg. Inr (Enum n x arg))) rows = Inr ps"
    using mapM_Inr_exI [of rows "\<lambda>row. bindE (pat_stack_first row) (\<lambda>arg. Inr (Enum n x arg))"]
    by auto
  then have "from_constructor_and_arguments c args = from_pat_stack ps"
    using Enum assms(2) rows by (simp del: from_pat_stack.simps)
  then show ?thesis by (simp only: from_pat_stack_total)
qed (use assms in \<open>simp_all add: from_pat_stack_total nullary_constructor_def pat_stack_is_empty_def
    pat_stack_flatten_def filter_out_wildcards_def serialize_multi_patterns_def
    del: from_pat_stack.simps\<close>)

definition wildcards :: "pat_stack \<Rightarrow> nat" where
  "wildcards q = length (filter (\<lambda>p. p = Wildcard) q)"

definition long_enough :: "nat \<Rightarrow> witness_report \<Rightarrow> bool" where
  "long_enough k wr \<longleftrightarrow> (\<forall>ps. wr = Witnesses ps \<longrightarrow> k \<le> length ps)"

lemma wildcards_simps [simp]:
  "wildcards [] = 0" "wildcards (p # ps) = (if p = Wildcard then Suc (wildcards ps) else wildcards ps)"
  "wildcards (ps @ qs) = wildcards ps + wildcards qs" "wildcards (fill_wildcards n) = n"
  by (simp_all add: wildcards_def fill_wildcards_def filter_replicate)

lemma wildcards_le: "wildcards q \<le> length q"
  by (simp add: wildcards_def)

lemma long_enough_simps [simp]:
  "long_enough k NoWitnesses" "long_enough k (Witnesses ps) \<longleftrightarrow> k \<le> length ps"
  by (simp_all add: long_enough_def)

lemma long_enough_join:
  "long_enough k a \<Longrightarrow> long_enough k b \<Longrightarrow> long_enough k (join_witness_reports a b)"
  by (cases a; cases b) auto

lemma long_enough_mono: "long_enough k wr \<Longrightarrow> j \<le> k \<Longrightarrow> long_enough j wr"
  by (auto simp: long_enough_def)

lemma split_total:
  assumes "long_enough (a_value c + k) (Witnesses ps)" "\<not> is_or c"
  shows "\<exists>pat wr. split_into_leading_constructor (Witnesses ps) c = Inr (pat, wr) \<and> long_enough k wr"
proof -
  have "\<exists>pat. from_constructor_and_arguments c (take (a_value c) ps) = Inr pat"
    using assms by (intro from_constructor_and_arguments_total) auto
  with assms show ?thesis by (auto simp: pat_stack_split_at_def)
qed

text \<open>A recursive call that answers with a long enough report.\<close>

definition answers :: "(matrix \<Rightarrow> pat_stack \<Rightarrow> witness_report result) \<Rightarrow> matrix \<Rightarrow> pat_stack \<Rightarrow> bool" where
  "answers U p q \<longleftrightarrow> (\<exists>wr. U p q = Inr wr \<and> long_enough (wildcards q) wr)"

lemma join_all_one: "join_all U p [r] = bindE (U p r) (\<lambda>wr. Inr (join_witness_reports NoWitnesses wr))"
  by (cases "U p r") (simp_all add: join_all_def)

lemma join_NoWitnesses [simp]: "join_witness_reports NoWitnesses wr = wr"
  by (cases wr) auto

lemma wildcard_complete_step_total:
  assumes "\<not> is_or c" "compute_specialized_matrix c p q = Inr s_p"
    and "compute_specialized_matrix c [q] q = Inr [r]" "answers U s_p r"
    and "a_value c + k \<le> wildcards r" "long_enough k wr"
  shows "\<exists>wr' pats'. wildcard_complete_step U p q c (wr, pats) = Inr (wr', pats') \<and> long_enough k wr'"
proof -
  obtain new where new: "U s_p r = Inr new" "long_enough (wildcards r) new"
    using assms(4) by (auto simp: answers_def)
  show ?thesis
  proof (cases new)
    case NoWitnesses
    then show ?thesis
      using assms(2,3,6) new(1)
      by (cases wr) (auto simp: wildcard_complete_step_def join_all_one)
  next
    case (Witnesses ps)
    then have "long_enough (a_value c + k) (Witnesses ps)"
      using new(2) assms(5) by (auto intro: long_enough_mono)
    from split_total [OF this assms(1)] obtain pat wr' where
      "split_into_leading_constructor (Witnesses ps) c = Inr (pat, wr')" "long_enough k wr'" by blast
    with Witnesses show ?thesis
      using assms(2,3,6) new(1) long_enough_join [of k wr wr']
      by (cases wr) (auto simp: wildcard_complete_step_def join_all_one
          simp del: split_into_leading_constructor.simps)
  qed
qed

section \<open>A pattern that is not present\<close>

lemma create_pattern_column:
  assumes "column (c # cs) t"
  shows "create_pattern_not_present factory (c # cs) =
    (case c of
       U8 r \<Rightarrow> bindE (collect_u8 cs) (\<lambda>rs.
         bindE (find_exclusionary_ranges (r # rs) range_u8) (\<lambda>ex. from_pat_stack (map U8 ex)))
     | U16 r \<Rightarrow> bindE (collect_u16 cs) (\<lambda>rs.
         bindE (find_exclusionary_ranges (r # rs) range_u16) (\<lambda>ex. from_pat_stack (map U16 ex)))
     | U32 r \<Rightarrow> bindE (collect_u32 cs) (\<lambda>rs.
         bindE (find_exclusionary_ranges (r # rs) range_u32) (\<lambda>ex. from_pat_stack (map U32 ex)))
     | U64 r \<Rightarrow> bindE (collect_u64 cs) (\<lambda>rs.
         bindE (find_exclusionary_ranges (r # rs) range_u64) (\<lambda>ex. from_pat_stack (map U64 ex)))
     | Numeric r \<Rightarrow> bindE (collect_numeric cs) (\<lambda>rs.
         bindE (find_exclusionary_ranges (r # rs) range_u64) (\<lambda>ex. from_pat_stack (map Numeric ex)))
     | Boolean b \<Rightarrow> boolean_not_present b cs
     | Struct n flds \<Rightarrow> Inr (Struct n (map (\<lambda>(name, _). (name, Wildcard)) flds))
     | Enum n x _ \<Rightarrow>
         bindE (resolve_possible_types factory c) (\<lambda>ty.
         bindE (expect_enum ty) (\<lambda>(enum_name, enum_variants).
         bindE (resolve_enum enum_name enum_variants n x cs)
           (\<lambda>(all_variants, seen).
         from_pat_stack (map (\<lambda>x. Enum enum_name x Wildcard) (hash_difference all_variants seen)))))
     | Tuple elems \<Rightarrow> Inr (Tuple (fill_wildcards (length elems)))
     | _ \<Rightarrow> Inr Wildcard)"
proof -
  have "\<not> is_or c" using assms by (auto simp: plain_pat_def or_free_not_or)
  then show ?thesis
    using flatten_column [OF assms]
    by (subst create_pattern_not_present.simps) (cases c, simp_all)
qed

lemma find_exclusionary_singles:
  assumes "\<forall>r \<in> set (r # rs). single r" "range_set full = UNIV"
  shows "\<exists>p. bindE (find_exclusionary_ranges (r # rs) full) (\<lambda>ex. from_pat_stack (map f ex)) = Inr p"
proof -
  obtain ex where "find_exclusionary_ranges (r # rs) full = Inr ex"
    using find_exclusionary_ranges_ok [of "r # rs" full] singles_ok [OF assms(1)] assms(2) by auto
  then show ?thesis by (simp add: from_pat_stack_total del: from_pat_stack.simps)
qed

lemma create_pattern_total:
  assumes "column (c # cs) t" "factory_for factory t"
    and "is_complete_signature factory (c # cs) = Inr False"
  shows "\<exists>p. create_pattern_not_present factory (c # cs) = Inr p"
proof -
  note eq = create_pattern_column [OF assms(1), of factory]
  have tail: "column cs t" "plain_pat c t" using assms(1) by auto
  show ?thesis
  proof (cases c)
    case (U8 r)
    then obtain rs where "cs = map U8 rs" "\<forall>r \<in> set (r # rs). single r"
      using column_int8 [OF tail(1)] tail(2) by (auto simp: plain_pat_def)
    then show ?thesis
      using eq U8 find_exclusionary_singles [of r rs range_u8 U8]
      by (simp add: collect_map range_set_full del: from_pat_stack.simps)
  next
    case (U16 r)
    then obtain rs where "cs = map U16 rs" "\<forall>r \<in> set (r # rs). single r"
      using column_int16 [OF tail(1)] tail(2) by (auto simp: plain_pat_def)
    then show ?thesis
      using eq U16 find_exclusionary_singles [of r rs range_u16 U16]
      by (simp add: collect_map range_set_full del: from_pat_stack.simps)
  next
    case (U32 r)
    then obtain rs where "cs = map U32 rs" "\<forall>r \<in> set (r # rs). single r"
      using column_int32 [OF tail(1)] tail(2) by (auto simp: plain_pat_def)
    then show ?thesis
      using eq U32 find_exclusionary_singles [of r rs range_u32 U32]
      by (simp add: collect_map range_set_full del: from_pat_stack.simps)
  next
    case (U64 r)
    then obtain rs where "cs = map U64 rs" "\<forall>r \<in> set (r # rs). single r"
      using column_int64 [OF tail(1)] tail(2) by (auto simp: plain_pat_def)
    then show ?thesis
      using eq U64 find_exclusionary_singles [of r rs range_u64 U64]
      by (simp add: collect_map range_set_full del: from_pat_stack.simps)
  next
    case (Numeric r)
    then obtain rs where "cs = map Numeric rs" "\<forall>r \<in> set (r # rs). single r"
      using column_numeric [OF tail(1)] tail(2) by (auto simp: plain_pat_def)
    then show ?thesis
      using eq Numeric find_exclusionary_singles [of r rs range_u64 Numeric]
      by (simp add: collect_map range_set_full del: from_pat_stack.simps)
  next
    case (Boolean b)
    obtain bs where bs: "cs = map Boolean bs"
      using column_map [of cs t Boolean "\<lambda>_. True"] plain_pat_bool [where t = t] tail Boolean
      by (auto simp: plain_pat_def)
    have "\<not> (True \<in> set (b # bs) \<and> False \<in> set (b # bs))"
      using is_complete_signature_column [OF assms(1), of factory] assms(3) Boolean bs
      by (simp add: collect_map)
    then have "\<forall>x \<in> set bs. x = b" by (cases b) (auto, metis)
    then have "boolean_not_present b (map Boolean bs) = Inr (Boolean (\<not> b))"
      by (cases b) (auto simp: boolean_not_present_def)
    then show ?thesis using eq Boolean bs by simp
  next
    case (Enum n x p)
    then obtain vts where t: "unalias t = EnumType n vts"
      using tail by (auto simp: plain_pat_def split: type_info.splits)
    have x: "x \<in> fst ` set vts" using plain_pat_enum [OF _ _ t, of "Enum n x p"] tail Enum by auto
    obtain xps where cs: "cs = map (\<lambda>(x, p). Enum n x p) xps" using enum_column [OF tail(1) t] by auto
    obtain ws where "resolve_possible_types factory (Enum n x p) = Inr (EnumType n ws)"
      by (rule resolve_possible_types_enum [OF assms(2) t x])
    then have "create_pattern_not_present factory (c # cs) = from_pat_stack
        (map (\<lambda>x. Enum n x Wildcard) (hash_difference (remdups (map fst ws)) (x # map fst xps)))"
      using eq Enum resolve_enum_column [of n ws x xps] by (simp add: cs del: from_pat_stack.simps)
    then show ?thesis by (simp only: from_pat_stack_total)
  qed (use eq in \<open>simp_all del: from_pat_stack.simps\<close>)
qed

section \<open>Types get smaller\<close>

lemma size_unalias: "size (unalias t) \<le> size t"
  by (induction t rule: unalias.induct) auto

lemma size_list_snd: "size_list size (map snd fts) \<le> size_list (size_prod (\<lambda>_. 0) size) fts"
  by (induction fts) auto

lemma size_arg_types: "size_list size (arg_types c t) \<le> size t"
proof -
  have "size_list size (arg_types c t) \<le> size (unalias t)"
  proof (cases "unalias t")
    case (EnumType n vts)
    have "size u < size_list (size_prod (\<lambda>_. 0) size) vts" if "map_of vts x = Some u" for x u
      using size_list_member [OF map_of_SomeD [OF that], of "size_prod (\<lambda>_. 0) size"] by simp
    then show ?thesis using EnumType
      by (cases c) (force simp: arg_types_def split: option.splits)+
  next
    case (StructType n fts)
    then show ?thesis using size_list_snd [of fts] by (simp add: arg_types_def)
  qed (simp_all add: arg_types_def)
  with size_unalias [of t] show ?thesis by simp
qed

lemma size_list_append: "size_list f (xs @ ys) = size_list f xs + size_list f ys"
  by (induction xs) auto

section \<open>Totality\<close>

definition plain_query :: "constructor_factory \<Rightarrow> matrix \<Rightarrow> pat_stack \<Rightarrow> type_info list \<Rightarrow> bool" where
  "plain_query factory p q ts \<longleftrightarrow>
     plain_matrix p ts \<and> plain_row q ts \<and> (\<forall>t \<in> set ts. factory_for factory t)"

definition answers_below ::
  "(matrix \<Rightarrow> pat_stack \<Rightarrow> witness_report result) \<Rightarrow> constructor_factory \<Rightarrow> nat \<Rightarrow> bool" where
  "answers_below U factory n \<longleftrightarrow>
     (\<forall>p q ts. plain_query factory p q ts \<longrightarrow> size_list size ts < n \<longrightarrow> answers U p q)"

lemma answers_belowD:
  "answers_below U factory n \<Longrightarrow> plain_query factory p q ts \<Longrightarrow> size_list size ts < n \<Longrightarrow> answers U p q"
  by (auto simp: answers_below_def)

lemma plain_query_specialized:
  assumes "plain_query factory p (x # xs) (t # ts)" "plain_pat c t" "c \<noteq> Wildcard"
    and "x = Wildcard \<or> same_ctor c x"
  shows "\<exists>r. compute_specialized_matrix c p (x # xs) = Inr (concat (map (spec_row c) p))
     \<and> compute_specialized_matrix c [x # xs] (x # xs) = Inr [r]
     \<and> plain_query factory (concat (map (spec_row c) p)) r (arg_types c t @ ts)
     \<and> r = (if x = Wildcard then fill_wildcards (a_value c) else sub_pats x) @ xs"
proof -
  have p: "plain_matrix p (t # ts)" and q: "plain_row (x # xs) (t # ts)"
    and cov: "\<forall>t \<in> set (t # ts). factory_for factory t"
    using assms(1) by (auto simp: plain_query_def)
  have no: "\<not> is_or c" using assms(2) by (simp add: plain_pat_def or_free_not_or)
  have len: "length (x # xs) = Suc (length ts)" using list_all2_lengthD [OF q] by simp
  have qm: "plain_matrix [x # xs] (t # ts)" using q by (simp add: plain_matrix_def)
  let ?r = "(if x = Wildcard then fill_wildcards (a_value c) else sub_pats x) @ xs"
  have r: "spec_row c (x # xs) = [?r]" using assms(4) by (auto simp: spec_row_def)
  have "plain_row ?r (arg_types c t @ ts)" using plain_spec_row [OF q assms(2,3)] r by simp
  then have "plain_query factory (concat (map (spec_row c) p)) ?r (arg_types c t @ ts)"
    using plain_matrix_specialized [OF p assms(2,3)] cov factory_for_args
    by (auto simp: plain_query_def)
  then show ?thesis
    using compute_specialized_matrix_closed [OF plain_matrix_shaped [OF p] len no]
      compute_specialized_matrix_closed [OF plain_matrix_shaped [OF qm] len no] r
    by simp
qed

lemma plain_query_default:
  assumes "plain_query factory p (x # xs) (t # ts)"
  shows "compute_default_matrix p (x # xs) = Inr (concat (map default_row p))"
    and "plain_query factory (concat (map default_row p)) xs ts"
proof -
  have p: "plain_matrix p (t # ts)" and q: "plain_row (x # xs) (t # ts)"
    using assms(1) by (auto simp: plain_query_def)
  have len: "length (x # xs) = Suc (length ts)" using list_all2_lengthD [OF q] by simp
  show "compute_default_matrix p (x # xs) = Inr (concat (map default_row p))"
    using compute_default_matrix_closed [OF plain_matrix_shaped [OF p] len] .
  show "plain_query factory (concat (map default_row p)) xs ts"
    using assms plain_matrix_default [OF p] by (auto simp: plain_query_def)
qed

lemma wildcard_signature: "Wildcard \<in> set cs \<Longrightarrow> \<forall>c \<in> set cs. \<not> is_or c
    \<Longrightarrow> \<not> pat_stack_is_empty cs \<Longrightarrow> is_complete_signature factory cs = Inr True"
  using serialize_or_free [of cs]
  by (subst is_complete_signature.simps) (simp add: contains_or_pattern_iff)

lemma answers_add_witness:
  assumes "U p q = Inr wr" "long_enough k wr"
  shows "\<exists>wr'. (case wr of NoWitnesses \<Rightarrow> Inr NoWitnesses | _ \<Rightarrow> add_witness wr pat) = Inr wr'
     \<and> long_enough (Suc k) wr'"
  using assms by (cases wr) auto

lemma empty_stack_signature:
  assumes "\<forall>c \<in> set cs. \<not> is_or c" "pat_stack_is_empty cs"
  shows "is_complete_signature factory cs = Inr False"
  using assms serialize_or_free [of cs]
  by (subst is_complete_signature.simps) (simp add: contains_or_pattern_iff)

lemma signature_answer:
  assumes "\<forall>c \<in> set cs. plain_pat c t" "factory_for factory t"
  shows "\<exists>b. is_complete_signature factory cs = Inr b
     \<and> (\<not> b \<longrightarrow> (\<exists>w. (if pat_stack_is_empty cs then Inr Wildcard
              else create_pattern_not_present factory cs) = Inr w))"
proof -
  have no: "\<forall>c \<in> set cs. \<not> is_or c" using assms(1) by (auto simp: plain_pat_def or_free_not_or)
  consider "pat_stack_is_empty cs" | "\<not> pat_stack_is_empty cs" "Wildcard \<in> set cs"
    | "\<not> pat_stack_is_empty cs" "Wildcard \<notin> set cs" by blast
  then show ?thesis
  proof cases
    case 1
    then show ?thesis using empty_stack_signature [OF no, of factory] by auto
  next
    case 2
    then show ?thesis using wildcard_signature [OF 2(2) no 2(1), of factory] by auto
  next
    case 3
    obtain c rest where cs: "cs = c # rest"
      using 3(1) by (cases cs) (auto simp: pat_stack_is_empty_def pat_stack_flatten_def filter_out_wildcards_def)
    have col: "column (c # rest) t" using 3(2) assms(1) cs by (auto simp: column_def)
    obtain b where b: "is_complete_signature factory cs = Inr b"
      using signature_ok [OF col assms(2)] cs by (auto simp: signature_ok_def)
    then show ?thesis using create_pattern_total [OF col assms(2)] 3(1) cs by auto
  qed
qed

lemma wildcard_step_total:
  assumes pq: "plain_query factory p (Wildcard # xs) (t # ts)" and c: "plain_pat c t"
    and U: "answers_below U factory (size_list size (t # ts))"
    and wr: "long_enough (wildcards xs) wr"
  shows "\<exists>wr' pats'. wildcard_complete_step U p (Wildcard # xs) c (wr, pats) = Inr (wr', pats')
     \<and> long_enough (wildcards xs) wr'"
proof (cases "c = Wildcard")
  case True
  have p: "plain_matrix p (t # ts)" and len: "length (Wildcard # xs) = Suc (length ts)"
    using pq by (auto simp: plain_query_def dest: list_all2_lengthD)
  note sp = wildcard_specialization [OF plain_matrix_shaped [OF p] len]
  have "answers U (concat (map default_row p)) xs" using answers_belowD [OF U plain_query_default(2) [OF pq]] by simp
  then show ?thesis
    using wildcard_complete_step_total [OF _ sp, of U "wildcards xs" wr] wr True by simp
next
  case False
  obtain r where r: "compute_specialized_matrix c p (Wildcard # xs) = Inr (concat (map (spec_row c) p))"
      "compute_specialized_matrix c [Wildcard # xs] (Wildcard # xs) = Inr [r]"
      "plain_query factory (concat (map (spec_row c) p)) r (arg_types c t @ ts)"
      "r = fill_wildcards (a_value c) @ xs"
    using plain_query_specialized [OF pq c False] by auto
  have "answers U (concat (map (spec_row c) p)) r"
    using answers_belowD [OF U r(3)] size_arg_types [of c t] by (simp add: size_list_append)
  then show ?thesis
    using wildcard_complete_step_total [OF _ r(1,2), of U "wildcards xs" wr] wr c r(4)
    by (simp add: plain_pat_def or_free_not_or)
qed

lemma wildcard_loop_total:
  assumes "plain_query factory p (Wildcard # xs) (t # ts)" "\<forall>c \<in> set cs. plain_pat c t"
    and "answers_below U factory (size_list size (t # ts))"
    and "long_enough (wildcards xs) wr"
  shows "\<exists>wr' pats'. foldM (wildcard_complete_step U p (Wildcard # xs)) cs (wr, pats) = Inr (wr', pats')
     \<and> long_enough (wildcards xs) wr'"
  using assms(2,4)
proof (induction cs arbitrary: wr pats)
  case (Cons c cs)
  obtain wr1 pats1 where "wildcard_complete_step U p (Wildcard # xs) c (wr, pats) = Inr (wr1, pats1)"
      "long_enough (wildcards xs) wr1"
    using wildcard_step_total [OF assms(1) _ assms(3) Cons.prems(2)] Cons.prems(1) by force
  with Cons.IH [of wr1 pats1] Cons.prems(1) show ?case by auto
qed simp

lemma is_useful_wildcard_total:
  assumes pq: "plain_query factory p (Wildcard # xs) (t # ts)"
    and U: "answers_below U factory (size_list size (t # ts))"
  shows "answers (is_useful_wildcard U factory) p (Wildcard # xs)"
proof -
  have p: "plain_matrix p (t # ts)" and cov: "factory_for factory t"
    using pq by (auto simp: plain_query_def)
  have pl: "\<forall>c \<in> set (sigma_of p). plain_pat c t" using sigma_of_plain [OF p] by blast
  note sg = compute_sigma_closed [OF plain_matrix_shaped [OF p]]
  obtain b where b: "is_complete_signature factory (sigma_of p) = Inr b"
      "\<not> b \<Longrightarrow> \<exists>w. (if pat_stack_is_empty (sigma_of p) then Inr Wildcard
              else create_pattern_not_present factory (sigma_of p)) = Inr w"
    using signature_answer [OF pl cov] by blast
  show ?thesis
  proof (cases b)
    case True
    obtain wr pats where "foldM (wildcard_complete_step U p (Wildcard # xs)) (sigma_of p) (NoWitnesses, [])
        = Inr (wr, pats)" "long_enough (wildcards xs) wr"
      using wildcard_loop_total [OF pq pl U, of NoWitnesses "[]"] by auto
    then show ?thesis
      using True b(1) sg from_pat_stack_total [of pats]
      by (cases wr) (auto simp: answers_def is_useful_wildcard_def simp del: from_pat_stack.simps)
  next
    case False
    then obtain w where w: "(if pat_stack_is_empty (sigma_of p) then Inr Wildcard
              else create_pattern_not_present factory (sigma_of p)) = Inr w" using b(2) by blast
    obtain wr where "U (concat (map default_row p)) xs = Inr wr" "long_enough (wildcards xs) wr"
      using answers_belowD [OF U plain_query_default(2) [OF pq]] by (auto simp: answers_def)
    then show ?thesis
      using False b(1) sg w plain_query_default(1) [OF pq]
      by (cases wr) (auto simp: answers_def is_useful_wildcard_def)
  qed
qed

lemma is_useful_constructed_total:
  assumes pq: "plain_query factory p (x # xs) (t # ts)" and x: "x \<noteq> Wildcard"
    and U: "answers_below U factory (size_list size (t # ts))"
  shows "answers (\<lambda>p q. is_useful_constructed U p q x) p (x # xs)"
proof -
  have pl: "plain_pat x t" using pq by (simp add: plain_query_def)
  then have "same_ctor x x" by (simp add: plain_pat_def or_free_not_or same_ctor_refl)
  then obtain r where r: "compute_specialized_matrix x p (x # xs) = Inr (concat (map (spec_row x) p))"
      "compute_specialized_matrix x [x # xs] (x # xs) = Inr [r]"
      "plain_query factory (concat (map (spec_row x) p)) r (arg_types x t @ ts)"
      "r = sub_pats x @ xs"
    using plain_query_specialized [OF pq pl x] x by auto
  have "answers U (concat (map (spec_row x) p)) r"
    using answers_belowD [OF U r(3)] size_arg_types [of x t] by (simp add: size_list_append)
  then obtain wr where wr: "U (concat (map (spec_row x) p)) r = Inr wr" "long_enough (wildcards r) wr"
    by (auto simp: answers_def)
  have "long_enough (wildcards xs) wr" using wr(2) r(4) by (auto intro: long_enough_mono)
  with wr(1) r(1,2) x show ?thesis
    by (simp add: answers_def is_useful_constructed_def join_all_one)
qed

lemma is_useful_total:
  assumes "plain_query factory p q ts" "size_list size ts < fuel"
  shows "answers (is_useful fuel factory) p q"
  using assms
proof (induction fuel arbitrary: p q ts)
  case (Suc fuel)
  have mn: "m_n p = Inr (length p, if p = [] then 0 else length ts)"
    using Suc.prems(1) by (intro m_n_rect) (auto simp: plain_query_def plain_matrix_def dest: list_all2_lengthD)
  show ?case
  proof (cases "p = [] \<or> ts = []")
    case True
    then show ?thesis
      using mn wildcards_le [of q] by (auto simp: answers_def fill_wildcards_def)
  next
    case False
    then obtain t us where ts: "ts = t # us" by (cases ts) auto
    then obtain x xs where q: "q = x # xs" "plain_pat x t"
      using Suc.prems(1) by (auto simp: plain_query_def list_all2_Cons2)
    have IH: "answers_below (is_useful fuel factory) factory (size_list size (t # us))"
      using Suc.IH Suc.prems(2) ts by (auto simp: answers_below_def)
    note pq = Suc.prems(1) [unfolded ts q(1)]
    show ?thesis
    proof (cases "x = Wildcard")
      case True
      from is_useful_wildcard_total [OF pq [unfolded True] IH] show ?thesis
        using True False mn q(1) ts by (simp add: answers_def)
    next
      case x: False
      have "\<not> is_or x" using q(2) by (simp add: plain_pat_def or_free_not_or)
      with is_useful_constructed_total [OF pq x IH] show ?thesis
        using x False mn q(1) ts by (cases x) (simp_all add: answers_def)
    qed
  qed
qed simp

end
