(* ===== verification/Match_Properties.thy ===== *)
theory Match_Properties
  imports Match_Total
begin

text \<open>
  The theorems about match expressions: what the ranges of integer patterns compute, that the
  exhaustiveness check and the reachability check are right on plain patterns and always
  answer, and where the analysis is not right.
\<close>

section \<open>The arms of a match expression\<close>

lemma check_arm_eq:
  "check_arm fuel factory scr (m, reports) =
     bindE (from_scrutinee scr) (\<lambda>pat.
     bindE (is_useful fuel factory m [pat]) (\<lambda>wr.
     Inr (m @ [[pat]], reports @ [\<lparr>reachable = has_witnesses wr, scrutinee = scr\<rparr>])))"
  by (simp add: check_arm_def vec_push_def)

text \<open>The loop over the arms: the matrix of the previous arms, and a report per arm.\<close>

lemma check_arms:
  assumes "foldM (check_arm fuel factory) scrs (m, reports) = Inr (m', reports')"
  shows "\<exists>pats. mapM from_scrutinee scrs = Inr pats \<and> m' = m @ map (\<lambda>p. [p]) pats
     \<and> length reports' = length reports + length scrs
     \<and> (\<forall>i < length scrs. \<exists>wr. is_useful fuel factory (m @ map (\<lambda>p. [p]) (take i pats)) [pats ! i] = Inr wr
          \<and> reports' ! (length reports + i) = \<lparr>reachable = has_witnesses wr, scrutinee = scrs ! i\<rparr>)
     \<and> (\<forall>i < length reports. reports' ! i = reports ! i)"
  using assms
proof (induction scrs arbitrary: m reports)
  case (Cons s scrs)
  let ?r = "\<lambda>wr. \<lparr>reachable = has_witnesses wr, scrutinee = s\<rparr>"
  obtain pat wr where pat: "from_scrutinee s = Inr pat" "is_useful fuel factory m [pat] = Inr wr"
    and rest: "foldM (check_arm fuel factory) scrs (m @ [[pat]], reports @ [?r wr]) = Inr (m', reports')"
    using Cons.prems by (auto simp: check_arm_eq bindE_Inr_iff)
  obtain pats where pats: "mapM from_scrutinee scrs = Inr pats"
      "m' = (m @ [[pat]]) @ map (\<lambda>p. [p]) pats"
      "length reports' = length (reports @ [?r wr]) + length scrs"
      "\<forall>i < length scrs. \<exists>wr'. is_useful fuel factory ((m @ [[pat]]) @ map (\<lambda>p. [p]) (take i pats)) [pats ! i] = Inr wr'
          \<and> reports' ! (length (reports @ [?r wr]) + i) = \<lparr>reachable = has_witnesses wr', scrutinee = scrs ! i\<rparr>"
      "\<forall>i < length (reports @ [?r wr]). reports' ! i = (reports @ [?r wr]) ! i"
    using Cons.IH [OF rest] by blast
  have "\<exists>wr'. is_useful fuel factory (m @ map (\<lambda>p. [p]) (take i (pat # pats))) [(pat # pats) ! i] = Inr wr'
          \<and> reports' ! (length reports + i) = \<lparr>reachable = has_witnesses wr', scrutinee = (s # scrs) ! i\<rparr>"
    if "i < length (s # scrs)" for i
  proof (cases i)
    case 0
    then show ?thesis using pat pats(5) [rule_format, of "length reports"] by (simp add: nth_append)
  next
    case (Suc j)
    then show ?thesis using pats(4) [rule_format, of j] that by simp
  qed
  moreover have "\<forall>i < length reports. reports' ! i = reports ! i"
    using pats(5) by (auto simp: nth_append)
  ultimately show ?case using pat pats by (intro exI [of _ "pat # pats"]) auto
qed simp

definition plain_arms :: "ty_scrutinee list \<Rightarrow> pattern list \<Rightarrow> type_info \<Rightarrow> bool" where
  "plain_arms scrs pats ty \<longleftrightarrow> mapM from_scrutinee scrs = Inr pats \<and> (\<forall>p \<in> set pats. plain_pat p ty)"

lemma plain_arms_length: "plain_arms scrs pats ty \<Longrightarrow> length pats = length scrs"
  by (auto simp: plain_arms_def mapM_Inr_iff dest: list_all2_lengthD)

lemma plain_arms_query:
  assumes "\<forall>p \<in> set pats. plain_pat p ty" "plain_pat q ty" "factory_for factory ty"
  shows "plain_query factory (map (\<lambda>p. [p]) pats) [q] [ty]"
  using assms by (auto simp: plain_query_def plain_matrix_def)

text \<open>Soundness of a query of one column, from the interpretation of the interface.\<close>

lemma column_query_sound:
  assumes "is_useful fuel factory (map (\<lambda>p. [p]) pats) [q] = Inr NoWitnesses"
    and "\<forall>p \<in> set pats. plain_pat p ty" "plain_pat q ty" "factory_for factory ty"
    and "has_type v ty" "pmatch q v"
  shows "\<exists>p \<in> set pats. pmatch p v"
proof -
  have "\<exists>row \<in> set (map (\<lambda>p. [p]) pats). list_all2 pmatch row [v]"
    by (rule sway_values.sound_atD [OF sway_values.is_useful_sound, where ts = "[ty]" and vs = "[v]"])
      (use assms in \<open>auto simp: plain_matrix_def\<close>)
  then show ?thesis by auto
qed

lemma no_valid_constructor: "\<not> has_valid_constructor ty \<Longrightarrow> \<not> has_type v ty"
  by (cases ty; cases v) auto

text \<open>
  (C1) Exhaustiveness is sound: when the analysis of a match over plain, well-typed arms
  reports no witnesses, every value of the matched type is matched by some arm.
\<close>

theorem exhaustive_match_covers:
  assumes "check_match_expression_usefulness fuel factory ty scrs = Inr (NoWitnesses, reports)"
    and "plain_arms scrs pats ty" "factory_for factory ty" "has_type v ty"
  shows "\<exists>p \<in> set pats. pmatch p v"
proof (cases "\<not> has_valid_constructor ty \<and> scrs = []")
  case True
  then show ?thesis using no_valid_constructor assms(4) by blast
next
  case False
  then obtain m rs where
    "foldM (check_arm fuel factory) scrs ([], []) = Inr (m, rs)"
    and none: "is_useful fuel factory m [Wildcard] = Inr NoWitnesses"
    using assms(1) by (auto simp: check_match_expression_usefulness_def bindE_Inr_iff)
  then have "m = map (\<lambda>p. [p]) pats"
    using check_arms [of fuel factory scrs "[]" "[]" m rs] assms(2) by (auto simp: plain_arms_def)
  with none show ?thesis
    using column_query_sound [of fuel factory pats Wildcard ty v] assms(2-4)
    by (simp add: plain_arms_def)
qed

text \<open>
  (C2) Reachability is sound: when an arm of a match over plain, well-typed arms is reported
  unreachable, every value it matches is matched by an arm before it.
\<close>

theorem unreachable_arm_is_covered:
  assumes "check_match_expression_usefulness fuel factory ty scrs = Inr (wr, reports)"
    and "plain_arms scrs pats ty" "factory_for factory ty" "has_type v ty"
    and "i < length scrs" "\<not> reachable (reports ! i)" "pmatch (pats ! i) v"
  shows "\<exists>j < i. pmatch (pats ! j) v"
proof -
  have len: "length pats = length scrs" using plain_arms_length [OF assms(2)] .
  obtain m where "foldM (check_arm fuel factory) scrs ([], []) = Inr (m, reports)"
    using assms(1,5) by (auto simp: check_match_expression_usefulness_def bindE_Inr_iff split: if_splits)
  then obtain wr' where
    "is_useful fuel factory (map (\<lambda>p. [p]) (take i pats)) [pats ! i] = Inr wr'"
    "reports ! i = \<lparr>reachable = has_witnesses wr', scrutinee = scrs ! i\<rparr>"
    using check_arms [of fuel factory scrs "[]" "[]" m reports] assms(2,5) by (auto simp: plain_arms_def)
  moreover from this have "wr' = NoWitnesses" using assms(6) by (cases wr') auto
  moreover have "\<forall>p \<in> set (take i pats). plain_pat p ty" "plain_pat (pats ! i) ty"
    using assms(2,5) len by (auto simp: plain_arms_def dest: in_set_takeD)
  ultimately have "\<exists>p \<in> set (take i pats). pmatch p v"
    using column_query_sound [of fuel factory "take i pats" "pats ! i" ty v] assms(3,4,7) by simp
  then obtain p where "p \<in> set (take i pats)" "pmatch p v" by blast
  then show ?thesis using assms(5) len by (metis in_set_conv_nth length_take min.absorb4 nth_take)
qed

text \<open>
  (C13) The analysis always answers: on plain, well-typed arms none of its internal errors
  occurs, and a recursion depth above the size of the matched type is enough.
\<close>

theorem usefulness_total:
  assumes "plain_arms scrs pats ty" "factory_for factory ty" "size ty + 1 < fuel"
  shows "\<exists>wr reports. check_match_expression_usefulness fuel factory ty scrs = Inr (wr, reports)
    \<and> length reports = length scrs"
proof -
  have answer: "\<exists>wr. is_useful fuel factory (map (\<lambda>p. [p]) ps) [q] = Inr wr"
    if "\<forall>p \<in> set ps. plain_pat p ty" "plain_pat q ty" for ps q
    using is_useful_total [OF plain_arms_query [OF that assms(2)], of fuel] assms(3)
    by (auto simp: answers_def)
  have "\<exists>reports'. foldM (check_arm fuel factory) scrs (map (\<lambda>p. [p]) ps, reports) =
      Inr (map (\<lambda>p. [p]) (ps @ pats), reports') \<and> length reports' = length reports + length scrs"
    if "mapM from_scrutinee scrs = Inr pats" "\<forall>p \<in> set (ps @ pats). plain_pat p ty"
    for ps reports scrs pats
    using that
  proof (induction scrs arbitrary: ps pats reports)
    case (Cons s scrs)
    then obtain q qs where q: "from_scrutinee s = Inr q" "mapM from_scrutinee scrs = Inr qs" "pats = q # qs"
      by (auto simp: bindE_Inr_iff)
    obtain wr where wr: "is_useful fuel factory (map (\<lambda>p. [p]) ps) [q] = Inr wr"
      using answer [of ps q] Cons.prems(2) q(3) by auto
    show ?case
      using Cons.IH [OF q(2), of "ps @ [q]"
          "reports @ [\<lparr>reachable = has_witnesses wr, scrutinee = s\<rparr>]"] Cons.prems(2) q wr
      by (simp add: check_arm_eq)
  qed simp
  from this [of scrs pats "[]" "[]"] obtain reports where
    "foldM (check_arm fuel factory) scrs ([], []) = Inr (map (\<lambda>p. [p]) pats, reports)"
    "length reports = length scrs"
    using assms(1) by (auto simp: plain_arms_def)
  then show ?thesis
    using answer [of pats Wildcard] assms(1)
    by (auto simp: check_match_expression_usefulness_def plain_arms_def)
qed

definition bool_pair :: type_info where
  "bool_pair = TupleType [BooleanType, BooleanType]"

definition bool_pair_arms :: "ty_scrutinee list" where
  "bool_pair_arms = [ScrTuple [ScrLiteral (LitBoolean True), ScrCatchAll],
     ScrTuple [ScrLiteral (LitBoolean False), ScrVariable ''x''],
     ScrTuple [ScrLiteral (LitBoolean True), ScrLiteral (LitBoolean False)]]"

definition bool_pair_factory :: constructor_factory where
  "bool_pair_factory = \<lparr>possible_types = nested_types bool_pair\<rparr>"

lemma bool_pair_checked:
  "check_match_expression_usefulness 20 bool_pair_factory bool_pair bool_pair_arms
     = Inr (NoWitnesses, [\<lparr>reachable = True, scrutinee = bool_pair_arms ! 0\<rparr>,
         \<lparr>reachable = True, scrutinee = bool_pair_arms ! 1\<rparr>,
         \<lparr>reachable = False, scrutinee = bool_pair_arms ! 2\<rparr>])"
  by code_simp

lemma bool_pair_plain:
  "plain_arms bool_pair_arms [Tuple [Boolean True, Wildcard], Tuple [Boolean False, Wildcard],
     Tuple [Boolean True, Boolean False]] bool_pair"
  "factory_for bool_pair_factory bool_pair"
  by code_simp+

theorem exhaustive_match_covers_witness:
  "\<exists>p \<in> set [Tuple [Boolean True, Wildcard], Tuple [Boolean False, Wildcard],
     Tuple [Boolean True, Boolean False]]. pmatch p (VTuple [VBoolean False, VBoolean True])"
  by (rule exhaustive_match_covers [OF bool_pair_checked bool_pair_plain]) code_simp

theorem unreachable_arm_is_covered_witness:
  "\<exists>j < 2. pmatch ([Tuple [Boolean True, Wildcard], Tuple [Boolean False, Wildcard],
     Tuple [Boolean True, Boolean False]] ! j) (VTuple [VBoolean True, VBoolean False])"
  by (rule unreachable_arm_is_covered [OF bool_pair_checked bool_pair_plain]) code_simp+

theorem usefulness_total_witness:
  "\<exists>wr reports. check_match_expression_usefulness 20 bool_pair_factory bool_pair bool_pair_arms
     = Inr (wr, reports) \<and> length reports = length bool_pair_arms"
  by (rule usefulness_total [OF bool_pair_plain]) code_simp

section \<open>Integer ranges\<close>

text \<open>
  (C38) Condensing a nonempty list of valid ranges of which none is nested in another (all the ranges that integer
  literals give) yields a list of valid ranges in increasing order, with a gap of at least
  one value between neighbours, that stands for the same values.
\<close>

theorem condense_ranges_canonical:
  assumes "rs \<noteq> []" "\<forall>r \<in> set rs. valid_range r" "unnested rs"
  shows "\<exists>out. condense_ranges rs = Inr out \<and> sorted_wrt gap out
    \<and> (\<forall>r \<in> set out. valid_range r) \<and> ranges_set out = ranges_set rs"
  using condense_ranges_ok [OF assms] by (auto simp: condensed_def)

definition some_u8_ranges :: "u8 range list" where
  "some_u8_ranges = [from_single 3, from_single 4, from_single 200, from_single 5, from_single 4]"

theorem condense_ranges_canonical_witness:
  "\<exists>out. condense_ranges some_u8_ranges = Inr out \<and> sorted_wrt gap out
    \<and> (\<forall>r \<in> set out. valid_range r) \<and> ranges_set out = ranges_set some_u8_ranges"
  by (rule condense_ranges_canonical) code_simp+

text \<open>
  (C36) The exclusionary ranges of a nonempty list of valid ranges within the range of the type, of
  which none is nested in another, stand for exactly the values of the type that the list leaves
  out.
\<close>

theorem exclusionary_ranges_complement:
  assumes "guides \<noteq> []" "\<forall>r \<in> set guides. valid_range r" "unnested guides"
    and "ranges_set guides \<subseteq> range_set full"
  shows "\<exists>ex. find_exclusionary_ranges guides full = Inr ex \<and> (\<forall>r \<in> set ex. valid_range r)
    \<and> ranges_set ex = range_set full - ranges_set guides"
  using assms by (rule find_exclusionary_ranges_ok)

theorem exclusionary_ranges_complement_witness:
  "\<exists>ex. find_exclusionary_ranges some_u8_ranges range_u8 = Inr ex \<and> (\<forall>r \<in> set ex. valid_range r)
    \<and> ranges_set ex = range_set range_u8 - ranges_set some_u8_ranges"
  by (rule exclusionary_ranges_complement) (code_simp, code_simp, code_simp, simp add: range_set_full)

text \<open>
  (C37) Comparing a nonempty list of valid ranges, of which none is nested in another, with a range
  decides whether the list stands for exactly its values.
\<close>

theorem ranges_equal_range_decides:
  assumes "rs \<noteq> []" "\<forall>r \<in> set rs. valid_range r" "unnested rs"
  shows "do_ranges_equal_range rs full = Inr (ranges_set rs = range_set full)"
  using assms by (rule do_ranges_equal_range_ok)

theorem ranges_equal_range_decides_witness:
  "do_ranges_equal_range some_u8_ranges range_u8 = Inr (ranges_set some_u8_ranges = range_set range_u8)"
  by (rule ranges_equal_range_decides) code_simp+

section \<open>Where the analysis is not right\<close>

text \<open>
  Or-patterns make the exhaustiveness check unsound. Specializing by an or-pattern takes
  the rows of all its alternatives together, so that \<^verbatim>\<open>A(true) | B(false)\<close> alone is
  accepted as an exhaustive match on an enum with variants \<^verbatim>\<open>A\<close> and \<^verbatim>\<open>B\<close>, though
  it does not match \<^verbatim>\<open>A(false)\<close>.
\<close>

definition enum_ab :: type_info where
  "enum_ab = EnumType ''E'' [(''A'', BooleanType), (''B'', BooleanType)]"

definition or_arm :: ty_scrutinee where
  "or_arm = ScrOr [ScrEnum ''E'' ''A'' (ScrLiteral (LitBoolean True)),
     ScrEnum ''E'' ''B'' (ScrLiteral (LitBoolean False))]"

theorem or_patterns_unsound:
  "(\<exists>reports. check_match_expression_usefulness 20 \<lparr>possible_types = nested_types enum_ab\<rparr> enum_ab [or_arm]
      = Inr (NoWitnesses, reports))
   \<and> from_scrutinee or_arm = Inr (Or [Enum ''E'' ''A'' (Boolean True), Enum ''E'' ''B'' (Boolean False)])
   \<and> has_type (VEnum ''E'' ''A'' (VBoolean False)) enum_ab
   \<and> \<not> pmatch (Or [Enum ''E'' ''A'' (Boolean True), Enum ''E'' ''B'' (Boolean False)])
        (VEnum ''E'' ''A'' (VBoolean False))"
proof (intro conjI exI)
  show "check_match_expression_usefulness 20 \<lparr>possible_types = nested_types enum_ab\<rparr> enum_ab [or_arm]
      = Inr (NoWitnesses, [\<lparr>reachable = True, scrutinee = or_arm\<rparr>])" by code_simp
qed code_simp+

text \<open>
  Struct patterns that name different fields make the check unsound. The sub-patterns of
  two struct patterns are compared position by position and not by field, so that
  \<^verbatim>\<open>P { x: true, .. }\<close> and \<^verbatim>\<open>P { y: false, .. }\<close> together are accepted as exhaustive,
  though they do not match \<^verbatim>\<open>P { x: false, y: true }\<close>.
\<close>

definition struct_xy :: type_info where
  "struct_xy = StructType ''P'' [(''x'', BooleanType), (''y'', BooleanType)]"

definition partial_struct_arms :: "ty_scrutinee list" where
  "partial_struct_arms = [ScrStruct ''P'' [(''x'', Some (ScrLiteral (LitBoolean True)))],
     ScrStruct ''P'' [(''y'', Some (ScrLiteral (LitBoolean False)))]]"

theorem partial_struct_patterns_unsound:
  "(\<exists>reports. check_match_expression_usefulness 20 \<lparr>possible_types = nested_types struct_xy\<rparr> struct_xy
      partial_struct_arms = Inr (NoWitnesses, reports))
   \<and> mapM from_scrutinee partial_struct_arms =
        Inr [Struct ''P'' [(''x'', Boolean True)], Struct ''P'' [(''y'', Boolean False)]]
   \<and> has_type (VStruct ''P'' [(''x'', VBoolean False), (''y'', VBoolean True)]) struct_xy
   \<and> \<not> pmatch (Struct ''P'' [(''x'', Boolean True)])
        (VStruct ''P'' [(''x'', VBoolean False), (''y'', VBoolean True)])
   \<and> \<not> pmatch (Struct ''P'' [(''y'', Boolean False)])
        (VStruct ''P'' [(''x'', VBoolean False), (''y'', VBoolean True)])"
proof (intro conjI exI)
  show "check_match_expression_usefulness 20 \<lparr>possible_types = nested_types struct_xy\<rparr> struct_xy
      partial_struct_arms = Inr (NoWitnesses, map (\<lambda>s. \<lparr>reachable = True, scrutinee = s\<rparr>) partial_struct_arms)"
    by code_simp
qed code_simp+

text \<open>
  The check is not complete: a signature with a wildcard counts as complete, and the loop
  over its constructors then asks for the default matrix on its own. The match
  \<^verbatim>\<open>(true, true), (false, _), (_, false)\<close> matches every pair of booleans and is rejected.
\<close>

definition wildcard_arms :: "ty_scrutinee list" where
  "wildcard_arms = [ScrTuple [ScrLiteral (LitBoolean True), ScrLiteral (LitBoolean True)],
     ScrTuple [ScrLiteral (LitBoolean False), ScrCatchAll],
     ScrTuple [ScrCatchAll, ScrLiteral (LitBoolean False)]]"

theorem exhaustive_match_rejected:
  "(\<exists>wits reports. check_match_expression_usefulness 20 bool_pair_factory bool_pair wildcard_arms
      = Inr (Witnesses wits, reports) \<and> wits \<noteq> [])
   \<and> mapM from_scrutinee wildcard_arms = Inr [Tuple [Boolean True, Boolean True],
        Tuple [Boolean False, Wildcard], Tuple [Wildcard, Boolean False]]
   \<and> (\<forall>a b. \<exists>p \<in> set [Tuple [Boolean True, Boolean True], Tuple [Boolean False, Wildcard],
        Tuple [Wildcard, Boolean False]]. pmatch p (VTuple [VBoolean a, VBoolean b]))"
proof (intro conjI exI allI)
  show "check_match_expression_usefulness 20 bool_pair_factory bool_pair wildcard_arms
      = Inr (Witnesses [Tuple [Wildcard, Boolean True]],
          map (\<lambda>s. \<lparr>reachable = True, scrutinee = s\<rparr>) wildcard_arms)" by code_simp
  show "[Tuple [Wildcard, Boolean True]] \<noteq> []" by simp
  show "mapM from_scrutinee wildcard_arms = Inr [Tuple [Boolean True, Boolean True],
        Tuple [Boolean False, Wildcard], Tuple [Wildcard, Boolean False]]" by code_simp
  show "\<exists>p \<in> set [Tuple [Boolean True, Boolean True], Tuple [Boolean False, Wildcard],
        Tuple [Wildcard, Boolean False]]. pmatch p (VTuple [VBoolean a, VBoolean b])" for a b
    by (cases a; cases b) simp_all
qed

text \<open>
  Nested ranges are not condensed: the ranges are sorted by falling start and each is only
  joined with the last one kept, so that \<^verbatim>\<open>[10, 12], [5, 6], [0, 20]\<close> gives two overlapping
  ranges, and a list that covers the type is not recognised.
\<close>

theorem nested_ranges_not_condensed:
  "condense_ranges [\<lparr>first_v = 10, last_v = 12\<rparr>, \<lparr>first_v = 5, last_v = 6\<rparr>, \<lparr>first_v = 0, last_v = (20 :: u8)\<rparr>]
     = Inr [\<lparr>first_v = 0, last_v = 20\<rparr>, \<lparr>first_v = 10, last_v = 12\<rparr>]
   \<and> do_ranges_equal_range [range_u8, \<lparr>first_v = 10, last_v = 12\<rparr>, \<lparr>first_v = 5, last_v = 6\<rparr>] range_u8
     = Inr False"
  by code_simp

end
