(* ===== verification/Sway_Arith.thy ===== *)
theory Sway_Arith
  imports Sway_Prelude
begin

text \<open>
  Operations of the source language that can panic: checked arithmetic on machine integers, which
  panics on overflow, assertions, unwrapping of options and indexing of vectors.
\<close>

section \<open>Panics\<close>

definition unwrap_or_panic :: "string \<Rightarrow> 'a option \<Rightarrow> 'a result" where
  "unwrap_or_panic msg opt = (case opt of Some x \<Rightarrow> Inr x | None \<Rightarrow> Inl (Panic msg))"

definition assert_or_panic :: "bool \<Rightarrow> unit result" where
  "assert_or_panic b = (if b then Inr () else Inl (Panic ''assertion failed''))"

definition nth_or_panic :: "'a list \<Rightarrow> nat \<Rightarrow> 'a result" where
  "nth_or_panic xs i = (if i < length xs then Inr (xs ! i) else Inl (Panic ''index out of bounds''))"

section \<open>Checked arithmetic\<close>

definition add_u32 :: "u32 \<Rightarrow> u32 \<Rightarrow> u32 result" where
  "add_u32 a b =
     (if unat a + unat b < 2 ^ 32 then Inr (a + b) else Inl (Panic ''attempt to add with overflow''))"

definition add_u64 :: "u64 \<Rightarrow> u64 \<Rightarrow> u64 result" where
  "add_u64 a b =
     (if unat a + unat b < 2 ^ 64 then Inr (a + b) else Inl (Panic ''attempt to add with overflow''))"

definition sub_u64 :: "u64 \<Rightarrow> u64 \<Rightarrow> u64 result" where
  "sub_u64 a b = (if b \<le> a then Inr (a - b) else Inl (Panic ''attempt to subtract with overflow''))"

definition mul_u64 :: "u64 \<Rightarrow> u64 \<Rightarrow> u64 result" where
  "mul_u64 a b =
     (if unat a * unat b < 2 ^ 64 then Inr (a * b) else Inl (Panic ''attempt to multiply with overflow''))"

section \<open>Lemmas\<close>

lemma add_u64_iff: "add_u64 a b = Inr c \<longleftrightarrow> unat a + unat b < 18446744073709551616 \<and> c = a + b"
  by (auto simp: add_u64_def)

lemma unat_add_u64: "unat a + unat b < 18446744073709551616 \<Longrightarrow> unat (a + b :: u64) = unat a + unat b"
  by (simp add: unat_word_ariths(1))

lemma mul_u64_iff: "mul_u64 a b = Inr c \<longleftrightarrow> unat a * unat b < 18446744073709551616 \<and> c = a * b"
  by (auto simp: mul_u64_def)

lemma unat_mul_u64: "unat a * unat b < 18446744073709551616 \<Longrightarrow> unat (a * b :: u64) = unat a * unat b"
  by (simp add: unat_word_ariths(2))

lemma bindE_assoc: "bindE (bindE m f) g = bindE m (\<lambda>x. bindE (f x) g)"
  by (cases m) auto

lemma unat_max: "unat (max a b :: u64) = max (unat a) (unat b)"
  by (simp add: max_def word_le_nat_alt)

lemma add_u64_ok:
  "unat a + n < 18446744073709551616 \<Longrightarrow> unat b = n \<Longrightarrow> add_u64 a b = Inr (a + b) \<and> unat (a + b) = unat a + n"
  by (simp add: add_u64_def unat_add_u64)

lemma unat_less_u32: "unat (x :: u32) < 4294967296"
  using unsigned_less [of x] by simp

lemma unat_of_nat_u32: "n < 4294967296 \<Longrightarrow> unat (of_nat n :: u32) = n"
  by (simp add: unsigned_of_nat take_bit_nat_eq_self)

lemma add_u32_ok:
  assumes "unat a + unat b < 4294967296"
  shows "add_u32 a b = Inr (a + b)" "unat (a + b) = unat a + unat b"
  using assms by (simp_all add: add_u32_def unat_word_ariths(1))

end
