(* ===== verification/Asm_Registers.thy ===== *)
theory Asm_Registers
  imports Sway_Arith "HOL-Library.List_Lexorder" "HOL-Library.Char_ord"
begin

text \<open>
  Registers and immediates of the assembly languages: \<^verbatim>\<open>compiler_constants.rs\<close>,
  \<^verbatim>\<open>virtual_register.rs\<close>, \<^verbatim>\<open>virtual_immediate.rs\<close> and the registers of
  \<^verbatim>\<open>allocated_ops.rs\<close>. The register numbers of the virtual machine come from the
  \<^verbatim>\<open>fuel_asm\<close> crate and are a parameter.
\<close>

section \<open>Compiler constants\<close>

definition NUM_TOTAL_REGISTERS :: u8 where
  "NUM_TOTAL_REGISTERS = 64"

definition NUM_FREE_REGISTERS :: u8 where
  "NUM_FREE_REGISTERS = 48"

definition NUM_ARG_REGISTERS :: u8 where
  "NUM_ARG_REGISTERS = 6"

definition NUM_COMPILER_RESERVED_REGISTERS :: u8 where
  "NUM_COMPILER_RESERVED_REGISTERS = 5 + NUM_ARG_REGISTERS"

definition NUM_ALLOCATABLE_REGISTERS :: u8 where
  "NUM_ALLOCATABLE_REGISTERS = NUM_FREE_REGISTERS - NUM_COMPILER_RESERVED_REGISTERS"

definition TWENTY_FOUR_BITS :: u64 where
  "TWENTY_FOUR_BITS = 0xFFFFFF"

definition EIGHTEEN_BITS :: u64 where
  "EIGHTEEN_BITS = 0x3FFFF"

definition TWELVE_BITS :: u64 where
  "TWELVE_BITS = 0xFFF"

definition SIX_BITS :: u64 where
  "SIX_BITS = 0x3F"

section \<open>Registers\<close>

datatype constant_register =
    Zero
  | One
  | Overflow
  | ProgramCounter
  | StackStartPointer
  | StackPointer
  | FramePointer
  | HeapPointer
  | Error
  | GlobalGas
  | ContextGas
  | Balance
  | InstructionStart
  | ReturnValue
  | ReturnLength
  | Flags
  | DataSectionStart
  | CallReturnAddress
  | CallReturnValue
  | Scratch
  | LocalsBase
  | FuncArg0
  | FuncArg1
  | FuncArg2
  | FuncArg3
  | FuncArg4
  | FuncArg5

definition constant_registers :: "constant_register list" where
  "constant_registers = [Zero, One, Overflow, ProgramCounter, StackStartPointer, StackPointer,
     FramePointer, HeapPointer, Error, GlobalGas, ContextGas, Balance, InstructionStart, ReturnValue,
     ReturnLength, Flags, DataSectionStart, CallReturnAddress, CallReturnValue, Scratch, LocalsBase,
     FuncArg0, FuncArg1, FuncArg2, FuncArg3, FuncArg4, FuncArg5]"

text \<open>The position in the declaration, which the derived \<^verbatim>\<open>Ord\<close> compares.\<close>

primrec ctor_index :: "constant_register \<Rightarrow> nat" where
  "ctor_index Zero = 0"
| "ctor_index One = 1"
| "ctor_index Overflow = 2"
| "ctor_index ProgramCounter = 3"
| "ctor_index StackStartPointer = 4"
| "ctor_index StackPointer = 5"
| "ctor_index FramePointer = 6"
| "ctor_index HeapPointer = 7"
| "ctor_index Error = 8"
| "ctor_index GlobalGas = 9"
| "ctor_index ContextGas = 10"
| "ctor_index Balance = 11"
| "ctor_index InstructionStart = 12"
| "ctor_index ReturnValue = 13"
| "ctor_index ReturnLength = 14"
| "ctor_index Flags = 15"
| "ctor_index DataSectionStart = 16"
| "ctor_index CallReturnAddress = 17"
| "ctor_index CallReturnValue = 18"
| "ctor_index Scratch = 19"
| "ctor_index LocalsBase = 20"
| "ctor_index FuncArg0 = 21"
| "ctor_index FuncArg1 = 22"
| "ctor_index FuncArg2 = 23"
| "ctor_index FuncArg3 = 24"
| "ctor_index FuncArg4 = 25"
| "ctor_index FuncArg5 = 26"

lemma constant_registers_nth: "constant_registers ! ctor_index r = r"
  by (cases r) (simp_all add: constant_registers_def)

lemma ctor_index_inject [simp]: "ctor_index r = ctor_index s \<longleftrightarrow> r = s"
  using constant_registers_nth by metis

lemma set_constant_registers [simp]: "set constant_registers = UNIV"
  using constant_registers_nth by (auto simp: constant_registers_def) (metis constant_register.exhaust)

instantiation constant_register :: linorder
begin

definition less_eq_constant_register :: "constant_register \<Rightarrow> constant_register \<Rightarrow> bool" where
  "less_eq_constant_register r s \<longleftrightarrow> ctor_index r \<le> ctor_index s"

definition less_constant_register :: "constant_register \<Rightarrow> constant_register \<Rightarrow> bool" where
  "less_constant_register r s \<longleftrightarrow> ctor_index r < ctor_index s"

instance
  by standard (auto simp: less_eq_constant_register_def less_constant_register_def)

end

datatype virtual_register = Virtual string | Constant constant_register

fun is_virtual :: "virtual_register \<Rightarrow> bool" where
  "is_virtual (Virtual _) = True"
| "is_virtual (Constant _) = False"

text \<open>The derived order: a virtual register is below every constant one.\<close>

instantiation virtual_register :: linorder
begin

fun less_eq_virtual_register :: "virtual_register \<Rightarrow> virtual_register \<Rightarrow> bool" where
  "less_eq_virtual_register (Virtual x) (Virtual y) \<longleftrightarrow> x \<le> y"
| "less_eq_virtual_register (Virtual x) (Constant d) \<longleftrightarrow> True"
| "less_eq_virtual_register (Constant c) (Virtual y) \<longleftrightarrow> False"
| "less_eq_virtual_register (Constant c) (Constant d) \<longleftrightarrow> c \<le> d"

definition less_virtual_register :: "virtual_register \<Rightarrow> virtual_register \<Rightarrow> bool" where
  "less_virtual_register r s \<longleftrightarrow> r \<le> s \<and> \<not> s \<le> r"

instance
proof
  fix r s t :: virtual_register
  show "r < s \<longleftrightarrow> r \<le> s \<and> \<not> s \<le> r" by (simp add: less_virtual_register_def)
  show "r \<le> r" by (cases r) auto
  show "r \<le> s \<Longrightarrow> s \<le> t \<Longrightarrow> r \<le> t" by (cases r; cases s; cases t) auto
  show "r \<le> s \<Longrightarrow> s \<le> r \<Longrightarrow> r = s" by (cases r; cases s) auto
  show "r \<le> s \<or> s \<le> r" by (cases r; cases s) auto
qed

end

text \<open>A \<^verbatim>\<open>BTreeSet\<close> of registers, collected from a \<^verbatim>\<open>vec\<close>: its elements in ascending order.\<close>

definition btree_set :: "'a::linorder list \<Rightarrow> 'a list" where
  "btree_set xs = sort (remdups xs)"

lemma btree_set_simps [simp]:
  "set (btree_set xs) = set xs" "distinct (btree_set xs)" "sorted (btree_set xs)"
  "btree_set [] = []"
  by (simp_all add: btree_set_def)

subsection \<open>Names\<close>

definition parse_register_name :: "string \<Rightarrow> constant_register option" where
  "parse_register_name raw =
     (if raw = ''zero'' then Some Zero
      else if raw = ''one'' then Some One
      else if raw = ''of'' then Some Overflow
      else if raw = ''pc'' then Some ProgramCounter
      else if raw = ''ssp'' then Some StackStartPointer
      else if raw = ''sp'' then Some StackPointer
      else if raw = ''fp'' then Some FramePointer
      else if raw = ''hp'' then Some HeapPointer
      else if raw = ''err'' then Some Error
      else if raw = ''ggas'' then Some GlobalGas
      else if raw = ''cgas'' then Some ContextGas
      else if raw = ''bal'' then Some Balance
      else if raw = ''is'' then Some InstructionStart
      else if raw = ''flag'' then Some Flags
      else if raw = ''retl'' then Some ReturnLength
      else if raw = ''ret'' then Some ReturnValue
      else if raw = ''ds'' then Some DataSectionStart
      else None)"

primrec fmt_constant_register :: "constant_register \<Rightarrow> string" where
  "fmt_constant_register Zero = ''$zero''"
| "fmt_constant_register One = ''$one''"
| "fmt_constant_register Overflow = ''$of''"
| "fmt_constant_register ProgramCounter = ''$pc''"
| "fmt_constant_register StackStartPointer = ''$ssp''"
| "fmt_constant_register StackPointer = ''$sp''"
| "fmt_constant_register FramePointer = ''$fp''"
| "fmt_constant_register HeapPointer = ''$hp''"
| "fmt_constant_register Error = ''$err''"
| "fmt_constant_register GlobalGas = ''$ggas''"
| "fmt_constant_register ContextGas = ''$cgas''"
| "fmt_constant_register Balance = ''$bal''"
| "fmt_constant_register InstructionStart = ''$is''"
| "fmt_constant_register ReturnValue = ''$ret''"
| "fmt_constant_register ReturnLength = ''$retl''"
| "fmt_constant_register Flags = ''$flag''"
| "fmt_constant_register DataSectionStart = ''$$ds''"
| "fmt_constant_register CallReturnAddress = ''$$reta''"
| "fmt_constant_register CallReturnValue = ''$$retv''"
| "fmt_constant_register Scratch = ''$$tmp''"
| "fmt_constant_register LocalsBase = ''$$locbase''"
| "fmt_constant_register FuncArg0 = ''$$arg0''"
| "fmt_constant_register FuncArg1 = ''$$arg1''"
| "fmt_constant_register FuncArg2 = ''$$arg2''"
| "fmt_constant_register FuncArg3 = ''$$arg3''"
| "fmt_constant_register FuncArg4 = ''$$arg4''"
| "fmt_constant_register FuncArg5 = ''$$arg5''"

fun fmt_virtual_register :: "virtual_register \<Rightarrow> string" where
  "fmt_virtual_register (Virtual name) = ''$r'' @ name"
| "fmt_virtual_register (Constant name) = fmt_constant_register name"

subsection \<open>Register numbers\<close>

text \<open>
  \<^verbatim>\<open>fuel_asm\<close> gives the identifiers of the registers that the machine reserves
  (\<^verbatim>\<open>RegId::ZERO\<close> to \<^verbatim>\<open>RegId::FLAG\<close>) and the constructor \<^verbatim>\<open>RegId::new\<close>; both are
  fields of the parameter.
\<close>

record 'id fuel_regs =
  vm_reg :: "constant_register \<Rightarrow> 'id"
  reg_id_new :: "u8 \<Rightarrow> 'id"

primrec to_reg_id :: "'id fuel_regs \<Rightarrow> constant_register \<Rightarrow> 'id" where
  "to_reg_id fuel Zero = vm_reg fuel Zero"
| "to_reg_id fuel One = vm_reg fuel One"
| "to_reg_id fuel Overflow = vm_reg fuel Overflow"
| "to_reg_id fuel ProgramCounter = vm_reg fuel ProgramCounter"
| "to_reg_id fuel StackStartPointer = vm_reg fuel StackStartPointer"
| "to_reg_id fuel StackPointer = vm_reg fuel StackPointer"
| "to_reg_id fuel FramePointer = vm_reg fuel FramePointer"
| "to_reg_id fuel HeapPointer = vm_reg fuel HeapPointer"
| "to_reg_id fuel Error = vm_reg fuel Error"
| "to_reg_id fuel GlobalGas = vm_reg fuel GlobalGas"
| "to_reg_id fuel ContextGas = vm_reg fuel ContextGas"
| "to_reg_id fuel Balance = vm_reg fuel Balance"
| "to_reg_id fuel InstructionStart = vm_reg fuel InstructionStart"
| "to_reg_id fuel ReturnValue = vm_reg fuel ReturnValue"
| "to_reg_id fuel ReturnLength = vm_reg fuel ReturnLength"
| "to_reg_id fuel Flags = vm_reg fuel Flags"
| "to_reg_id fuel DataSectionStart = reg_id_new fuel (NUM_TOTAL_REGISTERS - 1)"
| "to_reg_id fuel CallReturnAddress = reg_id_new fuel (NUM_TOTAL_REGISTERS - 2)"
| "to_reg_id fuel CallReturnValue = reg_id_new fuel (NUM_TOTAL_REGISTERS - 3)"
| "to_reg_id fuel Scratch = reg_id_new fuel (NUM_TOTAL_REGISTERS - 4)"
| "to_reg_id fuel LocalsBase = reg_id_new fuel (NUM_TOTAL_REGISTERS - 5)"
| "to_reg_id fuel FuncArg0 = reg_id_new fuel (NUM_TOTAL_REGISTERS - 6)"
| "to_reg_id fuel FuncArg1 = reg_id_new fuel (NUM_TOTAL_REGISTERS - 7)"
| "to_reg_id fuel FuncArg2 = reg_id_new fuel (NUM_TOTAL_REGISTERS - 8)"
| "to_reg_id fuel FuncArg3 = reg_id_new fuel (NUM_TOTAL_REGISTERS - 9)"
| "to_reg_id fuel FuncArg4 = reg_id_new fuel (NUM_TOTAL_REGISTERS - 10)"
| "to_reg_id fuel FuncArg5 = reg_id_new fuel (NUM_TOTAL_REGISTERS - 11)"

definition ARG_REGS :: "constant_register list" where
  "ARG_REGS = [FuncArg0, FuncArg1, FuncArg2, FuncArg3, FuncArg4, FuncArg5]"

datatype allocated_register = Allocated u8 | AllocatedConstant constant_register

fun allocated_to_reg_id :: "'id fuel_regs \<Rightarrow> allocated_register \<Rightarrow> 'id result" where
  "allocated_to_reg_id fuel (Allocated a) =
     (if unat a + 16 < 2 ^ 8 then Inr (reg_id_new fuel (a + 16))
      else Inl (Panic ''attempt to add with overflow''))"
| "allocated_to_reg_id fuel (AllocatedConstant c) = Inr (to_reg_id fuel c)"

fun is_zero :: "allocated_register \<Rightarrow> bool" where
  "is_zero (AllocatedConstant Zero) = True"
| "is_zero _ = False"

section \<open>Immediates\<close>

text \<open>\<^verbatim>\<open>TryInto\<close> from 64 bits to a narrower type fails when the value does not fit.\<close>

definition try_into :: "u64 \<Rightarrow> 'a::len word option" where
  "try_into raw = (if unat raw < 2 ^ LENGTH('a) then Some (ucast raw) else None)"

record imm06 =
  value06 :: u8

definition imm06_new :: "u64 \<Rightarrow> imm06 result" where
  "imm06_new raw =
     (if raw > SIX_BITS then Inl (ImmediateTooLarge 6 raw)
      else bindE (unwrap_or_panic ''unwrap'' (try_into raw)) (\<lambda>v. Inr \<lparr>value06 = v\<rparr>))"

definition imm06_new_unchecked :: "u64 \<Rightarrow> string \<Rightarrow> imm06 result" where
  "imm06_new_unchecked raw msg = bindE (unwrap_or_panic msg (try_into raw)) (\<lambda>v. Inr \<lparr>value06 = v\<rparr>)"

record imm12 =
  value12 :: u16

definition imm12_new :: "u64 \<Rightarrow> imm12 result" where
  "imm12_new raw =
     (if raw > TWELVE_BITS then Inl (ImmediateTooLarge 12 raw)
      else bindE (unwrap_or_panic ''unwrap'' (try_into raw)) (\<lambda>v. Inr \<lparr>value12 = v\<rparr>))"

definition imm12_new_unchecked :: "u64 \<Rightarrow> string \<Rightarrow> imm12 result" where
  "imm12_new_unchecked raw msg = bindE (unwrap_or_panic msg (try_into raw)) (\<lambda>v. Inr \<lparr>value12 = v\<rparr>)"

record imm18 =
  value18 :: u32

definition imm18_new :: "u64 \<Rightarrow> imm18 result" where
  "imm18_new raw =
     (if raw > EIGHTEEN_BITS then Inl (ImmediateTooLarge 18 raw)
      else bindE (unwrap_or_panic ''unwrap'' (try_into raw)) (\<lambda>v. Inr \<lparr>value18 = v\<rparr>))"

definition imm18_new_unchecked :: "u64 \<Rightarrow> string \<Rightarrow> imm18 result" where
  "imm18_new_unchecked raw msg = bindE (unwrap_or_panic msg (try_into raw)) (\<lambda>v. Inr \<lparr>value18 = v\<rparr>)"

record imm24 =
  value24 :: u32

definition imm24_new :: "u64 \<Rightarrow> imm24 result" where
  "imm24_new raw =
     (if raw > TWENTY_FOUR_BITS then Inl (ImmediateTooLarge 24 raw)
      else bindE (unwrap_or_panic ''unwrap'' (try_into raw)) (\<lambda>v. Inr \<lparr>value24 = v\<rparr>))"

definition imm24_new_unchecked :: "u64 \<Rightarrow> string \<Rightarrow> imm24 result" where
  "imm24_new_unchecked raw msg = bindE (unwrap_or_panic msg (try_into raw)) (\<lambda>v. Inr \<lparr>value24 = v\<rparr>)"

datatype wide_operations = WideAdd | WideSub | WideNot | WideOr | WideXor | WideAnd | WideLsh | WideRsh

primrec wide_operations_u8 :: "wide_operations \<Rightarrow> u8" where
  "wide_operations_u8 WideAdd = 0"
| "wide_operations_u8 WideSub = 1"
| "wide_operations_u8 WideNot = 2"
| "wide_operations_u8 WideOr = 3"
| "wide_operations_u8 WideXor = 4"
| "wide_operations_u8 WideAnd = 5"
| "wide_operations_u8 WideLsh = 6"
| "wide_operations_u8 WideRsh = 7"

datatype wide_cmp_op = Equality | LessThan | GreaterThan

primrec wide_cmp_u8 :: "wide_cmp_op \<Rightarrow> u8" where
  "wide_cmp_u8 Equality = 0"
| "wide_cmp_u8 LessThan = 2"
| "wide_cmp_u8 GreaterThan = 3"

definition wide_op :: "wide_operations \<Rightarrow> bool \<Rightarrow> imm06" where
  "wide_op op rhs_indirect =
     \<lparr>value06 = or (wide_operations_u8 op) (if rhs_indirect then 32 else 0)\<rparr>"

definition wide_cmp :: "wide_cmp_op \<Rightarrow> bool \<Rightarrow> imm06" where
  "wide_cmp op rhs_indirect = \<lparr>value06 = or (wide_cmp_u8 op) (if rhs_indirect then 32 else 0)\<rparr>"

definition wide_mul :: "bool \<Rightarrow> bool \<Rightarrow> imm06" where
  "wide_mul lhs_indirect rhs_indirect =
     \<lparr>value06 = or (if lhs_indirect then 16 else 0) (if rhs_indirect then 32 else 0)\<rparr>"

definition wide_div :: "bool \<Rightarrow> imm06" where
  "wide_div rhs_indirect = \<lparr>value06 = (if rhs_indirect then 32 else 0)\<rparr>"

section \<open>Properties\<close>

lemma try_into_Some: "unat raw < 2 ^ LENGTH('a) \<Longrightarrow> try_into raw = Some (ucast raw :: 'a::len word)"
  by (simp add: try_into_def)

text \<open>
  The constructor of each immediate accepts exactly the values that fit in its bits, keeps
  the value, and answers any other with the error of its width; its \<^verbatim>\<open>unwrap\<close> never panics.
\<close>

theorem immediates_checked:
  "imm06_new raw = (if unat raw < 2 ^ 6 then Inr \<lparr>value06 = ucast raw\<rparr> else Inl (ImmediateTooLarge 6 raw))
   \<and> imm12_new raw = (if unat raw < 2 ^ 12 then Inr \<lparr>value12 = ucast raw\<rparr> else Inl (ImmediateTooLarge 12 raw))
   \<and> imm18_new raw = (if unat raw < 2 ^ 18 then Inr \<lparr>value18 = ucast raw\<rparr> else Inl (ImmediateTooLarge 18 raw))
   \<and> imm24_new raw = (if unat raw < 2 ^ 24 then Inr \<lparr>value24 = ucast raw\<rparr> else Inl (ImmediateTooLarge 24 raw))"
  by (simp add: imm06_new_def imm12_new_def imm18_new_def imm24_new_def SIX_BITS_def TWELVE_BITS_def
      EIGHTEEN_BITS_def TWENTY_FOUR_BITS_def try_into_def unwrap_or_panic_def word_less_nat_alt)

text \<open>
  The immediates of the wide operations fit in six bits and keep their parts apart: the
  operation in the low bits, the indirection flags in bits 4 and 5.
\<close>

theorem wide_immediates_decode:
  "unat (value06 (wide_op op rhs)) < 2 ^ 6 \<and> (bit (value06 (wide_op op rhs)) 5 \<longleftrightarrow> rhs)
     \<and> take_bit 5 (value06 (wide_op op rhs)) = wide_operations_u8 op
   \<and> unat (value06 (wide_cmp cmp rhs)) < 2 ^ 6 \<and> (bit (value06 (wide_cmp cmp rhs)) 5 \<longleftrightarrow> rhs)
     \<and> take_bit 5 (value06 (wide_cmp cmp rhs)) = wide_cmp_u8 cmp
   \<and> unat (value06 (wide_mul lhs rhs)) < 2 ^ 6 \<and> (bit (value06 (wide_mul lhs rhs)) 5 \<longleftrightarrow> rhs)
     \<and> (bit (value06 (wide_mul lhs rhs)) 4 \<longleftrightarrow> lhs)
   \<and> (bit (value06 (wide_div rhs)) 5 \<longleftrightarrow> rhs)"
  by (cases op; cases cmp; cases lhs; cases rhs)
    (simp_all add: wide_op_def wide_cmp_def wide_mul_def wide_div_def)

text \<open>
  Printing and parsing of register names agree: without its leading dollar signs the printed
  name of a register parses back to it, for every register of the machine and for the data
  section register; the other registers of the compiler cannot be named.
\<close>

theorem register_names_roundtrip:
  "parse_register_name (dropWhile (\<lambda>c. c = CHR ''$'') (fmt_constant_register r)) =
     (if ctor_index r \<le> ctor_index DataSectionStart then Some r else None)"
  by (cases r) (simp_all add: parse_register_name_def)

text \<open>
  What \<^verbatim>\<open>fuel_asm\<close> documents: identifiers are six bits wide, so that \<^verbatim>\<open>RegId::new\<close>
  tells the numbers below 64 apart, and the registers of the machine are the first sixteen, in
  the order of the declaration.
\<close>

definition fuel_regs_ok :: "'id fuel_regs \<Rightarrow> bool" where
  "fuel_regs_ok fuel \<longleftrightarrow> inj_on (reg_id_new fuel) {r. r < 64}
     \<and> (\<forall>c \<in> set (take 16 constant_registers). vm_reg fuel c = reg_id_new fuel (of_nat (ctor_index c)))"

fun valid_allocated :: "allocated_register \<Rightarrow> bool" where
  "valid_allocated (Allocated a) \<longleftrightarrow> a < NUM_ALLOCATABLE_REGISTERS"
| "valid_allocated (AllocatedConstant _) \<longleftrightarrow> True"

text \<open>The number of a register in the machine.\<close>

fun reg_number :: "allocated_register \<Rightarrow> u8" where
  "reg_number (Allocated a) = a + 16"
| "reg_number (AllocatedConstant c) =
     (if ctor_index c < 16 then of_nat (ctor_index c) else 79 - of_nat (ctor_index c))"

lemma to_reg_id_number:
  assumes "fuel_regs_ok fuel"
  shows "to_reg_id fuel c = reg_id_new fuel (reg_number (AllocatedConstant c))"
proof -
  have "vm_reg fuel c = reg_id_new fuel (of_nat (ctor_index c))" if "c \<in> set (take 16 constant_registers)"
    using assms that by (auto simp: fuel_regs_ok_def)
  then show ?thesis by (cases c) (simp_all add: constant_registers_def NUM_TOTAL_REGISTERS_def)
qed

lemma reg_number_constant:
  "unat (reg_number (AllocatedConstant c)) =
     (if ctor_index c < 16 then ctor_index c else 79 - ctor_index c)"
  by (cases c) simp_all

lemma ctor_index_less: "ctor_index c < 27"
  by (cases c) simp_all

lemma NUM_ALLOCATABLE_REGISTERS_value: "NUM_ALLOCATABLE_REGISTERS = 37"
  by (simp add: NUM_ALLOCATABLE_REGISTERS_def NUM_FREE_REGISTERS_def
      NUM_COMPILER_RESERVED_REGISTERS_def NUM_ARG_REGISTERS_def)

lemma reg_number_allocated:
  "valid_allocated (Allocated a) \<Longrightarrow> unat (reg_number (Allocated a)) = unat a + 16 \<and> unat a < 37"
  by (simp add: NUM_ALLOCATABLE_REGISTERS_value word_less_nat_alt unat_word_ariths)

lemma reg_number_less: "valid_allocated a \<Longrightarrow> reg_number a < 64"
proof (cases a)
  case (Allocated x)
  assume "valid_allocated a"
  with Allocated reg_number_allocated [of x] show ?thesis
    by (simp add: word_less_nat_alt del: reg_number.simps valid_allocated.simps)
next
  case (AllocatedConstant c)
  then show ?thesis
    using reg_number_constant [of c] ctor_index_less [of c]
    by (simp add: word_less_nat_alt del: reg_number.simps split: if_splits)
qed

lemma reg_number_apart:
  assumes "valid_allocated (Allocated x)"
  shows "reg_number (Allocated x) \<noteq> reg_number (AllocatedConstant c)"
proof -
  have "unat (reg_number (Allocated x)) \<noteq> unat (reg_number (AllocatedConstant c))"
    using reg_number_allocated [OF assms] reg_number_constant [of c] ctor_index_less [of c]
    by (simp del: reg_number.simps split: if_splits)
  then show ?thesis by metis
qed

lemma reg_number_inject:
  assumes "valid_allocated a" "valid_allocated b" "reg_number a = reg_number b"
  shows "a = b"
proof (cases a)
  case (Allocated x)
  then show ?thesis using assms reg_number_apart by (cases b) (auto simp del: reg_number.simps(2))
next
  case (AllocatedConstant c)
  then show ?thesis
  proof (cases b)
    case (Allocated y)
    then show ?thesis using assms AllocatedConstant reg_number_apart [of y c] by metis
  next
    case d: (AllocatedConstant d)
    have "ctor_index c = ctor_index d"
      using assms(3) AllocatedConstant d reg_number_constant [of c] reg_number_constant [of d]
        ctor_index_less [of c] ctor_index_less [of d]
      by (simp del: reg_number.simps ctor_index_inject split: if_splits)
    then show ?thesis using AllocatedConstant d by simp
  qed
qed

text \<open>
  (C35) No two registers share a machine register: the registers of the machine, the ones the
  compiler reserves and the allocatable ones have different identifiers, and computing the
  identifier of an allocated register does not overflow.
\<close>

theorem register_ids_distinct:
  assumes "fuel_regs_ok fuel" "valid_allocated a" "valid_allocated b"
  shows "\<exists>x y. allocated_to_reg_id fuel a = Inr x \<and> allocated_to_reg_id fuel b = Inr y
    \<and> (x = y \<longleftrightarrow> a = b)"
proof -
  have "allocated_to_reg_id fuel r = Inr (reg_id_new fuel (reg_number r))" if "valid_allocated r" for r
    using that to_reg_id_number [OF assms(1)]
    by (cases r) (auto simp: NUM_ALLOCATABLE_REGISTERS_value word_less_nat_alt simp del: reg_number.simps(2))
  moreover have "reg_id_new fuel (reg_number a) = reg_id_new fuel (reg_number b) \<longleftrightarrow> a = b"
    using assms reg_number_less reg_number_inject
    by (auto simp: fuel_regs_ok_def inj_on_def)
  ultimately show ?thesis using assms(2,3) by blast
qed

definition example_fuel_regs :: "u8 fuel_regs" where
  "example_fuel_regs = \<lparr>vm_reg = (\<lambda>c. of_nat (ctor_index c)), reg_id_new = (\<lambda>n. and n 63)\<rparr>"

lemma and_63: "r < 64 \<Longrightarrow> and r 63 = r" for r :: u8
proof -
  assume "r < 64"
  then have "take_bit 6 r = r"
    by (simp add: word_unat_eq_iff unsigned_take_bit_eq take_bit_nat_eq_self_iff word_less_nat_alt)
  then show ?thesis by (simp add: take_bit_eq_mask mask_eq_exp_minus_1)
qed

lemma example_fuel_regs_ok: "fuel_regs_ok example_fuel_regs"
proof -
  have "inj_on (reg_id_new example_fuel_regs) {r. r < 64}"
    by (auto simp: example_fuel_regs_def inj_on_def and_63)
  then show ?thesis by (simp add: fuel_regs_ok_def example_fuel_regs_def constant_registers_def)
qed

theorem register_ids_distinct_witness:
  "\<exists>x y. allocated_to_reg_id example_fuel_regs (Allocated 36) = Inr x
    \<and> allocated_to_reg_id example_fuel_regs (AllocatedConstant FuncArg5) = Inr y
    \<and> (x = y \<longleftrightarrow> Allocated 36 = AllocatedConstant FuncArg5)"
  by (rule register_ids_distinct [OF example_fuel_regs_ok]) code_simp+

end
