(* ===== verification/Asm_Ops.thy ===== *)
theory Asm_Ops
  imports Asm_Registers
begin

text \<open>
  The instructions of the abstract assembly, \<^verbatim>\<open>VirtualOp\<close> of \<^verbatim>\<open>virtual_ops.rs\<close>. The 101
  variants are grouped the way the comments of the source group them, each group with the
  register type as a parameter: \<^verbatim>\<open>AllocatedOpcode\<close> shares most of the groups. Each method is
  one function per group, with the arms of the source in their order, and a function that
  dispatches on the group.
\<close>

section \<open>Instructions\<close>

datatype data_id_entry_kind = NonConfigurable | Configurable

record data_id =
  data_idx :: u32
  data_kind :: data_id_entry_kind

datatype (plugins only: code) 'r alu_op =
    ADD 'r 'r 'r
  | ADDI 'r 'r imm12
  | AND 'r 'r 'r
  | ANDI 'r 'r imm12
  | DIV 'r 'r 'r
  | DIVI 'r 'r imm12
  | EQ 'r 'r 'r
  | EXP 'r 'r 'r
  | EXPI 'r 'r imm12
  | GT 'r 'r 'r
  | LT 'r 'r 'r
  | MLOG 'r 'r 'r
  | MOD 'r 'r 'r
  | MODI 'r 'r imm12
  | MOVE 'r 'r
  | MOVI 'r imm18
  | MROO 'r 'r 'r
  | MUL 'r 'r 'r
  | MULI 'r 'r imm12
  | NOOP
  | NOT 'r 'r
  | OR 'r 'r 'r
  | ORI 'r 'r imm12
  | SLL 'r 'r 'r
  | SLLI 'r 'r imm12
  | SRL 'r 'r 'r
  | SRLI 'r 'r imm12
  | SUB 'r 'r 'r
  | SUBI 'r 'r imm12
  | XOR 'r 'r 'r
  | XORI 'r 'r imm12
  | WQOP 'r 'r 'r imm06
  | WQML 'r 'r 'r imm06
  | WQDV 'r 'r 'r imm06
  | WQMD 'r 'r 'r 'r
  | WQCM 'r 'r 'r imm06
  | WQAM 'r 'r 'r 'r
  | WQMM 'r 'r 'r 'r

datatype (plugins only: code) 'r control_op =
    JMP 'r
  | JI imm24
  | JNE 'r 'r 'r
  | JNEI 'r 'r imm12
  | JNZI 'r imm18
  | RET 'r

datatype (plugins only: code) 'r memory_op =
    ALOC 'r 'r
  | CFEI 'r imm24
  | CFSI 'r imm24
  | CFE 'r 'r
  | CFS 'r 'r
  | LB 'r 'r imm12
  | LW 'r 'r imm12
  | MCL 'r 'r
  | MCLI 'r imm18
  | MCP 'r 'r 'r
  | MCPI 'r 'r imm12
  | MEQ 'r 'r 'r 'r
  | SB 'r 'r imm12
  | SW 'r 'r imm12

datatype (plugins only: code) 'r contract_op =
    BAL 'r 'r 'r
  | BHEI 'r
  | BHSH 'r 'r
  | BURN 'r 'r
  | CALL 'r 'r 'r 'r
  | CB 'r
  | CCP 'r 'r 'r 'r
  | CROO 'r 'r
  | CSIZ 'r 'r
  | BSIZ 'r 'r
  | LDC 'r 'r 'r imm06
  | BLDD 'r 'r 'r 'r
  | LOG 'r 'r 'r 'r
  | LOGD 'r 'r 'r 'r
  | MINT 'r 'r
  | RETD 'r 'r
  | RVRT 'r
  | SMO 'r 'r 'r 'r
  | SCWQ 'r 'r 'r
  | SRW 'r 'r 'r
  | SRWQ 'r 'r 'r 'r
  | SWW 'r 'r 'r
  | SWWQ 'r 'r 'r 'r
  | TIME 'r 'r
  | TR 'r 'r 'r
  | TRO 'r 'r 'r 'r

datatype (plugins only: code) 'r crypto_op =
    ECK1 'r 'r 'r
  | ECR1 'r 'r 'r
  | ED19 'r 'r 'r 'r
  | K256 'r 'r 'r
  | S256 'r 'r 'r
  | ECOP 'r 'r 'r 'r
  | EPAR 'r 'r 'r 'r

datatype (plugins only: code) 'r other_op =
    ECAL 'r 'r 'r 'r
  | FLAG 'r
  | GM 'r imm18
  | GTF 'r 'r imm12

datatype (plugins only: code) 'r nonvm_op =
    BLOB imm24
  | ConfigurablesOffsetPlaceholder
  | DataSectionOffsetPlaceholder
  | LoadDataId 'r data_id
  | AddrDataId 'r data_id
  | Undefined

datatype virtual_op =
    Alu "virtual_register alu_op"
  | ControlFlow "virtual_register control_op"
  | Memory "virtual_register memory_op"
  | Contract "virtual_register contract_op"
  | Crypto "virtual_register crypto_op"
  | Other "virtual_register other_op"
  | NonVm "virtual_register nonvm_op"

section \<open>Registers of an instruction\<close>

primrec registers_alu :: "'r alu_op \<Rightarrow> 'r list" where
  "registers_alu (ADD r1 r2 r3) = [r1, r2, r3]"
| "registers_alu (ADDI r1 r2 _) = [r1, r2]"
| "registers_alu (AND r1 r2 r3) = [r1, r2, r3]"
| "registers_alu (ANDI r1 r2 _) = [r1, r2]"
| "registers_alu (DIV r1 r2 r3) = [r1, r2, r3]"
| "registers_alu (DIVI r1 r2 _) = [r1, r2]"
| "registers_alu (EQ r1 r2 r3) = [r1, r2, r3]"
| "registers_alu (EXP r1 r2 r3) = [r1, r2, r3]"
| "registers_alu (EXPI r1 r2 _) = [r1, r2]"
| "registers_alu (GT r1 r2 r3) = [r1, r2, r3]"
| "registers_alu (LT r1 r2 r3) = [r1, r2, r3]"
| "registers_alu (MLOG r1 r2 r3) = [r1, r2, r3]"
| "registers_alu (MOD r1 r2 r3) = [r1, r2, r3]"
| "registers_alu (MODI r1 r2 _) = [r1, r2]"
| "registers_alu (MOVE r1 r2) = [r1, r2]"
| "registers_alu (MOVI r1 _) = [r1]"
| "registers_alu (MROO r1 r2 r3) = [r1, r2, r3]"
| "registers_alu (MUL r1 r2 r3) = [r1, r2, r3]"
| "registers_alu (MULI r1 r2 _) = [r1, r2]"
| "registers_alu NOOP = []"
| "registers_alu (NOT r1 r2) = [r1, r2]"
| "registers_alu (OR r1 r2 r3) = [r1, r2, r3]"
| "registers_alu (ORI r1 r2 _) = [r1, r2]"
| "registers_alu (SLL r1 r2 r3) = [r1, r2, r3]"
| "registers_alu (SLLI r1 r2 _) = [r1, r2]"
| "registers_alu (SRL r1 r2 r3) = [r1, r2, r3]"
| "registers_alu (SRLI r1 r2 _) = [r1, r2]"
| "registers_alu (SUB r1 r2 r3) = [r1, r2, r3]"
| "registers_alu (SUBI r1 r2 _) = [r1, r2]"
| "registers_alu (XOR r1 r2 r3) = [r1, r2, r3]"
| "registers_alu (XORI r1 r2 _) = [r1, r2]"
| "registers_alu (WQOP r1 r2 r3 _) = [r1, r2, r3]"
| "registers_alu (WQML r1 r2 r3 _) = [r1, r2, r3]"
| "registers_alu (WQDV r1 r2 r3 _) = [r1, r2, r3]"
| "registers_alu (WQMD r1 r2 r3 r4) = [r1, r2, r3, r4]"
| "registers_alu (WQCM r1 r2 r3 _) = [r1, r2, r3]"
| "registers_alu (WQAM r1 r2 r3 r4) = [r1, r2, r3, r4]"
| "registers_alu (WQMM r1 r2 r3 r4) = [r1, r2, r3, r4]"

primrec registers_control :: "'r control_op \<Rightarrow> 'r list" where
  "registers_control (JMP r1) = [r1]"
| "registers_control (JI _) = []"
| "registers_control (JNE r1 r2 r3) = [r1, r2, r3]"
| "registers_control (JNEI r1 r2 _) = [r1, r2]"
| "registers_control (JNZI r1 _) = [r1]"
| "registers_control (RET r1) = [r1]"

primrec registers_memory :: "'r memory_op \<Rightarrow> 'r list" where
  "registers_memory (ALOC hp r1) = [hp, r1]"
| "registers_memory (CFEI sp _) = [sp]"
| "registers_memory (CFSI sp _) = [sp]"
| "registers_memory (CFE sp r1) = [sp, r1]"
| "registers_memory (CFS sp r1) = [sp, r1]"
| "registers_memory (LB r1 r2 _) = [r1, r2]"
| "registers_memory (LW r1 r2 _) = [r1, r2]"
| "registers_memory (MCL r1 r2) = [r1, r2]"
| "registers_memory (MCLI r1 _) = [r1]"
| "registers_memory (MCP r1 r2 r3) = [r1, r2, r3]"
| "registers_memory (MCPI r1 r2 _) = [r1, r2]"
| "registers_memory (MEQ r1 r2 r3 r4) = [r1, r2, r3, r4]"
| "registers_memory (SB r1 r2 _) = [r1, r2]"
| "registers_memory (SW r1 r2 _) = [r1, r2]"

primrec registers_contract :: "'r contract_op \<Rightarrow> 'r list" where
  "registers_contract (BAL r1 r2 r3) = [r1, r2, r3]"
| "registers_contract (BHEI r1) = [r1]"
| "registers_contract (BHSH r1 r2) = [r1, r2]"
| "registers_contract (BURN r1 r2) = [r1, r2]"
| "registers_contract (CALL r1 r2 r3 r4) = [r1, r2, r3, r4]"
| "registers_contract (CB r1) = [r1]"
| "registers_contract (CCP r1 r2 r3 r4) = [r1, r2, r3, r4]"
| "registers_contract (CROO r1 r2) = [r1, r2]"
| "registers_contract (CSIZ r1 r2) = [r1, r2]"
| "registers_contract (BSIZ r1 r2) = [r1, r2]"
| "registers_contract (LDC r1 r2 r3 _) = [r1, r2, r3]"
| "registers_contract (BLDD r1 r2 r3 r4) = [r1, r2, r3, r4]"
| "registers_contract (LOG r1 r2 r3 r4) = [r1, r2, r3, r4]"
| "registers_contract (LOGD r1 r2 r3 r4) = [r1, r2, r3, r4]"
| "registers_contract (MINT r1 r2) = [r1, r2]"
| "registers_contract (RETD r1 r2) = [r1, r2]"
| "registers_contract (RVRT r1) = [r1]"
| "registers_contract (SMO r1 r2 r3 r4) = [r1, r2, r3, r4]"
| "registers_contract (SCWQ r1 r2 r3) = [r1, r2, r3]"
| "registers_contract (SRW r1 r2 r3) = [r1, r2, r3]"
| "registers_contract (SRWQ r1 r2 r3 r4) = [r1, r2, r3, r4]"
| "registers_contract (SWW r1 r2 r3) = [r1, r2, r3]"
| "registers_contract (SWWQ r1 r2 r3 r4) = [r1, r2, r3, r4]"
| "registers_contract (TIME r1 r2) = [r1, r2]"
| "registers_contract (TR r1 r2 r3) = [r1, r2, r3]"
| "registers_contract (TRO r1 r2 r3 r4) = [r1, r2, r3, r4]"

primrec registers_crypto :: "'r crypto_op \<Rightarrow> 'r list" where
  "registers_crypto (ECK1 r1 r2 r3) = [r1, r2, r3]"
| "registers_crypto (ECR1 r1 r2 r3) = [r1, r2, r3]"
| "registers_crypto (ED19 r1 r2 r3 r4) = [r1, r2, r3, r4]"
| "registers_crypto (K256 r1 r2 r3) = [r1, r2, r3]"
| "registers_crypto (S256 r1 r2 r3) = [r1, r2, r3]"
| "registers_crypto (ECOP r1 r2 r3 r4) = [r1, r2, r3, r4]"
| "registers_crypto (EPAR r1 r2 r3 r4) = [r1, r2, r3, r4]"

primrec registers_other :: "'r other_op \<Rightarrow> 'r list" where
  "registers_other (ECAL r1 r2 r3 r4) = [r1, r2, r3, r4]"
| "registers_other (FLAG r1) = [r1]"
| "registers_other (GM r1 _) = [r1]"
| "registers_other (GTF r1 r2 _) = [r1, r2]"

primrec registers_nonvm :: "'r nonvm_op \<Rightarrow> 'r list" where
  "registers_nonvm (BLOB _) = []"
| "registers_nonvm ConfigurablesOffsetPlaceholder = []"
| "registers_nonvm DataSectionOffsetPlaceholder = []"
| "registers_nonvm (LoadDataId r1 _) = [r1]"
| "registers_nonvm (AddrDataId r1 _) = [r1]"
| "registers_nonvm Undefined = []"

definition vop_registers :: "virtual_op \<Rightarrow> virtual_register list" where
  "vop_registers self =
     btree_set (case self of
        Alu op \<Rightarrow> registers_alu op
      | ControlFlow op \<Rightarrow> registers_control op
      | Memory op \<Rightarrow> registers_memory op
      | Contract op \<Rightarrow> registers_contract op
      | Crypto op \<Rightarrow> registers_crypto op
      | Other op \<Rightarrow> registers_other op
      | NonVm op \<Rightarrow> registers_nonvm op)"

primrec use_registers_alu :: "'r alu_op \<Rightarrow> 'r list" where
  "use_registers_alu (ADD _ r2 r3) = [r2, r3]"
| "use_registers_alu (ADDI _ r2 _) = [r2]"
| "use_registers_alu (AND _ r2 r3) = [r2, r3]"
| "use_registers_alu (ANDI _ r2 _) = [r2]"
| "use_registers_alu (DIV _ r2 r3) = [r2, r3]"
| "use_registers_alu (DIVI _ r2 _) = [r2]"
| "use_registers_alu (EQ _ r2 r3) = [r2, r3]"
| "use_registers_alu (EXP _ r2 r3) = [r2, r3]"
| "use_registers_alu (EXPI _ r2 _) = [r2]"
| "use_registers_alu (GT _ r2 r3) = [r2, r3]"
| "use_registers_alu (LT _ r2 r3) = [r2, r3]"
| "use_registers_alu (MLOG _ r2 r3) = [r2, r3]"
| "use_registers_alu (MOD _ r2 r3) = [r2, r3]"
| "use_registers_alu (MODI _ r2 _) = [r2]"
| "use_registers_alu (MOVE _ r2) = [r2]"
| "use_registers_alu (MOVI _ _) = []"
| "use_registers_alu (MROO _ r2 r3) = [r2, r3]"
| "use_registers_alu (MUL _ r2 r3) = [r2, r3]"
| "use_registers_alu (MULI _ r2 _) = [r2]"
| "use_registers_alu NOOP = []"
| "use_registers_alu (NOT _ r2) = [r2]"
| "use_registers_alu (OR _ r2 r3) = [r2, r3]"
| "use_registers_alu (ORI _ r2 _) = [r2]"
| "use_registers_alu (SLL _ r2 r3) = [r2, r3]"
| "use_registers_alu (SLLI _ r2 _) = [r2]"
| "use_registers_alu (SRL _ r2 r3) = [r2, r3]"
| "use_registers_alu (SRLI _ r2 _) = [r2]"
| "use_registers_alu (SUB _ r2 r3) = [r2, r3]"
| "use_registers_alu (SUBI _ r2 _) = [r2]"
| "use_registers_alu (XOR _ r2 r3) = [r2, r3]"
| "use_registers_alu (XORI _ r2 _) = [r2]"
| "use_registers_alu (WQOP r1 r2 r3 _) = [r1, r2, r3]"
| "use_registers_alu (WQML r1 r2 r3 _) = [r1, r2, r3]"
| "use_registers_alu (WQDV r1 r2 r3 _) = [r1, r2, r3]"
| "use_registers_alu (WQMD r1 r2 r3 r4) = [r1, r2, r3, r4]"
| "use_registers_alu (WQCM _ r2 r3 _) = [r2, r3]"
| "use_registers_alu (WQAM r1 r2 r3 r4) = [r1, r2, r3, r4]"
| "use_registers_alu (WQMM r1 r2 r3 r4) = [r1, r2, r3, r4]"

primrec use_registers_control :: "'r control_op \<Rightarrow> 'r list" where
  "use_registers_control (JMP r1) = [r1]"
| "use_registers_control (JI _) = []"
| "use_registers_control (JNE r1 r2 r3) = [r1, r2, r3]"
| "use_registers_control (JNEI r1 r2 _) = [r1, r2]"
| "use_registers_control (JNZI r1 _) = [r1]"
| "use_registers_control (RET r1) = [r1]"

primrec use_registers_memory :: "'r memory_op \<Rightarrow> 'r list" where
  "use_registers_memory (ALOC hp r1) = [hp, r1]"
| "use_registers_memory (CFEI sp _) = [sp]"
| "use_registers_memory (CFSI sp _) = [sp]"
| "use_registers_memory (CFE sp r1) = [sp, r1]"
| "use_registers_memory (CFS sp r1) = [sp, r1]"
| "use_registers_memory (LB _ r2 _) = [r2]"
| "use_registers_memory (LW _ r2 _) = [r2]"
| "use_registers_memory (MCL r1 r2) = [r1, r2]"
| "use_registers_memory (MCLI r1 _) = [r1]"
| "use_registers_memory (MCP r1 r2 r3) = [r1, r2, r3]"
| "use_registers_memory (MCPI r1 r2 _) = [r1, r2]"
| "use_registers_memory (MEQ _ r2 r3 r4) = [r2, r3, r4]"
| "use_registers_memory (SB r1 r2 _) = [r1, r2]"
| "use_registers_memory (SW r1 r2 _) = [r1, r2]"

primrec use_registers_contract :: "'r contract_op \<Rightarrow> 'r list" where
  "use_registers_contract (BAL _ r2 r3) = [r2, r3]"
| "use_registers_contract (BHEI _) = []"
| "use_registers_contract (BHSH r1 r2) = [r1, r2]"
| "use_registers_contract (BURN r1 r2) = [r1, r2]"
| "use_registers_contract (CALL r1 r2 r3 r4) = [r1, r2, r3, r4]"
| "use_registers_contract (CB r1) = [r1]"
| "use_registers_contract (CCP r1 r2 r3 r4) = [r1, r2, r3, r4]"
| "use_registers_contract (CROO r1 r2) = [r1, r2]"
| "use_registers_contract (CSIZ _ r2) = [r2]"
| "use_registers_contract (BSIZ _ r2) = [r2]"
| "use_registers_contract (LDC r1 r2 r3 _) = [r1, r2, r3]"
| "use_registers_contract (BLDD r1 r2 r3 r4) = [r1, r2, r3, r4]"
| "use_registers_contract (LOG r1 r2 r3 r4) = [r1, r2, r3, r4]"
| "use_registers_contract (LOGD r1 r2 r3 r4) = [r1, r2, r3, r4]"
| "use_registers_contract (MINT r1 r2) = [r1, r2]"
| "use_registers_contract (RETD r1 r2) = [r1, r2]"
| "use_registers_contract (RVRT r1) = [r1]"
| "use_registers_contract (SMO r1 r2 r3 r4) = [r1, r2, r3, r4]"
| "use_registers_contract (SCWQ r1 _ r3) = [r1, r3]"
| "use_registers_contract (SRW _ _ r3) = [r3]"
| "use_registers_contract (SRWQ r1 _ r3 r4) = [r1, r3, r4]"
| "use_registers_contract (SWW r1 _ r3) = [r1, r3]"
| "use_registers_contract (SWWQ r1 _ r3 r4) = [r1, r3, r4]"
| "use_registers_contract (TIME _ r2) = [r2]"
| "use_registers_contract (TR r1 r2 r3) = [r1, r2, r3]"
| "use_registers_contract (TRO r1 r2 r3 r4) = [r1, r2, r3, r4]"

primrec use_registers_crypto :: "'r crypto_op \<Rightarrow> 'r list" where
  "use_registers_crypto (ECK1 r1 r2 r3) = [r1, r2, r3]"
| "use_registers_crypto (ECR1 r1 r2 r3) = [r1, r2, r3]"
| "use_registers_crypto (ED19 r1 r2 r3 r4) = [r1, r2, r3, r4]"
| "use_registers_crypto (K256 r1 r2 r3) = [r1, r2, r3]"
| "use_registers_crypto (S256 r1 r2 r3) = [r1, r2, r3]"
| "use_registers_crypto (ECOP r1 r2 r3 r4) = [r1, r2, r3, r4]"
| "use_registers_crypto (EPAR _ r2 r3 r4) = [r2, r3, r4]"

primrec use_registers_other :: "'r other_op \<Rightarrow> 'r list" where
  "use_registers_other (ECAL r1 r2 r3 r4) = [r1, r2, r3, r4]"
| "use_registers_other (FLAG r1) = [r1]"
| "use_registers_other (GM _ _) = []"
| "use_registers_other (GTF _ r2 _) = [r2]"

primrec use_registers_nonvm :: "'r nonvm_op \<Rightarrow> 'r list" where
  "use_registers_nonvm (BLOB _) = []"
| "use_registers_nonvm ConfigurablesOffsetPlaceholder = []"
| "use_registers_nonvm DataSectionOffsetPlaceholder = []"
| "use_registers_nonvm (LoadDataId _ _) = []"
| "use_registers_nonvm (AddrDataId _ _) = []"
| "use_registers_nonvm Undefined = []"

definition vop_use_registers :: "virtual_op \<Rightarrow> virtual_register list" where
  "vop_use_registers self =
     btree_set (case self of
        Alu op \<Rightarrow> use_registers_alu op
      | ControlFlow op \<Rightarrow> use_registers_control op
      | Memory op \<Rightarrow> use_registers_memory op
      | Contract op \<Rightarrow> use_registers_contract op
      | Crypto op \<Rightarrow> use_registers_crypto op
      | Other op \<Rightarrow> use_registers_other op
      | NonVm op \<Rightarrow> use_registers_nonvm op)"

primrec def_registers_alu :: "'r alu_op \<Rightarrow> 'r list" where
  "def_registers_alu (ADD r1 _ _) = [r1]"
| "def_registers_alu (ADDI r1 _ _) = [r1]"
| "def_registers_alu (AND r1 _ _) = [r1]"
| "def_registers_alu (ANDI r1 _ _) = [r1]"
| "def_registers_alu (DIV r1 _ _) = [r1]"
| "def_registers_alu (DIVI r1 _ _) = [r1]"
| "def_registers_alu (EQ r1 _ _) = [r1]"
| "def_registers_alu (EXP r1 _ _) = [r1]"
| "def_registers_alu (EXPI r1 _ _) = [r1]"
| "def_registers_alu (GT r1 _ _) = [r1]"
| "def_registers_alu (LT r1 _ _) = [r1]"
| "def_registers_alu (MLOG r1 _ _) = [r1]"
| "def_registers_alu (MOD r1 _ _) = [r1]"
| "def_registers_alu (MODI r1 _ _) = [r1]"
| "def_registers_alu (MOVE r1 _) = [r1]"
| "def_registers_alu (MOVI r1 _) = [r1]"
| "def_registers_alu (MROO r1 _ _) = [r1]"
| "def_registers_alu (MUL r1 _ _) = [r1]"
| "def_registers_alu (MULI r1 _ _) = [r1]"
| "def_registers_alu NOOP = []"
| "def_registers_alu (NOT r1 _) = [r1]"
| "def_registers_alu (OR r1 _ _) = [r1]"
| "def_registers_alu (ORI r1 _ _) = [r1]"
| "def_registers_alu (SLL r1 _ _) = [r1]"
| "def_registers_alu (SLLI r1 _ _) = [r1]"
| "def_registers_alu (SRL r1 _ _) = [r1]"
| "def_registers_alu (SRLI r1 _ _) = [r1]"
| "def_registers_alu (SUB r1 _ _) = [r1]"
| "def_registers_alu (SUBI r1 _ _) = [r1]"
| "def_registers_alu (XOR r1 _ _) = [r1]"
| "def_registers_alu (XORI r1 _ _) = [r1]"
| "def_registers_alu (WQOP _ _ _ _) = []"
| "def_registers_alu (WQML _ _ _ _) = []"
| "def_registers_alu (WQDV _ _ _ _) = []"
| "def_registers_alu (WQMD _ _ _ _) = []"
| "def_registers_alu (WQCM r1 _ _ _) = [r1]"
| "def_registers_alu (WQAM _ _ _ _) = []"
| "def_registers_alu (WQMM _ _ _ _) = []"

primrec def_registers_control :: "'r control_op \<Rightarrow> 'r list" where
  "def_registers_control (JMP _) = []"
| "def_registers_control (JI _) = []"
| "def_registers_control (JNE _ _ _) = []"
| "def_registers_control (JNEI _ _ _) = []"
| "def_registers_control (JNZI _ _) = []"
| "def_registers_control (RET _) = []"

primrec def_registers_memory :: "'r memory_op \<Rightarrow> 'r list" where
  "def_registers_memory (ALOC hp _) = [hp]"
| "def_registers_memory (CFEI sp _) = [sp]"
| "def_registers_memory (CFSI sp _) = [sp]"
| "def_registers_memory (CFE sp _) = [sp]"
| "def_registers_memory (CFS sp _) = [sp]"
| "def_registers_memory (LB r1 _ _) = [r1]"
| "def_registers_memory (LW r1 _ _) = [r1]"
| "def_registers_memory (MCL _ _) = []"
| "def_registers_memory (MCLI _ _) = []"
| "def_registers_memory (MCP _ _ _) = []"
| "def_registers_memory (MCPI _ _ _) = []"
| "def_registers_memory (MEQ r1 _ _ _) = [r1]"
| "def_registers_memory (SB _ _ _) = []"
| "def_registers_memory (SW _ _ _) = []"

primrec def_registers_contract :: "'r contract_op \<Rightarrow> 'r list" where
  "def_registers_contract (BAL r1 _ _) = [r1]"
| "def_registers_contract (BHEI r1) = [r1]"
| "def_registers_contract (BHSH _ _) = []"
| "def_registers_contract (BURN _ _) = []"
| "def_registers_contract (CALL _ _ _ _) = []"
| "def_registers_contract (CB _) = []"
| "def_registers_contract (CCP _ _ _ _) = []"
| "def_registers_contract (CROO _ _) = []"
| "def_registers_contract (CSIZ r1 _) = [r1]"
| "def_registers_contract (BSIZ r1 _) = [r1]"
| "def_registers_contract (LDC _ _ _ _) = []"
| "def_registers_contract (BLDD _ _ _ _) = []"
| "def_registers_contract (LOG _ _ _ _) = []"
| "def_registers_contract (LOGD _ _ _ _) = []"
| "def_registers_contract (MINT _ _) = []"
| "def_registers_contract (RETD _ _) = []"
| "def_registers_contract (RVRT _) = []"
| "def_registers_contract (SMO _ _ _ _) = []"
| "def_registers_contract (SCWQ _ r2 _) = [r2]"
| "def_registers_contract (SRW r1 r2 _) = [r1, r2]"
| "def_registers_contract (SRWQ _ r2 _ _) = [r2]"
| "def_registers_contract (SWW _ r2 _) = [r2]"
| "def_registers_contract (SWWQ _ r2 _ _) = [r2]"
| "def_registers_contract (TIME r1 _) = [r1]"
| "def_registers_contract (TR _ _ _) = []"
| "def_registers_contract (TRO _ _ _ _) = []"

primrec def_registers_crypto :: "'r crypto_op \<Rightarrow> 'r list" where
  "def_registers_crypto (ECK1 _ _ _) = []"
| "def_registers_crypto (ECR1 _ _ _) = []"
| "def_registers_crypto (ED19 _ _ _ _) = []"
| "def_registers_crypto (K256 _ _ _) = []"
| "def_registers_crypto (S256 _ _ _) = []"
| "def_registers_crypto (ECOP _ _ _ _) = []"
| "def_registers_crypto (EPAR r1 _ _ _) = [r1]"

primrec def_registers_other :: "'r other_op \<Rightarrow> 'r list" where
  "def_registers_other (ECAL _ _ _ _) = []"
| "def_registers_other (FLAG _) = []"
| "def_registers_other (GM r1 _) = [r1]"
| "def_registers_other (GTF r1 _ _) = [r1]"

primrec def_registers_nonvm :: "'r nonvm_op \<Rightarrow> 'r list" where
  "def_registers_nonvm (BLOB _) = []"
| "def_registers_nonvm ConfigurablesOffsetPlaceholder = []"
| "def_registers_nonvm DataSectionOffsetPlaceholder = []"
| "def_registers_nonvm (LoadDataId r1 _) = [r1]"
| "def_registers_nonvm (AddrDataId r1 _) = [r1]"
| "def_registers_nonvm Undefined = []"

definition vop_def_registers :: "virtual_op \<Rightarrow> virtual_register list" where
  "vop_def_registers self =
     btree_set (case self of
        Alu op \<Rightarrow> def_registers_alu op
      | ControlFlow op \<Rightarrow> def_registers_control op
      | Memory op \<Rightarrow> def_registers_memory op
      | Contract op \<Rightarrow> def_registers_contract op
      | Crypto op \<Rightarrow> def_registers_crypto op
      | Other op \<Rightarrow> def_registers_other op
      | NonVm op \<Rightarrow> def_registers_nonvm op)"

primrec def_const_registers_alu :: "virtual_register alu_op \<Rightarrow> virtual_register list" where
  "def_const_registers_alu (ADD _ _ _) = [Constant Overflow, Constant Error]"
| "def_const_registers_alu (ADDI _ _ _) = [Constant Overflow, Constant Error]"
| "def_const_registers_alu (AND _ _ _) = [Constant Overflow, Constant Error]"
| "def_const_registers_alu (ANDI _ _ _) = [Constant Overflow, Constant Error]"
| "def_const_registers_alu (DIV _ _ _) = [Constant Overflow, Constant Error]"
| "def_const_registers_alu (DIVI _ _ _) = [Constant Overflow, Constant Error]"
| "def_const_registers_alu (EQ _ _ _) = [Constant Overflow, Constant Error]"
| "def_const_registers_alu (EXP _ _ _) = [Constant Overflow, Constant Error]"
| "def_const_registers_alu (EXPI _ _ _) = [Constant Overflow, Constant Error]"
| "def_const_registers_alu (GT _ _ _) = [Constant Overflow, Constant Error]"
| "def_const_registers_alu (LT _ _ _) = [Constant Overflow, Constant Error]"
| "def_const_registers_alu (MLOG _ _ _) = [Constant Overflow, Constant Error]"
| "def_const_registers_alu (MOD _ _ _) = [Constant Overflow, Constant Error]"
| "def_const_registers_alu (MODI _ _ _) = [Constant Overflow, Constant Error]"
| "def_const_registers_alu (MOVE _ _) = [Constant Overflow, Constant Error]"
| "def_const_registers_alu (MOVI _ _) = [Constant Overflow, Constant Error]"
| "def_const_registers_alu (MROO _ _ _) = [Constant Overflow, Constant Error]"
| "def_const_registers_alu (MUL _ _ _) = [Constant Overflow, Constant Error]"
| "def_const_registers_alu (MULI _ _ _) = [Constant Overflow, Constant Error]"
| "def_const_registers_alu NOOP = [Constant Overflow, Constant Error]"
| "def_const_registers_alu (NOT _ _) = [Constant Overflow, Constant Error]"
| "def_const_registers_alu (OR _ _ _) = [Constant Overflow, Constant Error]"
| "def_const_registers_alu (ORI _ _ _) = [Constant Overflow, Constant Error]"
| "def_const_registers_alu (SLL _ _ _) = [Constant Overflow, Constant Error]"
| "def_const_registers_alu (SLLI _ _ _) = [Constant Overflow, Constant Error]"
| "def_const_registers_alu (SRL _ _ _) = [Constant Overflow, Constant Error]"
| "def_const_registers_alu (SRLI _ _ _) = [Constant Overflow, Constant Error]"
| "def_const_registers_alu (SUB _ _ _) = [Constant Overflow, Constant Error]"
| "def_const_registers_alu (SUBI _ _ _) = [Constant Overflow, Constant Error]"
| "def_const_registers_alu (XOR _ _ _) = [Constant Overflow, Constant Error]"
| "def_const_registers_alu (XORI _ _ _) = [Constant Overflow, Constant Error]"
| "def_const_registers_alu (WQOP _ _ _ _) = [Constant Overflow, Constant Error]"
| "def_const_registers_alu (WQML _ _ _ _) = [Constant Overflow, Constant Error]"
| "def_const_registers_alu (WQDV _ _ _ _) = [Constant Overflow, Constant Error]"
| "def_const_registers_alu (WQMD _ _ _ _) = [Constant Overflow, Constant Error]"
| "def_const_registers_alu (WQCM _ _ _ _) = [Constant Overflow, Constant Error]"
| "def_const_registers_alu (WQAM _ _ _ _) = [Constant Overflow, Constant Error]"
| "def_const_registers_alu (WQMM _ _ _ _) = [Constant Overflow, Constant Error]"

primrec def_const_registers_control :: "virtual_register control_op \<Rightarrow> virtual_register list" where
  "def_const_registers_control (JMP _) = []"
| "def_const_registers_control (JI _) = []"
| "def_const_registers_control (JNE _ _ _) = []"
| "def_const_registers_control (JNEI _ _ _) = []"
| "def_const_registers_control (JNZI _ _) = []"
| "def_const_registers_control (RET _) = []"

primrec def_const_registers_memory :: "virtual_register memory_op \<Rightarrow> virtual_register list" where
  "def_const_registers_memory (ALOC hp _) = [hp]"
| "def_const_registers_memory (CFEI sp _) = [sp]"
| "def_const_registers_memory (CFSI sp _) = [sp]"
| "def_const_registers_memory (CFE sp _) = [sp]"
| "def_const_registers_memory (CFS sp _) = [sp]"
| "def_const_registers_memory (LB _ _ _) = []"
| "def_const_registers_memory (LW _ _ _) = []"
| "def_const_registers_memory (MCL _ _) = []"
| "def_const_registers_memory (MCLI _ _) = []"
| "def_const_registers_memory (MCP _ _ _) = []"
| "def_const_registers_memory (MCPI _ _ _) = []"
| "def_const_registers_memory (MEQ _ _ _ _) = []"
| "def_const_registers_memory (SB _ _ _) = []"
| "def_const_registers_memory (SW _ _ _) = []"

primrec def_const_registers_contract :: "virtual_register contract_op \<Rightarrow> virtual_register list" where
  "def_const_registers_contract (BAL _ _ _) = []"
| "def_const_registers_contract (BHEI _) = []"
| "def_const_registers_contract (BHSH _ _) = []"
| "def_const_registers_contract (BURN _ _) = []"
| "def_const_registers_contract (CALL _ _ _ _) = []"
| "def_const_registers_contract (CB _) = []"
| "def_const_registers_contract (CCP _ _ _ _) = []"
| "def_const_registers_contract (CROO _ _) = []"
| "def_const_registers_contract (CSIZ _ _) = []"
| "def_const_registers_contract (BSIZ _ _) = []"
| "def_const_registers_contract (LDC _ _ _ _) = []"
| "def_const_registers_contract (BLDD _ _ _ _) = []"
| "def_const_registers_contract (LOG _ _ _ _) = []"
| "def_const_registers_contract (LOGD _ _ _ _) = []"
| "def_const_registers_contract (MINT _ _) = []"
| "def_const_registers_contract (RETD _ _) = []"
| "def_const_registers_contract (RVRT _) = []"
| "def_const_registers_contract (SMO _ _ _ _) = []"
| "def_const_registers_contract (SCWQ _ _ _) = []"
| "def_const_registers_contract (SRW _ _ _) = []"
| "def_const_registers_contract (SRWQ _ _ _ _) = []"
| "def_const_registers_contract (SWW _ _ _) = []"
| "def_const_registers_contract (SWWQ _ _ _ _) = []"
| "def_const_registers_contract (TIME _ _) = []"
| "def_const_registers_contract (TR _ _ _) = []"
| "def_const_registers_contract (TRO _ _ _ _) = []"

primrec def_const_registers_crypto :: "virtual_register crypto_op \<Rightarrow> virtual_register list" where
  "def_const_registers_crypto (ECK1 _ _ _) = [Constant Overflow, Constant Error]"
| "def_const_registers_crypto (ECR1 _ _ _) = [Constant Overflow, Constant Error]"
| "def_const_registers_crypto (ED19 _ _ _ _) = [Constant Overflow, Constant Error]"
| "def_const_registers_crypto (K256 _ _ _) = []"
| "def_const_registers_crypto (S256 _ _ _) = []"
| "def_const_registers_crypto (ECOP _ _ _ _) = []"
| "def_const_registers_crypto (EPAR _ _ _ _) = []"

primrec def_const_registers_other :: "virtual_register other_op \<Rightarrow> virtual_register list" where
  "def_const_registers_other (ECAL _ _ _ _) = []"
| "def_const_registers_other (FLAG _) = [Constant Flags]"
| "def_const_registers_other (GM _ _) = []"
| "def_const_registers_other (GTF _ _ _) = []"

primrec def_const_registers_nonvm :: "virtual_register nonvm_op \<Rightarrow> virtual_register list" where
  "def_const_registers_nonvm (BLOB _) = []"
| "def_const_registers_nonvm ConfigurablesOffsetPlaceholder = []"
| "def_const_registers_nonvm DataSectionOffsetPlaceholder = []"
| "def_const_registers_nonvm (LoadDataId _ _) = []"
| "def_const_registers_nonvm (AddrDataId _ _) = []"
| "def_const_registers_nonvm Undefined = []"

definition vop_def_const_registers :: "virtual_op \<Rightarrow> virtual_register list" where
  "vop_def_const_registers self =
     btree_set (case self of
        Alu op \<Rightarrow> def_const_registers_alu op
      | ControlFlow op \<Rightarrow> def_const_registers_control op
      | Memory op \<Rightarrow> def_const_registers_memory op
      | Contract op \<Rightarrow> def_const_registers_contract op
      | Crypto op \<Rightarrow> def_const_registers_crypto op
      | Other op \<Rightarrow> def_const_registers_other op
      | NonVm op \<Rightarrow> def_const_registers_nonvm op)"

section \<open>Side effects\<close>

definition defines_constant :: "virtual_register list \<Rightarrow> bool" where
  "defines_constant regs \<longleftrightarrow> (\<exists>r \<in> set regs. \<not> is_virtual r)"

primrec has_side_effect_alu :: "virtual_register alu_op \<Rightarrow> bool" where
  "has_side_effect_alu (ADD r1 r2 r3) = defines_constant (def_registers_alu (ADD r1 r2 r3))"
| "has_side_effect_alu (ADDI r1 r2 r3) = defines_constant (def_registers_alu (ADDI r1 r2 r3))"
| "has_side_effect_alu (AND r1 r2 r3) = defines_constant (def_registers_alu (AND r1 r2 r3))"
| "has_side_effect_alu (ANDI r1 r2 r3) = defines_constant (def_registers_alu (ANDI r1 r2 r3))"
| "has_side_effect_alu (DIV r1 r2 r3) = defines_constant (def_registers_alu (DIV r1 r2 r3))"
| "has_side_effect_alu (DIVI r1 r2 r3) = defines_constant (def_registers_alu (DIVI r1 r2 r3))"
| "has_side_effect_alu (EQ r1 r2 r3) = defines_constant (def_registers_alu (EQ r1 r2 r3))"
| "has_side_effect_alu (EXP r1 r2 r3) = defines_constant (def_registers_alu (EXP r1 r2 r3))"
| "has_side_effect_alu (EXPI r1 r2 r3) = defines_constant (def_registers_alu (EXPI r1 r2 r3))"
| "has_side_effect_alu (GT r1 r2 r3) = defines_constant (def_registers_alu (GT r1 r2 r3))"
| "has_side_effect_alu (LT r1 r2 r3) = defines_constant (def_registers_alu (LT r1 r2 r3))"
| "has_side_effect_alu (MLOG r1 r2 r3) = defines_constant (def_registers_alu (MLOG r1 r2 r3))"
| "has_side_effect_alu (MOD r1 r2 r3) = defines_constant (def_registers_alu (MOD r1 r2 r3))"
| "has_side_effect_alu (MODI r1 r2 r3) = defines_constant (def_registers_alu (MODI r1 r2 r3))"
| "has_side_effect_alu (MOVE r1 r2) = defines_constant (def_registers_alu (MOVE r1 r2))"
| "has_side_effect_alu (MOVI r1 r2) = defines_constant (def_registers_alu (MOVI r1 r2))"
| "has_side_effect_alu (MROO r1 r2 r3) = defines_constant (def_registers_alu (MROO r1 r2 r3))"
| "has_side_effect_alu (MUL r1 r2 r3) = defines_constant (def_registers_alu (MUL r1 r2 r3))"
| "has_side_effect_alu (MULI r1 r2 r3) = defines_constant (def_registers_alu (MULI r1 r2 r3))"
| "has_side_effect_alu NOOP = defines_constant (def_registers_alu NOOP)"
| "has_side_effect_alu (NOT r1 r2) = defines_constant (def_registers_alu (NOT r1 r2))"
| "has_side_effect_alu (OR r1 r2 r3) = defines_constant (def_registers_alu (OR r1 r2 r3))"
| "has_side_effect_alu (ORI r1 r2 r3) = defines_constant (def_registers_alu (ORI r1 r2 r3))"
| "has_side_effect_alu (SLL r1 r2 r3) = defines_constant (def_registers_alu (SLL r1 r2 r3))"
| "has_side_effect_alu (SLLI r1 r2 r3) = defines_constant (def_registers_alu (SLLI r1 r2 r3))"
| "has_side_effect_alu (SRL r1 r2 r3) = defines_constant (def_registers_alu (SRL r1 r2 r3))"
| "has_side_effect_alu (SRLI r1 r2 r3) = defines_constant (def_registers_alu (SRLI r1 r2 r3))"
| "has_side_effect_alu (SUB r1 r2 r3) = defines_constant (def_registers_alu (SUB r1 r2 r3))"
| "has_side_effect_alu (SUBI r1 r2 r3) = defines_constant (def_registers_alu (SUBI r1 r2 r3))"
| "has_side_effect_alu (XOR r1 r2 r3) = defines_constant (def_registers_alu (XOR r1 r2 r3))"
| "has_side_effect_alu (XORI r1 r2 r3) = defines_constant (def_registers_alu (XORI r1 r2 r3))"
| "has_side_effect_alu (WQOP _ _ _ _) = True"
| "has_side_effect_alu (WQML _ _ _ _) = True"
| "has_side_effect_alu (WQDV _ _ _ _) = True"
| "has_side_effect_alu (WQMD _ _ _ _) = True"
| "has_side_effect_alu (WQCM _ _ _ _) = True"
| "has_side_effect_alu (WQAM _ _ _ _) = True"
| "has_side_effect_alu (WQMM _ _ _ _) = True"

primrec has_side_effect_control :: "virtual_register control_op \<Rightarrow> bool" where
  "has_side_effect_control (JMP _) = True"
| "has_side_effect_control (JI _) = True"
| "has_side_effect_control (JNE _ _ _) = True"
| "has_side_effect_control (JNEI _ _ _) = True"
| "has_side_effect_control (JNZI _ _) = True"
| "has_side_effect_control (RET _) = True"

primrec has_side_effect_memory :: "virtual_register memory_op \<Rightarrow> bool" where
  "has_side_effect_memory (ALOC _ _) = True"
| "has_side_effect_memory (CFEI _ _) = True"
| "has_side_effect_memory (CFSI _ _) = True"
| "has_side_effect_memory (CFE _ _) = True"
| "has_side_effect_memory (CFS _ _) = True"
| "has_side_effect_memory (LB r1 r2 r3) = defines_constant (def_registers_memory (LB r1 r2 r3))"
| "has_side_effect_memory (LW r1 r2 r3) = defines_constant (def_registers_memory (LW r1 r2 r3))"
| "has_side_effect_memory (MCL _ _) = True"
| "has_side_effect_memory (MCLI _ _) = True"
| "has_side_effect_memory (MCP _ _ _) = True"
| "has_side_effect_memory (MCPI _ _ _) = True"
| "has_side_effect_memory (MEQ _ _ _ _) = True"
| "has_side_effect_memory (SB _ _ _) = True"
| "has_side_effect_memory (SW _ _ _) = True"

primrec has_side_effect_contract :: "virtual_register contract_op \<Rightarrow> bool" where
  "has_side_effect_contract (BAL r1 r2 r3) = defines_constant (def_registers_contract (BAL r1 r2 r3))"
| "has_side_effect_contract (BHEI r1) = defines_constant (def_registers_contract (BHEI r1))"
| "has_side_effect_contract (BHSH _ _) = True"
| "has_side_effect_contract (BURN _ _) = True"
| "has_side_effect_contract (CALL _ _ _ _) = True"
| "has_side_effect_contract (CB _) = True"
| "has_side_effect_contract (CCP _ _ _ _) = True"
| "has_side_effect_contract (CROO _ _) = True"
| "has_side_effect_contract (CSIZ r1 r2) = defines_constant (def_registers_contract (CSIZ r1 r2))"
| "has_side_effect_contract (BSIZ r1 r2) = defines_constant (def_registers_contract (BSIZ r1 r2))"
| "has_side_effect_contract (LDC _ _ _ _) = True"
| "has_side_effect_contract (BLDD _ _ _ _) = True"
| "has_side_effect_contract (LOG _ _ _ _) = True"
| "has_side_effect_contract (LOGD _ _ _ _) = True"
| "has_side_effect_contract (MINT _ _) = True"
| "has_side_effect_contract (RETD _ _) = True"
| "has_side_effect_contract (RVRT _) = True"
| "has_side_effect_contract (SMO _ _ _ _) = True"
| "has_side_effect_contract (SCWQ _ _ _) = True"
| "has_side_effect_contract (SRW r1 r2 r3) = defines_constant (def_registers_contract (SRW r1 r2 r3))"
| "has_side_effect_contract (SRWQ _ _ _ _) = True"
| "has_side_effect_contract (SWW _ _ _) = True"
| "has_side_effect_contract (SWWQ _ _ _ _) = True"
| "has_side_effect_contract (TIME r1 r2) = defines_constant (def_registers_contract (TIME r1 r2))"
| "has_side_effect_contract (TR _ _ _) = True"
| "has_side_effect_contract (TRO _ _ _ _) = True"

primrec has_side_effect_crypto :: "virtual_register crypto_op \<Rightarrow> bool" where
  "has_side_effect_crypto (ECK1 _ _ _) = True"
| "has_side_effect_crypto (ECR1 _ _ _) = True"
| "has_side_effect_crypto (ED19 _ _ _ _) = True"
| "has_side_effect_crypto (K256 _ _ _) = True"
| "has_side_effect_crypto (S256 _ _ _) = True"
| "has_side_effect_crypto (ECOP _ _ _ _) = True"
| "has_side_effect_crypto (EPAR r1 r2 r3 r4) = defines_constant (def_registers_crypto (EPAR r1 r2 r3 r4))"

primrec has_side_effect_other :: "virtual_register other_op \<Rightarrow> bool" where
  "has_side_effect_other (ECAL _ _ _ _) = True"
| "has_side_effect_other (FLAG _) = True"
| "has_side_effect_other (GM r1 r2) = defines_constant (def_registers_other (GM r1 r2))"
| "has_side_effect_other (GTF r1 r2 r3) = defines_constant (def_registers_other (GTF r1 r2 r3))"

primrec has_side_effect_nonvm :: "virtual_register nonvm_op \<Rightarrow> bool" where
  "has_side_effect_nonvm (BLOB _) = True"
| "has_side_effect_nonvm ConfigurablesOffsetPlaceholder = True"
| "has_side_effect_nonvm DataSectionOffsetPlaceholder = True"
| "has_side_effect_nonvm (LoadDataId r1 r2) = defines_constant (def_registers_nonvm (LoadDataId r1 r2))"
| "has_side_effect_nonvm (AddrDataId r1 r2) = defines_constant (def_registers_nonvm (AddrDataId r1 r2))"
| "has_side_effect_nonvm Undefined = True"

definition vop_has_side_effect :: "virtual_op \<Rightarrow> bool" where
  "vop_has_side_effect self =
     (case self of
        Alu op \<Rightarrow> has_side_effect_alu op
      | ControlFlow op \<Rightarrow> has_side_effect_control op
      | Memory op \<Rightarrow> has_side_effect_memory op
      | Contract op \<Rightarrow> has_side_effect_contract op
      | Crypto op \<Rightarrow> has_side_effect_crypto op
      | Other op \<Rightarrow> has_side_effect_other op
      | NonVm op \<Rightarrow> has_side_effect_nonvm op)"

section \<open>Renaming registers\<close>

text \<open>Constructors applied to operands that may each fail, from left to right.\<close>

definition lift1 :: "('a \<Rightarrow> 'o) \<Rightarrow> 'a result \<Rightarrow> 'o result" where
  "lift1 C r1 = bindE r1 (\<lambda>a. Inr (C a))"

definition lift2 :: "('a \<Rightarrow> 'a \<Rightarrow> 'o) \<Rightarrow> 'a result \<Rightarrow> 'a result \<Rightarrow> 'o result" where
  "lift2 C r1 r2 = bindE r1 (\<lambda>a. lift1 (C a) r2)"

definition lift3 :: "('a \<Rightarrow> 'a \<Rightarrow> 'a \<Rightarrow> 'o) \<Rightarrow> 'a result \<Rightarrow> 'a result \<Rightarrow> 'a result \<Rightarrow> 'o result" where
  "lift3 C r1 r2 r3 = bindE r1 (\<lambda>a. lift2 (C a) r2 r3)"

definition lift4 ::
  "('a \<Rightarrow> 'a \<Rightarrow> 'a \<Rightarrow> 'a \<Rightarrow> 'o) \<Rightarrow> 'a result \<Rightarrow> 'a result \<Rightarrow> 'a result \<Rightarrow> 'a result \<Rightarrow> 'o result" where
  "lift4 C r1 r2 r3 r4 = bindE r1 (\<lambda>a. lift3 (C a) r2 r3 r4)"

lemmas lift_defs = lift1_def lift2_def lift3_def lift4_def

definition update_reg ::
  "(virtual_register \<rightharpoonup> virtual_register) \<Rightarrow> virtual_register \<Rightarrow> virtual_register result" where
  "update_reg reg_to_reg_map reg =
     (case reg_to_reg_map reg of
        Some r \<Rightarrow> if is_virtual reg then Inr r else Inl (Panic ''Only virtual registers should be updated'')
      | None \<Rightarrow> Inr reg)"

text \<open>The argument \<open>f\<close> of the group functions is \<^verbatim>\<open>update_reg(reg_to_reg_map, _)\<close>.\<close>

primrec update_register_alu ::
  "(virtual_register \<Rightarrow> virtual_register result) \<Rightarrow> virtual_register alu_op \<Rightarrow> virtual_register alu_op result" where
  "update_register_alu f (ADD r1 r2 r3) = lift3 ADD (f r1) (f r2) (f r3)"
| "update_register_alu f (ADDI r1 r2 i) = lift2 (\<lambda>a b. ADDI a b i) (f r1) (f r2)"
| "update_register_alu f (AND r1 r2 r3) = lift3 AND (f r1) (f r2) (f r3)"
| "update_register_alu f (ANDI r1 r2 i) = lift2 (\<lambda>a b. ANDI a b i) (f r1) (f r2)"
| "update_register_alu f (DIV r1 r2 r3) = lift3 DIV (f r1) (f r2) (f r3)"
| "update_register_alu f (DIVI r1 r2 i) = lift2 (\<lambda>a b. DIVI a b i) (f r1) (f r2)"
| "update_register_alu f (EQ r1 r2 r3) = lift3 EQ (f r1) (f r2) (f r3)"
| "update_register_alu f (EXP r1 r2 r3) = lift3 EXP (f r1) (f r2) (f r3)"
| "update_register_alu f (EXPI r1 r2 i) = lift2 (\<lambda>a b. EXPI a b i) (f r1) (f r2)"
| "update_register_alu f (GT r1 r2 r3) = lift3 GT (f r1) (f r2) (f r3)"
| "update_register_alu f (LT r1 r2 r3) = lift3 LT (f r1) (f r2) (f r3)"
| "update_register_alu f (MLOG r1 r2 r3) = lift3 MLOG (f r1) (f r2) (f r3)"
| "update_register_alu f (MOD r1 r2 r3) = lift3 MOD (f r1) (f r2) (f r3)"
| "update_register_alu f (MODI r1 r2 i) = lift2 (\<lambda>a b. MODI a b i) (f r1) (f r2)"
| "update_register_alu f (MOVE r1 r2) = lift2 MOVE (f r1) (f r2)"
| "update_register_alu f (MOVI r1 i) = lift1 (\<lambda>a. MOVI a i) (f r1)"
| "update_register_alu f (MROO r1 r2 r3) = lift3 MROO (f r1) (f r2) (f r3)"
| "update_register_alu f (MUL r1 r2 r3) = lift3 MUL (f r1) (f r2) (f r3)"
| "update_register_alu f (MULI r1 r2 i) = lift2 (\<lambda>a b. MULI a b i) (f r1) (f r2)"
| "update_register_alu f NOOP = Inr NOOP"
| "update_register_alu f (NOT r1 r2) = lift2 NOT (f r1) (f r2)"
| "update_register_alu f (OR r1 r2 r3) = lift3 OR (f r1) (f r2) (f r3)"
| "update_register_alu f (ORI r1 r2 i) = lift2 (\<lambda>a b. ORI a b i) (f r1) (f r2)"
| "update_register_alu f (SLL r1 r2 r3) = lift3 SLL (f r1) (f r2) (f r3)"
| "update_register_alu f (SLLI r1 r2 i) = lift2 (\<lambda>a b. SLLI a b i) (f r1) (f r2)"
| "update_register_alu f (SRL r1 r2 r3) = lift3 SRL (f r1) (f r2) (f r3)"
| "update_register_alu f (SRLI r1 r2 i) = lift2 (\<lambda>a b. SRLI a b i) (f r1) (f r2)"
| "update_register_alu f (SUB r1 r2 r3) = lift3 SUB (f r1) (f r2) (f r3)"
| "update_register_alu f (SUBI r1 r2 i) = lift2 (\<lambda>a b. SUBI a b i) (f r1) (f r2)"
| "update_register_alu f (XOR r1 r2 r3) = lift3 XOR (f r1) (f r2) (f r3)"
| "update_register_alu f (XORI r1 r2 i) = lift2 (\<lambda>a b. XORI a b i) (f r1) (f r2)"
| "update_register_alu f (WQOP r1 r2 r3 i) = lift3 (\<lambda>a b c. WQOP a b c i) (f r1) (f r2) (f r3)"
| "update_register_alu f (WQML r1 r2 r3 i) = lift3 (\<lambda>a b c. WQML a b c i) (f r1) (f r2) (f r3)"
| "update_register_alu f (WQDV r1 r2 r3 i) = lift3 (\<lambda>a b c. WQDV a b c i) (f r1) (f r2) (f r3)"
| "update_register_alu f (WQMD r1 r2 r3 r4) = lift4 WQMD (f r1) (f r2) (f r3) (f r4)"
| "update_register_alu f (WQCM r1 r2 r3 i) = lift3 (\<lambda>a b c. WQCM a b c i) (f r1) (f r2) (f r3)"
| "update_register_alu f (WQAM r1 r2 r3 r4) = lift4 WQAM (f r1) (f r2) (f r3) (f r4)"
| "update_register_alu f (WQMM r1 r2 r3 r4) = lift4 WQMM (f r1) (f r2) (f r3) (f r4)"

primrec update_register_control ::
  "(virtual_register \<Rightarrow> virtual_register result) \<Rightarrow> virtual_register control_op \<Rightarrow> virtual_register control_op result" where
  "update_register_control f (JMP r1) = lift1 JMP (f r1)"
| "update_register_control f (JI i) = Inr (JI i)"
| "update_register_control f (JNE r1 r2 r3) = lift3 JNE (f r1) (f r2) (f r3)"
| "update_register_control f (JNEI r1 r2 i) = lift2 (\<lambda>a b. JNEI a b i) (f r1) (f r2)"
| "update_register_control f (JNZI r1 i) = lift1 (\<lambda>a. JNZI a i) (f r1)"
| "update_register_control f (RET r1) = lift1 RET (f r1)"

primrec update_register_memory ::
  "(virtual_register \<Rightarrow> virtual_register result) \<Rightarrow> virtual_register memory_op \<Rightarrow> virtual_register memory_op result" where
  "update_register_memory f (ALOC hp r1) = lift1 (\<lambda>a. ALOC hp a) (f r1)"
| "update_register_memory f (CFEI sp i) = Inr (CFEI sp i)"
| "update_register_memory f (CFSI sp i) = Inr (CFSI sp i)"
| "update_register_memory f (CFE sp r1) = lift1 (\<lambda>a. CFE sp a) (f r1)"
| "update_register_memory f (CFS sp r1) = lift1 (\<lambda>a. CFS sp a) (f r1)"
| "update_register_memory f (LB r1 r2 i) = lift2 (\<lambda>a b. LB a b i) (f r1) (f r2)"
| "update_register_memory f (LW r1 r2 i) = lift2 (\<lambda>a b. LW a b i) (f r1) (f r2)"
| "update_register_memory f (MCL r1 r2) = lift2 MCL (f r1) (f r2)"
| "update_register_memory f (MCLI r1 i) = lift1 (\<lambda>a. MCLI a i) (f r1)"
| "update_register_memory f (MCP r1 r2 r3) = lift3 MCP (f r1) (f r2) (f r3)"
| "update_register_memory f (MCPI r1 r2 i) = lift2 (\<lambda>a b. MCPI a b i) (f r1) (f r2)"
| "update_register_memory f (MEQ r1 r2 r3 r4) = lift4 MEQ (f r1) (f r2) (f r3) (f r4)"
| "update_register_memory f (SB r1 r2 i) = lift2 (\<lambda>a b. SB a b i) (f r1) (f r2)"
| "update_register_memory f (SW r1 r2 i) = lift2 (\<lambda>a b. SW a b i) (f r1) (f r2)"

primrec update_register_contract ::
  "(virtual_register \<Rightarrow> virtual_register result) \<Rightarrow> virtual_register contract_op \<Rightarrow> virtual_register contract_op result" where
  "update_register_contract f (BAL r1 r2 r3) = lift3 BAL (f r1) (f r2) (f r3)"
| "update_register_contract f (BHEI r1) = lift1 BHEI (f r1)"
| "update_register_contract f (BHSH r1 r2) = lift2 BHSH (f r1) (f r2)"
| "update_register_contract f (BURN r1 r2) = lift2 BURN (f r1) (f r2)"
| "update_register_contract f (CALL r1 r2 r3 r4) = lift4 CALL (f r1) (f r2) (f r3) (f r4)"
| "update_register_contract f (CB r1) = lift1 CB (f r1)"
| "update_register_contract f (CCP r1 r2 r3 r4) = lift4 CCP (f r1) (f r2) (f r3) (f r4)"
| "update_register_contract f (CROO r1 r2) = lift2 CROO (f r1) (f r2)"
| "update_register_contract f (CSIZ r1 r2) = lift2 CSIZ (f r1) (f r2)"
| "update_register_contract f (BSIZ r1 r2) = lift2 BSIZ (f r1) (f r2)"
| "update_register_contract f (LDC r1 r2 r3 i0) = lift3 (\<lambda>a b c. LDC a b c i0) (f r1) (f r2) (f r3)"
| "update_register_contract f (BLDD r1 r2 r3 r4) = lift4 BLDD (f r1) (f r2) (f r3) (f r4)"
| "update_register_contract f (LOG r1 r2 r3 r4) = lift4 LOG (f r1) (f r2) (f r3) (f r4)"
| "update_register_contract f (LOGD r1 r2 r3 r4) = lift4 LOGD (f r1) (f r2) (f r3) (f r4)"
| "update_register_contract f (MINT r1 r2) = lift2 MINT (f r1) (f r2)"
| "update_register_contract f (RETD r1 r2) = lift2 RETD (f r1) (f r2)"
| "update_register_contract f (RVRT reg1) = lift1 RVRT (f reg1)"
| "update_register_contract f (SMO r1 r2 r3 r4) = lift4 SMO (f r1) (f r2) (f r3) (f r4)"
| "update_register_contract f (SCWQ r1 r2 r3) = lift3 SCWQ (f r1) (f r2) (f r3)"
| "update_register_contract f (SRW r1 r2 r3) = lift3 SRW (f r1) (f r2) (f r3)"
| "update_register_contract f (SRWQ r1 r2 r3 r4) = lift4 SRWQ (f r1) (f r2) (f r3) (f r4)"
| "update_register_contract f (SWW r1 r2 r3) = lift3 SWW (f r1) (f r2) (f r3)"
| "update_register_contract f (SWWQ r1 r2 r3 r4) = lift4 SWWQ (f r1) (f r2) (f r3) (f r4)"
| "update_register_contract f (TIME r1 r2) = lift2 TIME (f r1) (f r2)"
| "update_register_contract f (TR r1 r2 r3) = lift3 TR (f r1) (f r2) (f r3)"
| "update_register_contract f (TRO r1 r2 r3 r4) = lift4 TRO (f r1) (f r2) (f r3) (f r4)"

primrec update_register_crypto ::
  "(virtual_register \<Rightarrow> virtual_register result) \<Rightarrow> virtual_register crypto_op \<Rightarrow> virtual_register crypto_op result" where
  "update_register_crypto f (ECK1 r1 r2 r3) = lift3 ECK1 (f r1) (f r2) (f r3)"
| "update_register_crypto f (ECR1 r1 r2 r3) = lift3 ECR1 (f r1) (f r2) (f r3)"
| "update_register_crypto f (ED19 r1 r2 r3 r4) = lift4 ED19 (f r1) (f r2) (f r3) (f r4)"
| "update_register_crypto f (K256 r1 r2 r3) = lift3 K256 (f r1) (f r2) (f r3)"
| "update_register_crypto f (S256 r1 r2 r3) = lift3 S256 (f r1) (f r2) (f r3)"
| "update_register_crypto f (ECOP r1 r2 r3 r4) = lift4 ECOP (f r1) (f r2) (f r3) (f r4)"
| "update_register_crypto f (EPAR r1 r2 r3 r4) = lift4 EPAR (f r1) (f r2) (f r3) (f r4)"

primrec update_register_other ::
  "(virtual_register \<Rightarrow> virtual_register result) \<Rightarrow> virtual_register other_op \<Rightarrow> virtual_register other_op result" where
  "update_register_other f (ECAL r1 r2 r3 r4) = lift4 ECAL (f r1) (f r2) (f r3) (f r4)"
| "update_register_other f (FLAG r1) = lift1 FLAG (f r1)"
| "update_register_other f (GM r1 i) = lift1 (\<lambda>a. GM a i) (f r1)"
| "update_register_other f (GTF r1 r2 i) = lift2 (\<lambda>a b. GTF a b i) (f r1) (f r2)"

primrec update_register_nonvm ::
  "(virtual_register \<Rightarrow> virtual_register result) \<Rightarrow> virtual_register nonvm_op \<Rightarrow> virtual_register nonvm_op result" where
  "update_register_nonvm f (BLOB i) = Inr (BLOB i)"
| "update_register_nonvm f ConfigurablesOffsetPlaceholder = Inr ConfigurablesOffsetPlaceholder"
| "update_register_nonvm f DataSectionOffsetPlaceholder = Inr DataSectionOffsetPlaceholder"
| "update_register_nonvm f (LoadDataId r1 i) = lift1 (\<lambda>a. LoadDataId a i) (f r1)"
| "update_register_nonvm f (AddrDataId r1 i) = lift1 (\<lambda>a. AddrDataId a i) (f r1)"
| "update_register_nonvm f Undefined = Inr Undefined"

definition vop_update_register ::
  "(virtual_register \<rightharpoonup> virtual_register) \<Rightarrow> virtual_op \<Rightarrow> virtual_op result" where
  "vop_update_register reg_to_reg_map self =
     (case self of
        Alu op \<Rightarrow> lift1 Alu (update_register_alu (update_reg reg_to_reg_map) op)
      | ControlFlow op \<Rightarrow> lift1 ControlFlow (update_register_control (update_reg reg_to_reg_map) op)
      | Memory op \<Rightarrow> lift1 Memory (update_register_memory (update_reg reg_to_reg_map) op)
      | Contract op \<Rightarrow> lift1 Contract (update_register_contract (update_reg reg_to_reg_map) op)
      | Crypto op \<Rightarrow> lift1 Crypto (update_register_crypto (update_reg reg_to_reg_map) op)
      | Other op \<Rightarrow> lift1 Other (update_register_other (update_reg reg_to_reg_map) op)
      | NonVm op \<Rightarrow> lift1 NonVm (update_register_nonvm (update_reg reg_to_reg_map) op))"

section \<open>Control flow\<close>

text \<open>Of the list of all instructions, only the length is used.\<close>

definition vop_successors :: "virtual_op \<Rightarrow> nat \<Rightarrow> nat \<Rightarrow> nat list result" where
  "vop_successors self index ops_len =
     (if ops_len = 0 then Inl (Panic ''attempt to subtract with overflow'')
      else let next_op = (if index \<ge> ops_len - 1 then [] else [index + 1]) in
        case self of
          Contract (RVRT _) \<Rightarrow> Inr []
        | ControlFlow (JI _) \<Rightarrow> Inl (Panic ''At this stage we shouldn't have jumps in the code.'')
        | ControlFlow (JNEI _ _ _) \<Rightarrow> Inl (Panic ''At this stage we shouldn't have jumps in the code.'')
        | ControlFlow (JNZI _ _) \<Rightarrow> Inl (Panic ''At this stage we shouldn't have jumps in the code.'')
        | _ \<Rightarrow> Inr next_op)"

definition unwrap_immediate :: "'a result \<Rightarrow> 'a result" where
  "unwrap_immediate r = (case r of Inr x \<Rightarrow> Inr x | Inl _ \<Rightarrow> Inl (Panic ''unwrap on an Err value''))"

definition new_offset :: "(u64 \<rightharpoonup> u64) \<Rightarrow> u64 \<Rightarrow> u64 result" where
  "new_offset offset_map i = unwrap_or_panic ''new offset should be valid'' (offset_map i)"

definition vop_update_jump_immediate_values :: "(u64 \<rightharpoonup> u64) \<Rightarrow> virtual_op \<Rightarrow> virtual_op result" where
  "vop_update_jump_immediate_values offset_map self =
     (case self of
        ControlFlow (JI i) \<Rightarrow>
          bindE (new_offset offset_map (ucast (value24 i))) (\<lambda>n.
          bindE (unwrap_immediate (imm24_new n)) (\<lambda>i'. Inr (ControlFlow (JI i'))))
      | ControlFlow (JNEI r1 r2 i) \<Rightarrow>
          bindE (new_offset offset_map (ucast (value12 i))) (\<lambda>n.
          bindE (unwrap_immediate (imm12_new n)) (\<lambda>i'. Inr (ControlFlow (JNEI r1 r2 i'))))
      | ControlFlow (JNZI r1 i) \<Rightarrow>
          bindE (new_offset offset_map (ucast (value18 i))) (\<lambda>n.
          bindE (unwrap_immediate (imm18_new n)) (\<lambda>i'. Inr (ControlFlow (JNZI r1 i'))))
      | _ \<Rightarrow> Inr self)"

end
