(* ===== verification/Asm_Renaming.thy ===== *)
theory Asm_Renaming
  imports Asm_Ops
begin

text \<open>
  What the methods of \<^verbatim>\<open>VirtualOp\<close> have in common: the registers of an instruction are the
  ones it reads and the ones it writes, and renaming changes the operands and nothing else.
  The reference for both are the map and set functions of the datatypes.
\<close>

named_theorems op_group_simps \<open>the per-group facts the lemmas on instructions dispatch to\<close>

lemma btree_set_cong: "set xs = set ys \<Longrightarrow> btree_set xs = btree_set ys"
  by (rule sorted_distinct_set_unique) simp_all

section \<open>The groups\<close>

text \<open>
  Five memory instructions carry the pointer register they change as an operand; it always
  is that constant register.
\<close>

fun implicit_pointer :: "virtual_register memory_op \<Rightarrow> bool" where
  "implicit_pointer (ALOC hp _) \<longleftrightarrow> hp = Constant HeapPointer"
| "implicit_pointer (CFEI sp _) \<longleftrightarrow> sp = Constant StackPointer"
| "implicit_pointer (CFSI sp _) \<longleftrightarrow> sp = Constant StackPointer"
| "implicit_pointer (CFE sp _) \<longleftrightarrow> sp = Constant StackPointer"
| "implicit_pointer (CFS sp _) \<longleftrightarrow> sp = Constant StackPointer"
| "implicit_pointer _ \<longleftrightarrow> True"

definition wf_vop :: "virtual_op \<Rightarrow> bool" where
  "wf_vop op \<longleftrightarrow> (case op of Memory m \<Rightarrow> implicit_pointer m | _ \<Rightarrow> True)"

lemma registers_alu_set [op_group_simps]: "set (registers_alu op) = set_alu_op op"
  by (cases op) auto

lemma use_def_alu: "set_alu_op op = set (use_registers_alu op) \<union> set (def_registers_alu op)"
  by (cases op) auto

lemma use_registers_alu_map [op_group_simps]: "use_registers_alu (map_alu_op h op) = map h (use_registers_alu op)"
  by (cases op) simp_all

lemma def_registers_alu_map [op_group_simps]: "def_registers_alu (map_alu_op h op) = map h (def_registers_alu op)"
  by (cases op) simp_all

lemma update_register_alu_map [op_group_simps]:
  "(\<And>r. r \<in> set_alu_op op \<Longrightarrow> f r = Inr (h r)) \<Longrightarrow> update_register_alu f op = Inr (map_alu_op h op)"
  by (cases op) (simp_all add: lift_defs)

lemma registers_control_set [op_group_simps]: "set (registers_control op) = set_control_op op"
  by (cases op) auto

lemma use_def_control: "set_control_op op = set (use_registers_control op) \<union> set (def_registers_control op)"
  by (cases op) auto

lemma use_registers_control_map [op_group_simps]: "use_registers_control (map_control_op h op) = map h (use_registers_control op)"
  by (cases op) simp_all

lemma def_registers_control_map [op_group_simps]: "def_registers_control (map_control_op h op) = map h (def_registers_control op)"
  by (cases op) simp_all

lemma update_register_control_map [op_group_simps]:
  "(\<And>r. r \<in> set_control_op op \<Longrightarrow> f r = Inr (h r)) \<Longrightarrow> update_register_control f op = Inr (map_control_op h op)"
  by (cases op) (simp_all add: lift_defs)

lemma registers_memory_set [op_group_simps]: "set (registers_memory op) = set_memory_op op"
  by (cases op) auto

lemma use_def_memory: "set_memory_op op = set (use_registers_memory op) \<union> set (def_registers_memory op)"
  by (cases op) auto

lemma use_registers_memory_map [op_group_simps]: "use_registers_memory (map_memory_op h op) = map h (use_registers_memory op)"
  by (cases op) simp_all

lemma def_registers_memory_map [op_group_simps]: "def_registers_memory (map_memory_op h op) = map h (def_registers_memory op)"
  by (cases op) simp_all

lemma update_register_memory_map [op_group_simps]:
  assumes "\<And>r. r \<in> set_memory_op op \<Longrightarrow> f r = Inr (h r)" "\<And>c. h (Constant c) = Constant c"
    and "implicit_pointer op"
  shows "update_register_memory f op = Inr (map_memory_op h op)"
  using assms by (cases op) (simp_all add: lift_defs)

lemma registers_contract_set [op_group_simps]: "set (registers_contract op) = set_contract_op op"
  by (cases op) auto

lemma use_def_contract: "set_contract_op op = set (use_registers_contract op) \<union> set (def_registers_contract op)"
  by (cases op) auto

lemma use_registers_contract_map [op_group_simps]: "use_registers_contract (map_contract_op h op) = map h (use_registers_contract op)"
  by (cases op) simp_all

lemma def_registers_contract_map [op_group_simps]: "def_registers_contract (map_contract_op h op) = map h (def_registers_contract op)"
  by (cases op) simp_all

lemma update_register_contract_map [op_group_simps]:
  "(\<And>r. r \<in> set_contract_op op \<Longrightarrow> f r = Inr (h r)) \<Longrightarrow> update_register_contract f op = Inr (map_contract_op h op)"
  by (cases op) (simp_all add: lift_defs)

lemma registers_crypto_set [op_group_simps]: "set (registers_crypto op) = set_crypto_op op"
  by (cases op) auto

lemma use_def_crypto: "set_crypto_op op = set (use_registers_crypto op) \<union> set (def_registers_crypto op)"
  by (cases op) auto

lemma use_registers_crypto_map [op_group_simps]: "use_registers_crypto (map_crypto_op h op) = map h (use_registers_crypto op)"
  by (cases op) simp_all

lemma def_registers_crypto_map [op_group_simps]: "def_registers_crypto (map_crypto_op h op) = map h (def_registers_crypto op)"
  by (cases op) simp_all

lemma update_register_crypto_map [op_group_simps]:
  "(\<And>r. r \<in> set_crypto_op op \<Longrightarrow> f r = Inr (h r)) \<Longrightarrow> update_register_crypto f op = Inr (map_crypto_op h op)"
  by (cases op) (simp_all add: lift_defs)

lemma registers_other_set [op_group_simps]: "set (registers_other op) = set_other_op op"
  by (cases op) auto

lemma use_def_other: "set_other_op op = set (use_registers_other op) \<union> set (def_registers_other op)"
  by (cases op) auto

lemma use_registers_other_map [op_group_simps]: "use_registers_other (map_other_op h op) = map h (use_registers_other op)"
  by (cases op) simp_all

lemma def_registers_other_map [op_group_simps]: "def_registers_other (map_other_op h op) = map h (def_registers_other op)"
  by (cases op) simp_all

lemma update_register_other_map [op_group_simps]:
  "(\<And>r. r \<in> set_other_op op \<Longrightarrow> f r = Inr (h r)) \<Longrightarrow> update_register_other f op = Inr (map_other_op h op)"
  by (cases op) (simp_all add: lift_defs)

lemma registers_nonvm_set [op_group_simps]: "set (registers_nonvm op) = set_nonvm_op op"
  by (cases op) auto

lemma use_def_nonvm: "set_nonvm_op op = set (use_registers_nonvm op) \<union> set (def_registers_nonvm op)"
  by (cases op) auto

lemma use_registers_nonvm_map [op_group_simps]: "use_registers_nonvm (map_nonvm_op h op) = map h (use_registers_nonvm op)"
  by (cases op) simp_all

lemma def_registers_nonvm_map [op_group_simps]: "def_registers_nonvm (map_nonvm_op h op) = map h (def_registers_nonvm op)"
  by (cases op) simp_all

lemma update_register_nonvm_map [op_group_simps]:
  "(\<And>r. r \<in> set_nonvm_op op \<Longrightarrow> f r = Inr (h r)) \<Longrightarrow> update_register_nonvm f op = Inr (map_nonvm_op h op)"
  by (cases op) (simp_all add: lift_defs)

lemmas use_def_groups = use_def_alu use_def_control use_def_memory use_def_contract use_def_crypto use_def_other use_def_nonvm

section \<open>Instructions\<close>

definition rename_vop :: "(virtual_register \<Rightarrow> virtual_register) \<Rightarrow> virtual_op \<Rightarrow> virtual_op" where
  "rename_vop h op =
     (case op of
        Alu x \<Rightarrow> Alu (map_alu_op h x)
      | ControlFlow x \<Rightarrow> ControlFlow (map_control_op h x)
      | Memory x \<Rightarrow> Memory (map_memory_op h x)
      | Contract x \<Rightarrow> Contract (map_contract_op h x)
      | Crypto x \<Rightarrow> Crypto (map_crypto_op h x)
      | Other x \<Rightarrow> Other (map_other_op h x)
      | NonVm x \<Rightarrow> NonVm (map_nonvm_op h x))"

definition renaming :: "(virtual_register \<rightharpoonup> virtual_register) \<Rightarrow> virtual_register \<Rightarrow> virtual_register" where
  "renaming m r = (case m r of Some s \<Rightarrow> s | None \<Rightarrow> r)"

text \<open>A map that only replaces virtual registers.\<close>

definition virtual_only :: "(virtual_register \<rightharpoonup> virtual_register) \<Rightarrow> bool" where
  "virtual_only m \<longleftrightarrow> (\<forall>c. m (Constant c) = None)"

lemma update_reg_renaming: "virtual_only m \<Longrightarrow> update_reg m r = Inr (renaming m r)"
  by (cases r) (auto simp: update_reg_def renaming_def virtual_only_def split: option.splits)

lemma renaming_Constant: "virtual_only m \<Longrightarrow> renaming m (Constant c) = Constant c"
  by (simp add: renaming_def virtual_only_def)

lemma vop_registers_use_def:
  "set (vop_registers op) = set (vop_use_registers op) \<union> set (vop_def_registers op)"
  by (cases op) (simp_all add: vop_registers_def vop_use_registers_def vop_def_registers_def
      op_group_simps use_def_groups)

lemma vop_update_register_rename:
  assumes "virtual_only m" "wf_vop op"
  shows "vop_update_register m op = Inr (rename_vop (renaming m) op)"
  using assms
  by (cases op) (simp_all add: vop_update_register_def rename_vop_def lift1_def wf_vop_def
      op_group_simps update_reg_renaming renaming_Constant)

lemma rename_use: "set (vop_use_registers (rename_vop h op)) = h ` set (vop_use_registers op)"
  by (cases op) (simp_all add: vop_use_registers_def rename_vop_def op_group_simps)

lemma rename_def: "set (vop_def_registers (rename_vop h op)) = h ` set (vop_def_registers op)"
  by (cases op) (simp_all add: vop_def_registers_def rename_vop_def op_group_simps)

text \<open>
  The registers of an instruction are exactly the ones it reads together with the ones it
  writes, for all 101 instructions.
\<close>

theorem registers_are_used_or_defined:
  "vop_registers op = btree_set (vop_use_registers op @ vop_def_registers op)"
  using vop_registers_use_def [of op] unfolding vop_registers_def
  by (intro btree_set_cong) simp

text \<open>
  (C33) Renaming registers replaces every operand and nothing else: the new instruction has the
  same constructor, reads the images of the registers read and writes the images of the
  registers written, and no panic occurs when only virtual registers are replaced.
\<close>

theorem update_register_renames:
  assumes "virtual_only m" "wf_vop op"
  shows "\<exists>op'. vop_update_register m op = Inr op' \<and> op' = rename_vop (renaming m) op
    \<and> set (vop_use_registers op') = renaming m ` set (vop_use_registers op)
    \<and> set (vop_def_registers op') = renaming m ` set (vop_def_registers op)"
  using vop_update_register_rename [OF assms] rename_use rename_def by blast

theorem update_register_renames_witness:
  "\<exists>op'. vop_update_register [Virtual ''1'' \<mapsto> Virtual ''2''] (Alu (ADD (Virtual ''0'') (Virtual ''1'') (Constant One))) = Inr op'
    \<and> op' = rename_vop (renaming [Virtual ''1'' \<mapsto> Virtual ''2'']) (Alu (ADD (Virtual ''0'') (Virtual ''1'') (Constant One)))
    \<and> set (vop_use_registers op') = renaming [Virtual ''1'' \<mapsto> Virtual ''2''] `
        set (vop_use_registers (Alu (ADD (Virtual ''0'') (Virtual ''1'') (Constant One))))
    \<and> set (vop_def_registers op') = renaming [Virtual ''1'' \<mapsto> Virtual ''2''] `
        set (vop_def_registers (Alu (ADD (Virtual ''0'') (Virtual ''1'') (Constant One))))"
  by (rule update_register_renames) (simp_all add: virtual_only_def wf_vop_def)

end
