(* ===== verification/Asm_Program.thy ===== *)
theory Asm_Program
  imports Asm_Renaming
begin

text \<open>
  \<^verbatim>\<open>asm_lang/mod.rs\<close>: the organizational instructions \<^verbatim>\<open>ControlFlowOp\<close>, with labels
  instead of offsets, and \<^verbatim>\<open>Op\<close>, an instruction of either kind with its comment and its
  source span.
\<close>

section \<open>Organizational instructions\<close>

type_synonym label = nat

datatype 'r control_flow_op =
    Label label
  | Comment
  | Jump label
  | JumpIfNotZero 'r label
  | Call label
  | SaveRetAddr 'r label
  | ConfigurablesOffsetPlaceholder
  | DataSectionOffsetPlaceholder
  | LoadLabel 'r label
  | PushAll label
  | PopAll label

fun cf_registers :: "'r::linorder control_flow_op \<Rightarrow> 'r list" where
  "cf_registers (JumpIfNotZero r1 _) = btree_set [r1]"
| "cf_registers (SaveRetAddr r1 _) = btree_set [r1]"
| "cf_registers (LoadLabel r1 _) = btree_set [r1]"
| "cf_registers _ = []"

fun cf_use_registers :: "'r::linorder control_flow_op \<Rightarrow> 'r list" where
  "cf_use_registers (JumpIfNotZero r1 _) = btree_set [r1]"
| "cf_use_registers _ = []"

fun cf_def_registers :: "'r::linorder control_flow_op \<Rightarrow> 'r list" where
  "cf_def_registers (SaveRetAddr reg _) = btree_set [reg]"
| "cf_def_registers (LoadLabel reg _) = btree_set [reg]"
| "cf_def_registers _ = []"

definition cf_def_const_registers :: "'r control_flow_op \<Rightarrow> virtual_register list" where
  "cf_def_const_registers self = []"

fun cf_update_register :: "('r \<rightharpoonup> 'r) \<Rightarrow> 'r control_flow_op \<Rightarrow> 'r control_flow_op" where
  "cf_update_register m (JumpIfNotZero r1 label) =
     JumpIfNotZero (case m r1 of Some r \<Rightarrow> r | None \<Rightarrow> r1) label"
| "cf_update_register m (SaveRetAddr r1 label) =
     SaveRetAddr (case m r1 of Some r \<Rightarrow> r | None \<Rightarrow> r1) label"
| "cf_update_register m (LoadLabel r1 label) =
     LoadLabel (case m r1 of Some r \<Rightarrow> r | None \<Rightarrow> r1) label"
| "cf_update_register m self = self"

fun is_jump :: "'r control_flow_op \<Rightarrow> bool" where
  "is_jump (Jump _) = True"
| "is_jump _ = False"

definition cf_successors ::
  "'r control_flow_op \<Rightarrow> nat \<Rightarrow> nat \<Rightarrow> (label \<rightharpoonup> nat) \<Rightarrow> nat list result" where
  "cf_successors self index ops_len label_to_index =
     (let next_ops = (if index + 1 < ops_len \<and> \<not> is_jump self then [index + 1] else []) in
      case self of
        Jump jump_label \<Rightarrow>
          bindE (unwrap_or_panic ''no entry found for key'' (label_to_index jump_label))
            (\<lambda>i. Inr (vec_push next_ops i))
      | JumpIfNotZero _ jump_label \<Rightarrow>
          bindE (unwrap_or_panic ''no entry found for key'' (label_to_index jump_label))
            (\<lambda>i. Inr (vec_push next_ops i))
      | _ \<Rightarrow> Inr next_ops)"

section \<open>Instructions of either kind\<close>

text \<open>A span is the text it is cut from with the two ends.\<close>

type_synonym span = "string \<times> nat \<times> nat"

record op =
  opcode :: "virtual_op + virtual_register control_flow_op"
  comment :: string
  owning_span :: "span option"

definition op_registers :: "op \<Rightarrow> virtual_register list" where
  "op_registers self = (case opcode self of Inl virt_op \<Rightarrow> vop_registers virt_op | Inr org_op \<Rightarrow> cf_registers org_op)"

definition op_use_registers :: "op \<Rightarrow> virtual_register list" where
  "op_use_registers self =
     (case opcode self of Inl virt_op \<Rightarrow> vop_use_registers virt_op | Inr org_op \<Rightarrow> cf_use_registers org_op)"

definition op_def_registers :: "op \<Rightarrow> virtual_register list" where
  "op_def_registers self =
     (case opcode self of Inl virt_op \<Rightarrow> vop_def_registers virt_op | Inr org_op \<Rightarrow> cf_def_registers org_op)"

definition op_def_const_registers :: "op \<Rightarrow> virtual_register list" where
  "op_def_const_registers self =
     (case opcode self of
        Inl virt_op \<Rightarrow> vop_def_const_registers virt_op
      | Inr org_op \<Rightarrow> cf_def_const_registers org_op)"

definition op_successors :: "op \<Rightarrow> nat \<Rightarrow> nat \<Rightarrow> (label \<rightharpoonup> nat) \<Rightarrow> nat list result" where
  "op_successors self index ops_len label_to_index =
     (case opcode self of
        Inl virt_op \<Rightarrow> vop_successors virt_op index ops_len
      | Inr org_op \<Rightarrow> cf_successors org_op index ops_len label_to_index)"

definition op_update_register :: "(virtual_register \<rightharpoonup> virtual_register) \<Rightarrow> op \<Rightarrow> op result" where
  "op_update_register reg_to_reg_map self =
     bindE (case opcode self of
              Inl virt_op \<Rightarrow> bindE (vop_update_register reg_to_reg_map virt_op) (\<lambda>v. Inr (Inl v))
            | Inr org_op \<Rightarrow> Inr (Inr (cf_update_register reg_to_reg_map org_op)))
       (\<lambda>oc. Inr \<lparr>opcode = oc, comment = comment self, owning_span = owning_span self\<rparr>)"

section \<open>Lemmas\<close>

lemma op_registers_use_def: "set (op_registers o') = set (op_use_registers o') \<union> set (op_def_registers o')"
proof (cases "opcode o'")
  case (Inl v)
  then show ?thesis
    using vop_registers_use_def [of v]
    by (simp add: op_registers_def op_use_registers_def op_def_registers_def)
next
  case (Inr c)
  then show ?thesis
    by (cases c) (simp_all add: op_registers_def op_use_registers_def op_def_registers_def)
qed

definition wf_op :: "op \<Rightarrow> bool" where
  "wf_op o' \<longleftrightarrow> (case opcode o' of Inl v \<Rightarrow> wf_vop v | Inr _ \<Rightarrow> True)"

lemma cf_update_register_sets:
  "set (cf_use_registers (cf_update_register m c)) = renaming m ` set (cf_use_registers c)"
  "set (cf_def_registers (cf_update_register m c)) = renaming m ` set (cf_def_registers c)"
  by (cases c; simp add: renaming_def)+

lemma op_update_register_sets:
  assumes "virtual_only m" "wf_op o'"
  shows "\<exists>o''. op_update_register m o' = Inr o''
    \<and> set (op_use_registers o'') = renaming m ` set (op_use_registers o')
    \<and> set (op_def_registers o'') = renaming m ` set (op_def_registers o')
    \<and> comment o'' = comment o' \<and> owning_span o'' = owning_span o'"
proof (cases "opcode o'")
  case (Inl v)
  then show ?thesis
    using vop_update_register_rename [OF assms(1), of v] assms(2) rename_use rename_def
    by (simp add: op_update_register_def wf_op_def op_use_registers_def op_def_registers_def)
next
  case (Inr c)
  then show ?thesis
    by (simp add: op_update_register_def op_use_registers_def op_def_registers_def cf_update_register_sets)
qed

text \<open>Successors of an instruction lie within the program, when its labels do.\<close>

lemma op_successors_less:
  assumes "op_successors o' i n labels = Inr ss" "s \<in> set ss" "\<forall>l k. labels l = Some k \<longrightarrow> k < n"
  shows "s < n"
proof (cases "opcode o'")
  case (Inl v)
  then show ?thesis using assms
    by (auto simp: op_successors_def vop_successors_def Let_def split: if_splits virtual_op.splits
        control_op.splits contract_op.splits)
next
  case (Inr c)
  then show ?thesis using assms
    by (auto simp: op_successors_def cf_successors_def Let_def vec_push_def bindE_Inr_iff
        unwrap_or_panic_def split: if_splits control_flow_op.splits option.splits)
qed

end
