(* ===== verification/Asm_Liveness.thy ===== *)
theory Asm_Liveness
  imports Asm_Program
begin

text \<open>
  \<^verbatim>\<open>analyses.rs\<close>: liveness of registers, by iterating the data-flow equations until nothing
  changes. The tables are lists of register sets, one per instruction; an \<^verbatim>\<open>IndexSet\<close> is a
  list in the order of insertion and a \<^verbatim>\<open>BTreeSet\<close> a list in ascending order. The result is
  characterised by paths of the control flow graph.
\<close>

section \<open>Insertion into sets\<close>

text \<open>
  The interface of the two set types the analysis uses: \<^verbatim>\<open>insert\<close> adds the element and keeps
  a set that has it already. \<^verbatim>\<open>insert\<close> also tells whether the element was new.
\<close>

locale set_insert =
  fixes ins :: "'a \<Rightarrow> 'a list \<Rightarrow> 'a list"
  assumes set_ins: "set (ins x s) = insert x (set s)"
    and ins_present: "x \<in> set s \<Longrightarrow> ins x s = s"

fun insert_all :: "('a \<Rightarrow> 'a list \<Rightarrow> 'a list) \<Rightarrow> 'a list \<Rightarrow> 'a list \<times> bool \<Rightarrow> 'a list \<times> bool" where
  "insert_all ins [] (s, modified) = (s, modified)"
| "insert_all ins (x # xs) (s, modified) = insert_all ins xs (ins x s, modified \<or> x \<notin> set s)"

context set_insert
begin

lemma set_insert_all: "set (fst (insert_all ins xs (s, m))) = set s \<union> set xs"
  by (induction xs arbitrary: s m) (auto simp: set_ins)

lemma snd_insert_all: "snd (insert_all ins xs (s, m)) \<longleftrightarrow> m \<or> \<not> set xs \<subseteq> set s"
  by (induction xs arbitrary: s m) (auto simp: set_ins)

lemma insert_all_present: "set xs \<subseteq> set s \<Longrightarrow> fst (insert_all ins xs (s, m)) = s"
  by (induction xs arbitrary: s m) (auto simp: ins_present)

lemma insert_all_eq:
  "insert_all ins xs (s, m) = (s', m') \<Longrightarrow>
     set s' = set s \<union> set xs \<and> (m' \<longleftrightarrow> m \<or> \<not> set xs \<subseteq> set s) \<and> (set xs \<subseteq> set s \<longrightarrow> s' = s)"
  using set_insert_all [of xs s m] snd_insert_all [of xs s m] insert_all_present [of xs s m] by auto

end

interpretation index_set: set_insert push_if_absent
  by unfold_locales (auto simp: push_if_absent_def vec_push_def)

interpretation btree: set_insert "insort_insert :: virtual_register \<Rightarrow> _"
  by unfold_locales (auto simp: set_insort_insert insort_insert_triv)

section \<open>The analysis\<close>

definition label_to_index :: "op list \<Rightarrow> label \<rightharpoonup> nat" where
  "label_to_index ops =
     fold (\<lambda>(idx, o') m. case opcode o' of Inr (Label l) \<Rightarrow> m(l \<mapsto> idx) | _ \<Rightarrow> m)
       (enumerate 0 ops) Map.empty"

definition retained :: "bool \<Rightarrow> virtual_register list \<Rightarrow> virtual_register list" where
  "retained ignore_constant_regs regs = (if ignore_constant_regs then filter is_virtual regs else regs)"

type_synonym live_tables = "virtual_register list list \<times> virtual_register list list"

definition live_op ::
  "bool \<Rightarrow> op list \<Rightarrow> (label \<rightharpoonup> nat) \<Rightarrow> nat \<Rightarrow> live_tables \<times> bool \<Rightarrow> (live_tables \<times> bool) result" where
  "live_op ignore ops labels rev_ix = (\<lambda>((live_in, live_out), modified).
     let o' = ops ! rev_ix;
         op_use = retained ignore (op_use_registers o');
         op_def = retained ignore (op_def_registers o')
     in bindE (op_successors o' rev_ix (length ops) labels) (\<lambda>succs.
        bindE (mapM (\<lambda>s. if s < length live_in then Inr (live_in ! s)
                          else Inl (Panic ''index out of bounds'')) succs) (\<lambda>ins.
        let (out, m1) = insert_all insort_insert (concat ins) (live_out ! rev_ix, False);
            (in1, m2) = insert_all push_if_absent op_use (live_in ! rev_ix, m1);
            (in2, m3) = insert_all push_if_absent (filter (\<lambda>l. l \<notin> set op_def) out) (in1, m2)
        in Inr ((live_in[rev_ix := in2], live_out[rev_ix := out]), modified \<or> m3))))"

text \<open>One turn of the \<^verbatim>\<open>while\<close> loop: the instructions from the last to the first.\<close>

definition live_sweep ::
  "bool \<Rightarrow> op list \<Rightarrow> (label \<rightharpoonup> nat) \<Rightarrow> live_tables \<Rightarrow> (live_tables \<times> bool) result" where
  "live_sweep ignore ops labels tables =
     foldM (live_op ignore ops labels) (rev [0..<length ops]) (tables, False)"

fun live_loop ::
  "nat \<Rightarrow> bool \<Rightarrow> op list \<Rightarrow> (label \<rightharpoonup> nat) \<Rightarrow> live_tables \<Rightarrow> live_tables result" where
  "live_loop 0 ignore ops labels tables = Inl OutOfFuel"
| "live_loop (Suc fuel) ignore ops labels tables =
     bindE (live_sweep ignore ops labels tables) (\<lambda>(tables', modified).
     if modified then live_loop fuel ignore ops labels tables' else Inr tables')"

definition liveness_analysis :: "nat \<Rightarrow> op list \<Rightarrow> bool \<Rightarrow> virtual_register list list result" where
  "liveness_analysis fuel ops ignore_constant_regs =
     bindE (live_loop fuel ignore_constant_regs ops (label_to_index ops)
       (replicate (length ops) [], replicate (length ops) []))
       (\<lambda>(live_in, live_out). Inr live_out)"

section \<open>Liveness by paths\<close>

text \<open>
  The specification: a register is live before an instruction that reads it, and before an
  instruction that does not write it when it is live before a successor.
\<close>

definition use_set :: "bool \<Rightarrow> op list \<Rightarrow> nat \<Rightarrow> virtual_register set" where
  "use_set ignore ops i = set (retained ignore (op_use_registers (ops ! i)))"

definition def_set :: "bool \<Rightarrow> op list \<Rightarrow> nat \<Rightarrow> virtual_register set" where
  "def_set ignore ops i = set (retained ignore (op_def_registers (ops ! i)))"

definition succ_set :: "op list \<Rightarrow> nat \<Rightarrow> nat set" where
  "succ_set ops i =
     (case op_successors (ops ! i) i (length ops) (label_to_index ops) of Inr ss \<Rightarrow> set ss | Inl _ \<Rightarrow> {})"

inductive live_before :: "bool \<Rightarrow> op list \<Rightarrow> nat \<Rightarrow> virtual_register \<Rightarrow> bool" for ignore ops where
  live_used: "r \<in> use_set ignore ops i \<Longrightarrow> live_before ignore ops i r"
| live_passed: "s \<in> succ_set ops i \<Longrightarrow> live_before ignore ops s r \<Longrightarrow> r \<notin> def_set ignore ops i
     \<Longrightarrow> live_before ignore ops i r"

definition live_after :: "bool \<Rightarrow> op list \<Rightarrow> nat \<Rightarrow> virtual_register \<Rightarrow> bool" where
  "live_after ignore ops i r \<longleftrightarrow> (\<exists>s \<in> succ_set ops i. live_before ignore ops s r)"

inductive_cases live_beforeE: "live_before ignore ops i r"

lemma live_before_if_after: "live_after ignore ops i r \<Longrightarrow> r \<notin> def_set ignore ops i \<Longrightarrow> live_before ignore ops i r"
  by (auto simp: live_after_def intro: live_passed)

text \<open>The instructions have successors: no offset jumps, and every label used is defined.\<close>

definition jumps_ok :: "op list \<Rightarrow> bool" where
  "jumps_ok ops \<longleftrightarrow>
     (\<forall>i < length ops. \<not> isl (op_successors (ops ! i) i (length ops) (label_to_index ops)))"

lemma jumps_ok_successors:
  assumes "jumps_ok ops" "i < length ops"
  obtains ss where "op_successors (ops ! i) i (length ops) (label_to_index ops) = Inr ss"
    and "set ss = succ_set ops i"
  using assms unfolding jumps_ok_def succ_set_def isl_def
  by (metis (no_types, lifting) obj_sumE sum.simps(6))

lemma label_to_index_less:
  assumes "label_to_index ops l = Some k"
  shows "k < length ops"
proof -
  have *: "\<forall>l k. fold (\<lambda>(idx, o') m. case opcode o' of Inr (Label l) \<Rightarrow> m(l \<mapsto> idx) | _ \<Rightarrow> m) xs m l = Some k
      \<longrightarrow> k < n"
    if "\<forall>p \<in> set xs. fst p < n" "\<forall>l k. m l = Some k \<longrightarrow> k < n"
    for xs :: "(nat \<times> op) list" and m and n
    using that
  proof (induction xs arbitrary: m)
    case (Cons x xs)
    obtain idx o' where x: "x = (idx, o')" by (cases x)
    let ?m = "case opcode o' of Inr (Label l) \<Rightarrow> m(l \<mapsto> idx) | _ \<Rightarrow> m"
    have "\<forall>l k. ?m l = Some k \<longrightarrow> k < n"
      using Cons.prems x by (auto split: sum.splits control_flow_op.splits if_splits)
    then have "\<forall>l k. fold (\<lambda>(idx, o') m. case opcode o' of Inr (Label l) \<Rightarrow> m(l \<mapsto> idx) | _ \<Rightarrow> m) xs ?m l
        = Some k \<longrightarrow> k < n"
      using Cons.prems(1) by (intro Cons.IH) auto
    then show ?case unfolding x fold_Cons comp_def by simp
  qed simp
  have "\<forall>p \<in> set (enumerate 0 ops). fst p < length ops" by (auto simp: in_set_enumerate_eq)
  then show ?thesis using * [of "enumerate 0 ops" "length ops" Map.empty] assms
    by (simp add: label_to_index_def)
qed

lemma succ_set_less: "s \<in> succ_set ops i \<Longrightarrow> s < length ops"
  unfolding succ_set_def
  by (auto split: sum.splits intro: op_successors_less label_to_index_less)

section \<open>One instruction\<close>

lemma insertion_flags:
  "A1 = T \<union> U \<Longrightarrow> A = A1 \<union> F \<Longrightarrow> (m2 \<longleftrightarrow> m1 \<or> \<not> U \<subseteq> T) \<Longrightarrow> (m3 \<longleftrightarrow> m2 \<or> \<not> F \<subseteq> A1)
     \<Longrightarrow> (m3 \<longleftrightarrow> m1 \<or> \<not> A \<subseteq> T)"
  by blast

text \<open>What a step makes of the tables at its instruction, and when it reports a change.\<close>

lemma live_op_result:
  assumes "jumps_ok ops" "i < length ops" "length tin = length ops" "length tout = length ops"
  shows "\<exists>a b m'. live_op ignore ops (label_to_index ops) i ((tin, tout), m) = Inr ((tin[i := a], tout[i := b]), m')
     \<and> set b = set (tout ! i) \<union> (\<Union>s \<in> succ_set ops i. set (tin ! s))
     \<and> set a = set (tin ! i) \<union> use_set ignore ops i \<union> (set b - def_set ignore ops i)
     \<and> (m' \<longleftrightarrow> m \<or> \<not> set b \<subseteq> set (tout ! i) \<or> \<not> set a \<subseteq> set (tin ! i))
     \<and> (m' \<or> a = tin ! i \<and> b = tout ! i)"
proof -
  obtain ss where ss: "op_successors (ops ! i) i (length ops) (label_to_index ops) = Inr ss"
      "set ss = succ_set ops i"
    by (rule jumps_ok_successors [OF assms(1,2)])
  have "mapM (\<lambda>s. if s < length tin then Inr (tin ! s) else Inl (Panic ''index out of bounds'')) ss
      = Inr (map (\<lambda>s. tin ! s) ss)"
    using ss(2) succ_set_less [of _ ops i] assms(3) by (intro mapM_pure) auto
  note step = ss(1) this
  let ?use = "retained ignore (op_use_registers (ops ! i))"
  let ?def = "retained ignore (op_def_registers (ops ! i))"
  obtain b m1 where b: "insert_all insort_insert (concat (map (\<lambda>s. tin ! s) ss)) (tout ! i, False) = (b, m1)"
    by fastforce
  obtain a1 m2 where a1: "insert_all push_if_absent ?use (tin ! i, m1) = (a1, m2)" by fastforce
  obtain a m3 where a: "insert_all push_if_absent (filter (\<lambda>l. l \<notin> set ?def) b) (a1, m2) = (a, m3)" by fastforce
  have eq: "live_op ignore ops (label_to_index ops) i ((tin, tout), m)
      = Inr ((tin[i := a], tout[i := b]), m \<or> m3)"
    using step b a1 a by (simp add: live_op_def Let_def)
  note B = btree.insert_all_eq [OF b] and A1 = index_set.insert_all_eq [OF a1]
    and A = index_set.insert_all_eq [OF a]
  have out: "set b = set (tout ! i) \<union> (\<Union>s \<in> succ_set ops i. set (tin ! s))"
    using B ss(2) by auto
  have inn: "set a = set (tin ! i) \<union> use_set ignore ops i \<union> (set b - def_set ignore ops i)"
    using A A1 by (auto simp: use_set_def def_set_def)
  have "m1 \<longleftrightarrow> \<not> set b \<subseteq> set (tout ! i)" using B by blast
  moreover have "m3 \<longleftrightarrow> m1 \<or> \<not> set a \<subseteq> set (tin ! i)" 
    by (rule insertion_flags [where U = "set ?use" and ?A1.0 = "set a1" and ?m2.0 = m2
          and F = "set (filter (\<lambda>l. l \<notin> set ?def) b)"]) (use A A1 in simp_all)
  ultimately have flag: "m3 \<longleftrightarrow> \<not> set b \<subseteq> set (tout ! i) \<or> \<not> set a \<subseteq> set (tin ! i)" by blast
  have "a = tin ! i \<and> b = tout ! i" if "\<not> m3" using that A A1 B by blast
  then have same: "(m \<or> m3) \<or> a = tin ! i \<and> b = tout ! i" by blast
  show ?thesis using eq out inn flag same by (intro exI [of _ a] exI [of _ b] exI [of _ "m \<or> m3"]) simp
qed

section \<open>Sweeps\<close>

text \<open>Tables of the right size that hold live registers only.\<close>

definition live_tables_ok :: "bool \<Rightarrow> op list \<Rightarrow> live_tables \<Rightarrow> bool" where
  "live_tables_ok ignore ops t \<longleftrightarrow>
     length (fst t) = length ops \<and> length (snd t) = length ops
   \<and> (\<forall>i < length ops. set (fst t ! i) \<subseteq> {r. live_before ignore ops i r})
   \<and> (\<forall>i < length ops. set (snd t ! i) \<subseteq> {r. live_after ignore ops i r})"

text \<open>The number of entries, which grows with every step that reports a change.\<close>

definition entries :: "live_tables \<Rightarrow> nat" where
  "entries t = sum_list (map (\<lambda>s. card (set s)) (fst t)) + sum_list (map (\<lambda>s. card (set s)) (snd t))"

text \<open>The equations of the analysis at one instruction.\<close>

definition solved_at :: "bool \<Rightarrow> op list \<Rightarrow> live_tables \<Rightarrow> nat \<Rightarrow> bool" where
  "solved_at ignore ops t i \<longleftrightarrow>
     (\<Union>s \<in> succ_set ops i. set (fst t ! s)) \<subseteq> set (snd t ! i)
   \<and> use_set ignore ops i \<union> (set (snd t ! i) - def_set ignore ops i) \<subseteq> set (fst t ! i)"

lemma nth_list_update_all:
  assumes "\<And>j. j < n \<Longrightarrow> P j (xs ! j)" "P i y" "length xs = n"
  shows "\<forall>j < n. P j (xs[i := y] ! j)"
proof (intro allI impI)
  fix j assume "j < n"
  then show "P j (xs[i := y] ! j)" using assms by (cases "i = j") simp_all
qed

lemma sum_list_update_swap:
  fixes f :: "'a \<Rightarrow> nat"
  assumes "i < length xs"
  shows "sum_list (map f xs) + f y = sum_list (map f (xs[i := y])) + f (xs ! i)"
  using assms(1)
proof (induction xs arbitrary: i)
  case (Cons x xs)
  then show ?case by (cases i) fastforce+
qed simp

lemma entries_update:
  assumes "i < length tin" "i < length tout" "set (tin ! i) \<subseteq> set a" "set (tout ! i) \<subseteq> set b"
  shows "entries (tin, tout) \<le> entries (tin[i := a], tout[i := b])"
    and "\<not> set a \<subseteq> set (tin ! i) \<or> \<not> set b \<subseteq> set (tout ! i)
      \<Longrightarrow> entries (tin, tout) < entries (tin[i := a], tout[i := b])"
proof -
  let ?f = "\<lambda>s :: virtual_register list. card (set s)"
  have le: "?f (tin ! i) \<le> ?f a" "?f (tout ! i) \<le> ?f b" using assms(3,4) by (auto intro: card_mono)
  note eqs = sum_list_update_swap [where f = ?f and y = a, OF assms(1)]
    sum_list_update_swap [where f = ?f and y = b, OF assms(2)]
  show "entries (tin, tout) \<le> entries (tin[i := a], tout[i := b])"
    using eqs le unfolding entries_def fst_conv snd_conv by linarith
  assume "\<not> set a \<subseteq> set (tin ! i) \<or> \<not> set b \<subseteq> set (tout ! i)"
  then have "?f (tin ! i) < ?f a \<or> ?f (tout ! i) < ?f b"
    using assms(3,4) by (metis List.finite_set equalityE psubsetI psubset_card_mono)
  then show "entries (tin, tout) < entries (tin[i := a], tout[i := b])"
    using eqs le unfolding entries_def fst_conv snd_conv by linarith
qed

text \<open>One step: the tables stay right, grow when a change is reported, and stay the same and
  satisfy the equations at the instruction otherwise.\<close>

lemma live_op_step:
  assumes "jumps_ok ops" "i < length ops" "live_tables_ok ignore ops t"
  shows "\<exists>t' m'. live_op ignore ops (label_to_index ops) i (t, m) = Inr (t', m')
     \<and> live_tables_ok ignore ops t' \<and> (m \<longrightarrow> m') \<and> entries t \<le> entries t'
     \<and> (\<not> m \<longrightarrow> m' \<longrightarrow> entries t < entries t')
     \<and> (\<not> m' \<longrightarrow> t' = t \<and> solved_at ignore ops t i)"
proof -
  obtain tin tout where t: "t = (tin, tout)" by (cases t)
  have len: "length tin = length ops" "length tout = length ops"
    and live: "\<And>j. j < length ops \<Longrightarrow> set (tin ! j) \<subseteq> {r. live_before ignore ops j r}"
      "\<And>j. j < length ops \<Longrightarrow> set (tout ! j) \<subseteq> {r. live_after ignore ops j r}"
    using assms(3) t by (auto simp: live_tables_ok_def)
  obtain a b m' where step: "live_op ignore ops (label_to_index ops) i ((tin, tout), m)
      = Inr ((tin[i := a], tout[i := b]), m')"
    and b: "set b = set (tout ! i) \<union> (\<Union>s \<in> succ_set ops i. set (tin ! s))"
    and a: "set a = set (tin ! i) \<union> use_set ignore ops i \<union> (set b - def_set ignore ops i)"
    and m': "m' \<longleftrightarrow> m \<or> \<not> set b \<subseteq> set (tout ! i) \<or> \<not> set a \<subseteq> set (tin ! i)"
    and same: "m' \<or> a = tin ! i \<and> b = tout ! i"
    using live_op_result [OF assms(1,2) len, of ignore m] by blast
  have "set b \<subseteq> {r. live_after ignore ops i r}"
    using b live succ_set_less [of _ ops i] assms(2) by (force simp: live_after_def)
  moreover from this have "set a \<subseteq> {r. live_before ignore ops i r}"
    using a live(1) [OF assms(2)] live_before_if_after by (auto intro: live_used)
  ultimately have ok: "live_tables_ok ignore ops (tin[i := a], tout[i := b])"
    using len live unfolding live_tables_ok_def fst_conv snd_conv
    by (intro conjI nth_list_update_all [where P = "\<lambda>j s. set s \<subseteq> {r. live_before ignore ops j r}"]
        nth_list_update_all [where P = "\<lambda>j s. set s \<subseteq> {r. live_after ignore ops j r}"]) auto
  have sub: "set (tin ! i) \<subseteq> set a" "set (tout ! i) \<subseteq> set b" unfolding a b by blast+
  have i: "i < length tin" "i < length tout" using len assms(2) by simp_all
  have grow: "entries t \<le> entries (tin[i := a], tout[i := b])"
    unfolding t by (rule entries_update(1) [OF i sub])
  have more: "entries t < entries (tin[i := a], tout[i := b])" if "m'" "\<not> m"
    unfolding t by (rule entries_update(2) [OF i sub]) (use that m' in blast)
  have "(tin[i := a], tout[i := b]) = t \<and> solved_at ignore ops t i" if "\<not> m'"
    using that same a b t by (auto simp: solved_at_def)
  then show ?thesis using step ok grow more m' t
    by (intro exI [of _ "(tin[i := a], tout[i := b])"] exI [of _ m']) simp
qed

lemma live_sweep_loop:
  assumes "jumps_ok ops" "live_tables_ok ignore ops t" "\<forall>i \<in> set is. i < length ops"
  shows "\<exists>t' m'. foldM (live_op ignore ops (label_to_index ops)) is (t, m) = Inr (t', m')
     \<and> live_tables_ok ignore ops t' \<and> (m \<longrightarrow> m') \<and> entries t \<le> entries t'
     \<and> (\<not> m \<longrightarrow> m' \<longrightarrow> entries t < entries t')
     \<and> (\<not> m' \<longrightarrow> t' = t \<and> (\<forall>i \<in> set is. solved_at ignore ops t i))"
  using assms(2,3)
proof (induction "is" arbitrary: t m)
  case (Cons i "is")
  obtain t1 m1 where s1: "live_op ignore ops (label_to_index ops) i (t, m) = Inr (t1, m1)"
      "live_tables_ok ignore ops t1" "m \<longrightarrow> m1" "entries t \<le> entries t1"
      "\<not> m \<longrightarrow> m1 \<longrightarrow> entries t < entries t1" "\<not> m1 \<longrightarrow> t1 = t \<and> solved_at ignore ops t i"
    using live_op_step [OF assms(1) _ Cons.prems(1), of i m] Cons.prems(2) by auto
  obtain t2 m2 where s2: "foldM (live_op ignore ops (label_to_index ops)) is (t1, m1) = Inr (t2, m2)"
      "live_tables_ok ignore ops t2" "m1 \<longrightarrow> m2" "entries t1 \<le> entries t2"
      "\<not> m1 \<longrightarrow> m2 \<longrightarrow> entries t1 < entries t2"
      "\<not> m2 \<longrightarrow> t2 = t1 \<and> (\<forall>i \<in> set is. solved_at ignore ops t1 i)"
    using Cons.IH [OF s1(2), of m1] Cons.prems(2) by auto
  have "foldM (live_op ignore ops (label_to_index ops)) (i # is) (t, m) = Inr (t2, m2)"
    using s1(1) s2(1) by simp
  moreover have "\<not> m \<longrightarrow> m2 \<longrightarrow> entries t < entries t2"
    using s1(4,5) s2(4,5) by (cases m1) auto
  ultimately show ?case using s1 s2 by (intro exI [of _ t2] exI [of _ m2]) auto
qed simp

lemma live_sweep_ok:
  assumes "jumps_ok ops" "live_tables_ok ignore ops t"
  shows "\<exists>t' m'. live_sweep ignore ops (label_to_index ops) t = Inr (t', m')
    \<and> live_tables_ok ignore ops t' \<and> (m' \<longrightarrow> entries t < entries t')
    \<and> (\<not> m' \<longrightarrow> t' = t \<and> (\<forall>i < length ops. solved_at ignore ops t i))"
proof -
  have "\<forall>i \<in> set (rev [0..<length ops]). i < length ops" by simp
  from live_sweep_loop [OF assms this, of False] obtain t' m' where
    "live_sweep ignore ops (label_to_index ops) t = Inr (t', m')" "live_tables_ok ignore ops t'"
    "m' \<longrightarrow> entries t < entries t'"
    "\<not> m' \<longrightarrow> t' = t \<and> (\<forall>i \<in> set (rev [0..<length ops]). solved_at ignore ops t i)"
    unfolding live_sweep_def by blast
  then show ?thesis by (intro exI [of _ t'] exI [of _ m']) simp
qed

section \<open>The result\<close>

lemma solved_tables_exact:
  assumes "live_tables_ok ignore ops t" "\<forall>i < length ops. solved_at ignore ops t i" "i < length ops"
  shows "set (snd t ! i) = {r. live_after ignore ops i r}"
proof -
  have inn: "r \<in> set (fst t ! j)" if "live_before ignore ops j r" "j < length ops" for j r
    using that
  proof (induction rule: live_before.induct)
    case (live_used r j)
    then show ?case using assms(2) by (auto simp: solved_at_def)
  next
    case (live_passed s j r)
    have "r \<in> set (fst t ! s)" using live_passed succ_set_less by blast
    then have "r \<in> set (snd t ! j)" using assms(2) live_passed unfolding solved_at_def by blast
    then show ?case using assms(2) live_passed unfolding solved_at_def by blast
  qed
  have "{r. live_after ignore ops i r} \<subseteq> set (snd t ! i)"
    using inn succ_set_less assms(2,3) by (force simp: live_after_def solved_at_def)
  with assms(1,3) show ?thesis by (auto simp: live_tables_ok_def)
qed

definition all_registers :: "op list \<Rightarrow> virtual_register set" where
  "all_registers ops = (\<Union>o' \<in> set ops. set (op_registers o'))"

lemma live_before_registers:
  "live_before ignore ops i r \<Longrightarrow> i < length ops \<Longrightarrow> r \<in> all_registers ops"
proof (induction rule: live_before.induct)
  case (live_used r i)
  then have "r \<in> set (op_registers (ops ! i))"
    by (auto simp: use_set_def retained_def op_registers_use_def split: if_splits)
  then show ?case using live_used(2) by (auto simp: all_registers_def)
qed (use succ_set_less in blast)

lemma finite_all_registers: "finite (all_registers ops)"
  by (simp add: all_registers_def)

lemma sum_cards_bound:
  assumes "\<And>i. i < length xs \<Longrightarrow> set (xs ! i) \<subseteq> R" "finite R"
  shows "sum_list (map (\<lambda>s. card (set s)) xs) \<le> length xs * card R"
proof -
  have "\<forall>s \<in> set xs. card (set s) \<le> card R"
    using assms by (metis card_mono in_set_conv_nth)
  then show ?thesis by (induction xs) auto
qed

lemma entries_bound:
  assumes "live_tables_ok ignore ops t"
  shows "entries t \<le> 2 * length ops * card (all_registers ops)"
proof -
  let ?k = "card (all_registers ops)"
  have len: "length (fst t) = length ops" "length (snd t) = length ops"
    using assms by (auto simp: live_tables_ok_def)
  have "set (fst t ! i) \<subseteq> all_registers ops" "set (snd t ! i) \<subseteq> all_registers ops" if i: "i < length ops" for i
  proof -
    have "set (fst t ! i) \<subseteq> {r. live_before ignore ops i r}"
      "set (snd t ! i) \<subseteq> {r. live_after ignore ops i r}"
      using assms i by (simp_all add: live_tables_ok_def)
    moreover have "{r. live_before ignore ops i r} \<subseteq> all_registers ops"
      using live_before_registers i by blast
    moreover have "{r. live_after ignore ops i r} \<subseteq> all_registers ops"
      using live_before_registers succ_set_less unfolding live_after_def by blast
    ultimately show "set (fst t ! i) \<subseteq> all_registers ops" "set (snd t ! i) \<subseteq> all_registers ops" by blast+
  qed
  then have "sum_list (map (\<lambda>s. card (set s)) (fst t)) \<le> length ops * ?k"
    "sum_list (map (\<lambda>s. card (set s)) (snd t)) \<le> length ops * ?k"
    using len sum_cards_bound [OF _ finite_all_registers] by metis+
  then show ?thesis by (simp add: entries_def)
qed

lemma live_loop_exact:
  assumes "live_loop fuel ignore ops (label_to_index ops) t = Inr t'"
    and "jumps_ok ops" "live_tables_ok ignore ops t"
  shows "live_tables_ok ignore ops t' \<and> (\<forall>i < length ops. solved_at ignore ops t' i)"
  using assms(1,3)
proof (induction fuel arbitrary: t)
  case (Suc fuel)
  obtain t1 m where "live_sweep ignore ops (label_to_index ops) t = Inr (t1, m)"
      "live_tables_ok ignore ops t1" "m \<longrightarrow> entries t < entries t1"
      "\<not> m \<longrightarrow> t1 = t \<and> (\<forall>i < length ops. solved_at ignore ops t i)"
    using live_sweep_ok [OF assms(2) Suc.prems(2)] by blast
  with Suc show ?case by (cases m) auto
qed simp

lemma live_loop_total:
  assumes "jumps_ok ops" "live_tables_ok ignore ops t"
    and "2 * length ops * card (all_registers ops) < fuel + entries t"
  shows "\<exists>t'. live_loop fuel ignore ops (label_to_index ops) t = Inr t'"
  using assms(2,3)
proof (induction fuel arbitrary: t)
  case 0
  then show ?case using entries_bound [OF 0(1)] by simp
next
  case (Suc fuel)
  obtain t1 m where s: "live_sweep ignore ops (label_to_index ops) t = Inr (t1, m)"
      "live_tables_ok ignore ops t1" "m \<longrightarrow> entries t < entries t1"
      "\<not> m \<longrightarrow> t1 = t \<and> (\<forall>i < length ops. solved_at ignore ops t i)"
    using live_sweep_ok [OF assms(1) Suc.prems(1)] by blast
  show ?case
  proof (cases m)
    case True
    then have "2 * length ops * card (all_registers ops) < fuel + entries t1" using s(3) Suc.prems(2) by simp
    with Suc.IH [OF s(2)] s(1) True show ?thesis by simp
  qed (use s in simp)
qed

lemma empty_tables_ok: "live_tables_ok ignore ops (replicate (length ops) [], replicate (length ops) [])"
  by (simp add: live_tables_ok_def)

text \<open>
  (C5) Liveness is exact: the analysis returns, for every instruction, precisely the registers
  that some path of the control flow graph reads before any instruction on it writes them.
\<close>

theorem liveness_exact:
  assumes "liveness_analysis fuel ops ignore = Inr live_out" "jumps_ok ops" "i < length ops"
  shows "length live_out = length ops \<and> set (live_out ! i) = {r. live_after ignore ops i r}"
proof -
  obtain t where t: "live_loop fuel ignore ops (label_to_index ops)
      (replicate (length ops) [], replicate (length ops) []) = Inr t" "live_out = snd t"
    using assms(1) by (auto simp: liveness_analysis_def bindE_Inr_iff)
  note ok = live_loop_exact [OF t(1) assms(2) empty_tables_ok]
  then show ?thesis
    using solved_tables_exact [of ignore ops t i] assms(3) t(2) by (simp add: live_tables_ok_def)
qed

text \<open>
  (C32) The iteration ends: the loop makes at most one turn per entry the tables can hold and one
  more, and none of its indexing panics.
\<close>

theorem liveness_terminates:
  assumes "jumps_ok ops" "2 * length ops * card (all_registers ops) < fuel"
  shows "\<exists>live_out. liveness_analysis fuel ops ignore = Inr live_out"
  using live_loop_total [OF assms(1) empty_tables_ok, of fuel ignore] assms(2)
  by (auto simp: liveness_analysis_def)

text \<open>A loop that counts a register down and then returns another one.\<close>

definition plain_op :: "virtual_op + virtual_register control_flow_op \<Rightarrow> op" where
  "plain_op oc = \<lparr>opcode = oc, comment = [], owning_span = None\<rparr>"

definition countdown :: "op list" where
  "countdown =
     [plain_op (Inr (Label 0)),
      plain_op (Inl (Alu (SUB (Virtual ''1'') (Virtual ''1'') (Constant One)))),
      plain_op (Inl (Alu (ADD (Virtual ''3'') (Virtual ''2'') (Virtual ''1'')))),
      plain_op (Inr (JumpIfNotZero (Virtual ''1'') 0)),
      plain_op (Inl (ControlFlow (RET (Virtual ''2''))))]"

lemma countdown_ok: "jumps_ok countdown"
  by code_simp

lemma countdown_live:
  "liveness_analysis 10 countdown True =
     Inr [[Virtual ''1'', Virtual ''2''], [Virtual ''1'', Virtual ''2''], [Virtual ''1'', Virtual ''2''],
          [Virtual ''1'', Virtual ''2''], []]"
  by code_simp

theorem liveness_exact_witness:
  "length [[Virtual ''1'', Virtual ''2''], [Virtual ''1'', Virtual ''2''], [Virtual ''1'', Virtual ''2''],
          [Virtual ''1'', Virtual ''2''], []] = length countdown
   \<and> set ([[Virtual ''1'', Virtual ''2''], [Virtual ''1'', Virtual ''2''], [Virtual ''1'', Virtual ''2''],
          [Virtual ''1'', Virtual ''2''], []] ! 2) = {r. live_after True countdown 2 r}"
  by (rule liveness_exact [OF countdown_live countdown_ok]) code_simp

lemma countdown_bound: "2 * length countdown * card (all_registers countdown) < 50"
  by code_simp

theorem liveness_terminates_witness: "\<exists>live_out. liveness_analysis 50 countdown False = Inr live_out"
  by (rule liveness_terminates [OF countdown_ok]) (rule countdown_bound)

end
