(* ===== verification/Asm_Allocated.thy ===== *)
theory Asm_Allocated
  imports Asm_Liveness
begin

text \<open>
  Instructions after register allocation, \<^verbatim>\<open>AllocatedOpcode\<close> of \<^verbatim>\<open>allocated_ops.rs\<close>, the
  register pool of \<^verbatim>\<open>register_allocator.rs\<close>, and \<^verbatim>\<open>allocate_registers\<close>, which replaces the
  virtual registers of an instruction by the ones of the pool.
\<close>

section \<open>Allocated instructions\<close>

text \<open>The groups that differ from \<^verbatim>\<open>VirtualOp\<close>: more jumps, implicit stack and heap pointers.\<close>

datatype (plugins only: code) 'r alloc_control_op =
    JMP 'r
  | JI imm24
  | JNE 'r 'r 'r
  | JNEI 'r 'r imm12
  | JNZI 'r imm18
  | JMPB 'r imm18
  | JMPF 'r imm18
  | JNZB 'r 'r imm12
  | JNZF 'r 'r imm12
  | RET 'r

datatype (plugins only: code) 'r alloc_memory_op =
    ALOC 'r
  | CFEI imm24
  | CFSI imm24
  | CFE 'r
  | CFS 'r
  | LB 'r 'r imm12
  | LW 'r 'r imm12
  | MCL 'r 'r
  | MCLI 'r imm18
  | MCP 'r 'r 'r
  | MCPI 'r 'r imm12
  | MEQ 'r 'r 'r 'r
  | PSHH imm24
  | PSHL imm24
  | POPH imm24
  | POPL imm24
  | SB 'r 'r imm12
  | SW 'r 'r imm12

datatype allocated_opcode =
    AAlu "allocated_register alu_op"
  | AControlFlow "allocated_register alloc_control_op"
  | AMemory "allocated_register alloc_memory_op"
  | AContract "allocated_register contract_op"
  | ACrypto "allocated_register crypto_op"
  | AOther "allocated_register other_op"
  | ANonVm "allocated_register nonvm_op"

text \<open>The derived order of allocated registers.\<close>

instantiation allocated_register :: linorder
begin

fun less_eq_allocated_register :: "allocated_register \<Rightarrow> allocated_register \<Rightarrow> bool" where
  "less_eq_allocated_register (Allocated x) (Allocated y) \<longleftrightarrow> x \<le> y"
| "less_eq_allocated_register (Allocated x) (AllocatedConstant d) \<longleftrightarrow> True"
| "less_eq_allocated_register (AllocatedConstant c) (Allocated y) \<longleftrightarrow> False"
| "less_eq_allocated_register (AllocatedConstant c) (AllocatedConstant d) \<longleftrightarrow> c \<le> d"

definition less_allocated_register :: "allocated_register \<Rightarrow> allocated_register \<Rightarrow> bool" where
  "less_allocated_register r s \<longleftrightarrow> r \<le> s \<and> \<not> s \<le> r"

instance
proof
  fix r s t :: allocated_register
  show "r < s \<longleftrightarrow> r \<le> s \<and> \<not> s \<le> r" by (simp add: less_allocated_register_def)
  show "r \<le> r" by (cases r) auto
  show "r \<le> s \<Longrightarrow> s \<le> t \<Longrightarrow> r \<le> t" by (cases r; cases s; cases t) auto
  show "r \<le> s \<Longrightarrow> s \<le> r \<Longrightarrow> r = s" by (cases r; cases s) auto
  show "r \<le> s \<or> s \<le> r" by (cases r; cases s) auto
qed

end

primrec alloc_def_registers_alu :: "'r alu_op \<Rightarrow> 'r list" where
  "alloc_def_registers_alu (ADD r1 _ _) = [r1]"
| "alloc_def_registers_alu (ADDI r1 _ _) = [r1]"
| "alloc_def_registers_alu (AND r1 _ _) = [r1]"
| "alloc_def_registers_alu (ANDI r1 _ _) = [r1]"
| "alloc_def_registers_alu (DIV r1 _ _) = [r1]"
| "alloc_def_registers_alu (DIVI r1 _ _) = [r1]"
| "alloc_def_registers_alu (EQ r1 _ _) = [r1]"
| "alloc_def_registers_alu (EXP r1 _ _) = [r1]"
| "alloc_def_registers_alu (EXPI r1 _ _) = [r1]"
| "alloc_def_registers_alu (GT r1 _ _) = [r1]"
| "alloc_def_registers_alu (LT r1 _ _) = [r1]"
| "alloc_def_registers_alu (MLOG r1 _ _) = [r1]"
| "alloc_def_registers_alu (MOD r1 _ _) = [r1]"
| "alloc_def_registers_alu (MODI r1 _ _) = [r1]"
| "alloc_def_registers_alu (MOVE r1 _) = [r1]"
| "alloc_def_registers_alu (MOVI r1 _) = [r1]"
| "alloc_def_registers_alu (MROO r1 _ _) = [r1]"
| "alloc_def_registers_alu (MUL r1 _ _) = [r1]"
| "alloc_def_registers_alu (MULI r1 _ _) = [r1]"
| "alloc_def_registers_alu NOOP = []"
| "alloc_def_registers_alu (NOT r1 _) = [r1]"
| "alloc_def_registers_alu (OR r1 _ _) = [r1]"
| "alloc_def_registers_alu (ORI r1 _ _) = [r1]"
| "alloc_def_registers_alu (SLL r1 _ _) = [r1]"
| "alloc_def_registers_alu (SLLI r1 _ _) = [r1]"
| "alloc_def_registers_alu (SRL r1 _ _) = [r1]"
| "alloc_def_registers_alu (SRLI r1 _ _) = [r1]"
| "alloc_def_registers_alu (SUB r1 _ _) = [r1]"
| "alloc_def_registers_alu (SUBI r1 _ _) = [r1]"
| "alloc_def_registers_alu (XOR r1 _ _) = [r1]"
| "alloc_def_registers_alu (XORI r1 _ _) = [r1]"
| "alloc_def_registers_alu (WQOP _ _ _ _) = []"
| "alloc_def_registers_alu (WQML _ _ _ _) = []"
| "alloc_def_registers_alu (WQDV _ _ _ _) = []"
| "alloc_def_registers_alu (WQMD _ _ _ _) = []"
| "alloc_def_registers_alu (WQCM r1 _ _ _) = [r1]"
| "alloc_def_registers_alu (WQAM _ _ _ _) = []"
| "alloc_def_registers_alu (WQMM _ _ _ _) = []"

primrec alloc_def_registers_control :: "'r alloc_control_op \<Rightarrow> 'r list" where
  "alloc_def_registers_control (alloc_control_op.JMP _) = []"
| "alloc_def_registers_control (alloc_control_op.JI _) = []"
| "alloc_def_registers_control (alloc_control_op.JNE _ _ _) = []"
| "alloc_def_registers_control (alloc_control_op.JNEI _ _ _) = []"
| "alloc_def_registers_control (alloc_control_op.JNZI _ _) = []"
| "alloc_def_registers_control (alloc_control_op.JMPB _ _) = []"
| "alloc_def_registers_control (alloc_control_op.JMPF _ _) = []"
| "alloc_def_registers_control (alloc_control_op.JNZB _ _ _) = []"
| "alloc_def_registers_control (alloc_control_op.JNZF _ _ _) = []"
| "alloc_def_registers_control (alloc_control_op.RET _) = []"

primrec alloc_def_registers_memory :: "'r alloc_memory_op \<Rightarrow> 'r list result" where
  "alloc_def_registers_memory (alloc_memory_op.ALOC _) = Inr []"
| "alloc_def_registers_memory (alloc_memory_op.CFEI _) = Inr []"
| "alloc_def_registers_memory (alloc_memory_op.CFSI _) = Inr []"
| "alloc_def_registers_memory (alloc_memory_op.CFE _) = Inr []"
| "alloc_def_registers_memory (alloc_memory_op.CFS _) = Inr []"
| "alloc_def_registers_memory (alloc_memory_op.LB r1 _ _) = Inr [r1]"
| "alloc_def_registers_memory (alloc_memory_op.LW r1 _ _) = Inr [r1]"
| "alloc_def_registers_memory (alloc_memory_op.MCL _ _) = Inr []"
| "alloc_def_registers_memory (alloc_memory_op.MCLI _ _) = Inr []"
| "alloc_def_registers_memory (alloc_memory_op.MCP _ _ _) = Inr []"
| "alloc_def_registers_memory (alloc_memory_op.MCPI _ _ _) = Inr []"
| "alloc_def_registers_memory (alloc_memory_op.MEQ r1 _ _ _) = Inr [r1]"
| "alloc_def_registers_memory (alloc_memory_op.PSHH _) = Inl (Panic ''Cannot determine defined registers for register PUSH/POP instructions'')"
| "alloc_def_registers_memory (alloc_memory_op.PSHL _) = Inl (Panic ''Cannot determine defined registers for register PUSH/POP instructions'')"
| "alloc_def_registers_memory (alloc_memory_op.POPH _) = Inl (Panic ''Cannot determine defined registers for register PUSH/POP instructions'')"
| "alloc_def_registers_memory (alloc_memory_op.POPL _) = Inl (Panic ''Cannot determine defined registers for register PUSH/POP instructions'')"
| "alloc_def_registers_memory (alloc_memory_op.SB _ _ _) = Inr []"
| "alloc_def_registers_memory (alloc_memory_op.SW _ _ _) = Inr []"

primrec alloc_def_registers_contract :: "'r contract_op \<Rightarrow> 'r list" where
  "alloc_def_registers_contract (BAL r1 _ _) = [r1]"
| "alloc_def_registers_contract (BHEI r1) = [r1]"
| "alloc_def_registers_contract (BHSH _ _) = []"
| "alloc_def_registers_contract (BURN _ _) = []"
| "alloc_def_registers_contract (CALL _ _ _ _) = []"
| "alloc_def_registers_contract (CB _) = []"
| "alloc_def_registers_contract (CCP _ _ _ _) = []"
| "alloc_def_registers_contract (CROO _ _) = []"
| "alloc_def_registers_contract (CSIZ r1 _) = [r1]"
| "alloc_def_registers_contract (BSIZ r1 _) = [r1]"
| "alloc_def_registers_contract (LDC _ _ _ _) = []"
| "alloc_def_registers_contract (BLDD _ _ _ _) = []"
| "alloc_def_registers_contract (LOG _ _ _ _) = []"
| "alloc_def_registers_contract (LOGD _ _ _ _) = []"
| "alloc_def_registers_contract (MINT _ _) = []"
| "alloc_def_registers_contract (RETD _ _) = []"
| "alloc_def_registers_contract (RVRT _) = []"
| "alloc_def_registers_contract (SMO _ _ _ _) = []"
| "alloc_def_registers_contract (SCWQ _ r2 _) = [r2]"
| "alloc_def_registers_contract (SRW r1 r2 _) = [r1, r2]"
| "alloc_def_registers_contract (SRWQ _ r2 _ _) = [r2]"
| "alloc_def_registers_contract (SWW _ r2 _) = [r2]"
| "alloc_def_registers_contract (SWWQ _ r2 _ _) = [r2]"
| "alloc_def_registers_contract (TIME r1 _) = [r1]"
| "alloc_def_registers_contract (TR _ _ _) = []"
| "alloc_def_registers_contract (TRO _ _ _ _) = []"

primrec alloc_def_registers_crypto :: "'r crypto_op \<Rightarrow> 'r list" where
  "alloc_def_registers_crypto (ECK1 _ _ _) = []"
| "alloc_def_registers_crypto (ECR1 _ _ _) = []"
| "alloc_def_registers_crypto (ED19 _ _ _ _) = []"
| "alloc_def_registers_crypto (K256 _ _ _) = []"
| "alloc_def_registers_crypto (S256 _ _ _) = []"
| "alloc_def_registers_crypto (ECOP _ _ _ _) = []"
| "alloc_def_registers_crypto (EPAR r1 _ _ _) = [r1]"

primrec alloc_def_registers_other :: "'r other_op \<Rightarrow> 'r list" where
  "alloc_def_registers_other (ECAL _ _ _ _) = []"
| "alloc_def_registers_other (FLAG _) = []"
| "alloc_def_registers_other (GM r1 _) = [r1]"
| "alloc_def_registers_other (GTF r1 _ _) = [r1]"

primrec alloc_def_registers_nonvm :: "'r nonvm_op \<Rightarrow> 'r list" where
  "alloc_def_registers_nonvm (nonvm_op.BLOB _) = []"
| "alloc_def_registers_nonvm nonvm_op.ConfigurablesOffsetPlaceholder = []"
| "alloc_def_registers_nonvm nonvm_op.DataSectionOffsetPlaceholder = []"
| "alloc_def_registers_nonvm (nonvm_op.LoadDataId r1 _) = [r1]"
| "alloc_def_registers_nonvm (nonvm_op.AddrDataId r1 _) = [r1]"
| "alloc_def_registers_nonvm nonvm_op.Undefined = []"

definition alloc_def_registers :: "allocated_opcode \<Rightarrow> allocated_register list result" where
  "alloc_def_registers self =
     bindE (case self of
        AAlu op \<Rightarrow> Inr (alloc_def_registers_alu op)
      | AControlFlow op \<Rightarrow> Inr (alloc_def_registers_control op)
      | AMemory op \<Rightarrow> alloc_def_registers_memory op
      | AContract op \<Rightarrow> Inr (alloc_def_registers_contract op)
      | ACrypto op \<Rightarrow> Inr (alloc_def_registers_crypto op)
      | AOther op \<Rightarrow> Inr (alloc_def_registers_other op)
      | ANonVm op \<Rightarrow> Inr (alloc_def_registers_nonvm op))
       (\<lambda>regs. Inr (btree_set regs))"

section \<open>The register pool\<close>

record register_allocation_status =
  status_reg :: allocated_register
  used_by :: "virtual_register list"

type_synonym register_pool = "register_allocation_status list"

definition pool_init :: register_pool where
  "pool_init = map (\<lambda>x. \<lparr>status_reg = Allocated (of_nat x), used_by = []\<rparr>) [0..<unat NUM_ALLOCATABLE_REGISTERS]"

definition get_register :: "register_pool \<Rightarrow> virtual_register \<Rightarrow> allocated_register option" where
  "get_register pool virtual_register =
     map_option status_reg (find (\<lambda>status. virtual_register \<in> set (used_by status)) pool)"

section \<open>Allocating the registers of an instruction\<close>

definition lookup_register :: "register_pool \<Rightarrow> virtual_register \<Rightarrow> allocated_register option" where
  "lookup_register pool x =
     (case x of Constant c \<Rightarrow> Some (AllocatedConstant c) | Virtual _ \<Rightarrow> get_register pool x)"

text \<open>The map from the registers of an instruction; it is missing when one has no register.\<close>

definition register_mapping ::
  "register_pool \<Rightarrow> virtual_register list \<Rightarrow> (virtual_register \<rightharpoonup> allocated_register) result" where
  "register_mapping pool regs =
     bindE (mapM (\<lambda>x. case lookup_register pool x of
               Some r \<Rightarrow> Inr (x, r)
             | None \<Rightarrow> Inl (Panic ''The allocator cannot resolve a register mapping for this program.'')) regs)
       (\<lambda>o'. Inr (map_of o'))"

definition map_reg ::
  "(virtual_register \<rightharpoonup> allocated_register) \<Rightarrow> virtual_register \<Rightarrow> allocated_register result" where
  "map_reg mapping reg = unwrap_or_panic ''called unwrap on a None value'' (mapping reg)"

text \<open>The argument \<open>f\<close> of the group functions is \<^verbatim>\<open>map_reg(&mapping, _)\<close>.\<close>

primrec allocate_registers_alu ::
  "(virtual_register \<Rightarrow> allocated_register result) \<Rightarrow> virtual_register alu_op \<Rightarrow> allocated_register alu_op result" where
  "allocate_registers_alu f (ADD reg1 reg2 reg3) = lift3 ADD (f reg1) (f reg2) (f reg3)"
| "allocate_registers_alu f (ADDI reg1 reg2 imm) = lift2 (\<lambda>a b. ADDI a b imm) (f reg1) (f reg2)"
| "allocate_registers_alu f (AND reg1 reg2 reg3) = lift3 AND (f reg1) (f reg2) (f reg3)"
| "allocate_registers_alu f (ANDI reg1 reg2 imm) = lift2 (\<lambda>a b. ANDI a b imm) (f reg1) (f reg2)"
| "allocate_registers_alu f (DIV reg1 reg2 reg3) = lift3 DIV (f reg1) (f reg2) (f reg3)"
| "allocate_registers_alu f (DIVI reg1 reg2 imm) = lift2 (\<lambda>a b. DIVI a b imm) (f reg1) (f reg2)"
| "allocate_registers_alu f (EQ reg1 reg2 reg3) = lift3 EQ (f reg1) (f reg2) (f reg3)"
| "allocate_registers_alu f (EXP reg1 reg2 reg3) = lift3 EXP (f reg1) (f reg2) (f reg3)"
| "allocate_registers_alu f (EXPI reg1 reg2 imm) = lift2 (\<lambda>a b. EXPI a b imm) (f reg1) (f reg2)"
| "allocate_registers_alu f (GT reg1 reg2 reg3) = lift3 GT (f reg1) (f reg2) (f reg3)"
| "allocate_registers_alu f (LT reg1 reg2 reg3) = lift3 LT (f reg1) (f reg2) (f reg3)"
| "allocate_registers_alu f (MLOG reg1 reg2 reg3) = lift3 MLOG (f reg1) (f reg2) (f reg3)"
| "allocate_registers_alu f (MOD reg1 reg2 reg3) = lift3 MOD (f reg1) (f reg2) (f reg3)"
| "allocate_registers_alu f (MODI reg1 reg2 imm) = lift2 (\<lambda>a b. MODI a b imm) (f reg1) (f reg2)"
| "allocate_registers_alu f (MOVE reg1 reg2) = lift2 MOVE (f reg1) (f reg2)"
| "allocate_registers_alu f (MOVI reg1 imm) = lift1 (\<lambda>a. MOVI a imm) (f reg1)"
| "allocate_registers_alu f (MROO reg1 reg2 reg3) = lift3 MROO (f reg1) (f reg2) (f reg3)"
| "allocate_registers_alu f (MUL reg1 reg2 reg3) = lift3 MUL (f reg1) (f reg2) (f reg3)"
| "allocate_registers_alu f (MULI reg1 reg2 imm) = lift2 (\<lambda>a b. MULI a b imm) (f reg1) (f reg2)"
| "allocate_registers_alu f NOOP = Inr NOOP"
| "allocate_registers_alu f (NOT reg1 reg2) = lift2 NOT (f reg1) (f reg2)"
| "allocate_registers_alu f (OR reg1 reg2 reg3) = lift3 OR (f reg1) (f reg2) (f reg3)"
| "allocate_registers_alu f (ORI reg1 reg2 imm) = lift2 (\<lambda>a b. ORI a b imm) (f reg1) (f reg2)"
| "allocate_registers_alu f (SLL reg1 reg2 reg3) = lift3 SLL (f reg1) (f reg2) (f reg3)"
| "allocate_registers_alu f (SLLI reg1 reg2 imm) = lift2 (\<lambda>a b. SLLI a b imm) (f reg1) (f reg2)"
| "allocate_registers_alu f (SRL reg1 reg2 reg3) = lift3 SRL (f reg1) (f reg2) (f reg3)"
| "allocate_registers_alu f (SRLI reg1 reg2 imm) = lift2 (\<lambda>a b. SRLI a b imm) (f reg1) (f reg2)"
| "allocate_registers_alu f (SUB reg1 reg2 reg3) = lift3 SUB (f reg1) (f reg2) (f reg3)"
| "allocate_registers_alu f (SUBI reg1 reg2 imm) = lift2 (\<lambda>a b. SUBI a b imm) (f reg1) (f reg2)"
| "allocate_registers_alu f (XOR reg1 reg2 reg3) = lift3 XOR (f reg1) (f reg2) (f reg3)"
| "allocate_registers_alu f (XORI reg1 reg2 imm) = lift2 (\<lambda>a b. XORI a b imm) (f reg1) (f reg2)"
| "allocate_registers_alu f (WQOP reg1 reg2 reg3 imm) = lift3 (\<lambda>a b c. WQOP a b c imm) (f reg1) (f reg2) (f reg3)"
| "allocate_registers_alu f (WQML reg1 reg2 reg3 imm) = lift3 (\<lambda>a b c. WQML a b c imm) (f reg1) (f reg2) (f reg3)"
| "allocate_registers_alu f (WQDV reg1 reg2 reg3 imm) = lift3 (\<lambda>a b c. WQDV a b c imm) (f reg1) (f reg2) (f reg3)"
| "allocate_registers_alu f (WQMD reg1 reg2 reg3 reg4) = lift4 WQMD (f reg1) (f reg2) (f reg3) (f reg4)"
| "allocate_registers_alu f (WQCM reg1 reg2 reg3 imm) = lift3 (\<lambda>a b c. WQCM a b c imm) (f reg1) (f reg2) (f reg3)"
| "allocate_registers_alu f (WQAM reg1 reg2 reg3 reg4) = lift4 WQAM (f reg1) (f reg2) (f reg3) (f reg4)"
| "allocate_registers_alu f (WQMM reg1 reg2 reg3 reg4) = lift4 WQMM (f reg1) (f reg2) (f reg3) (f reg4)"

primrec allocate_registers_control ::
  "(virtual_register \<Rightarrow> allocated_register result) \<Rightarrow> virtual_register control_op \<Rightarrow> allocated_register alloc_control_op result" where
  "allocate_registers_control f (control_op.JMP reg1) = lift1 alloc_control_op.JMP (f reg1)"
| "allocate_registers_control f (control_op.JI imm) = Inr (alloc_control_op.JI imm)"
| "allocate_registers_control f (control_op.JNE reg1 reg2 reg3) = lift3 alloc_control_op.JNE (f reg1) (f reg2) (f reg3)"
| "allocate_registers_control f (control_op.JNEI reg1 reg2 imm) = lift2 (\<lambda>a b. alloc_control_op.JNEI a b imm) (f reg1) (f reg2)"
| "allocate_registers_control f (control_op.JNZI reg1 imm) = lift1 (\<lambda>a. alloc_control_op.JNZI a imm) (f reg1)"
| "allocate_registers_control f (control_op.RET reg) = lift1 alloc_control_op.RET (f reg)"

primrec allocate_registers_memory ::
  "(virtual_register \<Rightarrow> allocated_register result) \<Rightarrow> virtual_register memory_op \<Rightarrow> allocated_register alloc_memory_op result" where
  "allocate_registers_memory f (memory_op.ALOC _ reg) = lift1 alloc_memory_op.ALOC (f reg)"
| "allocate_registers_memory f (memory_op.CFEI _ imm) = Inr (alloc_memory_op.CFEI imm)"
| "allocate_registers_memory f (memory_op.CFSI _ imm) = Inr (alloc_memory_op.CFSI imm)"
| "allocate_registers_memory f (memory_op.CFE _ reg) = lift1 alloc_memory_op.CFE (f reg)"
| "allocate_registers_memory f (memory_op.CFS _ reg) = lift1 alloc_memory_op.CFS (f reg)"
| "allocate_registers_memory f (memory_op.LB reg1 reg2 imm) = lift2 (\<lambda>a b. alloc_memory_op.LB a b imm) (f reg1) (f reg2)"
| "allocate_registers_memory f (memory_op.LW reg1 reg2 imm) = lift2 (\<lambda>a b. alloc_memory_op.LW a b imm) (f reg1) (f reg2)"
| "allocate_registers_memory f (memory_op.MCL reg1 reg2) = lift2 alloc_memory_op.MCL (f reg1) (f reg2)"
| "allocate_registers_memory f (memory_op.MCLI reg1 imm) = lift1 (\<lambda>a. alloc_memory_op.MCLI a imm) (f reg1)"
| "allocate_registers_memory f (memory_op.MCP reg1 reg2 reg3) = lift3 alloc_memory_op.MCP (f reg1) (f reg2) (f reg3)"
| "allocate_registers_memory f (memory_op.MCPI reg1 reg2 imm) = lift2 (\<lambda>a b. alloc_memory_op.MCPI a b imm) (f reg1) (f reg2)"
| "allocate_registers_memory f (memory_op.MEQ reg1 reg2 reg3 reg4) = lift4 alloc_memory_op.MEQ (f reg1) (f reg2) (f reg3) (f reg4)"
| "allocate_registers_memory f (memory_op.SB reg1 reg2 imm) = lift2 (\<lambda>a b. alloc_memory_op.SB a b imm) (f reg1) (f reg2)"
| "allocate_registers_memory f (memory_op.SW reg1 reg2 imm) = lift2 (\<lambda>a b. alloc_memory_op.SW a b imm) (f reg1) (f reg2)"

primrec allocate_registers_contract ::
  "(virtual_register \<Rightarrow> allocated_register result) \<Rightarrow> virtual_register contract_op \<Rightarrow> allocated_register contract_op result" where
  "allocate_registers_contract f (BAL reg1 reg2 reg3) = lift3 BAL (f reg1) (f reg2) (f reg3)"
| "allocate_registers_contract f (BHEI reg1) = lift1 BHEI (f reg1)"
| "allocate_registers_contract f (BHSH reg1 reg2) = lift2 BHSH (f reg1) (f reg2)"
| "allocate_registers_contract f (BURN reg1 reg2) = lift2 BURN (f reg1) (f reg2)"
| "allocate_registers_contract f (CALL reg1 reg2 reg3 reg4) = lift4 CALL (f reg1) (f reg2) (f reg3) (f reg4)"
| "allocate_registers_contract f (CB reg1) = lift1 CB (f reg1)"
| "allocate_registers_contract f (CCP reg1 reg2 reg3 reg4) = lift4 CCP (f reg1) (f reg2) (f reg3) (f reg4)"
| "allocate_registers_contract f (CROO reg1 reg2) = lift2 CROO (f reg1) (f reg2)"
| "allocate_registers_contract f (CSIZ reg1 reg2) = lift2 CSIZ (f reg1) (f reg2)"
| "allocate_registers_contract f (BSIZ reg1 reg2) = lift2 BSIZ (f reg1) (f reg2)"
| "allocate_registers_contract f (LDC reg1 reg2 reg3 imm0) = lift3 (\<lambda>a b c. LDC a b c imm0) (f reg1) (f reg2) (f reg3)"
| "allocate_registers_contract f (BLDD reg1 reg2 reg3 reg4) = lift4 BLDD (f reg1) (f reg2) (f reg3) (f reg4)"
| "allocate_registers_contract f (LOG reg1 reg2 reg3 reg4) = lift4 LOG (f reg1) (f reg2) (f reg3) (f reg4)"
| "allocate_registers_contract f (LOGD reg1 reg2 reg3 reg4) = lift4 LOGD (f reg1) (f reg2) (f reg3) (f reg4)"
| "allocate_registers_contract f (MINT reg1 reg2) = lift2 MINT (f reg1) (f reg2)"
| "allocate_registers_contract f (RETD reg1 reg2) = lift2 RETD (f reg1) (f reg2)"
| "allocate_registers_contract f (RVRT reg1) = lift1 RVRT (f reg1)"
| "allocate_registers_contract f (SMO reg1 reg2 reg3 reg4) = lift4 SMO (f reg1) (f reg2) (f reg3) (f reg4)"
| "allocate_registers_contract f (SCWQ reg1 reg2 reg3) = lift3 SCWQ (f reg1) (f reg2) (f reg3)"
| "allocate_registers_contract f (SRW reg1 reg2 reg3) = lift3 SRW (f reg1) (f reg2) (f reg3)"
| "allocate_registers_contract f (SRWQ reg1 reg2 reg3 reg4) = lift4 SRWQ (f reg1) (f reg2) (f reg3) (f reg4)"
| "allocate_registers_contract f (SWW reg1 reg2 reg3) = lift3 SWW (f reg1) (f reg2) (f reg3)"
| "allocate_registers_contract f (SWWQ reg1 reg2 reg3 reg4) = lift4 SWWQ (f reg1) (f reg2) (f reg3) (f reg4)"
| "allocate_registers_contract f (TIME reg1 reg2) = lift2 TIME (f reg1) (f reg2)"
| "allocate_registers_contract f (TR reg1 reg2 reg3) = lift3 TR (f reg1) (f reg2) (f reg3)"
| "allocate_registers_contract f (TRO reg1 reg2 reg3 reg4) = lift4 TRO (f reg1) (f reg2) (f reg3) (f reg4)"

primrec allocate_registers_crypto ::
  "(virtual_register \<Rightarrow> allocated_register result) \<Rightarrow> virtual_register crypto_op \<Rightarrow> allocated_register crypto_op result" where
  "allocate_registers_crypto f (ECK1 reg1 reg2 reg3) = lift3 ECK1 (f reg1) (f reg2) (f reg3)"
| "allocate_registers_crypto f (ECR1 reg1 reg2 reg3) = lift3 ECR1 (f reg1) (f reg2) (f reg3)"
| "allocate_registers_crypto f (ED19 reg1 reg2 reg3 reg4) = lift4 ED19 (f reg1) (f reg2) (f reg3) (f reg4)"
| "allocate_registers_crypto f (K256 reg1 reg2 reg3) = lift3 K256 (f reg1) (f reg2) (f reg3)"
| "allocate_registers_crypto f (S256 reg1 reg2 reg3) = lift3 S256 (f reg1) (f reg2) (f reg3)"
| "allocate_registers_crypto f (ECOP reg1 reg2 reg3 reg4) = lift4 ECOP (f reg1) (f reg2) (f reg3) (f reg4)"
| "allocate_registers_crypto f (EPAR reg1 reg2 reg3 reg4) = lift4 EPAR (f reg1) (f reg2) (f reg3) (f reg4)"

primrec allocate_registers_other ::
  "(virtual_register \<Rightarrow> allocated_register result) \<Rightarrow> virtual_register other_op \<Rightarrow> allocated_register other_op result" where
  "allocate_registers_other f (ECAL reg1 reg2 reg3 reg4) = lift4 ECAL (f reg1) (f reg2) (f reg3) (f reg4)"
| "allocate_registers_other f (FLAG reg) = lift1 FLAG (f reg)"
| "allocate_registers_other f (GM reg imm) = lift1 (\<lambda>a. GM a imm) (f reg)"
| "allocate_registers_other f (GTF reg1 reg2 imm) = lift2 (\<lambda>a b. GTF a b imm) (f reg1) (f reg2)"

primrec allocate_registers_nonvm ::
  "(virtual_register \<Rightarrow> allocated_register result) \<Rightarrow> virtual_register nonvm_op \<Rightarrow> allocated_register nonvm_op result" where
  "allocate_registers_nonvm f (nonvm_op.BLOB imm) = Inr (nonvm_op.BLOB imm)"
| "allocate_registers_nonvm f nonvm_op.ConfigurablesOffsetPlaceholder = Inr nonvm_op.ConfigurablesOffsetPlaceholder"
| "allocate_registers_nonvm f nonvm_op.DataSectionOffsetPlaceholder = Inr nonvm_op.DataSectionOffsetPlaceholder"
| "allocate_registers_nonvm f (nonvm_op.LoadDataId reg1 label) = lift1 (\<lambda>a. nonvm_op.LoadDataId a label) (f reg1)"
| "allocate_registers_nonvm f (nonvm_op.AddrDataId reg1 label) = lift1 (\<lambda>a. nonvm_op.AddrDataId a label) (f reg1)"
| "allocate_registers_nonvm f nonvm_op.Undefined = Inr nonvm_op.Undefined"

definition vop_allocate_registers :: "register_pool \<Rightarrow> virtual_op \<Rightarrow> allocated_opcode result" where
  "vop_allocate_registers pool self =
     bindE (register_mapping pool (vop_registers self)) (\<lambda>mapping.
     case self of
        Alu op \<Rightarrow> lift1 AAlu (allocate_registers_alu (map_reg mapping) op)
      | ControlFlow op \<Rightarrow> lift1 AControlFlow (allocate_registers_control (map_reg mapping) op)
      | Memory op \<Rightarrow> lift1 AMemory (allocate_registers_memory (map_reg mapping) op)
      | Contract op \<Rightarrow> lift1 AContract (allocate_registers_contract (map_reg mapping) op)
      | Crypto op \<Rightarrow> lift1 ACrypto (allocate_registers_crypto (map_reg mapping) op)
      | Other op \<Rightarrow> lift1 AOther (allocate_registers_other (map_reg mapping) op)
      | NonVm op \<Rightarrow> lift1 ANonVm (allocate_registers_nonvm (map_reg mapping) op))"

definition cf_allocate_registers ::
  "register_pool \<Rightarrow> virtual_register control_flow_op \<Rightarrow> allocated_register control_flow_op result" where
  "cf_allocate_registers pool self =
     bindE (register_mapping pool (cf_registers self)) (\<lambda>mapping.
     case self of
       Label label \<Rightarrow> Inr (Label label)
     | Comment \<Rightarrow> Inr Comment
     | Jump label \<Rightarrow> Inr (Jump label)
     | Call label \<Rightarrow> Inr (Call label)
     | DataSectionOffsetPlaceholder \<Rightarrow> Inr DataSectionOffsetPlaceholder
     | ConfigurablesOffsetPlaceholder \<Rightarrow> Inr ConfigurablesOffsetPlaceholder
     | PushAll label \<Rightarrow> Inr (PushAll label)
     | PopAll label \<Rightarrow> Inr (PopAll label)
     | JumpIfNotZero r1 label \<Rightarrow> bindE (map_reg mapping r1) (\<lambda>a. Inr (JumpIfNotZero a label))
     | SaveRetAddr r1 label \<Rightarrow> bindE (map_reg mapping r1) (\<lambda>a. Inr (SaveRetAddr a label))
     | LoadLabel r1 label \<Rightarrow> bindE (map_reg mapping r1) (\<lambda>a. Inr (LoadLabel a label)))"

definition op_allocate_registers ::
  "register_pool \<Rightarrow> op \<Rightarrow> (allocated_opcode + allocated_register control_flow_op) result" where
  "op_allocate_registers pool self =
     (case opcode self of
        Inl virt_op \<Rightarrow> lift1 Inl (vop_allocate_registers pool virt_op)
      | Inr org_op \<Rightarrow> lift1 Inr (cf_allocate_registers pool org_op))"

section \<open>What allocation does to an instruction\<close>

named_theorems allocate_group_simps \<open>the per-group facts on allocation\<close>

lemma allocate_registers_alu_ok [allocate_group_simps]:
  assumes "\<And>r. r \<in> set_alu_op op \<Longrightarrow> f r = Inr (h r)"
  shows "\<exists>op'. allocate_registers_alu f op = Inr op' \<and> alloc_def_registers_alu op' = map h (def_registers_alu op)"
  using assms by (cases op) (simp_all add: lift_defs)

lemma allocate_registers_control_ok [allocate_group_simps]:
  assumes "\<And>r. r \<in> set_control_op op \<Longrightarrow> f r = Inr (h r)"
  shows "\<exists>op'. allocate_registers_control f op = Inr op' \<and> alloc_def_registers_control op' = map h (def_registers_control op)"
  using assms by (cases op) (simp_all add: lift_defs)

fun implicit_memory :: "'r memory_op \<Rightarrow> bool" where
  "implicit_memory (memory_op.ALOC _ _) = True"
| "implicit_memory (memory_op.CFEI _ _) = True"
| "implicit_memory (memory_op.CFSI _ _) = True"
| "implicit_memory (memory_op.CFE _ _) = True"
| "implicit_memory (memory_op.CFS _ _) = True"
| "implicit_memory _ = False"

lemma allocate_registers_memory_ok [allocate_group_simps]:
  assumes "\<And>r. r \<in> set_memory_op op \<Longrightarrow> f r = Inr (h r)"
  shows "\<exists>op'. allocate_registers_memory f op = Inr op' \<and>
    alloc_def_registers_memory op' = Inr (if implicit_memory op then [] else map h (def_registers_memory op))"
  using assms by (cases op) (simp_all add: lift_defs)

lemma allocate_registers_contract_ok [allocate_group_simps]:
  assumes "\<And>r. r \<in> set_contract_op op \<Longrightarrow> f r = Inr (h r)"
  shows "\<exists>op'. allocate_registers_contract f op = Inr op' \<and> alloc_def_registers_contract op' = map h (def_registers_contract op)"
  using assms by (cases op) (simp_all add: lift_defs)

lemma allocate_registers_crypto_ok [allocate_group_simps]:
  assumes "\<And>r. r \<in> set_crypto_op op \<Longrightarrow> f r = Inr (h r)"
  shows "\<exists>op'. allocate_registers_crypto f op = Inr op' \<and> alloc_def_registers_crypto op' = map h (def_registers_crypto op)"
  using assms by (cases op) (simp_all add: lift_defs)

lemma allocate_registers_other_ok [allocate_group_simps]:
  assumes "\<And>r. r \<in> set_other_op op \<Longrightarrow> f r = Inr (h r)"
  shows "\<exists>op'. allocate_registers_other f op = Inr op' \<and> alloc_def_registers_other op' = map h (def_registers_other op)"
  using assms by (cases op) (simp_all add: lift_defs)

lemma allocate_registers_nonvm_ok [allocate_group_simps]:
  assumes "\<And>r. r \<in> set_nonvm_op op \<Longrightarrow> f r = Inr (h r)"
  shows "\<exists>op'. allocate_registers_nonvm f op = Inr op' \<and> alloc_def_registers_nonvm op' = map h (def_registers_nonvm op)"
  using assms by (cases op) (simp_all add: lift_defs)

definition implicit_op :: "virtual_op \<Rightarrow> bool" where
  "implicit_op op \<longleftrightarrow> (case op of Memory m \<Rightarrow> implicit_memory m | _ \<Rightarrow> False)"

definition has_registers :: "register_pool \<Rightarrow> virtual_register list \<Rightarrow> bool" where
  "has_registers pool regs \<longleftrightarrow> (\<forall>r \<in> set regs. lookup_register pool r \<noteq> None)"

definition assigned :: "register_pool \<Rightarrow> virtual_register \<Rightarrow> allocated_register" where
  "assigned pool r = (case lookup_register pool r of Some a \<Rightarrow> a | None \<Rightarrow> Allocated 0)"

lemma map_of_graph: "r \<in> set rs \<Longrightarrow> map_of (map (\<lambda>x. (x, g x)) rs) r = Some (g r)"
  by (induction rs) auto

lemma register_mapping_ok:
  assumes "has_registers pool regs"
  shows "\<exists>m. register_mapping pool regs = Inr m \<and> (\<forall>r \<in> set regs. map_reg m r = Inr (assigned pool r))"
proof -
  have "mapM (\<lambda>x. case lookup_register pool x of
               Some r \<Rightarrow> Inr (x, r)
             | None \<Rightarrow> Inl (Panic ''The allocator cannot resolve a register mapping for this program.'')) regs
      = Inr (map (\<lambda>x. (x, assigned pool x)) regs)"
    using assms by (intro mapM_pure) (auto simp: has_registers_def assigned_def split: option.splits)
  then show ?thesis
    by (simp add: register_mapping_def map_reg_def unwrap_or_panic_def map_of_graph)
qed

lemma register_mapping_fails:
  assumes "\<not> has_registers pool regs"
  shows "isl (register_mapping pool regs)"
proof -
  have "\<not> (\<exists>m. register_mapping pool regs = Inr m)"
  proof
    assume "\<exists>m. register_mapping pool regs = Inr m"
    then obtain ps where "mapM (\<lambda>x. case lookup_register pool x of
               Some r \<Rightarrow> Inr (x, r)
             | None \<Rightarrow> Inl (Panic ''The allocator cannot resolve a register mapping for this program.'')) regs = Inr ps"
      by (auto simp: register_mapping_def bindE_Inr_iff)
    then show False
      using assms by (auto simp: mapM_Inr_iff has_registers_def list_all2_conv_all_nth in_set_conv_nth
          split: option.splits) (metis option.distinct(1))
  qed
  then show ?thesis by (metis sum.collapse(2))
qed

lemma set_vop_registers:
  "set (vop_registers (Alu a)) = set_alu_op a" "set (vop_registers (ControlFlow c)) = set_control_op c"
  "set (vop_registers (Memory m)) = set_memory_op m" "set (vop_registers (Contract t)) = set_contract_op t"
  "set (vop_registers (Crypto y)) = set_crypto_op y" "set (vop_registers (Other u)) = set_other_op u"
  "set (vop_registers (NonVm n)) = set_nonvm_op n"
  by (simp_all add: vop_registers_def op_group_simps)

lemma btree_set_map_btree_set: "btree_set (map h (btree_set xs)) = btree_set (map h xs)"
  by (rule btree_set_cong) simp

lemmas vop_allocate_simps = vop_allocate_registers_def lift1_def alloc_def_registers_def implicit_op_def
  vop_def_registers_def set_vop_registers btree_set_map_btree_set

lemma vop_allocate_registers_ok:
  assumes "has_registers pool (vop_registers op)"
  shows "\<exists>op'. vop_allocate_registers pool op = Inr op' \<and> alloc_def_registers op' =
      Inr (if implicit_op op then [] else btree_set (map (assigned pool) (vop_def_registers op)))"
proof -
  obtain m where m: "register_mapping pool (vop_registers op) = Inr m"
      "\<And>r. r \<in> set (vop_registers op) \<Longrightarrow> map_reg m r = Inr (assigned pool r)"
    using register_mapping_ok [OF assms] by blast
  show ?thesis
  proof (cases op)
    case (Alu x)
    with allocate_registers_alu_ok [of x "map_reg m" "assigned pool"] m show ?thesis by (auto simp: vop_allocate_simps)
  next
    case (ControlFlow x)
    with allocate_registers_control_ok [of x "map_reg m" "assigned pool"] m show ?thesis by (auto simp: vop_allocate_simps)
  next
    case (Memory x)
    with allocate_registers_memory_ok [of x "map_reg m" "assigned pool"] m show ?thesis by (auto simp: vop_allocate_simps)
  next
    case (Contract x)
    with allocate_registers_contract_ok [of x "map_reg m" "assigned pool"] m show ?thesis by (auto simp: vop_allocate_simps)
  next
    case (Crypto x)
    with allocate_registers_crypto_ok [of x "map_reg m" "assigned pool"] m show ?thesis by (auto simp: vop_allocate_simps)
  next
    case (Other x)
    with allocate_registers_other_ok [of x "map_reg m" "assigned pool"] m show ?thesis by (auto simp: vop_allocate_simps)
  next
    case (NonVm x)
    with allocate_registers_nonvm_ok [of x "map_reg m" "assigned pool"] m show ?thesis by (auto simp: vop_allocate_simps)
  qed
qed

lemma vop_allocate_registers_fails:
  "\<not> has_registers pool (vop_registers op) \<Longrightarrow> isl (vop_allocate_registers pool op)"
  using register_mapping_fails [of pool "vop_registers op"]
  by (auto simp: vop_allocate_registers_def bindE_def isl_def)

lemma op_allocate_registers_ok:
  assumes "has_registers pool (op_registers o')"
  shows "\<exists>oc. op_allocate_registers pool o' = Inr oc"
proof (cases "opcode o'")
  case (Inl v)
  then show ?thesis
    using vop_allocate_registers_ok [of pool v] assms
    by (auto simp: op_allocate_registers_def op_registers_def lift1_def)
next
  case (Inr c)
  then obtain m where m: "register_mapping pool (cf_registers c) = Inr m"
      "\<forall>r \<in> set (cf_registers c). map_reg m r = Inr (assigned pool r)"
    using register_mapping_ok [of pool "cf_registers c"] assms by (auto simp: op_registers_def)
  then show ?thesis
    by (cases c) (simp_all add: Inr op_allocate_registers_def cf_allocate_registers_def lift1_def)
qed

text \<open>
  (C34) Allocating the registers of an instruction succeeds exactly when each of its virtual
  registers has a register in the pool, and the registers the allocated instruction writes
  are then the ones assigned to the registers the instruction writes; only the five
  instructions with an implicit stack or heap pointer drop it.
\<close>

theorem allocate_registers_defs:
  "(case vop_allocate_registers pool op of
      Inl e \<Rightarrow> \<not> has_registers pool (vop_registers op)
    | Inr op' \<Rightarrow> has_registers pool (vop_registers op)
        \<and> alloc_def_registers op' =
            Inr (if implicit_op op then [] else btree_set (map (assigned pool) (vop_def_registers op))))"
  using vop_allocate_registers_ok [of pool op] vop_allocate_registers_fails [of pool op]
  by (cases "has_registers pool (vop_registers op)") (auto split: sum.splits)

end
