(* ===== verification/Asm_Graph.thy ===== *)
theory Asm_Graph
  imports Asm_Allocated
begin

text \<open>
  The interference graph of \<^verbatim>\<open>register_allocator.rs\<close>. Its type is the
  \<^verbatim>\<open>StableGraph\<close> of the \<^verbatim>\<open>petgraph\<close> crate; the operations that the allocator calls
  are the fields of a parameter, and what the crate documents about them is the predicate
  \<open>graph_ok\<close>.
\<close>

section \<open>The graph library\<close>

type_synonym node = nat
type_synonym edge = nat

datatype direction = Outgoing | Incoming

record 'g graph_api =
  empty_graph :: 'g
  add_node :: "virtual_register \<Rightarrow> 'g \<Rightarrow> node \<times> 'g"
  node_weight :: "'g \<Rightarrow> node \<Rightarrow> virtual_register option"
  node_indices :: "'g \<Rightarrow> node list"
  update_edge :: "node \<Rightarrow> node \<Rightarrow> bool \<Rightarrow> 'g \<Rightarrow> 'g"
  remove_node :: "node \<Rightarrow> 'g \<Rightarrow> 'g"
  contains_edge :: "'g \<Rightarrow> node \<Rightarrow> node \<Rightarrow> bool"
  neighbors_undirected :: "'g \<Rightarrow> node \<Rightarrow> node list"
  edges_directed :: "'g \<Rightarrow> node \<Rightarrow> direction \<Rightarrow> edge list"
  edge_endpoints :: "'g \<Rightarrow> edge \<Rightarrow> (node \<times> node) option"
  edge_weight :: "'g \<Rightarrow> edge \<Rightarrow> bool option"
  set_edge_weight :: "edge \<Rightarrow> bool \<Rightarrow> 'g \<Rightarrow> 'g"

definition gedges :: "'g graph_api \<Rightarrow> 'g \<Rightarrow> (node \<times> node) set" where
  "gedges api g = {(a, b). \<exists>e. edge_endpoints api g e = Some (a, b)}"

text \<open>
  The documented behaviour. \<^verbatim>\<open>add_node\<close> gives a new index; \<^verbatim>\<open>update_edge\<close> sets the weight of
  the edge between two nodes of the graph and adds the edge when there is none;
  \<^verbatim>\<open>remove_node\<close> takes the node and its edges out and keeps all other indices; the
  iterators give the neighbours of a node and the edges that leave or enter it.
\<close>

definition graph_add_ok :: "'g graph_api \<Rightarrow> bool" where
  "graph_add_ok api \<longleftrightarrow>
     (\<forall>n e. node_weight api (empty_graph api) n = None \<and> edge_endpoints api (empty_graph api) e = None)
   \<and> (\<forall>r g n g'. add_node api r g = (n, g') \<longrightarrow>
        node_weight api g n = None \<and> node_weight api g' = (node_weight api g)(n \<mapsto> r)
        \<and> edge_endpoints api g' = edge_endpoints api g \<and> edge_weight api g' = edge_weight api g)
   \<and> (\<forall>a b w g. node_weight api g a \<noteq> None \<longrightarrow> node_weight api g b \<noteq> None \<longrightarrow>
        node_weight api (update_edge api a b w g) = node_weight api g
        \<and> (\<exists>e. edge_endpoints api (update_edge api a b w g) = (edge_endpoints api g)(e \<mapsto> (a, b))
             \<and> edge_weight api (update_edge api a b w g) = (edge_weight api g)(e \<mapsto> w)
             \<and> (edge_endpoints api g e = Some (a, b)
                \<or> edge_endpoints api g e = None \<and> (a, b) \<notin> gedges api g)))"

definition graph_change_ok :: "'g graph_api \<Rightarrow> bool" where
  "graph_change_ok api \<longleftrightarrow>
     (\<forall>n g. node_weight api (remove_node api n g) = (node_weight api g)(n := None)
        \<and> edge_endpoints api (remove_node api n g) =
            (\<lambda>e. case edge_endpoints api g e of
                Some (a, b) \<Rightarrow> if a = n \<or> b = n then None else Some (a, b)
              | None \<Rightarrow> None)
        \<and> (\<forall>e. edge_endpoints api (remove_node api n g) e \<noteq> None \<longrightarrow>
              edge_weight api (remove_node api n g) e = edge_weight api g e))
   \<and> (\<forall>e w g. edge_endpoints api g e \<noteq> None \<longrightarrow>
        node_weight api (set_edge_weight api e w g) = node_weight api g
        \<and> edge_endpoints api (set_edge_weight api e w g) = edge_endpoints api g
        \<and> edge_weight api (set_edge_weight api e w g) = (edge_weight api g)(e \<mapsto> w))"

definition graph_iter_ok :: "'g graph_api \<Rightarrow> bool" where
  "graph_iter_ok api \<longleftrightarrow>
     (\<forall>g. set (node_indices api g) = {n. node_weight api g n \<noteq> None} \<and> distinct (node_indices api g))
   \<and> (\<forall>g a b. contains_edge api g a b \<longleftrightarrow> (a, b) \<in> gedges api g)
   \<and> (\<forall>g n. set (neighbors_undirected api g n) = {m. (n, m) \<in> gedges api g \<or> (m, n) \<in> gedges api g})
   \<and> (\<forall>g n. set (edges_directed api g n Outgoing) = {e. \<exists>m. edge_endpoints api g e = Some (n, m)})
   \<and> (\<forall>g n. set (edges_directed api g n Incoming) = {e. \<exists>m. edge_endpoints api g e = Some (m, n)})
   \<and> (\<forall>g e. edge_endpoints api g e \<noteq> None \<longrightarrow> edge_weight api g e \<noteq> None)"

definition graph_ok :: "'g graph_api \<Rightarrow> bool" where
  "graph_ok api \<longleftrightarrow> graph_add_ok api \<and> graph_change_ok api \<and> graph_iter_ok api"

section \<open>The interference graph\<close>

definition interference_node ::
  "'g graph_api \<Rightarrow> virtual_register \<Rightarrow> 'g \<times> (virtual_register \<rightharpoonup> node) \<Rightarrow> 'g \<times> (virtual_register \<rightharpoonup> node)" where
  "interference_node api reg = (\<lambda>(graph, reg_to_node_map).
     case add_node api reg graph of (ix, graph') \<Rightarrow> (graph', reg_to_node_map(reg \<mapsto> ix)))"

definition interference_edges ::
  "'g graph_api \<Rightarrow> (virtual_register \<rightharpoonup> node) \<Rightarrow> (virtual_register \<Rightarrow> bool) \<Rightarrow> virtual_register list
     \<Rightarrow> virtual_register \<Rightarrow> 'g \<Rightarrow> 'g" where
  "interference_edges api reg_to_node_map cond regs v graph =
     (case reg_to_node_map v of
        None \<Rightarrow> graph
      | Some ix1 \<Rightarrow> fold (\<lambda>b graph. case reg_to_node_map b of
            None \<Rightarrow> graph
          | Some ix2 \<Rightarrow> if cond b then update_edge api ix1 ix2 True graph else graph) regs graph)"

definition interference_op ::
  "'g graph_api \<Rightarrow> (virtual_register \<rightharpoonup> node) \<Rightarrow> op \<Rightarrow> virtual_register list \<Rightarrow> 'g \<Rightarrow> 'g" where
  "interference_op api reg_to_node_map o' regs graph =
     (case opcode o' of
        Inl (Alu (MOVE v c)) \<Rightarrow>
          interference_edges api reg_to_node_map (\<lambda>b. b \<noteq> c \<and> b \<noteq> v) regs v graph
      | _ \<Rightarrow>
          fold (\<lambda>v. interference_edges api reg_to_node_map (\<lambda>b. b \<noteq> v) regs v) (op_def_registers o') graph)"

definition create_interference_graph ::
  "'g graph_api \<Rightarrow> op list \<Rightarrow> virtual_register list list
     \<Rightarrow> ('g \<times> (virtual_register \<rightharpoonup> node)) result" where
  "create_interference_graph api ops live_out =
     (let regs = btree_set (concat (map (\<lambda>elem. filter is_virtual (op_registers elem)) ops));
          (graph, reg_to_node_map) = fold (interference_node api) regs (empty_graph api, Map.empty)
      in bindE (foldM (\<lambda>(ix, regs) graph.
             if ix < length ops then Inr (interference_op api reg_to_node_map (ops ! ix) regs graph)
             else Inl (Panic ''index out of bounds'')) (enumerate 0 live_out) graph)
           (\<lambda>graph. Inr (graph, reg_to_node_map)))"

section \<open>The interference graph is exact\<close>

text \<open>When an instruction makes the register it writes interfere with a register live after it.\<close>

definition op_interferes :: "op \<Rightarrow> virtual_register \<Rightarrow> virtual_register \<Rightarrow> bool" where
  "op_interferes o' v b \<longleftrightarrow> b \<noteq> v \<and>
     (case opcode o' of
        Inl (Alu (MOVE v' c)) \<Rightarrow> v = v' \<and> b \<noteq> c
      | _ \<Rightarrow> v \<in> set (op_def_registers o'))"

definition interferes :: "op list \<Rightarrow> virtual_register list list \<Rightarrow> virtual_register \<Rightarrow> virtual_register \<Rightarrow> bool" where
  "interferes ops live_out v b \<longleftrightarrow>
     (\<exists>i < length live_out. b \<in> set (live_out ! i) \<and> op_interferes (ops ! i) v b)"

text \<open>No edge is marked as deleted.\<close>

definition edges_on :: "'g graph_api \<Rightarrow> 'g \<Rightarrow> bool" where
  "edges_on api g \<longleftrightarrow> (\<forall>e. edge_endpoints api g e \<noteq> None \<longrightarrow> edge_weight api g e = Some True)"

definition node_map_ok :: "'g graph_api \<Rightarrow> 'g \<Rightarrow> (virtual_register \<rightharpoonup> node) \<Rightarrow> bool" where
  "node_map_ok api g m \<longleftrightarrow> edges_on api g \<and> (\<forall>r n. m r = Some n \<longleftrightarrow> node_weight api g n = Some r)"

lemma graph_okD:
  assumes "graph_ok api"
  shows "node_weight api (empty_graph api) n = None" "gedges api (empty_graph api) = {}"
    "add_node api r g = (k, g') \<Longrightarrow>
       node_weight api g k = None \<and> node_weight api g' = (node_weight api g)(k \<mapsto> r) \<and> gedges api g' = gedges api g
       \<and> (edges_on api g' \<longleftrightarrow> edges_on api g)"
    "edges_on api (empty_graph api)"
    "set (neighbors_undirected api g n) = {k. (n, k) \<in> gedges api g \<or> (k, n) \<in> gedges api g}"
  using assms unfolding graph_ok_def graph_add_ok_def graph_iter_ok_def gedges_def edges_on_def by auto

lemma update_edge_ok:
  assumes "graph_ok api" "node_weight api g a \<noteq> None" "node_weight api g b \<noteq> None"
  shows "node_weight api (update_edge api a b w g) = node_weight api g
    \<and> gedges api (update_edge api a b w g) = insert (a, b) (gedges api g)
    \<and> (edges_on api g \<longrightarrow> w \<longrightarrow> edges_on api (update_edge api a b w g))"
proof -
  obtain e where e: "edge_endpoints api (update_edge api a b w g) = (edge_endpoints api g)(e \<mapsto> (a, b))"
      "edge_endpoints api g e = Some (a, b) \<or> edge_endpoints api g e = None"
      "edge_weight api (update_edge api a b w g) = (edge_weight api g)(e \<mapsto> w)"
    and n: "node_weight api (update_edge api a b w g) = node_weight api g"
    using assms unfolding graph_ok_def graph_add_ok_def by blast
  have "(\<exists>e'. ((edge_endpoints api g)(e \<mapsto> (a, b))) e' = Some p) \<longleftrightarrow>
      p = (a, b) \<or> (\<exists>e'. edge_endpoints api g e' = Some p)" for p
    using e(2) by (metis fun_upd_apply option.inject option.distinct(1))
  then have "gedges api (update_edge api a b w g) = insert (a, b) (gedges api g)"
    unfolding gedges_def e(1) by auto
  moreover have "edges_on api g \<longrightarrow> w \<longrightarrow> edges_on api (update_edge api a b w g)"
    unfolding edges_on_def e(1,3) by simp
  ultimately show ?thesis using n by simp
qed

lemma interference_nodes_ok:
  assumes "graph_ok api" "distinct regs" "node_map_ok api g m" "dom m \<inter> set regs = {}"
  shows "\<exists>g' m'. fold (interference_node api) regs (g, m) = (g', m') \<and> node_map_ok api g' m'
    \<and> dom m' = dom m \<union> set regs \<and> gedges api g' = gedges api g"
  using assms(2-4)
proof (induction regs arbitrary: g m)
  case (Cons r regs)
  obtain n g1 where add: "add_node api r g = (n, g1)" by fastforce
  note g1 = graph_okD(3) [OF assms(1) add]
  have "node_map_ok api g1 (m(r \<mapsto> n))"
    using Cons.prems(2,3) g1 unfolding node_map_ok_def by auto
  moreover have "dom (m(r \<mapsto> n)) \<inter> set regs = {}" using Cons.prems(1,3) by auto
  moreover have "distinct regs" using Cons.prems(1) by simp
  ultimately obtain g' m' where "fold (interference_node api) regs (g1, m(r \<mapsto> n)) = (g', m')"
      "node_map_ok api g' m'" "dom m' = dom (m(r \<mapsto> n)) \<union> set regs" "gedges api g' = gedges api g1"
    using Cons.IH by blast
  moreover have "interference_node api r (g, m) = (g1, m(r \<mapsto> n))"
    by (simp add: interference_node_def add)
  ultimately show ?case using g1 by simp
qed simp

lemma interference_edges_ok:
  assumes "graph_ok api" "node_map_ok api g m"
  shows "node_map_ok api (interference_edges api m cond regs v g) m
    \<and> gedges api (interference_edges api m cond regs v g) =
        gedges api g \<union> {(x, y). m v = Some x \<and> (\<exists>b \<in> set regs. cond b \<and> m b = Some y)}"
proof (cases "m v")
  case (Some x)
  let ?step = "\<lambda>b graph. case m b of
            None \<Rightarrow> graph
          | Some ix2 \<Rightarrow> if cond b then update_edge api x ix2 True graph else graph"
  have "node_map_ok api (fold ?step regs g) m \<and> gedges api (fold ?step regs g) =
      gedges api g \<union> {(x', y). x' = x \<and> (\<exists>b \<in> set regs. cond b \<and> m b = Some y)}"
    using assms(2)
  proof (induction regs arbitrary: g)
    case (Cons b regs)
    have g1: "node_map_ok api (?step b g) m \<and>
        gedges api (?step b g) = gedges api g \<union> {(x', y). x' = x \<and> cond b \<and> m b = Some y}"
    proof (cases "m b")
      case b: (Some y)
      have "node_weight api g x \<noteq> None" "node_weight api g y \<noteq> None"
        using Some b Cons.prems by (auto simp: node_map_ok_def)
      note upd = update_edge_ok [OF assms(1) this, of True]
      then have "node_map_ok api (update_edge api x y True g) m"
        using Cons.prems unfolding node_map_ok_def by metis
      with Cons.prems b upd show ?thesis by auto
    qed (use Cons.prems in auto)
    from Cons.IH [of "?step b g"] g1 show ?case by auto
  qed simp
  with Some show ?thesis by (simp add: interference_edges_def)
qed (use assms in \<open>simp add: interference_edges_def\<close>)

lemma interference_op_ok:
  assumes "graph_ok api" "node_map_ok api g m"
  shows "node_map_ok api (interference_op api m o' regs g) m
    \<and> gedges api (interference_op api m o' regs g) =
        gedges api g \<union> {(x, y). \<exists>v b. m v = Some x \<and> m b = Some y \<and> b \<in> set regs \<and> op_interferes o' v b}"
proof (cases "\<exists>v c. opcode o' = Inl (Alu (MOVE v c))")
  case True
  then obtain v c where "opcode o' = Inl (Alu (MOVE v c))" by blast
  then show ?thesis
    using interference_edges_ok [OF assms, of "\<lambda>b. b \<noteq> c \<and> b \<noteq> v" regs v]
    by (auto simp: interference_op_def op_interferes_def)
next
  case False
  have split: "(case opcode o' of Inl (Alu (MOVE v c)) \<Rightarrow> P v c | _ \<Rightarrow> Q) = Q" for P :: "_ \<Rightarrow> _ \<Rightarrow> 'c" and Q
    using False by (auto split: sum.splits virtual_op.splits alu_op.splits)
  have "node_map_ok api (fold (\<lambda>v. interference_edges api m (\<lambda>b. b \<noteq> v) regs v) vs g) m
      \<and> gedges api (fold (\<lambda>v. interference_edges api m (\<lambda>b. b \<noteq> v) regs v) vs g) =
        gedges api g \<union> {(x, y). \<exists>v b. m v = Some x \<and> m b = Some y \<and> b \<in> set regs \<and> b \<noteq> v \<and> v \<in> set vs}" for vs
    using assms(2)
  proof (induction vs arbitrary: g)
    case (Cons v vs)
    note step = interference_edges_ok [OF assms(1) Cons.prems, of "\<lambda>b. b \<noteq> v" regs v]
    from Cons.IH [of "interference_edges api m (\<lambda>b. b \<noteq> v) regs v g"] step show ?case by auto
  qed simp
  then show ?thesis unfolding interference_op_def op_interferes_def split by blast
qed

lemma interference_ops_ok:
  assumes "graph_ok api"
  shows "node_map_ok api g m \<Longrightarrow> k + length live_out \<le> length ops \<Longrightarrow>
    \<exists>g'. foldM (\<lambda>(ix, regs) graph.
             if ix < length ops then Inr (interference_op api m (ops ! ix) regs graph)
             else Inl (Panic ''index out of bounds'')) (enumerate k live_out) g = Inr g'
      \<and> node_map_ok api g' m
      \<and> gedges api g' = gedges api g \<union> {(x, y). \<exists>v b. m v = Some x \<and> m b = Some y
           \<and> (\<exists>i < length live_out. b \<in> set (live_out ! i) \<and> op_interferes (ops ! (k + i)) v b)}"
proof (induction live_out arbitrary: k g)
  case (Cons regs live_out)
  let ?g1 = "interference_op api m (ops ! k) regs g"
  note step = interference_op_ok [OF assms Cons.prems(1), of "ops ! k" regs]
  from Cons.IH [of ?g1 "Suc k"] step Cons.prems(2) obtain g' where g':
    "foldM (\<lambda>(ix, regs) graph.
             if ix < length ops then Inr (interference_op api m (ops ! ix) regs graph)
             else Inl (Panic ''index out of bounds'')) (enumerate (Suc k) live_out) ?g1 = Inr g'"
    "node_map_ok api g' m"
    "gedges api g' = gedges api ?g1 \<union> {(x, y). \<exists>v b. m v = Some x \<and> m b = Some y
           \<and> (\<exists>i < length live_out. b \<in> set (live_out ! i) \<and> op_interferes (ops ! (Suc k + i)) v b)}"
    by auto
  have "(\<exists>i < length (regs # live_out). b \<in> set ((regs # live_out) ! i) \<and> op_interferes (ops ! (k + i)) v b)
      \<longleftrightarrow> b \<in> set regs \<and> op_interferes (ops ! k) v b \<or>
        (\<exists>i < length live_out. b \<in> set (live_out ! i) \<and> op_interferes (ops ! (Suc k + i)) v b)" for v b
    by (simp add: Ex_less_Suc2)
  with g' step Cons.prems(2) show ?case by (simp, blast)
qed simp

lemma interference_graph_correct:
  assumes "graph_ok api" "length live_out \<le> length ops"
  shows "\<exists>g m. create_interference_graph api ops live_out = Inr (g, m) \<and> node_map_ok api g m
     \<and> dom m = {r. is_virtual r \<and> (\<exists>o' \<in> set ops. r \<in> set (op_registers o'))}
     \<and> gedges api g = {(x, y). \<exists>v b. m v = Some x \<and> m b = Some y \<and> interferes ops live_out v b}"
proof -
  let ?regs = "btree_set (concat (map (\<lambda>elem. filter is_virtual (op_registers elem)) ops))"
  have "node_map_ok api (empty_graph api) Map.empty"
    using graph_okD(1,4) [OF assms(1)] by (simp add: node_map_ok_def)
  then obtain g1 m where gm: "fold (interference_node api) ?regs (empty_graph api, Map.empty) = (g1, m)"
      "node_map_ok api g1 m" "dom m = set ?regs" "gedges api g1 = {}"
    using interference_nodes_ok [OF assms(1), of ?regs "empty_graph api" Map.empty] graph_okD(2) [OF assms(1)]
    by auto
  from interference_ops_ok [OF assms(1) gm(2), of 0] assms(2) gm(4)
  show ?thesis using gm(1,3)
    by (fastforce simp: create_interference_graph_def interferes_def)
qed

section \<open>Graphs as lists\<close>

text \<open>
  A graph library that meets the interface: nodes and edges are association lists, the index of
  a new entry is above all indices in use.
\<close>

type_synonym list_graph = "(node \<times> virtual_register) list \<times> (edge \<times> (node \<times> node) \<times> bool) list"

definition fresh_index :: "(nat \<times> 'v) list \<Rightarrow> nat" where
  "fresh_index xs = Suc (fold max (map fst xs) 0)"

definition lg_edge :: "list_graph \<Rightarrow> edge \<Rightarrow> ((node \<times> node) \<times> bool) option" where
  "lg_edge g = map_of (snd g)"

definition lg_edge_ids :: "list_graph \<Rightarrow> ((node \<times> node) \<Rightarrow> bool) \<Rightarrow> edge list" where
  "lg_edge_ids g p = filter (\<lambda>e. case lg_edge g e of Some (ab, _) \<Rightarrow> p ab | None \<Rightarrow> False) (remdups (map fst (snd g)))"

definition lg_ends :: "list_graph \<Rightarrow> edge \<Rightarrow> node \<times> node" where
  "lg_ends g e = (case lg_edge g e of Some (ab, _) \<Rightarrow> ab | None \<Rightarrow> (0, 0))"

definition list_graph :: "list_graph graph_api" where
  "list_graph = \<lparr>
     empty_graph = ([], []),
     add_node = (\<lambda>r (ns, es). (fresh_index ns, ((fresh_index ns, r) # ns, es))),
     node_weight = (\<lambda>g. map_of (fst g)),
     node_indices = (\<lambda>g. remdups (map fst (fst g))),
     update_edge = (\<lambda>a b w g. case lg_edge_ids g (\<lambda>ab. ab = (a, b)) of
        [] \<Rightarrow> (fst g, (fresh_index (snd g), ((a, b), w)) # snd g)
      | e # _ \<Rightarrow> (fst g, (e, ((a, b), w)) # snd g)),
     remove_node = (\<lambda>n g. (filter (\<lambda>(k, _). k \<noteq> n) (fst g),
        filter (\<lambda>(e, _). case lg_edge g e of Some ((a, b), _) \<Rightarrow> a \<noteq> n \<and> b \<noteq> n | None \<Rightarrow> False) (snd g))),
     contains_edge = (\<lambda>g a b. lg_edge_ids g (\<lambda>ab. ab = (a, b)) \<noteq> []),
     neighbors_undirected = (\<lambda>g n. map (\<lambda>e. snd (lg_ends g e)) (lg_edge_ids g (\<lambda>(a, b). a = n))
        @ map (\<lambda>e. fst (lg_ends g e)) (lg_edge_ids g (\<lambda>(a, b). b = n))),
     edges_directed = (\<lambda>g n d. case d of Outgoing \<Rightarrow> lg_edge_ids g (\<lambda>(a, b). a = n)
        | Incoming \<Rightarrow> lg_edge_ids g (\<lambda>(a, b). b = n)),
     edge_endpoints = (\<lambda>g e. map_option fst (lg_edge g e)),
     edge_weight = (\<lambda>g e. map_option snd (lg_edge g e)),
     set_edge_weight = (\<lambda>e w g. case lg_edge g e of
        Some (ab, _) \<Rightarrow> (fst g, (e, (ab, w)) # snd g) | None \<Rightarrow> g)\<rparr>"

lemma le_fold_max:
  fixes k :: nat
  shows "k \<in> set ks \<or> k \<le> m \<Longrightarrow> k \<le> fold max ks m"
proof (induction ks arbitrary: m)
  case (Cons x ks)
  from Cons.prems have "k \<in> set ks \<or> k \<le> max x m" by auto
  then show ?case using Cons.IH by simp
qed simp

lemma fresh_index: "map_of xs (fresh_index xs) = None"
proof -
  have "k < fresh_index xs" if "k \<in> set (map fst xs)" for k
    unfolding fresh_index_def less_Suc_eq_le by (rule le_fold_max) (use that in simp)
  then have "fresh_index xs \<notin> set (map fst xs)" by blast
  then show ?thesis by (simp add: map_of_eq_None_iff)
qed

lemma map_of_filter_keys: "map_of (filter (\<lambda>(k, _). P k) xs) k = (if P k then map_of xs k else None)"
  by (induction xs) auto

lemma set_lg_edge_ids: "set (lg_edge_ids g p) = {e. \<exists>ab w. lg_edge g e = Some (ab, w) \<and> p ab}"
  by (force simp: lg_edge_ids_def lg_edge_def split: option.splits dest: map_of_SomeD)

lemma gedges_list_graph: "gedges list_graph g = {ab. \<exists>e w. lg_edge g e = Some (ab, w)}"
  by (auto simp: gedges_def list_graph_def)

lemma list_graph_add_ok: "graph_add_ok list_graph"
proof -
  have upd: "\<exists>e. edge_endpoints list_graph (update_edge list_graph a b w g) = (edge_endpoints list_graph g)(e \<mapsto> (a, b))
      \<and> edge_weight list_graph (update_edge list_graph a b w g) = (edge_weight list_graph g)(e \<mapsto> w)
      \<and> (edge_endpoints list_graph g e = Some (a, b)
         \<or> edge_endpoints list_graph g e = None \<and> (a, b) \<notin> gedges list_graph g)" for a b w g
  proof (cases "lg_edge_ids g (\<lambda>ab. ab = (a, b))")
    case Nil
    then have "(a, b) \<notin> gedges list_graph g"
      using set_lg_edge_ids [of g "\<lambda>ab. ab = (a, b)"] by (auto simp: gedges_list_graph)
    with Nil show ?thesis
      by (intro exI [of _ "fresh_index (snd g)"]) (auto simp: list_graph_def lg_edge_def fresh_index)
  next
    case (Cons e es)
    then have "\<exists>w. lg_edge g e = Some ((a, b), w)"
      using set_lg_edge_ids [of g "\<lambda>ab. ab = (a, b)"] by auto
    with Cons show ?thesis by (intro exI [of _ e]) (auto simp: list_graph_def lg_edge_def)
  qed
  have "node_weight list_graph (update_edge list_graph a b w g) = node_weight list_graph g" for a b w g
    by (auto simp: list_graph_def split: list.splits)
  with upd show ?thesis unfolding graph_add_ok_def
    by (auto simp: list_graph_def lg_edge_def fresh_index)
qed

lemma list_graph_change_ok: "graph_change_ok list_graph"
  unfolding graph_change_ok_def
  by (auto simp: list_graph_def lg_edge_def map_of_filter_keys fun_eq_iff split: option.splits)

lemma list_graph_neighbors:
  "set (neighbors_undirected list_graph g n) =
     {m. (n, m) \<in> gedges list_graph g \<or> (m, n) \<in> gedges list_graph g}"
proof -
  have "(\<lambda>e. snd (lg_ends g e)) ` set (lg_edge_ids g (\<lambda>(a, b). a = n)) = {m. \<exists>e w. lg_edge g e = Some ((n, m), w)}"
    by (force simp: set_lg_edge_ids lg_ends_def image_iff)
  moreover have "(\<lambda>e. fst (lg_ends g e)) ` set (lg_edge_ids g (\<lambda>(a, b). b = n)) = {m. \<exists>e w. lg_edge g e = Some ((m, n), w)}"
    by (force simp: set_lg_edge_ids lg_ends_def image_iff)
  ultimately show ?thesis unfolding gedges_list_graph by (auto simp: list_graph_def)
qed

lemma list_graph_contains: "contains_edge list_graph g a b \<longleftrightarrow> (a, b) \<in> gedges list_graph g"
proof -
  have "contains_edge list_graph g a b \<longleftrightarrow> set (lg_edge_ids g (\<lambda>ab. ab = (a, b))) \<noteq> {}"
    by (simp add: list_graph_def)
  then show ?thesis by (auto simp: set_lg_edge_ids gedges_list_graph)
qed

lemma list_graph_iter_ok: "graph_iter_ok list_graph"
proof -
  have "set (node_indices list_graph g) = {n. node_weight list_graph g n \<noteq> None} \<and> distinct (node_indices list_graph g)" for g
    by (auto simp: list_graph_def map_of_eq_None_iff dest: map_of_SomeD)
  moreover have "set (edges_directed list_graph g n Outgoing) = {e. \<exists>m. edge_endpoints list_graph g e = Some (n, m)}"
      "set (edges_directed list_graph g n Incoming) = {e. \<exists>m. edge_endpoints list_graph g e = Some (m, n)}"
      "edge_endpoints list_graph g e \<noteq> None \<longrightarrow> edge_weight list_graph g e \<noteq> None" for g n e
    by (auto simp: list_graph_def set_lg_edge_ids)
  ultimately show ?thesis
    unfolding graph_iter_ok_def by (simp add: list_graph_neighbors list_graph_contains)
qed

lemma list_graph_ok: "graph_ok list_graph"
  by (simp add: graph_ok_def list_graph_add_ok list_graph_change_ok list_graph_iter_ok)

end
