(* ===== verification/Asm_Assign.thy ===== *)
theory Asm_Assign
  imports Asm_Graph
begin

text \<open>
  \<^verbatim>\<open>assign_registers\<close> of \<^verbatim>\<open>register_allocator.rs\<close>: the nodes of the stack, from the last
  pushed to the first, get a register that no neighbour holds.
\<close>

section \<open>Assigning registers\<close>

text \<open>The first register of the pool that no neighbour uses takes the new register.\<close>

fun assign_first ::
  "virtual_register list \<Rightarrow> virtual_register \<Rightarrow> register_pool \<Rightarrow> register_pool option" where
  "assign_first neighbors reg [] = None"
| "assign_first neighbors reg (status # pool) =
     (if set neighbors \<inter> set (used_by status) = {}
      then Some (status\<lparr>used_by := insort_insert reg (used_by status)\<rparr> # pool)
      else map_option (\<lambda>pool'. status # pool') (assign_first neighbors reg pool))"

definition graph_index :: "'g graph_api \<Rightarrow> 'g \<Rightarrow> node \<Rightarrow> virtual_register result" where
  "graph_index api graph n = unwrap_or_panic ''node index out of range'' (node_weight api graph n)"

definition assign_node :: "'g graph_api \<Rightarrow> 'g \<Rightarrow> node \<Rightarrow> register_pool \<Rightarrow> register_pool result" where
  "assign_node api graph node pool =
     bindE (graph_index api graph node) (\<lambda>reg.
     bindE (mapM (graph_index api graph) (neighbors_undirected api graph node)) (\<lambda>weights.
     let neighbors = btree_set weights in
     if is_virtual reg then
       case assign_first neighbors reg pool of
         Some pool' \<Rightarrow> Inr pool'
       | None \<Rightarrow> Inl (Internal ''The allocator cannot resolve a register mapping for this program. Using #[inline(never)] on some functions may help.'')
     else Inr pool))"

definition assign_registers :: "'g graph_api \<Rightarrow> 'g \<Rightarrow> node list \<Rightarrow> register_pool result" where
  "assign_registers api graph stack = foldM (assign_node api graph) (rev stack) pool_init"

section \<open>The assignment is a colouring\<close>

text \<open>A well formed pool: no allocated register twice, no virtual register in two of them.\<close>

definition pool_ok :: "register_pool \<Rightarrow> bool" where
  "pool_ok pool \<longleftrightarrow> distinct (map status_reg pool)
     \<and> (\<forall>s \<in> set pool. \<forall>r \<in> set (used_by s). get_register pool r = Some (status_reg s))"

definition pool_registers :: "register_pool \<Rightarrow> allocated_register set" where
  "pool_registers pool = status_reg ` set pool"

lemma get_register_simps [simp]:
  "get_register [] r = None"
  "get_register (s # pool) r = (if r \<in> set (used_by s) then Some (status_reg s) else get_register pool r)"
  by (simp_all add: get_register_def)

lemma get_register_None: "get_register pool r = None \<longleftrightarrow> (\<forall>s \<in> set pool. r \<notin> set (used_by s))"
  by (induction pool) auto

lemma get_register_in_pool: "get_register pool r = Some a \<Longrightarrow> a \<in> pool_registers pool"
  by (induction pool) (auto simp: pool_registers_def split: if_splits)

text \<open>What taking the first free register does to the pool.\<close>

lemma assign_first_pool:
  assumes "assign_first ns r pool = Some pool'" "get_register pool r = None"
  shows "map status_reg pool' = map status_reg pool
    \<and> (\<exists>s \<in> set pool. set ns \<inter> set (used_by s) = {} \<and> get_register pool' r = Some (status_reg s))
    \<and> (\<forall>r'. r' \<noteq> r \<longrightarrow> get_register pool' r' = get_register pool r')
    \<and> (\<forall>s' \<in> set pool'. \<forall>r' \<in> set (used_by s'). r' = r \<and> get_register pool' r = Some (status_reg s')
         \<or> r' \<noteq> r \<and> (\<exists>s \<in> set pool. status_reg s = status_reg s' \<and> r' \<in> set (used_by s)))"
  using assms
proof (induction pool arbitrary: pool')
  case (Cons s pool)
  show ?case
  proof (cases "set ns \<inter> set (used_by s) = {}")
    case True
    with Cons.prems have p': "pool' = s\<lparr>used_by := insort_insert r (used_by s)\<rparr> # pool" by simp
    with True Cons.prems(2) show ?thesis
      by (auto simp: set_insort_insert get_register_None split: if_splits)
  next
    case False
    with Cons.prems(1) obtain p1 where p1: "assign_first ns r pool = Some p1" "pool' = s # p1" by auto
    have "get_register pool r = None" "r \<notin> set (used_by s)" using Cons.prems(2) by (simp_all split: if_splits)
    with Cons.IH [OF p1(1)] p1(2) show ?thesis by auto
  qed
qed simp

lemma assign_first_ok:
  assumes "assign_first ns r pool = Some pool'" "pool_ok pool" "get_register pool r = None"
  shows "pool_ok pool'" "pool_registers pool' = pool_registers pool"
    "\<exists>a. get_register pool' r = Some a \<and> (\<forall>n \<in> set ns. get_register pool n \<noteq> Some a)"
    "r' \<noteq> r \<Longrightarrow> get_register pool' r' = get_register pool r'"
proof -
  note p = assign_first_pool [OF assms(1,3)]
  have regs: "map status_reg pool' = map status_reg pool" using p by blast
  show "pool_registers pool' = pool_registers pool"
    unfolding pool_registers_def using arg_cong [OF regs, of set] by simp
  show "pool_ok pool'" unfolding pool_ok_def
  proof (intro conjI ballI)
    show "distinct (map status_reg pool')" using regs assms(2) by (simp add: pool_ok_def)
  next
    fix s' r' assume *: "s' \<in> set pool'" "r' \<in> set (used_by s')"
    show "get_register pool' r' = Some (status_reg s')"
    proof (cases "r' = r")
      case True
      with p * show ?thesis by blast
    next
      case False
      with p * obtain s where "s \<in> set pool" "status_reg s = status_reg s'" "r' \<in> set (used_by s)" by blast
      with assms(2) have "get_register pool r' = Some (status_reg s')" by (auto simp: pool_ok_def)
      with p False show ?thesis by simp
    qed
  qed
  show "r' \<noteq> r \<Longrightarrow> get_register pool' r' = get_register pool r'" using p by blast
  obtain s where s: "s \<in> set pool" "set ns \<inter> set (used_by s) = {}" "get_register pool' r = Some (status_reg s)"
    using p by blast
  have "get_register pool n \<noteq> Some (status_reg s)" if "n \<in> set ns" for n
  proof
    assume g: "get_register pool n = Some (status_reg s)"
    then obtain s1 where "s1 \<in> set pool" "n \<in> set (used_by s1)" "status_reg s1 = status_reg s"
      by (auto simp: get_register_def find_Some_iff intro: nth_mem)
    with assms(2) s(1) have "s1 = s" by (auto simp: pool_ok_def distinct_map inj_on_def)
    with s(2) that \<open>n \<in> set (used_by s1)\<close> show False by auto
  qed
  with s(3) show "\<exists>a. get_register pool' r = Some a \<and> (\<forall>n \<in> set ns. get_register pool n \<noteq> Some a)" by blast
qed

text \<open>The pool is exhausted only when the neighbours already hold all of its registers.\<close>

lemma assign_first_fails:
  assumes "assign_first ns r pool = None" "pool_ok pool"
  shows "length pool \<le> card {n \<in> set ns. get_register pool n \<noteq> None}"
proof -
  have busy: "\<forall>s \<in> set pool. \<exists>n \<in> set ns. n \<in> set (used_by s)"
    using assms(1) by (induction pool) (auto split: if_splits)
  have "status_reg ` set pool \<subseteq> (\<lambda>n. the (get_register pool n)) ` {n \<in> set ns. get_register pool n \<noteq> None}"
  proof
    fix a assume "a \<in> status_reg ` set pool"
    then obtain s n where "s \<in> set pool" "a = status_reg s" "n \<in> set ns" "n \<in> set (used_by s)"
      using busy by blast
    moreover then have "get_register pool n = Some a" using assms(2) by (auto simp: pool_ok_def)
    ultimately show "a \<in> (\<lambda>n. the (get_register pool n)) ` {n \<in> set ns. get_register pool n \<noteq> None}"
      by (intro image_eqI [of _ _ n]) auto
  qed
  then have "card (status_reg ` set pool) \<le> card {n \<in> set ns. get_register pool n \<noteq> None}"
    by (rule surj_card_le [rotated]) simp
  moreover have "card (status_reg ` set pool) = length pool"
    using assms(2) distinct_card [of "map status_reg pool"] by (simp add: pool_ok_def)
  ultimately show ?thesis by simp
qed

definition adjacent :: "'g graph_api \<Rightarrow> 'g \<Rightarrow> node \<Rightarrow> node \<Rightarrow> bool" where
  "adjacent api g x y \<longleftrightarrow> (x, y) \<in> gedges api g \<or> (y, x) \<in> gedges api g"

text \<open>The edges of a graph join nodes of the graph, and no two nodes stand for one register.\<close>

definition valid_graph :: "'g graph_api \<Rightarrow> 'g \<Rightarrow> bool" where
  "valid_graph api g \<longleftrightarrow>
     (\<forall>x y. adjacent api g x y \<longrightarrow> node_weight api g y \<noteq> None)
   \<and> (\<forall>x y r. node_weight api g x = Some r \<longrightarrow> node_weight api g y = Some r \<longrightarrow> x = y)"

definition coloured :: "'g graph_api \<Rightarrow> 'g \<Rightarrow> register_pool \<Rightarrow> bool" where
  "coloured api g pool \<longleftrightarrow>
     (\<forall>x y v w a. adjacent api g x y \<longrightarrow> node_weight api g x = Some v \<longrightarrow> node_weight api g y = Some w
        \<longrightarrow> v \<noteq> w \<longrightarrow> get_register pool v = Some a \<longrightarrow> get_register pool w \<noteq> Some a)"

lemma neighbors_adjacent:
  "graph_ok api \<Longrightarrow> set (neighbors_undirected api g n) = {m. adjacent api g n m}"
  by (simp add: graph_okD(5) adjacent_def)

lemma adjacent_sym: "adjacent api g x y \<longleftrightarrow> adjacent api g y x"
  by (auto simp: adjacent_def)

lemma mapM_graph_index:
  assumes "\<forall>n \<in> set ns. node_weight api g n \<noteq> None"
  shows "mapM (graph_index api g) ns = Inr (map (\<lambda>n. the (node_weight api g n)) ns)"
  using assms by (induction ns) (auto simp: graph_index_def unwrap_or_panic_def split: option.splits)

lemma assign_node_unfold:
  assumes "graph_ok api" "valid_graph api g" "node_weight api g n = Some r" "is_virtual r"
  shows "\<exists>ns. set ns = {w. \<exists>x. adjacent api g n x \<and> node_weight api g x = Some w}
    \<and> assign_node api g n pool = (case assign_first ns r pool of
         Some pool' \<Rightarrow> Inr pool'
       | None \<Rightarrow> Inl (Internal ''The allocator cannot resolve a register mapping for this program. Using #[inline(never)] on some functions may help.''))"
proof -
  let ?ns = "neighbors_undirected api g n"
  have w: "\<forall>x \<in> set ?ns. node_weight api g x \<noteq> None"
    using assms(2) by (auto simp: neighbors_adjacent [OF assms(1)] valid_graph_def)
  have "set (btree_set (map (\<lambda>n. the (node_weight api g n)) ?ns))
      = {w. \<exists>x. adjacent api g n x \<and> node_weight api g x = Some w}"
    using w by (force simp: neighbors_adjacent [OF assms(1)])
  moreover have "assign_node api g n pool =
      (case assign_first (btree_set (map (\<lambda>n. the (node_weight api g n)) ?ns)) r pool of
         Some pool' \<Rightarrow> Inr pool'
       | None \<Rightarrow> Inl (Internal ''The allocator cannot resolve a register mapping for this program. Using #[inline(never)] on some functions may help.''))"
    using assms(3,4) mapM_graph_index [OF w]
    by (simp add: assign_node_def Let_def graph_index_def unwrap_or_panic_def)
  ultimately show ?thesis by blast
qed

text \<open>One node of the stack: it is coloured, or its coloured neighbours fill the pool.\<close>

lemma assign_node_ok:
  assumes "graph_ok api" "valid_graph api g" "node_weight api g n = Some r" "is_virtual r"
    and "pool_ok pool" "coloured api g pool" "get_register pool r = None"
  shows "case assign_node api g n pool of
      Inr pool' \<Rightarrow> pool_ok pool' \<and> coloured api g pool' \<and> pool_registers pool' = pool_registers pool
        \<and> length pool' = length pool
        \<and> (\<forall>r'. get_register pool' r' \<noteq> None \<longleftrightarrow> r' = r \<or> get_register pool r' \<noteq> None)
    | Inl _ \<Rightarrow> length pool \<le>
        card {w. \<exists>x. adjacent api g n x \<and> node_weight api g x = Some w \<and> get_register pool w \<noteq> None}"
proof -
  obtain ns where ns: "set ns = {w. \<exists>x. adjacent api g n x \<and> node_weight api g x = Some w}"
    "assign_node api g n pool = (case assign_first ns r pool of
         Some pool' \<Rightarrow> Inr pool'
       | None \<Rightarrow> Inl (Internal ''The allocator cannot resolve a register mapping for this program. Using #[inline(never)] on some functions may help.''))"
    using assign_node_unfold [OF assms(1-4)] by blast
  show ?thesis
  proof (cases "assign_first ns r pool")
    case None
    have "{w \<in> set ns. get_register pool w \<noteq> None} =
        {w. \<exists>x. adjacent api g n x \<and> node_weight api g x = Some w \<and> get_register pool w \<noteq> None}"
      using ns(1) by blast
    with assign_first_fails [OF None assms(5)] ns(2) None show ?thesis by simp
  next
    case (Some pool')
    note ok = assign_first_ok [OF Some assms(5,7)]
    obtain a where a: "get_register pool' r = Some a" "\<forall>w \<in> set ns. get_register pool w \<noteq> Some a"
      using ok(3) by blast
    have near: "get_register pool' w \<noteq> Some a"
      if "adjacent api g n y" "node_weight api g y = Some w" "w \<noteq> r" for y w
      using that a(2) ns(1) ok(4) by auto
    have node: "x = n" if "node_weight api g x = Some r" for x
      using that assms(2,3) by (auto simp: valid_graph_def)
    have "coloured api g pool'" unfolding coloured_def
    proof (intro allI impI)
      fix x y v w c
      assume *: "adjacent api g x y" "node_weight api g x = Some v" "node_weight api g y = Some w"
        "v \<noteq> w" "get_register pool' v = Some c"
      consider "v = r" | "w = r" | "v \<noteq> r" "w \<noteq> r" by blast
      then show "get_register pool' w \<noteq> Some c"
      proof cases
        case 1
        then show ?thesis using near * a(1) node by auto
      next
        case 2
        then have "adjacent api g n x" using * node adjacent_sym by metis
        then show ?thesis using near [of x v] 2 * a(1) by auto
      next
        case 3
        then show ?thesis using * assms(6) ok(4) unfolding coloured_def by metis
      qed
    qed
    moreover have "length pool' = length pool"
      using assign_first_pool [OF Some assms(7)] by (metis length_map)
    moreover have "get_register pool' r' \<noteq> None \<longleftrightarrow> r' = r \<or> get_register pool r' \<noteq> None" for r'
      using a(1) ok(4) by (cases "r' = r") auto
    ultimately show ?thesis using ok(1,2) ns(2) Some by simp
  qed
qed

lemma unat_of_nat_u8: "x < 256 \<Longrightarrow> unat (of_nat x :: u8) = x"
  by (simp add: unsigned_of_nat take_bit_nat_eq_self)

lemma distinct_pool_init: "distinct (map status_reg pool_init)"
proof -
  have "x = y" if "x < 37" "y < 37" "(of_nat x :: u8) = of_nat y" for x y
  proof -
    have "x = unat (of_nat x :: u8)" using that(1) unat_of_nat_u8 [of x] by linarith
    also have "\<dots> = y" unfolding that(3) using that(2) unat_of_nat_u8 [of y] by linarith
    finally show ?thesis .
  qed
  then have "inj_on (\<lambda>x. Allocated (of_nat x)) (set [0..<37])" by (intro inj_onI) simp
  moreover have "map status_reg pool_init = map (\<lambda>x. Allocated (of_nat x)) [0..<37]"
    unfolding pool_init_def NUM_ALLOCATABLE_REGISTERS_value by simp
  moreover have "distinct (map f [0..<37])" if "inj_on f (set [0..<37])" for f :: "nat \<Rightarrow> allocated_register"
    using that by (simp only: distinct_map distinct_upt simp_thms)
  ultimately show ?thesis by (simp only:)
qed

lemma pool_init_ok: "pool_ok pool_init" "coloured api g pool_init" "get_register pool_init r = None"
proof -
  show g: "get_register pool_init r = None" for r by (auto simp: get_register_None pool_init_def)
  then show "coloured api g pool_init" by (simp add: coloured_def)
  show "pool_ok pool_init"
    using distinct_pool_init by (auto simp: pool_ok_def) (auto simp: pool_init_def)
qed

lemma pool_init_registers: "a \<in> pool_registers pool_init \<Longrightarrow> \<exists>x. a = Allocated x \<and> x < NUM_ALLOCATABLE_REGISTERS"
  by (auto simp: pool_registers_def pool_init_def NUM_ALLOCATABLE_REGISTERS_value word_less_nat_alt
      unat_of_nat_u8)

text \<open>
  Working through the nodes of the stack: every one is coloured, or the nodes coloured before some
  node of the stack hold at least as many neighbours of it as the pool has registers.
\<close>

definition pool_full_at :: "'g graph_api \<Rightarrow> 'g \<Rightarrow> node list \<Rightarrow> bool" where
  "pool_full_at api g ns \<longleftrightarrow>
     (\<exists>xs n ys. ns = xs @ n # ys \<and> length pool_init \<le> card {x \<in> set xs. adjacent api g n x})"

lemma assign_stack_ok:
  assumes "graph_ok api" "valid_graph api g"
    and "distinct ns" "\<forall>n \<in> set ns. \<exists>r. node_weight api g n = Some r \<and> is_virtual r"
  shows "case foldM (assign_node api g) ns pool_init of
      Inr pool \<Rightarrow> pool_ok pool \<and> coloured api g pool \<and> pool_registers pool = pool_registers pool_init
        \<and> length pool = length pool_init
        \<and> (\<forall>r. get_register pool r \<noteq> None \<longleftrightarrow> (\<exists>n \<in> set ns. node_weight api g n = Some r))
    | Inl _ \<Rightarrow> pool_full_at api g ns"
  using assms(3,4)
proof (induction ns rule: rev_induct)
  case Nil
  then show ?case by (simp add: pool_init_ok)
next
  case (snoc n ns)
  show ?case
  proof (cases "foldM (assign_node api g) ns pool_init")
    case (Inl e)
    with snoc show ?thesis by (fastforce simp: foldM_append pool_full_at_def)
  next
    case (Inr pool)
    with snoc have IH: "pool_ok pool" "coloured api g pool"
        "pool_registers pool = pool_registers pool_init" "length pool = length pool_init"
        "\<And>r. get_register pool r \<noteq> None \<longleftrightarrow> (\<exists>n \<in> set ns. node_weight api g n = Some r)"
      by simp_all
    obtain r where r: "node_weight api g n = Some r" "is_virtual r" using snoc.prems(2) by auto
    have new: "get_register pool r = None"
      using IH(5) [of r] r(1) snoc.prems(1) assms(2) unfolding valid_graph_def
      by (metis distinct_append disjoint_iff list.set_intros(1))
    have "{w. \<exists>x. adjacent api g n x \<and> node_weight api g x = Some w \<and> get_register pool w \<noteq> None}
        \<subseteq> (\<lambda>x. the (node_weight api g x)) ` {x \<in> set ns. adjacent api g n x}"
    proof
      fix w assume "w \<in> {w. \<exists>x. adjacent api g n x \<and> node_weight api g x = Some w \<and> get_register pool w \<noteq> None}"
      then obtain x y where "adjacent api g n x" "node_weight api g x = Some w"
          "y \<in> set ns" "node_weight api g y = Some w" using IH(5) by blast
      moreover then have "x = y" using assms(2) unfolding valid_graph_def by blast
      ultimately show "w \<in> (\<lambda>x. the (node_weight api g x)) ` {x \<in> set ns. adjacent api g n x}"
        by (intro image_eqI [of _ _ x]) auto
    qed
    then have "card {w. \<exists>x. adjacent api g n x \<and> node_weight api g x = Some w \<and> get_register pool w \<noteq> None}
        \<le> card {x \<in> set ns. adjacent api g n x}"
      by (rule surj_card_le [rotated]) simp
    with assign_node_ok [OF assms(1,2) r IH(1,2) new] IH(3-5) Inr r(1) show ?thesis
      by (fastforce simp: foldM_append pool_full_at_def split: sum.splits)
  qed
qed

end
