(* ===== verification/Asm_Coalesce.thy ===== *)
theory Asm_Coalesce
  imports Asm_Assign
begin

text \<open>
  \<^verbatim>\<open>coalesce_registers\<close> of \<^verbatim>\<open>register_allocator.rs\<close>: a \<^verbatim>\<open>MOVE\<close> between two virtual
  registers that do not interfere is dropped and their nodes are merged, when one of two safety
  conditions holds. The result is a renaming of the registers; its graph still has an edge
  wherever the renamed instructions need one.
\<close>

section \<open>Chains of replaced registers\<close>

text \<open>An \<^verbatim>\<open>IndexMap\<close> is an association list in the order of insertion.\<close>

definition index_map_insert :: "'k \<Rightarrow> 'v \<Rightarrow> ('k \<times> 'v) list \<Rightarrow> ('k \<times> 'v) list" where
  "index_map_insert k v m =
     (if k \<in> fst ` set m then map (\<lambda>(k', v'). if k' = k then (k, v) else (k', v')) m else vec_push m (k, v))"

text \<open>The loop \<^verbatim>\<open>while let Some(t) = reg_to_reg_map.get(r1) { r1 = t; }\<close>.\<close>

fun chase :: "nat \<Rightarrow> ('a \<rightharpoonup> 'a) \<Rightarrow> 'a \<Rightarrow> 'a result" where
  "chase 0 m r = Inl OutOfFuel"
| "chase (Suc fuel) m r = (case m r of Some t \<Rightarrow> chase fuel m t | None \<Rightarrow> Inr r)"

section \<open>The algorithm\<close>

record 'g coalesce_state =
  interference_graph :: 'g
  reg_to_node_map :: "virtual_register \<rightharpoonup> node"
  reg_to_reg_map :: "(virtual_register \<times> virtual_register) list"
  reduced_ops :: "op list"
  reduced_live_out :: "virtual_register list list"

definition index_set_of :: "'a list \<Rightarrow> 'a list" where
  "index_set_of xs = fold push_if_absent xs []"

definition high_degree :: "'g graph_api \<Rightarrow> 'g \<Rightarrow> node \<Rightarrow> bool" where
  "high_degree api g n \<longleftrightarrow> length (neighbors_undirected api g n) \<ge> unat NUM_ALLOCATABLE_REGISTERS"

definition briggs_safety :: "'g graph_api \<Rightarrow> 'g \<Rightarrow> node list \<Rightarrow> node list \<Rightarrow> bool" where
  "briggs_safety api g r1_neighbours r2_neighbours \<longleftrightarrow>
     length (filter (high_degree api g)
        (r1_neighbours @ filter (\<lambda>n. n \<notin> set r1_neighbours) r2_neighbours)) < unat NUM_ALLOCATABLE_REGISTERS"

definition george_safety :: "'g graph_api \<Rightarrow> 'g \<Rightarrow> node list \<Rightarrow> node list \<Rightarrow> bool" where
  "george_safety api g r1_neighbours r2_neighbours \<longleftrightarrow>
     list_all (\<lambda>r2_neighbor. r2_neighbor \<in> set r1_neighbours \<or> \<not> high_degree api g r2_neighbor) r2_neighbours"

definition merge_nodes :: "'g graph_api \<Rightarrow> node \<Rightarrow> node \<Rightarrow> node list \<Rightarrow> 'g \<Rightarrow> 'g" where
  "merge_nodes api ix1 ix2 r1_neighbours g =
     remove_node api ix1
       (fold (\<lambda>neighbor g. if contains_edge api g ix2 neighbor then g else update_edge api neighbor ix2 True g)
          r1_neighbours g)"

definition preserve_op :: "op \<Rightarrow> virtual_register list \<Rightarrow> 'g coalesce_state \<Rightarrow> 'g coalesce_state" where
  "preserve_op o' live st =
     st\<lparr>reduced_ops := vec_push (reduced_ops st) o', reduced_live_out := vec_push (reduced_live_out st) live\<rparr>"

definition coalesce_move ::
  "'g graph_api \<Rightarrow> nat \<Rightarrow> op \<Rightarrow> virtual_register list \<Rightarrow> virtual_register \<Rightarrow> virtual_register
     \<Rightarrow> 'g coalesce_state \<Rightarrow> 'g coalesce_state result" where
  "coalesce_move api fuel o' live x y st =
     bindE (chase fuel (map_of (reg_to_reg_map st)) x) (\<lambda>r1.
     bindE (chase fuel (map_of (reg_to_reg_map st)) y) (\<lambda>r2.
     bindE (unwrap_or_panic ''called unwrap on a None value'' (reg_to_node_map st r1)) (\<lambda>ix1.
     bindE (unwrap_or_panic ''called unwrap on a None value'' (reg_to_node_map st r2)) (\<lambda>ix2.
     if r1 = r2 then Inr st
     else
       let graph = interference_graph st;
           r1_neighbours = index_set_of (neighbors_undirected api graph ix1);
           r2_neighbours = index_set_of (neighbors_undirected api graph ix2);
           safe = (briggs_safety api graph r1_neighbours r2_neighbours
                   \<or> george_safety api graph r1_neighbours r2_neighbours)
       in if contains_edge api graph ix1 ix2 \<or> contains_edge api graph ix2 ix1 \<or> \<not> safe
          then Inr (preserve_op o' live st)
          else Inr (st\<lparr>interference_graph := merge_nodes api ix1 ix2 r1_neighbours graph,
                       reg_to_node_map := (reg_to_node_map st)(r1 \<mapsto> ix2),
                       reg_to_reg_map := index_map_insert r1 r2 (reg_to_reg_map st)\<rparr>)))))"

definition coalesce_op ::
  "'g graph_api \<Rightarrow> nat \<Rightarrow> op \<times> virtual_register list \<Rightarrow> 'g coalesce_state \<Rightarrow> 'g coalesce_state result" where
  "coalesce_op api fuel = (\<lambda>(o', live) st.
     case opcode o' of
       Inl (Alu (MOVE (Virtual x) (Virtual y))) \<Rightarrow> coalesce_move api fuel o' live (Virtual x) (Virtual y) st
     | _ \<Rightarrow> Inr (preserve_op o' live st))"

definition final_reg_map ::
  "nat \<Rightarrow> (virtual_register \<times> virtual_register) list \<Rightarrow> (virtual_register \<times> virtual_register) list result" where
  "final_reg_map fuel m =
     foldM (\<lambda>reg final. bindE (chase fuel (map_of m) reg) (\<lambda>temp. Inr (index_map_insert reg temp final)))
       (map fst m) []"

text \<open>\<^verbatim>\<open>remove\<close> and \<^verbatim>\<open>insert\<close> on the ordered set of the registers live after an instruction.\<close>

definition update_live :: "(virtual_register \<times> virtual_register) list \<Rightarrow> virtual_register list \<Rightarrow> virtual_register list" where
  "update_live final live =
     fold (\<lambda>(old, new) live. if old \<in> set live then insort_insert new (filter (\<lambda>r. r \<noteq> old) live) else live) final live"

definition coalesce_registers ::
  "'g graph_api \<Rightarrow> nat \<Rightarrow> op list \<Rightarrow> virtual_register list list \<Rightarrow> 'g \<Rightarrow> (virtual_register \<rightharpoonup> node)
     \<Rightarrow> (op list \<times> virtual_register list list \<times> 'g \<times> (virtual_register \<rightharpoonup> node)) result" where
  "coalesce_registers api fuel ops live_out graph node_map =
     (if length ops \<noteq> length live_out
      then Inl (Panic ''assertion failed: ops.len() == live_out.len()'')
      else
        bindE (foldM (coalesce_op api fuel) (zip ops live_out)
                 \<lparr>interference_graph = graph, reg_to_node_map = node_map, reg_to_reg_map = [],
                  reduced_ops = [], reduced_live_out = []\<rparr>) (\<lambda>st.
        bindE (final_reg_map fuel (reg_to_reg_map st)) (\<lambda>final.
        bindE (mapM (op_update_register (map_of final)) (reduced_ops st)) (\<lambda>ops'.
        Inr (ops', map (update_live final) (reduced_live_out st), interference_graph st, reg_to_node_map st)))))"

section \<open>Following a chain\<close>

text \<open>
  The chains are finite: an entry is added only between two registers that are not replaced
  yet. \<open>resolve\<close> is the end of the chain of a register.
\<close>

inductive forest :: "('a \<times> 'a) list \<Rightarrow> bool" where
  forest_Nil: "forest []"
| forest_snoc: "forest m \<Longrightarrow> a \<notin> fst ` set m \<Longrightarrow> b \<notin> fst ` set m \<Longrightarrow> a \<noteq> b \<Longrightarrow> forest (m @ [(a, b)])"

definition resolve :: "('a \<times> 'a) list \<Rightarrow> 'a \<Rightarrow> 'a" where
  "resolve m r = foldl (\<lambda>t (a, b). if t = a then b else t) r m"

lemma resolve_simps [simp]:
  "resolve [] r = r"
  "resolve (m @ [(a, b)]) r = (if resolve m r = a then b else resolve m r)"
  by (simp_all add: resolve_def)

lemma chase_mono: "chase f m r = Inr t \<Longrightarrow> f \<le> f' \<Longrightarrow> chase f' m r = Inr t"
proof (induction f arbitrary: r f')
  case (Suc f)
  then show ?case by (cases f') (auto split: option.splits)
qed simp

lemma chase_snoc:
  assumes "a \<notin> fst ` set m" "b \<notin> fst ` set m" "a \<noteq> b"
  shows "chase f (map_of m) r = Inr t \<Longrightarrow>
    chase (Suc f) (map_of (m @ [(a, b)])) r = Inr (if t = a then b else t)"
proof (induction f arbitrary: r)
  case (Suc f)
  have new: "([a \<mapsto> b] ++ map_of m) k = (case map_of m k of Some v \<Rightarrow> Some v | None \<Rightarrow> if k = a then Some b else None)" for k
    by (simp add: map_add_def split: option.splits)
  have "map_of m a = None" "map_of m b = None" using assms(1,2) by (auto simp: map_of_eq_None_iff)
  with Suc assms(3) show ?case
    by (cases "map_of m r") (auto simp: new)
qed simp

lemma chase_resolve: "forest m \<Longrightarrow> length m < f \<Longrightarrow> chase f (map_of m) r = Inr (resolve m r)"
proof (induction arbitrary: f r rule: forest.induct)
  case forest_Nil
  then show ?case by (cases f) auto
next
  case (forest_snoc m a b)
  have "chase (length m + 1) (map_of m) r = Inr (resolve m r)" by (rule forest_snoc.IH) simp
  from chase_snoc [OF forest_snoc.hyps(2-4) this]
  have "chase (length m + 2) (map_of (m @ [(a, b)])) r = Inr (resolve (m @ [(a, b)]) r)" by simp
  then show ?case by (rule chase_mono) (use forest_snoc.prems in simp)
qed

lemma resolve_root: "forest m \<Longrightarrow> resolve m r \<notin> fst ` set m"
  by (induction rule: forest.induct) auto

lemma resolve_id: "r \<notin> fst ` set m \<Longrightarrow> resolve m r = r"
  by (induction m rule: rev_induct) auto

lemma resolve_range: "resolve m r = r \<or> resolve m r \<in> snd ` set m"
proof (induction m rule: rev_induct)
  case (snoc ab m)
  then show ?case by (cases ab) auto
qed simp

lemma forest_distinct: "forest m \<Longrightarrow> distinct (map fst m)"
  by (induction rule: forest.induct) auto

lemma index_map_insert_new: "k \<notin> fst ` set m \<Longrightarrow> index_map_insert k v m = m @ [(k, v)]"
  by (simp add: index_map_insert_def vec_push_def)

lemma final_reg_map_ok:
  assumes "forest m" "length m < fuel"
  shows "final_reg_map fuel m = Inr (map (\<lambda>r. (r, resolve m r)) (map fst m))"
proof -
  let ?step = "\<lambda>reg final. bindE (chase fuel (map_of m) reg) (\<lambda>temp. Inr (index_map_insert reg temp final))"
  have "distinct (map fst acc @ regs) \<Longrightarrow>
      foldM ?step regs acc = Inr (acc @ map (\<lambda>r. (r, resolve m r)) regs)" for regs acc
  proof (induction regs arbitrary: acc)
    case (Cons r regs)
    have "index_map_insert r (resolve m r) acc = acc @ [(r, resolve m r)]"
      using Cons.prems by (intro index_map_insert_new) auto
    with Cons.IH [of "acc @ [(r, resolve m r)]"] Cons.prems show ?case
      by (simp add: chase_resolve [OF assms])
  qed simp
  from this [of "[]" "map fst m"] show ?thesis
    using forest_distinct [OF assms(1)] by (simp add: final_reg_map_def)
qed

lemma renaming_final: "renaming (map_of (map (\<lambda>r. (r, resolve m r)) (map fst m))) r = resolve m r"
proof (cases "r \<in> fst ` set m")
  case True
  then have "r \<in> set (map fst m)" by simp
  from map_of_graph [OF this, of "resolve m"] show ?thesis by (simp only: renaming_def option.case)
next
  case False
  then have "map_of (map (\<lambda>r. (r, resolve m r)) (map fst m)) r = None"
    by (force simp: map_of_eq_None_iff)
  then show ?thesis by (simp add: renaming_def resolve_id [OF False])
qed

section \<open>Merging two nodes\<close>

lemma set_index_set_of [simp]: "set (index_set_of xs) = set xs"
proof -
  have "set (fold push_if_absent xs acc) = set acc \<union> set xs" for acc :: "'a list"
    by (induction xs arbitrary: acc) auto
  then show ?thesis by (simp add: index_set_of_def)
qed

lemma update_edge_adjacent:
  assumes "graph_ok api" "node_weight api g a \<noteq> None" "node_weight api g b \<noteq> None"
  shows "adjacent api (update_edge api a b w g) x y \<longleftrightarrow> adjacent api g x y \<or> {x, y} = {a, b}"
  using update_edge_ok [OF assms] by (auto simp: adjacent_def doubleton_eq_iff)

lemma remove_node_ok:
  assumes "graph_ok api"
  shows "node_weight api (remove_node api n g) = (node_weight api g)(n := None)"
    and "adjacent api (remove_node api n g) x y \<longleftrightarrow> adjacent api g x y \<and> x \<noteq> n \<and> y \<noteq> n"
    and "edges_on api g \<Longrightarrow> edges_on api (remove_node api n g)"
proof -
  have ends: "edge_endpoints api (remove_node api n g) =
      (\<lambda>e. case edge_endpoints api g e of Some (a, b) \<Rightarrow> if a = n \<or> b = n then None else Some (a, b) | None \<Rightarrow> None)"
    and w: "node_weight api (remove_node api n g) = (node_weight api g)(n := None)"
    using assms by (simp_all add: graph_ok_def graph_change_ok_def)
  have "edge_endpoints api (remove_node api n g) e = Some (x, y) \<longleftrightarrow>
      edge_endpoints api g e = Some (x, y) \<and> x \<noteq> n \<and> y \<noteq> n" for e x y
    by (auto simp: ends split: option.splits if_splits)
  then have "(x, y) \<in> gedges api (remove_node api n g) \<longleftrightarrow> (x, y) \<in> gedges api g \<and> x \<noteq> n \<and> y \<noteq> n" for x y
    by (auto simp: gedges_def)
  then show "adjacent api (remove_node api n g) x y \<longleftrightarrow> adjacent api g x y \<and> x \<noteq> n \<and> y \<noteq> n"
    by (auto simp: adjacent_def)
  show "node_weight api (remove_node api n g) = (node_weight api g)(n := None)" by (rule w)
  have "edge_weight api (remove_node api n g) e = edge_weight api g e"
    if "edge_endpoints api (remove_node api n g) e \<noteq> None" for e
    using assms that by (simp add: graph_ok_def graph_change_ok_def)
  then show "edges_on api g \<Longrightarrow> edges_on api (remove_node api n g)"
    by (auto simp: edges_on_def ends split: option.splits if_splits)
qed

lemma contains_edge_ok: "graph_ok api \<Longrightarrow> contains_edge api g a b \<longleftrightarrow> (a, b) \<in> gedges api g"
  by (simp add: graph_ok_def graph_iter_ok_def)

lemma add_neighbours_ok:
  assumes "graph_ok api" "node_weight api g ix2 \<noteq> None" "\<forall>n \<in> set ns. node_weight api g n \<noteq> None"
  defines "step \<equiv> \<lambda>neighbor g. if contains_edge api g ix2 neighbor then g else update_edge api neighbor ix2 True g"
  shows "node_weight api (fold step ns g) = node_weight api g \<and> (edges_on api g \<longrightarrow> edges_on api (fold step ns g))
    \<and> (\<forall>x y. adjacent api (fold step ns g) x y \<longleftrightarrow>
         adjacent api g x y \<or> x = ix2 \<and> y \<in> set ns \<or> y = ix2 \<and> x \<in> set ns)"
  using assms(2,3)
proof (induction ns arbitrary: g)
  case (Cons n ns)
  have upd: "node_weight api (step n g) = node_weight api g \<and> (edges_on api g \<longrightarrow> edges_on api (step n g))
      \<and> (\<forall>x y. adjacent api (step n g) x y \<longleftrightarrow> adjacent api g x y \<or> {x, y} = {n, ix2})"
  proof (cases "contains_edge api g ix2 n")
    case True
    then show ?thesis
      by (auto simp: step_def contains_edge_ok [OF assms(1)] adjacent_def doubleton_eq_iff)
  next
    case False
    then show ?thesis
      using update_edge_ok [OF assms(1), of g n ix2 True] update_edge_adjacent [OF assms(1), of g n ix2 True]
        Cons.prems by (simp add: step_def)
  qed
  with Cons.IH [of "step n g"] Cons.prems show ?case
    by (auto simp: doubleton_eq_iff)
qed simp

lemma merge_nodes_ok:
  assumes "graph_ok api" "valid_graph api g" "node_weight api g ix1 \<noteq> None" "node_weight api g ix2 \<noteq> None"
    and "ix1 \<noteq> ix2" "\<not> adjacent api g ix1 ix2"
  defines "g' \<equiv> merge_nodes api ix1 ix2 (index_set_of (neighbors_undirected api g ix1)) g"
  shows "node_weight api g' = (node_weight api g)(ix1 := None)"
    and "adjacent api g' x y \<longleftrightarrow> x \<noteq> ix1 \<and> y \<noteq> ix1 \<and>
      (adjacent api g x y \<or> x = ix2 \<and> adjacent api g ix1 y \<or> y = ix2 \<and> adjacent api g ix1 x)"
    and "edges_on api g \<Longrightarrow> edges_on api g'"
proof -
  let ?ns = "index_set_of (neighbors_undirected api g ix1)"
  have ns: "set ?ns = {n. adjacent api g ix1 n}" by (simp add: neighbors_adjacent [OF assms(1)])
  then have "\<forall>n \<in> set ?ns. node_weight api g n \<noteq> None" using assms(2) unfolding valid_graph_def by blast
  note add = add_neighbours_ok [OF assms(1,4) this]
  show "node_weight api g' = (node_weight api g)(ix1 := None)"
    unfolding g'_def merge_nodes_def remove_node_ok(1) [OF assms(1)] using add by simp
  show "adjacent api g' x y \<longleftrightarrow> x \<noteq> ix1 \<and> y \<noteq> ix1 \<and>
      (adjacent api g x y \<or> x = ix2 \<and> adjacent api g ix1 y \<or> y = ix2 \<and> adjacent api g ix1 x)"
    unfolding g'_def merge_nodes_def remove_node_ok(2) [OF assms(1)] using add ns by auto
  show "edges_on api g \<Longrightarrow> edges_on api g'"
    unfolding g'_def merge_nodes_def using add remove_node_ok(3) [OF assms(1)] by blast
qed

section \<open>The invariant of the loop\<close>

text \<open>Two registers interfere in a graph when their nodes are adjacent.\<close>

definition reg_adjacent :: "'g graph_api \<Rightarrow> 'g \<Rightarrow> virtual_register \<Rightarrow> virtual_register \<Rightarrow> bool" where
  "reg_adjacent api g v b \<longleftrightarrow>
     (\<exists>x y. node_weight api g x = Some v \<and> node_weight api g y = Some b \<and> adjacent api g x y)"

definition loop_free :: "'g graph_api \<Rightarrow> 'g \<Rightarrow> bool" where
  "loop_free api g \<longleftrightarrow> (\<forall>x. \<not> adjacent api g x x)"

text \<open>
  Every register that is not replaced has its own node, and interfering registers of the graph
  at the start are replaced by interfering registers.
\<close>

definition merge_inv ::
  "'g graph_api \<Rightarrow> virtual_register set \<Rightarrow> (virtual_register \<Rightarrow> virtual_register \<Rightarrow> bool)
     \<Rightarrow> 'g \<Rightarrow> (virtual_register \<rightharpoonup> node) \<Rightarrow> (virtual_register \<times> virtual_register) list \<Rightarrow> bool" where
  "merge_inv api V E g m rs \<longleftrightarrow>
     forest rs \<and> fst ` set rs \<union> snd ` set rs \<subseteq> V \<and> dom m = V \<and> valid_graph api g \<and> loop_free api g \<and> edges_on api g
   \<and> (\<forall>r x. node_weight api g x = Some r \<longleftrightarrow> r \<notin> fst ` set rs \<and> m r = Some x)
   \<and> (\<forall>v b. E v b \<longrightarrow> reg_adjacent api g (resolve rs v) (resolve rs b))"

lemma resolve_in: "fst ` set rs \<union> snd ` set rs \<subseteq> V \<Longrightarrow> r \<in> V \<Longrightarrow> resolve rs r \<in> V"
  using resolve_range [of rs r] by auto

lemma merge_inv_nodes:
  assumes "merge_inv api V E g m rs" "r \<in> V" "r \<notin> fst ` set rs"
  shows "\<exists>x. m r = Some x \<and> node_weight api g x = Some r"
  using assms unfolding merge_inv_def by (metis domD)

lemma merge_inv_step:
  assumes "graph_ok api" "merge_inv api V E g m rs"
    and r1: "r1 \<in> V" "r1 \<notin> fst ` set rs" "m r1 = Some ix1"
    and r2: "r2 \<in> V" "r2 \<notin> fst ` set rs" "m r2 = Some ix2"
    and "r1 \<noteq> r2" "\<not> adjacent api g ix1 ix2"
  defines "g' \<equiv> merge_nodes api ix1 ix2 (index_set_of (neighbors_undirected api g ix1)) g"
  shows "merge_inv api V E g' (m(r1 \<mapsto> ix2)) (index_map_insert r1 r2 rs)"
proof -
  have w: "node_weight api g x = Some r \<longleftrightarrow> r \<notin> fst ` set rs \<and> m r = Some x"
    and valid: "valid_graph api g" and free: "\<not> adjacent api g x x" for r x
    using assms(2) by (auto simp: merge_inv_def loop_free_def)
  have w1: "node_weight api g ix1 = Some r1" "node_weight api g ix2 = Some r2" using w r1 r2 by auto
  then have ne: "ix1 \<noteq> ix2" using assms(9) by auto
  note merge = merge_nodes_ok [OF assms(1) valid _ _ ne assms(10), folded g'_def]
  have g'w: "node_weight api g' = (node_weight api g)(ix1 := None)"
    and g'a: "adjacent api g' x y \<longleftrightarrow> x \<noteq> ix1 \<and> y \<noteq> ix1 \<and>
      (adjacent api g x y \<or> x = ix2 \<and> adjacent api g ix1 y \<or> y = ix2 \<and> adjacent api g ix1 x)"
    and g'e: "edges_on api g'" for x y
    using merge w1 assms(2) by (simp_all add: merge_inv_def)
  let ?rs = "rs @ [(r1, r2)]"
  have rs: "index_map_insert r1 r2 rs = ?rs" by (rule index_map_insert_new) (rule r1(2))
  have "forest ?rs" using assms(2,9) r1 r2 by (auto simp: merge_inv_def intro: forest_snoc)
  moreover have "fst ` set ?rs \<union> snd ` set ?rs \<subseteq> V" "dom (m(r1 \<mapsto> ix2)) = V"
    using assms(2) r1(1) r2(1) by (auto simp: merge_inv_def)
  moreover have "valid_graph api g'"
    using valid w1 ne adjacent_sym unfolding valid_graph_def g'w g'a by (metis fun_upd_apply option.distinct(1))
  moreover have "loop_free api g'"
    using free assms(10) by (auto simp: loop_free_def g'a)
  moreover have "node_weight api g' x = Some r \<longleftrightarrow> r \<notin> fst ` set ?rs \<and> (m(r1 \<mapsto> ix2)) r = Some x" for r x
    using w [of x r] w1(1) r1 by (auto simp: g'w)
  moreover have "reg_adjacent api g' (resolve ?rs v) (resolve ?rs b)" if "E v b" for v b
  proof -
    have "reg_adjacent api g (resolve rs v) (resolve rs b)" using that assms(2) by (simp add: merge_inv_def)
    then obtain x y where xy: "node_weight api g x = Some (resolve rs v)"
      "node_weight api g y = Some (resolve rs b)" "adjacent api g x y"
      unfolding reg_adjacent_def by blast
    let ?t = "\<lambda>x. if x = ix1 then ix2 else x"
    have node: "node_weight api g' (?t x) = Some (if r = r1 then r2 else r)" if "node_weight api g x = Some r" for x r
      using that w [of x r] w [of ix1 r] w1 ne r1(3) by (auto simp: g'w)
    have "adjacent api g' (?t x) (?t y)"
      using xy(3) free ne adjacent_sym [of api g] by (auto simp: g'a)
    then show ?thesis
      using node [OF xy(1)] node [OF xy(2)] unfolding reg_adjacent_def resolve_simps by blast
  qed
  ultimately show ?thesis unfolding merge_inv_def rs using g'e by blast
qed

text \<open>The instructions kept, by their positions; a dropped one moves between registers that are now one.\<close>

definition dropped_move :: "(virtual_register \<Rightarrow> virtual_register) \<Rightarrow> op \<Rightarrow> bool" where
  "dropped_move h o' \<longleftrightarrow>
     (\<exists>x y. opcode o' = Inl (Alu (MOVE x y)) \<and> is_virtual x \<and> is_virtual y \<and> h x = h y)"

definition kept_inv :: "op list \<Rightarrow> virtual_register list list \<Rightarrow> 'g coalesce_state \<Rightarrow> nat list \<Rightarrow> bool" where
  "kept_inv ops live_out st idxs \<longleftrightarrow>
     reduced_ops st = map ((!) ops) idxs \<and> reduced_live_out st = map ((!) live_out) idxs
   \<and> sorted_wrt (<) idxs \<and> set idxs \<subseteq> {..<length ops}
   \<and> (\<forall>i < length ops. i \<notin> set idxs \<longrightarrow> dropped_move (resolve (reg_to_reg_map st)) (ops ! i))"

lemma nth_prefix: "set idxs \<subseteq> {..<length xs} \<Longrightarrow> map ((!) (xs @ ys)) idxs = map ((!) xs) idxs"
  by (auto simp: nth_append)

lemma kept_inv_preserve:
  assumes "kept_inv ops live_out st idxs" "length ops = length live_out"
  shows "kept_inv (ops @ [o']) (live_out @ [l]) (preserve_op o' l st) (idxs @ [length ops])"
  using assms nth_prefix [of idxs ops "[o']"] nth_prefix [of idxs live_out "[l]"]
  by (auto simp: kept_inv_def preserve_op_def vec_push_def sorted_wrt_append nth_append less_Suc_eq)

lemma kept_inv_drop:
  assumes "kept_inv ops live_out st idxs" "length ops = length live_out"
    and "reduced_ops st' = reduced_ops st" "reduced_live_out st' = reduced_live_out st"
    and "\<And>x y. resolve (reg_to_reg_map st) x = resolve (reg_to_reg_map st) y \<Longrightarrow>
          resolve (reg_to_reg_map st') x = resolve (reg_to_reg_map st') y"
    and "dropped_move (resolve (reg_to_reg_map st')) o'"
  shows "kept_inv (ops @ [o']) (live_out @ [l]) st' idxs"
proof -
  have "dropped_move (resolve (reg_to_reg_map st')) p" if "dropped_move (resolve (reg_to_reg_map st)) p" for p
    using that assms(5) unfolding dropped_move_def by blast
  then show ?thesis
    using assms(1-4,6) nth_prefix [of idxs ops "[o']"] nth_prefix [of idxs live_out "[l]"]
    by (auto simp: kept_inv_def nth_append less_Suc_eq)
qed

definition coalesce_inv ::
  "'g graph_api \<Rightarrow> virtual_register set \<Rightarrow> (virtual_register \<Rightarrow> virtual_register \<Rightarrow> bool)
     \<Rightarrow> op list \<Rightarrow> virtual_register list list \<Rightarrow> 'g coalesce_state \<Rightarrow> bool" where
  "coalesce_inv api V E ops live_out st \<longleftrightarrow>
     merge_inv api V E (interference_graph st) (reg_to_node_map st) (reg_to_reg_map st)
   \<and> (\<exists>idxs. kept_inv ops live_out st idxs) \<and> length (reg_to_reg_map st) \<le> length ops"

lemma coalesce_move_ok:
  assumes "graph_ok api" "coalesce_inv api V E ops live_out st" "length ops = length live_out" "length ops < fuel"
    and "opcode o' = Inl (Alu (MOVE x y))" "x \<in> V" "y \<in> V" "is_virtual x" "is_virtual y"
  shows "\<exists>st'. coalesce_move api fuel o' l x y st = Inr st' \<and> coalesce_inv api V E (ops @ [o']) (live_out @ [l]) st'"
proof -
  let ?g = "interference_graph st" and ?m = "reg_to_node_map st" and ?rs = "reg_to_reg_map st"
  obtain idxs where inv: "merge_inv api V E ?g ?m ?rs" "kept_inv ops live_out st idxs" "length ?rs \<le> length ops"
    using assms(2) by (auto simp: coalesce_inv_def)
  then have f: "forest ?rs" "fst ` set ?rs \<union> snd ` set ?rs \<subseteq> V" by (auto simp: merge_inv_def)
  let ?r1 = "resolve ?rs x" and ?r2 = "resolve ?rs y"
  have chase: "chase fuel (map_of ?rs) r = Inr (resolve ?rs r)" for r
    using chase_resolve [OF f(1)] inv(3) assms(4) by simp
  have r1: "?r1 \<in> V" "?r1 \<notin> fst ` set ?rs" and r2: "?r2 \<in> V" "?r2 \<notin> fst ` set ?rs"
    using resolve_in [OF f(2)] resolve_root [OF f(1)] assms(6,7) by auto
  obtain ix1 ix2 where ix: "?m ?r1 = Some ix1" "?m ?r2 = Some ix2"
    using merge_inv_nodes [OF inv(1) r1] merge_inv_nodes [OF inv(1) r2] by metis
  show ?thesis
  proof (cases "?r1 = ?r2")
    case True
    then have "dropped_move (resolve ?rs) o'" using assms(5,8,9) unfolding dropped_move_def by blast
    then have "kept_inv (ops @ [o']) (live_out @ [l]) st idxs"
      by (intro kept_inv_drop [OF inv(2) assms(3)]) simp_all
    then have "coalesce_inv api V E (ops @ [o']) (live_out @ [l]) st"
      using inv(1,3) unfolding coalesce_inv_def by auto
    moreover have "coalesce_move api fuel o' l x y st = Inr st"
      using True ix by (simp add: coalesce_move_def chase unwrap_or_panic_def)
    ultimately show ?thesis by blast
  next
    case False
    let ?n1 = "index_set_of (neighbors_undirected api ?g ix1)" and ?n2 = "index_set_of (neighbors_undirected api ?g ix2)"
    let ?st' = "st\<lparr>interference_graph := merge_nodes api ix1 ix2 ?n1 ?g,
        reg_to_node_map := ?m(?r1 \<mapsto> ix2), reg_to_reg_map := index_map_insert ?r1 ?r2 ?rs\<rparr>"
    let ?keep = "contains_edge api ?g ix1 ix2 \<or> contains_edge api ?g ix2 ix1
      \<or> \<not> (briggs_safety api ?g ?n1 ?n2 \<or> george_safety api ?g ?n1 ?n2)"
    have res: "coalesce_move api fuel o' l x y st = Inr (if ?keep then preserve_op o' l st else ?st')"
      using False by (simp add: coalesce_move_def chase ix unwrap_or_panic_def Let_def)
    show ?thesis
    proof (cases ?keep)
      case True
      from kept_inv_preserve [OF inv(2) assms(3), of o' l]
      have "coalesce_inv api V E (ops @ [o']) (live_out @ [l]) (preserve_op o' l st)"
        using inv(1,3) unfolding coalesce_inv_def by (auto simp: preserve_op_def)
      with res True show ?thesis by simp
    next
      case F: False
      then have "\<not> adjacent api ?g ix1 ix2" by (auto simp: adjacent_def contains_edge_ok [OF assms(1)])
      note step = merge_inv_step [OF assms(1) inv(1) r1 ix(1) r2 ix(2) False this]
      have ins: "index_map_insert ?r1 ?r2 ?rs = ?rs @ [(?r1, ?r2)]"
        by (rule index_map_insert_new) (rule r1(2))
      have "dropped_move (resolve (reg_to_reg_map ?st')) o'"
        using assms(5,8,9) False by (auto simp: dropped_move_def ins)
      from kept_inv_drop [OF inv(2) assms(3) _ _ _ this]
      have "kept_inv (ops @ [o']) (live_out @ [l]) ?st' idxs" by (simp add: ins)
      then have "coalesce_inv api V E (ops @ [o']) (live_out @ [l]) ?st'"
        using step inv(3) by (auto simp: coalesce_inv_def ins)
      with res F show ?thesis by auto
    qed
  qed
qed

lemma coalesce_op_ok:
  assumes "graph_ok api" "coalesce_inv api V E ops live_out st" "length ops = length live_out" "length ops < fuel"
    and "\<forall>r \<in> set (op_registers o'). is_virtual r \<longrightarrow> r \<in> V"
  shows "\<exists>st'. coalesce_op api fuel (o', l) st = Inr st' \<and> coalesce_inv api V E (ops @ [o']) (live_out @ [l]) st'"
proof (cases "\<exists>x y. opcode o' = Inl (Alu (MOVE (Virtual x) (Virtual y)))")
  case True
  then obtain x y where xy: "opcode o' = Inl (Alu (MOVE (Virtual x) (Virtual y)))" by blast
  then have "Virtual x \<in> V" "Virtual y \<in> V" using assms(5) by (auto simp: op_registers_def vop_registers_def)
  from coalesce_move_ok [OF assms(1-4) xy this] show ?thesis by (simp add: coalesce_op_def xy)
next
  case False
  then have "coalesce_op api fuel (o', l) st = Inr (preserve_op o' l st)"
    by (auto simp: coalesce_op_def split: sum.splits virtual_op.splits alu_op.splits virtual_register.splits)
  moreover obtain idxs where "kept_inv ops live_out st idxs" using assms(2) by (auto simp: coalesce_inv_def)
  from kept_inv_preserve [OF this assms(3), of o' l]
  have "coalesce_inv api V E (ops @ [o']) (live_out @ [l]) (preserve_op o' l st)"
    using assms(2) unfolding coalesce_inv_def by (auto simp: preserve_op_def)
  ultimately show ?thesis by blast
qed

lemma coalesce_loop_ok:
  assumes "graph_ok api" "merge_inv api V E g m []" "length ps < fuel"
    and "\<forall>o' \<in> set (map fst ps). \<forall>r \<in> set (op_registers o'). is_virtual r \<longrightarrow> r \<in> V"
  defines "init \<equiv> \<lparr>interference_graph = g, reg_to_node_map = m, reg_to_reg_map = [],
                  reduced_ops = [], reduced_live_out = []\<rparr>"
  shows "\<exists>st. foldM (coalesce_op api fuel) ps init = Inr st \<and> coalesce_inv api V E (map fst ps) (map snd ps) st"
  using assms(3,4)
proof (induction ps rule: rev_induct)
  case Nil
  have "kept_inv [] [] init []" by (simp add: kept_inv_def init_def)
  then show ?case using assms(2) by (auto simp: coalesce_inv_def init_def)
next
  case (snoc p ps)
  obtain o' l where p: "p = (o', l)" by fastforce
  obtain st where st: "foldM (coalesce_op api fuel) ps init = Inr st" "coalesce_inv api V E (map fst ps) (map snd ps) st"
    using snoc by auto
  have "\<exists>st'. coalesce_op api fuel (o', l) st = Inr st'
      \<and> coalesce_inv api V E (map fst ps @ [o']) (map snd ps @ [l]) st'"
    using snoc.prems by (intro coalesce_op_ok [OF assms(1) st(2)]) (auto simp: p)
  with st(1) show ?case by (auto simp: p foldM_append)
qed

section \<open>The renamed instructions\<close>

definition rename_op :: "(virtual_register \<Rightarrow> virtual_register) \<Rightarrow> op \<Rightarrow> op" where
  "rename_op h o' = o'\<lparr>opcode := (case opcode o' of
      Inl v \<Rightarrow> Inl (rename_vop h v) | Inr c \<Rightarrow> Inr (map_control_flow_op h c))\<rparr>"

lemma cf_update_register_map: "cf_update_register m c = map_control_flow_op (renaming m) c"
  by (cases c) (simp_all add: renaming_def)

lemma op_update_register_rename:
  assumes "virtual_only m" "wf_op o'"
  shows "op_update_register m o' = Inr (rename_op (renaming m) o')"
  using vop_update_register_rename [OF assms(1)] assms(2)
  by (cases "opcode o'") (simp_all add: op_update_register_def rename_op_def wf_op_def cf_update_register_map)

lemma rename_op_sets:
  "set (op_use_registers (rename_op h o')) = h ` set (op_use_registers o')"
  "set (op_def_registers (rename_op h o')) = h ` set (op_def_registers o')"
  "set (op_registers (rename_op h o')) = h ` set (op_registers o')"
proof -
  have "set (cf_use_registers (map_control_flow_op h c)) = h ` set (cf_use_registers c)"
    "set (cf_def_registers (map_control_flow_op h c)) = h ` set (cf_def_registers c)" for c
    by (cases c; simp)+
  then show "set (op_use_registers (rename_op h o')) = h ` set (op_use_registers o')"
    "set (op_def_registers (rename_op h o')) = h ` set (op_def_registers o')"
    using rename_use rename_def
    by (auto simp: rename_op_def op_use_registers_def op_def_registers_def split: sum.splits)
  then show "set (op_registers (rename_op h o')) = h ` set (op_registers o')"
    by (simp add: op_registers_use_def image_Un)
qed

lemma map_alu_op_MOVE: "map_alu_op h a = MOVE v w \<longleftrightarrow> (\<exists>x y. a = MOVE x y \<and> v = h x \<and> w = h y)"
  by (cases a) auto

lemma rename_op_MOVE:
  "opcode (rename_op h o') = Inl (Alu (MOVE v w)) \<longleftrightarrow>
     (\<exists>x y. opcode o' = Inl (Alu (MOVE x y)) \<and> v = h x \<and> w = h y)"
  by (auto simp: rename_op_def rename_vop_def map_alu_op_MOVE split: sum.splits virtual_op.splits)

lemma update_live_set:
  assumes "\<And>r. h r \<notin> set rs" "\<And>r. r \<notin> set rs \<Longrightarrow> h r = r"
  shows "set (update_live (map (\<lambda>r. (r, h r)) rs) live) = h ` set live"
proof -
  let ?step = "\<lambda>(old, new) live. if old \<in> set live then insort_insert new (filter (\<lambda>r. r \<noteq> old) live) else live"
  have *: "set (fold ?step (map (\<lambda>r. (r, h r)) qs) live) = (\<lambda>x. if x \<in> set qs then h x else x) ` set live"
    if "\<And>r. h r \<notin> set qs" for qs
    using that
  proof (induction qs arbitrary: live)
    case (Cons q qs)
    let ?live = "if q \<in> set live then insort_insert (h q) (filter (\<lambda>r. r \<noteq> q) live) else live"
    have "set ?live = (\<lambda>x. if x = q then h q else x) ` set live"
      by (auto simp: set_insort_insert)
    moreover have "h r \<notin> set qs" for r using Cons.prems [of r] by simp
    ultimately show ?case using Cons.IH [of ?live]
      by (auto simp: image_image intro!: image_cong)
  qed simp
  have "(\<lambda>x. if x \<in> set rs then h x else x) = h" using assms(2) by auto
  with * [OF assms(1)] show ?thesis by (simp only: update_live_def)
qed

section \<open>What coalescing gives\<close>

text \<open>
  The outcome: the instructions at the positions \<open>idxs\<close> with their registers renamed by \<open>h\<close>; the
  other instructions were moves between registers that \<open>h\<close> makes one. The graph has a node for
  every renamed register, and registers that interfered still do.
\<close>

definition coalesced ::
  "'g graph_api \<Rightarrow> virtual_register set \<Rightarrow> 'g \<Rightarrow> op list \<Rightarrow> virtual_register list list
     \<Rightarrow> (virtual_register \<Rightarrow> virtual_register) \<Rightarrow> nat list
     \<Rightarrow> op list \<Rightarrow> virtual_register list list \<Rightarrow> 'g \<Rightarrow> bool" where
  "coalesced api V g ops live_out h idxs ops' live' g' \<longleftrightarrow>
     ops' = map (\<lambda>i. rename_op h (ops ! i)) idxs
   \<and> length live' = length idxs \<and> (\<forall>j < length idxs. set (live' ! j) = h ` set (live_out ! (idxs ! j)))
   \<and> sorted_wrt (<) idxs \<and> set idxs \<subseteq> {..<length ops}
   \<and> (\<forall>i < length ops. i \<notin> set idxs \<longrightarrow> dropped_move h (ops ! i))
   \<and> (\<forall>c. h (Constant c) = Constant c) \<and> (\<forall>r \<in> V. h r \<in> V)
   \<and> valid_graph api g' \<and> loop_free api g' \<and> edges_on api g'
   \<and> (\<forall>v b. reg_adjacent api g v b \<longrightarrow> reg_adjacent api g' (h v) (h b))
   \<and> (\<forall>r \<in> V. \<exists>x. node_weight api g' x = Some (h r)) \<and> (\<forall>x r. node_weight api g' x = Some r \<longrightarrow> r \<in> V)"

lemma merge_inv_init:
  assumes "node_map_ok api g m" "dom m = V" "valid_graph api g" "loop_free api g"
  shows "merge_inv api V (reg_adjacent api g) g m []"
  using assms by (auto simp: merge_inv_def node_map_ok_def intro: forest_Nil)

lemma coalesce_registers_ok:
  assumes "graph_ok api" "node_map_ok api g m" "valid_graph api g" "loop_free api g"
    and V: "dom m = {r. is_virtual r \<and> (\<exists>o' \<in> set ops. r \<in> set (op_registers o'))}"
    and "length ops = length live_out" "length ops < fuel" "\<forall>o' \<in> set ops. wf_op o'"
  shows "\<exists>ops' live' g' m' h idxs. coalesce_registers api fuel ops live_out g m = Inr (ops', live', g', m')
    \<and> coalesced api (dom m) g ops live_out h idxs ops' live' g'"
proof -
  have regs: "\<forall>o' \<in> set (map fst (zip ops live_out)). \<forall>r \<in> set (op_registers o'). is_virtual r \<longrightarrow> r \<in> dom m"
    using assms(6) V by auto
  have "length (zip ops live_out) < fuel" using assms(6,7) by simp
  from coalesce_loop_ok [OF assms(1) merge_inv_init [OF assms(2) refl assms(3,4)] this regs] obtain st where
    st: "foldM (coalesce_op api fuel) (zip ops live_out)
           \<lparr>interference_graph = g, reg_to_node_map = m, reg_to_reg_map = [],
            reduced_ops = [], reduced_live_out = []\<rparr> = Inr st"
      "coalesce_inv api (dom m) (reg_adjacent api g) ops live_out st"
    using assms(6) by auto
  let ?rs = "reg_to_reg_map st" and ?g' = "interference_graph st"
  define h where "h = resolve ?rs"
  obtain idxs where inv: "merge_inv api (dom m) (reg_adjacent api g) ?g' (reg_to_node_map st) ?rs"
      "kept_inv ops live_out st idxs" "length ?rs \<le> length ops"
    using st(2) by (auto simp: coalesce_inv_def)
  have f: "forest ?rs" "fst ` set ?rs \<union> snd ` set ?rs \<subseteq> dom m" using inv(1) by (auto simp: merge_inv_def)
  let ?final = "map (\<lambda>r. (r, h r)) (map fst ?rs)"
  have final: "final_reg_map fuel ?rs = Inr ?final"
    using final_reg_map_ok [OF f(1)] inv(3) assms(7) by (simp add: h_def)
  have hren: "renaming (map_of ?final) = h" using renaming_final [of ?rs] by (auto simp: h_def)
  have const: "Constant c \<notin> fst ` set ?rs" for c
  proof -
    have "Constant c \<notin> dom m" unfolding V by simp
    then show ?thesis using f(2) by blast
  qed
  have "virtual_only (map_of ?final)"
    using const by (auto simp: virtual_only_def map_of_eq_None_iff image_image)
  note ren = op_update_register_rename [OF this, unfolded hren]
  have kept: "reduced_ops st = map ((!) ops) idxs" "reduced_live_out st = map ((!) live_out) idxs"
      "sorted_wrt (<) idxs" "set idxs \<subseteq> {..<length ops}"
      "\<forall>i < length ops. i \<notin> set idxs \<longrightarrow> dropped_move h (ops ! i)"
    using inv(2) by (auto simp: kept_inv_def h_def)
  have "\<forall>o' \<in> set (reduced_ops st). wf_op o'" using kept(1,4) assms(8) by auto
  then have "mapM (op_update_register (map_of ?final)) (reduced_ops st) = Inr (map (rename_op h) (reduced_ops st))"
    using ren by (intro mapM_pure) blast
  then have ops: "mapM (op_update_register (map_of ?final)) (reduced_ops st) =
      Inr (map (\<lambda>i. rename_op h (ops ! i)) idxs)"
    by (simp only: kept(1) list.map_comp comp_def)
  have live: "set (update_live ?final l) = h ` set l" for l
    using resolve_root [OF f(1)] resolve_id [of _ ?rs] by (intro update_live_set) (auto simp: h_def)
  have "coalesced api (dom m) g ops live_out h idxs (map (\<lambda>i. rename_op h (ops ! i)) idxs)
      (map (update_live ?final) (reduced_live_out st)) ?g'"
    unfolding coalesced_def
  proof (intro conjI)
    show "\<forall>c. h (Constant c) = Constant c" using const by (simp add: h_def resolve_id)
    show "\<forall>r \<in> dom m. h r \<in> dom m" using resolve_in [OF f(2)] by (simp add: h_def)
    then show "\<forall>r \<in> dom m. \<exists>x. node_weight api ?g' x = Some (h r)"
      using merge_inv_nodes [OF inv(1)] resolve_root [OF f(1)] unfolding h_def by blast
    show "\<forall>x r. node_weight api ?g' x = Some r \<longrightarrow> r \<in> dom m"
      using inv(1) unfolding merge_inv_def by (metis domI)
  qed (use inv(1) kept live in \<open>auto simp: merge_inv_def h_def\<close>)
  moreover have "coalesce_registers api fuel ops live_out g m = Inr (map (\<lambda>i. rename_op h (ops ! i)) idxs,
      map (update_live ?final) (reduced_live_out st), ?g', reg_to_node_map st)"
    unfolding coalesce_registers_def using assms(6) st(1) final ops by simp
  ultimately show ?thesis by blast
qed

end
