(* ===== verification/Asm_Cfg.thy ===== *)
theory Asm_Cfg
  imports Asm_Liveness
begin

text \<open>
  The control flow of a list of instructions, read off the definitions of
  \<^verbatim>\<open>successors\<close>: which instructions fall through, which label an instruction jumps to, and
  the position of a label. The passes that drop, insert or rename instructions are
  followed with these facts.
\<close>

section \<open>Successors\<close>

definition falls_through :: "op \<Rightarrow> bool" where
  "falls_through o' \<longleftrightarrow>
     (case opcode o' of Inl (Contract (RVRT _)) \<Rightarrow> False | Inr (Jump _) \<Rightarrow> False | _ \<Rightarrow> True)"

definition jump_target :: "op \<Rightarrow> label option" where
  "jump_target o' =
     (case opcode o' of Inr (Jump l) \<Rightarrow> Some l | Inr (JumpIfNotZero _ l) \<Rightarrow> Some l | _ \<Rightarrow> None)"

definition offset_jump :: "op \<Rightarrow> bool" where
  "offset_jump o' \<longleftrightarrow>
     (case opcode o' of
        Inl (ControlFlow (JI _)) \<Rightarrow> True | Inl (ControlFlow (JNEI _ _ _)) \<Rightarrow> True
      | Inl (ControlFlow (JNZI _ _)) \<Rightarrow> True | _ \<Rightarrow> False)"

definition label_of :: "op \<Rightarrow> label option" where
  "label_of o' = (case opcode o' of Inr (Label l) \<Rightarrow> Some l | _ \<Rightarrow> None)"

lemma op_successors_cases:
  assumes "0 < n"
  shows "case op_successors o' i n labels of
      Inl _ \<Rightarrow> offset_jump o' \<or> (\<exists>l. jump_target o' = Some l \<and> labels l = None)
    | Inr ss \<Rightarrow> \<not> offset_jump o' \<and> (\<forall>l. jump_target o' = Some l \<longrightarrow> labels l \<noteq> None)
        \<and> set ss = {s. s = i + 1 \<and> i + 1 < n \<and> falls_through o'} \<union> {s. \<exists>l. jump_target o' = Some l \<and> labels l = Some s}"
proof (cases "opcode o'")
  case (Inl v)
  with assms show ?thesis
    by (auto simp: op_successors_def vop_successors_def offset_jump_def jump_target_def falls_through_def Let_def
        split: virtual_op.splits control_op.splits contract_op.splits)
next
  case (Inr c)
  then show ?thesis
    by (auto simp: op_successors_def cf_successors_def offset_jump_def jump_target_def falls_through_def Let_def
        unwrap_or_panic_def vec_push_def split: control_flow_op.splits option.splits)
qed

lemma succ_set_eq:
  assumes "jumps_ok ops" "i < length ops"
  shows "succ_set ops i = {s. s = i + 1 \<and> i + 1 < length ops \<and> falls_through (ops ! i)}
    \<union> {s. \<exists>l. jump_target (ops ! i) = Some l \<and> label_to_index ops l = Some s}"
proof -
  have "0 < length ops" using assms(2) by linarith
  from op_successors_cases [OF this, where o' = "ops ! i" and i = i and labels = "label_to_index ops"] assms show ?thesis
    by (auto simp: jumps_ok_def succ_set_def split: sum.splits)
qed

lemma jumps_ok_iff:
  "jumps_ok ops \<longleftrightarrow> (\<forall>i < length ops. \<not> offset_jump (ops ! i) \<and>
     (\<forall>l. jump_target (ops ! i) = Some l \<longrightarrow> label_to_index ops l \<noteq> None))"
proof -
  have "\<not> isl (op_successors (ops ! i) i (length ops) (label_to_index ops)) \<longleftrightarrow>
      \<not> offset_jump (ops ! i) \<and> (\<forall>l. jump_target (ops ! i) = Some l \<longrightarrow> label_to_index ops l \<noteq> None)"
    if "i < length ops" for i
  proof -
    have "0 < length ops" using that by linarith
    from op_successors_cases [OF this, where o' = "ops ! i" and i = i and labels = "label_to_index ops"] show ?thesis
      by (auto split: sum.splits)
  qed
  then show ?thesis by (auto simp: jumps_ok_def)
qed

section \<open>Labels\<close>

text \<open>A label stands for its last occurrence.\<close>

lemma label_to_index_snoc:
  "label_to_index (ops @ [o']) =
     (case label_of o' of Some l \<Rightarrow> (label_to_index ops)(l \<mapsto> length ops) | None \<Rightarrow> label_to_index ops)"
  by (auto simp: label_to_index_def label_of_def enumerate_append_eq split: sum.splits control_flow_op.splits)

lemma label_to_index_Nil [simp]: "label_to_index [] = Map.empty"
  by (simp add: label_to_index_def)

lemma label_to_index_Some:
  "label_to_index ops l = Some i \<longleftrightarrow>
     i < length ops \<and> label_of (ops ! i) = Some l \<and> (\<forall>k. i < k \<and> k < length ops \<longrightarrow> label_of (ops ! k) \<noteq> Some l)"
proof (induction ops rule: rev_induct)
  case (snoc o' ops)
  show ?case
  proof (cases "label_of o' = Some l")
    case True
    then have new: "label_to_index (ops @ [o']) l = Some (length ops)" by (simp add: label_to_index_snoc)
    show ?thesis
    proof (cases "i < length ops")
      case i: True
      then have "\<exists>k. i < k \<and> k < length (ops @ [o']) \<and> label_of ((ops @ [o']) ! k) = Some l"
        using True by (intro exI [of _ "length ops"]) simp
      with i new show ?thesis by force
    next
      case False
      with new True show ?thesis by (cases "i = length ops") auto
    qed
  next
    case False
    then have "label_to_index (ops @ [o']) l = label_to_index ops l"
      by (auto simp: label_to_index_snoc split: option.splits)
    with snoc False show ?thesis by (auto simp: nth_append less_Suc_eq)
  qed
qed simp

lemma label_to_index_None: "label_to_index ops l = None \<longleftrightarrow> (\<forall>o' \<in> set ops. label_of o' \<noteq> Some l)"
  by (induction ops rule: rev_induct) (auto simp: label_to_index_snoc split: option.splits)

text \<open>Whether all jumps are resolved only depends on the instructions, not on their positions.\<close>

lemma jumps_ok_elem:
  "jumps_ok ops \<longleftrightarrow> (\<forall>o' \<in> set ops. \<not> offset_jump o' \<and>
     (\<forall>l. jump_target o' = Some l \<longrightarrow> (\<exists>p \<in> set ops. label_of p = Some l)))"
  unfolding jumps_ok_iff label_to_index_None
  by (subst all_set_conv_all_nth [of ops "\<lambda>o'. \<not> offset_jump o' \<and>
     (\<forall>l. jump_target o' = Some l \<longrightarrow> (\<exists>p \<in> set ops. label_of p = Some l))"]) simp

section \<open>Liveness, in one statement\<close>

lemma liveness_correct:
  assumes "jumps_ok ops" "2 * length ops * card (all_registers ops) < fuel"
  shows "\<exists>live_out. liveness_analysis fuel ops ignore = Inr live_out \<and> length live_out = length ops
    \<and> (\<forall>i < length ops. set (live_out ! i) = {r. live_after ignore ops i r})"
proof -
  obtain t where t: "live_loop fuel ignore ops (label_to_index ops)
      (replicate (length ops) [], replicate (length ops) []) = Inr t"
    using live_loop_total [OF assms(1) empty_tables_ok, of fuel ignore] assms(2) by auto
  note ok = live_loop_exact [OF t assms(1) empty_tables_ok]
  have "liveness_analysis fuel ops ignore = Inr (snd t)" using t by (simp add: liveness_analysis_def split: prod.splits)
  then show ?thesis using ok solved_tables_exact [of ignore ops t] by (auto simp: live_tables_ok_def)
qed

end
