(* ===== verification/Asm_Coalesce_Live.thy ===== *)
theory Asm_Coalesce_Live
  imports Asm_Coalesce Asm_Cfg
begin

text \<open>
  Liveness after coalescing: the table that \<^verbatim>\<open>coalesce_registers\<close> returns by renaming the
  entries of the old one still covers the liveness of the instructions it returns, although the
  analysis is not run again.
\<close>

section \<open>Control flow of the renamed instructions\<close>

lemma rename_op_flow [simp]:
  "falls_through (rename_op h o') = falls_through o'"
  "jump_target (rename_op h o') = jump_target o'"
  "offset_jump (rename_op h o') = offset_jump o'"
  "label_of (rename_op h o') = label_of o'"
  by (auto simp: falls_through_def jump_target_def offset_jump_def label_of_def rename_op_def rename_vop_def
      split: sum.splits virtual_op.splits contract_op.splits control_op.splits control_flow_op.splits)

lemma dropped_move_flow:
  assumes "dropped_move h o'"
  shows "falls_through o'" "jump_target o' = None" "label_of o' = None"
  using assms by (auto simp: dropped_move_def falls_through_def jump_target_def label_of_def)

section \<open>Positions\<close>

lemma sorted_nth_less:
  assumes "sorted_wrt (<) (xs :: nat list)" "i < length xs" "j < length xs"
  shows "xs ! i < xs ! j \<longleftrightarrow> i < j"
  using assms sorted_wrt_nth_less [of "(<)" xs] by (metis less_asym linorder_neqE_nat)

lemma sorted_between:
  assumes "sorted_wrt (<) (xs :: nat list)" "Suc j < length xs" "xs ! j < i" "i < xs ! Suc j"
  shows "i \<notin> set xs"
proof
  assume "i \<in> set xs"
  then obtain k where "k < length xs" "xs ! k = i" by (auto simp: in_set_conv_nth)
  with assms sorted_nth_less [OF assms(1)] have "j < k" "k < Suc j" by (metis Suc_lessD)+
  then show False by simp
qed

text \<open>
  In what follows the instructions at the positions \<open>idxs\<close> are kept and renamed by \<open>h\<close>; the
  predicate collects what the proofs need from \<open>coalesced\<close>.
\<close>

definition reduced :: "op list \<Rightarrow> (virtual_register \<Rightarrow> virtual_register) \<Rightarrow> nat list \<Rightarrow> op list \<Rightarrow> bool" where
  "reduced ops h idxs ops' \<longleftrightarrow>
     ops' = map (\<lambda>i. rename_op h (ops ! i)) idxs \<and> sorted_wrt (<) idxs \<and> set idxs \<subseteq> {..<length ops}
   \<and> (\<forall>i < length ops. i \<notin> set idxs \<longrightarrow> dropped_move h (ops ! i))
   \<and> (\<forall>c. h (Constant c) = Constant c)
   \<and> (\<forall>o' \<in> set ops. \<forall>r \<in> set (op_registers o'). is_virtual r \<longrightarrow> is_virtual (h r))"

lemma reducedD:
  assumes "reduced ops h idxs ops'" "j < length idxs"
  shows "idxs ! j < length ops" "ops' ! j = rename_op h (ops ! (idxs ! j))" "length ops' = length idxs"
proof -
  have "idxs ! j \<in> set idxs" using assms(2) by simp
  then show "idxs ! j < length ops" using assms(1) unfolding reduced_def by blast
  show "ops' ! j = rename_op h (ops ! (idxs ! j))" "length ops' = length idxs"
    using assms by (simp_all add: reduced_def)
qed

lemma reduced_label:
  assumes "reduced ops h idxs ops'" "j < length idxs"
  shows "label_to_index ops' l = Some j \<longleftrightarrow> label_to_index ops l = Some (idxs ! j)"
proof -
  have srt: "sorted_wrt (<) idxs" using assms(1) by (simp add: reduced_def)
  have kept: "\<exists>k < length idxs. idxs ! k = i" if "i < length ops" "label_of (ops ! i) = Some l" for i
  proof -
    have "i \<in> set idxs" using that assms(1) dropped_move_flow(3) unfolding reduced_def by force
    then show ?thesis by (auto simp: in_set_conv_nth)
  qed
  have "(\<forall>k. j < k \<and> k < length idxs \<longrightarrow> label_of (ops ! (idxs ! k)) \<noteq> Some l) \<longleftrightarrow>
      (\<forall>i. idxs ! j < i \<and> i < length ops \<longrightarrow> label_of (ops ! i) \<noteq> Some l)"
    using kept sorted_nth_less [OF srt] reducedD(1) [OF assms(1)] assms(2) by metis
  then show ?thesis
    using reducedD [OF assms(1)] assms(2) by (simp add: label_to_index_Some)
qed

lemma reduced_jumps_ok:
  assumes "reduced ops h idxs ops'" "jumps_ok ops"
  shows "jumps_ok ops'"
  unfolding jumps_ok_iff
proof (intro allI impI conjI)
  fix j assume "j < length ops'"
  then have j: "j < length idxs" using assms(1) by (simp add: reduced_def)
  note op = reducedD [OF assms(1) j]
  show "\<not> offset_jump (ops' ! j)" using assms(2) op by (simp add: jumps_ok_iff)
  fix l assume "jump_target (ops' ! j) = Some l"
  then obtain i where i: "label_to_index ops l = Some i" using assms(2) op by (auto simp: jumps_ok_iff)
  then have "i < length ops" "label_of (ops ! i) = Some l" by (simp_all add: label_to_index_Some)
  then have "i \<in> set idxs" using assms(1) dropped_move_flow(3) unfolding reduced_def by force
  then obtain k where "k < length idxs" "idxs ! k = i" by (auto simp: in_set_conv_nth)
  then show "label_to_index ops' l \<noteq> None" using reduced_label [OF assms(1)] i by auto
qed

section \<open>Liveness\<close>

lemma live_before_gap:
  assumes "reduced ops h idxs ops'" "jumps_ok ops" "Suc j < length idxs"
    and "live_before True ops (idxs ! Suc j) r0" "i \<le> idxs ! Suc j" "idxs ! j < i"
  shows "\<exists>r. h r = h r0 \<and> live_before True ops i r"
  using assms(5,6)
proof (induction rule: inc_induct)
  case base
  then show ?case using assms(4) by blast
next
  case (step i)
  then obtain r where r: "h r = h r0" "live_before True ops (Suc i) r" using assms(6) by auto
  have len: "Suc i < length ops" using step(2) reducedD(1) [OF assms(1,3)] by simp
  have "i \<notin> set idxs" using sorted_between [OF _ assms(3)] step assms(1) by (auto simp: reduced_def)
  then have drop: "dropped_move h (ops ! i)" using assms(1) len by (auto simp: reduced_def)
  then obtain x y where xy: "opcode (ops ! i) = Inl (Alu (MOVE x y))" "is_virtual x" "is_virtual y" "h x = h y"
    by (auto simp: dropped_move_def)
  have sets: "def_set True ops i = {x}" "use_set True ops i = {y}"
    using xy by (auto simp: def_set_def use_set_def retained_def op_def_registers_def op_use_registers_def
        vop_def_registers_def vop_use_registers_def)
  have succ: "Suc i \<in> succ_set ops i"
    using len dropped_move_flow [OF drop] by (simp add: succ_set_eq [OF assms(2)])
  show ?case
  proof (cases "r = x")
    case True
    then show ?thesis using r xy(4) sets(2) live_used [of y True ops i] by (intro exI [of _ y]) auto
  next
    case False
    then show ?thesis using r sets(1) live_passed [OF succ r(2)] by auto
  qed
qed

lemma live_after_lift:
  assumes "reduced ops h idxs ops'" "jumps_ok ops" "j < length idxs"
    and "s \<in> succ_set ops' j" "live_before True ops (idxs ! s) r0"
  shows "\<exists>r. h r = h r0 \<and> live_after True ops (idxs ! j) r"
proof -
  have len: "length ops' = length idxs" using assms(1) by (simp add: reduced_def)
  note op = reducedD [OF assms(1,3)]
  have s: "s < length idxs" using succ_set_less [OF assms(4)] len by simp
  have "s = j + 1 \<and> falls_through (ops ! (idxs ! j)) \<or>
      (\<exists>l. jump_target (ops ! (idxs ! j)) = Some l \<and> label_to_index ops' l = Some s)"
    using assms(3,4) op(2,3) by (auto simp: succ_set_eq [OF reduced_jumps_ok [OF assms(1,2)]])
  then show ?thesis
  proof
    assume *: "s = j + 1 \<and> falls_through (ops ! (idxs ! j))"
    have less: "idxs ! j < idxs ! Suc j"
      using sorted_nth_less [of idxs j "Suc j"] * s assms(1,3) by (simp add: reduced_def)
    then obtain r where r: "h r = h r0" "live_before True ops (Suc (idxs ! j)) r"
      using live_before_gap [OF assms(1,2), of j r0 "Suc (idxs ! j)"] * s assms(5) by auto
    have "Suc (idxs ! j) < length ops" using less reducedD(1) [OF assms(1), of "Suc j"] * s by simp
    then have "Suc (idxs ! j) \<in> succ_set ops (idxs ! j)" using * op(1) by (simp add: succ_set_eq [OF assms(2)])
    with r show ?thesis by (auto simp: live_after_def)
  next
    assume "\<exists>l. jump_target (ops ! (idxs ! j)) = Some l \<and> label_to_index ops' l = Some s"
    then have "idxs ! s \<in> succ_set ops (idxs ! j)"
      using op(1) reduced_label [OF assms(1) s] by (auto simp: succ_set_eq [OF assms(2)])
    then show ?thesis using assms(5) by (auto simp: live_after_def)
  qed
qed

lemma reduced_sets:
  assumes "reduced ops h idxs ops'" "j < length idxs"
  shows "r \<in> use_set True ops' j \<Longrightarrow> \<exists>r0 \<in> use_set True ops (idxs ! j). h r0 = r"
    and "r0 \<in> def_set True ops (idxs ! j) \<Longrightarrow> h r0 \<in> def_set True ops' j"
proof -
  note op = reducedD [OF assms]
  have h: "is_virtual r0" if "is_virtual (h r0)" for r0 using assms(1) that by (cases r0) (auto simp: reduced_def)
  show "\<exists>r0 \<in> use_set True ops (idxs ! j). h r0 = r" if "r \<in> use_set True ops' j"
    using that op(2) h by (auto simp: use_set_def retained_def rename_op_sets)
  show "h r0 \<in> def_set True ops' j" if r0: "r0 \<in> def_set True ops (idxs ! j)"
  proof -
    have "r0 \<in> set (op_registers (ops ! (idxs ! j)))" "is_virtual r0"
      using r0 by (auto simp: def_set_def retained_def op_registers_use_def)
    then have "is_virtual (h r0)" using assms(1) op(1) nth_mem unfolding reduced_def by blast
    then show ?thesis using r0 op(2) by (auto simp: def_set_def retained_def rename_op_sets)
  qed
qed

lemma live_before_reduced:
  assumes "reduced ops h idxs ops'" "jumps_ok ops"
  shows "live_before True ops' j r \<Longrightarrow> j < length idxs \<Longrightarrow> \<exists>r0. h r0 = r \<and> live_before True ops (idxs ! j) r0"
proof (induction rule: live_before.induct)
  case (live_used r j)
  then show ?case using reduced_sets(1) [OF assms(1)] live_before.live_used by metis
next
  case (live_passed s j r)
  have "s < length idxs" using succ_set_less [OF live_passed(1)] assms(1) by (simp add: reduced_def)
  then obtain r0 where r0: "h r0 = r" "live_before True ops (idxs ! s) r0" using live_passed.IH by blast
  then obtain r1 where r1: "h r1 = r" "live_after True ops (idxs ! j) r1"
    using live_after_lift [OF assms live_passed.prems live_passed.hyps(1)] by blast
  then have "r1 \<notin> def_set True ops (idxs ! j)"
    using reduced_sets(2) [OF assms(1) live_passed.prems] live_passed.hyps(3) by blast
  with r1 show ?case using live_before_if_after by blast
qed

lemma live_after_reduced:
  assumes "reduced ops h idxs ops'" "jumps_ok ops" "live_after True ops' j r" "j < length idxs"
  shows "\<exists>r0. h r0 = r \<and> live_after True ops (idxs ! j) r0"
proof -
  obtain s where s: "s \<in> succ_set ops' j" "live_before True ops' s r" using assms(3) by (auto simp: live_after_def)
  have "s < length idxs" using succ_set_less [OF s(1)] assms(1) by (simp add: reduced_def)
  then obtain r0 where "h r0 = r" "live_before True ops (idxs ! s) r0"
    using live_before_reduced [OF assms(1,2) s(2)] by blast
  with live_after_lift [OF assms(1,2,4) s(1)] show ?thesis by blast
qed

end
