(* ===== verification/Asm_Simplify.thy ===== *)
theory Asm_Simplify
  imports Asm_Coalesce
begin

text \<open>
  \<^verbatim>\<open>color_interference_graph\<close> of \<^verbatim>\<open>register_allocator.rs\<close>: nodes of low degree go on a
  stack, one after the other, and the edges of a node on the stack are marked as deleted; when
  only nodes of high degree are left one of them is chosen as a spill. A stack without spills
  is an order in which \<^verbatim>\<open>assign_registers\<close> never runs out of registers.
\<close>

section \<open>Hash sets\<close>

text \<open>
  The iteration order of a hash set is unspecified; it is a parameter, a function from the
  elements in the order of insertion to the order in which the iterator gives them.
\<close>

record hash_order =
  node_order :: "node list \<Rightarrow> node list"
  reg_order :: "virtual_register list \<Rightarrow> virtual_register list"

definition hash_order_ok :: "hash_order \<Rightarrow> bool" where
  "hash_order_ok ho \<longleftrightarrow>
     (\<forall>xs. set (node_order ho xs) = set xs \<and> length (node_order ho xs) = length xs)
   \<and> (\<forall>xs. set (reg_order ho xs) = set xs \<and> length (reg_order ho xs) = length xs)"

text \<open>\<^verbatim>\<open>Iterator::max_by\<close> gives the last of the maximal elements.\<close>

fun max_by :: "('a \<Rightarrow> nat) \<Rightarrow> 'a list \<Rightarrow> 'a option" where
  "max_by key [] = None"
| "max_by key (x # xs) = Some (fold (\<lambda>y best. if key best \<le> key y then y else best) xs x)"

lemma max_by_Some: "max_by key xs = Some x \<Longrightarrow> x \<in> set xs"
proof -
  have "fold (\<lambda>y best. if key best \<le> key y then y else best) ys b \<in> insert b (set ys)" for ys b
    by (induction ys arbitrary: b) auto
  then show "max_by key xs = Some x \<Longrightarrow> x \<in> set xs" by (cases xs) force+
qed

lemma max_by_None: "max_by key xs = None \<longleftrightarrow> xs = []"
  by (cases xs) auto

section \<open>Definition and use points\<close>

type_synonym def_use = "virtual_register \<rightharpoonup> nat list \<times> nat list"

definition add_use :: "nat \<Rightarrow> virtual_register \<Rightarrow> def_use \<Rightarrow> def_use" where
  "add_use idx vreg res =
     res(vreg \<mapsto> (case res vreg of Some (defs, uses) \<Rightarrow> (defs, vec_push uses idx) | None \<Rightarrow> ([], [idx])))"

definition add_def :: "nat \<Rightarrow> virtual_register \<Rightarrow> def_use \<Rightarrow> def_use" where
  "add_def idx vreg res =
     res(vreg \<mapsto> (case res vreg of Some (defs, uses) \<Rightarrow> (vec_push defs idx, uses) | None \<Rightarrow> ([idx], [])))"

definition compute_def_use_points :: "op list \<Rightarrow> def_use" where
  "compute_def_use_points ops =
     fold (\<lambda>(idx, o') res.
         fold (add_def idx) (filter is_virtual (op_def_registers o'))
           (fold (add_use idx) (filter is_virtual (op_use_registers o')) res))
       (enumerate 0 ops) Map.empty"

section \<open>Edges that are not deleted\<close>

definition connected_ends :: "'g graph_api \<Rightarrow> 'g \<Rightarrow> (node \<times> node \<Rightarrow> node) \<Rightarrow> edge list \<Rightarrow> node list" where
  "connected_ends api graph pick es =
     concat (map (\<lambda>e. case (edge_weight api graph e, edge_endpoints api graph e) of
         (Some True, Some ab) \<Rightarrow> [pick ab] | _ \<Rightarrow> []) es)"

definition get_connected_outgoing_neighbors :: "'g graph_api \<Rightarrow> 'g \<Rightarrow> node \<Rightarrow> node list" where
  "get_connected_outgoing_neighbors api graph node_index =
     connected_ends api graph snd (edges_directed api graph node_index Outgoing)"

definition get_connected_incoming_neighbors :: "'g graph_api \<Rightarrow> 'g \<Rightarrow> node \<Rightarrow> node list" where
  "get_connected_incoming_neighbors api graph node_index =
     connected_ends api graph fst (edges_directed api graph node_index Incoming)"

definition get_connected_neighbours :: "'g graph_api \<Rightarrow> 'g \<Rightarrow> node \<Rightarrow> node list" where
  "get_connected_neighbours api graph node_index =
     get_connected_outgoing_neighbors api graph node_index @ get_connected_incoming_neighbors api graph node_index"

definition delete_edges ::
  "'g graph_api \<Rightarrow> node \<Rightarrow> (virtual_register \<Rightarrow> virtual_register \<Rightarrow> bool) \<Rightarrow> 'g \<Rightarrow> 'g result" where
  "delete_edges api node_index should_delete graph =
     foldM (\<lambda>e graph.
         bindE (unwrap_or_panic ''called unwrap on a None value'' (edge_endpoints api graph e)) (\<lambda>(source, target).
         bindE (graph_index api graph source) (\<lambda>s.
         bindE (graph_index api graph target) (\<lambda>t.
         Inr (if should_delete s t then set_edge_weight api e False graph else graph)))))
       (edges_directed api graph node_index Outgoing @ edges_directed api graph node_index Incoming) graph"

section \<open>Simplification\<close>

record 'g colour_state =
  cgraph :: 'g
  stack :: "node list"
  on_stack :: "node list"
  spills :: "virtual_register list"
  worklist :: "node list"
  pending :: "node list"

definition low_degree :: "nat \<Rightarrow> bool" where
  "low_degree n \<longleftrightarrow> n < unat NUM_ALLOCATABLE_REGISTERS"

definition colour_init :: "'g graph_api \<Rightarrow> 'g \<Rightarrow> 'g colour_state" where
  "colour_init api graph =
     (let low = (\<lambda>node. low_degree (length (neighbors_undirected api graph node))) in
      \<lparr>cgraph = graph, stack = [], on_stack = [], spills = [],
       worklist = filter low (node_indices api graph),
       pending = filter (\<lambda>node. \<not> low node) (node_indices api graph)\<rparr>)"

text \<open>One turn of the inner loop, for a node taken off the worklist.\<close>

definition candidate_neighbors :: "'g graph_api \<Rightarrow> 'g \<Rightarrow> node list \<Rightarrow> node \<Rightarrow> node list" where
  "candidate_neighbors api graph pending' node_index =
     filter (\<lambda>n. n \<in> set pending' \<and> low_degree (length (get_connected_neighbours api graph n)))
       (neighbors_undirected api graph node_index)"

definition simplify_node :: "'g graph_api \<Rightarrow> node \<Rightarrow> 'g colour_state \<Rightarrow> 'g colour_state result" where
  "simplify_node api node_index st =
     (if node_index \<in> set (on_stack st) then Inr st
      else
        bindE (graph_index api (cgraph st) node_index) (\<lambda>reg.
        bindE (if reg \<notin> set (spills st) then delete_edges api node_index (\<lambda>_ _. True) (cgraph st)
               else Inr (cgraph st)) (\<lambda>graph.
        let candidates = candidate_neighbors api graph (pending st) node_index
        in Inr (st\<lparr>cgraph := graph,
                   stack := vec_push (stack st) node_index,
                   on_stack := push_if_absent node_index (on_stack st),
                   worklist := worklist st @ candidates,
                   pending := filter (\<lambda>n. n \<notin> set candidates) (pending st)\<rparr>))))"

lemma set_candidates: "set (candidate_neighbors api graph p n) \<subseteq> set p"
  by (auto simp: candidate_neighbors_def)

lemma simplify_node_measure:
  assumes "simplify_node api n st = Inr st'"
  shows "length (pending st') < length (pending st)
    \<or> length (pending st') = length (pending st) \<and> length (worklist st') \<le> length (worklist st)"
proof (cases "n \<in> set (on_stack st)")
  case True
  then show ?thesis using assms by (simp add: simplify_node_def)
next
  case False
  then obtain g where g: "worklist st' = worklist st @ candidate_neighbors api g (pending st) n"
      "pending st' = filter (\<lambda>k. k \<notin> set (candidate_neighbors api g (pending st) n)) (pending st)"
    using assms by (auto simp: simplify_node_def bindE_Inr_iff Let_def)
  define cs where "cs = candidate_neighbors api g (pending st) n"
  note cs = set_candidates [of api g "pending st" n, folded cs_def] g [folded cs_def]
  show ?thesis
  proof (cases cs)
    case (Cons c cs')
    then have "\<exists>n \<in> set (pending st). n \<in> set cs" using cs(1) by auto
    then show ?thesis using cs(3) length_filter_less [of _ "pending st" "\<lambda>n. n \<notin> set cs"] by auto
  qed (use cs in simp)
qed

function simplify_loop :: "'g graph_api \<Rightarrow> 'g colour_state \<Rightarrow> 'g colour_state result" where
  "simplify_loop api st =
     (case vec_pop (worklist st) of
        None \<Rightarrow> Inr st
      | Some (node_index, rest) \<Rightarrow>
          (case simplify_node api node_index (st\<lparr>worklist := rest\<rparr>) of
             Inl e \<Rightarrow> Inl e
           | Inr st' \<Rightarrow> simplify_loop api st'))"
  by pat_completeness auto
termination
proof (relation "measures [\<lambda>(_, st). length (pending st), \<lambda>(_, st). length (worklist st)]", goal_cases)
  case (2 api st x node_index rest st')
  then show ?case using simplify_node_measure [of api node_index "st\<lparr>worklist := rest\<rparr>" st']
    by (auto simp: vec_pop_Some_iff)
qed simp

declare simplify_loop.simps [simp del]

lemma simplify_loop_pending:
  "simplify_loop api st = Inr st' \<Longrightarrow> length (pending st') \<le> length (pending st)"
proof (induction api st rule: simplify_loop.induct)
  case (1 api st)
  show ?case
  proof (cases "vec_pop (worklist st)")
    case None
    then show ?thesis using "1.prems" by (simp add: simplify_loop.simps)
  next
    case (Some p)
    obtain n rest where p: "p = (n, rest)" by fastforce
    obtain st1 where st1: "simplify_node api n (st\<lparr>worklist := rest\<rparr>) = Inr st1" "simplify_loop api st1 = Inr st'"
      using "1.prems" Some p by (subst (asm) simplify_loop.simps) (auto split: sum.splits)
    have "length (pending st1) \<le> length (pending st)" using simplify_node_measure [OF st1(1)] by auto
    with "1.IH" [OF Some p [symmetric] st1] show ?thesis by simp
  qed
qed

section \<open>Spilling\<close>

text \<open>The registers that stay neighbours of a spilled register, whose ranges are now tiny.\<close>

definition to_retain ::
  "def_use \<Rightarrow> virtual_register list list \<Rightarrow> virtual_register list \<Rightarrow> virtual_register \<Rightarrow> virtual_register list result" where
  "to_retain def_use_points live_out spilled spill_reg =
     (case def_use_points spill_reg of
        None \<Rightarrow> Inr []
      | Some (defs, uses) \<Rightarrow>
          bindE (mapM (nth_or_panic live_out) (defs @ map (\<lambda>u. u - 1) (filter (\<lambda>u. u > 0) uses))) (\<lambda>lives.
          Inr (concat (map (filter (\<lambda>reg. reg \<notin> set spilled)) lives))))"

definition spill_node ::
  "'g graph_api \<Rightarrow> def_use \<Rightarrow> virtual_register list list \<Rightarrow> node \<Rightarrow> 'g colour_state \<Rightarrow> 'g colour_state result" where
  "spill_node api def_use_points live_out spill_reg_index st =
     bindE (graph_index api (cgraph st) spill_reg_index) (\<lambda>spill_reg.
     let spilled = push_if_absent spill_reg (spills st) in
     bindE (to_retain def_use_points live_out spilled spill_reg) (\<lambda>retain.
     bindE (delete_edges api spill_reg_index
              (\<lambda>source target. \<not> (source \<in> set retain \<or> target \<in> set retain)) (cgraph st)) (\<lambda>graph.
     Inr (st\<lparr>cgraph := graph, spills := spilled,
             pending := filter (\<lambda>n. n \<noteq> spill_reg_index) (pending st),
             worklist := vec_push (worklist st) spill_reg_index\<rparr>))))"

lemma spill_node_pending:
  assumes "spill_node api d l n st = Inr st'" "n \<in> set (pending st)"
  shows "length (pending st') < length (pending st)"
  using assms length_filter_less [of n "pending st" "\<lambda>k. k \<noteq> n"]
  by (auto simp: spill_node_def bindE_Inr_iff Let_def)

text \<open>
  The order in which a hash set is walked is a parameter that lists the elements of the set; the
  filter changes nothing then, and makes the loop end for any parameter.
\<close>

definition spill_choice :: "'g graph_api \<Rightarrow> hash_order \<Rightarrow> 'g colour_state \<Rightarrow> node option" where
  "spill_choice api ho st =
     max_by (\<lambda>node. length (get_connected_incoming_neighbors api (cgraph st) node))
       (filter (\<lambda>n. n \<in> set (pending st)) (node_order ho (pending st)))"

lemma spill_choice_Some: "spill_choice api ho st = Some n \<Longrightarrow> n \<in> set (pending st)"
  using max_by_Some by (fastforce simp: spill_choice_def)

text \<open>The outer loop.\<close>

function colour_loop ::
  "'g graph_api \<Rightarrow> hash_order \<Rightarrow> def_use \<Rightarrow> virtual_register list list \<Rightarrow> 'g colour_state \<Rightarrow> 'g colour_state result" where
  "colour_loop api ho def_use_points live_out st =
     (case simplify_loop api st of
        Inl e \<Rightarrow> Inl e
      | Inr st1 \<Rightarrow>
          (case spill_choice api ho st1 of
             None \<Rightarrow> Inr st1
           | Some n \<Rightarrow>
               (case spill_node api def_use_points live_out n st1 of
                  Inl e \<Rightarrow> Inl e
                | Inr st2 \<Rightarrow> colour_loop api ho def_use_points live_out st2)))"
  by pat_completeness auto
termination
proof (relation "measure (\<lambda>(_, _, _, _, st). length (pending st))", goal_cases)
  case (2 api ho def_use_points live_out st st1 n st2)
  then show ?case using simplify_loop_pending [of api st st1] spill_node_pending [of api def_use_points live_out n st1 st2]
      spill_choice_Some [of api ho st1 n] by auto
qed simp

declare colour_loop.simps [simp del]

text \<open>
  The result of the call is \<^verbatim>\<open>Ok(stack)\<close>, here on the right of the sum, or
  \<^verbatim>\<open>Err(spills)\<close>; the graph is changed in place.
\<close>

definition color_interference_graph ::
  "'g graph_api \<Rightarrow> hash_order \<Rightarrow> 'g \<Rightarrow> op list \<Rightarrow> virtual_register list list
     \<Rightarrow> ('g \<times> (virtual_register list + node list)) result" where
  "color_interference_graph api ho graph ops live_out =
     bindE (colour_loop api ho (compute_def_use_points ops) live_out (colour_init api graph)) (\<lambda>st.
     Inr (cgraph st, if spills st = [] then Inr (stack st) else Inl (spills st)))"

end
