(* ===== verification/Asm_Colouring.thy ===== *)
theory Asm_Colouring
  imports Asm_Simplify
begin

text \<open>
  What \<^verbatim>\<open>color_interference_graph\<close> returns. It never panics and always ends; the graph keeps
  its nodes and edges; a stack without spills has every node once, and the pool of registers
  cannot run out when the nodes are coloured from the top of the stack.
\<close>

section \<open>Deleting edges\<close>

definition same_shape :: "'g graph_api \<Rightarrow> 'g \<Rightarrow> 'g \<Rightarrow> bool" where
  "same_shape api g g' \<longleftrightarrow> node_weight api g' = node_weight api g \<and> edge_endpoints api g' = edge_endpoints api g"

lemma same_shape_refl [simp]: "same_shape api g g"
  by (simp add: same_shape_def)

lemma same_shape_trans: "same_shape api g1 g2 \<Longrightarrow> same_shape api g2 g3 \<Longrightarrow> same_shape api g1 g3"
  by (simp add: same_shape_def)

lemma same_shape_adjacent:
  "same_shape api g g' \<Longrightarrow> adjacent api g' x y \<longleftrightarrow> adjacent api g x y"
  by (simp add: same_shape_def adjacent_def gedges_def)

lemma same_shape_valid: "same_shape api g g' \<Longrightarrow> valid_graph api g \<Longrightarrow> valid_graph api g'"
  by (simp add: valid_graph_def same_shape_adjacent) (simp add: same_shape_def)

lemma edge_ends_exist:
  assumes "valid_graph api g" "edge_endpoints api g e = Some (a, b)"
  shows "node_weight api g a \<noteq> None" "node_weight api g b \<noteq> None"
proof -
  have "adjacent api g a b" "adjacent api g b a" using assms(2) by (auto simp: adjacent_def gedges_def)
  then show "node_weight api g a \<noteq> None" "node_weight api g b \<noteq> None"
    using assms(1) unfolding valid_graph_def by blast+
qed

definition touches :: "'g graph_api \<Rightarrow> 'g \<Rightarrow> node \<Rightarrow> edge \<Rightarrow> bool" where
  "touches api g n e \<longleftrightarrow> (\<exists>a b. edge_endpoints api g e = Some (a, b) \<and> (a = n \<or> b = n))"

lemma delete_edges_ok:
  assumes "graph_ok api" "valid_graph api g"
  shows "\<exists>g'. delete_edges api n p g = Inr g' \<and> same_shape api g g'
    \<and> (\<forall>e. edge_weight api g' e \<noteq> edge_weight api g e \<longrightarrow> touches api g n e)"
proof -
  let ?step = "\<lambda>e graph.
         bindE (unwrap_or_panic ''called unwrap on a None value'' (edge_endpoints api graph e)) (\<lambda>(source, target).
         bindE (graph_index api graph source) (\<lambda>s.
         bindE (graph_index api graph target) (\<lambda>t.
         Inr (if p s t then set_edge_weight api e False graph else graph))))"
  have "\<exists>g'. foldM ?step es g1 = Inr g' \<and> same_shape api g g'
      \<and> (\<forall>e. edge_weight api g' e \<noteq> edge_weight api g e \<longrightarrow> touches api g n e)"
    if "\<forall>e \<in> set es. touches api g n e" "same_shape api g g1"
       "\<forall>e. edge_weight api g1 e \<noteq> edge_weight api g e \<longrightarrow> touches api g n e" for es g1
    using that
  proof (induction es arbitrary: g1)
    case (Cons e es)
    have "touches api g n e" using Cons.prems(1) by simp
    then obtain a b where "edge_endpoints api g e = Some (a, b)" unfolding touches_def by blast
    then have ab: "edge_endpoints api g1 e = Some (a, b)" using Cons.prems(2) by (simp add: same_shape_def)
    have valid: "valid_graph api g1" by (rule same_shape_valid [OF Cons.prems(2) assms(2)])
    obtain s t where st: "node_weight api g1 a = Some s" "node_weight api g1 b = Some t"
      using edge_ends_exist [OF valid ab] by blast
    let ?g2 = "if p s t then set_edge_weight api e False g1 else g1"
    have step: "?step e g1 = Inr ?g2"
      using ab st by (simp add: unwrap_or_panic_def graph_index_def)
    have set: "node_weight api (set_edge_weight api e False g1) = node_weight api g1"
        "edge_endpoints api (set_edge_weight api e False g1) = edge_endpoints api g1"
        "edge_weight api (set_edge_weight api e False g1) = (edge_weight api g1)(e \<mapsto> False)"
      using assms(1) ab unfolding graph_ok_def graph_change_ok_def by auto
    have "same_shape api g ?g2" using Cons.prems(2) set(1,2) by (simp add: same_shape_def)
    moreover have "\<forall>e. edge_weight api ?g2 e \<noteq> edge_weight api g e \<longrightarrow> touches api g n e"
      using Cons.prems(1,3) set(3) by auto
    ultimately show ?case using Cons.IH [of ?g2] Cons.prems(1) step by simp
  qed simp
  moreover have "\<forall>e \<in> set (edges_directed api g n Outgoing @ edges_directed api g n Incoming). touches api g n e"
    using assms(1) by (auto simp: graph_ok_def graph_iter_ok_def touches_def)
  ultimately show ?thesis unfolding delete_edges_def by simp
qed

section \<open>The invariant\<close>

definition colour_base :: "'g graph_api \<Rightarrow> 'g \<Rightarrow> 'g colour_state \<Rightarrow> bool" where
  "colour_base api g st \<longleftrightarrow>
     same_shape api g (cgraph st) \<and> distinct (stack st) \<and> set (on_stack st) = set (stack st)
   \<and> set (stack st) \<union> set (worklist st) \<union> set (pending st) = {n. node_weight api g n \<noteq> None}
   \<and> set (pending st) \<inter> (set (stack st) \<union> set (worklist st)) = {}
   \<and> distinct (spills st) \<and> (\<forall>r \<in> set (spills st). \<exists>n. node_weight api g n = Some r)"

text \<open>As long as nothing is spilled: what is below the stack has few neighbours left.\<close>

definition few_neighbours :: "'g graph_api \<Rightarrow> 'g \<Rightarrow> node \<Rightarrow> node set \<Rightarrow> bool" where
  "few_neighbours api g n X \<longleftrightarrow> low_degree (card {m. adjacent api g n m \<and> m \<notin> X})"

definition colour_low :: "'g graph_api \<Rightarrow> 'g \<Rightarrow> 'g colour_state \<Rightarrow> bool" where
  "colour_low api g st \<longleftrightarrow>
     (\<forall>e a b. edge_endpoints api g e = Some (a, b) \<longrightarrow> a \<notin> set (stack st) \<longrightarrow> b \<notin> set (stack st)
        \<longrightarrow> edge_weight api (cgraph st) e = Some True)
   \<and> (\<forall>n \<in> set (worklist st). n \<notin> set (stack st) \<longrightarrow> few_neighbours api g n (set (stack st)))
   \<and> (\<forall>xs n ys. stack st = xs @ n # ys \<longrightarrow> few_neighbours api g n (set xs))"

definition colour_inv :: "'g graph_api \<Rightarrow> 'g \<Rightarrow> 'g colour_state \<Rightarrow> bool" where
  "colour_inv api g st \<longleftrightarrow> colour_base api g st \<and> (spills st = [] \<longrightarrow> colour_low api g st)"

lemma finite_neighbours:
  assumes "graph_ok api"
  shows "finite {m. adjacent api g n m}"
  by (metis finite_set neighbors_adjacent [OF assms])

lemma low_degree_mono: "low_degree m \<Longrightarrow> n \<le> m \<Longrightarrow> low_degree n"
  by (simp add: low_degree_def)

lemma few_neighbours_mono:
  assumes "graph_ok api" "few_neighbours api g n X" "X \<subseteq> Y"
  shows "few_neighbours api g n Y"
proof -
  have "card {m. adjacent api g n m \<and> m \<notin> Y} \<le> card {m. adjacent api g n m \<and> m \<notin> X}"
    using assms(3) by (intro card_mono finite_subset [OF _ finite_neighbours [OF assms(1), of g n]]) auto
  then show ?thesis using assms(2) low_degree_mono by (simp add: few_neighbours_def)
qed

lemma few_neighbours_list:
  assumes "low_degree (length xs)" "\<And>m. adjacent api g n m \<Longrightarrow> m \<notin> X \<Longrightarrow> m \<in> set xs"
  shows "few_neighbours api g n X"
proof -
  have "card {m. adjacent api g n m \<and> m \<notin> X} \<le> card (set xs)"
    by (rule card_mono) (use assms(2) in auto)
  also have "\<dots> \<le> length xs" by (rule card_length)
  finally show ?thesis using assms(1) low_degree_mono by (simp add: few_neighbours_def)
qed

lemma connected_endsI:
  assumes "e \<in> set es" "edge_weight api g e = Some True" "edge_endpoints api g e = Some ab"
  shows "pick ab \<in> set (connected_ends api g pick es)"
proof -
  have "pick ab \<in> set (case (edge_weight api g e, edge_endpoints api g e) of
         (Some True, Some ab) \<Rightarrow> [pick ab] | _ \<Rightarrow> [])" using assms(2,3) by simp
  then show ?thesis unfolding connected_ends_def using assms(1) by fastforce
qed

lemma connected_neighbours:
  assumes "graph_ok api" "edge_endpoints api g e = Some (a, b)" "edge_weight api g e = Some True"
  shows "b \<in> set (get_connected_neighbours api g a)" "a \<in> set (get_connected_neighbours api g b)"
proof -
  have "e \<in> set (edges_directed api g a Outgoing)" "e \<in> set (edges_directed api g b Incoming)"
    using assms(1,2) by (auto simp: graph_ok_def graph_iter_ok_def)
  then show "b \<in> set (get_connected_neighbours api g a)" "a \<in> set (get_connected_neighbours api g b)"
    using connected_endsI [of e _ api g "(a, b)" snd] connected_endsI [of e _ api g "(a, b)" fst] assms(2,3)
    by (simp_all add: get_connected_neighbours_def get_connected_outgoing_neighbors_def
        get_connected_incoming_neighbors_def)
qed

lemma colour_init_inv:
  assumes "graph_ok api" "edges_on api g"
  shows "colour_inv api g (colour_init api g)"
proof -
  have nodes: "set (node_indices api g) = {n. node_weight api g n \<noteq> None}"
    using assms(1) by (simp add: graph_ok_def graph_iter_ok_def)
  have "few_neighbours api g n {}" if "low_degree (length (neighbors_undirected api g n))" for n
    using that neighbors_adjacent [OF assms(1)] by (intro few_neighbours_list) auto
  then have "colour_low api g (colour_init api g)"
    using assms(2) by (auto simp: colour_low_def colour_init_def Let_def edges_on_def)
  moreover have "colour_base api g (colour_init api g)"
    using nodes by (auto simp: colour_base_def colour_init_def Let_def)
  ultimately show ?thesis by (simp add: colour_inv_def)
qed

section \<open>One node\<close>

lemma candidate_few:
  assumes "graph_ok api" "same_shape api g g'"
    and on: "\<And>e a b. edge_endpoints api g e = Some (a, b) \<Longrightarrow> a \<notin> X \<Longrightarrow> b \<notin> X \<Longrightarrow> edge_weight api g' e = Some True"
    and m: "m \<in> set (candidate_neighbors api g' P n)" "m \<notin> X"
  shows "few_neighbours api g m X"
proof (rule few_neighbours_list)
  show "low_degree (length (get_connected_neighbours api g' m))" using m(1) by (simp add: candidate_neighbors_def)
  fix k assume k: "adjacent api g m k" "k \<notin> X"
  then obtain e where "edge_endpoints api g e = Some (m, k) \<or> edge_endpoints api g e = Some (k, m)"
    by (auto simp: adjacent_def gedges_def)
  moreover from this have "edge_weight api g' e = Some True" using on m(2) k(2) by blast
  ultimately show "k \<in> set (get_connected_neighbours api g' m)"
    using connected_neighbours [OF assms(1), of g' e] assms(2) unfolding same_shape_def by metis
qed

lemma simplify_push:
  assumes "graph_ok api" "colour_inv api g st" "worklist st = rest @ [n]" "n \<notin> set (stack st)"
    and shape: "same_shape api g g'"
    and del: "spills st = [] \<Longrightarrow> \<forall>e. edge_weight api g' e \<noteq> edge_weight api (cgraph st) e \<longrightarrow> touches api g n e"
  defines "cs \<equiv> candidate_neighbors api g' (pending st) n"
  shows "colour_inv api g (st\<lparr>cgraph := g', stack := vec_push (stack st) n, on_stack := push_if_absent n (on_stack st),
      worklist := rest @ cs, pending := filter (\<lambda>k. k \<notin> set cs) (pending st)\<rparr>)" (is "colour_inv api g ?st")
  unfolding colour_inv_def
proof (intro conjI impI)
  have base: "colour_base api g st" using assms(2) by (simp add: colour_inv_def)
  have cs: "set cs \<subseteq> set (pending st)" unfolding cs_def by (rule set_candidates)
  show "colour_base api g ?st"
    using base cs assms(3,4) shape by (auto simp: colour_base_def vec_push_def)
  assume "spills ?st = []"
  then have sp: "spills st = []" by simp
  then have low: "colour_low api g st" using assms(2) by (simp add: colour_inv_def)
  have on: "edge_weight api g' e = Some True"
    if "edge_endpoints api g e = Some (a, b)" "a \<notin> insert n (set (stack st))" "b \<notin> insert n (set (stack st))" for e a b
  proof -
    have "\<not> touches api g n e" using that by (auto simp: touches_def)
    then have "edge_weight api g' e = edge_weight api (cgraph st) e" using del [OF sp] by blast
    then show ?thesis using low that by (simp add: colour_low_def)
  qed
  have work: "few_neighbours api g m (insert n (set (stack st)))"
    if "m \<in> set rest \<or> m \<in> set cs" "m \<notin> insert n (set (stack st))" for m
    using that(1)
  proof
    assume "m \<in> set rest"
    then have "few_neighbours api g m (set (stack st))" using low that(2) assms(3) by (simp add: colour_low_def)
    then show ?thesis by (rule few_neighbours_mono [OF assms(1)]) auto
  next
    assume "m \<in> set cs"
    then have "m \<in> set (candidate_neighbors api g' (pending st) n)" by (simp add: cs_def)
    from candidate_few [OF assms(1) shape _ this that(2)] on show ?thesis by blast
  qed
  have stk: "few_neighbours api g m (set xs)" if "stack st @ [n] = xs @ m # ys" for xs m ys
  proof (cases ys rule: rev_cases)
    case Nil
    then show ?thesis using that low assms(3,4) by (simp add: colour_low_def)
  next
    case (snoc ys' y)
    then show ?thesis using that low by (simp add: colour_low_def)
  qed
  show "colour_low api g ?st"
    unfolding colour_low_def using on work stk by (simp add: vec_push_def)
qed

lemma simplify_node_ok:
  assumes "graph_ok api" "valid_graph api g" "colour_inv api g st" "worklist st = rest @ [n]"
  shows "\<exists>st'. simplify_node api n (st\<lparr>worklist := rest\<rparr>) = Inr st' \<and> colour_inv api g st'"
proof (cases "n \<in> set (on_stack st)")
  case True
  then have "n \<in> set (stack st)" using assms(3) by (simp add: colour_inv_def colour_base_def)
  then have "colour_inv api g (st\<lparr>worklist := rest\<rparr>)"
    using assms(3,4) by (auto simp: colour_inv_def colour_base_def colour_low_def)
  with True show ?thesis by (simp add: simplify_node_def)
next
  case False
  have base: "colour_base api g st" using assms(3) by (simp add: colour_inv_def)
  then have n: "n \<notin> set (stack st)" "node_weight api g n \<noteq> None" and shape: "same_shape api g (cgraph st)"
    using False assms(4) by (auto simp: colour_base_def)
  then obtain reg where reg: "graph_index api (cgraph st) n = Inr reg"
    by (auto simp: graph_index_def unwrap_or_panic_def same_shape_def)
  obtain g' where g': "delete_edges api n (\<lambda>_ _. True) (cgraph st) = Inr g'" "same_shape api (cgraph st) g'"
      "\<forall>e. edge_weight api g' e \<noteq> edge_weight api (cgraph st) e \<longrightarrow> touches api (cgraph st) n e"
    using delete_edges_ok [OF assms(1) same_shape_valid [OF shape assms(2)]] by blast
  let ?g = "if reg \<notin> set (spills st) then g' else cgraph st"
  have "touches api (cgraph st) n e = touches api g n e" for e using shape by (simp add: touches_def same_shape_def)
  then have del: "\<forall>e. edge_weight api ?g e \<noteq> edge_weight api (cgraph st) e \<longrightarrow> touches api g n e" using g'(3) by simp
  have "same_shape api g ?g" using shape g'(2) same_shape_trans by (metis (full_types))
  note inv = simplify_push [OF assms(1,3,4) n(1) this del]
  have "simplify_node api n (st\<lparr>worklist := rest\<rparr>) = Inr (st\<lparr>cgraph := ?g, stack := vec_push (stack st) n,
      on_stack := push_if_absent n (on_stack st), worklist := rest @ candidate_neighbors api ?g (pending st) n,
      pending := filter (\<lambda>k. k \<notin> set (candidate_neighbors api ?g (pending st) n)) (pending st)\<rparr>)"
    using False reg g'(1) by (simp add: simplify_node_def Let_def)
  with inv show ?thesis by blast
qed

lemma simplify_loop_ok:
  "graph_ok api \<Longrightarrow> valid_graph api g \<Longrightarrow> colour_inv api g st \<Longrightarrow>
     \<exists>st'. simplify_loop api st = Inr st' \<and> colour_inv api g st' \<and> worklist st' = []"
proof (induction api st rule: simplify_loop.induct)
  case (1 api st)
  show ?case
  proof (cases "vec_pop (worklist st)")
    case None
    then have "worklist st = []" by (simp add: vec_pop_def split: if_splits)
    with None "1.prems" show ?thesis by (simp add: simplify_loop.simps)
  next
    case (Some p)
    obtain n rest where p: "p = (n, rest)" by fastforce
    then have "worklist st = rest @ [n]" using Some by (simp add: vec_pop_Some_iff)
    then obtain st1 where st1: "simplify_node api n (st\<lparr>worklist := rest\<rparr>) = Inr st1" "colour_inv api g st1"
      using simplify_node_ok [OF "1.prems"] by blast
    have "simplify_loop api st = simplify_loop api st1"
      using Some p st1(1) by (subst simplify_loop.simps) simp
    with "1.IH" [OF Some p [symmetric] st1(1) "1.prems"(1,2) st1(2)] show ?thesis by simp
  qed
qed

section \<open>Spills\<close>

definition points_below :: "nat \<Rightarrow> def_use \<Rightarrow> bool" where
  "points_below n m \<longleftrightarrow> (\<forall>r ds us. m r = Some (ds, us) \<longrightarrow> set ds \<union> set us \<subseteq> {..<n})"

lemma points_below_add:
  assumes "points_below n m" "i < n"
  shows "points_below n (add_use i v m)" "points_below n (add_def i v m)"
  using assms unfolding points_below_def
  by (fastforce simp: add_use_def add_def_def vec_push_def split: option.splits if_splits)+

lemma fold_invariant:
  assumes "I s" "\<And>x s. x \<in> set xs \<Longrightarrow> I s \<Longrightarrow> I (f x s)"
  shows "I (fold f xs s)"
  using assms by (induction xs arbitrary: s) auto

lemma compute_def_use_points_range: "points_below (length ops) (compute_def_use_points ops)"
  unfolding compute_def_use_points_def
proof (rule fold_invariant [where I = "points_below (length ops)"], goal_cases)
  case 1
  then show ?case by (simp add: points_below_def)
next
  case (2 p m)
  obtain idx o' where p: "p = (idx, o')" by fastforce
  then have idx: "idx < length ops" using 2(1) by (auto simp: in_set_enumerate_eq)
  show ?case unfolding p prod.case
    by (intro fold_invariant [where I = "points_below (length ops)"] points_below_add idx 2(2))
qed

lemma to_retain_ok:
  assumes "length live_out = length ops"
  shows "\<exists>rs. to_retain (compute_def_use_points ops) live_out sp r = Inr rs"
proof (cases "compute_def_use_points ops r")
  case (Some du)
  obtain ds us where du: "du = (ds, us)" by fastforce
  let ?is = "ds @ map (\<lambda>u. u - 1) (filter (\<lambda>u. u > 0) us)"
  have "set ds \<union> set us \<subseteq> {..<length live_out}"
    using compute_def_use_points_range [of ops] Some du assms by (simp add: points_below_def)
  then have "\<exists>y. nth_or_panic live_out x = Inr y" if "x \<in> set ?is" for x
    using that by (auto simp: nth_or_panic_def)
  then obtain lives where "mapM (nth_or_panic live_out) ?is = Inr lives" using mapM_Inr_exI by meson
  then show ?thesis unfolding to_retain_def Some du by simp
qed (simp add: to_retain_def)

lemma spill_node_ok:
  assumes "graph_ok api" "valid_graph api g" "colour_inv api g st" "n \<in> set (pending st)" "length live_out = length ops"
  shows "\<exists>st'. spill_node api (compute_def_use_points ops) live_out n st = Inr st' \<and> colour_inv api g st'"
proof -
  have base: "colour_base api g st" using assms(3) by (simp add: colour_inv_def)
  then have "node_weight api g n \<noteq> None" and shape: "same_shape api g (cgraph st)"
    using assms(4) by (auto simp: colour_base_def)
  then obtain reg where reg: "graph_index api (cgraph st) n = Inr reg" "node_weight api g n = Some reg"
    by (auto simp: graph_index_def unwrap_or_panic_def same_shape_def)
  let ?sp = "push_if_absent reg (spills st)"
  obtain rs where rs: "to_retain (compute_def_use_points ops) live_out ?sp reg = Inr rs"
    using to_retain_ok [OF assms(5)] by blast
  obtain g' where g': "delete_edges api n (\<lambda>s t. \<not> (s \<in> set rs \<or> t \<in> set rs)) (cgraph st) = Inr g'"
      "same_shape api (cgraph st) g'"
    using delete_edges_ok [OF assms(1) same_shape_valid [OF shape assms(2)]] by blast
  let ?st = "st\<lparr>cgraph := g', spills := ?sp, pending := filter (\<lambda>k. k \<noteq> n) (pending st),
      worklist := vec_push (worklist st) n\<rparr>"
  have "spill_node api (compute_def_use_points ops) live_out n st = Inr ?st"
    using reg(1) rs g'(1) by (simp add: spill_node_def)
  moreover have "colour_base api g ?st"
    using base assms(4) reg(2) same_shape_trans [OF shape g'(2)] distinct_push_if_absent [of "spills st" reg]
    by (auto simp: colour_base_def vec_push_def)
  moreover have "?sp \<noteq> []" by (auto simp: push_if_absent_def vec_push_def)
  ultimately show ?thesis by (simp add: colour_inv_def)
qed

lemma spill_choice_None: "hash_order_ok ho \<Longrightarrow> spill_choice api ho st = None \<Longrightarrow> pending st = []"
  unfolding spill_choice_def max_by_None hash_order_ok_def
  by (metis (no_types, lifting) filter_True set_empty)

lemma colour_loop_ok:
  "graph_ok api \<Longrightarrow> valid_graph api g \<Longrightarrow> hash_order_ok ho \<Longrightarrow> length live_out = length ops \<Longrightarrow> colour_inv api g st \<Longrightarrow>
     \<exists>st'. colour_loop api ho (compute_def_use_points ops) live_out st = Inr st'
       \<and> colour_inv api g st' \<and> worklist st' = [] \<and> pending st' = []"
proof (induction api ho "compute_def_use_points ops" live_out st rule: colour_loop.induct)
  case (1 api ho live_out st)
  obtain st1 where st1: "simplify_loop api st = Inr st1" "colour_inv api g st1" "worklist st1 = []"
    using simplify_loop_ok [OF "1.prems"(1,2,5)] by blast
  show ?case
  proof (cases "spill_choice api ho st1")
    case None
    with st1 spill_choice_None [OF "1.prems"(3)] show ?thesis by (simp add: colour_loop.simps)
  next
    case (Some n)
    obtain st2 where st2: "spill_node api (compute_def_use_points ops) live_out n st1 = Inr st2" "colour_inv api g st2"
      using spill_node_ok [OF "1.prems"(1,2) st1(2) spill_choice_Some [OF Some] "1.prems"(4)] by blast
    have "colour_loop api ho (compute_def_use_points ops) live_out st =
        colour_loop api ho (compute_def_use_points ops) live_out st2"
      using st1(1) Some st2(1) by (subst colour_loop.simps) simp
    with "1.hyps" [OF st1(1) Some st2(1) "1.prems"(1-4) st2(2)] show ?thesis by simp
  qed
qed

section \<open>The result\<close>

lemma stack_not_full:
  assumes "graph_ok api" "colour_low api g st" "distinct (stack st)"
  shows "\<not> pool_full_at api g (rev (stack st))"
proof
  assume "pool_full_at api g (rev (stack st))"
  then obtain xs n ys where split: "rev (stack st) = xs @ n # ys"
    and full: "length pool_init \<le> card {x \<in> set xs. adjacent api g n x}" by (auto simp: pool_full_at_def)
  then have st: "stack st = rev ys @ n # rev xs" by (metis append.assoc append_Cons append_Nil rev.simps(2) rev_append rev_rev_ident)
  have "few_neighbours api g n (set (rev ys))" using assms(2) st unfolding colour_low_def by blast
  then have low: "low_degree (card {m. adjacent api g n m \<and> m \<notin> set ys})" by (simp add: few_neighbours_def)
  have "{x \<in> set xs. adjacent api g n x} \<subseteq> {m. adjacent api g n m \<and> m \<notin> set ys}"
    using assms(3) st by auto
  then have "card {x \<in> set xs. adjacent api g n x} \<le> card {m. adjacent api g n m \<and> m \<notin> set ys}"
    by (intro card_mono finite_subset [OF _ finite_neighbours [OF assms(1), of g n]]) auto
  with full low show False by (simp add: low_degree_def pool_init_def)
qed

lemma color_interference_graph_ok:
  assumes "graph_ok api" "valid_graph api g" "edges_on api g" "hash_order_ok ho" "length live_out = length ops"
  shows "\<exists>g' res. color_interference_graph api ho g ops live_out = Inr (g', res) \<and> same_shape api g g'
    \<and> (case res of
         Inr stk \<Rightarrow> distinct stk \<and> set stk = {n. node_weight api g n \<noteq> None} \<and> \<not> pool_full_at api g (rev stk)
       | Inl sp \<Rightarrow> sp \<noteq> [] \<and> distinct sp \<and> (\<forall>r \<in> set sp. \<exists>n. node_weight api g n = Some r))"
proof -
  obtain st where st: "colour_loop api ho (compute_def_use_points ops) live_out (colour_init api g) = Inr st"
      "colour_inv api g st" "worklist st = []" "pending st = []"
    using colour_loop_ok [OF assms(1,2,4,5) colour_init_inv [OF assms(1,3)]] by blast
  have "colour_base api g st" "spills st = [] \<longrightarrow> colour_low api g st" using st(2) by (auto simp: colour_inv_def)
  then show ?thesis
    using st stack_not_full [OF assms(1), of g st]
    by (auto simp: color_interference_graph_def colour_base_def)
qed

text \<open>A stack that is never full gives every node a register, different from those of its neighbours.\<close>

lemma assign_registers_colours:
  assumes ok: "graph_ok api" "valid_graph api g" and shape: "same_shape api g g'"
    and stk: "distinct stk" "set stk = {n. node_weight api g n \<noteq> None}" "\<not> pool_full_at api g (rev stk)"
    and virt: "\<And>n r. node_weight api g n = Some r \<Longrightarrow> is_virtual r"
  shows "\<exists>pool. assign_registers api g' stk = Inr pool \<and> coloured api g pool
    \<and> (\<forall>n r. node_weight api g n = Some r \<longrightarrow>
         (\<exists>a. get_register pool r = Some (Allocated a) \<and> a < NUM_ALLOCATABLE_REGISTERS))"
proof -
  have same: "node_weight api g' = node_weight api g" "\<And>x y. adjacent api g' x y = adjacent api g x y"
    using shape same_shape_adjacent [OF shape] by (auto simp: same_shape_def)
  have "\<not> pool_full_at api g' (rev stk)" using stk(3) same by (simp add: pool_full_at_def)
  moreover have "\<forall>n \<in> set (rev stk). \<exists>r. node_weight api g' n = Some r \<and> is_virtual r"
    using stk(2) virt same(1) by auto
  ultimately obtain pool where pool: "assign_registers api g' stk = Inr pool" "coloured api g' pool"
      "pool_registers pool = pool_registers pool_init"
      "\<And>r. get_register pool r \<noteq> None \<longleftrightarrow> (\<exists>n \<in> set stk. node_weight api g' n = Some r)"
    using assign_stack_ok [OF ok(1) same_shape_valid [OF shape ok(2)], of "rev stk"] stk(1)
    by (auto simp: assign_registers_def split: sum.splits)
  have "\<exists>a. get_register pool r = Some (Allocated a) \<and> a < NUM_ALLOCATABLE_REGISTERS"
    if "node_weight api g n = Some r" for n r
  proof -
    have "get_register pool r \<noteq> None" using pool(4) stk(2) same(1) that by auto
    then show ?thesis using get_register_in_pool [of pool r] pool(3) pool_init_registers by auto
  qed
  moreover have "coloured api g pool" using pool(2) same by (simp add: coloured_def)
  ultimately show ?thesis using pool(1) by blast
qed

end
