(* ===== verification/Asm_Spill.thy ===== *)
theory Asm_Spill
  imports Asm_Simplify Asm_Cfg
begin

text \<open>
  \<^verbatim>\<open>spill\<close> of \<^verbatim>\<open>register_allocator.rs\<close>: every spilled register gets a word of the stack
  frame behind the locals; it is stored after each instruction that writes it and loaded before
  each instruction that reads it. Unsigned additions panic when they overflow.
\<close>

unbundle bit_operations_syntax

section \<open>Arithmetic and text\<close>

definition round_up_to_word_alignment :: "u32 \<Rightarrow> u32 result" where
  "round_up_to_word_alignment n = bindE (add_u32 n 7) (\<lambda>m. Inr (m - m mod 8))"

text \<open>The decimal digits that \<^verbatim>\<open>format!\<close> prints.\<close>

fun fmt_decimal :: "nat \<Rightarrow> string" where
  "fmt_decimal n = (if n < 10 then [char_of (48 + n)] else fmt_decimal (n div 10) @ [char_of (48 + n mod 10)])"

declare fmt_decimal.simps [simp del]

section \<open>The stack frame\<close>

text \<open>The positions of the instructions that extend and shrink the stack.\<close>

definition frame_op :: "nat \<times> op \<Rightarrow> nat option \<times> nat option \<Rightarrow> (nat option \<times> nat option) result" where
  "frame_op = (\<lambda>(op_idx, o') (cfe, cfs).
     case opcode o' of
       Inl (Memory (memory_op.CFEI _ _)) \<Rightarrow>
         if cfe \<noteq> None then Inl (Panic ''Found more than one stack extension'') else Inr (Some op_idx, cfs)
     | Inl (Memory (memory_op.CFSI _ _)) \<Rightarrow>
         if cfs \<noteq> None then Inl (Panic ''Found more than one stack shrink'') else Inr (cfe, Some op_idx)
     | _ \<Rightarrow> Inr (cfe, cfs))"

definition find_frame :: "op list \<Rightarrow> (nat option \<times> nat option) result" where
  "find_frame ops = foldM frame_op (enumerate 0 ops) (None, None)"

definition frame_size :: "op \<Rightarrow> u32 result" where
  "frame_size o' =
     (case opcode o' of
        Inl (Memory (memory_op.CFEI (Constant StackPointer) virt_imm_24)) \<Rightarrow> Inr (value24 virt_imm_24)
      | _ \<Rightarrow> Inl (Panic ''Unexpected opcode''))"

definition spill_offset :: "u32 \<Rightarrow> nat \<Rightarrow> u32 result" where
  "spill_offset locals_size_bytes i = add_u32 (of_nat (i * 8)) locals_size_bytes"

definition spill_offsets ::
  "u32 \<Rightarrow> virtual_register list \<Rightarrow> (virtual_register \<rightharpoonup> u32) result" where
  "spill_offsets locals_size_bytes regs =
     bindE (mapM (\<lambda>(i, reg). bindE (spill_offset locals_size_bytes i) (\<lambda>off. Inr (reg, off))) (enumerate 0 regs))
       (\<lambda>offs. Inr (map_of offs))"

section \<open>Loads and stores\<close>

definition spill_op_of :: "virtual_op \<Rightarrow> string \<Rightarrow> op" where
  "spill_op_of v c = \<lparr>opcode = Inl v, comment = c, owning_span = None\<rparr>"

abbreviation scratch :: virtual_register where
  "scratch \<equiv> Constant Scratch"

abbreviation locals_base :: virtual_register where
  "locals_base \<equiv> Constant LocalsBase"

definition calculate_offset_reg_wordimm :: "u32 \<Rightarrow> (op list \<times> virtual_register \<times> imm12) result" where
  "calculate_offset_reg_wordimm offset_bytes =
     bindE (assert_or_panic (offset_bytes mod 8 = 0)) (\<lambda>_.
     if offset_bytes \<le> ucast EIGHTEEN_BITS then
       bindE (imm18_new_unchecked (ucast offset_bytes) ''offset_bytes must fit in 18 bits'') (\<lambda>imm.
       bindE (imm12_new_unchecked 0 ''zero must fit in 12 bits'') (\<lambda>zero.
       Inr ([spill_op_of (Alu (MOVI scratch imm)) ''[spill/refill]: set offset'',
             spill_op_of (Alu (ADD scratch scratch locals_base)) ''[spill/refill]: add offset to stack base''],
            scratch, zero)))
     else
       bindE (assert_or_panic (offset_bytes \<le> ucast TWENTY_FOUR_BITS)) (\<lambda>_.
       let offset_upper_12 = drop_bit 12 offset_bytes;
           offset_lower_12 = offset_bytes AND 0xFFF
       in bindE (add_u32 (push_bit 12 offset_upper_12) offset_lower_12) (\<lambda>sum.
          bindE (assert_or_panic (sum = offset_bytes)) (\<lambda>_.
          bindE (imm18_new_unchecked (ucast offset_upper_12) ''Upper part of offset must fit in 18 bits'') (\<lambda>upper.
          bindE (imm12_new_unchecked 12 ''twelve must fit in 12 bits'') (\<lambda>twelve.
          bindE (imm12_new_unchecked (ucast (offset_lower_12 div 8)) ''Lower part of offset must fit in 12 bits'') (\<lambda>lower.
          Inr ([spill_op_of (Alu (MOVI scratch upper)) ''[spill/refill]: compute offset'',
                spill_op_of (Alu (SLLI scratch scratch twelve)) ''[spill/refill]: compute offset'',
                spill_op_of (Alu (ADD scratch scratch locals_base)) ''[spill/refill]: compute offset''],
               scratch, lower))))))))"

text \<open>The address of a slot: instructions that prepare it, a base register and a word offset.\<close>

definition slot_address :: "u32 \<Rightarrow> (op list \<times> virtual_register \<times> imm12) result" where
  "slot_address offset_bytes =
     bindE (assert_or_panic (offset_bytes mod 8 = 0)) (\<lambda>_.
     if offset_bytes div 8 \<le> ucast TWELVE_BITS then
       bindE (imm12_new_unchecked (ucast (offset_bytes div 8)) ''offset_bytes must fit in 12 bits'') (\<lambda>imm.
       Inr ([], locals_base, imm))
     else calculate_offset_reg_wordimm offset_bytes)"

definition refill :: "(virtual_register \<rightharpoonup> u32) \<Rightarrow> virtual_register \<Rightarrow> op list result" where
  "refill offsets spilled_use =
     bindE (unwrap_or_panic ''no entry found for key'' (offsets spilled_use)) (\<lambda>offset_bytes.
     bindE (slot_address offset_bytes) (\<lambda>(insts, reg, imm).
     Inr (vec_push insts (spill_op_of (Memory (memory_op.LW spilled_use reg imm)) ''[spill/refill]: refill from spill''))))"

definition store_spill :: "(virtual_register \<rightharpoonup> u32) \<Rightarrow> virtual_register \<Rightarrow> op list result" where
  "store_spill offsets spilled_def =
     bindE (unwrap_or_panic ''no entry found for key'' (offsets spilled_def)) (\<lambda>offset_bytes.
     bindE (slot_address offset_bytes) (\<lambda>(insts, reg, imm).
     Inr (vec_push insts (spill_op_of (Memory (memory_op.SW reg spilled_def imm)) ''[spill/refill]: spill''))))"

section \<open>The pass\<close>

definition frame_comment :: "op \<Rightarrow> u32 \<Rightarrow> string" where
  "frame_comment o' spills_size = comment o' @ '' and '' @ fmt_decimal (unat spills_size) @ '' bytes for spills''"

definition spill_one ::
  "virtual_register list \<Rightarrow> (virtual_register \<rightharpoonup> u32) \<Rightarrow> nat \<Rightarrow> nat option \<Rightarrow> u32 \<Rightarrow> u32 \<Rightarrow> nat \<times> op \<Rightarrow> op list result" where
  "spill_one spilled offsets cfe_idx cfs_idx_opt new_locals_byte_size spills_size = (\<lambda>(op_idx, o').
     if op_idx = cfe_idx then
       bindE (imm24_new_unchecked (ucast new_locals_byte_size) ''new_locals_byte_size must fit in 24 bits'') (\<lambda>imm.
       Inr [\<lparr>opcode = Inl (Memory (memory_op.CFEI (Constant StackPointer) imm)),
             comment = frame_comment o' spills_size, owning_span = owning_span o'\<rparr>])
     else if cfs_idx_opt = Some op_idx then
       bindE (imm24_new_unchecked (ucast new_locals_byte_size) ''new_locals_byte_size must fit in 24 bits'') (\<lambda>imm.
       Inr [\<lparr>opcode = Inl (Memory (memory_op.CFSI (Constant StackPointer) imm)),
             comment = frame_comment o' spills_size, owning_span = owning_span o'\<rparr>])
     else
       bindE (mapM (refill offsets) (filter (\<lambda>r. r \<in> set spilled) (op_use_registers o'))) (\<lambda>refills.
       bindE (mapM (store_spill offsets) (filter (\<lambda>r. r \<in> set spilled) (op_def_registers o'))) (\<lambda>stores.
       Inr (concat refills @ [o'] @ concat stores))))"

definition spill :: "hash_order \<Rightarrow> op list \<Rightarrow> virtual_register list \<Rightarrow> op list result" where
  "spill ho ops spilled =
     bindE (find_frame ops) (\<lambda>(cfe_idx_opt, cfs_idx_opt).
     bindE (unwrap_or_panic ''Function does not have CFEI instruction for locals'' cfe_idx_opt) (\<lambda>cfe_idx.
     bindE (frame_size (ops ! cfe_idx)) (\<lambda>size.
     bindE (round_up_to_word_alignment size) (\<lambda>locals_size_bytes.
     bindE (spill_offsets locals_size_bytes (reg_order ho spilled)) (\<lambda>offsets.
     let spills_size = of_nat (8 * length spilled) in
     bindE (add_u32 locals_size_bytes spills_size) (\<lambda>new_locals_byte_size.
     if new_locals_byte_size > ucast TWENTY_FOUR_BITS then Inl (Panic ''Enormous stack usage for locals.'')
     else
       bindE (mapM (spill_one spilled offsets cfe_idx cfs_idx_opt new_locals_byte_size spills_size) (enumerate 0 ops))
         (\<lambda>blocks. Inr (concat blocks))))))))"

section \<open>Finding the frame\<close>

definition is_cfei :: "op \<Rightarrow> bool" where
  "is_cfei o' \<longleftrightarrow> (case opcode o' of Inl (Memory (memory_op.CFEI _ _)) \<Rightarrow> True | _ \<Rightarrow> False)"

definition is_cfsi :: "op \<Rightarrow> bool" where
  "is_cfsi o' \<longleftrightarrow> (case opcode o' of Inl (Memory (memory_op.CFSI _ _)) \<Rightarrow> True | _ \<Rightarrow> False)"

definition frame_at :: "(op \<Rightarrow> bool) \<Rightarrow> op list \<Rightarrow> nat option \<Rightarrow> bool" where
  "frame_at p ops i \<longleftrightarrow> (case i of None \<Rightarrow> filter p ops = [] | Some k \<Rightarrow> k < length ops \<and> p (ops ! k))"

lemma frame_at_snoc:
  "frame_at p ops i \<Longrightarrow> \<not> p o' \<Longrightarrow> frame_at p (ops @ [o']) i"
  "p o' \<Longrightarrow> frame_at p (ops @ [o']) (Some (length ops))"
  "frame_at p ops (Some k) \<Longrightarrow> filter p ops \<noteq> []"
  by (auto simp: frame_at_def nth_append filter_empty_conv split: option.splits)

lemma frame_op_cases:
  "frame_op (i, o') (a, b) =
     (if is_cfei o' then if a \<noteq> None then Inl (Panic ''Found more than one stack extension'') else Inr (Some i, b)
      else if is_cfsi o' then if b \<noteq> None then Inl (Panic ''Found more than one stack shrink'') else Inr (a, Some i)
      else Inr (a, b))"
  "\<not> (is_cfei o' \<and> is_cfsi o')"
  by (auto simp: frame_op_def is_cfei_def is_cfsi_def split: sum.splits virtual_op.splits memory_op.splits)

lemma find_frame_ok:
  "length (filter is_cfei ops) \<le> 1 \<Longrightarrow> length (filter is_cfsi ops) \<le> 1 \<Longrightarrow>
     \<exists>a b. find_frame ops = Inr (a, b) \<and> frame_at is_cfei ops a \<and> frame_at is_cfsi ops b"
proof (induction ops rule: rev_induct)
  case Nil
  then show ?case by (simp add: find_frame_def frame_at_def)
next
  case (snoc o' ops)
  then obtain a b where ab: "find_frame ops = Inr (a, b)" "frame_at is_cfei ops a" "frame_at is_cfsi ops b" by auto
  have step: "find_frame (ops @ [o']) = frame_op (length ops, o') (a, b)"
    using ab(1) by (simp add: find_frame_def enumerate_append_eq foldM_append bindE_def split: sum.splits)
  have "a = None" if "is_cfei o'" using that snoc.prems(1) ab(2) frame_at_snoc(3) by (cases a) auto
  moreover have "b = None" if "is_cfsi o'" using that snoc.prems(2) ab(3) frame_at_snoc(3) by (cases b) auto
  ultimately show ?case
    unfolding step frame_op_cases(1) using ab(2,3) frame_op_cases(2) [of o'] by (auto intro: frame_at_snoc)
qed

text \<open>A frame: one instruction that extends the stack, at most one that shrinks it.\<close>

definition frame_ok :: "nat \<Rightarrow> op list \<Rightarrow> bool" where
  "frame_ok bytes ops \<longleftrightarrow> length (filter is_cfsi ops) \<le> 1 \<and>
     (\<exists>imm. map opcode (filter is_cfei ops) = [Inl (Memory (memory_op.CFEI (Constant StackPointer) imm))]
        \<and> unat (value24 imm) \<le> bytes)"

lemma frame_ok_find:
  assumes "frame_ok bytes ops"
  shows "\<exists>cfe cfs size. find_frame ops = Inr (Some cfe, cfs) \<and> cfe < length ops \<and> is_cfei (ops ! cfe)
    \<and> frame_at is_cfsi ops cfs \<and> frame_size (ops ! cfe) = Inr size \<and> unat size \<le> bytes"
proof -
  obtain imm where imm: "map opcode (filter is_cfei ops) = [Inl (Memory (memory_op.CFEI (Constant StackPointer) imm))]"
      "unat (value24 imm) \<le> bytes" "length (filter is_cfsi ops) \<le> 1"
    using assms by (auto simp: frame_ok_def)
  have "length (filter is_cfei ops) \<le> 1" using arg_cong [OF imm(1), of length] by simp
  then obtain a b where ab: "find_frame ops = Inr (a, b)" "frame_at is_cfei ops a" "frame_at is_cfsi ops b"
    using find_frame_ok imm(3) by blast
  moreover have "filter is_cfei ops \<noteq> []" using imm(1) by auto
  ultimately obtain cfe where cfe: "a = Some cfe" "cfe < length ops" "is_cfei (ops ! cfe)"
    by (auto simp: frame_at_def split: option.splits)
  then have "opcode (ops ! cfe) \<in> set (map opcode (filter is_cfei ops))" by simp
  then have "frame_size (ops ! cfe) = Inr (value24 imm)" unfolding imm(1) by (simp add: frame_size_def)
  with ab cfe imm(2) show ?thesis by blast
qed

section \<open>Addresses of slots\<close>

text \<open>The instructions the pass inserts have no part in the control flow.\<close>

definition helper_op :: "op \<Rightarrow> bool" where
  "helper_op p \<longleftrightarrow> jump_target p = None \<and> label_of p = None \<and> \<not> offset_jump p \<and> falls_through p \<and> wf_op p
     \<and> \<not> is_cfei p \<and> \<not> is_cfsi p"

lemma helper_op_simps [simp]:
  "helper_op (spill_op_of (Alu (MOVI r i)) c)" "helper_op (spill_op_of (Alu (ADD r s t)) c)"
  "helper_op (spill_op_of (Alu (SLLI r s j)) c)" "helper_op (spill_op_of (Memory (memory_op.LW r s j)) c)"
  "helper_op (spill_op_of (Memory (memory_op.SW r s j)) c)"
  by (simp_all add: helper_op_def spill_op_of_def jump_target_def label_of_def offset_jump_def falls_through_def
      wf_op_def wf_vop_def is_cfei_def is_cfsi_def)

lemma spill_op_of_registers [simp]:
  "set (op_registers (spill_op_of (Alu (MOVI r i)) c)) = {r}"
  "set (op_registers (spill_op_of (Alu (ADD r s t)) c)) = {r, s, t}"
  "set (op_registers (spill_op_of (Alu (SLLI r s j)) c)) = {r, s}"
  "set (op_registers (spill_op_of (Memory (memory_op.LW r s j)) c)) = {r, s}"
  "set (op_registers (spill_op_of (Memory (memory_op.SW r s j)) c)) = {r, s}"
  by (auto simp: op_registers_def spill_op_of_def vop_registers_def)

lemma unat_ucast_u32: "unat (ucast (x :: u32) :: u64) = unat x"
proof -
  have "unat x < 2 ^ 64" using unat_less_u32 [of x] by simp
  then show ?thesis by (simp add: unsigned_ucast_eq take_bit_nat_eq_self)
qed

lemma unat_parts:
  fixes off :: u32
  shows "unat (push_bit 12 (drop_bit 12 off)) + unat (off AND 0xFFF) = unat off"
    and "push_bit 12 (drop_bit 12 off) + (off AND 0xFFF) = off"
    and "unat (off AND 0xFFF) = unat off mod 4096" "unat (drop_bit 12 off) = unat off div 4096"
proof -
  have mask: "off AND 0xFFF = take_bit 12 off" by (simp add: take_bit_eq_mask mask_eq_exp_minus_1)
  show sum: "push_bit 12 (drop_bit 12 off) + (off AND 0xFFF) = off"
    unfolding mask using bits_ident [of 12 off] by (simp add: add.commute)
  show m: "unat (off AND 0xFFF) = unat off mod 4096"
    unfolding mask by (simp add: take_bit_eq_mod unat_mod_distrib)
  show d: "unat (drop_bit 12 off) = unat off div 4096"
    by (simp add: drop_bit_eq_div unat_div_distrib)
  have "unat (push_bit 12 (drop_bit 12 off)) = 4096 * (unat off div 4096) mod 2 ^ 32"
    by (simp add: push_bit_eq_mult unat_word_ariths(2) d mult.commute)
  also have "\<dots> = 4096 * (unat off div 4096)"
    by (rule mod_less)
      (use le_less_trans [OF times_div_less_eq_dividend [of 4096 "unat off"] unat_less_u32 [of off]] in simp)
  finally show "unat (push_bit 12 (drop_bit 12 off)) + unat (off AND 0xFFF) = unat off"
    unfolding m by simp
qed

definition slot_ops_ok :: "op list \<Rightarrow> virtual_register \<Rightarrow> bool" where
  "slot_ops_ok insts reg \<longleftrightarrow> length insts \<le> 3 \<and> reg \<in> {scratch, locals_base}
     \<and> (\<forall>p \<in> set insts. helper_op p \<and> set (op_registers p) \<subseteq> {scratch, locals_base})"

lemma unchecked_ok:
  "unat raw < 65536 \<Longrightarrow> imm12_new_unchecked raw msg = Inr \<lparr>value12 = ucast raw\<rparr>"
  "unat raw < 4294967296 \<Longrightarrow> imm18_new_unchecked raw msg = Inr \<lparr>value18 = ucast raw\<rparr>"
  "unat raw < 4294967296 \<Longrightarrow> imm24_new_unchecked raw msg = Inr \<lparr>value24 = ucast raw\<rparr>"
  by (simp_all add: imm12_new_unchecked_def imm18_new_unchecked_def imm24_new_unchecked_def try_into_def
      unwrap_or_panic_def)

lemma slot_address_eq:
  assumes "unat off mod 8 = 0" "unat off \<le> 0xFFFFFF"
  shows "slot_address off = Inr (
      if unat off div 8 \<le> 0xFFF then ([], locals_base, \<lparr>value12 = ucast (ucast (off div 8) :: u64)\<rparr>)
      else if unat off \<le> 0x3FFFF then
        ([spill_op_of (Alu (MOVI scratch \<lparr>value18 = ucast (ucast off :: u64)\<rparr>)) ''[spill/refill]: set offset'',
          spill_op_of (Alu (ADD scratch scratch locals_base)) ''[spill/refill]: add offset to stack base''],
         scratch, \<lparr>value12 = 0\<rparr>)
      else
        ([spill_op_of (Alu (MOVI scratch \<lparr>value18 = ucast (ucast (drop_bit 12 off) :: u64)\<rparr>)) ''[spill/refill]: compute offset'',
          spill_op_of (Alu (SLLI scratch scratch \<lparr>value12 = 12\<rparr>)) ''[spill/refill]: compute offset'',
          spill_op_of (Alu (ADD scratch scratch locals_base)) ''[spill/refill]: compute offset''],
         scratch, \<lparr>value12 = ucast (ucast ((off AND 0xFFF) div 8) :: u64)\<rparr>))"
proof -
  have "unat (off mod 8) = 0" using assms(1) by (simp add: unat_mod_distrib)
  then have m8: "off mod 8 = 0" by (simp add: unat_eq_0)
  have d8: "unat (off div 8) = unat off div 8" by (simp add: unat_div_distrib)
  have c12: "off div 8 \<le> ucast TWELVE_BITS \<longleftrightarrow> unat off div 8 \<le> 0xFFF"
    by (simp add: TWELVE_BITS_def word_le_nat_alt d8)
  have c18: "off \<le> ucast EIGHTEEN_BITS \<longleftrightarrow> unat off \<le> 0x3FFFF"
    by (simp add: EIGHTEEN_BITS_def word_le_nat_alt)
  have c24: "off \<le> ucast TWENTY_FOUR_BITS" using assms(2) by (simp add: TWENTY_FOUR_BITS_def word_le_nat_alt)
  have lower: "unat ((off AND 0xFFF) div 8) < 512"
    using unat_parts(3) [of off] by (simp add: unat_div_distrib less_mult_imp_div_less)
  have "add_u32 (push_bit 12 (drop_bit 12 off)) (off AND 0xFFF) = Inr off"
    using unat_parts(1,2) [of off] unat_less_u32 [of off] by (simp add: add_u32_def)
  moreover have "imm12_new_unchecked (ucast ((off AND 0xFFF) div 8)) msg
      = Inr \<lparr>value12 = ucast (ucast ((off AND 0xFFF) div 8) :: u64)\<rparr>" for msg
    using lower by (intro unchecked_ok) (simp add: unat_ucast_u32)
  moreover have "imm18_new_unchecked (ucast (drop_bit 12 off)) msg
      = Inr \<lparr>value18 = ucast (ucast (drop_bit 12 off) :: u64)\<rparr>" "imm18_new_unchecked (ucast off) msg
      = Inr \<lparr>value18 = ucast (ucast off :: u64)\<rparr>" for msg
    using unat_less_u32 [of off] unat_less_u32 [of "drop_bit 12 off"] by (auto intro!: unchecked_ok simp: unat_ucast_u32)
  moreover have "imm12_new_unchecked (ucast (off div 8)) msg = Inr \<lparr>value12 = ucast (ucast (off div 8) :: u64)\<rparr>"
    if "unat off div 8 \<le> 0xFFF" for msg
    using that by (intro unchecked_ok) (simp add: unat_ucast_u32 d8)
  moreover have "imm12_new_unchecked 0 msg = Inr \<lparr>value12 = 0\<rparr>" "imm12_new_unchecked 12 msg = Inr \<lparr>value12 = 12\<rparr>" for msg
    by (simp_all add: unchecked_ok)
  ultimately show ?thesis
    using m8 c24 by (simp add: slot_address_def calculate_offset_reg_wordimm_def assert_or_panic_def c12 c18 Let_def)
qed

lemma slot_address_ok:
  assumes "unat off mod 8 = 0" "unat off \<le> 0xFFFFFF"
  shows "\<exists>insts reg imm. slot_address off = Inr (insts, reg, imm) \<and> slot_ops_ok insts reg"
  using slot_address_eq [OF assms] by (auto simp: slot_ops_ok_def)

section \<open>Offsets of slots\<close>

lemma spill_offsets_ok:
  assumes "distinct regs" "unat sz + 8 * length regs \<le> 0xFFFFFF"
  shows "\<exists>offs. spill_offsets sz regs = Inr offs \<and> dom offs = set regs
    \<and> (\<forall>i < length regs. \<exists>off. offs (regs ! i) = Some off \<and> unat off = unat sz + 8 * i)"
proof -
  let ?off = "\<lambda>i. of_nat (i * 8) + sz"
  have off: "spill_offset sz i = Inr (?off i)" "unat (?off i) = unat sz + 8 * i" if "i < length regs" for i
  proof -
    have "unat (of_nat (i * 8) :: u32) = i * 8" using that assms(2) by (intro unat_of_nat_u32) simp
    then show "spill_offset sz i = Inr (?off i)" "unat (?off i) = unat sz + 8 * i"
      using add_u32_ok [of "of_nat (i * 8)" sz] that assms(2) by (simp_all add: spill_offset_def)
  qed
  let ?ps = "map (\<lambda>(i, reg). (reg, ?off i)) (enumerate 0 regs)"
  have "spill_offsets sz regs = Inr (map_of ?ps)"
    unfolding spill_offsets_def
    by (subst mapM_pure [where g = "\<lambda>(i, reg). (reg, ?off i)"]) (auto simp: in_set_enumerate_eq off)
  moreover have keys: "map fst ?ps = regs"
    by (rule nth_equalityI) (auto simp: nth_enumerate_eq split: prod.splits)
  moreover have "map_of ?ps (regs ! i) = Some (?off i)" if "i < length regs" for i
  proof (rule map_of_is_SomeI)
    show "distinct (map fst ?ps)" unfolding keys by (rule assms(1))
    have "?ps ! i \<in> set ?ps" using that by (intro nth_mem) simp
    then show "(regs ! i, ?off i) \<in> set ?ps" using that by (simp add: nth_enumerate_eq)
  qed
  moreover have "dom (map_of ?ps) = set regs" using arg_cong [OF keys, of set]
    unfolding dom_map_of_conv_image_fst set_map by blast
  ultimately show ?thesis using off(2) by auto
qed

lemma hash_order_distinct:
  assumes "hash_order_ok ho" "distinct sp"
  shows "distinct (reg_order ho sp)" "set (reg_order ho sp) = set sp" "length (reg_order ho sp) = length sp"
proof -
  show s: "set (reg_order ho sp) = set sp" and l: "length (reg_order ho sp) = length sp"
    using assms(1) by (simp_all add: hash_order_ok_def)
  show "distinct (reg_order ho sp)" using s l assms(2) by (metis card_distinct distinct_card)
qed

lemma round_up_ok:
  assumes "unat n + 7 < 4294967296"
  shows "\<exists>m. round_up_to_word_alignment n = Inr m \<and> unat m mod 8 = 0 \<and> unat n \<le> unat m \<and> unat m \<le> unat n + 7"
proof -
  let ?s = "n + 7"
  have s: "add_u32 n 7 = Inr ?s" "unat ?s = unat n + 7" using add_u32_ok [of n 7] assms by simp_all
  have "?s mod 8 \<le> ?s" by (simp add: word_le_nat_alt unat_mod_distrib)
  then have "unat (?s - ?s mod 8) = unat ?s - unat ?s mod 8" by (simp add: unat_sub unat_mod_distrib)
  then have "unat (?s - ?s mod 8) = (unat n + 7) - (unat n + 7) mod 8" using s(2) by simp
  moreover have "((k::nat) + 7 - (k + 7) mod 8) mod 8 = 0" "k \<le> k + 7 - (k + 7) mod 8" for k by presburger+
  ultimately show ?thesis using s(1) by (auto simp: round_up_to_word_alignment_def)
qed

section \<open>Blocks\<close>

text \<open>The instructions that replace one instruction: the instruction itself with loads and stores around it.\<close>

definition block_ok :: "virtual_register set \<Rightarrow> nat \<Rightarrow> op \<Rightarrow> op list \<Rightarrow> bool" where
  "block_ok A k o' b \<longleftrightarrow> (\<exists>pre post. b = pre @ [o'] @ post \<and> length b \<le> k
     \<and> (\<forall>p \<in> set pre \<union> set post. helper_op p \<and> set (op_registers p) \<subseteq> A))"

definition offsets_ok :: "(virtual_register \<rightharpoonup> u32) \<Rightarrow> virtual_register list \<Rightarrow> bool" where
  "offsets_ok offs sp \<longleftrightarrow> (\<forall>r \<in> set sp. \<exists>off. offs r = Some off \<and> unat off mod 8 = 0 \<and> unat off \<le> 0xFFFFFF)"

lemma refill_ok:
  assumes "offsets_ok offs sp" "r \<in> set sp"
  shows "\<exists>b. refill offs r = Inr b \<and> length b \<le> 4 \<and> (\<forall>p \<in> set b. helper_op p \<and> set (op_registers p) \<subseteq> {scratch, locals_base, r})"
    and "\<exists>b. store_spill offs r = Inr b \<and> length b \<le> 4 \<and> (\<forall>p \<in> set b. helper_op p \<and> set (op_registers p) \<subseteq> {scratch, locals_base, r})"
proof -
  obtain off insts reg imm where "offs r = Some off" "slot_address off = Inr (insts, reg, imm)" "slot_ops_ok insts reg"
    using assms slot_address_ok unfolding offsets_ok_def by metis
  then show "\<exists>b. refill offs r = Inr b \<and> length b \<le> 4 \<and> (\<forall>p \<in> set b. helper_op p \<and> set (op_registers p) \<subseteq> {scratch, locals_base, r})"
    and "\<exists>b. store_spill offs r = Inr b \<and> length b \<le> 4 \<and> (\<forall>p \<in> set b. helper_op p \<and> set (op_registers p) \<subseteq> {scratch, locals_base, r})"
    by (auto simp: refill_def store_spill_def unwrap_or_panic_def vec_push_def slot_ops_ok_def)
qed

lemma mapM_blocks:
  assumes "\<forall>r \<in> set rs. \<exists>b. f r = Inr b \<and> length b \<le> 4 \<and> (\<forall>p \<in> set b. P p)"
  shows "\<exists>bs. mapM f rs = Inr bs \<and> length (concat bs) \<le> 4 * length rs \<and> (\<forall>p \<in> set (concat bs). P p)"
  using assms
proof (induction rs)
  case (Cons r rs)
  then obtain b bs where "f r = Inr b" "length b \<le> 4" "\<forall>p \<in> set b. P p"
    "mapM f rs = Inr bs" "length (concat bs) \<le> 4 * length rs" "\<forall>p \<in> set (concat bs). P p" by auto
  then show ?case by auto
qed simp

lemma distinct_op_registers: "distinct (op_use_registers o')" "distinct (op_def_registers o')"
proof -
  have "distinct (cf_use_registers c)" "distinct (cf_def_registers c)" for c :: "virtual_register control_flow_op"
    by (cases c; simp)+
  then show "distinct (op_use_registers o')" "distinct (op_def_registers o')"
    by (auto simp: op_use_registers_def op_def_registers_def vop_use_registers_def vop_def_registers_def split: sum.splits)
qed

lemma register_count:
  assumes "set (op_registers o') \<subseteq> A" "finite A"
  shows "length (filter P (op_use_registers o')) \<le> card A" "length (filter P (op_def_registers o')) \<le> card A"
proof -
  have "length (filter P xs) \<le> card A" if "distinct xs" "set xs \<subseteq> A" for xs
  proof -
    have "length (filter P xs) = card (set (filter P xs))" using that(1) by (metis distinct_card distinct_filter)
    also have "\<dots> \<le> card A" using that(2) assms(2) by (intro card_mono) auto
    finally show ?thesis .
  qed
  then show "length (filter P (op_use_registers o')) \<le> card A" "length (filter P (op_def_registers o')) \<le> card A"
    using assms(1) distinct_op_registers by (simp_all add: op_registers_use_def)
qed

lemma spill_one_block:
  assumes "offsets_ok offs sp" "i \<noteq> cfe" "cfs \<noteq> Some i" "set (op_registers o') \<subseteq> A" "finite A"
    and "scratch \<in> B" "locals_base \<in> B" "A \<subseteq> B"
  shows "\<exists>b. spill_one sp offs cfe cfs n k (i, o') = Inr b \<and> block_ok B (1 + 8 * card A) o' b"
proof -
  let ?P = "\<lambda>p. helper_op p \<and> set (op_registers p) \<subseteq> B"
  let ?use = "filter (\<lambda>r. r \<in> set sp) (op_use_registers o')" and ?def = "filter (\<lambda>r. r \<in> set sp) (op_def_registers o')"
  have sub: "set (op_use_registers o') \<subseteq> B" "set (op_def_registers o') \<subseteq> B"
    using assms(4,8) by (auto simp: op_registers_use_def)
  have "\<exists>b. refill offs r = Inr b \<and> length b \<le> 4 \<and> (\<forall>p \<in> set b. ?P p)" if "r \<in> set ?use" for r
    using refill_ok(1) [OF assms(1), of r] that sub(1) assms(6,7) by fastforce
  then obtain refills where r: "mapM (refill offs) ?use = Inr refills" "length (concat refills) \<le> 4 * length ?use"
      "\<forall>p \<in> set (concat refills). ?P p"
    using mapM_blocks [of ?use "refill offs" ?P] by blast
  have "\<exists>b. store_spill offs r = Inr b \<and> length b \<le> 4 \<and> (\<forall>p \<in> set b. ?P p)" if "r \<in> set ?def" for r
    using refill_ok(2) [OF assms(1), of r] that sub(2) assms(6,7) by fastforce
  then obtain stores where st: "mapM (store_spill offs) ?def = Inr stores" "length (concat stores) \<le> 4 * length ?def"
      "\<forall>p \<in> set (concat stores). ?P p"
    using mapM_blocks [of ?def "store_spill offs" ?P] by blast
  let ?b = "concat refills @ [o'] @ concat stores"
  have "length ?b \<le> 1 + 8 * card A"
    using r(2) st(2) register_count [OF assms(4,5), of "\<lambda>r. r \<in> set sp"] by simp
  then have "block_ok B (1 + 8 * card A) o' ?b" using r(3) st(3) unfolding block_ok_def by blast
  moreover have "spill_one sp offs cfe cfs n k (i, o') = Inr ?b"
    using assms(2,3) r(1) st(1) by (simp add: spill_one_def)
  ultimately show ?thesis by blast
qed

section \<open>The whole pass\<close>

lemma filter_at_most_one:
  assumes "length (filter P xs) \<le> 1" "i < length xs" "P (xs ! i)" "j < length xs" "P (xs ! j)"
  shows "i = j"
proof (rule ccontr)
  assume "i \<noteq> j"
  have "{i, j} \<subseteq> {k. k < length xs \<and> P (xs ! k)}" using assms(2-5) by blast
  then have "card {i, j} \<le> length (filter P xs)"
    unfolding length_filter_conv_card by (rule card_mono [rotated]) simp
  with \<open>i \<noteq> j\<close> assms(1) show False by simp
qed

text \<open>What every block is: the frame instructions change their size, the others get loads and stores.\<close>

definition frame_op_ok :: "op \<Rightarrow> bool" where
  "frame_op_ok p \<longleftrightarrow> jump_target p = None \<and> label_of p = None \<and> \<not> offset_jump p \<and> wf_op p
     \<and> set (op_registers p) \<subseteq> {Constant StackPointer}"

definition spilled_block ::
  "virtual_register set \<Rightarrow> nat \<Rightarrow> u32 \<Rightarrow> nat \<Rightarrow> nat option \<Rightarrow> op list \<Rightarrow> nat \<Rightarrow> op list \<Rightarrow> bool" where
  "spilled_block A k new cfe cfs ops i b \<longleftrightarrow>
     (if i = cfe then \<exists>p. b = [p] \<and> frame_op_ok p \<and> \<not> is_cfsi p
          \<and> opcode p = Inl (Memory (memory_op.CFEI (Constant StackPointer) \<lparr>value24 = new\<rparr>))
      else if cfs = Some i then \<exists>p. b = [p] \<and> frame_op_ok p \<and> \<not> is_cfei p
      else block_ok A k (ops ! i) b)"

lemma ucast_u32_u64: "ucast (ucast (x :: u32) :: u64) = x"
  by (rule bit_word_eqI) (simp add: bit_simps)

lemma spill_blocks_ok:
  assumes "offsets_ok offs sp" "unat new \<le> 0xFFFFFF" "finite A" "all_registers ops \<subseteq> A" "scratch \<in> A" "locals_base \<in> A"
    and k: "k = 1 + 8 * card A"
  shows "\<exists>blocks. mapM (spill_one sp offs cfe cfs new n) (enumerate 0 ops) = Inr blocks \<and> length blocks = length ops
    \<and> (\<forall>i < length ops. spilled_block A k new cfe cfs ops i (blocks ! i))"
proof -
  have imm: "imm24_new_unchecked (ucast new) msg = Inr \<lparr>value24 = new\<rparr>" for msg
    using unat_less_u32 [of new] by (simp add: unchecked_ok unat_ucast_u32 ucast_u32_u64)
  have one: "\<exists>b. spill_one sp offs cfe cfs new n (i, ops ! i) = Inr b \<and> spilled_block A k new cfe cfs ops i b"
    if i: "i < length ops" for i
  proof (cases "i = cfe \<or> cfs = Some i")
    case True
    then show ?thesis
      by (auto simp: spill_one_def spilled_block_def imm frame_op_ok_def jump_target_def label_of_def offset_jump_def
          wf_op_def wf_vop_def is_cfei_def is_cfsi_def op_registers_def vop_registers_def)
  next
    case False
    have "set (op_registers (ops ! i)) \<subseteq> A" using assms(4) nth_mem [OF i] unfolding all_registers_def by blast
    then show ?thesis
      using spill_one_block [OF assms(1) _ _ _ assms(3,5,6) subset_refl, of i cfe cfs "ops ! i" new n] False k
      by (auto simp: spilled_block_def)
  qed
  have "\<exists>b. spill_one sp offs cfe cfs new n x = Inr b" if "x \<in> set (enumerate 0 ops)" for x
    using one that by (auto simp: in_set_enumerate_eq) (metis prod.collapse)
  then obtain blocks where bl: "mapM (spill_one sp offs cfe cfs new n) (enumerate 0 ops) = Inr blocks"
    using mapM_Inr_exI by blast
  then have "list_all2 (\<lambda>x b. spill_one sp offs cfe cfs new n x = Inr b) (enumerate 0 ops) blocks" by (simp add: mapM_Inr_iff)
  then have len: "length blocks = length ops"
    and nth: "\<And>i. i < length ops \<Longrightarrow> spill_one sp offs cfe cfs new n (i, ops ! i) = Inr (blocks ! i)"
    by (auto simp: list_all2_conv_all_nth nth_enumerate_eq)
  have "spilled_block A k new cfe cfs ops i (blocks ! i)" if "i < length ops" for i
    using one [OF that] nth [OF that] by auto
  with bl len show ?thesis by blast
qed

lemma spilled_block_elems:
  assumes "spilled_block A k new cfe cfs ops i b" "Constant StackPointer \<in> A" "p \<in> set b"
  shows "p = ops ! i \<and> i \<noteq> cfe \<and> cfs \<noteq> Some i \<or>
    label_of p = None \<and> jump_target p = None \<and> \<not> offset_jump p \<and> wf_op p \<and> set (op_registers p) \<subseteq> A"
proof (cases "i = cfe \<or> cfs = Some i")
  case True
  then have "frame_op_ok p" using assms(1,3) by (auto simp: spilled_block_def split: if_splits)
  then show ?thesis using assms(2) by (auto simp: frame_op_ok_def)
next
  case False
  then show ?thesis using assms(1,3) by (auto simp: spilled_block_def block_ok_def helper_op_def)
qed

lemma spilled_block_keeps:
  "spilled_block A k new cfe cfs ops i b \<Longrightarrow> i \<noteq> cfe \<Longrightarrow> cfs \<noteq> Some i \<Longrightarrow> ops ! i \<in> set b"
  by (auto simp: spilled_block_def block_ok_def)

lemma spilled_block_length: "spilled_block A k new cfe cfs ops i b \<Longrightarrow> 1 \<le> k \<Longrightarrow> length b \<le> k"
  by (auto simp: spilled_block_def block_ok_def split: if_splits)

lemma frame_label: "is_cfei o' \<or> is_cfsi o' \<Longrightarrow> label_of o' = None"
  by (auto simp: is_cfei_def is_cfsi_def label_of_def split: sum.splits virtual_op.splits)

text \<open>The frame instructions among the blocks are the two changed ones.\<close>

lemma spilled_block_frames:
  assumes "spilled_block A k new cfe cfs ops i b" "i < length ops" "cfe < length ops"
    and "is_cfei (ops ! cfe)" "length (filter is_cfei ops) \<le> 1"
    and "frame_at is_cfsi ops cfs" "length (filter is_cfsi ops) \<le> 1"
  shows "map opcode (filter is_cfei b) =
      (if i = cfe then [Inl (Memory (memory_op.CFEI (Constant StackPointer) \<lparr>value24 = new\<rparr>))] else [])"
    and "length (filter is_cfsi b) \<le> (if cfs = Some i then 1 else 0)"
proof -
  have cfei: "\<not> is_cfei (ops ! i)" if "i \<noteq> cfe" using that filter_at_most_one [OF assms(5,2) _ assms(3,4)] by blast
  have cfsi: "\<not> is_cfsi (ops ! i)" if "cfs \<noteq> Some i"
  proof (cases cfs)
    case None
    then have "filter is_cfsi ops = []" using assms(6) by (simp add: frame_at_def)
    then show ?thesis using nth_mem [OF assms(2)] by (simp add: filter_empty_conv)
  next
    case (Some c)
    then have "c < length ops" "is_cfsi (ops ! c)" using assms(6) by (simp_all add: frame_at_def)
    then show ?thesis using filter_at_most_one [OF assms(7,2)] that Some by blast
  qed
  have nil: "filter P b = []" if "block_ok A k (ops ! i) b" "\<not> P (ops ! i)" "\<And>p. helper_op p \<Longrightarrow> \<not> P p" for P
    using that by (auto simp: block_ok_def filter_empty_conv)
  show "map opcode (filter is_cfei b) =
      (if i = cfe then [Inl (Memory (memory_op.CFEI (Constant StackPointer) \<lparr>value24 = new\<rparr>))] else [])"
  proof (cases "i = cfe")
    case True
    then show ?thesis using assms(1) by (auto simp: spilled_block_def is_cfei_def)
  next
    case False
    then show ?thesis using assms(1) nil [of is_cfei] cfei by (auto simp: spilled_block_def helper_op_def split: if_splits)
  qed
  show "length (filter is_cfsi b) \<le> (if cfs = Some i then 1 else 0)"
  proof (cases "i = cfe \<or> cfs = Some i")
    case True
    then show ?thesis using assms(1) by (auto simp: spilled_block_def split: if_splits)
  next
    case False
    then show ?thesis using assms(1) nil [of is_cfsi] cfsi by (auto simp: spilled_block_def helper_op_def)
  qed
qed

lemma length_concat_bound: "(\<And>b. b \<in> set bs \<Longrightarrow> length b \<le> k) \<Longrightarrow> length (concat bs) \<le> length bs * k"
  by (induction bs) (auto intro: add_mono)

lemma filter_concat_nth: "filter P (concat bs) = concat (map (\<lambda>i. filter P (bs ! i)) [0..<length bs])"
proof -
  have "bs = map (\<lambda>i. bs ! i) [0..<length bs]" by (simp add: map_nth)
  then have "filter P (concat bs) = concat (map (filter P) (map (\<lambda>i. bs ! i) [0..<length bs]))"
    by (metis filter_concat)
  then show ?thesis by (simp add: comp_def)
qed

lemma concat_single: "concat (map (\<lambda>i. if i = c then [f i] else []) [0..<n]) = (if c < n then [f c] else [])"
  by (induction n) auto

lemma filter_blocks_single:
  assumes "\<And>i. i < length bs \<Longrightarrow> map f (filter P (bs ! i)) = (if i = c then [x] else [])" "c < length bs"
  shows "map f (filter P (concat bs)) = [x]"
proof -
  have "map f (filter P (concat bs)) = concat (map (\<lambda>i. if i = c then [x] else []) [0..<length bs])"
    unfolding filter_concat_nth map_concat map_map comp_def using assms(1)
    by (intro arg_cong [where f = concat] map_cong) simp_all
  then show ?thesis using assms(2) by (simp add: concat_single)
qed

lemma filter_blocks_at_most_one:
  assumes "\<And>i. i < length bs \<Longrightarrow> length (filter P (bs ! i)) \<le> (if c = Some i then 1 else 0)"
  shows "length (filter P (concat bs)) \<le> 1"
proof -
  have one: "(\<Sum>i\<leftarrow>[0..<n]. if c = Some i then 1 else 0 :: nat) \<le> (if \<exists>k < n. c = Some k then 1 else 0)" for n
    by (induction n) (auto simp: less_Suc_eq)
  have "length (filter P (concat bs)) = (\<Sum>i\<leftarrow>[0..<length bs]. length (filter P (bs ! i)))"
    unfolding filter_concat_nth by (simp add: length_concat comp_def)
  also have "\<dots> \<le> (\<Sum>i\<leftarrow>[0..<length bs]. if c = Some i then 1 else 0)"
    using assms by (intro sum_list_mono) simp
  also have "\<dots> \<le> 1" by (rule order_trans [OF one]) simp
  finally show ?thesis .
qed

lemma spill_ok:
  assumes "hash_order_ok ho" "distinct sp" "frame_ok bytes ops" "bytes + 7 + 8 * length sp \<le> 0xFFFFFF"
    and "jumps_ok ops" "\<forall>o' \<in> set ops. wf_op o'"
    and "finite A" "all_registers ops \<subseteq> A" "{scratch, locals_base, Constant StackPointer} \<subseteq> A"
  shows "\<exists>ops'. spill ho ops sp = Inr ops' \<and> jumps_ok ops' \<and> (\<forall>o' \<in> set ops'. wf_op o')
    \<and> frame_ok (bytes + 7 + 8 * length sp) ops' \<and> all_registers ops' \<subseteq> A
    \<and> length ops' \<le> length ops * (1 + 8 * card A)"
proof -
  obtain cfe cfs sz where fr: "find_frame ops = Inr (Some cfe, cfs)" "cfe < length ops" "is_cfei (ops ! cfe)"
      "frame_at is_cfsi ops cfs" "frame_size (ops ! cfe) = Inr sz" "unat sz \<le> bytes"
    using frame_ok_find [OF assms(3)] by blast
  obtain sz8 where sz8: "round_up_to_word_alignment sz = Inr sz8" "unat sz8 mod 8 = 0" "unat sz8 \<le> unat sz + 7"
    using round_up_ok [of sz] fr(6) assms(4) by auto
  note ho = hash_order_distinct [OF assms(1,2)]
  let ?regs = "reg_order ho sp"
  have bound: "unat sz8 + 8 * length sp \<le> 0xFFFFFF" using sz8(3) fr(6) assms(4) by simp
  then obtain offs where offs: "spill_offsets sz8 ?regs = Inr offs"
      "\<forall>i < length ?regs. \<exists>off. offs (?regs ! i) = Some off \<and> unat off = unat sz8 + 8 * i"
    using spill_offsets_ok [OF ho(1), of sz8] ho(3) by auto
  have "offsets_ok offs sp" unfolding offsets_ok_def
  proof
    fix r assume "r \<in> set sp"
    then obtain i where "i < length ?regs" "r = ?regs ! i" using ho(2) by (metis in_set_conv_nth)
    then obtain off where "offs r = Some off" "unat off = unat sz8 + 8 * i" using offs(2) by blast
    then show "\<exists>off. offs r = Some off \<and> unat off mod 8 = 0 \<and> unat off \<le> 0xFFFFFF"
      using sz8(2) bound ho(3) \<open>i < length ?regs\<close> by auto
  qed
  let ?ss = "of_nat (8 * length sp) :: u32"
  have "unat ?ss = 8 * length sp" using bound by (intro unat_of_nat_u32) simp
  then have new: "add_u32 sz8 ?ss = Inr (sz8 + ?ss)" "unat (sz8 + ?ss) = unat sz8 + 8 * length sp"
    using add_u32_ok [of sz8 ?ss] bound by simp_all
  have small: "\<not> sz8 + ?ss > ucast TWENTY_FOUR_BITS"
    using new(2) bound by (simp add: TWENTY_FOUR_BITS_def word_less_nat_alt)
  obtain blocks where bl: "mapM (spill_one sp offs cfe cfs (sz8 + ?ss) ?ss) (enumerate 0 ops) = Inr blocks"
      "length blocks = length ops"
      "\<forall>i < length ops. spilled_block A (1 + 8 * card A) (sz8 + ?ss) cfe cfs ops i (blocks ! i)"
    using spill_blocks_ok [OF \<open>offsets_ok offs sp\<close> _ assms(7,8) _ _ refl, of "sz8 + ?ss" cfe cfs ?ss] assms(9) new(2) bound
    by (metis insert_subset)
  have res: "spill ho ops sp = Inr (concat blocks)"
    using fr(1,5) sz8(1) offs(1) new(1) small bl(1) by (simp add: spill_def unwrap_or_panic_def Let_def)
  have elem: "\<exists>i < length ops. p \<in> set (blocks ! i)" if "p \<in> set (concat blocks)" for p
    using that bl(2) by (auto simp: in_set_conv_nth) (metis in_set_conv_nth)
  have sub: "p \<in> set ops \<or> label_of p = None \<and> jump_target p = None \<and> \<not> offset_jump p \<and> wf_op p \<and> set (op_registers p) \<subseteq> A"
    if "p \<in> set (concat blocks)" for p
    using elem [OF that] spilled_block_elems [of A _ _ cfe cfs ops] bl(3) assms(9) nth_mem by (metis insert_subset)
  have labels: "p \<in> set (concat blocks)" if pl: "p \<in> set ops" "label_of p = Some l" for p l
  proof -
    obtain i where i: "i < length ops" "p = ops ! i" using pl(1) by (metis in_set_conv_nth)
    have "i \<noteq> cfe" "cfs \<noteq> Some i"
      using pl(2) i fr(3,4) frame_label [of p] by (auto simp: frame_at_def)
    then have "p \<in> set (blocks ! i)" using spilled_block_keeps bl(3) i by blast
    then show ?thesis using i(1) bl(2) by auto
  qed
  have jumps: "jumps_ok (concat blocks)"
    unfolding jumps_ok_elem
  proof (intro ballI conjI allI impI)
    fix p assume p: "p \<in> set (concat blocks)"
    show "\<not> offset_jump p" using sub [OF p] assms(5) unfolding jumps_ok_elem by blast
    fix l assume "jump_target p = Some l"
    then have "\<exists>q \<in> set ops. label_of q = Some l" using sub [OF p] assms(5) unfolding jumps_ok_elem by auto
    then show "\<exists>q \<in> set (concat blocks). label_of q = Some l" using labels by blast
  qed
  have regs: "all_registers (concat blocks) \<subseteq> A"
    using sub assms(8) unfolding all_registers_def by blast
  have len: "length (concat blocks) \<le> length ops * (1 + 8 * card A)"
    unfolding bl(2) [symmetric]
    by (rule length_concat_bound) (use bl(2,3) spilled_block_length in \<open>auto simp: in_set_conv_nth\<close>)
  have one: "length (filter is_cfei ops) \<le> 1" "length (filter is_cfsi ops) \<le> 1"
    using assms(3) by (auto simp: frame_ok_def dest: arg_cong [of _ _ length])
  have frames: "map opcode (filter is_cfei (blocks ! i)) =
      (if i = cfe then [Inl (Memory (memory_op.CFEI (Constant StackPointer) \<lparr>value24 = sz8 + ?ss\<rparr>))] else [])"
    "length (filter is_cfsi (blocks ! i)) \<le> (if cfs = Some i then 1 else 0)" if "i < length blocks" for i
    using spilled_block_frames [OF _ _ fr(2,3) one(1) fr(4) one(2)] bl(2,3) that by metis+
  have "map opcode (filter is_cfei (concat blocks)) =
      [Inl (Memory (memory_op.CFEI (Constant StackPointer) \<lparr>value24 = sz8 + ?ss\<rparr>))]"
    by (rule filter_blocks_single [OF frames(1)]) (use bl(2) fr(2) in simp_all)
  moreover have "length (filter is_cfsi (concat blocks)) \<le> 1"
    by (rule filter_blocks_at_most_one [OF frames(2)])
  ultimately have "frame_ok (bytes + 7 + 8 * length sp) (concat blocks)"
    using new(2) sz8(3) fr(6) by (simp add: frame_ok_def)
  with res jumps regs len show ?thesis using sub assms(6) by blast
qed

end
