(* ===== verification/Asm_Regalloc.thy ===== *)
theory Asm_Regalloc
  imports Asm_Coalesce_Live Asm_Colouring Asm_Spill
begin

text \<open>
  \<^verbatim>\<open>allocate_registers\<close> of \<^verbatim>\<open>register_allocator.rs\<close>: liveness, interference graph,
  coalescing and simplification, repeated after spilling while spills are needed, and then the
  assignment of registers and the rewriting of the instructions.
\<close>

section \<open>The driver\<close>

datatype 'g colouring_result =
    Success (updated_ops: "op list") (coloured_graph: 'g) (colouring_stack: "node list")
  | SpillsNeeded (updated_ops: "op list") (needed_spills: "virtual_register list")

definition try_color :: "'g graph_api \<Rightarrow> hash_order \<Rightarrow> nat \<Rightarrow> op list \<Rightarrow> 'g colouring_result result" where
  "try_color api ho fuel ops =
     bindE (liveness_analysis fuel ops True) (\<lambda>live_out.
     bindE (create_interference_graph api ops live_out) (\<lambda>(graph, reg_to_node_ix).
     bindE (coalesce_registers api fuel ops live_out graph reg_to_node_ix) (\<lambda>(ops', live_out', graph', _).
     bindE (color_interference_graph api ho graph' ops' live_out') (\<lambda>(graph'', res).
     case res of
       Inr stk \<Rightarrow> Inr (Success ops' graph'' stk)
     | Inl spilled \<Rightarrow> Inr (SpillsNeeded ops' spilled)))))"

definition function_comment :: "op list \<Rightarrow> string" where
  "function_comment ops =
     (case find (\<lambda>o'. case opcode o' of Inr (Label _) \<Rightarrow> True | _ \<Rightarrow> False) ops of
        Some o' \<Rightarrow> comment o'
      | None \<Rightarrow> ''unknown'')"

definition cannot_resolve :: "op list \<Rightarrow> compile_error" where
  "cannot_resolve ops =
     Internal (''The allocator cannot resolve a register mapping for function '' @ function_comment ops
       @ ''. Using #[inline(never)] on some functions may help.'')"

function colour_or_spill ::
  "'g graph_api \<Rightarrow> hash_order \<Rightarrow> nat \<Rightarrow> nat \<Rightarrow> op list \<Rightarrow> (op list \<times> 'g \<times> node list) result" where
  "colour_or_spill api ho fuel try_count ops =
     (case try_color api ho fuel ops of
        Inl e \<Rightarrow> Inl e
      | Inr (Success ops' graph stk) \<Rightarrow> Inr (ops', graph, stk)
      | Inr (SpillsNeeded ops' spilled) \<Rightarrow>
          if 4 \<le> try_count then Inl (cannot_resolve ops')
          else (case spill ho ops' spilled of
                  Inl e \<Rightarrow> Inl e
                | Inr ops'' \<Rightarrow> colour_or_spill api ho fuel (try_count + 1) ops''))"
  by pat_completeness auto
termination by (relation "measure (\<lambda>(_, _, _, try_count, _). 4 - try_count)") auto

declare colour_or_spill.simps [simp del]

record allocated_abstract_op =
  alloc_opcode :: "allocated_opcode + allocated_register control_flow_op"
  alloc_comment :: string
  alloc_owning_span :: "span option"

definition allocate_op :: "register_pool \<Rightarrow> op \<Rightarrow> allocated_abstract_op result" where
  "allocate_op pool o' =
     bindE (op_allocate_registers pool o') (\<lambda>oc.
     Inr \<lparr>alloc_opcode = oc, alloc_comment = comment o', alloc_owning_span = owning_span o'\<rparr>)"

definition allocate_registers ::
  "'g graph_api \<Rightarrow> hash_order \<Rightarrow> nat \<Rightarrow> op list \<Rightarrow> allocated_abstract_op list result" where
  "allocate_registers api ho fuel ops =
     bindE (colour_or_spill api ho fuel 0 ops) (\<lambda>(ops', graph, stk).
     bindE (assign_registers api graph stk) (\<lambda>pool.
     mapM (allocate_op pool) ops'))"

section \<open>One attempt\<close>

text \<open>
  A register pool is right for a list of instructions: every virtual register in it has one of
  the allocatable registers, and no instruction writes the register of a virtual register that
  is live after it, unless it writes that virtual register or copies its value.
\<close>

definition pool_respects :: "op list \<Rightarrow> register_pool \<Rightarrow> bool" where
  "pool_respects ops pool \<longleftrightarrow>
     (\<forall>r \<in> all_registers ops. is_virtual r \<longrightarrow>
        (\<exists>a. get_register pool r = Some (Allocated a) \<and> a < NUM_ALLOCATABLE_REGISTERS))
   \<and> (\<forall>i < length ops. \<forall>v b. is_virtual v \<longrightarrow> live_after True ops i b \<longrightarrow> op_interferes (ops ! i) v b
        \<longrightarrow> get_register pool v \<noteq> get_register pool b)"

lemma interference_graph_valid:
  assumes "node_map_ok api g m"
    and "gedges api g = {(x, y). \<exists>v b. m v = Some x \<and> m b = Some y \<and> interferes ops live_out v b}"
  shows "valid_graph api g" "loop_free api g"
    "interferes ops live_out v b \<Longrightarrow> v \<in> dom m \<Longrightarrow> b \<in> dom m \<Longrightarrow> reg_adjacent api g v b"
proof -
  have w: "m r = Some n \<longleftrightarrow> node_weight api g n = Some r" for r n using assms(1) by (simp add: node_map_ok_def)
  have adj: "adjacent api g x y \<longleftrightarrow> (\<exists>v b. m v = Some x \<and> m b = Some y
      \<and> (interferes ops live_out v b \<or> interferes ops live_out b v))" for x y
    unfolding adjacent_def assms(2) by blast
  show "valid_graph api g" unfolding valid_graph_def adj using w by (metis option.distinct(1) option.inject)
  have "\<not> interferes ops live_out v v" for v by (auto simp: interferes_def op_interferes_def)
  then show "loop_free api g" unfolding loop_free_def adj using w by (metis option.inject)
  show "interferes ops live_out v b \<Longrightarrow> v \<in> dom m \<Longrightarrow> b \<in> dom m \<Longrightarrow> reg_adjacent api g v b"
    unfolding reg_adjacent_def adj using w by (metis domD)
qed

lemma coalesced_reduced:
  assumes "coalesced api V g ops live_out h idxs ops' live' g'"
    and "V = {r. is_virtual r \<and> (\<exists>o' \<in> set ops. r \<in> set (op_registers o'))}"
  shows "reduced ops h idxs ops'"
  using assms unfolding coalesced_def reduced_def by blast

text \<open>An instruction interferes after renaming only if it did before.\<close>

lemma op_interferes_rename:
  assumes "op_interferes (rename_op h o') v b" "b = h b0"
  shows "\<exists>v0. v = h v0 \<and> op_interferes o' v0 b0"
proof (cases "\<exists>x y. opcode o' = Inl (Alu (MOVE x y))")
  case True
  then obtain x y where "opcode o' = Inl (Alu (MOVE x y))" by blast
  then have "opcode (rename_op h o') = Inl (Alu (MOVE (h x) (h y)))" by (simp add: rename_op_MOVE)
  with assms \<open>opcode o' = _\<close> show ?thesis by (auto simp: op_interferes_def)
next
  case False
  then have "\<not> (\<exists>x y. opcode (rename_op h o') = Inl (Alu (MOVE x y)))" by (auto simp: rename_op_MOVE)
  with assms(1) have "v \<in> set (op_def_registers (rename_op h o'))" "b \<noteq> v"
    by (auto simp: op_interferes_def split: sum.splits virtual_op.splits alu_op.splits)
  then obtain v0 where "v = h v0" "v0 \<in> set (op_def_registers o')" "b0 \<noteq> v0"
    using assms(2) by (auto simp: rename_op_sets)
  with False show ?thesis
    by (auto simp: op_interferes_def split: sum.splits virtual_op.splits alu_op.splits)
qed

lemma op_interferes_register: "op_interferes o' v b \<Longrightarrow> v \<in> set (op_registers o')"
  unfolding op_registers_use_def op_interferes_def
  by (auto simp: op_def_registers_def vop_def_registers_def split: sum.splits virtual_op.splits alu_op.splits)

lemma live_before_virtual: "live_before True ops i r \<Longrightarrow> is_virtual r"
  by (induction rule: live_before.induct) (auto simp: use_set_def retained_def)

lemma live_after_register:
  assumes "live_after True ops i r"
  shows "is_virtual r" "r \<in> all_registers ops"
  using assms live_before_virtual live_before_registers succ_set_less unfolding live_after_def by blast+

lemma wf_rename_op:
  assumes "wf_op o'" "\<forall>c. h (Constant c) = Constant c"
  shows "wf_op (rename_op h o')"
proof (cases "opcode o'")
  case (Inl v)
  then show ?thesis
  proof (cases v)
    case (Memory m)
    then show ?thesis using Inl assms by (cases m) (simp_all add: wf_op_def wf_vop_def rename_op_def rename_vop_def)
  qed (use Inl in \<open>simp_all add: wf_op_def wf_vop_def rename_op_def rename_vop_def\<close>)
qed (simp add: wf_op_def rename_op_def)

text \<open>The stack of a successful attempt gives a pool that is right for the instructions.\<close>

lemma assign_registers_respects:
  assumes ok: "graph_ok api" and "jumps_ok ops" "length live_out = length ops"
    and live: "\<forall>i < length ops. set (live_out ! i) = {r. live_after True ops i r}"
    and V: "V = {r. is_virtual r \<and> (\<exists>o' \<in> set ops. r \<in> set (op_registers o'))}"
    and adj: "\<And>v b. interferes ops live_out v b \<Longrightarrow> v \<in> V \<Longrightarrow> b \<in> V \<Longrightarrow> reg_adjacent api g v b"
    and co: "coalesced api V g ops live_out h idxs ops' live' g'"
    and stk: "same_shape api g' g''" "distinct stk" "set stk = {n. node_weight api g' n \<noteq> None}"
      "\<not> pool_full_at api g' (rev stk)"
  shows "\<exists>pool. assign_registers api g'' stk = Inr pool \<and> pool_respects ops' pool"
proof -
  note red = coalesced_reduced [OF co V]
  have valid: "valid_graph api g'" and const: "\<And>c. h (Constant c) = Constant c"
    and nodes: "\<And>r. r \<in> V \<Longrightarrow> \<exists>x. node_weight api g' x = Some (h r)" "\<And>x r. node_weight api g' x = Some r \<Longrightarrow> r \<in> V"
    and keep: "\<And>v b. reg_adjacent api g v b \<Longrightarrow> reg_adjacent api g' (h v) (h b)"
    using co unfolding coalesced_def by blast+
  obtain pool where pool: "assign_registers api g'' stk = Inr pool" "coloured api g' pool"
      "\<And>n r. node_weight api g' n = Some r \<Longrightarrow>
         \<exists>a. get_register pool r = Some (Allocated a) \<and> a < NUM_ALLOCATABLE_REGISTERS"
    using assign_registers_colours [OF ok valid stk] nodes(2) V by blast
  have reg: "\<exists>a. get_register pool (h r) = Some (Allocated a) \<and> a < NUM_ALLOCATABLE_REGISTERS" if "r \<in> V" for r
    using nodes(1) [OF that] pool(3) by blast
  have "pool_respects ops' pool" unfolding pool_respects_def
  proof (intro conjI ballI allI impI)
    fix r assume "r \<in> all_registers ops'" and virt: "is_virtual r"
    moreover have "length ops' = length idxs" using red by (simp add: reduced_def)
    ultimately obtain i where i: "i < length idxs" "r \<in> set (op_registers (ops' ! i))"
      unfolding all_registers_def by (metis UN_E in_set_conv_nth)
    then obtain r0 where r0: "r = h r0" "r0 \<in> set (op_registers (ops ! (idxs ! i)))"
      using reducedD(2) [OF red i(1)] by (auto simp: rename_op_sets)
    then have "r0 \<in> V" using V virt const reducedD(1) [OF red i(1)] by (cases r0) auto
    then show "\<exists>a. get_register pool r = Some (Allocated a) \<and> a < NUM_ALLOCATABLE_REGISTERS"
      using reg r0(1) by simp
  next
    fix i v b
    assume i: "i < length ops'" and virt: "is_virtual v" and after: "live_after True ops' i b"
      and inter: "op_interferes (ops' ! i) v b"
    have i: "i < length idxs" using i red by (simp add: reduced_def)
    let ?o = "ops ! (idxs ! i)"
    obtain b0 where b0: "b = h b0" "live_after True ops (idxs ! i) b0"
      using live_after_reduced [OF red assms(2) after i] by blast
    obtain v0 where v0: "v = h v0" "op_interferes ?o v0 b0"
      using op_interferes_rename [of h ?o v b b0] inter reducedD(2) [OF red i] b0(1) by auto
    have o: "idxs ! i < length ops" by (rule reducedD(1) [OF red i])
    have "is_virtual v0" using virt v0(1) const by (cases v0) auto
    then have "v0 \<in> V" using op_interferes_register [OF v0(2)] nth_mem [OF o] V by blast
    moreover have "b0 \<in> V" using live_after_register [OF b0(2)] V by (auto simp: all_registers_def)
    moreover have "interferes ops live_out v0 b0"
      using v0(2) b0(2) o live assms(3) unfolding interferes_def by auto
    ultimately have "reg_adjacent api g' v b" using adj keep b0(1) v0(1) by blast
    moreover have "v \<noteq> b" using inter by (auto simp: op_interferes_def)
    ultimately have "\<forall>a. get_register pool v = Some a \<longrightarrow> get_register pool b \<noteq> Some a"
      using pool(2) unfolding coloured_def reg_adjacent_def by metis
    moreover have "get_register pool v \<noteq> None" using reg [OF \<open>v0 \<in> V\<close>] v0(1) by auto
    ultimately show "get_register pool v \<noteq> get_register pool b" by force
  qed
  with pool(1) show ?thesis by blast
qed

lemma try_color_ok:
  assumes "graph_ok api" "hash_order_ok ho" "jumps_ok ops" "\<forall>o' \<in> set ops. wf_op o'"
    and "length ops < fuel" "2 * length ops * card (all_registers ops) < fuel"
  shows "\<exists>res h idxs. try_color api ho fuel ops = Inr res \<and> reduced ops h idxs (updated_ops res)
    \<and> all_registers (updated_ops res) \<subseteq> all_registers ops
    \<and> (case res of
         Success ops' graph stk \<Rightarrow> \<exists>pool. assign_registers api graph stk = Inr pool \<and> pool_respects ops' pool
       | SpillsNeeded ops' sp \<Rightarrow> sp \<noteq> [] \<and> distinct sp \<and> (\<forall>r \<in> set sp. is_virtual r \<and> r \<in> all_registers ops))"
proof -
  obtain live_out where live: "liveness_analysis fuel ops True = Inr live_out" "length live_out = length ops"
      "\<forall>i < length ops. set (live_out ! i) = {r. live_after True ops i r}"
    using liveness_correct [OF assms(3,6)] by blast
  obtain g m where gm: "create_interference_graph api ops live_out = Inr (g, m)" "node_map_ok api g m"
      and V: "dom m = {r. is_virtual r \<and> (\<exists>o' \<in> set ops. r \<in> set (op_registers o'))}"
      and edges: "gedges api g = {(x, y). \<exists>v b. m v = Some x \<and> m b = Some y \<and> interferes ops live_out v b}"
    using interference_graph_correct [OF assms(1), of live_out ops] live(2) by auto
  note valid = interference_graph_valid [OF gm(2) edges]
  obtain ops' live' g' m' h idxs where co: "coalesce_registers api fuel ops live_out g m = Inr (ops', live', g', m')"
      "coalesced api (dom m) g ops live_out h idxs ops' live' g'"
    using coalesce_registers_ok [OF assms(1) gm(2) valid(1,2) V live(2) [symmetric] assms(5,4)] by blast
  note red = coalesced_reduced [OF co(2) V]
  have "valid_graph api g'" "edges_on api g'" "length live' = length ops'"
    and nodes: "\<And>x r. node_weight api g' x = Some r \<Longrightarrow> r \<in> dom m"
    using co(2) unfolding coalesced_def by auto
  then obtain g'' res where col: "color_interference_graph api ho g' ops' live' = Inr (g'', res)" "same_shape api g' g''"
      "case res of
         Inr stk \<Rightarrow> distinct stk \<and> set stk = {n. node_weight api g' n \<noteq> None} \<and> \<not> pool_full_at api g' (rev stk)
       | Inl sp \<Rightarrow> sp \<noteq> [] \<and> distinct sp \<and> (\<forall>r \<in> set sp. \<exists>n. node_weight api g' n = Some r)"
    using color_interference_graph_ok [OF assms(1) _ _ assms(2)] by blast
  have regs: "all_registers ops' \<subseteq> all_registers ops"
  proof
    fix r assume "r \<in> all_registers ops'"
    then obtain i r0 where i: "i \<in> set idxs" "r = h r0" "r0 \<in> set (op_registers (ops ! i))"
      using co(2) by (auto simp: coalesced_def all_registers_def rename_op_sets)
    have "i < length ops" using i(1) red unfolding reduced_def by blast
    then have r0: "r0 \<in> all_registers ops" using i(3) nth_mem unfolding all_registers_def by blast
    have dom: "\<forall>r \<in> dom m. h r \<in> dom m" "\<forall>c. h (Constant c) = Constant c" using co(2) by (simp_all add: coalesced_def)
    have mem: "r \<in> dom m \<longleftrightarrow> is_virtual r \<and> r \<in> all_registers ops" for r
      unfolding V all_registers_def by blast
    show "r \<in> all_registers ops"
    proof (cases r0)
      case (Virtual n)
      then show ?thesis using dom(1) mem r0 i(2) by (metis is_virtual.simps(1))
    qed (use dom(2) r0 i(2) in simp)
  qed
  have attempt: "try_color api ho fuel ops = Inr (case res of Inr stk \<Rightarrow> Success ops' g'' stk | Inl sp \<Rightarrow> SpillsNeeded ops' sp)"
    by (simp add: try_color_def live(1) gm(1) co(1) col(1) split: sum.splits)
  show ?thesis
  proof (cases res)
    case (Inl sp)
    then have "\<forall>r \<in> set sp. \<exists>n. node_weight api g' n = Some r" using col(3) by simp
    then have "\<forall>r \<in> set sp. r \<in> dom m" using nodes by blast
    then have "\<forall>r \<in> set sp. is_virtual r \<and> r \<in> all_registers ops" unfolding V all_registers_def by blast
    with Inl attempt col(3) red regs show ?thesis by auto
  next
    case (Inr stk)
    then have "distinct stk" "set stk = {n. node_weight api g' n \<noteq> None}" "\<not> pool_full_at api g' (rev stk)"
      using col(3) by simp_all
    then have "\<exists>pool. assign_registers api g'' stk = Inr pool \<and> pool_respects ops' pool"
      by (intro assign_registers_respects [OF assms(1,3) live(2,3) V _ co(2) col(2)]) (rule valid(3))
    with Inr attempt red regs show ?thesis by auto
  qed
qed

section \<open>Coalescing keeps the frame\<close>

lemma filter_kept:
  assumes "sorted_wrt (<) idxs" "set idxs \<subseteq> {..<length xs}" "\<forall>i < length xs. i \<notin> set idxs \<longrightarrow> \<not> P (xs ! i)"
  shows "map ((!) xs) (filter (\<lambda>i. P (xs ! i)) idxs) = filter P xs"
proof -
  have "filter (\<lambda>i. P (xs ! i)) idxs = filter (\<lambda>i. P (xs ! i)) [0..<length xs]"
    using assms by (intro sorted_distinct_set_unique) (auto simp: strict_sorted_iff sorted_wrt_filter)
  moreover have "filter P xs = filter P (map ((!) xs) [0..<length xs])" by (simp add: map_nth)
  ultimately show ?thesis by (simp add: filter_map comp_def)
qed

lemma rename_op_frame [simp]:
  "is_cfei (rename_op h o') = is_cfei o'" "is_cfsi (rename_op h o') = is_cfsi o'"
  by (auto simp: is_cfei_def is_cfsi_def rename_op_def rename_vop_def
      split: sum.splits virtual_op.splits memory_op.splits)

lemma dropped_move_frame: "dropped_move h o' \<Longrightarrow> \<not> is_cfei o' \<and> \<not> is_cfsi o'"
  by (auto simp: dropped_move_def is_cfei_def is_cfsi_def)

lemma filter_reduced:
  assumes "reduced ops h idxs ops'" "\<And>o'. P (rename_op h o') = P o'" "\<And>o'. dropped_move h o' \<Longrightarrow> \<not> P o'"
  shows "filter P ops' = map (rename_op h) (filter P ops)"
proof -
  have "map ((!) ops) (filter (\<lambda>i. P (ops ! i)) idxs) = filter P ops"
    using assms(1,3) by (intro filter_kept) (auto simp: reduced_def)
  moreover have "filter P ops' = map (rename_op h) (map ((!) ops) (filter (\<lambda>i. P (ops ! i)) idxs))"
    using assms(1,2) by (simp add: reduced_def filter_map comp_def)
  ultimately show ?thesis by simp
qed

lemma frame_ok_reduced:
  assumes "reduced ops h idxs ops'" "frame_ok bytes ops"
  shows "frame_ok bytes ops'"
proof -
  obtain imm where imm: "map opcode (filter is_cfei ops) = [Inl (Memory (memory_op.CFEI (Constant StackPointer) imm))]"
      "unat (value24 imm) \<le> bytes" and "length (filter is_cfsi ops) \<le> 1"
    using assms(2) by (auto simp: frame_ok_def)
  moreover have "h (Constant StackPointer) = Constant StackPointer" using assms(1) by (simp add: reduced_def)
  moreover have "filter is_cfei ops' = map (rename_op h) (filter is_cfei ops)"
    by (rule filter_reduced [OF assms(1), of is_cfei]) (simp_all add: dropped_move_frame)
  moreover have "filter is_cfsi ops' = map (rename_op h) (filter is_cfsi ops)"
    by (rule filter_reduced [OF assms(1), of is_cfsi]) (simp_all add: dropped_move_frame)
  ultimately show ?thesis by (auto simp: frame_ok_def rename_op_def rename_vop_def map_eq_Cons_conv)
qed

lemma wf_reduced:
  assumes "reduced ops h idxs ops'" "\<forall>o' \<in> set ops. wf_op o'"
  shows "\<forall>o' \<in> set ops'. wf_op o'"
  using assms wf_rename_op unfolding reduced_def by (auto simp: subset_iff)

lemma length_reduced: "reduced ops h idxs ops' \<Longrightarrow> length ops' \<le> length ops"
  using card_mono [of "{..<length ops}" "set idxs"]
  by (auto simp: reduced_def strict_sorted_iff distinct_card)

section \<open>All attempts\<close>

text \<open>
  The instructions that are allocated come from those given by coalescing and spilling only.
\<close>

inductive rewritten :: "hash_order \<Rightarrow> op list \<Rightarrow> op list \<Rightarrow> bool" for ho where
  coalesced_ops: "reduced ops h idxs ops' \<Longrightarrow> rewritten ho ops ops'"
| spilled_ops: "reduced ops h idxs ops1 \<Longrightarrow> spill ho ops1 sp = Inr ops2 \<Longrightarrow> rewritten ho ops2 ops' \<Longrightarrow>
    rewritten ho ops ops'"

definition alloc_fuel :: "nat \<Rightarrow> nat \<Rightarrow> nat \<Rightarrow> nat" where
  "alloc_fuel rounds len regs = len * (1 + 8 * regs) ^ rounds * (2 * regs + 1)"

lemma alloc_fuel_mono: "len \<le> len' \<Longrightarrow> alloc_fuel k len regs \<le> alloc_fuel k len' regs"
  unfolding alloc_fuel_def by (intro mult_le_mono1)

lemma alloc_fuel_ge:
  assumes "n \<le> regs"
  shows "len \<le> alloc_fuel k len regs" "2 * len * n \<le> alloc_fuel k len regs"
proof -
  have one: "1 \<le> (1 + 8 * regs) ^ k" by simp
  then have "len * 1 * (2 * regs + 1) \<le> alloc_fuel k len regs"
    unfolding alloc_fuel_def by (intro mult_le_mono) simp_all
  moreover have "len \<le> len * (2 * regs + 1)" "2 * len * n \<le> len * (2 * regs + 1)"
    using mult_le_mono2 [of "2 * n" "2 * regs + 1" len] assms by (simp_all add: mult.left_commute)
  ultimately show "len \<le> alloc_fuel k len regs" "2 * len * n \<le> alloc_fuel k len regs" by simp_all
qed

lemma alloc_fuel_Suc: "alloc_fuel k (len * (1 + 8 * regs)) regs = alloc_fuel (Suc k) len regs"
  unfolding alloc_fuel_def power_Suc by (simp only: mult.assoc)

text \<open>What the allocator needs of the instructions it is given.\<close>

definition allocatable :: "virtual_register set \<Rightarrow> nat \<Rightarrow> nat \<Rightarrow> nat \<Rightarrow> op list \<Rightarrow> bool" where
  "allocatable A fuel rounds bytes ops \<longleftrightarrow>
     jumps_ok ops \<and> (\<forall>o' \<in> set ops. wf_op o') \<and> all_registers ops \<subseteq> A \<and> frame_ok bytes ops
   \<and> bytes + rounds * (7 + 8 * card A) \<le> 0xFFFFFF \<and> alloc_fuel rounds (length ops) (card A) < fuel"

lemma colour_or_spill_ok:
  assumes "graph_ok api" "hash_order_ok ho" "finite A" "{scratch, locals_base, Constant StackPointer} \<subseteq> A"
    and "try_count + rounds = 4" "allocatable A fuel rounds bytes ops"
  shows "(\<exists>ops' graph stk pool. colour_or_spill api ho fuel try_count ops = Inr (ops', graph, stk)
        \<and> assign_registers api graph stk = Inr pool \<and> pool_respects ops' pool \<and> rewritten ho ops ops'
        \<and> (\<forall>o' \<in> set ops'. wf_op o'))
     \<or> (\<exists>ops'. colour_or_spill api ho fuel try_count ops = Inl (cannot_resolve ops'))"
  using assms(5,6)
proof (induction rounds arbitrary: try_count bytes ops)
  case 0
  then have alloc: "jumps_ok ops" "\<forall>o' \<in> set ops. wf_op o'" "all_registers ops \<subseteq> A"
    and "alloc_fuel 0 (length ops) (card A) < fuel" by (simp_all add: allocatable_def)
  moreover have "card (all_registers ops) \<le> card A" by (rule card_mono [OF assms(3) alloc(3)])
  ultimately have "length ops < fuel" "2 * length ops * card (all_registers ops) < fuel"
    using alloc_fuel_ge le_less_trans by blast+
  from try_color_ok [OF assms(1,2) alloc(1,2) this] obtain res h idxs where
    res: "try_color api ho fuel ops = Inr res" "reduced ops h idxs (updated_ops res)"
      "case res of
         Success ops' graph stk \<Rightarrow> \<exists>pool. assign_registers api graph stk = Inr pool \<and> pool_respects ops' pool
       | SpillsNeeded ops' sp \<Rightarrow> sp \<noteq> [] \<and> distinct sp \<and> (\<forall>r \<in> set sp. is_virtual r \<and> r \<in> all_registers ops)"
    by blast
  then show ?case using 0(1) wf_reduced [OF res(2) alloc(2)]
    by (cases res) (auto simp: colour_or_spill.simps [of api] intro: coalesced_ops)
next
  case (Suc rounds)
  then have alloc: "jumps_ok ops" "\<forall>o' \<in> set ops. wf_op o'" "all_registers ops \<subseteq> A" "frame_ok bytes ops"
      "bytes + Suc rounds * (7 + 8 * card A) \<le> 0xFFFFFF"
    and fuel: "alloc_fuel (Suc rounds) (length ops) (card A) < fuel" by (simp_all add: allocatable_def)
  have "card (all_registers ops) \<le> card A" by (rule card_mono [OF assms(3) alloc(3)])
  with fuel have "length ops < fuel" "2 * length ops * card (all_registers ops) < fuel"
    using alloc_fuel_ge le_less_trans by blast+
  from try_color_ok [OF assms(1,2) alloc(1,2) this] obtain res h idxs where
    res: "try_color api ho fuel ops = Inr res" "reduced ops h idxs (updated_ops res)"
      "all_registers (updated_ops res) \<subseteq> all_registers ops"
      "case res of
         Success ops' graph stk \<Rightarrow> \<exists>pool. assign_registers api graph stk = Inr pool \<and> pool_respects ops' pool
       | SpillsNeeded ops' sp \<Rightarrow> sp \<noteq> [] \<and> distinct sp \<and> (\<forall>r \<in> set sp. is_virtual r \<and> r \<in> all_registers ops)"
    by blast
  show ?case
  proof (cases res)
    case (Success ops' graph stk)
    then show ?thesis using res wf_reduced [OF res(2) alloc(2)]
      by (auto simp: colour_or_spill.simps [of api] intro: coalesced_ops)
  next
    case (SpillsNeeded ops' sp)
    then have red: "reduced ops h idxs ops'" and regs: "all_registers ops' \<subseteq> A"
      and sp: "distinct sp" "set sp \<subseteq> A" using res alloc(3) by auto
    have "length sp \<le> card A" using sp assms(3) by (metis card_mono distinct_card)
    then have small: "bytes + 7 + 8 * length sp + rounds * (7 + 8 * card A) \<le> 0xFFFFFF" using alloc(5) by simp
    then have "bytes + 7 + 8 * length sp \<le> 0xFFFFFF" by simp
    from spill_ok [OF assms(2) sp(1) frame_ok_reduced [OF red alloc(4)] this
        reduced_jumps_ok [OF red alloc(1)] wf_reduced [OF red alloc(2)] assms(3) regs assms(4)]
    obtain ops'' where spill: "spill ho ops' sp = Inr ops''" "jumps_ok ops''" "\<forall>o' \<in> set ops''. wf_op o'"
        "frame_ok (bytes + 7 + 8 * length sp) ops''" "all_registers ops'' \<subseteq> A"
        "length ops'' \<le> length ops' * (1 + 8 * card A)"
      by blast
    have "length ops'' \<le> length ops * (1 + 8 * card A)"
      using spill(6) length_reduced [OF red] by (meson le_trans mult_le_mono1)
    then have "alloc_fuel rounds (length ops'') (card A) < fuel"
      using fuel alloc_fuel_mono alloc_fuel_Suc le_less_trans by metis
    then have "allocatable A fuel rounds (bytes + 7 + 8 * length sp) ops''"
      using spill small by (simp add: allocatable_def)
    moreover have "colour_or_spill api ho fuel try_count ops = colour_or_spill api ho fuel (Suc try_count) ops''"
      using res(1) SpillsNeeded spill(1) Suc.prems(1) by (simp add: colour_or_spill.simps [of api _ _ try_count])
    moreover have "Suc try_count + rounds = 4" using Suc.prems(1) by simp
    ultimately show ?thesis
      using Suc.IH [of "Suc try_count" "bytes + 7 + 8 * length sp" ops''] spilled_ops [OF red spill(1)] by metis
  qed
qed

end
