(* ===== verification/Asm_Properties.thy ===== *)
theory Asm_Properties
  imports Asm_Regalloc
begin

text \<open>
  The properties of the register allocator, each with an instance: the interface the allocator
  has to the graph library and to the hash containers is a locale, whose client lemmas are the
  facts on the allocator's phases and on the whole.
\<close>

section \<open>The allocator over its libraries\<close>

locale allocator =
  fixes api :: "'g graph_api" and ho :: hash_order
  assumes library: "graph_ok api" and order: "hash_order_ok ho"
begin

lemmas attempt = try_color_ok [OF library order]

lemmas attempts = colour_or_spill_ok [OF library order]

lemma allocation:
  assumes "finite A" "{scratch, locals_base, Constant StackPointer} \<subseteq> A" "allocatable A fuel 4 bytes ops"
  shows "(\<exists>alloc ops' pool. allocate_registers api ho fuel ops = Inr alloc \<and> rewritten ho ops ops'
            \<and> pool_respects ops' pool \<and> mapM (allocate_op pool) ops' = Inr alloc)
       \<or> (\<exists>ops'. allocate_registers api ho fuel ops = Inl (cannot_resolve ops'))"
proof -
  consider (ok) ops' graph stk pool where "colour_or_spill api ho fuel 0 ops = Inr (ops', graph, stk)"
      "assign_registers api graph stk = Inr pool" "pool_respects ops' pool" "rewritten ho ops ops'"
    | (err) ops' where "colour_or_spill api ho fuel 0 ops = Inl (cannot_resolve ops')"
    using attempts [OF assms(1,2) _ assms(3), of 0] by auto
  then show ?thesis
  proof cases
    case ok
    have "\<exists>a. allocate_op pool o' = Inr a" if "o' \<in> set ops'" for o'
    proof -
      have "get_register pool r \<noteq> None" if "r \<in> set (op_registers o')" "is_virtual r" for r
        using ok(3) that \<open>o' \<in> set ops'\<close> unfolding pool_respects_def all_registers_def
        by (metis UN_I option.distinct(1))
      then have "has_registers pool (op_registers o')"
        by (auto simp: has_registers_def lookup_register_def split: virtual_register.splits)
      then show ?thesis using op_allocate_registers_ok [of pool o'] by (auto simp: allocate_op_def)
    qed
    then have "\<exists>alloc. mapM (allocate_op pool) ops' = Inr alloc" by (rule mapM_Inr_exI)
    with ok show ?thesis by (auto simp: allocate_registers_def)
  qed (auto simp: allocate_registers_def)
qed

end

definition insertion_order :: hash_order where
  "insertion_order = \<lparr>node_order = (\<lambda>xs. xs), reg_order = (\<lambda>xs. xs)\<rparr>"

lemma insertion_order_ok: "hash_order_ok insertion_order"
  by (simp add: hash_order_ok_def insertion_order_def)

interpretation list_allocator: allocator list_graph insertion_order
  by unfold_locales (rule list_graph_ok, rule insertion_order_ok)

section \<open>The whole allocator\<close>

text \<open>
  (C3) The allocator returns and is right. For instructions whose jumps are resolved, with one
  stack extension and a frame that leaves room for the spills, no index, lookup or assertion of
  it panics and no immediate overflows: either it returns the allocated instructions or it
  reports that four rounds of spilling were not enough. What it returns are the instructions
  given, rewritten by coalescing and spilling only, with every virtual register replaced by one
  of the allocatable registers such that no instruction writes the register of a value that is
  live after it, unless it writes that very value or copies it.
\<close>

theorem allocate_registers_correct:
  assumes "graph_ok api" "hash_order_ok ho"
    and "allocatable (all_registers ops \<union> {scratch, locals_base, Constant StackPointer}) fuel 4 bytes ops"
  shows "(\<exists>alloc ops' pool. allocate_registers api ho fuel ops = Inr alloc \<and> rewritten ho ops ops'
            \<and> pool_respects ops' pool \<and> mapM (allocate_op pool) ops' = Inr alloc)
       \<or> (\<exists>ops'. allocate_registers api ho fuel ops = Inl (cannot_resolve ops'))"
  by (rule allocator.allocation [OF allocator.intro [OF assms(1,2)] _ _ assms(3)])
    (auto simp: all_registers_def)

definition frame_sample :: "op list" where
  "frame_sample =
     [plain_op (Inl (Memory (memory_op.CFEI (Constant StackPointer) \<lparr>value24 = 16\<rparr>))),
      plain_op (Inl (Alu (MOVI (Virtual ''1'') \<lparr>value18 = 5\<rparr>))),
      plain_op (Inl (Alu (MOVE (Virtual ''2'') (Virtual ''1'')))),
      plain_op (Inl (Alu (ADD (Virtual ''3'') (Virtual ''2'') (Virtual ''1'')))),
      plain_op (Inl (ControlFlow (control_op.RET (Virtual ''3''))))]"

lemma frame_sample_registers:
  "all_registers frame_sample \<union> {scratch, locals_base, Constant StackPointer} =
     {Virtual ''1'', Virtual ''2'', Virtual ''3'', scratch, locals_base, Constant StackPointer}"
  by code_simp

lemma frame_sample_allocatable:
  "allocatable (all_registers frame_sample \<union> {scratch, locals_base, Constant StackPointer}) 400000000 4 16 frame_sample"
proof -
  have "jumps_ok frame_sample" "\<forall>o' \<in> set frame_sample. wf_op o'" by code_simp+
  moreover have "frame_ok 16 frame_sample" by (simp add: frame_ok_def frame_sample_def plain_op_def is_cfei_def is_cfsi_def)
  moreover have "card {Virtual ''1'', Virtual ''2'', Virtual ''3'', scratch, locals_base, Constant StackPointer} = 6" by code_simp
  ultimately show ?thesis
    unfolding allocatable_def using frame_sample_registers by (auto simp: alloc_fuel_def frame_sample_def)
qed

theorem allocate_registers_correct_witness:
  "(\<exists>alloc ops' pool. allocate_registers list_graph insertion_order 400000000 frame_sample = Inr alloc
      \<and> rewritten insertion_order frame_sample ops' \<and> pool_respects ops' pool
      \<and> mapM (allocate_op pool) ops' = Inr alloc)
   \<or> (\<exists>ops'. allocate_registers list_graph insertion_order 400000000 frame_sample = Inl (cannot_resolve ops'))"
  by (rule allocate_registers_correct [OF list_graph_ok insertion_order_ok frame_sample_allocatable])

text \<open>On the sample the copy is coalesced away and one register is enough.\<close>

lemma frame_sample_allocated:
  "(case allocate_registers list_graph insertion_order 20 frame_sample of Inr a \<Rightarrow> map alloc_opcode a | Inl _ \<Rightarrow> []) =
     [Inl (AMemory (CFEI \<lparr>value24 = 16\<rparr>)), Inl (AAlu (MOVI (Allocated 0) \<lparr>value18 = 5\<rparr>)),
      Inl (AAlu (ADD (Allocated 0) (Allocated 0) (Allocated 0))), Inl (AControlFlow (RET (Allocated 0)))]"
  by code_simp

section \<open>The phases\<close>

text \<open>
  (C18) The interference graph is exact: it has one node for each virtual register of the
  instructions, named by it, and an edge from the node of one register to the node of another
  exactly when some instruction writes the first while the second is live after it, except that
  a copy does not make its target interfere with its source.
\<close>

theorem interference_graph_exact:
  assumes "graph_ok api" "length live_out \<le> length ops"
  shows "\<exists>g m. create_interference_graph api ops live_out = Inr (g, m)
     \<and> (\<forall>r n. m r = Some n \<longleftrightarrow> node_weight api g n = Some r)
     \<and> dom m = {r. is_virtual r \<and> (\<exists>o' \<in> set ops. r \<in> set (op_registers o'))}
     \<and> gedges api g = {(x, y). \<exists>v b. m v = Some x \<and> m b = Some y \<and> interferes ops live_out v b}"
  using interference_graph_correct [OF assms] unfolding node_map_ok_def by blast

theorem interference_graph_exact_witness:
  "\<exists>g m. create_interference_graph list_graph countdown [[], [Virtual ''1'', Virtual ''2'']] = Inr (g, m)
     \<and> (\<forall>r n. m r = Some n \<longleftrightarrow> node_weight list_graph g n = Some r)
     \<and> dom m = {r. is_virtual r \<and> (\<exists>o' \<in> set countdown. r \<in> set (op_registers o'))}
     \<and> gedges list_graph g = {(x, y). \<exists>v b. m v = Some x \<and> m b = Some y
          \<and> interferes countdown [[], [Virtual ''1'', Virtual ''2'']] v b}"
  by (rule interference_graph_exact [OF list_graph_ok]) code_simp

text \<open>What a phase may rely on of the graph it is given.\<close>

definition graph_for :: "'g graph_api \<Rightarrow> op list \<Rightarrow> 'g \<Rightarrow> (virtual_register \<rightharpoonup> node) \<Rightarrow> bool" where
  "graph_for api ops g m \<longleftrightarrow> node_map_ok api g m \<and> valid_graph api g \<and> loop_free api g
     \<and> dom m = {r. is_virtual r \<and> (\<exists>o' \<in> set ops. r \<in> set (op_registers o'))}"

text \<open>
  (C17) Coalescing is safe: it renames registers and drops only copies of a register to itself
  after renaming, never merges two registers whose nodes are adjacent, keeps every interference
  between the merged registers, and the live sets it keeps for the remaining instructions hold
  every register that is live after them.
\<close>

theorem coalescing_safe:
  assumes "graph_ok api" "graph_for api ops g m" "length live_out = length ops" "length ops < fuel"
    and "\<forall>o' \<in> set ops. wf_op o'" "jumps_ok ops"
    and "\<forall>i < length ops. {r. live_after True ops i r} \<subseteq> set (live_out ! i)"
  shows "\<exists>ops' live' g' m' h idxs. coalesce_registers api fuel ops live_out g m = Inr (ops', live', g', m')
     \<and> reduced ops h idxs ops' \<and> length live' = length ops'
     \<and> (\<forall>v b. reg_adjacent api g v b \<longrightarrow> h v \<noteq> h b \<and> reg_adjacent api g' (h v) (h b))
     \<and> (\<forall>j < length ops'. {r. live_after True ops' j r} \<subseteq> set (live' ! j))"
proof -
  have V: "dom m = {r. is_virtual r \<and> (\<exists>o' \<in> set ops. r \<in> set (op_registers o'))}"
    and ok: "node_map_ok api g m" "valid_graph api g" "loop_free api g"
    using assms(2) by (simp_all add: graph_for_def)
  obtain ops' live' g' m' h idxs where co: "coalesce_registers api fuel ops live_out g m = Inr (ops', live', g', m')"
      "coalesced api (dom m) g ops live_out h idxs ops' live' g'"
    using coalesce_registers_ok [OF assms(1) ok V assms(3) [symmetric] assms(4,5)] by blast
  note red = coalesced_reduced [OF co(2) V]
  have len: "length ops' = length idxs" and live: "length live' = length idxs"
      "\<forall>j < length idxs. set (live' ! j) = h ` set (live_out ! (idxs ! j))"
    and g': "valid_graph api g'" "loop_free api g'"
    and keep: "\<forall>v b. reg_adjacent api g v b \<longrightarrow> reg_adjacent api g' (h v) (h b)"
    using co(2) by (simp_all add: coalesced_def)
  have "h v \<noteq> h b" if "reg_adjacent api g v b" for v b
    using keep that g' unfolding reg_adjacent_def valid_graph_def loop_free_def by metis
  moreover have "{r. live_after True ops' j r} \<subseteq> set (live' ! j)" if j: "j < length ops'" for j
  proof
    fix r assume "r \<in> {r. live_after True ops' j r}"
    then obtain r0 where "h r0 = r" "live_after True ops (idxs ! j) r0"
      using live_after_reduced [OF red assms(6)] j len by auto
    moreover have "idxs ! j < length ops" using reducedD(1) [OF red] j len by simp
    ultimately have "r \<in> h ` set (live_out ! (idxs ! j))" using assms(7) by blast
    then show "r \<in> set (live' ! j)" using live(2) j len by simp
  qed
  ultimately have "coalesce_registers api fuel ops live_out g m = Inr (ops', live', g', m')
     \<and> reduced ops h idxs ops' \<and> length live' = length ops'
     \<and> (\<forall>v b. reg_adjacent api g v b \<longrightarrow> h v \<noteq> h b \<and> reg_adjacent api g' (h v) (h b))
     \<and> (\<forall>j < length ops'. {r. live_after True ops' j r} \<subseteq> set (live' ! j))"
    using co(1) red len live(1) keep by simp
  then show ?thesis by (intro exI)
qed

text \<open>
  (C16) Colouring decides: on a graph with distinct names the simplification always ends, and it
  either gives registers to spill or a stack that holds each node once and from which the
  assignment gives every virtual register one of the allocatable registers, different for
  adjacent nodes, without ever running out of registers.
\<close>

theorem colouring_assigns:
  assumes "graph_ok api" "hash_order_ok ho" "valid_graph api g" "edges_on api g" "length live_out = length ops"
    and "\<forall>n r. node_weight api g n = Some r \<longrightarrow> is_virtual r"
  shows "\<exists>g' res. color_interference_graph api ho g ops live_out = Inr (g', res) \<and>
    (case res of
       Inl sp \<Rightarrow> sp \<noteq> [] \<and> distinct sp \<and> (\<forall>r \<in> set sp. \<exists>n. node_weight api g n = Some r)
     | Inr stk \<Rightarrow> distinct stk \<and> set stk = {n. node_weight api g n \<noteq> None} \<and>
        (\<exists>pool. assign_registers api g' stk = Inr pool \<and> coloured api g pool
           \<and> (\<forall>n r. node_weight api g n = Some r \<longrightarrow>
                (\<exists>a. get_register pool r = Some (Allocated a) \<and> a < NUM_ALLOCATABLE_REGISTERS))))"
proof -
  obtain g' res where col: "color_interference_graph api ho g ops live_out = Inr (g', res)" "same_shape api g g'"
      "case res of
         Inr stk \<Rightarrow> distinct stk \<and> set stk = {n. node_weight api g n \<noteq> None} \<and> \<not> pool_full_at api g (rev stk)
       | Inl sp \<Rightarrow> sp \<noteq> [] \<and> distinct sp \<and> (\<forall>r \<in> set sp. \<exists>n. node_weight api g n = Some r)"
    using color_interference_graph_ok [OF assms(1,3,4,2,5)] by blast
  show ?thesis
  proof (cases res)
    case (Inr stk)
    then have stk: "distinct stk" "set stk = {n. node_weight api g n \<noteq> None}" "\<not> pool_full_at api g (rev stk)"
      using col(3) by simp_all
    then show ?thesis
      using assign_registers_colours [OF assms(1,3) col(2) stk] assms(6) col(1) Inr by auto
  qed (use col in auto)
qed

text \<open>Two registers that interfere, and the graph with their two nodes.\<close>

definition pair_ops :: "op list" where
  "pair_ops = [plain_op (Inl (Alu (MOVI (Virtual ''1'') \<lparr>value18 = 5\<rparr>)))
     , plain_op (Inl (Alu (MOVE (Virtual ''2'') (Virtual ''1''))))
     , plain_op (Inl (ControlFlow (control_op.RET (Virtual ''2''))))]"

definition pair_graph :: list_graph where
  "pair_graph = ([(1, Virtual ''1''), (2, Virtual ''2'')], [(1, ((1, 2), True))])"

lemma pair_graph_edges: "edge_endpoints list_graph pair_graph e = (if e = 1 then Some (1, 2) else None)"
  "edge_weight list_graph pair_graph e = (if e = 1 then Some True else None)"
  "node_weight list_graph pair_graph n = (if n = 1 then Some (Virtual ''1'') else if n = 2 then Some (Virtual ''2'') else None)"
  by (auto simp: list_graph_def pair_graph_def lg_edge_def)

lemma pair_graph_ok: "valid_graph list_graph pair_graph" "edges_on list_graph pair_graph" "loop_free list_graph pair_graph"
  by (auto simp: valid_graph_def edges_on_def loop_free_def adjacent_def gedges_def pair_graph_edges split: if_splits)

lemma pair_graph_for: "graph_for list_graph pair_ops pair_graph [Virtual ''1'' \<mapsto> 1, Virtual ''2'' \<mapsto> 2]"
proof -
  have "set (concat (map op_registers pair_ops)) = {Virtual ''1'', Virtual ''2''}" by code_simp
  then have "\<exists>o' \<in> set pair_ops. r \<in> set (op_registers o')" if "r = Virtual ''1'' \<or> r = Virtual ''2''" for r
    using that by auto
  moreover have "r = Virtual ''1'' \<or> r = Virtual ''2''" if "o' \<in> set pair_ops" "r \<in> set (op_registers o')" for o' r
    using that \<open>set (concat (map op_registers pair_ops)) = _\<close> by auto
  ultimately show ?thesis
    using pair_graph_ok by (auto simp: graph_for_def node_map_ok_def pair_graph_edges split: if_splits)
qed

lemma pair_live: "\<exists>live_out. liveness_analysis 50 pair_ops True = Inr live_out \<and> length live_out = length pair_ops
    \<and> (\<forall>i < length pair_ops. set (live_out ! i) = {r. live_after True pair_ops i r})"
  by (rule liveness_correct) code_simp+

theorem coalescing_safe_witness:
  "\<exists>live_out. liveness_analysis 50 pair_ops True = Inr live_out \<and> (\<exists>ops' live' g' m' h idxs.
       coalesce_registers list_graph 50 pair_ops live_out pair_graph [Virtual ''1'' \<mapsto> 1, Virtual ''2'' \<mapsto> 2]
         = Inr (ops', live', g', m')
     \<and> reduced pair_ops h idxs ops' \<and> length live' = length ops'
     \<and> (\<forall>v b. reg_adjacent list_graph pair_graph v b \<longrightarrow> h v \<noteq> h b \<and> reg_adjacent list_graph g' (h v) (h b))
     \<and> (\<forall>j < length ops'. {r. live_after True ops' j r} \<subseteq> set (live' ! j)))"
proof -
  obtain live_out where live: "liveness_analysis 50 pair_ops True = Inr live_out" "length live_out = length pair_ops"
    "\<forall>i < length pair_ops. set (live_out ! i) = {r. live_after True pair_ops i r}" using pair_live by blast
  have "length pair_ops < 50" "\<forall>o' \<in> set pair_ops. wf_op o'" "jumps_ok pair_ops" by code_simp+
  moreover have "\<forall>i < length pair_ops. {r. live_after True pair_ops i r} \<subseteq> set (live_out ! i)"
    using live(3) by simp
  ultimately show ?thesis
    using live(1) by (intro exI [of _ live_out] conjI coalescing_safe [OF list_graph_ok pair_graph_for live(2)])
qed

theorem colouring_assigns_witness:
  "\<exists>g' res. color_interference_graph list_graph insertion_order pair_graph pair_ops [[], [], []] = Inr (g', res) \<and>
    (case res of
       Inl sp \<Rightarrow> sp \<noteq> [] \<and> distinct sp \<and> (\<forall>r \<in> set sp. \<exists>n. node_weight list_graph pair_graph n = Some r)
     | Inr stk \<Rightarrow> distinct stk \<and> set stk = {n. node_weight list_graph pair_graph n \<noteq> None} \<and>
        (\<exists>pool. assign_registers list_graph g' stk = Inr pool \<and> coloured list_graph pair_graph pool
           \<and> (\<forall>n r. node_weight list_graph pair_graph n = Some r \<longrightarrow>
                (\<exists>a. get_register pool r = Some (Allocated a) \<and> a < NUM_ALLOCATABLE_REGISTERS))))"
  by (rule colouring_assigns [OF list_graph_ok insertion_order_ok pair_graph_ok(1,2)])
    (code_simp, auto simp: pair_graph_edges split: if_splits)

section \<open>Spilling\<close>

text \<open>
  (C21) Slots are disjoint words behind the locals: each spilled register has a slot of eight
  bytes that starts at or after the end of the locals and ends within the extended frame, slots
  of different registers do not overlap, and they are aligned when the locals end aligned.
\<close>

theorem spill_slots_disjoint:
  assumes "distinct regs" "unat locals_size + 8 * length regs \<le> 0xFFFFFF"
  shows "\<exists>offs. spill_offsets locals_size regs = Inr offs \<and> dom offs = set regs
    \<and> (\<forall>r off. offs r = Some off \<longrightarrow> unat locals_size \<le> unat off
         \<and> unat off + 8 \<le> unat locals_size + 8 * length regs \<and> unat off mod 8 = unat locals_size mod 8)
    \<and> (\<forall>r s off1 off2. offs r = Some off1 \<longrightarrow> offs s = Some off2 \<longrightarrow> r \<noteq> s \<longrightarrow>
         unat off1 + 8 \<le> unat off2 \<or> unat off2 + 8 \<le> unat off1)"
proof -
  obtain offs where offs: "spill_offsets locals_size regs = Inr offs" "dom offs = set regs"
      "\<forall>i < length regs. \<exists>off. offs (regs ! i) = Some off \<and> unat off = unat locals_size + 8 * i"
    using spill_offsets_ok [OF assms] by blast
  have slot: "\<exists>i < length regs. regs ! i = r \<and> unat off = unat locals_size + 8 * i" if r: "offs r = Some off" for r off
  proof -
    have "r \<in> set regs" using offs(2) r by auto
    then obtain i where "i < length regs" "regs ! i = r" by (auto simp: in_set_conv_nth)
    then show ?thesis using offs(3) r by auto
  qed
  have "unat off1 + 8 \<le> unat off2 \<or> unat off2 + 8 \<le> unat off1"
    if rs: "offs r = Some off1" "offs s = Some off2" "r \<noteq> s" for r s off1 off2
  proof -
    obtain i j where "unat off1 = unat locals_size + 8 * i" "unat off2 = unat locals_size + 8 * j" "i \<noteq> j"
      using slot [OF rs(1)] slot [OF rs(2)] rs(3) by auto
    then show ?thesis by presburger
  qed
  moreover have "unat locals_size \<le> unat off \<and> unat off + 8 \<le> unat locals_size + 8 * length regs
      \<and> unat off mod 8 = unat locals_size mod 8" if "offs r = Some off" for r off
    using slot [OF that] by auto
  ultimately show ?thesis using offs(1,2) by blast
qed

theorem spill_slots_disjoint_witness:
  "\<exists>offs. spill_offsets 16 [Virtual ''1'', Virtual ''2''] = Inr offs \<and> dom offs = set [Virtual ''1'', Virtual ''2'']
    \<and> (\<forall>r off. offs r = Some off \<longrightarrow> unat (16 :: u32) \<le> unat off
         \<and> unat off + 8 \<le> unat (16 :: u32) + 8 * length [Virtual ''1'', Virtual ''2'']
         \<and> unat off mod 8 = unat (16 :: u32) mod 8)
    \<and> (\<forall>r s off1 off2. offs r = Some off1 \<longrightarrow> offs s = Some off2 \<longrightarrow> r \<noteq> s \<longrightarrow>
         unat off1 + 8 \<le> unat off2 \<or> unat off2 + 8 \<le> unat off1)"
  by (rule spill_slots_disjoint) simp_all

end
