(* ===== verification/Asm_Machine.thy ===== *)
theory Asm_Machine
  imports Asm_Cfg
begin

text \<open>
  The execution of instructions on virtual registers. What a single instruction does to the
  registers and to the rest of the machine comes from the virtual machine and is an argument;
  the control flow of labels and jumps is that of \<^verbatim>\<open>Op::successors\<close>. The theory ends with the
  simulation that all passes of the optimizer are shown correct with.
\<close>

section \<open>Running a list of instructions\<close>

type_synonym regs = "virtual_register \<Rightarrow> u64"

text \<open>An instruction continues with the next one, ends the code with a result, or panics.\<close>

datatype ('m, 'r) outcome = Next regs 'm | Stop 'r | Trap

type_synonym ('m, 'r) machine =
  "virtual_op + virtual_register control_flow_op \<Rightarrow> regs \<Rightarrow> 'm \<Rightarrow> ('m, 'r) outcome"

datatype ('m, 'r) flow = Fall regs 'm | Take label regs 'm | End 'r | Bad

definition exec_plain ::
  "('m, 'r) machine \<Rightarrow> virtual_op + virtual_register control_flow_op \<Rightarrow> regs \<Rightarrow> 'm \<Rightarrow> ('m, 'r) flow" where
  "exec_plain vm oc r m = (case vm oc r m of Next r' m' \<Rightarrow> Fall r' m' | Stop x \<Rightarrow> End x | Trap \<Rightarrow> Bad)"

definition exec_op :: "('m, 'r) machine \<Rightarrow> op \<Rightarrow> regs \<Rightarrow> 'm \<Rightarrow> ('m, 'r) flow" where
  "exec_op vm o' r m =
     (case opcode o' of
        Inr (Jump l) \<Rightarrow> Take l r m
      | Inr (JumpIfNotZero x l) \<Rightarrow> if r x \<noteq> 0 then Take l r m else Fall r m
      | oc \<Rightarrow> exec_plain vm oc r m)"

text \<open>
  The result after at most the given number of steps; there is none while the code runs, when
  it panics, and when control leaves the list.
\<close>

fun run :: "('m, 'r) machine \<Rightarrow> op list \<Rightarrow> nat \<Rightarrow> nat \<Rightarrow> regs \<Rightarrow> 'm \<Rightarrow> 'r option" where
  "run vm ops 0 pc r m = None"
| "run vm ops (Suc n) pc r m =
     (if pc < length ops then
        case exec_op vm (ops ! pc) r m of
          Fall r' m' \<Rightarrow> run vm ops n (Suc pc) r' m'
        | Take l r' m' \<Rightarrow> (case label_to_index ops l of Some t \<Rightarrow> run vm ops n t r' m' | None \<Rightarrow> None)
        | End x \<Rightarrow> Some x
        | Bad \<Rightarrow> None
      else None)"

definition keeps_results :: "('m, 'r) machine \<Rightarrow> op list \<Rightarrow> op list \<Rightarrow> bool" where
  "keeps_results vm ops ops' \<longleftrightarrow>
     (\<forall>n r m x. run vm ops n 0 r m = Some x \<longrightarrow> run vm ops' n 0 r m = Some x)"

lemma keeps_resultsD: "keeps_results vm ops ops' \<Longrightarrow> run vm ops n 0 r m = Some x \<Longrightarrow> run vm ops' n 0 r m = Some x"
  by (auto simp: keeps_results_def)

lemma keeps_results_refl [simp]: "keeps_results vm ops ops"
  by (simp add: keeps_results_def)

lemma keeps_results_trans [trans]:
  "keeps_results vm a b \<Longrightarrow> keeps_results vm b c \<Longrightarrow> keeps_results vm a c"
  by (auto simp: keeps_results_def)

lemmas run_Suc = run.simps(2)

declare run_Suc [simp del]

lemma run_mono: "run vm ops n pc r m = Some x \<Longrightarrow> run vm ops (Suc n) pc r m = Some x"
proof (induction n arbitrary: pc r m)
  case (Suc n)
  then show ?case
    by (subst run_Suc, subst (asm) (2) run_Suc) (auto split: if_splits flow.splits option.splits)
qed simp

section \<open>What the machine documents\<close>

text \<open>
  The program counter and the two gas counters change with every instruction. The flags \<^verbatim>\<open>$of\<close>
  and \<^verbatim>\<open>$err\<close> are set by the instructions that list them in \<^verbatim>\<open>def_const_registers\<close>. The other
  registers of the machine may be read and written by instructions that do not name them.
\<close>

definition volatile :: "virtual_register set" where
  "volatile = {Constant ProgramCounter, Constant GlobalGas, Constant ContextGas}"

definition flags :: "virtual_register set" where
  "flags = {Constant Overflow, Constant Error}"

definition ambient :: "virtual_register set" where
  "ambient = {r. \<not> is_virtual r} - volatile - flags"

definition agree :: "virtual_register set \<Rightarrow> regs \<Rightarrow> regs \<Rightarrow> bool" where
  "agree A r r' \<longleftrightarrow> (\<forall>x \<in> A. r x = r' x)"

definition plain :: "virtual_op + virtual_register control_flow_op \<Rightarrow> op" where
  "plain oc = \<lparr>opcode = oc, comment = [], owning_span = None\<rparr>"

definition oc_uses :: "virtual_op + virtual_register control_flow_op \<Rightarrow> virtual_register set" where
  "oc_uses oc = set (op_use_registers (plain oc))"

definition oc_defs :: "virtual_op + virtual_register control_flow_op \<Rightarrow> virtual_register set" where
  "oc_defs oc = set (op_def_registers (plain oc)) \<union> set (op_def_const_registers (plain oc))"

fun same_outcome :: "virtual_register set \<Rightarrow> ('m, 'r) outcome \<Rightarrow> ('m, 'r) outcome \<Rightarrow> bool" where
  "same_outcome A (Next r m) (Next r' m') \<longleftrightarrow> m = m' \<and> agree A r r'"
| "same_outcome A (Stop x) (Stop y) \<longleftrightarrow> x = y"
| "same_outcome A Trap Trap \<longleftrightarrow> True"
| "same_outcome A _ _ \<longleftrightarrow> False"

text \<open>
  An instruction only depends on the registers it lists and on the ambient ones, and leaves other
  registers alone; one without side effect does not change the memory and does not end the code; a
  revert does; \<^verbatim>\<open>NOOP\<close> does not panic.
\<close>

definition machine_ok :: "('m, 'r) machine \<Rightarrow> bool" where
  "machine_ok vm \<longleftrightarrow>
     (\<forall>oc r r' m. agree (oc_uses oc \<union> ambient) r r'
        \<longrightarrow> same_outcome (oc_defs oc \<union> ambient) (vm oc r m) (vm oc r' m))
   \<and> (\<forall>oc r m r' m'. vm oc r m = Next r' m' \<longrightarrow> agree (- oc_defs oc - ambient - volatile) r r')
   \<and> (\<forall>v r m. \<not> vop_has_side_effect v \<longrightarrow>
        (case vm (Inl v) r m of
           Next r' m' \<Rightarrow> m' = m \<and> agree (- oc_defs (Inl v) - volatile) r r' | Stop _ \<Rightarrow> False | Trap \<Rightarrow> True))
   \<and> (\<forall>x r m. \<not> (\<exists>r' m'. vm (Inl (Contract (RVRT x))) r m = Next r' m'))
   \<and> (\<forall>r m. vm (Inl (Alu NOOP)) r m \<noteq> Trap)"

lemma agree_subset: "agree A r r' \<Longrightarrow> B \<subseteq> A \<Longrightarrow> agree B r r'"
  by (auto simp: agree_def)

lemma agree_refl [simp]: "agree A r r"
  by (simp add: agree_def)

lemma agree_sym: "agree A r r' \<Longrightarrow> agree A r' r"
  by (simp add: agree_def)

lemma agree_trans: "agree A r r' \<Longrightarrow> agree A r' r'' \<Longrightarrow> agree A r r''"
  by (simp add: agree_def)

lemma agree_via:
  assumes "agree A r r'" "agree B r r1" "A' \<subseteq> A \<inter> B"
  shows "agree A' r1 r'"
  using assms unfolding agree_def by force

lemma op_sets_plain:
  "oc_uses (opcode o') = set (op_use_registers o')"
  "oc_defs (opcode o') = set (op_def_registers o') \<union> set (op_def_const_registers o')"
  by (simp_all add: oc_uses_def oc_defs_def plain_def op_use_registers_def op_def_registers_def
      op_def_const_registers_def)

section \<open>Executing the same instruction twice\<close>

fun same_flow :: "virtual_register set \<Rightarrow> ('m, 'r) flow \<Rightarrow> ('m, 'r) flow \<Rightarrow> bool" where
  "same_flow A (Fall r m) (Fall r' m') \<longleftrightarrow> m = m' \<and> agree A r r'"
| "same_flow A (Take l r m) (Take l' r' m') \<longleftrightarrow> l = l' \<and> m = m' \<and> agree A r r'"
| "same_flow A (End x) (End y) \<longleftrightarrow> x = y"
| "same_flow A Bad Bad \<longleftrightarrow> True"
| "same_flow A _ _ \<longleftrightarrow> False"

lemma exec_plain_same:
  assumes "machine_ok vm" "agree A r r'" "oc_uses oc \<union> ambient \<subseteq> A" "A' \<subseteq> A \<union> oc_defs oc" "A' \<inter> volatile = {}"
  shows "same_flow A' (exec_plain vm oc r m) (exec_plain vm oc r' m)"
proof -
  have same: "same_outcome (oc_defs oc \<union> ambient) (vm oc r m) (vm oc r' m)"
    using assms(1) agree_subset [OF assms(2,3)] by (simp add: machine_ok_def)
  have frame: "agree (- oc_defs oc - ambient - volatile) s s'" if "vm oc s m = Next s' n" for s s' n
    using assms(1) that unfolding machine_ok_def by blast
  show ?thesis
  proof (cases "vm oc r m")
    case (Next r1 m1)
    then obtain r1' where r1': "vm oc r' m = Next r1' m1" "agree (oc_defs oc \<union> ambient) r1 r1'"
      using same by (cases "vm oc r' m") auto
    have "r1 x = r1' x" if "x \<in> A'" for x
    proof (cases "x \<in> oc_defs oc \<union> ambient")
      case True
      then show ?thesis using r1'(2) by (simp add: agree_def)
    next
      case False
      then have "r x = r1 x" "r' x = r1' x" "r x = r' x"
        using frame [OF Next] frame [OF r1'(1)] assms that unfolding agree_def by blast+
      then show ?thesis by simp
    qed
    then show ?thesis using Next r1' by (simp add: exec_plain_def agree_def)
  qed (use same in \<open>cases "vm oc r' m"; simp add: exec_plain_def\<close>)+
qed

lemma exec_op_same:
  assumes "machine_ok vm" "agree A r r'" "set (op_use_registers o') \<union> ambient \<subseteq> A"
    and "A' \<subseteq> A \<union> oc_defs (opcode o')" "A' \<inter> volatile = {}"
  shows "same_flow A' (exec_op vm o' r m) (exec_op vm o' r' m)"
proof (cases "jump_target o'")
  case None
  then have "exec_op vm o' s m = exec_plain vm (opcode o') s m" for s
    by (auto simp: exec_op_def jump_target_def split: sum.splits control_flow_op.splits)
  then show ?thesis using exec_plain_same [OF assms(1,2), of "opcode o'" A'] assms(3-5) by (simp add: op_sets_plain)
next
  case (Some l)
  then have "oc_defs (opcode o') = {}"
    by (auto simp: oc_defs_def plain_def op_def_registers_def op_def_const_registers_def cf_def_const_registers_def
        jump_target_def split: sum.splits control_flow_op.splits)
  then have "agree A' r r'" using assms(2,4) agree_subset by blast
  moreover have "r x = r' x" if "x \<in> set (op_use_registers o')" for x
    using that assms(2,3) by (auto simp: agree_def)
  ultimately show ?thesis using Some
    by (auto simp: exec_op_def jump_target_def op_use_registers_def split: sum.splits control_flow_op.splits)
qed

lemma exec_op_falls:
  assumes "machine_ok vm" "exec_op vm o' r m = Fall r1 m1"
  shows "falls_through o'"
proof (rule ccontr)
  assume "\<not> falls_through o'"
  then consider l where "opcode o' = Inr (Jump l)" | x where "opcode o' = Inl (Contract (RVRT x))"
    by (auto simp: falls_through_def split: sum.splits control_flow_op.splits virtual_op.splits contract_op.splits)
  then show False
  proof cases
    case (2 x)
    have "\<not> (\<exists>r' m'. vm (Inl (Contract (RVRT x))) r m = Next r' m')"
      using assms(1) by (simp add: machine_ok_def)
    then show False using assms(2) 2 by (simp add: exec_op_def exec_plain_def split: outcome.splits)
  qed (use assms(2) in \<open>simp add: exec_op_def\<close>)
qed

lemma exec_op_takes:
  assumes "exec_op vm o' r m = Take l r1 m1"
  shows "jump_target o' = Some l" "r1 = r" "m1 = m"
  using assms
  by (auto simp: exec_op_def exec_plain_def jump_target_def split: sum.splits control_flow_op.splits outcome.splits if_splits)

lemma exec_pure:
  assumes "machine_ok vm" "opcode o' = Inl v" "\<not> vop_has_side_effect v"
  shows "exec_op vm o' r m = Bad \<or> (\<exists>r1. exec_op vm o' r m = Fall r1 m \<and> agree (- oc_defs (opcode o') - volatile) r r1)"
proof -
  have "case vm (Inl v) r m of
      Next r' m' \<Rightarrow> m' = m \<and> agree (- oc_defs (Inl v) - volatile) r r' | Stop _ \<Rightarrow> False | Trap \<Rightarrow> True"
    using assms(1,3) by (simp add: machine_ok_def)
  then show ?thesis using assms(2) by (simp add: exec_op_def exec_plain_def split: outcome.splits)
qed

section \<open>Rewriting a list of instructions\<close>

text \<open>
  A pass that keeps the order of the instructions: \<open>g i\<close> is what it makes of the instruction at
  position \<open>i\<close>, if it keeps one.
\<close>

definition rewrite :: "(nat \<Rightarrow> op option) \<Rightarrow> nat \<Rightarrow> op list" where
  "rewrite g n = List.map_filter g [0..<n]"

definition new_pos :: "(nat \<Rightarrow> op option) \<Rightarrow> nat \<Rightarrow> nat" where
  "new_pos g i = length (rewrite g i)"

lemma rewrite_Suc: "rewrite g (Suc n) = rewrite g n @ (case g n of Some x \<Rightarrow> [x] | None \<Rightarrow> [])"
  by (simp add: rewrite_def List.map_filter_def split: option.splits)

lemma rewrite_split:
  assumes "i < n"
  shows "\<exists>rest. rewrite g n = rewrite g i @ (case g i of Some x \<Rightarrow> [x] | None \<Rightarrow> []) @ rest
    \<and> (\<forall>y \<in> set rest. \<exists>j. i < j \<and> j < n \<and> g j = Some y)"
  using assms
proof (induction n)
  case (Suc n)
  show ?case
  proof (cases "i = n")
    case True
    then show ?thesis by (auto simp: rewrite_Suc)
  next
    case False
    with Suc obtain rest where rest: "rewrite g n = rewrite g i @ (case g i of Some x \<Rightarrow> [x] | None \<Rightarrow> []) @ rest"
        "\<forall>y \<in> set rest. \<exists>j. i < j \<and> j < n \<and> g j = Some y"
      by auto
    show ?thesis using rest False Suc.prems
      by (intro exI [of _ "rest @ (case g n of Some x \<Rightarrow> [x] | None \<Rightarrow> [])"])
        (auto simp: rewrite_Suc less_Suc_eq split: option.splits)
  qed
qed simp

lemma set_rewrite: "set (rewrite g n) = {y. \<exists>i < n. g i = Some y}"
  by (force simp: rewrite_def List.map_filter_def)

lemma rewrite_kept:
  assumes "i < n" "g i = Some x"
  shows "new_pos g i < length (rewrite g n)" "rewrite g n ! new_pos g i = x" "new_pos g (Suc i) = Suc (new_pos g i)"
  using rewrite_split [OF assms(1), of g] assms(2) by (auto simp: new_pos_def rewrite_Suc)

lemma new_pos_dropped: "g i = None \<Longrightarrow> new_pos g (Suc i) = new_pos g i"
  by (simp add: new_pos_def rewrite_Suc)

lemma new_pos_0 [simp]: "new_pos g 0 = 0"
  by (simp add: new_pos_def rewrite_def List.map_filter_def)

lemma rewrite_label:
  assumes "label_to_index ops l = Some t" "g t = Some x"
    and "\<And>i y. i < length ops \<Longrightarrow> g i = Some y \<Longrightarrow> label_of y = label_of (ops ! i)"
  shows "label_to_index (rewrite g (length ops)) l = Some (new_pos g t)"
proof -
  note t = assms(1) [unfolded label_to_index_Some]
  obtain rest where rest: "rewrite g (length ops) = rewrite g t @ x # rest"
      "\<forall>y \<in> set rest. \<exists>j. t < j \<and> j < length ops \<and> g j = Some y"
    using rewrite_split [of t "length ops" g] t assms(2) by auto
  have "label_of x = Some l" using assms(2,3) t by auto
  moreover have "label_of y \<noteq> Some l" if "y \<in> set rest" for y
    using rest(2) that t assms(3) by metis
  ultimately show ?thesis
    by (auto simp: label_to_index_Some new_pos_def rest(1) nth_append nth_Cons split: nat.splits)
qed

text \<open>
  The simulation. Before the instruction at \<open>i\<close> the two runs agree on the registers \<open>A i\<close>; \<open>I\<close>
  holds of the positions the original run can be at.
\<close>

definition simulates ::
  "('m, 'r) machine \<Rightarrow> op list \<Rightarrow> (nat \<Rightarrow> op option) \<Rightarrow> (nat \<Rightarrow> bool) \<Rightarrow> (nat \<Rightarrow> virtual_register set) \<Rightarrow> bool" where
  "simulates vm ops g I A \<longleftrightarrow>
     (\<forall>i y. i < length ops \<longrightarrow> g i = Some y \<longrightarrow> label_of y = label_of (ops ! i))
   \<and> (\<forall>i r r' m. i < length ops \<longrightarrow> I i \<longrightarrow> agree (A i) r r' \<longrightarrow>
       (case exec_op vm (ops ! i) r m of
          Fall r1 m1 \<Rightarrow> (Suc i < length ops \<longrightarrow> I (Suc i)) \<and>
            (case g i of
               None \<Rightarrow> m1 = m \<and> agree (A (Suc i)) r1 r'
             | Some x \<Rightarrow> \<exists>r1'. exec_op vm x r' m = Fall r1' m1 \<and> agree (A (Suc i)) r1 r1')
        | Take l r1 m1 \<Rightarrow>
            (\<forall>t. label_to_index ops l = Some t \<longrightarrow> I t \<and> g t \<noteq> None \<and>
              (\<exists>x r1'. g i = Some x \<and> agree (A t) r1 r1' \<and>
                (exec_op vm x r' m = Take l r1' m1 \<or> exec_op vm x r' m = Fall r1' m1 \<and> t = Suc i)))
        | End z \<Rightarrow> (\<exists>x. g i = Some x \<and> exec_op vm x r' m = End z)
        | Bad \<Rightarrow> True))"

lemma simulates_run:
  assumes "simulates vm ops g I A" "run vm ops n i r m = Some z" "I i" "agree (A i) r r'"
  shows "run vm (rewrite g (length ops)) n (new_pos g i) r' m = Some z"
  using assms(2-4)
proof (induction n arbitrary: i r r' m)
  case (Suc n)
  have i: "i < length ops" using Suc.prems(1) by (simp add: run_Suc split: if_splits)
  note sim = assms(1) [unfolded simulates_def, THEN conjunct2, rule_format, OF i Suc.prems(2,3), of m]
  show ?case
  proof (cases "exec_op vm (ops ! i) r m")
    case (Fall r1 m1)
    with Suc.prems(1) i have cont: "run vm ops n (Suc i) r1 m1 = Some z" by (simp add: run_Suc)
    then have "Suc i < length ops" by (cases n) (auto simp: run_Suc split: if_splits)
    with sim Fall have I: "I (Suc i)" by simp
    show ?thesis
    proof (cases "g i")
      case None
      with sim Fall have "m1 = m" "agree (A (Suc i)) r1 r'" by auto
      with Suc.IH [OF cont I] None show ?thesis by (simp add: new_pos_dropped run_mono)
    next
      case (Some x)
      with sim Fall obtain r1' where "exec_op vm x r' m = Fall r1' m1" "agree (A (Suc i)) r1 r1'" by auto
      with Suc.IH [OF cont I] rewrite_kept [of i "length ops" g, OF i Some] show ?thesis by (simp add: run_Suc)
    qed
  next
    case (Take l r1 m1)
    with Suc.prems(1) i obtain t where t: "label_to_index ops l = Some t" and cont: "run vm ops n t r1 m1 = Some z"
      by (auto simp: run_Suc split: option.splits)
    with sim Take obtain x r1' y where x: "I t" "g t = Some y" "g i = Some x" "agree (A t) r1 r1'"
        "exec_op vm x r' m = Take l r1' m1 \<or> exec_op vm x r' m = Fall r1' m1 \<and> t = Suc i"
      by auto
    have "label_to_index (rewrite g (length ops)) l = Some (new_pos g t)"
      using rewrite_label [where g = g, OF t x(2)] assms(1) unfolding simulates_def by blast
    with Suc.IH [OF cont x(1,4)] x rewrite_kept [of i "length ops" g, OF i x(3)] show ?thesis
      by (auto simp: run_Suc)
  next
    case (End y)
    with sim obtain x where "g i = Some x" "exec_op vm x r' m = End y" by auto
    with Suc.prems(1) End i rewrite_kept [of i "length ops" g x] show ?thesis by (simp add: run_Suc)
  next
    case Bad
    with Suc.prems(1) i show ?thesis by (simp add: run_Suc)
  qed
qed simp

lemma simulates_keeps_results:
  assumes "simulates vm ops g I A" "ops \<noteq> [] \<Longrightarrow> I 0"
  shows "keeps_results vm ops (rewrite g (length ops))"
proof (cases "ops = []")
  case True
  then have "run vm ops n 0 r m \<noteq> Some x" for n r m x by (cases n) (simp_all add: run_Suc)
  then show ?thesis by (simp add: keeps_results_def)
next
  case False
  with simulates_run [OF assms(1), of _ 0] assms(2) show ?thesis by (simp add: keeps_results_def)
qed

end
