(* ===== verification/Asm_Spilled.thy ===== *)
theory Asm_Spilled
  imports Asm_Properties Asm_Machine
begin

text \<open>
  What the instructions that \<^verbatim>\<open>spill\<close> inserts do when they run: the address code of a slot, the loads
  before an instruction and the stores after it. The instructions of the machine are an
  argument; the hypotheses state their documented effect on registers and memory.
\<close>

unbundle bit_operations_syntax

section \<open>The machine\<close>

text \<open>Instructions without a jump, one after the other.\<close>

fun run_line :: "('m, 'r) machine \<Rightarrow> op list \<Rightarrow> regs \<Rightarrow> 'm \<Rightarrow> (regs \<times> 'm) option" where
  "run_line vm [] r m = Some (r, m)"
| "run_line vm (o' # ops) r m = (case exec_op vm o' r m of Fall r' m' \<Rightarrow> run_line vm ops r' m' | _ \<Rightarrow> None)"

text \<open>
  The registers that instructions change besides the ones they write: the program counter, the
  gas counters and the two flags.
\<close>

definition status :: "virtual_register set" where
  "status = volatile \<union> flags"

definition writable :: "virtual_register \<Rightarrow> bool" where
  "writable a \<longleftrightarrow> is_virtual a \<or> a = scratch"

abbreviation stack_start :: virtual_register where
  "stack_start \<equiv> Constant StackStartPointer"

abbreviation stack_end :: virtual_register where
  "stack_end \<equiv> Constant StackPointer"

definition access_address :: "regs \<Rightarrow> virtual_register \<Rightarrow> imm12 \<Rightarrow> nat" where
  "access_address r b i = unat (r b) + 8 * unat (value12 i)"

text \<open>
  What the spill code relies on, with enough gas: a load of an immediate, a left shift by an
  immediate, an addition that does not overflow, a load of a word below the end of the stack and
  a store of a word between the two ends of the stack; \<open>peek m p\<close> is the word that stands at the
  address \<open>p\<close>, and a store leaves the words alone that do not overlap with it.
\<close>

definition spill_vm_ok :: "('m, 'r) machine \<Rightarrow> ('m \<Rightarrow> nat \<Rightarrow> u64) \<Rightarrow> bool" where
  "spill_vm_ok vm peek \<longleftrightarrow>
     (\<forall>a i r m. writable a \<longrightarrow>
        (\<exists>r'. vm (Inl (Alu (MOVI a i))) r m = Next r' m \<and> r' a = ucast (value18 i) \<and> agree (- {a} - status) r r'))
   \<and> (\<forall>a b i r m. writable a \<longrightarrow>
        (\<exists>r'. vm (Inl (Alu (SLLI a b i))) r m = Next r' m \<and> r' a = push_bit (unat (value12 i)) (r b)
           \<and> agree (- {a} - status) r r'))
   \<and> (\<forall>a b c r m. writable a \<longrightarrow> unat (r b) + unat (r c) < 2 ^ 64 \<longrightarrow>
        (\<exists>r'. vm (Inl (Alu (ADD a b c))) r m = Next r' m \<and> r' a = r b + r c \<and> agree (- {a} - status) r r'))
   \<and> (\<forall>a b i r m. writable a \<longrightarrow> access_address r b i + 8 \<le> unat (r stack_end) \<longrightarrow>
        (\<exists>r'. vm (Inl (Memory (memory_op.LW a b i))) r m = Next r' m \<and> r' a = peek m (access_address r b i)
           \<and> agree (- {a} - status) r r'))
   \<and> (\<forall>a b i r m. unat (r stack_start) \<le> access_address r b i \<longrightarrow> access_address r b i + 8 \<le> unat (r stack_end) \<longrightarrow>
        (\<exists>r' m'. vm (Inl (Memory (memory_op.SW b a i))) r m = Next r' m' \<and> peek m' (access_address r b i) = r a
           \<and> (\<forall>p. p + 8 \<le> access_address r b i \<or> access_address r b i + 8 \<le> p \<longrightarrow> peek m' p = peek m p)
           \<and> agree (- status) r r'))"

lemma spill_vm_okD:
  assumes "spill_vm_ok vm peek"
  shows "writable a \<Longrightarrow>
      \<exists>r'. vm (Inl (Alu (MOVI a k))) r m = Next r' m \<and> r' a = ucast (value18 k) \<and> agree (- {a} - status) r r'"
    "writable a \<Longrightarrow> \<exists>r'. vm (Inl (Alu (SLLI a b i))) r m = Next r' m \<and> r' a = push_bit (unat (value12 i)) (r b)
           \<and> agree (- {a} - status) r r'"
    "writable a \<Longrightarrow> unat (r b) + unat (r c) < 2 ^ 64 \<Longrightarrow>
      \<exists>r'. vm (Inl (Alu (ADD a b c))) r m = Next r' m \<and> r' a = r b + r c \<and> agree (- {a} - status) r r'"
    "writable a \<Longrightarrow> access_address r b i + 8 \<le> unat (r stack_end) \<Longrightarrow>
      \<exists>r'. vm (Inl (Memory (memory_op.LW a b i))) r m = Next r' m \<and> r' a = peek m (access_address r b i) \<and> agree (- {a} - status) r r'"
    "unat (r stack_start) \<le> access_address r b i \<Longrightarrow> access_address r b i + 8 \<le> unat (r stack_end) \<Longrightarrow>
      \<exists>r' m'. vm (Inl (Memory (memory_op.SW b a i))) r m = Next r' m' \<and> peek m' (access_address r b i) = r a
         \<and> (\<forall>p. p + 8 \<le> access_address r b i \<or> access_address r b i + 8 \<le> p \<longrightarrow> peek m' p = peek m p)
         \<and> agree (- status) r r'"
  using assms unfolding spill_vm_ok_def by simp_all

lemma status_others [simp]:
  "locals_base \<notin> status" "stack_end \<notin> status" "stack_start \<notin> status" "scratch \<notin> status" "Virtual x \<notin> status"
  by (simp_all add: status_def volatile_def flags_def)

lemma writable_simps [simp]: "writable scratch" "writable (Virtual x)" "\<not> writable locals_base"
  by (simp_all add: writable_def)

lemma exec_spill_op [simp]:
  "exec_op vm (spill_op_of v c) r m = (case vm (Inl v) r m of Next r' m' \<Rightarrow> Fall r' m' | Stop x \<Rightarrow> End x | Trap \<Rightarrow> Bad)"
  by (simp add: exec_op_def exec_plain_def spill_op_of_def)

lemma agree_chain: "agree A r r1 \<Longrightarrow> agree B r1 r2 \<Longrightarrow> C \<subseteq> A \<Longrightarrow> C \<subseteq> B \<Longrightarrow> agree C r r2"
  unfolding agree_def by (metis subsetD)

lemma run_line_append:
  "run_line vm (xs @ ys) r m = (case run_line vm xs r m of Some (r', m') \<Rightarrow> run_line vm ys r' m' | None \<Rightarrow> None)"
  by (induction xs arbitrary: r m) (auto split: flow.splits)

section \<open>The address of a slot\<close>

lemma unat_ucast_u16: "unat y < 65536 \<Longrightarrow> unat (ucast (y :: u64) :: u16) = unat y"
  by (simp add: unsigned_ucast_eq take_bit_nat_eq_self)

lemma unat_ucast_twice:
  fixes x :: u32
  shows "unat x < 65536 \<Longrightarrow> unat (ucast (ucast x :: u64) :: u16) = unat x"
    and "unat (ucast (ucast (ucast x :: u64) :: u32) :: u64) = unat x"
  using unat_ucast_u16 [of "ucast x"] unat_ucast_u32 [of x] by (simp_all only: ucast_u32_u64)

lemma unat_sum_small: "unat (x :: u64) + unat y < 2 ^ 64 \<Longrightarrow> unat (x + y) = unat x + unat y"
  by (simp add: unat_word_ariths(1))

text \<open>The last instruction of the address code adds the base of the locals to the scratch register.\<close>

lemma run_add_base:
  assumes "spill_vm_ok vm peek" "agree (- {scratch} - status) r r1" "unat (r1 scratch) + unat (r locals_base) < 2 ^ 64"
  shows "\<exists>r2. run_line vm [spill_op_of (Alu (ADD scratch scratch locals_base)) c] r1 m = Some (r2, m)
    \<and> unat (r2 scratch) = unat (r1 scratch) + unat (r locals_base) \<and> agree (- {scratch} - status) r r2"
proof -
  have "r1 locals_base = r locals_base" using assms(2) by (simp add: agree_def)
  then have "\<exists>r2. vm (Inl (Alu (ADD scratch scratch locals_base))) r1 m = Next r2 m \<and> r2 scratch = r1 scratch + r locals_base
      \<and> agree (- {scratch} - status) r1 r2"
    using spill_vm_okD(3) [OF assms(1), of scratch r1 scratch locals_base m] assms(3) by simp
  then show ?thesis using assms(2,3) agree_trans by (fastforce simp: unat_sum_small)
qed

lemma slot_address_runs:
  assumes vm: "spill_vm_ok vm peek" and "unat off mod 8 = 0" "unat off \<le> 0xFFFFFF"
    and base: "unat (r locals_base) + 0x1000000 < 2 ^ 64"
  shows "\<exists>insts reg imm r'. slot_address off = Inr (insts, reg, imm) \<and> run_line vm insts r m = Some (r', m)
    \<and> unat (r' reg) + 8 * unat (value12 imm) = unat (r locals_base) + unat off
    \<and> agree (- {scratch} - status) r r' \<and> unat (value12 imm) < 2 ^ 12"
proof -
  have d8: "unat (off div 8) = unat off div 8" "8 * (unat off div 8) = unat off"
    using assms(2) by (auto simp: unat_div_distrib)
  consider (near) "unat off div 8 \<le> 0xFFF" | (mid) "\<not> unat off div 8 \<le> 0xFFF" "unat off \<le> 0x3FFFF"
    | (far) "\<not> unat off div 8 \<le> 0xFFF" "\<not> unat off \<le> 0x3FFFF" by blast
  then show ?thesis
  proof cases
    case near
    then show ?thesis
      using slot_address_eq [OF assms(2,3)] d8 unat_ucast_twice(1) [of "off div 8"] by auto
  next
    case mid
    let ?i = "\<lparr>value18 = ucast (ucast off :: u64)\<rparr>"
    obtain r1 where r1: "vm (Inl (Alu (MOVI scratch ?i))) r m = Next r1 m" "unat (r1 scratch) = unat off"
        "agree (- {scratch} - status) r r1"
      using spill_vm_okD(1) [OF vm writable_simps(1), of ?i r m] unat_ucast_twice(2) [of off] by auto
    have "unat (r1 scratch) + unat (r locals_base) < 2 ^ 64" using r1(2) assms(3) base by simp
    from run_add_base [OF vm r1(3) this, of _ m] slot_address_eq [OF assms(2,3)] mid r1 show ?thesis by auto
  next
    case far
    let ?i = "\<lparr>value18 = ucast (ucast (drop_bit 12 off) :: u64)\<rparr>"
    let ?up = "ucast (value18 ?i) :: u64"
    have "unat ?up = unat off div 4096" using unat_ucast_twice(2) unat_parts(4) by simp
    moreover have "unat off div 4096 < 4096" using assms(3) by (simp add: less_mult_imp_div_less)
    ultimately have up: "unat (push_bit 12 ?up) = 4096 * (unat off div 4096)"
      by (simp add: push_bit_eq_mult unat_word_ariths(2) mult.commute)
    obtain r1 where r1: "vm (Inl (Alu (MOVI scratch ?i))) r m = Next r1 m" "r1 scratch = ?up" "agree (- {scratch} - status) r r1"
      using spill_vm_okD(1) [OF vm writable_simps(1), of ?i r m] by auto
    obtain r2 where r2: "vm (Inl (Alu (SLLI scratch scratch \<lparr>value12 = 12\<rparr>))) r1 m = Next r2 m"
        "unat (r2 scratch) = 4096 * (unat off div 4096)" "agree (- {scratch} - status) r1 r2"
      using spill_vm_okD(2) [OF vm writable_simps(1), of scratch "\<lparr>value12 = 12\<rparr>" r1 m] r1(2) up by auto
    have "unat (r2 scratch) + unat (r locals_base) < 2 ^ 64"
      using r2(2) times_div_less_eq_dividend [of 4096 "unat off"] assms(3) base by simp
    note add = run_add_base [OF vm agree_trans [OF r1(3) r2(3)] this, of _ m]
    have "unat ((off AND 0xFFF) div 8) = unat off mod 4096 div 8"
      using unat_parts(3) [of off] by (simp add: unat_div_distrib)
    then have imm: "unat (ucast (ucast ((off AND 0xFFF) div 8) :: u64) :: u16) = unat off mod 4096 div 8"
      using unat_ucast_twice(1) [of "(off AND 0xFFF) div 8"] by (simp add: less_mult_imp_div_less)
    have "unat off mod 4096 mod 8 = 0" using assms(2) by (simp add: mod_mod_cancel)
    then have "8 * (unat off mod 4096 div 8) = unat off mod 4096" by auto
    moreover have "4096 * (unat off div 4096) + unat off mod 4096 = unat off" by simp
    moreover have "unat off mod 4096 div 8 < 4096" by (rule less_mult_imp_div_less) simp
    ultimately have "4096 * (unat off div 4096) + 8 * (unat off mod 4096 div 8) = unat off"
      "unat off mod 4096 div 8 < 4096" by linarith+
    then show ?thesis
      using slot_address_eq [OF assms(2,3)] far add r1(1) r2(1,2) imm by auto
  qed
qed

section \<open>Loads and stores of slots\<close>

text \<open>
  Slots: words between two offsets that do not overlap, for virtual registers; the stack frame
  reaches from the base of the locals at least as far as the given number of bytes.
\<close>

definition slots_ok :: "nat \<Rightarrow> nat \<Rightarrow> (virtual_register \<rightharpoonup> u32) \<Rightarrow> bool" where
  "slots_ok low high offs \<longleftrightarrow>
     (\<forall>x off. offs x = Some off \<longrightarrow> is_virtual x \<and> unat off mod 8 = 0 \<and> low \<le> unat off \<and> unat off + 8 \<le> high)
   \<and> (\<forall>x y off1 off2. offs x = Some off1 \<longrightarrow> offs y = Some off2 \<longrightarrow> x \<noteq> y \<longrightarrow>
        unat off1 + 8 \<le> unat off2 \<or> unat off2 + 8 \<le> unat off1)"

definition framed :: "nat \<Rightarrow> regs \<Rightarrow> bool" where
  "framed n r \<longleftrightarrow> unat (r stack_start) \<le> unat (r locals_base) \<and> unat (r locals_base) + n \<le> unat (r stack_end)
     \<and> unat (r locals_base) + 0x1000000 < 2 ^ 64"

definition slot :: "(virtual_register \<rightharpoonup> u32) \<Rightarrow> regs \<Rightarrow> virtual_register \<Rightarrow> nat" where
  "slot offs r x = unat (r locals_base) + unat (the (offs x))"

lemma agree_frame:
  assumes "agree (- set xs - {scratch} - status) r r'" "\<forall>x \<in> set xs. is_virtual x"
  shows "r' locals_base = r locals_base" "r' stack_end = r stack_end" "r' stack_start = r stack_start"
    "framed n r' \<longleftrightarrow> framed n r" "slot offs r' x = slot offs r x"
proof -
  have "c \<notin> set xs" if "\<not> is_virtual c" for c using that assms(2) by blast
  then show eq: "r' locals_base = r locals_base" "r' stack_end = r stack_end" "r' stack_start = r stack_start"
    using assms(1) unfolding agree_def by (metis ComplI DiffI is_virtual.simps(2) singletonD status_others(1-3) virtual_register.inject(2) constant_register.distinct)+
  show "framed n r' \<longleftrightarrow> framed n r" "slot offs r' x = slot offs r x" by (simp_all add: framed_def slot_def eq)
qed

lemma slot_accessed:
  assumes vm: "spill_vm_ok vm peek" and s: "slots_ok low high offs" "high \<le> 0xFFFFFF" "framed high r" "offs x = Some off"
    and a: "slot_address off = Inr (insts, reg, imm)"
  shows "\<exists>r1. run_line vm insts r m = Some (r1, m) \<and> access_address r1 reg imm = slot offs r x
    \<and> agree (- {scratch} - status) r r1 \<and> unat (r1 stack_start) \<le> slot offs r x \<and> slot offs r x + 8 \<le> unat (r1 stack_end)"
proof -
  have off: "unat off mod 8 = 0" "unat off + 8 \<le> high" using s(1,4) by (auto simp: slots_ok_def)
  then obtain r1 where r1: "run_line vm insts r m = Some (r1, m)" "access_address r1 reg imm = unat (r locals_base) + unat off"
      "agree (- {scratch} - status) r r1"
    using slot_address_runs [OF vm off(1), of r m] s(2,3) a by (auto simp: framed_def access_address_def)
  moreover have "r1 stack_end = r stack_end" "r1 stack_start = r stack_start"
    using r1(3) by (simp_all add: agree_def)
  ultimately show ?thesis using s(3,4) off(2) by (auto simp: framed_def slot_def)
qed

lemma refill_runs:
  assumes "spill_vm_ok vm peek" "slots_ok low high offs" "high \<le> 0xFFFFFF" "framed high r" "refill offs x = Inr b"
  shows "\<exists>r'. run_line vm b r m = Some (r', m) \<and> r' x = peek m (slot offs r x) \<and> agree (- {x} - {scratch} - status) r r'"
proof -
  obtain off insts reg imm where b: "offs x = Some off" "slot_address off = Inr (insts, reg, imm)"
      "b = insts @ [spill_op_of (Memory (memory_op.LW x reg imm)) ''[spill/refill]: refill from spill'']"
    using assms(5) by (auto simp: refill_def bindE_Inr_iff unwrap_or_panic_def vec_push_def split: option.splits)
  obtain r1 where r1: "run_line vm insts r m = Some (r1, m)" "access_address r1 reg imm = slot offs r x"
      "agree (- {scratch} - status) r r1" "slot offs r x + 8 \<le> unat (r1 stack_end)"
    using slot_accessed [OF assms(1-4) b(1,2), of m] by blast
  have "writable x" using assms(2) b(1) by (auto simp: slots_ok_def writable_def)
  with spill_vm_okD(4) [OF assms(1), of x r1 reg imm m] r1
  obtain r2 where r2: "vm (Inl (Memory (memory_op.LW x reg imm))) r1 m = Next r2 m" "r2 x = peek m (slot offs r x)"
      "agree (- {x} - status) r1 r2"
    by auto
  have "agree (- {x} - {scratch} - status) r r2"
    by (rule agree_chain [OF r1(3) r2(3)]) auto
  then show ?thesis using r1(1) r2(1,2) b(3) by (simp add: run_line_append)
qed

lemma store_runs:
  assumes "spill_vm_ok vm peek" "slots_ok low high offs" "high \<le> 0xFFFFFF" "framed high r" "store_spill offs x = Inr b"
  shows "\<exists>r' m'. run_line vm b r m = Some (r', m') \<and> peek m' (slot offs r x) = r x
    \<and> (\<forall>p. p + 8 \<le> slot offs r x \<or> slot offs r x + 8 \<le> p \<longrightarrow> peek m' p = peek m p) \<and> agree (- {scratch} - status) r r'"
proof -
  obtain off insts reg imm where b: "offs x = Some off" "slot_address off = Inr (insts, reg, imm)"
      "b = insts @ [spill_op_of (Memory (memory_op.SW reg x imm)) ''[spill/refill]: spill'']"
    using assms(5) by (auto simp: store_spill_def bindE_Inr_iff unwrap_or_panic_def vec_push_def split: option.splits)
  obtain r1 where r1: "run_line vm insts r m = Some (r1, m)" "access_address r1 reg imm = slot offs r x"
      "agree (- {scratch} - status) r r1" "unat (r1 stack_start) \<le> slot offs r x" "slot offs r x + 8 \<le> unat (r1 stack_end)"
    using slot_accessed [OF assms(1-4) b(1,2), of m] by blast
  from spill_vm_okD(5) [OF assms(1), of r1 reg imm x m] r1
  obtain r2 m2 where r2: "vm (Inl (Memory (memory_op.SW reg x imm))) r1 m = Next r2 m2" "peek m2 (slot offs r x) = r1 x"
      "\<forall>p. p + 8 \<le> slot offs r x \<or> slot offs r x + 8 \<le> p \<longrightarrow> peek m2 p = peek m p" "agree (- status) r1 r2"
    by auto
  have "is_virtual x" using assms(2) b(1) by (auto simp: slots_ok_def)
  then have "r1 x = r x" using r1(3) by (cases x) (simp_all add: agree_def)
  moreover have "agree (- {scratch} - status) r r2"
    by (rule agree_chain [OF r1(3) r2(4)]) auto
  ultimately show ?thesis using r1(1) r2 b(3) by (simp add: run_line_append)
qed

lemma refills_run:
  assumes "spill_vm_ok vm peek" "slots_ok low high offs" "high \<le> 0xFFFFFF" "framed high r"
    and "mapM (refill offs) xs = Inr bs" "distinct xs" "\<forall>x \<in> set xs. is_virtual x"
  shows "\<exists>r'. run_line vm (concat bs) r m = Some (r', m) \<and> (\<forall>x \<in> set xs. r' x = peek m (slot offs r x))
    \<and> agree (- set xs - {scratch} - status) r r'"
  using assms(4-7)
proof (induction xs arbitrary: r bs)
  case (Cons x xs)
  then obtain b bs' where b: "refill offs x = Inr b" "mapM (refill offs) xs = Inr bs'" "bs = b # bs'"
    by (auto simp: bindE_Inr_iff)
  obtain r1 where r1: "run_line vm b r m = Some (r1, m)" "r1 x = peek m (slot offs r x)" "agree (- {x} - {scratch} - status) r r1"
    using refill_runs [OF assms(1-3) Cons.prems(1) b(1)] by blast
  have frame: "framed high r1" "slot offs r1 y = slot offs r y" for y
    using agree_frame(4,5) [of "[x]" r r1] r1(3) Cons.prems by simp_all
  obtain r2 where r2: "run_line vm (concat bs') r1 m = Some (r2, m)" "\<forall>y \<in> set xs. r2 y = peek m (slot offs r1 y)"
      "agree (- set xs - {scratch} - status) r1 r2"
    using Cons.IH [OF frame(1) b(2)] Cons.prems by auto
  have "x \<in> - set xs - {scratch} - status" using Cons.prems(3,4) by (cases x) auto
  then have "r2 x = r1 x" using r2(3) by (simp add: agree_def)
  moreover have "agree (- set (x # xs) - {scratch} - status) r r2" by (rule agree_chain [OF r1(3) r2(3)]) auto
  ultimately show ?case using r1 r2 frame Cons.prems b(3) by (auto simp: run_line_append)
qed simp

lemma stores_run:
  assumes "spill_vm_ok vm peek" "slots_ok low high offs" "high \<le> 0xFFFFFF" "framed high r"
    and "mapM (store_spill offs) xs = Inr bs" "distinct xs" "set xs \<subseteq> dom offs"
  shows "\<exists>r' m'. run_line vm (concat bs) r m = Some (r', m') \<and> (\<forall>x \<in> set xs. peek m' (slot offs r x) = r x)
    \<and> (\<forall>p. (\<forall>x \<in> set xs. p + 8 \<le> slot offs r x \<or> slot offs r x + 8 \<le> p) \<longrightarrow> peek m' p = peek m p)
    \<and> agree (- {scratch} - status) r r'"
  using assms(4-7)
proof (induction xs arbitrary: r m bs)
  case (Cons x xs)
  then obtain b bs' where b: "store_spill offs x = Inr b" "mapM (store_spill offs) xs = Inr bs'" "bs = b # bs'"
    by (auto simp: bindE_Inr_iff)
  obtain r1 m1 where r1: "run_line vm b r m = Some (r1, m1)" "peek m1 (slot offs r x) = r x"
      "\<forall>p. p + 8 \<le> slot offs r x \<or> slot offs r x + 8 \<le> p \<longrightarrow> peek m1 p = peek m p" "agree (- {scratch} - status) r r1"
    using store_runs [OF assms(1-3) Cons.prems(1) b(1)] by blast
  have frame: "framed high r1" "slot offs r1 y = slot offs r y" for y
    using Cons.prems(1) r1(4) by (simp_all add: framed_def slot_def agree_def)
  obtain r2 m2 where r2: "run_line vm (concat bs') r1 m1 = Some (r2, m2)" "\<forall>y \<in> set xs. peek m2 (slot offs r y) = r1 y"
      "\<forall>p. (\<forall>y \<in> set xs. p + 8 \<le> slot offs r y \<or> slot offs r y + 8 \<le> p) \<longrightarrow> peek m2 p = peek m1 p"
      "agree (- {scratch} - status) r1 r2"
    using Cons.IH [OF frame(1) b(2), of m1] Cons.prems frame(2) by auto
  have "r1 y = r y" if "y \<in> set xs" for y
  proof -
    have "is_virtual y" using that Cons.prems(4) assms(2) by (auto simp: slots_ok_def)
    then show ?thesis using r1(4) by (cases y) (simp_all add: agree_def)
  qed
  moreover have "slot offs r x + 8 \<le> slot offs r y \<or> slot offs r y + 8 \<le> slot offs r x" if y: "y \<in> set xs" for y
  proof -
    have "x \<noteq> y" using y Cons.prems(3) by auto
    moreover obtain ox oy where "offs x = Some ox" "offs y = Some oy" using y Cons.prems(4) by fastforce
    ultimately show ?thesis using assms(2) unfolding slots_ok_def slot_def by fastforce
  qed
  moreover have "agree (- {scratch} - status) r r2" using r1(4) r2(4) by (rule agree_trans)
  ultimately show ?case using r1 r2 b(3) by (auto simp: run_line_append)
qed simp

section \<open>Spilled code\<close>

text \<open>
  In a frame of \<open>high\<close> bytes: instructions that fill the registers \<open>xs\<close> from their slots and change
  nothing else, and instructions that store them there and change nothing else.
\<close>

definition loads_slots ::
  "('m, 'r) machine \<Rightarrow> ('m \<Rightarrow> nat \<Rightarrow> u64) \<Rightarrow> nat \<Rightarrow> (virtual_register \<rightharpoonup> u32) \<Rightarrow> virtual_register set \<Rightarrow> op list \<Rightarrow> bool" where
  "loads_slots vm peek high offs xs code \<longleftrightarrow> (\<forall>r m. framed high r \<longrightarrow>
     (\<exists>r'. run_line vm code r m = Some (r', m) \<and> (\<forall>x \<in> xs. r' x = peek m (slot offs r x))
        \<and> agree (- xs - {scratch} - status) r r'))"

definition stores_slots ::
  "('m, 'r) machine \<Rightarrow> ('m \<Rightarrow> nat \<Rightarrow> u64) \<Rightarrow> nat \<Rightarrow> (virtual_register \<rightharpoonup> u32) \<Rightarrow> virtual_register set \<Rightarrow> op list \<Rightarrow> bool" where
  "stores_slots vm peek high offs xs code \<longleftrightarrow> (\<forall>r m. framed high r \<longrightarrow>
     (\<exists>r' m'. run_line vm code r m = Some (r', m') \<and> (\<forall>x \<in> xs. peek m' (slot offs r x) = r x)
        \<and> (\<forall>p. (\<forall>x \<in> xs. p + 8 \<le> slot offs r x \<or> slot offs r x + 8 \<le> p) \<longrightarrow> peek m' p = peek m p)
        \<and> agree (- {scratch} - status) r r'))"

text \<open>What stands in the spilled code for an instruction.\<close>

definition spilled_as ::
  "('m, 'r) machine \<Rightarrow> ('m \<Rightarrow> nat \<Rightarrow> u64) \<Rightarrow> virtual_register set \<Rightarrow> (virtual_register \<rightharpoonup> u32) \<Rightarrow> u32 \<Rightarrow> op \<Rightarrow> op list \<Rightarrow> bool" where
  "spilled_as vm peek sp offs new o' code \<longleftrightarrow>
     (if is_cfei o' then map opcode code = [Inl (Memory (memory_op.CFEI (Constant StackPointer) \<lparr>value24 = new\<rparr>))]
      else if is_cfsi o' then map opcode code = [Inl (Memory (memory_op.CFSI (Constant StackPointer) \<lparr>value24 = new\<rparr>))]
      else \<exists>pre post. code = pre @ [o'] @ post
        \<and> loads_slots vm peek (unat new) offs (set (op_use_registers o') \<inter> sp) pre
        \<and> stores_slots vm peek (unat new) offs (set (op_def_registers o') \<inter> sp) post)"

lemma spill_parts:
  assumes "spill ho ops sp = Inr ops'" "hash_order_ok ho" "distinct sp" "\<forall>x \<in> set sp. is_virtual x" "frame_ok bytes ops"
    and "bytes + 7 + 8 * length sp \<le> 0xFFFFFF"
  obtains cfe cfs sz low offs new blocks ss where "cfe < length ops" "is_cfei (ops ! cfe)" "frame_at is_cfsi ops cfs"
    "frame_size (ops ! cfe) = Inr sz" "unat sz \<le> low \<and> low < unat sz + 8 \<and> low mod 8 = 0" "unat new = low + 8 * length sp" "unat new \<le> 0xFFFFFF"
    "dom offs = set sp" "slots_ok low (unat new) offs" "ops' = concat blocks"
    "mapM (spill_one sp offs cfe cfs new ss) (enumerate 0 ops) = Inr blocks"
proof -
  obtain cfe cfs sz where fr: "find_frame ops = Inr (Some cfe, cfs)" "cfe < length ops" "is_cfei (ops ! cfe)"
      "frame_at is_cfsi ops cfs" "frame_size (ops ! cfe) = Inr sz" "unat sz \<le> bytes"
    using frame_ok_find [OF assms(5)] by blast
  obtain sz8 where sz8: "round_up_to_word_alignment sz = Inr sz8" "unat sz8 mod 8 = 0" "unat sz \<le> unat sz8" "unat sz8 \<le> unat sz + 7"
    using round_up_ok [of sz] fr(6) assms(6) by auto
  note ho = hash_order_distinct [OF assms(2,3)]
  have bound: "unat sz8 + 8 * length sp \<le> 0xFFFFFF" using sz8(4) fr(6) assms(6) by simp
  obtain offs where offs: "spill_offsets sz8 (reg_order ho sp) = Inr offs" "dom offs = set sp"
      "\<forall>i < length sp. \<exists>off. offs (reg_order ho sp ! i) = Some off \<and> unat off = unat sz8 + 8 * i"
    using spill_offsets_ok [OF ho(1), of sz8] ho(2,3) bound by auto
  have at: "\<exists>i < length sp. reg_order ho sp ! i = x \<and> unat off = unat sz8 + 8 * i" if x: "offs x = Some off" for x off
  proof -
    have "x \<in> set (reg_order ho sp)" using x offs(2) ho(2) by auto
    then obtain i where "i < length sp" "reg_order ho sp ! i = x" using ho(3) by (auto simp: in_set_conv_nth)
    then show ?thesis using offs(3) x by auto
  qed
  have "unat o1 + 8 \<le> unat o2 \<or> unat o2 + 8 \<le> unat o1" if xy: "offs x = Some o1" "offs y = Some o2" "x \<noteq> y" for x y o1 o2
  proof -
    obtain i j where "unat o1 = unat sz8 + 8 * i" "unat o2 = unat sz8 + 8 * j" "i \<noteq> j" using at [OF xy(1)] at [OF xy(2)] xy(3) by auto
    then show ?thesis by presburger
  qed
  moreover have "is_virtual x \<and> unat off mod 8 = 0 \<and> unat sz8 \<le> unat off \<and> unat off + 8 \<le> unat sz8 + 8 * length sp"
    if x: "offs x = Some off" for x off
  proof -
    have "is_virtual x" using x offs(2) assms(4) by auto
    then show ?thesis using at [OF x] sz8(2) by auto
  qed
  ultimately have apart: "slots_ok (unat sz8) (unat sz8 + 8 * length sp) offs" unfolding slots_ok_def by blast
  let ?ss = "of_nat (8 * length sp) :: u32"
  have "unat ?ss = 8 * length sp" using bound by (intro unat_of_nat_u32) simp
  then have new: "add_u32 sz8 ?ss = Inr (sz8 + ?ss)" "unat (sz8 + ?ss) = unat sz8 + 8 * length sp"
    using add_u32_ok [of sz8 ?ss] bound by simp_all
  obtain blocks where "mapM (spill_one sp offs cfe cfs (sz8 + ?ss) ?ss) (enumerate 0 ops) = Inr blocks" "ops' = concat blocks"
    using assms(1) fr(1,5) sz8(1) offs(1) new(1)
    by (auto simp: spill_def unwrap_or_panic_def Let_def bindE_Inr_iff split: if_splits)
  then show ?thesis
    using that [OF fr(2-5) _ new(2) _ offs(2), where blocks = blocks and ss = ?ss] apart bound new(2) sz8(2-4) by simp
qed

lemma spill_one_as:
  assumes vm: "spill_vm_ok vm peek" and s: "slots_ok low (unat new) offs" "unat new \<le> 0xFFFFFF" "dom offs = set sp"
    and one: "spill_one sp offs cfe cfs new ss (i, o') = Inr b"
    and frame: "i = cfe \<longleftrightarrow> is_cfei o'" "cfs = Some i \<longleftrightarrow> is_cfsi o'"
  shows "spilled_as vm peek (set sp) offs new o' b"
proof -
  have imm: "imm24_new_unchecked (ucast new) msg = Inr \<lparr>value24 = new\<rparr>" for msg
    using unat_less_u32 [of new] by (simp add: unchecked_ok unat_ucast_u32 ucast_u32_u64)
  show ?thesis
  proof (cases "is_cfei o' \<or> is_cfsi o'")
    case True
    then consider "is_cfei o'" "i = cfe" | "\<not> is_cfei o'" "is_cfsi o'" "i \<noteq> cfe" "cfs = Some i" using frame by blast
    then show ?thesis
    proof cases
      case 1
      then show ?thesis using one by (simp add: spill_one_def spilled_as_def imm) (metis list.simps(8,9) op.select_convs(1))
    next
      case 2
      then show ?thesis using one by (simp add: spill_one_def spilled_as_def imm) (metis list.simps(8,9) op.select_convs(1))
    qed
  next
    case False
    let ?use = "filter (\<lambda>x. x \<in> set sp) (op_use_registers o')" and ?def = "filter (\<lambda>x. x \<in> set sp) (op_def_registers o')"
    obtain refills stores where b: "mapM (refill offs) ?use = Inr refills" "mapM (store_spill offs) ?def = Inr stores"
        "b = concat refills @ [o'] @ concat stores"
      using one frame False by (auto simp: spill_one_def bindE_Inr_iff)
    have regs: "set ?use = set (op_use_registers o') \<inter> set sp" "set ?def = set (op_def_registers o') \<inter> set sp" by auto
    have "set ?use \<subseteq> dom offs" using s(3) by auto
    then have "\<forall>x \<in> set ?use. is_virtual x" using s(1) unfolding slots_ok_def by blast
    then have "loads_slots vm peek (unat new) offs (set ?use) (concat refills)"
      using refills_run [OF vm s(1,2) _ b(1)] distinct_op_registers(1) unfolding loads_slots_def by simp
    moreover have "set ?def \<subseteq> dom offs" using s(3) by auto
    then have "stores_slots vm peek (unat new) offs (set ?def) (concat stores)"
      using stores_run [OF vm s(1,2) _ b(2)] distinct_op_registers(2) unfolding stores_slots_def by simp
    ultimately show ?thesis using False b(3) unfolding spilled_as_def regs by auto
  qed
qed

lemma frame_size_other: "\<not> is_cfei o' \<Longrightarrow> frame_size o' = Inl (Panic ''Unexpected opcode'')"
  unfolding frame_size_def is_cfei_def by (simp split: sum.splits virtual_op.splits memory_op.splits)

lemma frame_positions:
  assumes "frame_ok bytes ops" "cfe < length ops" "is_cfei (ops ! cfe)" "frame_at is_cfsi ops cfs" "i < length ops"
  shows "i = cfe \<longleftrightarrow> is_cfei (ops ! i)" "cfs = Some i \<longleftrightarrow> is_cfsi (ops ! i)"
proof -
  have one: "length (filter is_cfei ops) \<le> 1" "length (filter is_cfsi ops) \<le> 1"
    using assms(1) by (auto simp: frame_ok_def dest: arg_cong [of _ _ length])
  show "i = cfe \<longleftrightarrow> is_cfei (ops ! i)" using filter_at_most_one [OF one(1) assms(5) _ assms(2,3)] assms(3) by blast
  show "cfs = Some i \<longleftrightarrow> is_cfsi (ops ! i)"
    using filter_at_most_one [OF one(2) assms(5)] assms(4,5)
    by (cases cfs) (auto simp: frame_at_def filter_empty_conv)
qed

lemma spill_as:
  assumes "spill_vm_ok vm peek" "hash_order_ok ho" "distinct sp" "\<forall>x \<in> set sp. is_virtual x" "frame_ok bytes ops"
    and "bytes + 7 + 8 * length sp \<le> 0xFFFFFF" "spill ho ops sp = Inr ops'"
  shows "\<exists>blocks offs low new. ops' = concat blocks \<and> length blocks = length ops
    \<and> dom offs = set sp \<and> slots_ok low (unat new) offs \<and> unat new = low + 8 * length sp
    \<and> (\<forall>o' \<in> set ops. \<forall>n. frame_size o' = Inr n \<longrightarrow> unat n \<le> low \<and> low < unat n + 8 \<and> low mod 8 = 0)
    \<and> (\<forall>i < length ops. spilled_as vm peek (set sp) offs new (ops ! i) (blocks ! i))"
proof -
  obtain cfe cfs sz low offs new blocks ss where p: "cfe < length ops" "is_cfei (ops ! cfe)" "frame_at is_cfsi ops cfs"
      "frame_size (ops ! cfe) = Inr sz" "unat sz \<le> low \<and> low < unat sz + 8 \<and> low mod 8 = 0" "unat new = low + 8 * length sp" "unat new \<le> 0xFFFFFF"
      "dom offs = set sp" "slots_ok low (unat new) offs" "ops' = concat blocks"
      "mapM (spill_one sp offs cfe cfs new ss) (enumerate 0 ops) = Inr blocks"
    by (rule spill_parts [OF assms(7,2-6)])
  note at = frame_positions [OF assms(5) p(1-3)]
  have "list_all2 (\<lambda>x b. spill_one sp offs cfe cfs new ss x = Inr b) (enumerate 0 ops) blocks" using p(11) by (simp add: mapM_Inr_iff)
  then have len: "length blocks = length ops"
    and nth: "\<And>i. i < length ops \<Longrightarrow> spill_one sp offs cfe cfs new ss (i, ops ! i) = Inr (blocks ! i)"
    by (auto simp: list_all2_conv_all_nth nth_enumerate_eq)
  have "unat n \<le> low \<and> low < unat n + 8 \<and> low mod 8 = 0" if o: "o' \<in> set ops" "frame_size o' = Inr n" for o' n
  proof -
    obtain i where i: "i < length ops" "o' = ops ! i" using o(1) by (metis in_set_conv_nth)
    have "is_cfei o'" using o(2) frame_size_other by force
    then have "i = cfe" using at(1) i by simp
    then show ?thesis using o(2) i(2) p(4,5) by simp
  qed
  moreover have "spilled_as vm peek (set sp) offs new (ops ! i) (blocks ! i)" if "i < length ops" for i
    using spill_one_as [OF assms(1) p(9,7,8) nth [OF that] at [OF that]] .
  ultimately show ?thesis using p(6,8-10) len by blast
qed

section \<open>Properties\<close>

text \<open>
  (C19) Spilling keeps values in memory. For code with one stack extension, at most one stack shrink,
  resolved jumps and a frame that with the slots fits in 24 bits, spilling virtual registers does
  not panic, and the result replaces each instruction by a block of instructions. The stack
  extension and the shrink get the size of the locals, rounded up to words, plus eight bytes per spilled
  register, and the slots are disjoint aligned words between the two. Any other instruction stays, between
  instructions that fill exactly the spilled registers it reads from their slots and instructions
  that store exactly the spilled registers it writes to their slots: run in such a frame, the
  first change no memory and no other register but the scratch register and the status
  registers of the machine, the second no word outside these slots and no register but those. Every
  jump still has its label, and there is still one stack extension.
\<close>

theorem spill_keeps_values:
  assumes "spill_vm_ok vm peek" "hash_order_ok ho" "distinct sp" "\<forall>x \<in> set sp. is_virtual x" "frame_ok bytes ops"
    and "bytes + 7 + 8 * length sp \<le> 0xFFFFFF" "jumps_ok ops" "\<forall>o' \<in> set ops. wf_op o'"
  shows "\<exists>blocks offs low new. spill ho ops sp = Inr (concat blocks) \<and> length blocks = length ops
    \<and> dom offs = set sp \<and> slots_ok low (unat new) offs \<and> unat new = low + 8 * length sp
    \<and> (\<forall>o' \<in> set ops. \<forall>n. frame_size o' = Inr n \<longrightarrow> unat n \<le> low \<and> low < unat n + 8 \<and> low mod 8 = 0)
    \<and> (\<forall>i < length ops. spilled_as vm peek (set sp) offs new (ops ! i) (blocks ! i))
    \<and> jumps_ok (concat blocks) \<and> frame_ok (bytes + 7 + 8 * length sp) (concat blocks)"
proof -
  have "finite (all_registers ops \<union> {scratch, locals_base, Constant StackPointer})" by (simp add: all_registers_def)
  from spill_ok [OF assms(2,3,5-8) this] obtain ops' where ops': "spill ho ops sp = Inr ops'" "jumps_ok ops'"
      "frame_ok (bytes + 7 + 8 * length sp) ops'"
    by auto
  from spill_as [OF assms(1-6) ops'(1)] ops' show ?thesis by metis
qed

text \<open>
  (C20) The address code is right: for every offset that is a multiple of eight and below two to
  the 24, the instructions that prepare the address run without a panic, and their register and
  the word offset of the load or store together denote the base of the locals plus the offset.
  They change no memory and no register but the scratch register, the program counter, the gas
  counters and the flags, and the word offset fits in the 12 bits of its immediate.
\<close>

theorem slot_address_correct:
  assumes vm: "spill_vm_ok vm peek" and "unat off mod 8 = 0" "unat off \<le> 0xFFFFFF"
    and base: "unat (r locals_base) + 0x1000000 < 2 ^ 64"
  shows "\<exists>insts reg imm r'. slot_address off = Inr (insts, reg, imm) \<and> run_line vm insts r m = Some (r', m)
    \<and> unat (r' reg) + 8 * unat (value12 imm) = unat (r locals_base) + unat off
    \<and> agree (- {scratch} - status) r r' \<and> unat (value12 imm) < 2 ^ 12"
  using assms by (rule slot_address_runs)

section \<open>Witnesses\<close>

text \<open>A machine with a memory of words, and flags that are cleared.\<close>

definition word_alu :: "virtual_register alu_op \<Rightarrow> regs \<Rightarrow> regs" where
  "word_alu a r = (case a of
       MOVI d i \<Rightarrow> r(d := ucast (value18 i))
     | SLLI d b i \<Rightarrow> r(d := push_bit (unat (value12 i)) (r b))
     | ADD d b c \<Rightarrow> r(d := r b + r c)
     | _ \<Rightarrow> r)(Constant Overflow := 0, Constant Error := 0)"

definition word_vm :: "(nat \<Rightarrow> u64, unit) machine" where
  "word_vm oc r m = (case oc of
       Inl (Alu a) \<Rightarrow> Next (word_alu a r) m
     | Inl (Memory (memory_op.LW a b i)) \<Rightarrow> Next (r(a := m (access_address r b i))) m
     | Inl (Memory (memory_op.SW b a i)) \<Rightarrow> Next r (m(access_address r b i := r a))
     | _ \<Rightarrow> Next r m)"

lemma word_vm_ok: "spill_vm_ok word_vm (\<lambda>m. m)"
  unfolding spill_vm_ok_def
  by (intro conjI) (auto simp: word_vm_def word_alu_def agree_def status_def flags_def writable_def)

theorem spill_keeps_values_witness:
  "\<exists>blocks offs low new. spill insertion_order frame_sample [Virtual ''1''] = Inr (concat blocks)
    \<and> length blocks = length frame_sample \<and> dom offs = {Virtual ''1''} \<and> slots_ok low (unat new) offs
    \<and> (\<forall>i < length frame_sample. spilled_as word_vm (\<lambda>m. m) {Virtual ''1''} offs new (frame_sample ! i) (blocks ! i))"
proof -
  have "frame_ok 16 frame_sample" "jumps_ok frame_sample" "\<forall>o' \<in> set frame_sample. wf_op o'"
    using frame_sample_allocatable by (simp_all add: allocatable_def)
  from spill_keeps_values [OF word_vm_ok insertion_order_ok _ _ this(1) _ this(2,3), of "[Virtual ''1'']"]
  show ?thesis by (simp, metis)
qed

theorem slot_address_correct_witness:
  "\<exists>insts reg imm r'. slot_address 0x50008 = Inr (insts, reg, imm)
    \<and> run_line word_vm insts (\<lambda>_. 100) (\<lambda>_. 0) = Some (r', \<lambda>_. 0)
    \<and> unat (r' reg) + 8 * unat (value12 imm) = unat (100 :: u64) + unat (0x50008 :: u32)"
  using slot_address_correct [OF word_vm_ok, of "0x50008" "\<lambda>_. 100" "\<lambda>_. 0"] by auto

end
