(* ===== verification/Ir_Types.thy ===== *)
theory Ir_Types
  imports Sway_Arith
begin

text \<open>
  Types of the intermediate representation (\<^verbatim>\<open>sway-ir/src/irtype.rs\<close>): their contents, the
  comparison of types, and the memory layout: sizes and the offsets of the parts of aggregates.
  The types of a context are hash-consed, so a type is modelled by the tree of its contents and
  \<^verbatim>\<open>get_content\<close> is the identity. Sizes are 64-bit words; checked arithmetic panics.
\<close>

section \<open>Types\<close>

datatype ir_type =
    Never
  | Unit
  | Bool
  | Uint u16
  | B256
  | StringSlice
  | StringArray u64
  | Array ir_type u64
  | Union "ir_type list"
  | Struct "ir_type list"
  | Slice
  | Pointer ir_type
  | TypedSlice ir_type

definition is_never :: "ir_type \<Rightarrow> bool" where
  "is_never ty \<longleftrightarrow> (case ty of Never \<Rightarrow> True | _ \<Rightarrow> False)"

definition is_uint :: "ir_type \<Rightarrow> bool" where
  "is_uint ty \<longleftrightarrow> (case ty of Uint _ \<Rightarrow> True | _ \<Rightarrow> False)"

definition is_uint8 :: "ir_type \<Rightarrow> bool" where
  "is_uint8 ty \<longleftrightarrow> (case ty of Uint w \<Rightarrow> w = 8 | _ \<Rightarrow> False)"

definition is_array :: "ir_type \<Rightarrow> bool" where
  "is_array ty \<longleftrightarrow> (case ty of Array _ _ \<Rightarrow> True | _ \<Rightarrow> False)"

definition is_union :: "ir_type \<Rightarrow> bool" where
  "is_union ty \<longleftrightarrow> (case ty of Union _ \<Rightarrow> True | _ \<Rightarrow> False)"

definition is_struct :: "ir_type \<Rightarrow> bool" where
  "is_struct ty \<longleftrightarrow> (case ty of Struct _ \<Rightarrow> True | _ \<Rightarrow> False)"

definition get_field_types :: "ir_type \<Rightarrow> ir_type list" where
  "get_field_types ty = (case ty of Struct fields \<Rightarrow> fields | Union fields \<Rightarrow> fields | _ \<Rightarrow> [])"

definition is_enum :: "ir_type \<Rightarrow> bool" where
  "is_enum ty \<longleftrightarrow>
     is_struct ty \<and>
     (let field_tys = get_field_types ty
      in length field_tys = 2 \<and> is_uint (field_tys ! 0) \<and> is_union (field_tys ! 1))"

definition is_aggregate :: "ir_type \<Rightarrow> bool" where
  "is_aggregate ty \<longleftrightarrow> is_struct ty \<or> is_union ty \<or> is_array ty"

definition get_field_type :: "ir_type \<Rightarrow> u64 \<Rightarrow> ir_type option" where
  "get_field_type ty idx =
     (case ty of
        Struct fields \<Rightarrow> if unat idx < length fields then Some (fields ! unat idx) else None
      | Union fields \<Rightarrow> if unat idx < length fields then Some (fields ! unat idx) else None
      | _ \<Rightarrow> None)"

definition get_array_elem_type :: "ir_type \<Rightarrow> ir_type option" where
  "get_array_elem_type ty = (case ty of Array el _ \<Rightarrow> Some el | _ \<Rightarrow> None)"

definition get_array_len :: "ir_type \<Rightarrow> u64 option" where
  "get_array_len ty = (case ty of Array _ n \<Rightarrow> Some n | _ \<Rightarrow> None)"

lemma size_elem_less: "x \<in> set xs \<Longrightarrow> size x < Suc (size_list size xs)"
  by (induction xs) auto

lemma size_zip_member:
  "(a, b) \<in> set (zip xs ys) \<Longrightarrow> size a + size b < Suc (Suc (size_list size xs + size_list size ys))"
  using size_elem_less [of a xs] size_elem_less [of b ys] by (fastforce dest: set_zip_leftD set_zip_rightD)

text \<open>
  The comparison: a union is equivalent to each of its variants, and the type of an expression
  that does not return to every other type. The swapped call of the union case compares a
  union with a type that is none.
\<close>

function type_eq :: "ir_type \<Rightarrow> ir_type \<Rightarrow> bool" where
  "type_eq self other =
     (case (self, other) of
        (Unit, Unit) \<Rightarrow> True
      | (Bool, Bool) \<Rightarrow> True
      | (Uint l, Uint r) \<Rightarrow> l = r
      | (B256, B256) \<Rightarrow> True
      | (StringSlice, StringSlice) \<Rightarrow> True
      | (StringArray l, StringArray r) \<Rightarrow> l = r
      | (Array l llen, Array r rlen) \<Rightarrow> llen = rlen \<and> type_eq l r
      | (TypedSlice l, TypedSlice r) \<Rightarrow> type_eq l r
      | (Struct l, Struct r) \<Rightarrow> length l = length r \<and> list_all (\<lambda>(x, y). type_eq x y) (zip l r)
      | (Union l, Union r) \<Rightarrow> length l = length r \<and> list_all (\<lambda>(x, y). type_eq x y) (zip l r)
      | (_, Union _) \<Rightarrow> type_eq other self
      | (Union l, _) \<Rightarrow> list_ex (\<lambda>field_ty. type_eq other field_ty) l
      | (Never, _) \<Rightarrow> True
      | (Slice, Slice) \<Rightarrow> True
      | (Pointer l, Pointer r) \<Rightarrow> type_eq l r
      | _ \<Rightarrow> False)"
  by pat_completeness auto

termination
proof (relation "measures [\<lambda>(l, r). size l + size r, \<lambda>(l, r). if is_union r then 1 else 0]", goal_cases)
  case 1
  then show ?case by simp
qed (auto simp: is_union_def dest: size_zip_member size_elem_less [where ?'a = ir_type])

declare type_eq.simps [simp del]

section \<open>Sizes\<close>

record type_size =
  size_in_bytes :: u64

definition type_size_new :: "u64 \<Rightarrow> type_size" where
  "type_size_new n = \<lparr>size_in_bytes = n\<rparr>"

definition in_bytes :: "type_size \<Rightarrow> u64" where
  "in_bytes s = size_in_bytes s"

definition round_up_u64 :: "u64 \<Rightarrow> u64 result" where
  "round_up_u64 n = bindE (add_u64 n 7) (\<lambda>m. Inr (m - m mod 8))"

definition in_bytes_aligned :: "type_size \<Rightarrow> u64 result" where
  "in_bytes_aligned s = round_up_u64 (size_in_bytes s)"

definition in_words :: "type_size \<Rightarrow> u64 result" where
  "in_words s = bindE (add_u64 (size_in_bytes s) 7) (\<lambda>m. Inr (m div 8))"

fun ty_size :: "ir_type \<Rightarrow> type_size result" where
  "ty_size (Uint w) =
     (if w = 8 then Inr (type_size_new 1)
      else if w = 16 \<or> w = 32 \<or> w = 64 then Inr (type_size_new 8)
      else if w = 256 then Inr (type_size_new 32)
      else Inl (Panic ''internal error: entered unreachable code''))"
| "ty_size Bool = Inr (type_size_new 1)"
| "ty_size Unit = Inr (type_size_new 1)"
| "ty_size Never = Inr (type_size_new 1)"
| "ty_size (Pointer _) = Inr (type_size_new 8)"
| "ty_size Slice = Inr (type_size_new 16)"
| "ty_size (TypedSlice _) = Inr (type_size_new 16)"
| "ty_size B256 = Inr (type_size_new 32)"
| "ty_size StringSlice = Inr (type_size_new 16)"
| "ty_size (StringArray n) = bindE (round_up_u64 n) (\<lambda>m. Inr (type_size_new m))"
| "ty_size (Array el_ty cnt) =
     bindE (ty_size el_ty) (\<lambda>s. bindE (mul_u64 cnt (in_bytes s)) (\<lambda>n. Inr (type_size_new n)))"
| "ty_size (Struct field_tys) =
     bindE (foldM (\<lambda>field_ty acc.
         bindE (ty_size field_ty) (\<lambda>s. bindE (in_bytes_aligned s) (\<lambda>n. add_u64 acc n))) field_tys 0)
       (\<lambda>n. Inr (type_size_new n))"
| "ty_size (Union field_tys) =
     bindE (foldM (\<lambda>field_ty acc.
         bindE (ty_size field_ty) (\<lambda>s. bindE (in_bytes_aligned s) (\<lambda>n. Inr (max acc n)))) field_tys 0)
       (\<lambda>n. Inr (type_size_new n))"

section \<open>Indexing\<close>

fun get_indexed_type_from :: "ir_type \<Rightarrow> u64 list \<Rightarrow> ir_type option" where
  "get_indexed_type_from ty [] = Some ty"
| "get_indexed_type_from ty (idx # indices) =
     (case get_field_type ty idx of
        Some ty' \<Rightarrow> get_indexed_type_from ty' indices
      | None \<Rightarrow>
          (case ty of
             Array el len \<Rightarrow> if idx < len then get_indexed_type_from el indices else None
           | _ \<Rightarrow> None))"

definition get_indexed_type :: "ir_type \<Rightarrow> u64 list \<Rightarrow> ir_type option" where
  "get_indexed_type ty indices = (if indices = [] then None else get_indexed_type_from ty indices)"

text \<open>The sum of the sizes of the fields before the indexed one.\<close>

definition prev_idxs_offset :: "ir_type list \<Rightarrow> u64 \<Rightarrow> u64 result" where
  "prev_idxs_offset field_tys idx =
     foldM (\<lambda>field_ty accum. bindE (ty_size field_ty) (\<lambda>s. bindE (in_bytes_aligned s) (\<lambda>n. add_u64 accum n)))
       (take (unat idx) field_tys) 0"

definition indexed_step :: "ir_type \<Rightarrow> u64 \<Rightarrow> u64 \<Rightarrow> (ir_type \<times> u64) option result" where
  "indexed_step ty accum_offset idx =
     (if is_struct ty then
        bindE (prev_idxs_offset (get_field_types ty) idx) (\<lambda>prev.
        case get_field_type ty idx of
          None \<Rightarrow> Inr None
        | Some field_ty \<Rightarrow> bindE (add_u64 accum_offset prev) (\<lambda>off. Inr (Some (field_ty, off))))
      else if is_union ty then
        bindE (ty_size ty) (\<lambda>us.
        case get_field_type ty idx of
          None \<Rightarrow> Inr None
        | Some field_ty \<Rightarrow>
            bindE (ty_size field_ty) (\<lambda>fs.
            bindE (sub_u64 (in_bytes us) (in_bytes fs)) (\<lambda>pad.
            bindE (add_u64 accum_offset pad) (\<lambda>off. Inr (Some (field_ty, off))))))
      else
        (case get_array_elem_type ty of
           None \<Rightarrow> Inl (Panic ''Expected aggregate type.'')
         | Some elm_ty \<Rightarrow>
             bindE (ty_size elm_ty) (\<lambda>s.
             bindE (mul_u64 (in_bytes s) idx) (\<lambda>prev.
             bindE (add_u64 accum_offset prev) (\<lambda>off. Inr (Some (elm_ty, off)))))))"

fun get_indexed_offset_from :: "ir_type \<Rightarrow> u64 \<Rightarrow> u64 list \<Rightarrow> u64 option result" where
  "get_indexed_offset_from ty accum_offset [] = Inr (Some accum_offset)"
| "get_indexed_offset_from ty accum_offset (idx # indices) =
     bindE (indexed_step ty accum_offset idx) (\<lambda>r.
     case r of
       None \<Rightarrow> Inr None
     | Some (ty', off) \<Rightarrow> get_indexed_offset_from ty' off indices)"

definition get_indexed_offset :: "ir_type \<Rightarrow> u64 list \<Rightarrow> u64 option result" where
  "get_indexed_offset ty indices = get_indexed_offset_from ty 0 indices"

definition get_struct_field_offset_and_type :: "ir_type \<Rightarrow> u64 \<Rightarrow> (u64 \<times> ir_type) option result" where
  "get_struct_field_offset_and_type ty field_idx =
     (if \<not> is_struct ty then Inr None
      else
        bindE (prev_idxs_offset (get_field_types ty) field_idx) (\<lambda>offs.
        if unat field_idx < length (get_field_types ty) then Inr (Some (offs, get_field_types ty ! unat field_idx))
        else Inl (Panic ''index out of bounds'')))"

definition get_union_field_offset_and_type :: "ir_type \<Rightarrow> u64 \<Rightarrow> (u64 \<times> ir_type) option result" where
  "get_union_field_offset_and_type ty field_idx =
     (if \<not> is_union ty then Inr None
      else if \<not> unat field_idx < length (get_field_types ty) then Inl (Panic ''index out of bounds'')
      else
        let field_type = get_field_types ty ! unat field_idx in
        bindE (ty_size ty) (\<lambda>us.
        bindE (ty_size field_type) (\<lambda>fs.
        bindE (sub_u64 (in_bytes us) (in_bytes fs)) (\<lambda>off. Inr (Some (off, field_type))))))"

section \<open>Sizes as numbers\<close>

text \<open>The size of a type, without bounds; what the 64-bit computation yields when it does not overflow.\<close>

definition align8 :: "nat \<Rightarrow> nat" where
  "align8 n = 8 * ((n + 7) div 8)"

fun bytes_of :: "ir_type \<Rightarrow> nat" where
  "bytes_of (Uint w) = (if w = 8 then 1 else if w = 256 then 32 else 8)"
| "bytes_of Bool = 1"
| "bytes_of Unit = 1"
| "bytes_of Never = 1"
| "bytes_of (Pointer _) = 8"
| "bytes_of Slice = 16"
| "bytes_of (TypedSlice _) = 16"
| "bytes_of B256 = 32"
| "bytes_of StringSlice = 16"
| "bytes_of (StringArray n) = align8 (unat n)"
| "bytes_of (Array t n) = unat n * bytes_of t"
| "bytes_of (Struct ts) = sum_list (map (\<lambda>t. align8 (bytes_of t)) ts)"
| "bytes_of (Union ts) = Max (insert 0 (set (map (\<lambda>t. align8 (bytes_of t)) ts)))"

lemma align8_mod [simp]: "align8 n mod 8 = 0"
  by (simp add: align8_def)

lemma align8_ge: "n \<le> align8 n" "align8 n < n + 8"
  unfolding align8_def by presburger+

lemma align8_id [simp]: "n mod 8 = 0 \<Longrightarrow> align8 n = n"
  unfolding align8_def by presburger

lemma align8_mono: "m \<le> n \<Longrightarrow> align8 m \<le> align8 n"
  unfolding align8_def by (intro mult_le_mono2 div_le_mono) simp

lemma align8_add: "m mod 8 = 0 \<Longrightarrow> align8 (m + n) = m + align8 n"
  unfolding align8_def by presburger

lemma align8_sub: "n + 7 - (n + 7) mod 8 = align8 n"
  unfolding align8_def by presburger

lemma round_up_iff:
  "round_up_u64 n = Inr m \<longleftrightarrow> unat n + 7 < 18446744073709551616 \<and> m = n + 7 - (n + 7) mod 8"
  by (auto simp: round_up_u64_def bindE_Inr_iff add_u64_iff)

lemma unat_round_up:
  assumes "unat (n :: u64) + 7 < 18446744073709551616"
  shows "unat (n + 7 - (n + 7) mod 8) = align8 (unat n)"
proof -
  have s: "unat (n + 7) = unat n + 7" using unat_add_u64 [of n 7] assms by simp
  have "(n + 7) mod 8 \<le> n + 7" by (simp add: word_le_nat_alt unat_mod_distrib)
  then have "unat (n + 7 - (n + 7) mod 8) = unat n + 7 - (unat n + 7) mod 8"
    by (simp add: unat_sub unat_mod_distrib s)
  then show ?thesis by (simp add: align8_sub)
qed

lemma round_up_Inr: "round_up_u64 n = Inr m \<Longrightarrow> unat m = align8 (unat n)"
  using unat_round_up by (auto simp: round_up_iff)

lemma round_up_total: "unat n + 7 < 18446744073709551616 \<Longrightarrow> \<exists>m. round_up_u64 n = Inr m \<and> unat m = align8 (unat n)"
  using unat_round_up by (auto simp: round_up_iff)

text \<open>A loop that adds up word sizes computes the sum, and only fails when the sum is too large.\<close>

lemma sum_loop_Inr:
  assumes "foldM (\<lambda>t acc. bindE (f t) (\<lambda>n. add_u64 acc n)) ts a = Inr r"
    and "\<And>t n. t \<in> set ts \<Longrightarrow> f t = Inr n \<Longrightarrow> unat n = g t"
  shows "unat r = unat a + sum_list (map g ts)"
  using assms
proof (induction ts arbitrary: a)
  case (Cons t ts)
  obtain n where n: "f t = Inr n" "unat a + unat n < 18446744073709551616"
      "foldM (\<lambda>t acc. bindE (f t) (\<lambda>n. add_u64 acc n)) ts (a + n) = Inr r"
    using Cons.prems(1) by (auto simp: bindE_Inr_iff add_u64_iff)
  from Cons.IH [OF n(3)] Cons.prems(2) n(1,2) show ?case by (simp add: unat_add_u64)
qed simp

lemma sum_loop_total:
  assumes "\<And>t. t \<in> set ts \<Longrightarrow> \<exists>n. f t = Inr n \<and> unat n = g t"
    and "unat a + sum_list (map g ts) < 18446744073709551616"
  shows "\<exists>r. foldM (\<lambda>t acc. bindE (f t) (\<lambda>n. add_u64 acc n)) ts a = Inr r"
  using assms
proof (induction ts arbitrary: a)
  case (Cons t ts)
  obtain n where n: "f t = Inr n" "unat n = g t" using Cons.prems(1) by auto
  then have "unat a + unat n < 18446744073709551616" using Cons.prems(2) by simp
  moreover from this n have "unat (a + n) + sum_list (map g ts) < 18446744073709551616"
    using Cons.prems(2) by (simp add: unat_add_u64)
  ultimately show ?case using Cons.IH [of "a + n"] Cons.prems(1) n(1) by (simp add: add_u64_def)
qed simp

definition aligned_size :: "ir_type \<Rightarrow> u64 result" where
  "aligned_size t = bindE (ty_size t) in_bytes_aligned"

lemma ty_size_aggregates:
  "ty_size (Struct ts) = bindE (foldM (\<lambda>t acc. bindE (aligned_size t) (\<lambda>n. add_u64 acc n)) ts 0) (\<lambda>n. Inr (type_size_new n))"
  "ty_size (Union ts) = bindE (foldM (\<lambda>t acc. bindE (aligned_size t) (\<lambda>n. Inr (max acc n))) ts 0) (\<lambda>n. Inr (type_size_new n))"
  "prev_idxs_offset ts idx = foldM (\<lambda>t acc. bindE (aligned_size t) (\<lambda>n. add_u64 acc n)) (take (unat idx) ts) 0"
  by (simp_all add: aligned_size_def bindE_assoc prev_idxs_offset_def)

lemma max_loop_Inr:
  fixes a :: u64
  assumes "foldM (\<lambda>t acc. bindE (f t) (\<lambda>n. Inr (max acc n))) ts a = Inr r"
    and "\<And>t n. t \<in> set ts \<Longrightarrow> f t = Inr n \<Longrightarrow> unat n = g t"
  shows "unat r = Max (insert (unat a) (set (map g ts)))"
  using assms
proof (induction ts arbitrary: a)
  case (Cons t ts)
  obtain n where n: "f t = Inr n" "foldM (\<lambda>t acc. bindE (f t) (\<lambda>n. Inr (max acc n))) ts (max a n) = Inr r"
    using Cons.prems(1) by (auto simp: bindE_Inr_iff)
  have "unat n = g t" using Cons.prems(2) n(1) by simp
  then have "unat r = Max (insert (max (unat a) (g t)) (set (map g ts)))"
    using Cons.IH [OF n(2)] Cons.prems(2) by (simp add: unat_max)
  also have "\<dots> = Max (insert (unat a) (set (map g (t # ts))))"
    by (cases "ts = []") (simp_all add: max.assoc)
  finally show ?case .
qed simp

text \<open>The types for which no size along the way overflows and all widths exist.\<close>

fun sized :: "ir_type \<Rightarrow> bool" where
  "sized (Uint w) \<longleftrightarrow> w \<in> {8, 16, 32, 64, 256}"
| "sized (StringArray n) \<longleftrightarrow> unat n + 14 < 2 ^ 64"
| "sized (Array t n) \<longleftrightarrow> sized t \<and> unat n * bytes_of t + 7 < 2 ^ 64"
| "sized (Struct ts) \<longleftrightarrow> list_all sized ts \<and> sum_list (map (\<lambda>t. align8 (bytes_of t)) ts) + 7 < 2 ^ 64"
| "sized (Union ts) \<longleftrightarrow> list_all sized ts"
| "sized _ \<longleftrightarrow> True"

lemma ty_size_Inr: "ty_size t = Inr s \<Longrightarrow> unat (in_bytes s) = bytes_of t"
proof (induction t arbitrary: s)
  case (Array t n)
  then obtain s' where "ty_size t = Inr s'" "unat n * unat (in_bytes s') < 18446744073709551616"
      "s = type_size_new (n * in_bytes s')"
    by (auto simp: bindE_Inr_iff mul_u64_iff)
  with Array.IH show ?case by (simp add: type_size_new_def in_bytes_def unat_mul_u64)
next
  case (Struct ts)
  have a: "unat n = align8 (bytes_of t)" if "t \<in> set ts" "aligned_size t = Inr n" for t n
    using that Struct.IH by (auto simp: aligned_size_def bindE_Inr_iff in_bytes_aligned_def in_bytes_def dest!: round_up_Inr)
  obtain r where r: "foldM (\<lambda>t acc. bindE (aligned_size t) (\<lambda>n. add_u64 acc n)) ts 0 = Inr r" "s = type_size_new r"
    using Struct.prems unfolding ty_size_aggregates by (auto simp: bindE_Inr_iff)
  from sum_loop_Inr [OF r(1), of "\<lambda>t. align8 (bytes_of t)"] a r(2) show ?case
    by (simp add: type_size_new_def in_bytes_def)
next
  case (Union ts)
  have a: "unat n = align8 (bytes_of t)" if "t \<in> set ts" "aligned_size t = Inr n" for t n
    using that Union.IH by (auto simp: aligned_size_def bindE_Inr_iff in_bytes_aligned_def in_bytes_def dest!: round_up_Inr)
  obtain r where r: "foldM (\<lambda>t acc. bindE (aligned_size t) (\<lambda>n. Inr (max acc n))) ts 0 = Inr r" "s = type_size_new r"
    using Union.prems unfolding ty_size_aggregates by (auto simp: bindE_Inr_iff)
  from max_loop_Inr [OF r(1), of "\<lambda>t. align8 (bytes_of t)"] a r(2) show ?case
    by (simp add: type_size_new_def in_bytes_def)
qed (auto simp: bindE_Inr_iff type_size_new_def in_bytes_def dest!: round_up_Inr split: if_splits)

lemma aligned_size_Inr: "aligned_size t = Inr n \<Longrightarrow> unat n = align8 (bytes_of t)"
  using ty_size_Inr by (auto simp: aligned_size_def bindE_Inr_iff in_bytes_aligned_def in_bytes_def dest!: round_up_Inr)

lemma Max_insert_less: "finite A \<Longrightarrow> (\<And>x. x \<in> A \<Longrightarrow> x < n) \<Longrightarrow> a < n \<Longrightarrow> Max (insert a A) < n" for n :: nat
  by simp

lemma sized_fits: "sized t \<Longrightarrow> bytes_of t + 7 < 18446744073709551616"
proof (induction t)
  case (StringArray n)
  then show ?case using align8_ge(2) [of "unat n"] by simp
next
  case (Union ts)
  have "align8 (bytes_of t) + 7 < 18446744073709551616" if "t \<in> set ts" for t
  proof -
    have "bytes_of t + 7 < 18446744073709551616" using Union that by (auto simp: list_all_iff)
    then have "align8 (bytes_of t) \<le> align8 18446744073709551608" by (intro align8_mono) simp
    then show ?thesis by (simp add: align8_def)
  qed
  then have "\<forall>n \<in> set (map (\<lambda>t. align8 (bytes_of t)) ts). n < 18446744073709551609" by auto
  then have "bytes_of (Union ts) < 18446744073709551609"
    unfolding bytes_of.simps by (intro Max_insert_less) auto
  then show ?case by simp
qed auto

lemma aligned_total:
  assumes "\<exists>s. ty_size t = Inr s" "sized t"
  shows "\<exists>n. aligned_size t = Inr n \<and> unat n = align8 (bytes_of t)"
proof -
  obtain s where s: "ty_size t = Inr s" using assms(1) by blast
  then have "unat (size_in_bytes s) + 7 < 18446744073709551616"
    using ty_size_Inr [OF s] sized_fits [OF assms(2)] by (simp add: in_bytes_def)
  from round_up_total [OF this] show ?thesis using s ty_size_Inr [OF s]
    by (auto simp: aligned_size_def in_bytes_aligned_def in_bytes_def)
qed

lemma ty_size_total: "sized t \<Longrightarrow> \<exists>s. ty_size t = Inr s"
proof (induction t)
  case (StringArray n)
  then show ?case using round_up_total [of n] by auto
next
  case (Array t n)
  then obtain s where s: "ty_size t = Inr s" by auto
  then have "unat n * unat (in_bytes s) < 18446744073709551616" using ty_size_Inr [OF s] Array.prems by simp
  with s show ?case by (simp add: mul_u64_def)
next
  case (Struct ts)
  have "\<exists>n. aligned_size t = Inr n \<and> unat n = align8 (bytes_of t)" if "t \<in> set ts" for t
    using aligned_total [of t] Struct that by (simp add: list_all_iff)
  then show ?case
    using sum_loop_total [of ts aligned_size "\<lambda>t. align8 (bytes_of t)" 0] Struct.prems
    unfolding ty_size_aggregates by auto
next
  case (Union ts)
  have "\<exists>n. aligned_size t = Inr n" if "t \<in> set ts" for t
    using aligned_total [of t] Union that by (auto simp: list_all_iff)
  then have "\<exists>n. foldM (\<lambda>t acc. bindE (aligned_size t) (\<lambda>n. Inr (max acc n))) ts 0 = Inr n \<and> True"
    by (intro foldM_total) (fastforce simp: bindE_Inr_iff)+
  then show ?case unfolding ty_size_aggregates by auto
qed auto

section \<open>Offsets as numbers\<close>

text \<open>Where a part of a type starts, and that the part stays within the whole.\<close>

fun part_at :: "ir_type \<Rightarrow> u64 list \<Rightarrow> (ir_type \<times> nat) option" where
  "part_at t [] = Some (t, 0)"
| "part_at t (i # is) =
     (case t of
        Struct ts \<Rightarrow>
          if unat i < length ts then
            map_option (\<lambda>(p, off). (p, sum_list (map (\<lambda>t. align8 (bytes_of t)) (take (unat i) ts)) + off))
              (part_at (ts ! unat i) is)
          else None
      | Union ts \<Rightarrow>
          if unat i < length ts then
            map_option (\<lambda>(p, off). (p, bytes_of (Union ts) - bytes_of (ts ! unat i) + off)) (part_at (ts ! unat i) is)
          else None
      | Array el n \<Rightarrow>
          if i < n then map_option (\<lambda>(p, off). (p, unat i * bytes_of el + off)) (part_at el is) else None
      | _ \<Rightarrow> None)"

lemma sum_list_take_le:
  fixes f :: "'a \<Rightarrow> nat"
  assumes "i < length ts"
  shows "sum_list (map f (take i ts)) + f (ts ! i) \<le> sum_list (map f ts)"
proof -
  have "ts = take i ts @ ts ! i # drop (Suc i) ts" using assms by (simp add: id_take_nth_drop)
  then have "map f ts = map f (take i ts) @ f (ts ! i) # map f (drop (Suc i) ts)" by (metis map_append list.map(2))
  then have "sum_list (map f ts) = sum_list (map f (take i ts)) + (f (ts ! i) + sum_list (map f (drop (Suc i) ts)))"
    by (metis sum_list.append sum_list.Cons)
  then show ?thesis by simp
qed

lemma union_member_size:
  assumes "t \<in> set ts"
  shows "align8 (bytes_of t) \<le> bytes_of (Union ts)"
  unfolding bytes_of.simps using assms by (intro Max_ge) auto

lemma part_at_within: "part_at t is = Some (p, off) \<Longrightarrow> off + bytes_of p \<le> bytes_of t"
proof (induction t "is" arbitrary: p off rule: part_at.induct)
  case (2 t i "is")
  show ?case
  proof (cases t)
    case (Struct ts)
    let ?f = "\<lambda>t. align8 (bytes_of t)"
    obtain off' where i: "unat i < length ts" and p: "part_at (ts ! unat i) is = Some (p, off')"
      and off: "off = sum_list (map ?f (take (unat i) ts)) + off'"
      using 2(4) Struct by (auto split: if_splits)
    have "off' + bytes_of p \<le> bytes_of (ts ! unat i)" by (rule 2(3) [OF Struct i p])
    then show ?thesis
      using sum_list_take_le [OF i, of ?f] align8_ge(1) [of "bytes_of (ts ! unat i)"] off Struct by simp
  next
    case (Union ts)
    obtain off' where i: "unat i < length ts" and p: "part_at (ts ! unat i) is = Some (p, off')"
      and off: "off = bytes_of (Union ts) - bytes_of (ts ! unat i) + off'"
      using 2(4) Union by (auto split: if_splits)
    have "off' + bytes_of p \<le> bytes_of (ts ! unat i)" by (rule 2(2) [OF Union i p])
    moreover have "bytes_of (ts ! unat i) \<le> bytes_of (Union ts)"
      by (rule order_trans [OF align8_ge(1) union_member_size]) (use i in simp)
    ultimately show ?thesis unfolding Union using off by linarith
  next
    case (Array el n)
    obtain off' where i: "i < n" and p: "part_at el is = Some (p, off')" and off: "off = unat i * bytes_of el + off'"
      using 2(4) Array by (auto split: if_splits)
    have "off' + bytes_of p \<le> bytes_of el" by (rule 2(1) [OF Array i p])
    moreover have "Suc (unat i) * bytes_of el \<le> unat n * bytes_of el"
      using i by (intro mult_le_mono1) (simp add: word_less_nat_alt)
    ultimately show ?thesis using off Array by simp
  qed (use 2(4) in auto)
qed simp

lemma part_at_sized: "part_at t is = Some (p, off) \<Longrightarrow> sized t \<Longrightarrow> sized p"
  by (induction t "is" arbitrary: p off rule: part_at.induct)
    (auto simp: list_all_length split: ir_type.splits if_splits)

lemma get_indexed_type_part: "get_indexed_type_from t is = map_option fst (part_at t is)"
  by (induction t "is" rule: get_indexed_type_from.induct)
    (auto simp: get_field_type_def option.map_comp comp_def case_prod_beta split: ir_type.splits)

lemma prev_idxs_offset_ok:
  assumes "list_all sized ts" "sum_list (map (\<lambda>t. align8 (bytes_of t)) ts) + 7 < 2 ^ 64"
  shows "\<exists>n. prev_idxs_offset ts idx = Inr n
    \<and> unat n = sum_list (map (\<lambda>t. align8 (bytes_of t)) (take (unat idx) ts))"
proof -
  let ?f = "\<lambda>t. align8 (bytes_of t)"
  have al: "\<exists>n. aligned_size t = Inr n \<and> unat n = ?f t" if "t \<in> set (take (unat idx) ts)" for t
    using aligned_total [of t] ty_size_total [of t] assms(1) in_set_takeD [OF that] by (auto simp: list_all_iff)
  have "sum_list (map ?f (take (unat idx) ts)) + sum_list (map ?f (drop (unat idx) ts)) = sum_list (map ?f ts)"
    by (metis append_take_drop_id map_append sum_list.append)
  then have "unat 0 + sum_list (map ?f (take (unat idx) ts)) < 18446744073709551616" using assms(2) by simp
  from sum_loop_total [OF al this] obtain n where n: "prev_idxs_offset ts idx = Inr n"
    unfolding ty_size_aggregates by blast
  moreover have "unat n = unat 0 + sum_list (map ?f (take (unat idx) ts))"
    using sum_loop_Inr [OF n [unfolded ty_size_aggregates], of ?f] aligned_size_Inr by simp
  ultimately show ?thesis by simp
qed

lemma indexed_step_ok:
  assumes "sized t" "part_at t [i] = Some (p, off)" "unat a + bytes_of t < 18446744073709551616"
  shows "\<exists>a'. indexed_step t a i = Inr (Some (p, a')) \<and> unat a' = unat a + off"
proof (cases t)
  case (Struct ts)
  have i: "unat i < length ts" "p = ts ! unat i" "off = sum_list (map (\<lambda>t. align8 (bytes_of t)) (take (unat i) ts))"
    using assms(2) Struct by (auto split: if_splits)
  obtain n where n: "prev_idxs_offset ts i = Inr n" "unat n = off"
    using prev_idxs_offset_ok [of ts i] assms(1) Struct i(3) by auto
  have "unat a + off < 18446744073709551616" using part_at_within [OF assms(2)] assms(3) by simp
  with add_u64_ok [OF this n(2)] n(1) Struct i show ?thesis
    by (simp add: indexed_step_def is_struct_def get_field_types_def get_field_type_def)
next
  case (Union ts)
  have i: "unat i < length ts" "p = ts ! unat i" "off = bytes_of t - bytes_of p"
    using assms(2) Union by (auto split: if_splits)
  have le: "off + bytes_of p \<le> bytes_of t" by (rule part_at_within [OF assms(2)])
  have "sized p" by (rule part_at_sized [OF assms(2,1)])
  then obtain us fs where s: "ty_size t = Inr us" "ty_size p = Inr fs" using ty_size_total assms(1) by blast
  note u = ty_size_Inr [OF s(1)] ty_size_Inr [OF s(2)]
  have sub: "in_bytes fs \<le> in_bytes us" using u le by (simp add: word_le_nat_alt)
  then have "unat (in_bytes us - in_bytes fs) = off" using u i(3) by (simp add: unat_sub)
  moreover have "unat a + off < 18446744073709551616" using le assms(3) by simp
  ultimately show ?thesis
    using add_u64_ok [of a off "in_bytes us - in_bytes fs"] s sub Union i(1,2)
    by (simp add: indexed_step_def is_struct_def is_union_def get_field_type_def sub_u64_def del: ty_size.simps)
next
  case (Array el n)
  have i: "i < n" "p = el" "off = unat i * bytes_of el" using assms(2) Array by (auto split: if_splits)
  have le: "off + bytes_of p \<le> bytes_of t" by (rule part_at_within [OF assms(2)])
  obtain s where s: "ty_size el = Inr s" using ty_size_total [of el] assms(1) Array by auto
  have "unat (in_bytes s) * unat i = off" using ty_size_Inr [OF s] i(3) by simp
  moreover from this have "unat (in_bytes s) * unat i < 18446744073709551616" using le assms(3) by simp
  moreover from this have "unat (in_bytes s * i) = unat (in_bytes s) * unat i" by (rule unat_mul_u64)
  ultimately show ?thesis
    using add_u64_ok [of a off "in_bytes s * i"] le assms(3) s Array i(2)
    by (simp add: indexed_step_def is_struct_def is_union_def get_array_elem_type_def mul_u64_def)
qed (use assms(2) in auto)

lemma part_at_Cons:
  assumes "part_at t (i # is) = Some (p, off)"
  shows "\<exists>q off1 off2. part_at t [i] = Some (q, off1) \<and> part_at q is = Some (p, off2) \<and> off = off1 + off2"
  using assms by (cases t) (auto split: if_splits)

lemma get_indexed_offset_ok:
  "part_at t is = Some (p, off) \<Longrightarrow> sized t \<Longrightarrow> unat a + bytes_of t < 18446744073709551616 \<Longrightarrow>
    \<exists>a'. get_indexed_offset_from t a is = Inr (Some a') \<and> unat a' = unat a + off"
proof (induction "is" arbitrary: t a off)
  case (Cons i "is")
  obtain q off1 off2 where q: "part_at t [i] = Some (q, off1)" "part_at q is = Some (p, off2)" "off = off1 + off2"
    using part_at_Cons [OF Cons.prems(1)] by blast
  obtain a1 where a1: "indexed_step t a i = Inr (Some (q, a1))" "unat a1 = unat a + off1"
    using indexed_step_ok [OF Cons.prems(2) q(1) Cons.prems(3)] by blast
  have "unat a1 + bytes_of q < 18446744073709551616"
    using part_at_within [OF q(1)] Cons.prems(3) a1(2) by simp
  from Cons.IH [OF q(2) part_at_sized [OF q(1) Cons.prems(2)] this] show ?case using a1 q(3) by auto
qed simp

section \<open>The comparison of types\<close>

lemma type_eq_simps [simp]:
  "type_eq (Array l m) (Array r n) \<longleftrightarrow> m = n \<and> type_eq l r"
  "type_eq (TypedSlice l) (TypedSlice r) \<longleftrightarrow> type_eq l r"
  "type_eq (Pointer l) (Pointer r) \<longleftrightarrow> type_eq l r"
  "type_eq (Struct ls) (Struct rs) \<longleftrightarrow> list_all2 type_eq ls rs"
  "type_eq (Union ls) (Union rs) \<longleftrightarrow> list_all2 type_eq ls rs"
  "\<not> is_union r \<Longrightarrow> type_eq (Union ls) r \<longleftrightarrow> list_ex (type_eq r) ls"
  "\<not> is_union l \<Longrightarrow> type_eq l (Union rs) \<longleftrightarrow> type_eq (Union rs) l"
  "\<not> is_union r \<Longrightarrow> type_eq Never r"
  by (subst type_eq.simps; auto simp: list_all2_iff list_all_iff is_union_def split: ir_type.splits)+

lemma type_eq_atoms [simp]:
  "type_eq Unit r \<longleftrightarrow> r = Unit" "type_eq Bool r \<longleftrightarrow> r = Bool" "type_eq (Uint w) r \<longleftrightarrow> r = Uint w"
  "type_eq B256 r \<longleftrightarrow> r = B256" "type_eq StringSlice r \<longleftrightarrow> r = StringSlice"
  "type_eq (StringArray n) r \<longleftrightarrow> r = StringArray n" "type_eq Slice r \<longleftrightarrow> r = Slice"
  if "\<not> is_union r"
  by (subst type_eq.simps; use that in \<open>cases r; auto simp: is_union_def\<close>)+

lemma type_eq_shape:
  assumes "\<not> is_union r"
  shows "type_eq (Array l n) r \<Longrightarrow> \<exists>l'. r = Array l' n" "type_eq (TypedSlice l) r \<Longrightarrow> \<exists>l'. r = TypedSlice l'"
    "type_eq (Pointer l) r \<Longrightarrow> \<exists>l'. r = Pointer l'" "type_eq (Struct ls) r \<Longrightarrow> \<exists>ls'. r = Struct ls'"
  by (subst (asm) type_eq.simps; use assms in \<open>cases r; simp add: is_union_def\<close>)+

text \<open>Types in which the comparison has no special case.\<close>

fun plain_type :: "ir_type \<Rightarrow> bool" where
  "plain_type Never \<longleftrightarrow> False"
| "plain_type (Union _) \<longleftrightarrow> False"
| "plain_type (Array t _) \<longleftrightarrow> plain_type t"
| "plain_type (TypedSlice t) \<longleftrightarrow> plain_type t"
| "plain_type (Pointer t) \<longleftrightarrow> plain_type t"
| "plain_type (Struct ts) \<longleftrightarrow> list_all plain_type ts"
| "plain_type _ \<longleftrightarrow> True"

lemma plain_not_union: "plain_type t \<Longrightarrow> \<not> is_union t"
  by (cases t) (auto simp: is_union_def)

lemma type_eq_refl: "type_eq t t"
proof (induction t)
  case Never
  show ?case by (simp add: is_union_def)
qed (auto simp: list_all2_same is_union_def)

lemma type_eq_plain: "plain_type l \<Longrightarrow> plain_type r \<Longrightarrow> type_eq l r \<longleftrightarrow> l = r"
proof (induction l arbitrary: r)
  case (Struct ls)
  show ?case
  proof
    assume "type_eq (Struct ls) r"
    then obtain rs where r: "r = Struct rs" using type_eq_shape(4) plain_not_union [OF Struct.prems(2)] by blast
    then have "list_all2 type_eq ls rs" using \<open>type_eq (Struct ls) r\<close> by simp
    then have "list_all2 (=) ls rs"
      using Struct by (auto simp: r list_all2_conv_all_nth list_all_length)
    then show "Struct ls = r" by (simp add: r list.rel_eq)
  qed (simp add: type_eq_refl)
next
  case (Array l n)
  then show ?case using type_eq_shape(1) [OF plain_not_union, of r l n] by (auto simp: type_eq_refl)
next
  case (TypedSlice l)
  then show ?case using type_eq_shape(2) [OF plain_not_union, of r l] by (auto simp: type_eq_refl)
next
  case (Pointer l)
  then show ?case using type_eq_shape(3) [OF plain_not_union, of r l] by (auto simp: type_eq_refl)
qed (auto dest: plain_not_union)

section \<open>Properties\<close>

text \<open>
  (C27) Sizes are exact: for every type whose parts fit in memory the computed size is the sum,
  product or maximum that the layout rules prescribe, without overflow, and its rounding is the
  next multiple of eight.
\<close>

theorem type_size_exact:
  assumes "sized ty"
  shows "\<exists>s aligned words. ty_size ty = Inr s \<and> in_bytes_aligned s = Inr aligned \<and> in_words s = Inr words
    \<and> unat (in_bytes s) = bytes_of ty \<and> unat aligned = align8 (bytes_of ty) \<and> unat aligned = 8 * unat words"
proof -
  obtain s where s: "ty_size ty = Inr s" using ty_size_total [OF assms] by blast
  have n: "unat (size_in_bytes s) = bytes_of ty" using ty_size_Inr [OF s] by (simp add: in_bytes_def)
  then have small: "unat (size_in_bytes s) + 7 < 18446744073709551616" using sized_fits [OF assms] by simp
  from round_up_total [OF this] obtain m where m: "in_bytes_aligned s = Inr m" "unat m = align8 (bytes_of ty)"
    by (auto simp: in_bytes_aligned_def n)
  have "unat (size_in_bytes s + 7) = bytes_of ty + 7" using unat_add_u64 [of "size_in_bytes s" 7] small n by simp
  then have "unat ((size_in_bytes s + 7) div 8) = (bytes_of ty + 7) div 8" by (simp add: unat_div_distrib)
  moreover have "in_words s = Inr ((size_in_bytes s + 7) div 8)" using small by (simp add: in_words_def add_u64_def)
  ultimately show ?thesis using s m n by (simp add: in_bytes_def align8_def)
qed

theorem type_size_exact_witness:
  "\<exists>s aligned words. ty_size (Struct [Bool, Array (Uint 8) 3]) = Inr s \<and> in_bytes_aligned s = Inr aligned
    \<and> in_words s = Inr words \<and> unat (in_bytes s) = bytes_of (Struct [Bool, Array (Uint 8) 3])
    \<and> unat aligned = align8 (bytes_of (Struct [Bool, Array (Uint 8) 3])) \<and> unat aligned = 8 * unat words"
  by (rule type_size_exact) (simp add: align8_def)

text \<open>
  (C26) Indexing stays inside: whenever the indexed part of a type exists, its offset is computed
  without overflow, and the part at that offset ends within the type. Fields of a struct, the
  variants of a union and the elements of an array are covered, at any depth.
\<close>

theorem indexed_offset_within:
  assumes "sized ty" "get_indexed_type ty indices = Some part"
  shows "\<exists>off. get_indexed_offset ty indices = Inr (Some off) \<and> unat off + bytes_of part \<le> bytes_of ty"
proof -
  obtain off where off: "part_at ty indices = Some (part, off)"
    using assms(2) by (auto simp: get_indexed_type_def get_indexed_type_part split: if_splits)
  have "unat 0 + bytes_of ty < 18446744073709551616" using sized_fits [OF assms(1)] by simp
  from get_indexed_offset_ok [OF off assms(1) this] part_at_within [OF off] show ?thesis
    by (auto simp: get_indexed_offset_def)
qed

theorem indexed_offset_within_witness:
  "\<exists>off. get_indexed_offset (Struct [Bool, Array (Uint 8) 3]) [1, 2] = Inr (Some off)
     \<and> unat off + bytes_of (Uint 8) \<le> bytes_of (Struct [Bool, Array (Uint 8) 3])"
  by (rule indexed_offset_within)
    (simp_all add: align8_def get_indexed_type_def get_field_type_def word_less_nat_alt)

text \<open>
  The offset of an array element is computed for any index: the function that gives the type
  of an indexed part rejects an index behind the end of an array, the one that gives its offset
  does not, although it is documented to return nothing for invalid indices.
\<close>

theorem array_offset_unchecked:
  "get_indexed_type (Array Bool 1) [5] = None \<and> get_indexed_offset (Array Bool 1) [5] = Inr (Some 5)"
  by (simp add: get_indexed_type_def get_field_type_def get_indexed_offset_def indexed_step_def is_struct_def
      is_union_def get_array_elem_type_def type_size_new_def in_bytes_def mul_u64_def add_u64_def word_less_nat_alt)

text \<open>
  The comparison of types is reflexive, and on types without the two special cases, unions
  and the type of expressions that do not return, it is equality.
\<close>

theorem type_eq_decides: "type_eq l l \<and> (plain_type l \<and> plain_type r \<longrightarrow> (type_eq l r \<longleftrightarrow> l = r))"
  using type_eq_refl type_eq_plain by blast

theorem type_eq_decides_witness:
  "plain_type (Array Bool 1) \<and> plain_type (Array Bool 2) \<and>
   type_eq (Array Bool 1) (Array Bool 1) \<and> (type_eq (Array Bool 1) (Array Bool 2) \<longleftrightarrow> Array Bool 1 = Array Bool 2)"
  using type_eq_decides [of "Array Bool 1" "Array Bool 2"] by simp

end
