(* ===== verification/Ir_Constants.thy ===== *)
theory Ir_Constants
  imports Ir_Types
begin

text \<open>
  Constants of the intermediate representation (\<^verbatim>\<open>sway-ir/src/constant.rs\<close>) and the padding of
  values in memory (\<^verbatim>\<open>Padding\<close> of \<^verbatim>\<open>irtype.rs\<close>). Lengths of vectors are natural numbers.
\<close>

section \<open>Padding\<close>

datatype padding = Left nat | Right nat

definition target_size :: "padding \<Rightarrow> nat" where
  "target_size p = (case p of Left n \<Rightarrow> n | Right n \<Rightarrow> n)"

definition default_for_u8 :: "u8 \<Rightarrow> padding" where
  "default_for_u8 _ = Right 1"

definition default_for_u64 :: "u64 \<Rightarrow> padding" where
  "default_for_u64 _ = Right 8"

definition default_for_byte_array :: "u8 list \<Rightarrow> padding" where
  "default_for_byte_array value' = Right (length value')"

definition default_for_aggregate :: "nat \<Rightarrow> padding" where
  "default_for_aggregate aggregate_size = Right aggregate_size"

section \<open>Constants\<close>

type_synonym u256 = "256 word"

datatype constant_content = ConstantContent (constant_ty: ir_type) (constant_val: constant_value)
and constant_value =
    CUndef
  | CUnit
  | CBool bool
  | CUint u64
  | CU256 u256
  | CB256 u256
  | CString "u8 list"
  | CArray "constant_content list"
  | CSlice "constant_content list"
  | CStruct "constant_content list"
  | CReference constant_content
  | CRawUntypedSlice "u8 list"

definition extract_enum_tag_and_value ::
  "constant_content \<Rightarrow> (constant_content \<times> constant_content) option" where
  "extract_enum_tag_and_value c =
     (if \<not> is_enum (constant_ty c) then None
      else
        case constant_val c of
          CStruct elems \<Rightarrow> if length elems = 2 then Some (elems ! 0, elems ! 1) else None
        | _ \<Rightarrow> None)"

text \<open>The sizes that become paddings are converted from \<^verbatim>\<open>u64\<close> to \<^verbatim>\<open>usize\<close>.\<close>

definition aligned_target :: "ir_type \<Rightarrow> nat result" where
  "aligned_target ty = bindE (ty_size ty) (\<lambda>s. bindE (in_bytes_aligned s) (\<lambda>n. Inr (unat n)))"

definition elements_of_aggregate_with_padding ::
  "constant_content \<Rightarrow> (constant_content \<times> padding option) list option result" where
  "elements_of_aggregate_with_padding c =
     (case extract_enum_tag_and_value c of
        Some (tag, val) \<Rightarrow>
          bindE (aligned_target (get_field_types (constant_ty c) ! 1)) (\<lambda>n.
          Inr (Some [(tag, None), (val, Some (Left n))]))
      | None \<Rightarrow>
          (case constant_val c of
             CArray elems \<Rightarrow> Inr (Some (map (\<lambda>el. (el, None)) elems))
           | CStruct elems \<Rightarrow>
               bindE (mapM (\<lambda>el. bindE (aligned_target (constant_ty el)) (\<lambda>n. Inr (el, Some (Right n)))) elems)
                 (\<lambda>els. Inr (Some els))
           | _ \<Rightarrow> Inr None))"

definition enum_tag_and_value_with_paddings ::
  "constant_content \<Rightarrow> ((constant_content \<times> padding option) \<times> (constant_content \<times> padding option)) option result" where
  "enum_tag_and_value_with_paddings c =
     (if \<not> is_enum (constant_ty c) then Inr None
      else
        bindE (elements_of_aggregate_with_padding c) (\<lambda>r.
        case r of
          None \<Rightarrow> Inl (Panic ''Enums are aggregates.'')
        | Some els \<Rightarrow>
            if length els \<noteq> 2 then Inl (Panic ''assertion failed'') else Inr (Some (els ! 0, els ! 1))))"

definition array_elements_with_padding ::
  "constant_content \<Rightarrow> (constant_content \<times> padding option) list option result" where
  "array_elements_with_padding c =
     (if \<not> is_array (constant_ty c) then Inr None else elements_of_aggregate_with_padding c)"

definition struct_fields_with_padding ::
  "constant_content \<Rightarrow> (constant_content \<times> padding option) list option result" where
  "struct_fields_with_padding c =
     (if \<not> is_struct (constant_ty c) then Inr None else elements_of_aggregate_with_padding c)"

lemma extract_smaller:
  assumes "extract_enum_tag_and_value c = Some (t, v)"
  shows "size t < size c \<and> size v < size c"
proof -
  obtain ty elems where c: "c = ConstantContent ty (CStruct elems)" "length elems = 2" "t = elems ! 0" "v = elems ! 1"
    using assms by (cases c) (auto simp: extract_enum_tag_and_value_def split: if_splits constant_value.splits)
  then have "t \<in> set elems" "v \<in> set elems" by simp_all
  then show ?thesis using size_elem_less [of t elems] size_elem_less [of v elems] c(1) by simp
qed

lemma elements_smaller:
  assumes "elements_of_aggregate_with_padding c = Inr (Some els)" "(el, pad) \<in> set els"
  shows "size el < size c"
proof (cases "extract_enum_tag_and_value c")
  case (Some tv)
  then show ?thesis
    using assms extract_smaller [of c] by (cases tv) (auto simp: elements_of_aggregate_with_padding_def bindE_Inr_iff)
next
  case None
  obtain ty val where c: "c = ConstantContent ty val" by (cases c)
  show ?thesis
  proof (cases val)
    case (CStruct elems)
    then have "mapM (\<lambda>el. bindE (aligned_target (constant_ty el)) (\<lambda>n. Inr (el, Some (Right n)))) elems = Inr els"
      using assms(1) None c by (auto simp: elements_of_aggregate_with_padding_def bindE_Inr_iff)
    then have "list_all2 (\<lambda>x y. fst y = x) elems els"
      unfolding mapM_Inr_iff by (rule list_all2_mono) (auto simp: bindE_Inr_iff)
    then have "map fst els = elems" by (auto simp: list_all2_conv_all_nth intro: nth_equalityI)
    then have "el \<in> set elems" using assms(2) by force
    then show ?thesis using size_elem_less [of el elems] c CStruct by simp
  next
    case (CArray elems)
    then have "el \<in> set elems" using assms None c by (auto simp: elements_of_aggregate_with_padding_def)
    then show ?thesis using size_elem_less [of el elems] c CArray by simp
  qed (use assms None c in \<open>auto simp: elements_of_aggregate_with_padding_def\<close>)
qed

end
