(* ===== verification/Asm_Data.thy ===== *)
theory Asm_Data
  imports Ir_Constants Asm_Ops
begin

text \<open>
  The data section (\<^verbatim>\<open>asm_generation/fuel/data_section.rs\<close>): entries made from constants, their
  bytes, the ids under which they are found and the section as a whole. Indices of entries are
  32-bit words as in \<^verbatim>\<open>DataId\<close>, lengths of vectors are natural numbers.
\<close>

unbundle bit_operations_syntax

section \<open>Entries\<close>

datatype entry_name = EntryNonConfigurable | EntryConfigurable string

datatype entry = Entry (entry_value: datum) (entry_padding: padding) (entry_name_of: entry_name)
and datum =
    Byte u8
  | Word u64
  | ByteArray "u8 list"
  | SliceData "u8 list"
  | Collection "entry list"

definition unwrap_or :: "'a option \<Rightarrow> 'a \<Rightarrow> 'a" where
  "unwrap_or x d = (case x of Some y \<Rightarrow> y | None \<Rightarrow> d)"

definition new_byte :: "u8 \<Rightarrow> entry_name \<Rightarrow> padding option \<Rightarrow> entry" where
  "new_byte val name pad = Entry (Byte val) (unwrap_or pad (default_for_u8 val)) name"

definition new_word :: "u64 \<Rightarrow> entry_name \<Rightarrow> padding option \<Rightarrow> entry" where
  "new_word val name pad = Entry (Word val) (unwrap_or pad (default_for_u64 val)) name"

definition new_byte_array :: "u8 list \<Rightarrow> entry_name \<Rightarrow> padding option \<Rightarrow> entry" where
  "new_byte_array bytes name pad = Entry (ByteArray bytes) (unwrap_or pad (default_for_byte_array bytes)) name"

definition new_slice :: "u8 list \<Rightarrow> entry_name \<Rightarrow> padding option \<Rightarrow> entry" where
  "new_slice bytes name pad = Entry (SliceData bytes) (unwrap_or pad (default_for_byte_array bytes)) name"

definition new_collection :: "entry list \<Rightarrow> entry_name \<Rightarrow> padding option \<Rightarrow> entry" where
  "new_collection elements name pad =
     Entry (Collection elements)
       (unwrap_or pad (default_for_aggregate (sum_list (map (\<lambda>el. target_size (entry_padding el)) elements)))) name"

text \<open>Big-endian bytes of a word.\<close>

definition be_bytes :: "nat \<Rightarrow> 'a::len word \<Rightarrow> u8 list" where
  "be_bytes n w = map (\<lambda>i. ucast (drop_bit (8 * i) w)) (rev [0..<n])"

lemma enum_parts_smaller:
  assumes "enum_tag_and_value_with_paddings c = Inr (Some (tag, val))"
  shows "size (fst tag) < size c" "size (fst val) < size c"
proof -
  obtain els where els: "elements_of_aggregate_with_padding c = Inr (Some els)" "length els = 2" "tag = els ! 0" "val = els ! 1"
    using assms by (auto simp: enum_tag_and_value_with_paddings_def bindE_Inr_iff split: if_splits option.splits)
  have "tag \<in> set els" "val \<in> set els" using els by simp_all
  then show "size (fst tag) < size c" "size (fst val) < size c"
    using elements_smaller [OF els(1)] by (metis prod.collapse)+
qed

lemma parts_smaller:
  "array_elements_with_padding c = Inr (Some els) \<Longrightarrow> el \<in> set els \<Longrightarrow> size (fst el) < size c"
  "struct_fields_with_padding c = Inr (Some els) \<Longrightarrow> el \<in> set els \<Longrightarrow> size (fst el) < size c"
  using elements_smaller [of c els "fst el" "snd el"]
  by (auto simp: array_elements_with_padding_def struct_fields_with_padding_def split: if_splits)

function from_constant :: "constant_content \<Rightarrow> entry_name \<Rightarrow> padding option \<Rightarrow> entry result" where
  "from_constant c name pad =
     (if is_enum (constant_ty c) then
        bindE (enum_tag_and_value_with_paddings c) (\<lambda>r.
        case r of
          None \<Rightarrow> Inl (Panic ''Constant is an enum.'')
        | Some (tag, val) \<Rightarrow>
            bindE (from_constant (fst tag) EntryNonConfigurable (snd tag)) (\<lambda>tag_entry.
            bindE (from_constant (fst val) EntryNonConfigurable (snd val)) (\<lambda>value_entry.
            Inr (new_collection [tag_entry, value_entry] name pad))))
      else
        case constant_val c of
          CUndef \<Rightarrow> Inr (new_byte 0 name pad)
        | CUnit \<Rightarrow> Inr (new_byte 0 name pad)
        | CBool b \<Rightarrow> Inr (new_byte (if b then 1 else 0) name pad)
        | CUint v \<Rightarrow>
            if is_uint8 (constant_ty c) then Inr (new_byte (ucast v) name pad) else Inr (new_word v name pad)
        | CU256 v \<Rightarrow> Inr (new_byte_array (be_bytes 32 v) name pad)
        | CB256 v \<Rightarrow> Inr (new_byte_array (be_bytes 32 v) name pad)
        | CString bytes \<Rightarrow> Inr (new_byte_array bytes name pad)
        | CArray _ \<Rightarrow>
            bindE (array_elements_with_padding c) (\<lambda>r.
            case r of
              None \<Rightarrow> Inl (Panic ''Constant is an array.'')
            | Some els \<Rightarrow>
                bindE (mapM (\<lambda>el. from_constant (fst el) EntryNonConfigurable (snd el)) els) (\<lambda>es.
                Inr (new_collection es name pad)))
        | CStruct _ \<Rightarrow>
            bindE (struct_fields_with_padding c) (\<lambda>r.
            case r of
              None \<Rightarrow> Inl (Panic ''Constant is a struct.'')
            | Some els \<Rightarrow>
                bindE (mapM (\<lambda>el. from_constant (fst el) EntryNonConfigurable (snd el)) els) (\<lambda>es.
                Inr (new_collection es name pad)))
        | CRawUntypedSlice bytes \<Rightarrow> Inr (new_slice bytes name pad)
        | CReference _ \<Rightarrow> Inl (Panic ''not yet implemented: Constant references are currently not supported.'')
        | CSlice _ \<Rightarrow> Inl (Panic ''not yet implemented: Constant slices are currently not supported.''))"
  by pat_completeness auto

termination
  by (relation "measure (\<lambda>(c, _, _). size c)") (auto dest: enum_parts_smaller parts_smaller)

declare from_constant.simps [simp del]

definition array_bytes :: "u8 list \<Rightarrow> u8 list" where
  "array_bytes bytes =
     (if length bytes mod 8 = 0 then bytes
      else take ((length bytes + 7) AND 0xfffffff8) (bytes @ replicate 8 0))"

definition pad_bytes :: "padding \<Rightarrow> u8 list \<Rightarrow> u8 list" where
  "pad_bytes pad bytes =
     (let final_padding = target_size pad - length bytes
      in case pad of
           Left _ \<Rightarrow> replicate final_padding 0 @ bytes
         | Right _ \<Rightarrow> bytes @ replicate final_padding 0)"

fun to_bytes :: "entry \<Rightarrow> u8 list"
  and datum_bytes :: "datum \<Rightarrow> u8 list" where
  "to_bytes (Entry val pad name) = pad_bytes pad (datum_bytes val)"
| "datum_bytes (Byte val) = [val]"
| "datum_bytes (Word val) = be_bytes 8 val"
| "datum_bytes (ByteArray bytes) = array_bytes bytes"
| "datum_bytes (SliceData bytes) = array_bytes bytes"
| "datum_bytes (Collection items) = concat (map to_bytes items)"

definition entry_has_copy_type :: "entry \<Rightarrow> bool" where
  "entry_has_copy_type e \<longleftrightarrow> (case entry_value e of Word _ \<Rightarrow> True | Byte _ \<Rightarrow> True | _ \<Rightarrow> False)"

definition entry_is_byte :: "entry \<Rightarrow> bool" where
  "entry_is_byte e \<longleftrightarrow> (case entry_value e of Byte _ \<Rightarrow> True | _ \<Rightarrow> False)"

lemma entry_value_smaller: "e \<in> set es \<Longrightarrow> size (entry_value e) < size (Collection es)"
  using size_elem_less [of e es] by (cases e) simp

function equiv_data :: "datum \<Rightarrow> datum \<Rightarrow> bool" where
  "equiv_data lhs rhs =
     (case (lhs, rhs) of
        (Byte l, Byte r) \<Rightarrow> l = r
      | (Word l, Word r) \<Rightarrow> l = r
      | (ByteArray l, ByteArray r) \<Rightarrow> l = r
      | (Collection l, Collection r) \<Rightarrow>
          length l = length r \<and> list_all (\<lambda>p. equiv_data (entry_value (fst p)) (entry_value (snd p))) (zip l r)
      | _ \<Rightarrow> False)"
  by pat_completeness auto

termination
proof (relation "measure (\<lambda>(l, r). size l)", goal_cases)
  case (2 lhs rhs x y l r p)
  then have "fst p \<in> set l" by (cases p) (auto dest: set_zip_leftD)
  then show ?case using 2 entry_value_smaller [of "fst p" l] by simp
qed simp

declare equiv_data.simps [simp del]

definition entry_equiv :: "entry \<Rightarrow> entry \<Rightarrow> bool" where
  "entry_equiv e f \<longleftrightarrow> equiv_data (entry_value e) (entry_value f) \<and> entry_name_of e = entry_name_of f"

section \<open>The section\<close>

record data_section =
  non_configurables :: "entry list"
  configurables :: "entry list"
  pointer_id :: "u64 \<rightharpoonup> data_id"

definition num_entries :: "data_section \<Rightarrow> nat" where
  "num_entries ds = length (non_configurables ds) + length (configurables ds)"

definition iter_all_entries :: "data_section \<Rightarrow> entry list" where
  "iter_all_entries ds = non_configurables ds @ configurables ds"

definition absolute_idx :: "data_section \<Rightarrow> data_id \<Rightarrow> nat" where
  "absolute_idx ds data_id =
     (case data_kind data_id of
        NonConfigurable \<Rightarrow> unat (data_idx data_id)
      | Configurable \<Rightarrow> unat (data_idx data_id) + length (non_configurables ds))"

definition list_get :: "'a list \<Rightarrow> nat \<Rightarrow> 'a option" where
  "list_get xs i = (if i < length xs then Some (xs ! i) else None)"

definition data_get :: "data_section \<Rightarrow> data_id \<Rightarrow> entry option" where
  "data_get ds data_id =
     (case data_kind data_id of
        NonConfigurable \<Rightarrow> list_get (non_configurables ds) (unat (data_idx data_id))
      | Configurable \<Rightarrow> list_get (configurables ds) (unat (data_idx data_id)))"

definition round_up_nat :: "nat \<Rightarrow> nat" where
  "round_up_nat n = (n + 7) - (n + 7) mod 8"

definition absolute_idx_to_offset :: "data_section \<Rightarrow> nat \<Rightarrow> nat" where
  "absolute_idx_to_offset ds idx =
     fold (\<lambda>entry offset. round_up_nat (offset + length (to_bytes entry))) (take idx (iter_all_entries ds)) 0"

definition data_id_to_offset :: "data_section \<Rightarrow> data_id \<Rightarrow> nat" where
  "data_id_to_offset ds data_id = absolute_idx_to_offset ds (absolute_idx ds data_id)"

definition serialize_to_bytes :: "data_section \<Rightarrow> u8 list" where
  "serialize_to_bytes ds =
     fold (\<lambda>entry buf.
         let buf = buf @ to_bytes entry;
             aligned_len = round_up_nat (length buf)
         in buf @ replicate (aligned_len - length buf) 0) (iter_all_entries ds) []"

definition data_has_copy_type :: "data_section \<Rightarrow> data_id \<Rightarrow> bool option" where
  "data_has_copy_type ds data_id = map_option entry_has_copy_type (data_get ds data_id)"

definition data_is_byte :: "data_section \<Rightarrow> data_id \<Rightarrow> bool option" where
  "data_is_byte ds data_id = map_option entry_is_byte (data_get ds data_id)"

fun position :: "('a \<Rightarrow> bool) \<Rightarrow> 'a list \<Rightarrow> nat option" where
  "position p [] = None"
| "position p (x # xs) = (if p x then Some 0 else map_option Suc (position p xs))"

text \<open>The handle of an equivalent entry, or of the new one that is pushed.\<close>

definition insert_entry :: "entry list \<Rightarrow> entry \<Rightarrow> u32 \<times> entry list" where
  "insert_entry value_pairs new_entry =
     (case position (\<lambda>entry. entry_equiv entry new_entry) value_pairs of
        Some num \<Rightarrow> (of_nat num, value_pairs)
      | None \<Rightarrow>
          let value_pairs = vec_push value_pairs new_entry
          in (of_nat (length value_pairs - 1), value_pairs))"

definition insert_data_value :: "data_section \<Rightarrow> entry \<Rightarrow> data_id \<times> data_section" where
  "insert_data_value ds new_entry =
     (case entry_name_of new_entry of
        EntryNonConfigurable \<Rightarrow>
          let (idx, es) = insert_entry (non_configurables ds) new_entry
          in (\<lparr>data_idx = idx, data_kind = NonConfigurable\<rparr>, ds\<lparr>non_configurables := es\<rparr>)
      | EntryConfigurable _ \<Rightarrow>
          let (idx, es) = insert_entry (configurables ds) new_entry
          in (\<lparr>data_idx = idx, data_kind = Configurable\<rparr>, ds\<lparr>configurables := es\<rparr>))"

definition append_pointer :: "data_section \<Rightarrow> u64 \<Rightarrow> data_id \<times> data_section" where
  "append_pointer ds pointer_value =
     (let (data_id, ds) = insert_data_value ds (new_word pointer_value EntryNonConfigurable None)
      in (data_id, ds\<lparr>pointer_id := (pointer_id ds)(pointer_value \<mapsto> data_id)\<rparr>))"

definition data_id_of_pointer :: "data_section \<Rightarrow> u64 \<Rightarrow> data_id option" where
  "data_id_of_pointer ds pointer_value = pointer_id ds pointer_value"

definition get_data_word :: "data_section \<Rightarrow> data_id \<Rightarrow> u64 option" where
  "get_data_word ds data_id =
     (case data_get ds data_id of
        Some e \<Rightarrow> (case entry_value e of Word w \<Rightarrow> Some w | _ \<Rightarrow> None)
      | None \<Rightarrow> None)"

section \<open>Where entries are found\<close>

lemma round_up_nat_align: "round_up_nat n = align8 n"
  by (simp add: round_up_nat_def align8_sub)

lemma serialize_prefix:
  "\<exists>rest. fold (\<lambda>entry buf.
         let buf = buf @ to_bytes entry; aligned_len = round_up_nat (length buf)
         in buf @ replicate (aligned_len - length buf) 0) es buf = buf @ rest"
proof (induction es arbitrary: buf)
  case (Cons e es)
  show ?case using Cons by (auto simp: Let_def) (metis append.assoc)
qed simp

lemma serialize_length:
  assumes "length buf mod 8 = 0"
  shows "length (fold (\<lambda>entry buf.
         let buf = buf @ to_bytes entry; aligned_len = round_up_nat (length buf)
         in buf @ replicate (aligned_len - length buf) 0) es buf)
     = fold (\<lambda>entry offset. round_up_nat (offset + length (to_bytes entry))) es (length buf)"
  using assms
proof (induction es arbitrary: buf)
  case (Cons e es)
  let ?b = "buf @ to_bytes e"
  have "length (?b @ replicate (round_up_nat (length ?b) - length ?b) 0) = align8 (length ?b)"
    using align8_ge(1) [of "length ?b"] by (simp add: round_up_nat_align)
  with Cons show ?case by (simp add: Let_def round_up_nat_align)
qed simp

lemma offset_aligned: "n mod 8 = 0 \<Longrightarrow> fold (\<lambda>entry offset. round_up_nat (offset + length (to_bytes entry))) es n mod 8 = 0"
  by (induction es arbitrary: n) (simp_all add: round_up_nat_align)

text \<open>An entry lies in the serialized section at its offset, and the offset is word aligned.\<close>

lemma serialized_at_offset:
  assumes "idx < length (iter_all_entries ds)"
  shows "\<exists>rest. drop (absolute_idx_to_offset ds idx) (serialize_to_bytes ds) = to_bytes (iter_all_entries ds ! idx) @ rest"
    and "absolute_idx_to_offset ds idx mod 8 = 0"
proof -
  let ?es = "iter_all_entries ds" and ?e = "iter_all_entries ds ! idx"
  let ?step = "\<lambda>entry buf.
         let buf = buf @ to_bytes entry; aligned_len = round_up_nat (length buf)
         in buf @ replicate (aligned_len - length buf) 0"
  let ?before = "fold ?step (take idx ?es) []"
  have len: "length ?before = absolute_idx_to_offset ds idx"
    using serialize_length [of "[]" "take idx ?es"] by (simp add: absolute_idx_to_offset_def)
  have "?es = take idx ?es @ ?e # drop (Suc idx) ?es" using assms by (simp add: id_take_nth_drop)
  then have "fold ?step ?es [] = fold ?step (drop (Suc idx) ?es) (?step ?e ?before)"
    by (metis (no_types, lifting) fold_append fold_simps(2) comp_apply)
  then obtain rest where "serialize_to_bytes ds = ?step ?e ?before @ rest"
    using serialize_prefix [of "drop (Suc idx) ?es" "?step ?e ?before"] by (auto simp: serialize_to_bytes_def)
  then have "drop (length ?before) (serialize_to_bytes ds) =
      to_bytes ?e @ replicate (round_up_nat (length (?before @ to_bytes ?e)) - length (?before @ to_bytes ?e)) 0 @ rest"
    by (simp add: Let_def)
  then show "\<exists>rest. drop (absolute_idx_to_offset ds idx) (serialize_to_bytes ds) = to_bytes ?e @ rest"
    unfolding len by blast
  show "absolute_idx_to_offset ds idx mod 8 = 0" using offset_aligned by (simp add: absolute_idx_to_offset_def)
qed

section \<open>Insertion\<close>

lemma position_Some:
  "position p xs = Some i \<longleftrightarrow> i < length xs \<and> p (xs ! i) \<and> (\<forall>j < i. \<not> p (xs ! j))"
proof (induction xs arbitrary: i)
  case (Cons x xs)
  then show ?case by (cases i) (auto simp: less_Suc_eq_0_disj)
qed simp

lemma position_None: "position p xs = None \<longleftrightarrow> (\<forall>x \<in> set xs. \<not> p x)"
  by (induction xs) auto

text \<open>No two entries of a list are equivalent.\<close>

definition merged_entries :: "entry list \<Rightarrow> bool" where
  "merged_entries es \<longleftrightarrow> (\<forall>j < length es. \<forall>i < j. \<not> entry_equiv (es ! i) (es ! j))"

lemma insert_entry_ok:
  assumes "insert_entry es e = (idx, es')" "length es < 2 ^ 32"
  shows "unat idx < length es'" "es' ! unat idx = e \<or> entry_equiv (es' ! unat idx) e"
    "\<exists>ext. es' = es @ ext" "merged_entries es \<Longrightarrow> merged_entries es'" "length es' \<le> Suc (length es)"
proof -
  have small: "unat (of_nat n :: u32) = n" if "n \<le> length es" for n
    using that assms(2) by (simp add: unsigned_of_nat take_bit_nat_eq_self)
  consider (old) i where "position (\<lambda>entry. entry_equiv entry e) es = Some i" "idx = of_nat i" "es' = es"
    | (new) "position (\<lambda>entry. entry_equiv entry e) es = None" "idx = of_nat (length es)" "es' = es @ [e]"
    using assms(1) by (auto simp: insert_entry_def vec_push_def Let_def split: option.splits)
  then have "unat idx < length es' \<and> (es' ! unat idx = e \<or> entry_equiv (es' ! unat idx) e) \<and> (\<exists>ext. es' = es @ ext)
    \<and> (merged_entries es \<longrightarrow> merged_entries es') \<and> length es' \<le> Suc (length es)"
  proof cases
    case old
    then show ?thesis using small [of i] by (simp add: position_Some)
  next
    case new
    have "merged_entries (es @ [e])" if "merged_entries es"
      using that new(1) by (auto simp: merged_entries_def position_None nth_append less_Suc_eq)
    then show ?thesis using new small [of "length es"] by simp
  qed
  then show "unat idx < length es'" "es' ! unat idx = e \<or> entry_equiv (es' ! unat idx) e"
    "\<exists>ext. es' = es @ ext" "merged_entries es \<Longrightarrow> merged_entries es'" "length es' \<le> Suc (length es)" by blast+
qed

text \<open>The data sections the compiler builds.\<close>

definition data_ok :: "data_section \<Rightarrow> bool" where
  "data_ok ds \<longleftrightarrow>
     merged_entries (non_configurables ds) \<and> merged_entries (configurables ds)
   \<and> length (non_configurables ds) < 2 ^ 32 \<and> length (configurables ds) < 2 ^ 32"

lemma insert_data_value_cases:
  assumes "insert_data_value ds e = (did, ds')"
  obtains (non) "entry_name_of e = EntryNonConfigurable" "data_kind did = NonConfigurable"
      "insert_entry (non_configurables ds) e = (data_idx did, non_configurables ds')"
      "configurables ds' = configurables ds"
    | (conf) "\<exists>n. entry_name_of e = EntryConfigurable n" "data_kind did = Configurable"
      "insert_entry (configurables ds) e = (data_idx did, configurables ds')"
      "non_configurables ds' = non_configurables ds"
  using assms by (cases "entry_name_of e") (auto simp: insert_data_value_def Let_def split: prod.splits)

lemma insert_data_value_ok:
  assumes "insert_data_value ds e = (did, ds')" "data_ok ds"
  shows "\<exists>e'. data_get ds' did = Some e' \<and> (e' = e \<or> entry_equiv e' e)"
    "data_get ds i = Some f \<Longrightarrow> data_get ds' i = Some f"
    "merged_entries (non_configurables ds') \<and> merged_entries (configurables ds')"
proof -
  have "(\<exists>e'. data_get ds' did = Some e' \<and> (e' = e \<or> entry_equiv e' e))
    \<and> (data_get ds i = Some f \<longrightarrow> data_get ds' i = Some f)
    \<and> merged_entries (non_configurables ds') \<and> merged_entries (configurables ds')"
    using assms(1)
  proof (cases rule: insert_data_value_cases)
    case non
    note ok = insert_entry_ok [OF non(3)]
    have "length (non_configurables ds) < 2 ^ 32" using assms(2) by (simp add: data_ok_def)
    from ok [OF this] show ?thesis
      using assms(2) non(2,4)
      by (cases "data_kind i") (auto simp: data_get_def data_ok_def list_get_def nth_append)
  next
    case conf
    note ok = insert_entry_ok [OF conf(3)]
    have "length (configurables ds) < 2 ^ 32" using assms(2) by (simp add: data_ok_def)
    from ok [OF this] show ?thesis
      using assms(2) conf(2,4)
      by (cases "data_kind i") (auto simp: data_get_def data_ok_def list_get_def nth_append)
  qed
  then show "\<exists>e'. data_get ds' did = Some e' \<and> (e' = e \<or> entry_equiv e' e)"
    "data_get ds i = Some f \<Longrightarrow> data_get ds' i = Some f"
    "merged_entries (non_configurables ds') \<and> merged_entries (configurables ds')" by blast+
qed

lemma equiv_data_word [simp]: "equiv_data d (Word w) \<longleftrightarrow> d = Word w"
  by (subst equiv_data.simps) (auto split: datum.splits)

lemma data_get_absolute:
  "data_get ds did = Some e \<longleftrightarrow>
     (case data_kind did of
        NonConfigurable \<Rightarrow> unat (data_idx did) < length (non_configurables ds)
      | Configurable \<Rightarrow> unat (data_idx did) < length (configurables ds))
     \<and> absolute_idx ds did < length (iter_all_entries ds) \<and> iter_all_entries ds ! absolute_idx ds did = e"
  by (cases "data_kind did")
    (auto simp: data_get_def list_get_def absolute_idx_def iter_all_entries_def nth_append add.commute)

section \<open>Properties\<close>

text \<open>
  (C22) Data ids point at their data: the bytes of an entry stand in the serialized section at the
  offset computed for its did, and the offset is word aligned.
\<close>

theorem data_id_points_at_bytes:
  assumes "data_get ds did = Some e"
  shows "data_id_to_offset ds did mod 8 = 0
    \<and> take (length (to_bytes e)) (drop (data_id_to_offset ds did) (serialize_to_bytes ds)) = to_bytes e"
  using serialized_at_offset [of "absolute_idx ds did" ds] assms
  by (auto simp: data_get_absolute data_id_to_offset_def)

definition sample_section :: data_section where
  "sample_section =
     \<lparr>non_configurables = [new_word 1 EntryNonConfigurable None, new_byte 2 EntryNonConfigurable None],
      configurables = [new_byte 7 (EntryConfigurable ''C'') None], pointer_id = Map.empty\<rparr>"

lemma sample_section_ok: "data_ok sample_section"
  by (auto simp: data_ok_def sample_section_def merged_entries_def less_Suc_eq entry_equiv_def new_word_def
      new_byte_def equiv_data.simps)

theorem data_id_points_at_bytes_witness:
  "data_id_to_offset sample_section \<lparr>data_idx = 0, data_kind = Configurable\<rparr> mod 8 = 0
    \<and> take (length (to_bytes (new_byte 7 (EntryConfigurable ''C'') None)))
        (drop (data_id_to_offset sample_section \<lparr>data_idx = 0, data_kind = Configurable\<rparr>)
          (serialize_to_bytes sample_section)) = to_bytes (new_byte 7 (EntryConfigurable ''C'') None)"
  by (rule data_id_points_at_bytes) (simp add: data_get_def list_get_def sample_section_def)

text \<open>
  (C24) Inserting keeps all earlier handles valid, returns a handle under which the entry, or one
  with an equivalent value and the same name, is found, and never makes a second copy of an
  equivalent entry.
\<close>

theorem insert_data_value_keeps:
  assumes "data_ok ds" "insert_data_value ds e = (did, ds')"
  shows "(\<exists>e'. data_get ds' did = Some e' \<and> (e' = e \<or> entry_equiv e' e))
    \<and> data_get ds \<subseteq>\<^sub>m data_get ds'
    \<and> merged_entries (non_configurables ds') \<and> merged_entries (configurables ds')"
  using insert_data_value_ok [OF assms(2,1)] by (fastforce simp: map_le_def)

theorem insert_data_value_keeps_witness:
  "(\<exists>e'. data_get (snd (insert_data_value sample_section (new_word 1 EntryNonConfigurable None)))
         (fst (insert_data_value sample_section (new_word 1 EntryNonConfigurable None))) = Some e'
       \<and> (e' = new_word 1 EntryNonConfigurable None \<or> entry_equiv e' (new_word 1 EntryNonConfigurable None)))
   \<and> data_get sample_section \<subseteq>\<^sub>m
         data_get (snd (insert_data_value sample_section (new_word 1 EntryNonConfigurable None)))
   \<and> merged_entries (non_configurables (snd (insert_data_value sample_section (new_word 1 EntryNonConfigurable None))))
   \<and> merged_entries (configurables (snd (insert_data_value sample_section (new_word 1 EntryNonConfigurable None))))"
  by (rule insert_data_value_keeps [OF sample_section_ok]) simp

text \<open>
  (C25) A pointer that was appended is found again: its handle is the one recorded for the pointer
  value, and the word stored under it is the pointer value.
\<close>

theorem append_pointer_roundtrip:
  assumes "data_ok ds" "append_pointer ds v = (did, ds')"
  shows "data_id_of_pointer ds' v = Some did \<and> get_data_word ds' did = Some v"
proof -
  obtain ds1 where ins: "insert_data_value ds (new_word v EntryNonConfigurable None) = (did, ds1)"
    and ds': "ds' = ds1\<lparr>pointer_id := (pointer_id ds1)(v \<mapsto> did)\<rparr>"
    using assms(2) by (auto simp: append_pointer_def Let_def split: prod.splits)
  obtain e' where "data_get ds1 did = Some e'" "entry_value e' = Word v"
    using insert_data_value_ok(1) [OF ins assms(1)] by (auto simp: entry_equiv_def new_word_def)
  moreover have "data_get ds' did = data_get ds1 did" by (simp add: ds' data_get_def split: data_id_entry_kind.split)
  ultimately show ?thesis by (simp add: ds' data_id_of_pointer_def get_data_word_def)
qed

theorem append_pointer_roundtrip_witness:
  "data_id_of_pointer (snd (append_pointer sample_section 1)) 1 = Some (fst (append_pointer sample_section 1))
   \<and> get_data_word (snd (append_pointer sample_section 1)) (fst (append_pointer sample_section 1)) = Some 1"
  by (rule append_pointer_roundtrip [OF sample_section_ok]) simp

section \<open>Two defects\<close>

lemma from_constant_u8 [simp]:
  "from_constant (ConstantContent (Uint 8) (CUint v)) name pad = Inr (new_byte (ucast v) name pad)"
  by (subst from_constant.simps) (simp add: is_enum_def is_struct_def is_uint8_def)

lemma aligned_target_u8: "aligned_target (Uint 8) = Inr 8"
  by (simp add: aligned_target_def type_size_new_def in_bytes_aligned_def round_up_u64_def add_u64_def)

lemma two_bytes_struct:
  "from_constant (ConstantContent (Struct [Uint 8, Uint 8])
     (CStruct [ConstantContent (Uint 8) (CUint a), ConstantContent (Uint 8) (CUint b)])) EntryNonConfigurable None =
   Inr (Entry (Collection [Entry (Byte (ucast a)) (Right 8) EntryNonConfigurable,
     Entry (Byte (ucast b)) (Right 8) EntryNonConfigurable]) (Right 16) EntryNonConfigurable)"
  by (subst from_constant.simps)
    (simp add: is_enum_def is_struct_def get_field_types_def is_union_def struct_fields_with_padding_def
      elements_of_aggregate_with_padding_def extract_enum_tag_and_value_def aligned_target_u8 new_collection_def
      new_byte_def unwrap_or_def default_for_aggregate_def target_size_def)

lemma two_bytes_array:
  "from_constant (ConstantContent (Array (Uint 8) 2)
     (CArray [ConstantContent (Uint 8) (CUint a), ConstantContent (Uint 8) (CUint b)])) EntryNonConfigurable None =
   Inr (Entry (Collection [Entry (Byte (ucast a)) (Right 1) EntryNonConfigurable,
     Entry (Byte (ucast b)) (Right 1) EntryNonConfigurable]) (Right 2) EntryNonConfigurable)"
  by (subst from_constant.simps)
    (simp add: is_enum_def is_struct_def is_array_def array_elements_with_padding_def
      elements_of_aggregate_with_padding_def extract_enum_tag_and_value_def new_collection_def
      new_byte_def unwrap_or_def default_for_aggregate_def default_for_u8_def target_size_def)

text \<open>
  Constants with different layouts share an entry. Equivalence of entries does not look at
  the padding of the parts of a collection, so the array of the bytes one and two gets the handle
  of the struct of the two bytes: its second byte is read as zero.
\<close>

theorem layouts_merged:
  "case from_constant (ConstantContent (Struct [Uint 8, Uint 8])
         (CStruct [ConstantContent (Uint 8) (CUint 1), ConstantContent (Uint 8) (CUint 2)])) EntryNonConfigurable None of
     Inl _ \<Rightarrow> False
   | Inr e \<Rightarrow>
     (case from_constant (ConstantContent (Array (Uint 8) 2)
         (CArray [ConstantContent (Uint 8) (CUint 1), ConstantContent (Uint 8) (CUint 2)])) EntryNonConfigurable None of
        Inl _ \<Rightarrow> False
      | Inr f \<Rightarrow>
         (let (id1, ds1) = insert_data_value \<lparr>non_configurables = [], configurables = [], pointer_id = Map.empty\<rparr> e;
              (id2, ds2) = insert_data_value ds1 f
          in to_bytes f = [1, 2] \<and> id2 = id1
             \<and> take 2 (drop (data_id_to_offset ds2 id2) (serialize_to_bytes ds2)) = [1, 0]))"
  unfolding two_bytes_struct two_bytes_array by code_simp

text \<open>
  Appending a pointer moves configurable entries: pointers are not configurable and stand
  before the configurable entries, so the offset of a configurable entry changes.
\<close>

theorem append_pointer_moves_configurables:
  "data_id_to_offset sample_section \<lparr>data_idx = 0, data_kind = Configurable\<rparr> = 16 \<and>
   data_id_to_offset (snd (append_pointer sample_section 9)) \<lparr>data_idx = 0, data_kind = Configurable\<rparr> = 24"
  by code_simp

end
