(* ===== verification/Asm_Layout.thy ===== *)
theory Asm_Layout
  imports Asm_Data
begin

text \<open>
  Constants in the data section against the memory layout of their types: the bytes of a constant
  have the size of its type, and each part of a constant lies at the offset that the layout
  computes for it. This is what loads from the data section rely on.
\<close>

section \<open>Well-typed constants\<close>

function typed_const :: "constant_content \<Rightarrow> bool" where
  "typed_const c \<longleftrightarrow>
     (case (constant_ty c, constant_val c) of
        (Unit, CUnit) \<Rightarrow> True
      | (Bool, CBool _) \<Rightarrow> True
      | (Uint w, CUint _) \<Rightarrow> w \<in> {8, 16, 32, 64}
      | (Uint w, CU256 _) \<Rightarrow> w = 256
      | (B256, CB256 _) \<Rightarrow> True
      | (StringArray n, CString bytes) \<Rightarrow> length bytes = unat n \<and> length bytes < 2 ^ 32 - 8
      | (Array t n, CArray els) \<Rightarrow>
          length els = unat n \<and> (\<forall>el \<in> set els. constant_ty el = t \<and> typed_const el)
      | (Struct ts, CStruct els) \<Rightarrow>
          (if is_enum (Struct ts)
           then length els = 2 \<and> ts ! 0 = Uint 64 \<and> constant_ty (els ! 0) = Uint 64
             \<and> constant_ty (els ! 1) \<in> set (get_field_types (ts ! 1)) \<and> (\<forall>el \<in> set els. typed_const el)
           else map constant_ty els = ts \<and> (\<forall>el \<in> set els. typed_const el))
      | _ \<Rightarrow> False)"
  by pat_completeness auto
termination
proof (relation "measure size", goal_cases)
  case (2 c x y t n els z)
  then show ?case using size_elem_less [of z els] by (cases c) auto
next
  case (3 c x y ts els z)
  then show ?case using size_elem_less [of z els] by (cases c) auto
next
  case (4 c x y ts els z)
  then show ?case using size_elem_less [of z els] by (cases c) auto
qed simp

declare typed_const.simps [simp del]

section \<open>Sizes of entries\<close>

lemma length_be_bytes [simp]: "length (be_bytes n w) = n"
  by (simp add: be_bytes_def)

lemma and_mask_nat:
  fixes n :: nat
  assumes "n < 2 ^ 32"
  shows "n AND 0xfffffff8 = 8 * (n div 8)"
proof -
  have "n AND push_bit 3 (mask 29) = push_bit 3 (drop_bit 3 n AND mask 29)"
    by (rule bit_eqI) (auto simp: bit_simps)
  also have "drop_bit 3 n AND mask 29 = drop_bit 3 n"
    using assms by (simp add: take_bit_eq_mask [symmetric] take_bit_nat_eq_self_iff drop_bit_eq_div less_mult_imp_div_less)
  finally show ?thesis by (simp add: mask_eq_exp_minus_1 push_bit_eq_mult drop_bit_eq_div)
qed

lemma array_bytes_aligned:
  assumes "length bytes < 2 ^ 32 - 8"
  shows "\<exists>zeros. array_bytes bytes = bytes @ zeros \<and> length (array_bytes bytes) = align8 (length bytes)"
proof (cases "length bytes mod 8 = 0")
  case True
  then show ?thesis by (simp add: array_bytes_def)
next
  case False
  have "(length bytes + 7) AND 0xfffffff8 = align8 (length bytes)"
    using and_mask_nat [of "length bytes + 7"] assms by (simp add: align8_def)
  then have "array_bytes bytes = take (align8 (length bytes)) (bytes @ replicate 8 0)"
    using False by (simp add: array_bytes_def)
  then show ?thesis using align8_ge [of "length bytes"] by (auto simp: take_append)
qed

lemma pad_bytes_length: "length (pad_bytes p bs) = max (target_size p) (length bs)"
  by (cases p) (auto simp: pad_bytes_def Let_def target_size_def)

lemma pad_bytes_id: "target_size p \<le> length bs \<Longrightarrow> pad_bytes p bs = bs"
  by (cases p) (auto simp: pad_bytes_def Let_def)

text \<open>The datum of a constant, which does not depend on the name and the padding of its entry.\<close>

definition entry_fits :: "constant_content \<Rightarrow> padding option \<Rightarrow> entry \<Rightarrow> bool" where
  "entry_fits c pad e \<longleftrightarrow>
     length (datum_bytes (entry_value e)) = bytes_of (constant_ty c)
   \<and> (case pad of Some p \<Rightarrow> entry_padding e = p | None \<Rightarrow> target_size (entry_padding e) \<le> bytes_of (constant_ty c))"

lemma entry_fits_None: "entry_fits c None e \<Longrightarrow> to_bytes e = datum_bytes (entry_value e)"
  by (cases e) (simp add: entry_fits_def pad_bytes_id)

lemma entry_fits_length:
  "entry_fits c None e \<Longrightarrow> length (to_bytes e) = bytes_of (constant_ty c)"
  "entry_fits c (Some p) e \<Longrightarrow> bytes_of (constant_ty c) \<le> target_size p \<Longrightarrow> length (to_bytes e) = target_size p"
  by (cases e; simp add: entry_fits_def pad_bytes_length pad_bytes_id)+

lemma aligned_target_ok: "sized t \<Longrightarrow> aligned_target t = Inr (align8 (bytes_of t))"
  using aligned_total [of t] ty_size_total [of t] by (auto simp: aligned_target_def aligned_size_def bindE_Inr_iff)

lemma entry_fits_new:
  "entry_fits c pad (new_collection es name pad)"
  if "length (concat (map to_bytes es)) = bytes_of (constant_ty c)"
    "sum_list (map (\<lambda>el. target_size (entry_padding el)) es) \<le> bytes_of (constant_ty c)"
  using that by (auto simp: entry_fits_def new_collection_def unwrap_or_def default_for_aggregate_def target_size_def
      split: option.splits)

text \<open>The entries of a list of elements, each with its padding.\<close>

lemma entries_sum:
  assumes "list_all2 (\<lambda>p e. entry_fits (fst p) (snd p) e) ps es"
    and "\<And>p. p \<in> set ps \<Longrightarrow> (case snd p of None \<Rightarrow> f p = bytes_of (constant_ty (fst p))
           | Some q \<Rightarrow> f p = target_size q \<and> bytes_of (constant_ty (fst p)) \<le> target_size q)"
  shows "map (\<lambda>e. length (to_bytes e)) es = map f ps"
    and "sum_list (map (\<lambda>e. target_size (entry_padding e)) es) \<le> sum_list (map f ps)"
proof -
  have "map (\<lambda>e. length (to_bytes e)) es = map f ps \<and>
      sum_list (map (\<lambda>e. target_size (entry_padding e)) es) \<le> sum_list (map f ps)"
    using assms
  proof (induction rule: list_all2_induct)
    case (Cons p ps e es)
    have "length (to_bytes e) = f p \<and> target_size (entry_padding e) \<le> f p"
      using Cons.hyps(1) Cons.prems [of p] entry_fits_length [of "fst p"]
      by (cases "snd p") (auto simp: entry_fits_def)
    then show ?case using Cons.IH Cons.prems by simp
  qed simp
  then show "map (\<lambda>e. length (to_bytes e)) es = map f ps"
    "sum_list (map (\<lambda>e. target_size (entry_padding e)) es) \<le> sum_list (map f ps)" by blast+
qed

lemma mapM_entries:
  assumes "\<And>p. p \<in> set ps \<Longrightarrow> \<exists>e. from_constant (fst p) EntryNonConfigurable (snd p) = Inr e \<and> entry_fits (fst p) (snd p) e"
  shows "\<exists>es. mapM (\<lambda>p. from_constant (fst p) EntryNonConfigurable (snd p)) ps = Inr es
    \<and> list_all2 (\<lambda>p e. from_constant (fst p) EntryNonConfigurable (snd p) = Inr e \<and> entry_fits (fst p) (snd p) e) ps es"
  using assms
proof (induction ps)
  case (Cons p ps)
  obtain e where "from_constant (fst p) EntryNonConfigurable (snd p) = Inr e" "entry_fits (fst p) (snd p) e"
    using Cons.prems [of p] by auto
  moreover obtain es where "mapM (\<lambda>p. from_constant (fst p) EntryNonConfigurable (snd p)) ps = Inr es"
      "list_all2 (\<lambda>p e. from_constant (fst p) EntryNonConfigurable (snd p) = Inr e \<and> entry_fits (fst p) (snd p) e) ps es"
    using Cons.IH Cons.prems by auto
  ultimately show ?case by auto
qed simp

text \<open>The parts of a constant with the paddings they get.\<close>

definition padded_parts :: "constant_content \<Rightarrow> (constant_content \<times> padding option) list" where
  "padded_parts c =
     (case constant_val c of
        CArray els \<Rightarrow> map (\<lambda>el. (el, None)) els
      | CStruct els \<Rightarrow>
          if is_enum (constant_ty c)
          then [(els ! 0, None), (els ! 1, Some (Left (align8 (bytes_of (get_field_types (constant_ty c) ! 1)))))]
          else map (\<lambda>el. (el, Some (Right (align8 (bytes_of (constant_ty el)))))) els
      | _ \<Rightarrow> [])"

definition part_length :: "constant_content \<times> padding option \<Rightarrow> nat" where
  "part_length p = (case snd p of None \<Rightarrow> bytes_of (constant_ty (fst p)) | Some q \<Rightarrow> target_size q)"

definition aggregate_const :: "constant_content \<Rightarrow> bool" where
  "aggregate_const c \<longleftrightarrow> is_array (constant_ty c) \<or> is_struct (constant_ty c)"

lemma enum_type:
  assumes "is_enum (Struct ts)"
  shows "\<exists>w vs. ts = [Uint w, Union vs]"
proof -
  have "length ts = 2" using assms by (simp add: is_enum_def get_field_types_def Let_def)
  then obtain a b where ts: "ts = [a, b]" by (auto simp: length_Suc_conv numeral_2_eq_2)
  then show ?thesis using assms
    by (auto simp: is_enum_def get_field_types_def is_uint_def is_union_def split: ir_type.splits)
qed

lemma typed_aggregate:
  assumes "typed_const c" "aggregate_const c"
  obtains (arr) t n els where "c = ConstantContent (Array t n) (CArray els)" "length els = unat n"
      "\<And>el. el \<in> set els \<Longrightarrow> constant_ty el = t \<and> typed_const el"
    | (str) ts els where "c = ConstantContent (Struct ts) (CStruct els)" "\<not> is_enum (Struct ts)"
      "map constant_ty els = ts" "\<And>el. el \<in> set els \<Longrightarrow> typed_const el"
    | (enm) vs tag val where "c = ConstantContent (Struct [Uint 64, Union vs]) (CStruct [tag, val])"
      "constant_ty tag = Uint 64" "constant_ty val \<in> set vs" "typed_const tag" "typed_const val"
proof -
  obtain ty v where c: "c = ConstantContent ty v" by (cases c)
  show thesis
  proof (cases ty)
    case (Array t n)
    then show ?thesis using assms(1) c arr by (subst (asm) typed_const.simps) (auto split: constant_value.splits)
  next
    case (Struct ts)
    then obtain els where v: "v = CStruct els"
      using assms(1) c by (subst (asm) typed_const.simps) (auto split: constant_value.splits)
    show ?thesis
    proof (cases "is_enum (Struct ts)")
      case False
      then show ?thesis using assms(1) c Struct v str by (subst (asm) typed_const.simps) auto
    next
      case True
      then obtain w vs where ts: "ts = [Uint w, Union vs]" using enum_type by blast
      have "length els = 2" "w = 64" "constant_ty (els ! 0) = Uint 64" "constant_ty (els ! 1) \<in> set vs"
          "\<forall>el \<in> set els. typed_const el"
        using assms(1) c Struct v True ts by (subst (asm) typed_const.simps; simp add: get_field_types_def)+
      moreover from this(1) obtain tag val where "els = [tag, val]" by (auto simp: length_Suc_conv numeral_2_eq_2)
      ultimately show ?thesis using enm c Struct v ts by auto
    qed
  qed (use assms(2) c in \<open>auto simp: aggregate_const_def is_array_def is_struct_def\<close>)
qed

lemma is_enum_tagged [simp]: "is_enum (Struct [Uint w, Union vs])"
  by (simp add: is_enum_def is_struct_def get_field_types_def is_uint_def is_union_def)

lemma not_enum_array [simp]: "\<not> is_enum (Array t n)"
  by (simp add: is_enum_def is_struct_def)

lemma from_constant_aggregate:
  assumes "typed_const c" "aggregate_const c" "sized (constant_ty c)"
  shows "from_constant c name pad =
    bindE (mapM (\<lambda>p. from_constant (fst p) EntryNonConfigurable (snd p)) (padded_parts c))
      (\<lambda>es. Inr (new_collection es name pad))"
  using assms(1,2)
proof (cases rule: typed_aggregate)
  case (arr t n els)
  then show ?thesis
    by (subst from_constant.simps)
      (simp add: array_elements_with_padding_def is_array_def elements_of_aggregate_with_padding_def
        extract_enum_tag_and_value_def padded_parts_def)
next
  case (str ts els)
  have "aligned_target (constant_ty el) = Inr (align8 (bytes_of (constant_ty el)))" if "el \<in> set els" for el
    using that str(1,3) assms(3) by (intro aligned_target_ok) (auto simp: list_all_iff)
  then have "mapM (\<lambda>el. bindE (aligned_target (constant_ty el)) (\<lambda>n. Inr (el, Some (Right n)))) els =
      Inr (map (\<lambda>el. (el, Some (Right (align8 (bytes_of (constant_ty el)))))) els)"
    by (intro mapM_pure) simp
  then show ?thesis using str
    by (subst from_constant.simps)
      (simp add: struct_fields_with_padding_def is_struct_def elements_of_aggregate_with_padding_def
        extract_enum_tag_and_value_def padded_parts_def)
next
  case (enm vs tag val)
  have "aligned_target (Union vs) = Inr (align8 (bytes_of (Union vs)))"
    using enm(1) assms(3) by (intro aligned_target_ok) simp
  then show ?thesis using enm
    by (subst from_constant.simps)
      (simp add: enum_tag_and_value_with_paddings_def elements_of_aggregate_with_padding_def get_field_types_def
        extract_enum_tag_and_value_def padded_parts_def bindE_assoc del: bytes_of.simps)
qed

lemma padded_parts_ok:
  assumes "typed_const c" "aggregate_const c" "sized (constant_ty c)"
  shows "sum_list (map part_length (padded_parts c)) = bytes_of (constant_ty c)"
    and "\<And>p. p \<in> set (padded_parts c) \<Longrightarrow> typed_const (fst p) \<and> sized (constant_ty (fst p)) \<and> size (fst p) < size c
       \<and> (case snd p of None \<Rightarrow> part_length p = bytes_of (constant_ty (fst p))
          | Some q \<Rightarrow> part_length p = target_size q \<and> bytes_of (constant_ty (fst p)) \<le> target_size q)"
proof -
  have "sum_list (map part_length (padded_parts c)) = bytes_of (constant_ty c) \<and>
    (\<forall>p \<in> set (padded_parts c). typed_const (fst p) \<and> sized (constant_ty (fst p)) \<and> size (fst p) < size c
       \<and> (case snd p of None \<Rightarrow> part_length p = bytes_of (constant_ty (fst p))
          | Some q \<Rightarrow> part_length p = target_size q \<and> bytes_of (constant_ty (fst p)) \<le> target_size q))"
    using assms(1,2)
  proof (cases rule: typed_aggregate)
    case (arr t n els)
    have "map (\<lambda>el. bytes_of (constant_ty el)) els = replicate (length els) (bytes_of t)"
      using arr(3) by (intro nth_equalityI) auto
    then have "(\<Sum>el\<leftarrow>els. bytes_of (constant_ty el)) = unat n * bytes_of t"
      using arr(2) by (simp add: sum_list_replicate)
    then show ?thesis using arr assms(3) less_SucI [OF size_elem_less, of _ els]
      by (auto simp: padded_parts_def part_length_def comp_def)
  next
    case (str ts els)
    have "(\<Sum>el\<leftarrow>els. align8 (bytes_of (constant_ty el))) = bytes_of (Struct ts)"
      using str(3) by (simp flip: str(3) add: comp_def)
    then show ?thesis using str assms(3) less_SucI [OF size_elem_less, of _ els] align8_ge(1)
      by (auto simp: padded_parts_def part_length_def comp_def target_size_def list_all_iff)
  next
    case (enm vs tag val)
    have "bytes_of (constant_ty val) \<le> align8 (bytes_of (Union vs))"
      using union_member_size [OF enm(3)] align8_ge(1) order_trans by meson
    moreover have "sized (constant_ty val)" using enm(1,3) assms(3) by (auto simp: list_all_iff)
    moreover have "align8 8 = 8" by (simp add: align8_def)
    ultimately show ?thesis using enm
      by (simp add: padded_parts_def part_length_def target_size_def get_field_types_def del: bytes_of.simps(13))
  qed
  then show "sum_list (map part_length (padded_parts c)) = bytes_of (constant_ty c)"
    "\<And>p. p \<in> set (padded_parts c) \<Longrightarrow> typed_const (fst p) \<and> sized (constant_ty (fst p)) \<and> size (fst p) < size c
       \<and> (case snd p of None \<Rightarrow> part_length p = bytes_of (constant_ty (fst p))
          | Some q \<Rightarrow> part_length p = target_size q \<and> bytes_of (constant_ty (fst p)) \<le> target_size q)" by blast+
qed

lemma from_constant_scalar:
  assumes "typed_const c" "\<not> aggregate_const c"
  shows "\<exists>e. from_constant c name pad = Inr e \<and> entry_fits c pad e"
proof -
  obtain ty v where c: "c = ConstantContent ty v" by (cases c)
  have ne: "\<not> is_enum ty" using assms(2) c by (simp add: aggregate_const_def is_enum_def)
  note fits = entry_fits_def unwrap_or_def target_size_def new_byte_def new_word_def new_byte_array_def
    default_for_u8_def default_for_u64_def default_for_byte_array_def
  show ?thesis
  proof (cases ty)
    case (Uint w)
    then show ?thesis using assms(1) c ne
      by (subst from_constant.simps, subst (asm) typed_const.simps)
        (auto simp: is_uint8_def fits array_bytes_def split: constant_value.splits option.splits)
  next
    case (StringArray n)
    then obtain bytes where v: "v = CString bytes" "length bytes = unat n" "length bytes < 2 ^ 32 - 8"
      using assms(1) c by (subst (asm) typed_const.simps) (auto split: constant_value.splits)
    then show ?thesis using c ne StringArray array_bytes_aligned [of bytes] align8_ge(1) [of "unat n"]
      by (subst from_constant.simps) (auto simp: fits split: option.splits)
  qed (use assms c ne in \<open>subst from_constant.simps, subst (asm) typed_const.simps;
      auto simp: fits array_bytes_def aggregate_const_def is_array_def is_struct_def split: constant_value.splits option.splits\<close>)+
qed

lemma from_constant_fits:
  "typed_const c \<Longrightarrow> sized (constant_ty c) \<Longrightarrow> \<exists>e. from_constant c name pad = Inr e \<and> entry_fits c pad e"
proof (induction "size c" arbitrary: c name pad rule: less_induct)
  case less
  show ?case
  proof (cases "aggregate_const c")
    case True
    note parts = padded_parts_ok [OF less.prems(1) True less.prems(2)]
    have "\<exists>es. mapM (\<lambda>p. from_constant (fst p) EntryNonConfigurable (snd p)) (padded_parts c) = Inr es
      \<and> list_all2 (\<lambda>p e. from_constant (fst p) EntryNonConfigurable (snd p) = Inr e \<and> entry_fits (fst p) (snd p) e)
          (padded_parts c) es"
      by (rule mapM_entries) (use less.hyps parts(2) in blast)
    then obtain es where es: "mapM (\<lambda>p. from_constant (fst p) EntryNonConfigurable (snd p)) (padded_parts c) = Inr es"
        "list_all2 (\<lambda>p e. entry_fits (fst p) (snd p) e) (padded_parts c) es"
      using list_all2_mono [where Q = "\<lambda>p e. entry_fits (fst p) (snd p) e"] by (metis (no_types, lifting))
    have cond: "case snd p of None \<Rightarrow> part_length p = bytes_of (constant_ty (fst p))
          | Some q \<Rightarrow> part_length p = target_size q \<and> bytes_of (constant_ty (fst p)) \<le> target_size q"
      if "p \<in> set (padded_parts c)" for p using parts(2) [OF that] by blast
    note sums = entries_sum [OF es(2) cond]
    have "length (concat (map to_bytes es)) = bytes_of (constant_ty c)"
      using sums(1) parts(1) by (simp add: length_concat comp_def)
    then have "entry_fits c pad (new_collection es name pad)"
      using sums(2) parts(1) by (intro entry_fits_new) simp_all
    then show ?thesis using from_constant_aggregate [OF less.prems(1) True less.prems(2)] es(1) by simp
  qed (use from_constant_scalar less.prems in blast)
qed

section \<open>Parts of constants\<close>

definition const_bytes :: "constant_content \<Rightarrow> u8 list" where
  "const_bytes c = (case from_constant c EntryNonConfigurable None of Inr e \<Rightarrow> to_bytes e | Inl _ \<Rightarrow> [])"

lemma entry_value_new [simp]:
  "entry_value (new_byte v name pad) = Byte v" "entry_value (new_word v' name pad) = Word v'"
  "entry_value (new_byte_array bs name pad) = ByteArray bs" "entry_value (new_slice bs name pad) = SliceData bs"
  "entry_value (new_collection es name pad) = Collection es"
  by (simp_all add: new_byte_def new_word_def new_byte_array_def new_slice_def new_collection_def)

lemma entry_value_independent:
  assumes "typed_const c" "sized (constant_ty c)" "from_constant c n p = Inr e" "from_constant c n' p' = Inr e'"
  shows "entry_value e = entry_value e'"
proof (cases "aggregate_const c")
  case True
  then show ?thesis
    using assms(3,4) unfolding from_constant_aggregate [OF assms(1) True assms(2)] by (auto simp: bindE_Inr_iff)
next
  case False
  then have "\<not> is_enum (constant_ty c)" by (auto simp: aggregate_const_def is_enum_def)
  moreover have "constant_val c \<noteq> CArray els" "constant_val c \<noteq> CStruct els" for els
    using assms(1) False by (subst (asm) typed_const.simps;
        auto simp: aggregate_const_def is_array_def is_struct_def split: ir_type.splits)+
  ultimately show ?thesis using assms(3,4)
    by (subst (asm) (1 2) from_constant.simps) (auto split: constant_value.splits if_splits)
qed

lemma const_bytes_entry:
  assumes "typed_const c" "sized (constant_ty c)" "from_constant c n p = Inr e"
  shows "datum_bytes (entry_value e) = const_bytes c" "length (const_bytes c) = bytes_of (constant_ty c)"
proof -
  obtain e' where e': "from_constant c EntryNonConfigurable None = Inr e'" "entry_fits c None e'"
    using from_constant_fits [OF assms(1,2)] by blast
  then show "datum_bytes (entry_value e) = const_bytes c" "length (const_bytes c) = bytes_of (constant_ty c)"
    using entry_value_independent [OF assms(1,2) e'(1) assms(3)] entry_fits_None [OF e'(2)] entry_fits_length(1) [OF e'(2)]
    by (simp_all add: const_bytes_def)
qed

lemma const_bytes_length: "typed_const c \<Longrightarrow> sized (constant_ty c) \<Longrightarrow> length (const_bytes c) = bytes_of (constant_ty c)"
  using from_constant_fits const_bytes_entry(2) by blast

lemma concat_slice:
  assumes "j < length xss"
  shows "take (length (xss ! j)) (drop (sum_list (map length (take j xss))) (concat xss)) = xss ! j"
proof -
  have "concat xss = concat (take j xss) @ xss ! j @ concat (drop (Suc j) xss)"
    using assms by (metis concat.simps(2) concat_append id_take_nth_drop)
  moreover have "length (concat (take j xss)) = sum_list (map length (take j xss))" by (rule length_concat)
  ultimately show ?thesis by simp
qed

text \<open>The bytes of a part, padded, stand behind the bytes of the parts before it.\<close>

definition padded_bytes :: "constant_content \<times> padding option \<Rightarrow> u8 list" where
  "padded_bytes p = (case snd p of None \<Rightarrow> const_bytes (fst p) | Some q \<Rightarrow> pad_bytes q (const_bytes (fst p)))"

lemma padded_part_slice:
  assumes "typed_const c" "aggregate_const c" "sized (constant_ty c)" "j < length (padded_parts c)"
  shows "take (part_length (padded_parts c ! j))
      (drop (sum_list (map part_length (take j (padded_parts c)))) (const_bytes c)) = padded_bytes (padded_parts c ! j)"
proof -
  note parts = padded_parts_ok [OF assms(1-3)]
  have part: "to_bytes e = padded_bytes p \<and> length (to_bytes e) = part_length p"
    if p: "p \<in> set (padded_parts c)" "from_constant (fst p) EntryNonConfigurable (snd p) = Inr e" for p e
  proof -
    have ok: "typed_const (fst p)" "sized (constant_ty (fst p))"
        "case snd p of None \<Rightarrow> part_length p = bytes_of (constant_ty (fst p))
         | Some q \<Rightarrow> part_length p = target_size q \<and> bytes_of (constant_ty (fst p)) \<le> target_size q"
      using parts(2) [OF p(1)] by blast+
    have fits: "entry_fits (fst p) (snd p) e" using from_constant_fits [OF ok(1,2)] p(2) by (metis sum.inject(2))
    note bytes = const_bytes_entry(1) [OF ok(1,2) p(2)]
    show ?thesis
    proof (cases "snd p")
      case None
      then show ?thesis using fits entry_fits_None [of "fst p" e] entry_fits_length(1) [of "fst p" e] bytes ok(3)
        by (simp add: padded_bytes_def)
    next
      case (Some q)
      then have "to_bytes e = pad_bytes q (const_bytes (fst p))" using fits bytes by (cases e) (simp add: entry_fits_def)
      then show ?thesis using Some fits entry_fits_length(2) [of "fst p" q e] ok(3) by (simp add: padded_bytes_def)
    qed
  qed
  obtain e where e: "from_constant c EntryNonConfigurable None = Inr e" "entry_fits c None e"
    using from_constant_fits [OF assms(1,3)] by blast
  then obtain es where es: "mapM (\<lambda>p. from_constant (fst p) EntryNonConfigurable (snd p)) (padded_parts c) = Inr es"
      "e = new_collection es EntryNonConfigurable None"
    unfolding from_constant_aggregate [OF assms(1-3)] by (auto simp: bindE_Inr_iff)
  then have "list_all2 (\<lambda>p e. to_bytes e = padded_bytes p \<and> length (to_bytes e) = part_length p) (padded_parts c) es"
    unfolding mapM_Inr_iff list_all2_conv_all_nth using part nth_mem by metis
  then have maps: "map to_bytes es = map padded_bytes (padded_parts c)"
      "map (\<lambda>e. length (to_bytes e)) es = map part_length (padded_parts c)"
    by (induction rule: list_all2_induct) auto
  have bytes: "const_bytes c = concat (map to_bytes es)"
    using e entry_fits_None [OF e(2)] by (simp add: const_bytes_def es(2))
  have len: "length es = length (padded_parts c)" using map_eq_imp_length_eq [OF maps(1)] .
  have "map length (take j (map to_bytes es)) = map part_length (take j (padded_parts c))"
    using maps(2) by (simp add: take_map [symmetric] comp_def)
  moreover have "length (map to_bytes es ! j) = part_length (padded_parts c ! j)"
    using maps(2) assms(4) len by (metis (mono_tags, lifting) length_map nth_map)
  ultimately show ?thesis
    using concat_slice [of j "map to_bytes es"] assms(4) len maps(1) unfolding bytes by (metis length_map nth_map)
qed

fun const_at :: "constant_content \<Rightarrow> u64 list \<Rightarrow> constant_content option" where
  "const_at c [] = Some c"
| "const_at c (i # is) =
     (case constant_val c of
        CArray els \<Rightarrow> if unat i < length els then const_at (els ! unat i) is else None
      | CStruct els \<Rightarrow>
          if is_enum (constant_ty c) then
            (if i = 0 then const_at (els ! 0) is
             else
               case is of
                 [] \<Rightarrow> None
               | k # is' \<Rightarrow>
                   if i = 1 \<and> unat k < length (get_field_types (get_field_types (constant_ty c) ! 1))
                     \<and> constant_ty (els ! 1) = get_field_types (get_field_types (constant_ty c) ! 1) ! unat k
                   then const_at (els ! 1) is' else None)
          else if unat i < length els then const_at (els ! unat i) is else None
      | _ \<Rightarrow> None)"

lemma slice_slice:
  assumes "take n (drop o1 bs) = cs" "o2 + m \<le> n"
  shows "take m (drop o2 cs) = take m (drop (o1 + o2) bs)"
  using assms(2) unfolding assms(1) [symmetric] by (simp add: drop_take min_def add.commute)

lemma pad_bytes_slices:
  "length bs \<le> n \<Longrightarrow> take (length bs) (pad_bytes (Right n) bs) = bs"
  "length bs \<le> n \<Longrightarrow> drop (n - length bs) (pad_bytes (Left n) bs) = bs"
  by (simp_all add: pad_bytes_def Let_def target_size_def)

text \<open>The first step into a constant: where a direct part of it stands.\<close>

lemma array_part_slice:
  assumes "typed_const c" "sized (constant_ty c)" "constant_ty c = Array t n" "constant_val c = CArray els" "i < length els"
  shows "take (bytes_of t) (drop (i * bytes_of t) (const_bytes c)) = const_bytes (els ! i)"
proof -
  have agg: "aggregate_const c" using assms(3) by (simp add: aggregate_const_def is_array_def)
  have parts: "padded_parts c = map (\<lambda>el. (el, None)) els" using assms(4) by (simp add: padded_parts_def)
  have ty: "constant_ty el = t" if "el \<in> set els" for el
    using assms(1,3,4) that by (subst (asm) typed_const.simps) auto
  have "map part_length (take i (padded_parts c)) = replicate i (bytes_of t)"
    using ty assms(5) by (intro nth_equalityI) (auto simp: parts part_length_def)
  then show ?thesis
    using padded_part_slice [OF assms(1) agg assms(2), of i] assms(5) ty [of "els ! i"]
    by (simp add: parts part_length_def padded_bytes_def sum_list_replicate)
qed

lemma struct_part_slice:
  assumes "typed_const c" "sized (constant_ty c)" "constant_ty c = Struct ts" "constant_val c = CStruct els"
    and "\<not> is_enum (Struct ts)" "i < length els"
  shows "take (bytes_of (ts ! i)) (drop (sum_list (map (\<lambda>t. align8 (bytes_of t)) (take i ts))) (const_bytes c))
     = const_bytes (els ! i)" "constant_ty (els ! i) = ts ! i" "i < length ts"
proof -
  have agg: "aggregate_const c" using assms(3) by (simp add: aggregate_const_def is_struct_def)
  have parts: "padded_parts c = map (\<lambda>el. (el, Some (Right (align8 (bytes_of (constant_ty el)))))) els"
    using assms(3-5) by (simp add: padded_parts_def)
  have ty: "map constant_ty els = ts" using assms(1,3-5) by (subst (asm) typed_const.simps) auto
  then show i: "i < length ts" and ti: "constant_ty (els ! i) = ts ! i" using assms(6) by auto
  let ?f = "\<lambda>t. align8 (bytes_of t)"
  have "map part_length (take i (padded_parts c)) = map ?f (take i ts)"
    by (simp add: parts part_length_def target_size_def take_map [symmetric] flip: ty)
      (simp add: take_map comp_def part_length_def target_size_def)
  then have slice: "take (?f (ts ! i)) (drop (sum_list (map ?f (take i ts))) (const_bytes c))
      = pad_bytes (Right (?f (ts ! i))) (const_bytes (els ! i))"
    using padded_part_slice [OF assms(1) agg assms(2), of i] assms(6) ti
    by (simp add: parts part_length_def padded_bytes_def target_size_def)
  have "typed_const (els ! i)" "sized (constant_ty (els ! i))"
    using padded_parts_ok(2) [OF assms(1) agg assms(2), of "padded_parts c ! i"] assms(6) by (auto simp: parts)
  then have len: "length (const_bytes (els ! i)) = bytes_of (ts ! i)" using const_bytes_length ti by simp
  have "take (bytes_of (ts ! i)) (drop 0 (pad_bytes (Right (?f (ts ! i))) (const_bytes (els ! i))))
      = take (bytes_of (ts ! i)) (drop (sum_list (map ?f (take i ts)) + 0) (const_bytes c))"
    by (rule slice_slice [OF slice]) (use align8_ge(1) in simp)
  then show "take (bytes_of (ts ! i)) (drop (sum_list (map ?f (take i ts))) (const_bytes c)) = const_bytes (els ! i)"
    using pad_bytes_slices(1) [of "const_bytes (els ! i)" "?f (ts ! i)"] len align8_ge(1) by simp
qed

lemma enum_part_slices:
  assumes "typed_const c" "sized (constant_ty c)" "c = ConstantContent (Struct [Uint 64, Union vs]) (CStruct [tag, val])"
    and "constant_ty tag = Uint 64" "constant_ty val \<in> set vs" "typed_const tag" "typed_const val"
  shows "take 8 (const_bytes c) = const_bytes tag"
    and "take (bytes_of (constant_ty val)) (drop (8 + (bytes_of (Union vs) - bytes_of (constant_ty val))) (const_bytes c))
       = const_bytes val"
proof -
  have agg: "aggregate_const c" using assms(3) by (simp add: aggregate_const_def is_struct_def)
  let ?U = "bytes_of (Union vs)"
  have "?U \<in> insert 0 ((\<lambda>t. align8 (bytes_of t)) ` set vs)"
    unfolding bytes_of.simps set_map by (rule Max_in) auto
  then have "?U mod 8 = 0" by auto
  then have al: "align8 ?U = ?U" by simp
  have parts: "padded_parts c = [(tag, None), (val, Some (Left ?U))]"
    using al by (simp add: assms(3) padded_parts_def get_field_types_def del: bytes_of.simps)
  have tag: "part_length (tag, None) = 8" using assms(4) by (simp add: part_length_def)
  show "take 8 (const_bytes c) = const_bytes tag"
    using padded_part_slice [OF assms(1) agg assms(2), of 0] tag by (simp add: parts padded_bytes_def)
  have slice: "take ?U (drop 8 (const_bytes c)) = pad_bytes (Left ?U) (const_bytes val)"
    using padded_part_slice [OF assms(1) agg assms(2), of 1] tag
    by (simp add: parts padded_bytes_def part_length_def target_size_def del: bytes_of.simps)
  have le: "bytes_of (constant_ty val) \<le> ?U"
    using union_member_size [OF assms(5)] align8_ge(1) order_trans by meson
  have "sized (constant_ty val)" using assms(2,3,5) by (auto simp: list_all_iff)
  then have len: "length (const_bytes val) = bytes_of (constant_ty val)" by (rule const_bytes_length [OF assms(7)])
  have "take (bytes_of (constant_ty val)) (drop (?U - bytes_of (constant_ty val)) (pad_bytes (Left ?U) (const_bytes val)))
      = take (bytes_of (constant_ty val)) (drop (8 + (?U - bytes_of (constant_ty val))) (const_bytes c))"
    by (rule slice_slice [OF slice]) (use le in simp)
  then show "take (bytes_of (constant_ty val)) (drop (8 + (?U - bytes_of (constant_ty val))) (const_bytes c)) = const_bytes val"
    using pad_bytes_slices(2) [of "const_bytes val" ?U] len le by simp
qed

lemma const_at_aggregate:
  assumes "const_at c (i # is) = Some p" "typed_const c"
  shows "aggregate_const c"
  using assms by (subst (asm) typed_const.simps)
    (auto simp: aggregate_const_def is_array_def is_struct_def split: constant_value.splits ir_type.splits if_splits)

text \<open>What is to be shown of a constant and a path into it.\<close>

definition part_found :: "constant_content \<Rightarrow> u64 list \<Rightarrow> constant_content \<Rightarrow> bool" where
  "part_found c indices p \<longleftrightarrow> (\<exists>off. part_at (constant_ty c) indices = Some (constant_ty p, off)
     \<and> take (bytes_of (constant_ty p)) (drop off (const_bytes c)) = const_bytes p)"

lemma part_found_step:
  assumes "part_found el indices p" "take (bytes_of (constant_ty el)) (drop o1 (const_bytes c)) = const_bytes el"
  shows "\<exists>off. part_at (constant_ty el) indices = Some (constant_ty p, off)
    \<and> take (bytes_of (constant_ty p)) (drop (o1 + off) (const_bytes c)) = const_bytes p"
proof -
  obtain off where off: "part_at (constant_ty el) indices = Some (constant_ty p, off)"
      "take (bytes_of (constant_ty p)) (drop off (const_bytes el)) = const_bytes p"
    using assms(1) by (auto simp: part_found_def)
  with slice_slice [OF assms(2) part_at_within [OF off(1)]] show ?thesis by auto
qed

lemma const_at_found: "const_at c indices = Some p \<Longrightarrow> typed_const c \<Longrightarrow> sized (constant_ty c) \<Longrightarrow> part_found c indices p"
proof (induction c indices arbitrary: p rule: const_at.induct)
  case (1 c)
  then show ?case using const_bytes_length [of c] by (auto simp: part_found_def)
next
  case (2 c i "is")
  note agg = const_at_aggregate [OF "2.prems"(1,2)]
  show ?case using "2.prems"(2) agg
  proof (cases rule: typed_aggregate)
    case (arr t n els)
    have i: "unat i < length els" "const_at (els ! unat i) is = Some p" using "2.prems"(1) arr(1) by (auto split: if_splits)
    have el: "constant_ty (els ! unat i) = t" "typed_const (els ! unat i)" using arr(3) i(1) by auto
    have "sized t" using "2.prems"(3) arr(1) by simp
    then have "part_found (els ! unat i) is p" using "2.IH"(1) [OF _ i(1) i(2) el(2)] arr(1) el(1) by simp
    from part_found_step [OF this, of "unat i * bytes_of t" c]
    show ?thesis using array_part_slice [OF "2.prems"(2,3), of t n els "unat i"] arr(1,2) i(1) el(1)
      by (auto simp: part_found_def word_less_nat_alt)
  next
    case (str ts els)
    have i: "unat i < length els" "const_at (els ! unat i) is = Some p"
      using "2.prems"(1) str(1,2) by (auto split: if_splits)
    note part = struct_part_slice [OF "2.prems"(2,3) _ _ str(2) i(1)]
    have ty: "constant_ty (els ! unat i) = ts ! unat i" "unat i < length ts" using part(2,3) str(1) by simp_all
    have "sized (ts ! unat i)" using "2.prems"(3) str(1) ty(2) by (simp add: list_all_length)
    then have "part_found (els ! unat i) is p"
      using "2.IH"(4) [of els] str(1,2,4) i ty(1) by simp
    from part_found_step [OF this, of _ c] show ?thesis using part(1) str(1) ty by (fastforce simp: part_found_def)
  next
    case (enm vs tag val)
    note slices = enum_part_slices [OF "2.prems"(2,3) enm]
    show ?thesis
    proof (cases "i = 0")
      case True
      then have "const_at tag is = Some p" using "2.prems"(1) enm(1) by simp
      then have "part_found tag is p" using "2.IH"(2) [of "[tag, val]"] True enm(1,2,4) by simp
      from part_found_step [OF this, of 0 c] show ?thesis
        using slices(1) enm(1,2) True by (auto simp: part_found_def)
    next
      case False
      then obtain k is' where k: "is = k # is'" "i = 1" "unat k < length vs" "constant_ty val = vs ! unat k" "const_at val is' = Some p"
        using "2.prems"(1) enm(1) by (auto simp: get_field_types_def split: list.splits if_splits)
      have "sized (constant_ty val)" using "2.prems"(3) enm(1,3) by (auto simp: list_all_iff)
      then have "part_found val is' p"
        using "2.IH"(3) [of "[tag, val]" k is'] k False enm(1,5) by (simp add: get_field_types_def)
      from part_found_step [OF this slices(2)] show ?thesis
        using k enm(1) by (auto simp: part_found_def align8_def add.assoc simp del: bytes_of.simps(13))
    qed
  qed
qed

lemma const_at_typed: "const_at c indices = Some p \<Longrightarrow> typed_const c \<Longrightarrow> typed_const p"
proof (induction c indices arbitrary: p rule: const_at.induct)
  case (2 c i "is")
  note agg = const_at_aggregate [OF "2.prems"(1,2)]
  show ?case using "2.prems"(2) agg
  proof (cases rule: typed_aggregate)
    case (arr t n els)
    then show ?thesis using "2.prems"(1) "2.IH"(1) [of els] by (auto split: if_splits)
  next
    case (str ts els)
    then show ?thesis using "2.prems"(1) "2.IH"(4) [of els] by (auto split: if_splits)
  next
    case (enm vs tag val)
    then show ?thesis using "2.prems"(1) "2.IH"(2,3) [of "[tag, val]"] by (auto split: if_splits list.splits)
  qed
qed simp

section \<open>Properties\<close>

text \<open>
  (C23) Constants have the size of their type: the entry made from a well-typed constant is
  serialized to as many bytes as the memory layout gives the type, and no panic of the conversion
  is reached.
\<close>

theorem constant_size:
  assumes "typed_const c" "sized (constant_ty c)"
  shows "\<exists>e. from_constant c name None = Inr e \<and> length (to_bytes e) = bytes_of (constant_ty c)"
  using from_constant_fits [OF assms, of name None] entry_fits_length(1) by blast

definition sample_const :: constant_content where
  "sample_const = ConstantContent (Struct [Bool, Array (Uint 8) 2])
     (CStruct [ConstantContent Bool (CBool True),
        ConstantContent (Array (Uint 8) 2) (CArray [ConstantContent (Uint 8) (CUint 5), ConstantContent (Uint 8) (CUint 6)])])"

lemma sample_const_ok: "typed_const sample_const" "sized (constant_ty sample_const)"
proof -
  have scalars: "typed_const (ConstantContent Bool (CBool b))" "typed_const (ConstantContent (Uint 8) (CUint v))" for b v
    by (subst typed_const.simps; simp)+
  have "typed_const (ConstantContent (Array (Uint 8) 2) (CArray [ConstantContent (Uint 8) (CUint 5), ConstantContent (Uint 8) (CUint 6)]))"
    by (subst typed_const.simps) (simp add: scalars)
  then show "typed_const sample_const" unfolding sample_const_def
    by (subst typed_const.simps) (simp add: scalars is_enum_def is_struct_def get_field_types_def is_union_def)
  show "sized (constant_ty sample_const)" by (simp add: sample_const_def align8_def)
qed

theorem constant_size_witness:
  "\<exists>e. from_constant sample_const EntryNonConfigurable None = Inr e
     \<and> length (to_bytes e) = bytes_of (constant_ty sample_const)"
  by (rule constant_size [OF sample_const_ok])

text \<open>
  (C12) Reading a part of a constant from the data section gives the part: at the offset that the
  layout computes for a path of field, variant and element indices stand exactly the bytes that
  the part has as a constant of its own. Padding of fields, left padding of the variants of an
  enum and the packing of array elements agree on both sides.
\<close>

theorem constant_part_at_offset:
  assumes "typed_const c" "sized (constant_ty c)" "const_at c indices = Some p"
  shows "\<exists>e f off. from_constant c name None = Inr e \<and> from_constant p name None = Inr f
     \<and> get_indexed_offset (constant_ty c) indices = Inr (Some off)
     \<and> take (bytes_of (constant_ty p)) (drop (unat off) (to_bytes e)) = to_bytes f"
proof -
  obtain off where off: "part_at (constant_ty c) indices = Some (constant_ty p, off)"
      "take (bytes_of (constant_ty p)) (drop off (const_bytes c)) = const_bytes p"
    using const_at_found [OF assms(3,1,2)] by (auto simp: part_found_def)
  have p: "typed_const p" "sized (constant_ty p)"
    using const_at_typed [OF assms(3,1)] part_at_sized [OF off(1) assms(2)] by simp_all
  have "unat 0 + bytes_of (constant_ty c) < 18446744073709551616" using sized_fits [OF assms(2)] by simp
  then obtain a where a: "get_indexed_offset (constant_ty c) indices = Inr (Some a)" "unat a = off"
    using get_indexed_offset_ok [OF off(1) assms(2), of 0] by (auto simp: get_indexed_offset_def)
  obtain e f where e: "from_constant c name None = Inr e" "entry_fits c None e"
    and f: "from_constant p name None = Inr f" "entry_fits p None f"
    using from_constant_fits [OF assms(1,2)] from_constant_fits [OF p] by blast
  have "to_bytes e = const_bytes c" "to_bytes f = const_bytes p"
    using entry_fits_None e(2) f(2) const_bytes_entry(1) [OF assms(1,2) e(1)] const_bytes_entry(1) [OF p f(1)] by metis+
  then show ?thesis using a off(2) e(1) f(1) by auto
qed

theorem constant_part_at_offset_witness:
  "\<exists>e f off. from_constant sample_const EntryNonConfigurable None = Inr e
     \<and> from_constant (ConstantContent (Uint 8) (CUint 6)) EntryNonConfigurable None = Inr f
     \<and> get_indexed_offset (constant_ty sample_const) [1, 1] = Inr (Some off)
     \<and> take (bytes_of (constant_ty (ConstantContent (Uint 8) (CUint 6)))) (drop (unat off) (to_bytes e)) = to_bytes f"
  by (rule constant_part_at_offset [OF sample_const_ok])
    (simp add: sample_const_def is_enum_def is_struct_def get_field_types_def is_union_def)

end
