(* ===== verification/Asm_Optimize.thy ===== *)
theory Asm_Optimize
  imports Asm_Cfg Asm_Data
begin

text \<open>
  The optimizer of the instructions on virtual registers: \<^verbatim>\<open>optimizations.rs\<close> and
  \<^verbatim>\<open>abstract_instruction_set.rs\<close>. A set of instructions is the list of its instructions. Hash
  maps are maps, the dead positions of \<^verbatim>\<open>dce\<close> a list. The passes are in the order in which
  \<^verbatim>\<open>optimize\<close> runs them.
\<close>

section \<open>Constant indices of aggregates\<close>

record vreg_def =
  def_reg :: virtual_register
  def_ver :: u32

datatype reg_contents = ContentsConstant u64 | BaseOffset vreg_def u64

record index_state =
  latest_version :: "virtual_register \<rightharpoonup> u32"
  contents :: "virtual_register \<rightharpoonup> reg_contents"

definition record_new_def :: "virtual_register \<Rightarrow> index_state \<Rightarrow> index_state result" where
  "record_new_def reg s =
     bindE (case latest_version s reg of Some ver \<Rightarrow> add_u32 ver 1 | None \<Rightarrow> Inr 1)
       (\<lambda>ver. Inr (s\<lparr>latest_version := (latest_version s)(reg \<mapsto> ver)\<rparr>))"

definition get_def_version :: "index_state \<Rightarrow> virtual_register \<Rightarrow> u32" where
  "get_def_version s reg = unwrap_or (latest_version s reg) 0"

definition insert_contents :: "virtual_register \<Rightarrow> reg_contents \<Rightarrow> index_state \<Rightarrow> index_state" where
  "insert_contents dest c s = s\<lparr>contents := (contents s)(dest \<mapsto> c)\<rparr>"

definition remove_contents :: "virtual_register \<Rightarrow> index_state \<Rightarrow> index_state" where
  "remove_contents dest s = s\<lparr>contents := (contents s)(dest := None)\<rparr>"

definition forget :: "virtual_register \<Rightarrow> index_state \<Rightarrow> index_state result" where
  "forget dest s = record_new_def dest (remove_contents dest s)"

definition checked_add :: "u64 \<Rightarrow> u64 \<Rightarrow> u64 option" where
  "checked_add a b = (if unat a + unat b < 2 ^ 64 then Some (a + b) else None)"

definition process_add ::
  "virtual_register \<Rightarrow> virtual_register \<Rightarrow> u64 \<Rightarrow> index_state \<Rightarrow> index_state result" where
  "process_add dest opd1 c2 s =
     (let fresh = BaseOffset \<lparr>def_reg = opd1, def_ver = get_def_version s opd1\<rparr> c2;
          c = (case contents s opd1 of
                 Some (ContentsConstant c1) \<Rightarrow>
                   (case checked_add c1 c2 of Some c \<Rightarrow> ContentsConstant c | None \<Rightarrow> fresh)
               | Some (BaseOffset base_reg offset) \<Rightarrow>
                   if get_def_version s (def_reg base_reg) = def_ver base_reg then
                     (case checked_add offset c2 of Some c \<Rightarrow> BaseOffset base_reg c | None \<Rightarrow> fresh)
                   else fresh
               | None \<Rightarrow> fresh)
      in record_new_def dest (insert_contents dest c s))"

text \<open>The base and the immediate that an access through a register can use instead.\<close>

definition direct_access :: "index_state \<Rightarrow> virtual_register \<Rightarrow> imm12 \<Rightarrow> (virtual_register \<times> u64) option" where
  "direct_access s addr_reg imm =
     (case contents s addr_reg of
        Some (BaseOffset base_reg offset) \<Rightarrow>
          if offset mod 8 = 0 \<and> get_def_version s (def_reg base_reg) = def_ver base_reg
             \<and> offset div 8 + ucast (value12 imm) < TWELVE_BITS
          then Some (def_reg base_reg, offset div 8 + ucast (value12 imm)) else None
      | _ \<Rightarrow> None)"

definition index_alu ::
  "virtual_register alu_op \<Rightarrow> index_state \<Rightarrow> (index_state \<times> bool) result" where
  "index_alu a s =
     (case a of
        ADD dest opd1 opd2 \<Rightarrow>
          bindE (case contents s opd2 of
                   Some (ContentsConstant c2) \<Rightarrow> process_add dest opd1 c2 s
                 | _ \<Rightarrow> forget dest s) (\<lambda>s. Inr (s, True))
      | ADDI dest opd1 opd2 \<Rightarrow> bindE (process_add dest opd1 (ucast (value12 opd2)) s) (\<lambda>s. Inr (s, True))
      | MUL dest opd1 opd2 \<Rightarrow>
          bindE (case (contents s opd1, contents s opd2) of
                   (Some (ContentsConstant c1), Some (ContentsConstant c2)) \<Rightarrow>
                     bindE (mul_u64 c1 c2) (\<lambda>c. record_new_def dest (insert_contents dest (ContentsConstant c) s))
                 | _ \<Rightarrow> forget dest s) (\<lambda>s. Inr (s, True))
      | MOVI dest imm \<Rightarrow>
          bindE (record_new_def dest (insert_contents dest (ContentsConstant (ucast (value18 imm))) s))
            (\<lambda>s. Inr (s, True))
      | MOVE dest src \<Rightarrow>
          (let ver = get_def_version s src
           in case contents s src of
                Some (BaseOffset src' offset) \<Rightarrow>
                  if offset = 0 then Inr (s, \<not> (dest = def_reg src' \<and> def_ver src' = ver))
                  else Inr (insert_contents dest (BaseOffset \<lparr>def_reg = src, def_ver = ver\<rparr> 0) s, True)
              | _ \<Rightarrow> Inr (insert_contents dest (BaseOffset \<lparr>def_reg = src, def_ver = ver\<rparr> 0) s, True))
      | _ \<Rightarrow> bindE (foldM forget (vop_def_registers (Alu a)) s) (\<lambda>s. Inr (s, True)))"

text \<open>
  One instruction: the state after it, and the instruction that is retained, if one is.
\<close>

definition index_op ::
  "data_section \<Rightarrow> op \<Rightarrow> index_state \<Rightarrow> (index_state \<times> op option) result" where
  "index_op data_section o' s =
     (case opcode o' of
        Inl (Alu a) \<Rightarrow> bindE (index_alu a s) (\<lambda>(s, retain). Inr (s, if retain then Some o' else None))
      | Inl (NonVm (LoadDataId dest did)) \<Rightarrow>
          bindE (record_new_def dest
             (case get_data_word data_section did of
                Some c \<Rightarrow> insert_contents dest (ContentsConstant c) s
              | None \<Rightarrow> remove_contents dest s)) (\<lambda>s. Inr (s, Some o'))
      | Inl (Memory (LW dest addr_reg imm)) \<Rightarrow>
          (case direct_access s addr_reg imm of
             Some (base, raw) \<Rightarrow>
               bindE (imm12_new_unchecked raw ''Immediate offset too big for LW'') (\<lambda>new_imm.
               bindE (forget dest s) (\<lambda>s. Inr (s, Some (o'\<lparr>opcode := Inl (Memory (LW dest base new_imm))\<rparr>))))
           | None \<Rightarrow> bindE (forget dest s) (\<lambda>s. Inr (s, Some o')))
      | Inl (Memory (SW addr_reg src imm)) \<Rightarrow>
          (case direct_access s addr_reg imm of
             Some (base, raw) \<Rightarrow>
               bindE (imm12_new_unchecked raw ''Immediate offset too big for SW'') (\<lambda>new_imm.
               Inr (s, Some (o'\<lparr>opcode := Inl (Memory (SW base src new_imm))\<rparr>)))
           | None \<Rightarrow> Inr (s, Some o'))
      | Inl v \<Rightarrow> bindE (foldM forget (vop_def_registers v) s) (\<lambda>s. Inr (s, Some o'))
      | Inr (SaveRetAddr _ _) \<Rightarrow> Inr (s, Some o')
      | Inr _ \<Rightarrow> Inr (\<lparr>latest_version = Map.empty, contents = Map.empty\<rparr>, Some o'))"

fun index_loop :: "data_section \<Rightarrow> op list \<Rightarrow> index_state \<Rightarrow> op list result" where
  "index_loop data_section [] s = Inr []"
| "index_loop data_section (o' # ops) s =
     bindE (index_op data_section o' s) (\<lambda>(s, kept).
     bindE (index_loop data_section ops s) (\<lambda>rest.
     Inr (case kept of Some o'' \<Rightarrow> o'' # rest | None \<Rightarrow> rest)))"

definition const_indexing_aggregates_function :: "data_section \<Rightarrow> op list \<Rightarrow> op list result" where
  "const_indexing_aggregates_function data_section ops =
     index_loop data_section ops \<lparr>latest_version = Map.empty, contents = Map.empty\<rparr>"

section \<open>Dead code\<close>

fun is_branch :: "'v + 'r control_flow_op \<Rightarrow> bool" where
  "is_branch (Inr (Jump _)) = True"
| "is_branch (Inr (JumpIfNotZero _ _)) = True"
| "is_branch _ = False"

definition all_defs :: "op \<Rightarrow> virtual_register list" where
  "all_defs o' = op_def_registers o' @ op_def_const_registers o'"

definition is_dead :: "virtual_register list \<Rightarrow> op \<Rightarrow> bool" where
  "is_dead cur_live o' \<longleftrightarrow>
     list_all (\<lambda>def. def \<notin> set cur_live) (all_defs o')
   \<and> (case opcode o' of Inl v \<Rightarrow> \<not> vop_has_side_effect v | Inr _ \<Rightarrow> False)"

type_synonym dce_state = "virtual_register list \<times> nat list"

definition dce_op :: "virtual_register list list \<Rightarrow> nat \<times> op \<Rightarrow> dce_state \<Rightarrow> dce_state result" where
  "dce_op liveness = (\<lambda>(ix, o') (cur_live, dead_indices).
     if is_branch (opcode o') then
       bindE (unwrap_or_panic ''Incorrect liveness info'' (list_get liveness ix)) (\<lambda>live.
       Inr (fold insort_insert (op_use_registers o') live, dead_indices))
     else
       let dead = is_dead cur_live o';
           cur_live = filter (\<lambda>r. r \<notin> set (all_defs o')) cur_live
       in if dead then Inr (cur_live, vec_push dead_indices ix)
          else Inr (fold insort_insert (op_use_registers o') cur_live, dead_indices))"

definition dce :: "nat \<Rightarrow> op list \<Rightarrow> op list result" where
  "dce fuel ops =
     bindE (liveness_analysis fuel ops False) (\<lambda>liveness.
     bindE (foldM (dce_op liveness) (rev (enumerate 0 ops)) ([], [])) (\<lambda>(_, dead_indices).
     Inr (map snd (filter (\<lambda>(idx, _). idx \<notin> set dead_indices) (enumerate 0 ops)))))"

section \<open>Unreachable code\<close>

fun reach_loop :: "nat \<Rightarrow> op list \<Rightarrow> (label \<rightharpoonup> nat) \<Rightarrow> bool list \<Rightarrow> nat list \<Rightarrow> bool list result" where
  "reach_loop 0 ops labels reachables worklist = Inl OutOfFuel"
| "reach_loop (Suc fuel) ops labels reachables worklist =
     (case vec_pop worklist of
        None \<Rightarrow> Inr reachables
      | Some (op_idx, worklist) \<Rightarrow>
          bindE (nth_or_panic reachables op_idx) (\<lambda>seen.
          bindE (assert_or_panic (\<not> seen)) (\<lambda>_.
          let reachables = reachables[op_idx := True] in
          bindE (op_successors (ops ! op_idx) op_idx (length ops) labels) (\<lambda>succs.
          bindE (foldM (\<lambda>s worklist. bindE (nth_or_panic reachables s) (\<lambda>seen.
                   Inr (if seen then worklist else vec_push worklist s))) succs worklist) (\<lambda>worklist.
          reach_loop fuel ops labels reachables worklist)))))"

definition simplify_cfg :: "nat \<Rightarrow> op list \<Rightarrow> op list result" where
  "simplify_cfg fuel ops =
     (if ops = [] then Inr ops
      else bindE (reach_loop fuel ops (label_to_index ops) (replicate (length ops) False) [0]) (\<lambda>reachables.
        Inr (map snd (filter (\<lambda>(idx, _). reachables ! idx) (enumerate 0 ops)))))"

section \<open>Redundant instructions\<close>

definition noop :: "string \<Rightarrow> op" where
  "noop text = \<lparr>opcode = Inl (Alu NOOP), comment = text, owning_span = None\<rparr>"

definition replace_all :: "op \<Rightarrow> nat list \<Rightarrow> op list \<Rightarrow> op list" where
  "replace_all o' idxs ops = fold (\<lambda>idx ops. ops[idx := o']) idxs ops"

definition dead_jumps :: "op list \<Rightarrow> nat list" where
  "dead_jumps ops =
     filter (\<lambda>idx. case (opcode (ops ! idx), opcode (ops ! (idx + 1))) of
         (Inr (Jump dst_label), Inr (Label l)) \<Rightarrow> dst_label = l
       | _ \<Rightarrow> False) [0..<length ops - 1]"

definition remove_sequential_jumps :: "op list \<Rightarrow> op list" where
  "remove_sequential_jumps ops = replace_all (noop ''remove redundant jump operation'') (dead_jumps ops) ops"

definition dead_moves :: "op list \<Rightarrow> nat list" where
  "dead_moves ops =
     (let uses = concat (map op_use_registers ops)
      in filter (\<lambda>idx. case opcode (ops ! idx) of
             Inl (Alu (MOVE (Virtual d) _)) \<Rightarrow> Virtual d \<notin> set uses
           | _ \<Rightarrow> False) [0..<length ops])"

definition is_move :: "op \<Rightarrow> bool" where
  "is_move o' \<longleftrightarrow> (case opcode o' of Inl (Alu (MOVE _ _)) \<Rightarrow> True | _ \<Rightarrow> False)"

lemma nth_replace_all:
  "i < length ops \<Longrightarrow> replace_all o' idxs ops ! i = (if i \<in> set idxs then o' else ops ! i)"
  unfolding replace_all_def by (induction idxs arbitrary: ops) (auto simp: nth_list_update)

lemma length_replace_all [simp]: "length (replace_all o' idxs ops) = length ops"
  unfolding replace_all_def by (induction idxs arbitrary: ops) auto

lemma dead_movesD:
  assumes "idx \<in> set (dead_moves ops)"
  shows "idx < length ops" "is_move (ops ! idx)"
  using assms by (auto simp: dead_moves_def is_move_def Let_def split: sum.splits virtual_op.splits alu_op.splits)

lemma fewer_moves:
  assumes "dead_moves ops \<noteq> []"
  shows "length (filter is_move (replace_all (noop text) (dead_moves ops) ops)) < length (filter is_move ops)"
proof -
  let ?ops = "replace_all (noop text) (dead_moves ops) ops"
  obtain idx where idx: "idx \<in> set (dead_moves ops)" using assms by (cases "dead_moves ops") auto
  have "\<not> is_move (noop text)" by (simp add: is_move_def noop_def)
  then have "{i. i < length ?ops \<and> is_move (?ops ! i)} \<subseteq> {i. i < length ops \<and> is_move (ops ! i)} - {idx}"
    using idx by (auto simp: nth_replace_all split: if_splits)
  then have "{i. i < length ?ops \<and> is_move (?ops ! i)} \<subset> {i. i < length ops \<and> is_move (ops ! i)}"
    using dead_movesD [OF idx] by blast
  then show ?thesis by (simp add: length_filter_conv_card psubset_card_mono)
qed

function remove_redundant_moves :: "op list \<Rightarrow> op list" where
  "remove_redundant_moves ops =
     (if dead_moves ops = [] then ops
      else remove_redundant_moves (replace_all (noop ''remove redundant move operation'') (dead_moves ops) ops))"
  by pat_completeness auto

termination
  by (relation "measure (\<lambda>ops. length (filter is_move ops))") (auto simp: fewer_moves)

declare remove_redundant_moves.simps [simp del]

definition is_noop :: "op \<Rightarrow> bool" where
  "is_noop o' \<longleftrightarrow> (case opcode o' of Inl (Alu NOOP) \<Rightarrow> True | _ \<Rightarrow> False)"

definition remove_redundant_ops :: "op list \<Rightarrow> op list" where
  "remove_redundant_ops ops = filter (\<lambda>o'. \<not> is_noop o') ops"

definition optimize :: "nat \<Rightarrow> data_section \<Rightarrow> op list \<Rightarrow> op list result" where
  "optimize fuel data_section ops =
     bindE (const_indexing_aggregates_function data_section ops) (\<lambda>ops.
     bindE (dce fuel ops) (\<lambda>ops.
     bindE (simplify_cfg fuel ops) (\<lambda>ops.
     Inr (remove_redundant_ops (remove_redundant_moves (remove_sequential_jumps ops))))))"

section \<open>Verification\<close>

definition virt_regs :: "virtual_register list \<Rightarrow> virtual_register list" where
  "virt_regs regs = filter is_virtual regs"

fun join :: "string \<Rightarrow> string list \<Rightarrow> string" where
  "join sep [] = []"
| "join sep [x] = x"
| "join sep (x # xs) = x @ sep @ join sep xs"

text \<open>The argument is the order in which the set of the bad registers is walked.\<close>

definition verify :: "(virtual_register list \<Rightarrow> virtual_register list) \<Rightarrow> op list \<Rightarrow> op list result" where
  "verify hash_order ops =
     (let use_regs = remdups (concat (map (\<lambda>o'. virt_regs (op_use_registers o')) ops));
          def_regs = remdups (concat (map (\<lambda>o'. virt_regs (op_def_registers o')) ops))
      in if set use_regs \<subseteq> set def_regs then Inr ops
         else
           let bad_regs = join '', '' (map (\<lambda>reg. case reg of
                   Virtual name \<Rightarrow> ''$r'' @ name
                 | Constant creg \<Rightarrow> fmt_constant_register creg)
                 (hash_order (filter (\<lambda>r. r \<notin> set def_regs) use_regs)))
           in Inl (Internal (''Program erroneously uses uninitialized virtual registers: '' @ bad_regs)))"

end
