(* ===== verification/Asm_Dce.thy ===== *)
theory Asm_Dce
  imports Asm_Optimize Asm_Machine
begin

text \<open>
  The passes that delete or replace instructions, \<^verbatim>\<open>dce\<close>, \<^verbatim>\<open>simplify_cfg\<close>,
  \<^verbatim>\<open>remove_sequential_jumps\<close>, \<^verbatim>\<open>remove_redundant_moves\<close> and \<^verbatim>\<open>remove_redundant_ops\<close>: each keeps the
  results of the code it works on.
\<close>

section \<open>Deleting instructions\<close>

definition kept_at :: "op list \<Rightarrow> (nat \<Rightarrow> bool) \<Rightarrow> nat \<Rightarrow> op option" where
  "kept_at ops keep i = (if keep i then Some (ops ! i) else None)"

lemma kept_at_simps [simp]:
  "keep i \<Longrightarrow> kept_at ops keep i = Some (ops ! i)"
  "\<not> keep i \<Longrightarrow> kept_at ops keep i = None"
  by (simp_all add: kept_at_def)

lemma rewrite_cong: "(\<And>i. i < n \<Longrightarrow> g i = h i) \<Longrightarrow> rewrite g n = rewrite h n"
  by (induction n) (simp_all add: rewrite_Suc, simp add: rewrite_def List.map_filter_def)

lemma filter_enumerate_rewrite:
  "map snd (filter (\<lambda>(idx, _). keep idx) (enumerate 0 ops)) = rewrite (kept_at ops keep) (length ops)"
proof (induction ops rule: rev_induct)
  case Nil
  show ?case by (simp add: rewrite_def List.map_filter_def)
next
  case (snoc x ops)
  have "rewrite (kept_at (ops @ [x]) keep) (length ops) = rewrite (kept_at ops keep) (length ops)"
    by (rule rewrite_cong) (simp add: kept_at_def nth_append)
  with snoc show ?case by (cases "keep (length ops)") (simp_all add: enumerate_append_eq rewrite_Suc)
qed

text \<open>
  Deleting keeps the results when the registers \<open>A i\<close> that matter before \<open>i\<close> are closed under the
  control flow, the kept instructions only read such registers, and the deleted ones are without
  side effect and write none.
\<close>

lemma deletion_keeps_results:
  assumes vm: "machine_ok vm"
    and sets: "\<And>i. ambient \<subseteq> A i" "\<And>i. A i \<inter> volatile = {}"
    and kept: "\<And>i. i < length ops \<Longrightarrow> I i \<Longrightarrow> keep i \<Longrightarrow> set (op_use_registers (ops ! i)) \<subseteq> A i
        \<and> (falls_through (ops ! i) \<longrightarrow> A (Suc i) \<subseteq> A i \<union> oc_defs (opcode (ops ! i)))"
    and taken: "\<And>i l t. i < length ops \<Longrightarrow> I i \<Longrightarrow> jump_target (ops ! i) = Some l \<Longrightarrow>
        label_to_index ops l = Some t \<Longrightarrow> I t \<and> keep t \<and> keep i \<and> A t \<subseteq> A i"
    and dropped: "\<And>i. i < length ops \<Longrightarrow> I i \<Longrightarrow> \<not> keep i \<Longrightarrow>
        (\<exists>v. opcode (ops ! i) = Inl v \<and> \<not> vop_has_side_effect v) \<and> A (Suc i) \<subseteq> A i - oc_defs (opcode (ops ! i))"
    and falls: "\<And>i. i < length ops \<Longrightarrow> I i \<Longrightarrow> Suc i < length ops \<Longrightarrow> falls_through (ops ! i) \<Longrightarrow> I (Suc i)"
    and start: "ops \<noteq> [] \<Longrightarrow> I 0"
  shows "keeps_results vm ops (rewrite (kept_at ops keep) (length ops))"
proof (rule simulates_keeps_results [where I = I and A = A])
  show "simulates vm ops (kept_at ops keep) I A"
    unfolding simulates_def
  proof (intro conjI allI impI)
    fix i r r' m assume i: "i < length ops" "I i" and ag: "agree (A i) r r'"
    let ?o = "ops ! i"
    show "case exec_op vm ?o r m of
          Fall r1 m1 \<Rightarrow> (Suc i < length ops \<longrightarrow> I (Suc i)) \<and>
            (case kept_at ops keep i of
               None \<Rightarrow> m1 = m \<and> agree (A (Suc i)) r1 r'
             | Some x \<Rightarrow> \<exists>r1'. exec_op vm x r' m = Fall r1' m1 \<and> agree (A (Suc i)) r1 r1')
        | Take l r1 m1 \<Rightarrow>
            (\<forall>t. label_to_index ops l = Some t \<longrightarrow> I t \<and> kept_at ops keep t \<noteq> None \<and>
              (\<exists>x r1'. kept_at ops keep i = Some x \<and> agree (A t) r1 r1' \<and>
                (exec_op vm x r' m = Take l r1' m1 \<or> exec_op vm x r' m = Fall r1' m1 \<and> t = Suc i)))
        | End z \<Rightarrow> (\<exists>x. kept_at ops keep i = Some x \<and> exec_op vm x r' m = End z)
        | Bad \<Rightarrow> True"
    proof (cases "keep i")
      case False
      obtain v where v: "opcode ?o = Inl v" "\<not> vop_has_side_effect v" "A (Suc i) \<subseteq> A i - oc_defs (opcode ?o)"
        using dropped [OF i False] by blast
      have fall: "I (Suc i)" if "exec_op vm ?o r m = Fall r1 m" "Suc i < length ops" for r1
        using falls [OF i that(2) exec_op_falls [OF vm that(1)]] .
      consider "exec_op vm ?o r m = Bad"
        | r1 where "exec_op vm ?o r m = Fall r1 m" "agree (- oc_defs (opcode ?o) - volatile) r r1"
        using exec_pure [OF vm v(1,2)] by blast
      then show ?thesis
      proof cases
        case (2 r1)
        have "A (Suc i) \<subseteq> A i \<inter> (- oc_defs (opcode ?o) - volatile)" using v(3) sets(2) [of "Suc i"] by blast
        then have "agree (A (Suc i)) r1 r'" by (rule agree_via [OF ag 2(2)])
        with 2 False fall show ?thesis by simp
      qed simp
    next
      case True
      note k = kept [OF i True]
      have same: "same_flow A' (exec_op vm ?o r m) (exec_op vm ?o r' m)"
        if "A' \<subseteq> A i \<union> oc_defs (opcode ?o)" "A' \<inter> volatile = {}" for A'
        using exec_op_same [OF vm ag _ that] k sets(1) by simp
      show ?thesis
      proof (cases "exec_op vm ?o r m")
        case (Fall r1 m1)
        note ft = exec_op_falls [OF vm Fall]
        obtain r1' where "exec_op vm ?o r' m = Fall r1' m1" "agree (A (Suc i)) r1 r1'"
          using same [of "A (Suc i)"] k ft sets(2) Fall by (cases "exec_op vm ?o r' m") auto
        then show ?thesis using Fall True falls [OF i _ ft] by auto
      next
        case (Take l r1 m1)
        have "I t \<and> keep t \<and> (\<exists>r1'. exec_op vm ?o r' m = Take l r1' m1 \<and> agree (A t) r1 r1')"
          if t: "label_to_index ops l = Some t" for t
        proof -
          note tk = taken [OF i exec_op_takes(1) [OF Take] t]
          have "A t \<subseteq> A i \<union> oc_defs (opcode ?o)" using tk by blast
          from same [OF this sets(2)] Take tk show ?thesis by (cases "exec_op vm ?o r' m") auto
        qed
        then show ?thesis using Take True by fastforce
      next
        case (End z)
        then show ?thesis using same [of "{}"] True by (cases "exec_op vm ?o r' m") auto
      qed simp
    qed
  qed (auto simp: kept_at_def split: if_splits)
qed (use start in blast)

section \<open>Dead code\<close>

text \<open>An instruction without side effect writes virtual registers and the flags only.\<close>

lemma pure_alu: "\<not> has_side_effect_alu a \<Longrightarrow> (\<forall>r \<in> set (def_registers_alu a). is_virtual r) \<and> set (def_const_registers_alu a) \<subseteq> flags"
  by (cases a) (auto simp: defines_constant_def flags_def)

lemma pure_memory:
  "\<not> has_side_effect_memory a \<Longrightarrow> (\<forall>r \<in> set (def_registers_memory a). is_virtual r) \<and> set (def_const_registers_memory a) \<subseteq> flags"
  by (cases a) (auto simp: defines_constant_def)

lemma pure_contract:
  "\<not> has_side_effect_contract a \<Longrightarrow> (\<forall>r \<in> set (def_registers_contract a). is_virtual r) \<and> set (def_const_registers_contract a) \<subseteq> flags"
  by (cases a) (auto simp: defines_constant_def)

lemma pure_crypto:
  "\<not> has_side_effect_crypto a \<Longrightarrow> (\<forall>r \<in> set (def_registers_crypto a). is_virtual r) \<and> set (def_const_registers_crypto a) \<subseteq> flags"
  by (cases a) (auto simp: defines_constant_def)

lemma pure_other:
  "\<not> has_side_effect_other a \<Longrightarrow> (\<forall>r \<in> set (def_registers_other a). is_virtual r) \<and> set (def_const_registers_other a) \<subseteq> flags"
  by (cases a) (auto simp: defines_constant_def)

lemma pure_nonvm:
  "\<not> has_side_effect_nonvm a \<Longrightarrow> (\<forall>r \<in> set (def_registers_nonvm a). is_virtual r) \<and> set (def_const_registers_nonvm a) \<subseteq> flags"
  by (cases a) (auto simp: defines_constant_def)

lemma pure_control: "has_side_effect_control a"
  by (cases a) simp_all

lemma pure_defs:
  assumes "\<not> vop_has_side_effect v"
  shows "oc_defs (Inl v) \<inter> ambient = {}"
proof -
  have "(\<forall>r \<in> set (vop_def_registers v). is_virtual r) \<and> set (vop_def_const_registers v) \<subseteq> flags"
    using assms pure_alu pure_memory pure_contract pure_crypto pure_other pure_nonvm pure_control
    by (cases v) (simp_all add: vop_has_side_effect_def vop_def_registers_def vop_def_const_registers_def)
  then show ?thesis
    by (auto simp: oc_defs_def plain_def op_def_registers_def op_def_const_registers_def ambient_def)
qed

text \<open>
  What one step of \<^verbatim>\<open>dce\<close> makes of the live registers \<open>L\<close>, and which instructions it deletes.
\<close>

definition dce_at :: "op list \<Rightarrow> (nat \<Rightarrow> virtual_register set) \<Rightarrow> nat set \<Rightarrow> nat \<Rightarrow> bool" where
  "dce_at ops L dead i \<longleftrightarrow>
     (let o' = ops ! i; used = set (op_use_registers o'); defd = oc_defs (opcode o') in
      if is_branch (opcode o') then i \<notin> dead \<and> L i = {r. live_after False ops i r} \<union> used
      else if i \<in> dead then
        (\<exists>v. opcode o' = Inl v \<and> \<not> vop_has_side_effect v) \<and> L (Suc i) \<inter> defd = {} \<and> L i = L (Suc i) - defd
      else L i = L (Suc i) - defd \<union> used)"

lemma set_fold_insort: "set (fold insort_insert xs ys) = set xs \<union> set (ys :: virtual_register list)"
  by (induction xs arbitrary: ys) (auto simp: set_insort_insert)

lemma set_all_defs: "set (all_defs o') = oc_defs (opcode o')"
  by (simp add: all_defs_def op_sets_plain)

lemma dce_op_ok:
  assumes "length liveness = length ops" "i < length ops" "set (liveness ! i) = {r. live_after False ops i r}"
    and "i \<notin> set dead"
  shows "\<exists>cur' dead'. dce_op liveness (i, ops ! i) (cur, dead) = Inr (cur', dead') \<and> set dead \<subseteq> set dead'
    \<and> set dead' \<subseteq> insert i (set dead) \<and> dce_at ops (L(i := set cur', Suc i := set cur)) (set dead') i"
proof (cases "is_branch (opcode (ops ! i))")
  case True
  then have "dce_op liveness (i, ops ! i) (cur, dead)
      = Inr (fold insort_insert (op_use_registers (ops ! i)) (liveness ! i), dead)"
    using assms(1,2) by (simp add: dce_op_def list_get_def unwrap_or_panic_def)
  then show ?thesis using True assms(3,4) by (auto simp: dce_at_def Let_def set_fold_insort)
next
  case False
  show ?thesis
  proof (cases "is_dead cur (ops ! i)")
    case True
    then obtain v where v: "opcode (ops ! i) = Inl v" "\<not> vop_has_side_effect v"
      "set cur \<inter> oc_defs (opcode (ops ! i)) = {}"
      by (auto simp: is_dead_def list_all_iff set_all_defs split: sum.splits)
    have "dce_op liveness (i, ops ! i) (cur, dead)
        = Inr (filter (\<lambda>r. r \<notin> set (all_defs (ops ! i))) cur, vec_push dead i)"
      using True False by (simp add: dce_op_def Let_def)
    then show ?thesis using False v by (auto simp: dce_at_def Let_def vec_push_def set_all_defs)
  next
    case live: False
    then have "dce_op liveness (i, ops ! i) (cur, dead)
        = Inr (fold insort_insert (op_use_registers (ops ! i)) (filter (\<lambda>r. r \<notin> set (all_defs (ops ! i))) cur), dead)"
      using False by (simp add: dce_op_def Let_def)
    then show ?thesis using False assms(4) by (auto simp: dce_at_def Let_def set_fold_insort set_all_defs)
  qed
qed

lemma dce_at_cong:
  "L i = L' i \<Longrightarrow> L (Suc i) = L' (Suc i) \<Longrightarrow> (i \<in> dead \<longleftrightarrow> i \<in> dead') \<Longrightarrow> dce_at ops L dead i = dce_at ops L' dead' i"
  by (simp add: dce_at_def Let_def)

lemma dce_scan_ok:
  assumes "length liveness = length ops"
    and "\<forall>i < length ops. set (liveness ! i) = {r. live_after False ops i r}" and "k \<le> length ops"
  shows "\<exists>cur dead L. foldM (dce_op liveness) (map (\<lambda>i. (i, ops ! i)) (rev [k..<length ops])) ([], []) = Inr (cur, dead)
    \<and> L k = set cur \<and> set dead \<subseteq> {k..<length ops} \<and> (\<forall>i \<in> {k..<length ops}. dce_at ops L (set dead) i)"
  using assms(3)
proof (induction rule: inc_induct)
  case base
  have "foldM (dce_op liveness) (map (\<lambda>i. (i, ops ! i)) (rev [length ops..<length ops])) ([], []) = Inr ([], [])"
    by simp
  then show ?case by (intro exI [of _ "[]"] exI [of _ "\<lambda>_. {}"]) simp
next
  case (step k)
  then obtain cur dead L where ih:
      "foldM (dce_op liveness) (map (\<lambda>i. (i, ops ! i)) (rev [Suc k..<length ops])) ([], []) = Inr (cur, dead)"
      "L (Suc k) = set cur" "set dead \<subseteq> {Suc k..<length ops}" "\<forall>i \<in> {Suc k..<length ops}. dce_at ops L (set dead) i"
    by blast
  have "k \<notin> set dead" using ih(3) by auto
  then obtain cur' dead' where new: "dce_op liveness (k, ops ! k) (cur, dead) = Inr (cur', dead')"
      "set dead \<subseteq> set dead'" "set dead' \<subseteq> insert k (set dead)"
      "dce_at ops (L(k := set cur', Suc k := set cur)) (set dead') k"
    using dce_op_ok [OF assms(1), of k dead cur L] assms(2) step.hyps(2) by blast
  let ?L = "L(k := set cur')"
  have L: "L(k := set cur', Suc k := set cur) = ?L" using ih(2) by (simp add: fun_eq_iff)
  have "[k..<length ops] = k # [Suc k..<length ops]" using step.hyps(2) by (rule upt_conv_Cons)
  then have "foldM (dce_op liveness) (map (\<lambda>i. (i, ops ! i)) (rev [k..<length ops])) ([], []) = Inr (cur', dead')"
    using ih(1) new(1) by (simp add: foldM_append)
  moreover have "dce_at ops ?L (set dead') i" if "i \<in> {k..<length ops}" for i
  proof (cases "i = k")
    case True
    then show ?thesis using new(4) L by simp
  next
    case False
    then have "dce_at ops ?L (set dead') i = dce_at ops L (set dead) i"
      using that new(2,3) by (intro dce_at_cong) auto
    then show ?thesis using ih(4) that False by simp
  qed
  moreover have "set dead' \<subseteq> {k..<length ops}" using ih(3) new(3) step.hyps(2) by fastforce
  ultimately show ?case by (intro exI [of _ cur'] exI [of _ dead'] exI [of _ ?L]) (simp del: fun_upd_apply, simp)
qed

lemma enumerate_nth: "enumerate 0 xs = map (\<lambda>i. (i, xs ! i)) [0..<length xs]"
  by (rule nth_equalityI) (simp_all add: nth_enumerate_eq)

lemma dce_ok:
  assumes "jumps_ok ops" "2 * length ops * card (all_registers ops) < fuel"
  obtains dead L where "dce fuel ops = Inr (rewrite (kept_at ops (\<lambda>i. i \<notin> dead)) (length ops))"
    and "\<And>i. i < length ops \<Longrightarrow> dce_at ops L dead i"
proof -
  obtain liveness where l: "liveness_analysis fuel ops False = Inr liveness" "length liveness = length ops"
      "\<forall>i < length ops. set (liveness ! i) = {r. live_after False ops i r}"
    using liveness_correct [OF assms] by blast
  obtain cur dead L where d: "foldM (dce_op liveness) (rev (enumerate 0 ops)) ([], []) = Inr (cur, dead)"
      "\<forall>i \<in> {0..<length ops}. dce_at ops L (set dead) i"
    using dce_scan_ok [OF l(2,3), of 0] by (auto simp: enumerate_nth rev_map)
  have "dce fuel ops = Inr (rewrite (kept_at ops (\<lambda>i. i \<notin> set dead)) (length ops))"
    using l(1) d(1) filter_enumerate_rewrite [of "\<lambda>i. i \<notin> set dead" ops] by (simp add: dce_def)
  then show ?thesis by (rule that [where L = L]) (use d(2) in simp)
qed

lemma is_branch_iff: "is_branch (opcode o') \<longleftrightarrow> jump_target o' \<noteq> None"
  by (auto simp: jump_target_def split: sum.splits control_flow_op.splits)

lemma branch_no_defs: "jump_target o' = Some l \<Longrightarrow> oc_defs (opcode o') = {}"
  by (auto simp: oc_defs_def plain_def op_def_registers_def op_def_const_registers_def cf_def_const_registers_def
      jump_target_def split: sum.splits control_flow_op.splits)

lemma label_kept: "label_to_index ops l = Some t \<Longrightarrow> \<exists>c. opcode (ops ! t) = Inr c"
  by (auto simp: label_to_index_Some label_of_def split: sum.splits)

definition reads_none :: "virtual_register set \<Rightarrow> op list \<Rightarrow> bool" where
  "reads_none R ops \<longleftrightarrow> (\<forall>o' \<in> set ops. set (op_use_registers o') \<inter> R = {})"

text \<open>The registers that matter before an instruction: live ones, and the ones of the machine.\<close>

lemma dce_keeps_results:
  assumes vm: "machine_ok vm" and jumps: "jumps_ok ops" and reads: "reads_none volatile ops"
    and at: "\<And>i. i < length ops \<Longrightarrow> dce_at ops L dead i"
  shows "keeps_results vm ops (rewrite (kept_at ops (\<lambda>i. i \<notin> dead)) (length ops))"
proof (rule deletion_keeps_results [OF vm, where I = "\<lambda>_. True"
      and A = "\<lambda>i. (if i < length ops then L i \<inter> {r. live_before False ops i r} - volatile else {}) \<union> ambient"])
  let ?M = "\<lambda>i. L i \<inter> {r. live_before False ops i r}"
  have defs: "def_set False ops i \<subseteq> oc_defs (opcode (ops ! i))" for i
    by (auto simp: def_set_def retained_def op_sets_plain)
  have next_succ: "Suc i \<in> succ_set ops i" if "falls_through (ops ! i)" "Suc i < length ops" for i
    using succ_set_eq [OF jumps, of i] that by simp
  have pass: "?M (Suc i) - oc_defs (opcode (ops ! i)) \<subseteq> {r. live_before False ops i r}"
    if "falls_through (ops ! i)" "Suc i < length ops" for i
    using live_passed [OF next_succ [OF that]] defs by blast
  have step: "L (Suc i) - oc_defs (opcode (ops ! i)) \<subseteq> L i" if "i < length ops" "jump_target (ops ! i) = None" for i
    using at [OF that(1)] that(2) by (auto simp: dce_at_def Let_def is_branch_iff split: if_splits)
  have branch: "\<not> i \<in> dead" "{r. live_after False ops i r} \<subseteq> L i" if "i < length ops" "jump_target (ops ! i) \<noteq> None" for i
    using at [OF that(1)] that(2) by (auto simp: dce_at_def Let_def is_branch_iff)
  have flow: "?M s \<subseteq> ?M i \<union> oc_defs (opcode (ops ! i))"
    if "i < length ops" "s \<in> succ_set ops i" "jump_target (ops ! i) \<noteq> None" for i s
  proof -
    have "?M s \<subseteq> {r. live_after False ops i r}" using that(2) by (auto simp: live_after_def)
    moreover have "oc_defs (opcode (ops ! i)) = {}" using that(3) branch_no_defs by auto
    ultimately show ?thesis
      using branch(2) [OF that(1,3)] defs [of i] live_before_if_after [of False ops i] by blast
  qed
  fix i
  show "ambient \<subseteq> (if i < length ops then ?M i - volatile else {}) \<union> ambient"
    "((if i < length ops then ?M i - volatile else {}) \<union> ambient) \<inter> volatile = {}"
    by (auto simp: ambient_def)
  assume i: "i < length ops"
  {
    assume keep: "i \<notin> dead"
    have used: "set (op_use_registers (ops ! i)) \<subseteq> L i"
      using at [OF i] keep by (auto simp: dce_at_def Let_def split: if_splits)
    have live: "set (op_use_registers (ops ! i)) \<subseteq> {r. live_before False ops i r}"
      by (auto intro!: live_used simp: use_set_def retained_def)
    have "set (op_use_registers (ops ! i)) \<inter> volatile = {}" using reads i by (simp add: reads_none_def)
    moreover have "?M (Suc i) \<subseteq> ?M i \<union> oc_defs (opcode (ops ! i))"
      if ft: "falls_through (ops ! i)" "Suc i < length ops"
    proof (cases "jump_target (ops ! i)")
      case None
      then show ?thesis using pass [OF ft] step [OF i None] by blast
    next
      case (Some l)
      then show ?thesis using flow [OF i next_succ [OF ft]] by simp
    qed
    ultimately show "set (op_use_registers (ops ! i)) \<subseteq> (if i < length ops then ?M i - volatile else {}) \<union> ambient
        \<and> (falls_through (ops ! i) \<longrightarrow> (if Suc i < length ops then ?M (Suc i) - volatile else {}) \<union> ambient
          \<subseteq> (if i < length ops then ?M i - volatile else {}) \<union> ambient \<union> oc_defs (opcode (ops ! i)))"
      using used live i by auto
  }
  {
    assume drop: "\<not> i \<notin> dead"
    then have nb: "jump_target (ops ! i) = None" using branch(1) [OF i] by blast
    obtain v where v: "opcode (ops ! i) = Inl v" "\<not> vop_has_side_effect v"
      "L (Suc i) \<inter> oc_defs (opcode (ops ! i)) = {}"
      using at [OF i] drop nb by (auto simp: dce_at_def Let_def is_branch_iff)
    have "falls_through (ops ! i)" using v(1,2)
      by (auto simp: falls_through_def vop_has_side_effect_def split: virtual_op.splits contract_op.splits)
    show "(\<exists>v. opcode (ops ! i) = Inl v \<and> \<not> vop_has_side_effect v)
      \<and> (if Suc i < length ops then ?M (Suc i) - volatile else {}) \<union> ambient
         \<subseteq> (if i < length ops then ?M i - volatile else {}) \<union> ambient - oc_defs (opcode (ops ! i))"
      using v pass [OF \<open>falls_through (ops ! i)\<close>] step [OF i nb] i pure_defs [OF v(2)] by auto
  }
  fix l t assume t: "jump_target (ops ! i) = Some l" "label_to_index ops l = Some t"
  have "t \<in> succ_set ops i" using succ_set_eq [OF jumps i] t by simp
  moreover have "t < length ops" using t(2) label_to_index_less by blast
  moreover have "t \<notin> dead"
    using at [OF \<open>t < length ops\<close>] label_kept [OF t(2)] by (auto simp: dce_at_def Let_def split: if_splits)
  ultimately show "True \<and> t \<notin> dead \<and> i \<notin> dead \<and> (if t < length ops then ?M t - volatile else {}) \<union> ambient
      \<subseteq> (if i < length ops then ?M i - volatile else {}) \<union> ambient"
    using flow [OF i, of t] branch(1) [OF i] branch_no_defs [OF t(1)] t(1) i by auto
qed simp_all

end
