(* ===== verification/Asm_Reach.thy ===== *)
theory Asm_Reach
  imports Asm_Dce
begin

text \<open>
  \<^verbatim>\<open>simplify_cfg\<close>: the worklist visits exactly the reachable instructions, and its assertion holds
  when the instruction after a conditional jump has no label. Without that condition the
  assertion can fail.
\<close>

section \<open>Reachable instructions\<close>

inductive reachable :: "op list \<Rightarrow> nat \<Rightarrow> bool" for ops where
  reach_first: "reachable ops 0"
| reach_step: "reachable ops i \<Longrightarrow> s \<in> succ_set ops i \<Longrightarrow> reachable ops s"

definition falls_unlabelled :: "op list \<Rightarrow> bool" where
  "falls_unlabelled ops \<longleftrightarrow>
     (\<forall>i. Suc i < length ops \<longrightarrow> falls_through (ops ! i) \<longrightarrow> jump_target (ops ! i) \<noteq> None \<longrightarrow> label_of (ops ! Suc i) = None)"

lemma successors_list:
  assumes "op_successors o' i n labels = Inr ss" "0 < n"
  shows "ss = (if falls_through o' \<and> Suc i < n then [Suc i] else [])
    @ (case jump_target o' of Some l \<Rightarrow> [the (labels l)] | None \<Rightarrow> [])"
proof (cases "opcode o'")
  case (Inl v)
  with assms show ?thesis
    by (auto simp: op_successors_def vop_successors_def jump_target_def falls_through_def Let_def
        split: virtual_op.splits control_op.splits contract_op.splits if_splits)
next
  case (Inr c)
  with assms show ?thesis
    by (auto simp: op_successors_def cf_successors_def jump_target_def falls_through_def Let_def bindE_Inr_iff
        unwrap_or_panic_def vec_push_def split: control_flow_op.splits option.splits)
qed

lemma unlabelled_pred:
  assumes "jumps_ok ops" "i < length ops" "s \<in> succ_set ops i" "label_of (ops ! s) = None"
  shows "s = Suc i"
  using assms succ_set_eq [OF assms(1,2)] by (auto simp: label_to_index_Some)

text \<open>The push of the unvisited successors.\<close>

lemma push_unseen:
  assumes "\<forall>s \<in> set ss. s < length reachables"
  shows "foldM (\<lambda>s worklist. bindE (nth_or_panic reachables s) (\<lambda>seen.
      Inr (if seen then worklist else vec_push worklist s))) ss w = Inr (w @ filter (\<lambda>s. \<not> reachables ! s) ss)"
  using assms by (induction ss arbitrary: w) (auto simp: nth_or_panic_def vec_push_def)

definition marked :: "bool list \<Rightarrow> nat set" where
  "marked reachables = {i. i < length reachables \<and> reachables ! i}"

text \<open>
  The invariant of the loop: entries are new and visited once; all but the last wait for the code
  that a conditional jump leads to.
\<close>

definition reach_inv :: "op list \<Rightarrow> bool list \<Rightarrow> nat list \<Rightarrow> bool" where
  "reach_inv ops reachables w \<longleftrightarrow>
     length reachables = length ops \<and> distinct w \<and> set w \<subseteq> {..<length ops} - marked reachables
   \<and> 0 \<in> marked reachables \<union> set w \<and> (\<forall>i \<in> marked reachables \<union> set w. reachable ops i)
   \<and> (\<forall>i \<in> marked reachables. succ_set ops i \<subseteq> marked reachables \<union> set w)
   \<and> (\<forall>s \<in> set (butlast w). \<exists>j \<in> marked reachables. s = Suc j \<and> label_of (ops ! s) = None)"

lemma marked_update: "x < length rs \<Longrightarrow> marked (rs[x := True]) = insert x (marked rs)"
  by (auto simp: marked_def nth_list_update split: if_splits)

lemma reach_step_inv:
  assumes "jumps_ok ops" "falls_unlabelled ops" "reach_inv ops rs (w @ [x])"
    and ss: "op_successors (ops ! x) x (length ops) (label_to_index ops) = Inr ss"
  shows "reach_inv ops (rs[x := True]) (w @ filter (\<lambda>s. \<not> rs[x := True] ! s) ss)"
proof -
  let ?rs = "rs[x := True]" and ?new = "filter (\<lambda>s. \<not> rs[x := True] ! s) ss"
  note inv = assms(3) [unfolded reach_inv_def]
  have x: "x < length ops" "x \<notin> marked rs" "reachable ops x" "x \<notin> set w" using inv by auto
  have m: "marked ?rs = insert x (marked rs)" using x(1) inv by (simp add: marked_update)
  have succ: "set ss = succ_set ops x" using ss by (simp add: succ_set_def)
  have ss_eq: "ss = (if falls_through (ops ! x) \<and> Suc x < length ops then [Suc x] else [])
      @ (case jump_target (ops ! x) of Some l \<Rightarrow> [the (label_to_index ops l)] | None \<Rightarrow> [])"
    by (rule successors_list [OF ss]) (use x(1) in linarith)
  have unl: "label_of (ops ! Suc x) = None" if "falls_through (ops ! x)" "Suc x < length ops" "jump_target (ops ! x) = Some l" for l
    using assms(2) that unfolding falls_unlabelled_def by blast
  have target: "label_of (ops ! the (label_to_index ops l)) = Some l" if jt: "jump_target (ops ! x) = Some l" for l
  proof -
    obtain t where "label_to_index ops l = Some t" using assms(1) x(1) jt by (auto simp: jumps_ok_iff)
    moreover from this have "label_of (ops ! t) = Some l" by (simp add: label_to_index_Some)
    ultimately show ?thesis by simp
  qed
  have shape: "length ss \<le> 1 \<or> (\<exists>t. ss = [Suc x, t] \<and> Suc x \<noteq> t \<and> label_of (ops ! Suc x) = None)"
  proof (cases "jump_target (ops ! x)")
    case None
    then show ?thesis by (subst ss_eq) simp
  next
    case (Some l)
    show ?thesis
    proof (cases "falls_through (ops ! x) \<and> Suc x < length ops")
      case True
      then have "ss = [Suc x, the (label_to_index ops l)]" by (subst ss_eq) (simp add: Some)
      then show ?thesis using unl [OF _ _ Some] target [OF Some] True by auto
    next
      case False
      then have "ss = [the (label_to_index ops l)]" by (subst ss_eq) (simp only: if_False Some, simp)
      then show ?thesis by simp
    qed
  qed
  have "distinct ss" using shape by (cases ss) auto
  have new: "s < length ops" "s \<notin> marked ?rs" "s \<in> succ_set ops x" if "s \<in> set ?new" for s
    using that succ succ_set_less by (auto simp: marked_def)
  have fresh: "s \<notin> set w" if s: "s \<in> set ?new" for s
  proof
    assume "s \<in> set w"
    then obtain j where j: "j \<in> marked rs" "s = Suc j" "label_of (ops ! s) = None"
      using inv by (auto simp: butlast_append)
    then have "s = Suc x" using unlabelled_pred [OF assms(1) x(1)] new(3) [OF s] by blast
    then show False using j x(2) by simp
  qed
  have last: "s = Suc x \<and> label_of (ops ! s) = None" if s: "s \<in> set (butlast ?new)" for s
  proof -
    have "\<not> length ?new \<le> 1" using s by (cases ?new) auto
    moreover have "length ?new \<le> length ss" by (rule length_filter_le)
    ultimately have "\<not> length ss \<le> 1" by linarith
    then obtain t where "ss = [Suc x, t]" "label_of (ops ! Suc x) = None" using shape by auto
    then show ?thesis using s by (auto split: if_splits)
  qed
  have closed: "succ_set ops i \<subseteq> marked ?rs \<union> set (w @ ?new)" if "i \<in> marked ?rs" for i
  proof (cases "i = x")
    case True
    then show ?thesis using succ succ_set_less inv by (fastforce simp: marked_def)
  next
    case False
    then show ?thesis using that inv m by auto
  qed
  have pend: "\<exists>j \<in> marked ?rs. s = Suc j \<and> label_of (ops ! s) = None" if "s \<in> set (butlast (w @ ?new))" for s
  proof (cases "s \<in> set (butlast ?new)")
    case True
    then show ?thesis using last m by blast
  next
    case False
    then have "s \<in> set w" using that by (auto simp: butlast_append split: if_splits dest: in_set_butlastD)
    then show ?thesis using inv m by auto
  qed
  have reach: "reachable ops s" if "s \<in> set ?new" for s using reach_step [OF x(3) new(3) [OF that]] .
  have "set (w @ ?new) \<subseteq> {..<length ops} - marked ?rs" using new(1,2) inv x(4) m by auto
  moreover have "0 \<in> marked ?rs \<union> set (w @ ?new)" using inv m by auto
  moreover have "\<forall>i \<in> marked ?rs \<union> set (w @ ?new). reachable ops i"
    using reach inv x(3) unfolding m by (metis UnCI UnE insert_iff set_append)
  moreover have "distinct (w @ ?new)" using fresh inv \<open>distinct ss\<close> by auto
  ultimately show ?thesis unfolding reach_inv_def using inv closed pend by simp
qed

lemma reach_loop_ok:
  assumes "jumps_ok ops" "falls_unlabelled ops" "reach_inv ops rs w" "length ops - card (marked rs) < fuel"
  shows "\<exists>rs'. reach_loop fuel ops (label_to_index ops) rs w = Inr rs' \<and> length rs' = length ops
    \<and> marked rs' = {i. reachable ops i \<and> i < length ops}"
  using assms(3,4)
proof (induction fuel arbitrary: rs w)
  case (Suc fuel)
  note inv = Suc.prems(1) [unfolded reach_inv_def]
  show ?case
  proof (cases w rule: rev_cases)
    case Nil
    have "i \<in> marked rs" if "reachable ops i" for i
      using that by induction (use inv Nil in auto)
    moreover have "reachable ops i" "i < length ops" if "i \<in> marked rs" for i
      using inv that by (auto simp: marked_def)
    ultimately have "marked rs = {i. reachable ops i \<and> i < length ops}" by blast
    with Nil inv show ?thesis by simp
  next
    case (snoc w' x)
    then have x: "x < length ops" "x \<notin> marked rs" using inv by auto
    obtain ss where ss: "op_successors (ops ! x) x (length ops) (label_to_index ops) = Inr ss"
        "set ss = succ_set ops x"
      by (rule jumps_ok_successors [OF assms(1) x(1)])
    let ?rs = "rs[x := True]" and ?w = "w' @ filter (\<lambda>s. \<not> rs[x := True] ! s) ss"
    have inv': "reach_inv ops ?rs ?w"
      using reach_step_inv [OF assms(1,2) _ ss(1)] Suc.prems(1) snoc by blast
    have fin: "finite (marked rs)" "marked rs \<subseteq> {..<length ops}" using inv by (auto simp: marked_def)
    have "card (insert x (marked rs)) \<le> card {..<length ops}" using fin(2) x(1) by (intro card_mono) auto
    then have "length ops - card (marked ?rs) < fuel"
      using Suc.prems(2) x inv fin by (simp add: marked_update)
    moreover have "x < length rs" "\<not> rs ! x" using x inv by (auto simp: marked_def)
    moreover have "\<forall>s \<in> set ss. s < length ?rs" using ss(2) succ_set_less inv by auto
    note push = push_unseen [OF this, of w']
    ultimately have "length ops - card (marked ?rs) < fuel"
        "reach_loop (Suc fuel) ops (label_to_index ops) rs w = reach_loop fuel ops (label_to_index ops) ?rs ?w"
      by (simp_all add: snoc nth_or_panic_def assert_or_panic_def Let_def ss(1) push del: nth_list_update_eq)
    then show ?thesis using Suc.IH [OF inv'] by simp
  qed
qed simp

lemma simplify_cfg_ok:
  assumes "jumps_ok ops" "falls_unlabelled ops" "length ops < fuel"
  shows "simplify_cfg fuel ops = Inr (rewrite (kept_at ops (reachable ops)) (length ops))"
proof (cases "ops = []")
  case True
  then show ?thesis by (simp add: simplify_cfg_def rewrite_def List.map_filter_def)
next
  case False
  let ?rs = "replicate (length ops) False"
  have "marked ?rs = {}" by (auto simp: marked_def)
  then have "reach_inv ops ?rs [0]"
    using False by (auto simp: reach_inv_def intro: reach_first)
  then obtain rs where rs: "reach_loop fuel ops (label_to_index ops) ?rs [0] = Inr rs" "length rs = length ops"
      "marked rs = {i. reachable ops i \<and> i < length ops}"
    using reach_loop_ok [OF assms(1,2)] assms(3) \<open>marked ?rs = {}\<close> by fastforce
  have "rewrite (kept_at ops ((!) rs)) (length ops) = rewrite (kept_at ops (reachable ops)) (length ops)"
    by (rule rewrite_cong) (use rs(2,3) in \<open>auto simp: marked_def kept_at_def\<close>)
  then show ?thesis using rs False filter_enumerate_rewrite [of "\<lambda>i. rs ! i" ops] by (simp add: simplify_cfg_def)
qed

lemma simplify_cfg_keeps_results:
  assumes vm: "machine_ok vm" and jumps: "jumps_ok ops" and reads: "reads_none volatile ops"
  shows "keeps_results vm ops (rewrite (kept_at ops (reachable ops)) (length ops))"
proof (rule deletion_keeps_results [OF vm, where I = "reachable ops" and A = "\<lambda>_. - volatile"])
  show "set (op_use_registers (ops ! i)) \<subseteq> - volatile \<and> (falls_through (ops ! i) \<longrightarrow> - volatile \<subseteq> - volatile \<union> oc_defs (opcode (ops ! i)))"
    if "i < length ops" for i
    using reads that nth_mem by (fastforce simp: reads_none_def)
  show "reachable ops t \<and> reachable ops t \<and> reachable ops i \<and> - volatile \<subseteq> - volatile"
    if "i < length ops" "reachable ops i" "jump_target (ops ! i) = Some l" "label_to_index ops l = Some t" for i l t
    using that succ_set_eq [OF jumps that(1)] reach_step [OF that(2), of t] by simp
  show "reachable ops (Suc i)"
    if "i < length ops" "reachable ops i" "Suc i < length ops" "falls_through (ops ! i)" for i
    using that succ_set_eq [OF jumps that(1)] reach_step [OF that(2), of "Suc i"] by simp
qed (auto simp: ambient_def intro: reach_first)

end
