(* ===== verification/Asm_Cleanup.thy ===== *)
theory Asm_Cleanup
  imports Asm_Reach
begin

text \<open>
  The last three passes of the optimizer replace jumps to the next instruction and moves to
  registers that are never read by \<^verbatim>\<open>NOOP\<close>, and delete every \<^verbatim>\<open>NOOP\<close>. They are correct for code that does
  not read the flags, which a \<^verbatim>\<open>NOOP\<close> clears.
\<close>

section \<open>Replacing instructions by NOOP\<close>

definition labels_unique :: "op list \<Rightarrow> bool" where
  "labels_unique ops \<longleftrightarrow> distinct (List.map_filter label_of ops)"

lemma labels_unique_index:
  assumes "labels_unique ops" "i < length ops" "label_of (ops ! i) = Some l"
  shows "label_to_index ops l = Some i"
  using assms
proof (induction ops rule: rev_induct)
  case (snoc x ops)
  have map_filter: "List.map_filter label_of (ops @ [x]) =
      List.map_filter label_of ops @ (case label_of x of Some l \<Rightarrow> [l] | None \<Rightarrow> [])"
    by (simp add: List.map_filter_def split: option.splits)
  show ?case
  proof (cases "i < length ops")
    case True
    then have l: "label_of (ops ! i) = Some l" using snoc.prems(3) by (simp add: nth_append)
    have "\<exists>o' \<in> set ops. label_of o' = Some l" using True l nth_mem by blast
    then have "l \<in> set (List.map_filter label_of ops)" by (force simp: List.map_filter_def)
    then have "label_of x \<noteq> Some l" using snoc.prems(1) map_filter by (auto simp: labels_unique_def)
    moreover have "label_to_index ops l = Some i"
      using snoc True l map_filter by (auto simp: labels_unique_def split: option.splits)
    ultimately show ?thesis by (auto simp: label_to_index_snoc split: option.splits)
  next
    case False
    then have "i = length ops" using snoc.prems(2) by simp
    then show ?thesis using snoc.prems(3) by (simp add: label_to_index_snoc)
  qed
qed simp

lemma rewrite_total: "rewrite (\<lambda>i. Some (f i)) n = map f [0..<n]"
  by (induction n) (simp_all add: rewrite_Suc, simp add: rewrite_def List.map_filter_def)

lemma replace_all_rewrite:
  "replace_all o' idxs ops = rewrite (\<lambda>i. Some (if i \<in> set idxs then o' else ops ! i)) (length ops)"
  by (rule nth_equalityI) (simp_all add: rewrite_total nth_replace_all)

lemma noop_flow [simp]: "opcode (noop text) = Inl (Alu NOOP)" "label_of (noop text) = None"
  "jump_target (noop text) = None"
  by (simp_all add: noop_def label_of_def jump_target_def)

lemma noop_defs: "oc_defs (Inl (Alu NOOP)) = flags" "\<not> vop_has_side_effect (Alu NOOP)"
  by (auto simp: oc_defs_def plain_def op_def_registers_def op_def_const_registers_def vop_def_registers_def
      vop_def_const_registers_def flags_def vop_has_side_effect_def defines_constant_def)

lemma exec_noop:
  assumes "machine_ok vm"
  shows "\<exists>r1. exec_op vm (noop text) r m = Fall r1 m \<and> agree (- flags - volatile) r r1"
proof -
  have "exec_op vm (noop text) r m \<noteq> Bad"
    using assms by (simp add: machine_ok_def exec_op_def exec_plain_def split: outcome.splits)
  then show ?thesis using exec_pure [OF assms noop_flow(1) noop_defs(2), of "text" r m] by (simp add: noop_defs)
qed

text \<open>
  An instruction at one of the positions \<open>idxs\<close> is a jump to the next one, or is without side effect
  and writes no register of \<open>A\<close>, which contains all that is read.
\<close>

lemma replacing_keeps_results:
  assumes vm: "machine_ok vm" and A: "ambient \<subseteq> A" "A \<inter> (volatile \<union> flags) = {}"
    and reads: "\<And>i. i < length ops \<Longrightarrow> i \<notin> set idxs \<Longrightarrow> set (op_use_registers (ops ! i)) \<subseteq> A"
    and unlabelled: "\<And>i. i \<in> set idxs \<Longrightarrow> label_of (ops ! i) = None"
    and dead: "\<And>i. i < length ops \<Longrightarrow> i \<in> set idxs \<Longrightarrow>
        (\<exists>l. opcode (ops ! i) = Inr (Jump l) \<and> label_to_index ops l = Some (Suc i))
      \<or> (\<exists>v. opcode (ops ! i) = Inl v \<and> \<not> vop_has_side_effect v \<and> oc_defs (Inl v) \<inter> A = {})"
  shows "keeps_results vm ops (replace_all (noop text) idxs ops)"
  unfolding replace_all_rewrite
proof (rule simulates_keeps_results [where I = "\<lambda>_. True" and A = "\<lambda>_. A"])
  let ?g = "\<lambda>i. Some (if i \<in> set idxs then noop text else ops ! i)"
  show "simulates vm ops ?g (\<lambda>_. True) (\<lambda>_. A)"
    unfolding simulates_def
  proof (intro conjI allI impI)
    fix i y assume "i < length ops" "?g i = Some y"
    then show "label_of y = label_of (ops ! i)" using unlabelled by (auto split: if_splits)
  next
    fix i r r' m assume i: "i < length ops" and ag: "agree A r r'"
    obtain rn where rn: "exec_op vm (noop text) r' m = Fall rn m" "agree (- flags - volatile) r' rn"
      using exec_noop [OF vm] by blast
    have noop: "agree A r rn" if "agree A r r'" for r
    proof -
      have "agree A r' rn" using agree_subset [OF rn(2)] A(2) by blast
      then show ?thesis using agree_trans that by blast
    qed
    show "case exec_op vm (ops ! i) r m of
          Fall r1 m1 \<Rightarrow> (Suc i < length ops \<longrightarrow> True) \<and>
            (case ?g i of
               None \<Rightarrow> m1 = m \<and> agree A r1 r'
             | Some x \<Rightarrow> \<exists>r1'. exec_op vm x r' m = Fall r1' m1 \<and> agree A r1 r1')
        | Take l r1 m1 \<Rightarrow>
            (\<forall>t. label_to_index ops l = Some t \<longrightarrow> True \<and> ?g t \<noteq> None \<and>
              (\<exists>x r1'. ?g i = Some x \<and> agree A r1 r1' \<and>
                (exec_op vm x r' m = Take l r1' m1 \<or> exec_op vm x r' m = Fall r1' m1 \<and> t = Suc i)))
        | End z \<Rightarrow> (\<exists>x. ?g i = Some x \<and> exec_op vm x r' m = End z)
        | Bad \<Rightarrow> True"
    proof (cases "i \<in> set idxs")
      case True
      consider l where "opcode (ops ! i) = Inr (Jump l)" "label_to_index ops l = Some (Suc i)"
        | v where "opcode (ops ! i) = Inl v" "\<not> vop_has_side_effect v" "oc_defs (Inl v) \<inter> A = {}"
        using dead [OF i True] by blast
      then show ?thesis
      proof cases
        case (1 l)
        then show ?thesis using True rn(1) noop [OF ag] by (simp add: exec_op_def)
      next
        case (2 v)
        have "agree A r1 rn" if "agree (- oc_defs (opcode (ops ! i)) - volatile) r r1" for r1
        proof -
          have "A \<subseteq> A \<inter> (- oc_defs (opcode (ops ! i)) - volatile)" using 2 A(2) by auto
          from agree_via [OF ag that this] show ?thesis by (rule noop)
        qed
        then show ?thesis using exec_pure [OF vm 2(1,2), of r m] rn(1) True by auto
      qed
    next
      case False
      have "same_flow A (exec_op vm (ops ! i) r m) (exec_op vm (ops ! i) r' m)"
        by (rule exec_op_same [OF vm ag]) (use reads [OF i False] A in auto)
      then show ?thesis using False
        by (cases "exec_op vm (ops ! i) r m"; cases "exec_op vm (ops ! i) r' m") auto
    qed
  qed
qed simp

section \<open>The passes\<close>

lemma dead_jumpsD:
  assumes "i \<in> set (dead_jumps ops)"
  obtains l where "Suc i < length ops" "opcode (ops ! i) = Inr (Jump l)" "label_of (ops ! Suc i) = Some l"
proof -
  have i: "i < length ops - 1" and c: "case (opcode (ops ! i), opcode (ops ! (i + 1))) of
         (Inr (Jump dst_label), Inr (Label l)) \<Rightarrow> dst_label = l
       | _ \<Rightarrow> False"
    using assms by (simp_all add: dead_jumps_def)
  obtain c1 where c1: "opcode (ops ! i) = Inr c1" using c by (cases "opcode (ops ! i)") auto
  obtain l where l: "c1 = Jump l" using c c1 by (cases c1) auto
  obtain c2 where c2: "opcode (ops ! Suc i) = Inr c2" using c c1 l by (cases "opcode (ops ! Suc i)") auto
  have "c2 = Label l" using c c1 l c2 by (cases c2) auto
  then show ?thesis using that [of l] i c1 l c2 by (simp add: label_of_def less_diff_conv)
qed

lemma reads_noneD: "reads_none R ops \<Longrightarrow> i < length ops \<Longrightarrow> set (op_use_registers (ops ! i)) \<subseteq> - R"
  by (auto simp: reads_none_def dest: nth_mem)

lemma sequential_jumps_keep_results:
  assumes "machine_ok vm" "labels_unique ops" "reads_none (volatile \<union> flags) ops"
  shows "keeps_results vm ops (remove_sequential_jumps ops)"
  unfolding remove_sequential_jumps_def
proof (rule replacing_keeps_results [OF assms(1), where A = "- (volatile \<union> flags)"])
  fix i assume "i \<in> set (dead_jumps ops)"
  then obtain l where l: "Suc i < length ops" "opcode (ops ! i) = Inr (Jump l)" "label_of (ops ! Suc i) = Some l"
    by (rule dead_jumpsD)
  show "label_of (ops ! i) = None" using l(2) by (simp add: label_of_def)
  show "(\<exists>l. opcode (ops ! i) = Inr (Jump l) \<and> label_to_index ops l = Some (Suc i)) \<or>
        (\<exists>v. opcode (ops ! i) = Inl v \<and> \<not> vop_has_side_effect v \<and> oc_defs (Inl v) \<inter> - (volatile \<union> flags) = {})"
    using l labels_unique_index [OF assms(2)] by blast
qed (use reads_noneD [OF assms(3)] in \<open>auto simp: ambient_def\<close>)

lemma dead_moves_cases:
  assumes "i \<in> set (dead_moves ops)"
  obtains d x where "i < length ops" "opcode (ops ! i) = Inl (Alu (MOVE (Virtual d) x))"
    "\<And>o'. o' \<in> set ops \<Longrightarrow> Virtual d \<notin> set (op_use_registers o')"
  using assms by (auto simp: dead_moves_def Let_def split: sum.splits virtual_op.splits alu_op.splits virtual_register.splits)

lemma move_defs:
  "oc_defs (Inl (Alu (MOVE (Virtual d) x))) = insert (Virtual d) flags" "\<not> vop_has_side_effect (Alu (MOVE (Virtual d) x))"
  by (auto simp: oc_defs_def plain_def op_def_registers_def op_def_const_registers_def vop_def_registers_def
      vop_def_const_registers_def flags_def vop_has_side_effect_def defines_constant_def)

lemma dead_moves_keep_results:
  assumes "machine_ok vm" "reads_none (volatile \<union> flags) ops"
  shows "keeps_results vm ops (replace_all (noop text) (dead_moves ops) ops)"
proof (rule replacing_keeps_results [OF assms(1), where
      A = "- (volatile \<union> flags) - {r. is_virtual r \<and> (\<forall>o' \<in> set ops. r \<notin> set (op_use_registers o'))}"])
  fix i assume "i \<in> set (dead_moves ops)"
  then obtain d x where d: "i < length ops" "opcode (ops ! i) = Inl (Alu (MOVE (Virtual d) x))"
      "\<And>o'. o' \<in> set ops \<Longrightarrow> Virtual d \<notin> set (op_use_registers o')"
    by (rule dead_moves_cases) blast
  show "label_of (ops ! i) = None" using d(2) by (simp add: label_of_def)
  show "(\<exists>l. opcode (ops ! i) = Inr (Jump l) \<and> label_to_index ops l = Some (Suc i)) \<or>
        (\<exists>v. opcode (ops ! i) = Inl v \<and> \<not> vop_has_side_effect v \<and> oc_defs (Inl v) \<inter>
          (- (volatile \<union> flags) - {r. is_virtual r \<and> (\<forall>o' \<in> set ops. r \<notin> set (op_use_registers o'))}) = {})"
    using d move_defs [of d x] by auto
qed (use reads_noneD [OF assms(2)] nth_mem in \<open>fastforce simp: ambient_def\<close>)+

lemma reads_none_replace:
  assumes "reads_none R ops"
  shows "reads_none R (replace_all (noop text) idxs ops)"
proof -
  have "set (op_use_registers (noop text)) = {}"
    by (simp add: op_use_registers_def vop_use_registers_def)
  then show ?thesis using assms
    unfolding reads_none_def all_set_conv_all_nth [of "replace_all (noop text) idxs ops"] by (auto simp: nth_replace_all)
qed

lemma redundant_moves_keep_results:
  assumes "machine_ok vm" "reads_none (volatile \<union> flags) ops"
  shows "keeps_results vm ops (remove_redundant_moves ops) \<and> reads_none (volatile \<union> flags) (remove_redundant_moves ops)"
  using assms(2)
proof (induction ops rule: remove_redundant_moves.induct)
  case (1 ops)
  show ?case
  proof (cases "dead_moves ops = []")
    case True
    then show ?thesis using 1(2) by (subst (1 2) remove_redundant_moves.simps) simp
  next
    case False
    then show ?thesis
      using 1 dead_moves_keep_results [OF assms(1) 1(2)] reads_none_replace [OF 1(2)] keeps_results_trans
      by (subst (1 2) remove_redundant_moves.simps) (simp, blast)
  qed
qed

lemma redundant_ops_keep_results:
  assumes "machine_ok vm" "reads_none (volatile \<union> flags) ops"
  shows "keeps_results vm ops (remove_redundant_ops ops)"
proof -
  have "remove_redundant_ops ops = rewrite (kept_at ops (\<lambda>i. \<not> is_noop (ops ! i))) (length ops)"
    unfolding remove_redundant_ops_def filter_enumerate_rewrite [symmetric] enumerate_nth
    by (simp add: filter_map comp_def) (metis (no_types, lifting) filter_map map_nth comp_def filter_cong)
  moreover have "keeps_results vm ops (rewrite (kept_at ops (\<lambda>i. \<not> is_noop (ops ! i))) (length ops))"
  proof (rule deletion_keeps_results [OF assms(1), where I = "\<lambda>_. True" and A = "\<lambda>_. - (volatile \<union> flags)"])
    fix i l t
    assume t: "jump_target (ops ! i) = Some l" "label_to_index ops l = Some t"
    then have "\<not> is_noop (ops ! t)" using label_kept [OF t(2)] by (auto simp: is_noop_def)
    with t(1) show "True \<and> \<not> is_noop (ops ! t) \<and> \<not> is_noop (ops ! i) \<and> - (volatile \<union> flags) \<subseteq> - (volatile \<union> flags)"
      by (auto simp: is_noop_def jump_target_def split: sum.splits control_flow_op.splits virtual_op.splits)
  next
    fix i assume "\<not> \<not> is_noop (ops ! i)"
    then have "opcode (ops ! i) = Inl (Alu NOOP)"
      by (auto simp: is_noop_def split: sum.splits virtual_op.splits alu_op.splits)
    then show "(\<exists>v. opcode (ops ! i) = Inl v \<and> \<not> vop_has_side_effect v)
        \<and> - (volatile \<union> flags) \<subseteq> - (volatile \<union> flags) - oc_defs (opcode (ops ! i))"
      by (auto simp: noop_defs)
  qed (use reads_noneD [OF assms(2)] in \<open>auto simp: ambient_def\<close>)
  ultimately show ?thesis by simp
qed

end
