(* ===== verification/Asm_Index.thy ===== *)
theory Asm_Index
  imports Asm_Cleanup
begin

text \<open>
  \<^verbatim>\<open>const_indexing_aggregates_function\<close>: when what the pass remembers about registers is true, an
  access through a computed address is replaced by one that goes to the same place. The pass does
  not count a \<^verbatim>\<open>MOVE\<close> as a new definition; the conditions below say where that is harmless.
\<close>

section \<open>What the machine documents\<close>

text \<open>
  Loads of constants, moves, and accesses that only depend on the address. \<open>hidden v\<close> are the
  registers of the machine that an instruction changes and does not list.
\<close>

definition accesses_ok :: "('m, 'r) machine \<Rightarrow> data_section \<Rightarrow> (virtual_op \<Rightarrow> virtual_register set) \<Rightarrow> bool" where
  "accesses_ok vm ds hidden \<longleftrightarrow>
     (\<forall>d i r m r' m'. vm (Inl (Alu (MOVI d i))) r m = Next r' m' \<longrightarrow> r' d = ucast (value18 i))
   \<and> (\<forall>d a r m r' m'. vm (Inl (Alu (MOVE d a))) r m = Next r' m' \<longrightarrow> r' d = r a)
   \<and> (\<forall>d did c r m r' m'. vm (Inl (NonVm (LoadDataId d did))) r m = Next r' m' \<longrightarrow>
        get_data_word ds did = Some c \<longrightarrow> r' d = c)
   \<and> (\<forall>d a b i j r m. unat (r a) + 8 * unat (value12 i) = unat (r b) + 8 * unat (value12 j) \<longrightarrow>
        vm (Inl (Memory (LW d a i))) r m = vm (Inl (Memory (LW d b j))) r m
      \<and> vm (Inl (Memory (SW a d i))) r m = vm (Inl (Memory (SW b d j))) r m)
   \<and> (\<forall>v r m r' m'. vm (Inl v) r m = Next r' m' \<longrightarrow>
        agree (- set (vop_def_registers v) - hidden v - volatile - flags) r r')
   \<and> (\<forall>x l r m r' m'. vm (Inr (SaveRetAddr x l)) r m = Next r' m' \<longrightarrow> agree (- {x} - volatile - flags) r r')"

text \<open>
  Sums and products do not wrap around, but panic, unless the second bit of the register \<^verbatim>\<open>$flag\<close>
  is set, which only the instruction \<^verbatim>\<open>FLAG\<close> does.
\<close>

definition wrapping :: "regs \<Rightarrow> bool" where
  "wrapping r \<longleftrightarrow> bit (r (Constant Flags)) 1"

definition arithmetic_ok :: "('m, 'r) machine \<Rightarrow> data_section \<Rightarrow> (virtual_op \<Rightarrow> virtual_register set) \<Rightarrow> bool" where
  "arithmetic_ok vm ds hidden \<longleftrightarrow>
     (\<forall>d a b r m r' m'. vm (Inl (Alu (ADD d a b))) r m = Next r' m' \<longrightarrow> \<not> wrapping r \<longrightarrow> unat (r' d) = unat (r a) + unat (r b))
   \<and> (\<forall>d a i r m r' m'. vm (Inl (Alu (ADDI d a i))) r m = Next r' m' \<longrightarrow> \<not> wrapping r \<longrightarrow>
        unat (r' d) = unat (r a) + unat (value12 i))
   \<and> (\<forall>d a b r m r' m'. vm (Inl (Alu (MUL d a b))) r m = Next r' m' \<longrightarrow> \<not> wrapping r \<longrightarrow> unat (r' d) = unat (r a) * unat (r b))
   \<and> (\<forall>oc r m r' m'. vm oc r m = Next r' m' \<longrightarrow> (\<forall>x. oc \<noteq> Inl (Other (FLAG x))) \<longrightarrow> r' (Constant Flags) = r (Constant Flags))
   \<and> accesses_ok vm ds hidden"

text \<open>
  The proofs below use a machine that panics for the three instructions in wrapping mode, on which
  they never wrap around.
\<close>

definition arithmetic_strict :: "('m, 'r) machine \<Rightarrow> data_section \<Rightarrow> (virtual_op \<Rightarrow> virtual_register set) \<Rightarrow> bool" where
  "arithmetic_strict vm ds hidden \<longleftrightarrow>
     (\<forall>d a b r m r' m'. vm (Inl (Alu (ADD d a b))) r m = Next r' m' \<longrightarrow> unat (r' d) = unat (r a) + unat (r b))
   \<and> (\<forall>d a i r m r' m'. vm (Inl (Alu (ADDI d a i))) r m = Next r' m' \<longrightarrow> unat (r' d) = unat (r a) + unat (value12 i))
   \<and> (\<forall>d a b r m r' m'. vm (Inl (Alu (MUL d a b))) r m = Next r' m' \<longrightarrow> unat (r' d) = unat (r a) * unat (r b))
   \<and> accesses_ok vm ds hidden"

lemma arithmetic_strictD:
  assumes "arithmetic_strict vm ds hidden"
  shows "vm (Inl (Alu (ADD d a b))) r m = Next r' m' \<Longrightarrow> unat (r' d) = unat (r a) + unat (r b)"
    "vm (Inl (Alu (ADDI d a i))) r m = Next r' m' \<Longrightarrow> unat (r' d) = unat (r a) + unat (value12 i)"
    "vm (Inl (Alu (MUL d a b))) r m = Next r' m' \<Longrightarrow> unat (r' d) = unat (r a) * unat (r b)"
    "vm (Inl (Alu (MOVI d k))) r m = Next r' m' \<Longrightarrow> r' d = ucast (value18 k)"
    "vm (Inl (Alu (MOVE d a))) r m = Next r' m' \<Longrightarrow> r' d = r a"
    "vm (Inl (NonVm (LoadDataId d did))) r m = Next r' m' \<Longrightarrow> get_data_word ds did = Some c \<Longrightarrow> r' d = c"
    "unat (r a) + 8 * unat (value12 i) = unat (r b) + 8 * unat (value12 j) \<Longrightarrow>
       vm (Inl (Memory (LW d a i))) r m = vm (Inl (Memory (LW d b j))) r m"
    "unat (r a) + 8 * unat (value12 i) = unat (r b) + 8 * unat (value12 j) \<Longrightarrow>
       vm (Inl (Memory (SW a d i))) r m = vm (Inl (Memory (SW b d j))) r m"
    "vm (Inl v) r m = Next r' m' \<Longrightarrow> agree (- set (vop_def_registers v) - hidden v - volatile - flags) r r'"
    "vm (Inr (SaveRetAddr x l)) r m = Next r' m' \<Longrightarrow> agree (- {x} - volatile - flags) r r'"
  using assms unfolding arithmetic_strict_def accesses_ok_def by metis+

fun may_wrap :: "virtual_op + virtual_register control_flow_op \<Rightarrow> bool" where
  "may_wrap (Inl (Alu (ADD _ _ _))) = True"
| "may_wrap (Inl (Alu (ADDI _ _ _))) = True"
| "may_wrap (Inl (Alu (MUL _ _ _))) = True"
| "may_wrap _ = False"

definition trap_wrap :: "('m, 'r) machine \<Rightarrow> ('m, 'r) machine" where
  "trap_wrap vm oc r m = (if wrapping r \<and> may_wrap oc then Trap else vm oc r m)"

lemma trap_wrap_Next:
  "trap_wrap vm oc r m = Next r' m' \<longleftrightarrow> vm oc r m = Next r' m' \<and> \<not> (wrapping r \<and> may_wrap oc)"
  by (auto simp: trap_wrap_def)

lemma trap_wrap_access: "trap_wrap vm (Inl (Memory v)) r m = vm (Inl (Memory v)) r m"
  by (simp add: trap_wrap_def)

lemma trap_wrap_accesses:
  assumes "accesses_ok vm ds hidden"
  shows "accesses_ok (trap_wrap vm) ds hidden"
  using assms unfolding accesses_ok_def trap_wrap_Next trap_wrap_access may_wrap.simps simp_thms imp_conjL
  by (elim conjE, intro conjI) (assumption | metis)+

lemma trap_wrap_strict:
  assumes "arithmetic_ok vm ds hidden"
  shows "arithmetic_strict (trap_wrap vm) ds hidden"
proof -
  have "accesses_ok vm ds hidden" using assms unfolding arithmetic_ok_def by (elim conjE)
  then have "accesses_ok (trap_wrap vm) ds hidden" by (rule trap_wrap_accesses)
  with assms show ?thesis
    unfolding arithmetic_ok_def arithmetic_strict_def trap_wrap_Next may_wrap.simps simp_thms imp_conjL
    by (elim conjE, intro conjI) assumption+
qed

lemma trap_wrap_machine:
  assumes "machine_ok vm"
  shows "machine_ok (trap_wrap vm)"
  unfolding machine_ok_def
proof (intro conjI allI impI)
  fix oc m and r r' :: regs assume a: "agree (oc_uses oc \<union> ambient) r r'"
  have "Constant Flags \<in> ambient" by (simp add: ambient_def volatile_def flags_def)
  then have "wrapping r \<longleftrightarrow> wrapping r'" using a by (simp add: agree_def wrapping_def)
  then show "same_outcome (oc_defs oc \<union> ambient) (trap_wrap vm oc r m) (trap_wrap vm oc r' m)"
    using assms a by (simp add: machine_ok_def trap_wrap_def)
next
  fix oc m and r r' :: regs and m' assume "trap_wrap vm oc r m = Next r' m'"
  then show "agree (- oc_defs oc - ambient - volatile) r r'"
    using assms unfolding machine_ok_def trap_wrap_def by (metis outcome.distinct(3))
next
  fix v m and r :: regs assume "\<not> vop_has_side_effect v"
  then show "case trap_wrap vm (Inl v) r m of
      Next r' m' \<Rightarrow> m' = m \<and> agree (- oc_defs (Inl v) - volatile) r r' | Stop _ \<Rightarrow> False | Trap \<Rightarrow> True"
    using assms by (simp add: machine_ok_def trap_wrap_def)
qed (use assms in \<open>simp_all add: machine_ok_def trap_wrap_def\<close>)

text \<open>Code without \<^verbatim>\<open>FLAG\<close> that starts in the default mode never wraps around.\<close>

definition flag_free :: "op list \<Rightarrow> bool" where
  "flag_free ops \<longleftrightarrow> (\<forall>o' \<in> set ops. \<forall>x. opcode o' \<noteq> Inl (Other (FLAG x)))"

lemma exec_trap_wrap:
  "exec_op (trap_wrap vm) o' r m = Bad \<or> exec_op (trap_wrap vm) o' r m = exec_op vm o' r m"
  "\<not> wrapping r \<Longrightarrow> exec_op (trap_wrap vm) o' r m = exec_op vm o' r m"
  by (auto simp: exec_op_def exec_plain_def trap_wrap_def split: sum.splits control_flow_op.splits)

lemma exec_keeps_mode:
  assumes "arithmetic_ok vm ds hidden" "\<forall>x. opcode o' \<noteq> Inl (Other (FLAG x))"
  shows "exec_op vm o' r m = Fall r1 m1 \<Longrightarrow> wrapping r1 \<longleftrightarrow> wrapping r"
    "exec_op vm o' r m = Take l r1 m1 \<Longrightarrow> wrapping r1 \<longleftrightarrow> wrapping r"
proof -
  have keep: "r1 (Constant Flags) = r (Constant Flags)" if "vm (opcode o') r m = Next r1 m1"
    using assms that unfolding arithmetic_ok_def by blast
  show "exec_op vm o' r m = Fall r1 m1 \<Longrightarrow> wrapping r1 \<longleftrightarrow> wrapping r"
    using keep by (auto simp: exec_op_def exec_plain_def wrapping_def split: sum.splits control_flow_op.splits outcome.splits if_splits)
  show "exec_op vm o' r m = Take l r1 m1 \<Longrightarrow> wrapping r1 \<longleftrightarrow> wrapping r" by (drule exec_op_takes(2)) simp
qed

lemma run_strict:
  assumes "arithmetic_ok vm ds hidden" "flag_free ops" "run vm ops n pc r m = Some x" "\<not> wrapping r"
  shows "run (trap_wrap vm) ops n pc r m = Some x"
  using assms(3,4)
proof (induction n arbitrary: pc r m)
  case (Suc n)
  have pc: "pc < length ops" using Suc.prems(1) by (simp add: run_Suc split: if_splits)
  then have "\<forall>x. opcode (ops ! pc) \<noteq> Inl (Other (FLAG x))" using assms(2) by (simp add: flag_free_def)
  note mode = exec_keeps_mode [OF assms(1) this, of r m]
  show ?case using Suc.prems mode pc exec_trap_wrap(2) [OF Suc.prems(2), of vm "ops ! pc" m]
    by (auto simp: run_Suc Suc.IH split: flow.splits option.splits)
qed simp

lemma run_not_strict: "run (trap_wrap vm) ops n pc r m = Some x \<Longrightarrow> run vm ops n pc r m = Some x"
proof (induction n arbitrary: pc r m)
  case (Suc n)
  have pc: "pc < length ops" using Suc.prems by (simp add: run_Suc split: if_splits)
  have "exec_op (trap_wrap vm) (ops ! pc) r m = exec_op vm (ops ! pc) r m"
    using exec_trap_wrap(1) [of vm "ops ! pc" r m] Suc.prems pc by (auto simp: run_Suc)
  then show ?case using Suc.prems pc by (auto simp: run_Suc Suc.IH split: flow.splits option.splits)
qed simp

section \<open>Conditions on the code\<close>

text \<open>Instructions whose operands the pass remembers.\<close>

fun tracked_op :: "virtual_op \<Rightarrow> bool" where
  "tracked_op (Alu (ADD _ _ _)) = True"
| "tracked_op (Alu (ADDI _ _ _)) = True"
| "tracked_op (Alu (MUL _ _ _)) = True"
| "tracked_op (Alu (MOVI _ _)) = True"
| "tracked_op (Alu (MOVE _ _)) = True"
| "tracked_op (NonVm (LoadDataId _ _)) = True"
| "tracked_op _ = False"

definition tracked :: "op list \<Rightarrow> virtual_register set" where
  "tracked ops = (\<Union>o' \<in> set ops. case opcode o' of Inl v \<Rightarrow> if tracked_op v then set (vop_registers v) else {} | Inr _ \<Rightarrow> {})"

text \<open>No instruction changes a register that is remembered without listing it.\<close>

definition tracked_stable :: "(virtual_op \<Rightarrow> virtual_register set) \<Rightarrow> op list \<Rightarrow> bool" where
  "tracked_stable hidden ops \<longleftrightarrow> tracked ops \<inter> (volatile \<union> flags) = {} \<and>
     (\<forall>o' \<in> set ops. case opcode o' of
        Inl v \<Rightarrow> hidden v \<inter> tracked ops = {} | Inr (SaveRetAddr x _) \<Rightarrow> x \<notin> tracked ops | Inr _ \<Rightarrow> True)"

text \<open>
  The registers mentioned in the block so far, and the ones a \<^verbatim>\<open>MOVE\<close> wrote after they had been
  mentioned. Nothing that the pass remembers of the latter is used in the rest of the block.
\<close>

type_synonym scan = "virtual_register set \<times> virtual_register set"

definition scan_op :: "op \<Rightarrow> scan \<Rightarrow> scan" where
  "scan_op o' = (\<lambda>(seen, moved).
     case opcode o' of
       Inl (Alu (MOVE d s)) \<Rightarrow> ({d, s} \<union> seen, if d \<in> seen then insert d moved else moved)
     | Inl v \<Rightarrow> (set (vop_registers v) \<union> seen, moved)
     | Inr (SaveRetAddr _ _) \<Rightarrow> (seen, moved)
     | Inr _ \<Rightarrow> ({}, {}))"

definition scan_ok :: "op \<Rightarrow> scan \<Rightarrow> bool" where
  "scan_ok o' = (\<lambda>(seen, moved).
     case opcode o' of
       Inl (Alu (MOVE d s)) \<Rightarrow> d \<notin> moved \<and> s \<notin> moved
     | Inl (Alu (ADD _ _ _)) \<Rightarrow> moved = {}
     | Inl (Alu (ADDI _ _ _)) \<Rightarrow> moved = {}
     | Inl (Alu (MUL _ _ _)) \<Rightarrow> moved = {}
     | Inl (Memory (LW _ _ _)) \<Rightarrow> moved = {}
     | Inl (Memory (SW _ _ _)) \<Rightarrow> moved = {}
     | _ \<Rightarrow> True)"

definition scan_at :: "op list \<Rightarrow> nat \<Rightarrow> scan" where
  "scan_at ops i = fold scan_op (take i ops) ({}, {})"

definition moves_late :: "op list \<Rightarrow> bool" where
  "moves_late ops \<longleftrightarrow> (\<forall>i < length ops. scan_ok (ops ! i) (scan_at ops i))"

section \<open>What the pass remembers\<close>

definition entry_true :: "index_state \<Rightarrow> virtual_register set \<Rightarrow> regs \<Rightarrow> virtual_register \<Rightarrow> reg_contents \<Rightarrow> bool" where
  "entry_true s moved r x c \<longleftrightarrow> (case c of
       ContentsConstant k \<Rightarrow> r x = k
     | BaseOffset b off \<Rightarrow> def_reg b \<notin> moved \<longrightarrow> get_def_version s (def_reg b) = def_ver b
         \<longrightarrow> unat (r x) = unat (r (def_reg b)) + unat off)"

fun entry_known :: "index_state \<Rightarrow> virtual_register set \<Rightarrow> reg_contents \<Rightarrow> bool" where
  "entry_known s W (ContentsConstant k) \<longleftrightarrow> True"
| "entry_known s W (BaseOffset b off) \<longleftrightarrow> def_reg b \<in> W \<and> def_ver b \<le> get_def_version s (def_reg b)"

definition remembers ::
  "virtual_register set \<Rightarrow> index_state \<Rightarrow> scan \<Rightarrow> regs \<Rightarrow> bool" where
  "remembers W s sc r \<longleftrightarrow>
     (\<forall>x c. contents s x = Some c \<longrightarrow> x \<in> W \<and> entry_known s (W \<inter> fst sc) c \<and> x \<in> fst sc
       \<and> (x \<notin> snd sc \<longrightarrow> entry_true s (snd sc) r x c))"

lemma record_new_def_version:
  assumes "record_new_def d s = Inr s'"
  shows "contents s' = contents s" "get_def_version s d < get_def_version s' d"
    "x \<noteq> d \<Longrightarrow> get_def_version s' x = get_def_version s x"
proof -
  obtain ver where ver: "s' = s\<lparr>latest_version := (latest_version s)(d \<mapsto> ver)\<rparr>"
      "(case latest_version s d of Some ver \<Rightarrow> add_u32 ver 1 | None \<Rightarrow> Inr 1) = Inr ver"
    using assms by (auto simp: record_new_def_def bindE_Inr_iff)
  show "contents s' = contents s" "x \<noteq> d \<Longrightarrow> get_def_version s' x = get_def_version s x"
    using ver(1) by (simp_all add: get_def_version_def)
  show "get_def_version s d < get_def_version s' d"
    using ver by (auto simp: get_def_version_def unwrap_or_def add_u32_def word_less_nat_alt unat_word_ariths(1)
        split: option.splits if_splits)
qed

text \<open>A new definition that the pass records: the old entries with this base are out of date.\<close>

lemma remembers_new_def:
  assumes "remembers W s sc r" "record_new_def d (s\<lparr>contents := (contents s)(d := e)\<rparr>) = Inr s'"
    and "\<And>x. x \<in> W \<Longrightarrow> x \<noteq> d \<Longrightarrow> r1 x = r x" "fst sc \<subseteq> fst sc'" "snd sc' = snd sc"
    and "\<And>c. e = Some c \<Longrightarrow> d \<in> W \<and> d \<in> fst sc' \<and> entry_known s (W \<inter> fst sc') c
        \<and> (d \<notin> snd sc \<longrightarrow> (case c of
              ContentsConstant k \<Rightarrow> r1 d = k
            | BaseOffset b off \<Rightarrow> def_reg b \<noteq> d \<longrightarrow> def_reg b \<notin> snd sc \<longrightarrow> get_def_version s (def_reg b) = def_ver b
                \<longrightarrow> unat (r1 d) = unat (r (def_reg b)) + unat off))"
  shows "remembers W s' sc' r1"
  unfolding remembers_def
proof (intro allI impI)
  fix x c assume x: "contents s' x = Some c"
  have upd: "contents s' = (contents s)(d := e)" using record_new_def_version(1) [OF assms(2)] by simp
  have ver: "get_def_version s d < get_def_version s' d" "\<And>y. y \<noteq> d \<Longrightarrow> get_def_version s' y = get_def_version s y"
    using record_new_def_version [OF assms(2)] by (auto simp: get_def_version_def)
  have known: "entry_known s' (W \<inter> fst sc') c" if "entry_known s (W \<inter> fst sc'') c" "fst sc'' \<subseteq> fst sc'" for sc'' :: scan
  proof (cases c)
    case (BaseOffset b off)
    then show ?thesis using that ver by (cases "def_reg b = d") auto
  qed simp
  have stale: "get_def_version s' d \<noteq> def_ver b" if "entry_known s V (BaseOffset b off)" "def_reg b = d" for b off V
    using that ver(1) by auto
  show "x \<in> W \<and> entry_known s' (W \<inter> fst sc') c \<and> x \<in> fst sc' \<and> (x \<notin> snd sc' \<longrightarrow> entry_true s' (snd sc') r1 x c)"
  proof (cases "x = d")
    case True
    then have e: "e = Some c" using x upd by simp
    note new = assms(6) [OF e]
    have "entry_true s' (snd sc') r1 d c" if "d \<notin> snd sc"
    proof (cases c)
      case (BaseOffset b off)
      then show ?thesis using new that ver stale [of "W \<inter> fst sc'" b off] assms(3) [of "def_reg b"] assms(5)
        by (cases "def_reg b = d") (auto simp: entry_true_def)
    qed (use new that in \<open>simp add: entry_true_def\<close>)
    then show ?thesis using True new known [of sc'] assms(5) by simp
  next
    case False
    then have old: "contents s x = Some c" using x upd by simp
    note m = assms(1) [unfolded remembers_def, rule_format, OF old]
    have "entry_true s' (snd sc') r1 x c" if "x \<notin> snd sc"
    proof (cases c)
      case (BaseOffset b off)
      then show ?thesis using m that ver False stale [of "W \<inter> fst sc" b off] assms(3) [of "def_reg b"] assms(3) [of x] assms(5)
        by (cases "def_reg b = d") (auto simp: entry_true_def)
    qed (use m that assms(3) [of x] False in \<open>simp add: entry_true_def\<close>)
    then show ?thesis using m known [of sc] assms(4,5) by auto
  qed
qed

lemma remembers_forget:
  assumes "remembers W s sc r" "forget d s = Inr s'" "\<And>x. x \<in> W \<Longrightarrow> x \<noteq> d \<Longrightarrow> r1 x = r x"
    and "fst sc \<subseteq> fst sc'" "snd sc' = snd sc"
  shows "remembers W s' sc' r1"
  using remembers_new_def [OF assms(1), of d None s' r1 sc'] assms(2-5)
  by (simp add: forget_def remove_contents_def)

lemma remembers_mono:
  assumes "remembers W s sc r" "\<And>x. x \<in> W \<Longrightarrow> r1 x = r x" "fst sc \<subseteq> fst sc'" "snd sc \<subseteq> snd sc'"
  shows "remembers W s sc' r1"
  unfolding remembers_def
proof (intro allI impI)
  fix x c assume "contents s x = Some c"
  note m = assms(1) [unfolded remembers_def, rule_format, OF this]
  have "entry_known s (W \<inter> fst sc') c" using m assms(3) by (cases c) auto
  moreover have "entry_true s (snd sc') r1 x c" if "x \<notin> snd sc'"
    using m assms(2) assms(4) that by (cases c) (auto simp: entry_true_def)
  ultimately show "x \<in> W \<and> entry_known s (W \<inter> fst sc') c \<and> x \<in> fst sc'
      \<and> (x \<notin> snd sc' \<longrightarrow> entry_true s (snd sc') r1 x c)"
    using m assms(3) by blast
qed

lemma remembers_forget_all:
  assumes "remembers W s sc r" "foldM forget ds s = Inr s'" "\<And>x. x \<in> W \<Longrightarrow> x \<notin> set ds \<Longrightarrow> r1 x = r x"
    and "fst sc \<subseteq> fst sc'" "snd sc' = snd sc"
  shows "remembers W s' sc' r1"
  using assms
proof (induction ds arbitrary: s r sc)
  case Nil
  then show ?case using remembers_mono [OF Nil(1), of r1 sc'] by simp
next
  case (Cons d ds)
  then obtain s1 where s1: "forget d s = Inr s1" "foldM forget ds s1 = Inr s'" by (auto simp: bindE_Inr_iff)
  have "remembers W s1 sc (r(d := r1 d))"
    by (rule remembers_forget [OF Cons.prems(1) s1(1)]) auto
  then show ?case using Cons.IH [OF _ s1(2), of sc] Cons.prems(3-5) by auto
qed

lemma remembers_add:
  assumes "remembers W s sc r" "process_add d a k s = Inr s'" "\<And>x. x \<in> W \<Longrightarrow> x \<noteq> d \<Longrightarrow> r1 x = r x"
    and "fst sc \<subseteq> fst sc'" "snd sc = {}" "snd sc' = {}" "{d, a} \<subseteq> W \<inter> fst sc'"
    and "unat (r1 d) = unat (r a) + unat k"
  shows "remembers W s' sc' r1"
proof -
  obtain c where c: "record_new_def d (s\<lparr>contents := (contents s)(d := Some c)\<rparr>) = Inr s'"
    and cases: "(\<exists>c1. contents s a = Some (ContentsConstant c1) \<and> checked_add c1 k = Some (c1 + k) \<and> c = ContentsConstant (c1 + k))
      \<or> (\<exists>b off. contents s a = Some (BaseOffset b off) \<and> get_def_version s (def_reg b) = def_ver b
           \<and> checked_add off k = Some (off + k) \<and> c = BaseOffset b (off + k))
      \<or> c = BaseOffset \<lparr>def_reg = a, def_ver = get_def_version s a\<rparr> k"
    using assms(2)
    by (auto simp: process_add_def Let_def insert_contents_def checked_add_def
        split: option.splits reg_contents.splits if_splits)
  have sum: "unat (x + k) = unat x + unat k" if "checked_add x k = Some (x + k)" for x
    using that by (auto simp: checked_add_def unat_word_ariths(1) split: if_splits)
  have true: "entry_known s (W \<inter> fst sc) e \<and> entry_true s {} r a e" if "contents s a = Some e" for e
    using assms(1,5) that unfolding remembers_def by auto
  show ?thesis
  proof (rule remembers_new_def [OF assms(1) c assms(3,4)])
    fix c' assume "Some c = Some c'"
    then have c': "c' = c" by simp
    from cases consider (const) c1 where "contents s a = Some (ContentsConstant c1)" "checked_add c1 k = Some (c1 + k)"
        "c = ContentsConstant (c1 + k)"
      | (base) b off where "contents s a = Some (BaseOffset b off)" "get_def_version s (def_reg b) = def_ver b"
          "checked_add off k = Some (off + k)" "c = BaseOffset b (off + k)"
      | (new) "c = BaseOffset \<lparr>def_reg = a, def_ver = get_def_version s a\<rparr> k"
      by blast
    then have "entry_known s (W \<inter> fst sc') c \<and> (case c of
        ContentsConstant k' \<Rightarrow> r1 d = k'
      | BaseOffset b off \<Rightarrow> get_def_version s (def_reg b) = def_ver b \<longrightarrow> unat (r1 d) = unat (r (def_reg b)) + unat off)"
    proof cases
      case const
      have "r a = c1" using true [OF const(1)] by (simp add: entry_true_def)
      then have "unat (r1 d) = unat (c1 + k)" using assms(8) sum [OF const(2)] by simp
      then show ?thesis using const(3) by (simp add: word_unat_eq_iff)
    next
      case base
      then show ?thesis using true [OF base(1)] assms(4,8) sum [OF base(3)] by (auto simp: entry_true_def)
    next
      case new
      then show ?thesis using assms(7,8) by simp
    qed
    then show "d \<in> W \<and> d \<in> fst sc' \<and> entry_known s (W \<inter> fst sc') c' \<and> (d \<notin> snd sc \<longrightarrow> (case c' of
              ContentsConstant k \<Rightarrow> r1 d = k
            | BaseOffset b off \<Rightarrow> def_reg b \<noteq> d \<longrightarrow> def_reg b \<notin> snd sc \<longrightarrow> get_def_version s (def_reg b) = def_ver b
                \<longrightarrow> unat (r1 d) = unat (r (def_reg b)) + unat off))"
      unfolding c' using assms(7) by (auto split: reg_contents.splits)
  qed (simp_all add: assms(5,6))
qed

text \<open>A move is not recorded as a definition: what was known of its target is out of date.\<close>

lemma remembers_move:
  assumes "remembers W s (seen, moved) r" "index_alu (MOVE d a) s = Inr (s', True)"
    and "\<And>x. x \<in> W \<Longrightarrow> x \<noteq> d \<Longrightarrow> r1 x = r x" "r1 d = r a" "{d, a} \<subseteq> W" "d \<notin> moved" "a \<notin> moved"
  shows "remembers W s' ({d, a} \<union> seen, if d \<in> seen then insert d moved else moved) r1"
proof -
  let ?seen = "{d, a} \<union> seen" and ?moved = "if d \<in> seen then insert d moved else moved"
  have old: "x \<in> W \<and> entry_known s (W \<inter> ?seen) c \<and> x \<in> ?seen \<and> (x \<notin> ?moved \<longrightarrow> entry_true s ?moved r1 x c)"
    if e: "contents s x = Some c" and keep: "x \<noteq> d \<or> d \<in> seen" for x c
  proof -
    note m = assms(1) [unfolded remembers_def, rule_format, OF e, simplified]
    have "entry_known s (W \<inter> ?seen) c" using m by (cases c) auto
    moreover have "entry_true s ?moved r1 x c" if "x \<notin> ?moved"
    proof (cases c)
      case (ContentsConstant k)
      then show ?thesis using m that assms(3) [of x] keep by (auto simp: entry_true_def split: if_splits)
    next
      case (BaseOffset b off)
      have "def_reg b \<in> seen" using m BaseOffset by simp
      then show ?thesis using m that assms(3) [of x] assms(3) [of "def_reg b"] keep BaseOffset
        by (cases "def_reg b = d") (auto simp: entry_true_def split: if_splits)
    qed
    ultimately show ?thesis using m by auto
  qed
  let ?new = "BaseOffset \<lparr>def_reg = a, def_ver = get_def_version s a\<rparr> 0"
  have s': "s' = s \<and> (\<exists>b off. contents s a = Some (BaseOffset b off)) \<or> s' = insert_contents d ?new s"
    using assms(2) by (auto simp: index_alu_def Let_def split: option.splits reg_contents.splits if_splits)
  have ver: "get_def_version s' x = get_def_version s x" for x
    using s' by (auto simp: get_def_version_def insert_contents_def)
  have alike: "entry_known s' V c = entry_known s V c" "entry_true s' M q x c = entry_true s M q x c" for V c M q x
    using ver by (cases c; simp add: entry_true_def)+
  show ?thesis
    unfolding remembers_def fst_conv snd_conv alike
  proof (intro allI impI)
    fix x c assume x: "contents s' x = Some c"
    show "x \<in> W \<and> entry_known s (W \<inter> ?seen) c \<and> x \<in> ?seen \<and> (x \<notin> ?moved \<longrightarrow> entry_true s ?moved r1 x c)"
    proof (cases "x = d \<and> c = ?new")
      case True
      have "r1 a = r a" using assms(3) [of a] assms(4,5) by (cases "a = d") auto
      then show ?thesis using True assms(4,5) by (auto simp: entry_true_def)
    next
      case False
      then have e: "contents s x = Some c" using x s' by (auto simp: insert_contents_def split: if_splits)
      then have "x \<in> seen" using assms(1) by (auto simp: remembers_def)
      then show ?thesis using old [OF e] by blast
    qed
  qed
qed

section \<open>One instruction\<close>

fun is_access :: "virtual_op \<Rightarrow> bool" where
  "is_access (Memory (LW _ _ _)) = True"
| "is_access (Memory (SW _ _ _)) = True"
| "is_access _ = False"

lemma index_alu_default:
  "\<not> tracked_op (Alu a) \<Longrightarrow> index_alu a s = bindE (foldM forget (vop_def_registers (Alu a)) s) (\<lambda>s. Inr (s, True))"
  by (cases a) (simp_all add: index_alu_def)

lemma index_op_default:
  assumes "opcode o' = Inl v" "\<not> tracked_op v" "\<not> is_access v"
  shows "index_op ds o' s = bindE (foldM forget (vop_def_registers v) s) (\<lambda>s. Inr (s, Some o'))"
proof (cases v)
  case (Alu a)
  then show ?thesis using assms index_alu_default [of a s]
    by (cases "foldM forget (vop_def_registers v) s") (simp_all add: index_op_def)
next
  case (Memory a)
  then show ?thesis using assms by (cases a) (simp_all add: index_op_def)
next
  case (NonVm a)
  then show ?thesis using assms by (cases a) (simp_all add: index_op_def)
qed (use assms in \<open>simp_all add: index_op_def\<close>)

lemma scan_op_default:
  assumes "opcode o' = Inl v" "\<not> is_move o'"
  shows "scan_op o' (seen, moved) = (set (vop_registers v) \<union> seen, moved)"
proof (cases v)
  case (Alu a)
  then show ?thesis using assms by (cases a) (simp_all add: scan_op_def is_move_def)
qed (use assms in \<open>simp_all add: scan_op_def\<close>)

lemma exec_Inl:
  "opcode o' = Inl v \<Longrightarrow> exec_op vm o' r m = Fall r1 m1 \<longleftrightarrow> vm (Inl v) r m = Next r1 m1"
  by (auto simp: exec_op_def exec_plain_def split: outcome.splits)

lemma tracked_frame:
  assumes "arithmetic_strict vm ds hidden" "tracked_stable hidden ops" "o' \<in> set ops" "opcode o' = Inl v"
    and "vm (Inl v) r m = Next r1 m1" "x \<in> tracked ops" "x \<notin> set (vop_def_registers v)"
  shows "r1 x = r x"
proof -
  have "agree (- set (vop_def_registers v) - hidden v - volatile - flags) r r1"
    by (rule arithmetic_strictD(9) [OF assms(1,5)])
  moreover have "hidden v \<inter> tracked ops = {}" "tracked ops \<inter> (volatile \<union> flags) = {}"
    using assms(2-4) unfolding tracked_stable_def by fastforce+
  ultimately have "r x = r1 x" using assms(6,7) unfolding agree_def by blast
  then show ?thesis by simp
qed

lemma tracked_registers:
  "o' \<in> set ops \<Longrightarrow> opcode o' = Inl v \<Longrightarrow> tracked_op v \<Longrightarrow> set (vop_registers v) \<subseteq> tracked ops"
  by (auto simp: tracked_def intro!: bexI [of _ o'])

lemma op_registers_simps:
  "set (vop_registers (Alu (ADD d a b))) = {d, a, b}" "set (vop_def_registers (Alu (ADD d a b))) = {d}"
  "set (vop_registers (Alu (ADDI d a i))) = {d, a}" "set (vop_def_registers (Alu (ADDI d a i))) = {d}"
  "set (vop_registers (Alu (MUL d a b))) = {d, a, b}" "set (vop_def_registers (Alu (MUL d a b))) = {d}"
  "set (vop_registers (Alu (MOVI d j))) = {d}" "set (vop_def_registers (Alu (MOVI d j))) = {d}"
  "set (vop_registers (Alu (MOVE d a))) = {d, a}" "set (vop_def_registers (Alu (MOVE d a))) = {d}"
  "set (vop_registers (NonVm (LoadDataId d did))) = {d}" "set (vop_def_registers (NonVm (LoadDataId d did))) = {d}"
  "set (vop_registers (Memory (LW d a i))) = {d, a}" "set (vop_def_registers (Memory (LW d a i))) = {d}"
  "set (vop_registers (Memory (SW d a i))) = {d, a}" "set (vop_def_registers (Memory (SW d a i))) = {}"
  by (auto simp: vop_registers_def vop_def_registers_def)

text \<open>The new access goes to the address of the old one.\<close>

lemma direct_access_address:
  assumes "remembers W s sc r" "snd sc = {}" "direct_access s a i = Some (base, raw)"
  shows "\<exists>j. imm12_new_unchecked raw msg = Inr j
    \<and> unat (r base) + 8 * unat (value12 j) = unat (r a) + 8 * unat (value12 i)"
proof -
  obtain b off where b: "contents s a = Some (BaseOffset b off)" "off mod 8 = 0"
      "get_def_version s (def_reg b) = def_ver b" "raw < TWELVE_BITS" "base = def_reg b"
      "raw = off div 8 + ucast (value12 i)"
    using assms(3) by (auto simp: direct_access_def split: option.splits reg_contents.splits if_splits)
  have addr: "unat (r a) = unat (r base) + unat off"
    using assms(1,2) b(1,3,5) by (force simp: remembers_def entry_true_def)
  have "unat (value12 i) < 2 ^ LENGTH(16)" by (rule unsigned_less)
  then have i: "unat (ucast (value12 i) :: u64) = unat (value12 i)" "unat (value12 i) < 65536"
    by (simp_all add: unsigned_ucast_eq take_bit_nat_eq_self)
  have "unat (off div 8) = unat off div 8" by (simp add: unat_div)
  moreover have "unat off < 2 ^ 64" using unsigned_less [of off] by simp
  ultimately have raw: "unat raw = unat off div 8 + unat (value12 i)"
    using i b(6) by (subst b(6), subst unat_word_ariths(1)) simp
  have "unat raw < 4095" using b(4) by (simp add: TWELVE_BITS_def word_less_nat_alt)
  then have j: "imm12_new_unchecked raw msg = Inr \<lparr>value12 = ucast raw\<rparr>" "unat (ucast raw :: u16) = unat raw"
    by (simp_all add: imm12_new_unchecked_def try_into_def unwrap_or_panic_def unsigned_ucast_eq take_bit_nat_eq_self)
  have "unat (off mod 8) = unat off mod 8" by (simp add: unat_mod)
  then have "unat off mod 8 = 0" using b(2) by simp
  then have "8 * (unat off div 8) = unat off" by auto
  then show ?thesis using j raw addr by simp
qed

lemma retained_alu:
  assumes "opcode o' = Inl (Alu a)" "index_op ds o' s = Inr (s', Some o'')"
  shows "index_alu a s = Inr (s', True)" "o'' = o'"
  using assms by (auto simp: index_op_def bindE_Inr_iff split: if_splits)

lemma index_op_retained:
  assumes o: "opcode o' = Inl v" "index_op ds o' s = Inr (s', Some o'')" and "\<not> is_access v"
  shows "o'' = o'"
proof (cases "tracked_op v")
  case True
  then consider a where "v = Alu a" | d did where "v = NonVm (LoadDataId d did)"
    by (cases v rule: tracked_op.cases) auto
  then show ?thesis
    by cases (use o retained_alu(2) in \<open>auto simp: index_op_def bindE_Inr_iff\<close>)
next
  case False
  then show ?thesis using o(2) unfolding index_op_default [OF o(1) False assms(3)]
    by (auto simp: bindE_Inr_iff)
qed

lemma index_op_same:
  assumes vm: "arithmetic_strict vm ds hidden" and o: "opcode o' = Inl v" "index_op ds o' s = Inr (s', Some o'')"
    and ok: "scan_ok o' sc" and rem: "remembers W s sc r"
  shows "exec_op vm o'' r m = exec_op vm o' r m"
proof (cases "is_access v")
  case True
  then consider (lw) d a i where "v = Memory (LW d a i)" | (sw) d a i where "v = Memory (SW a d i)"
    by (cases v rule: is_access.cases) auto
  then show ?thesis
  proof cases
    case lw
    then have sc: "snd sc = {}" using ok o(1) by (simp add: scan_ok_def split: prod.splits)
    show ?thesis
    proof (cases "direct_access s a i")
      case None
      then show ?thesis using o lw by (auto simp: index_op_def bindE_Inr_iff)
    next
      case (Some p)
      then obtain base raw where p: "direct_access s a i = Some (base, raw)" by (cases p) simp
      obtain j where j: "imm12_new_unchecked raw ''Immediate offset too big for LW'' = Inr j"
          "unat (r base) + 8 * unat (value12 j) = unat (r a) + 8 * unat (value12 i)"
        using direct_access_address [OF rem sc p] by blast
      then have "opcode o'' = Inl (Memory (LW d base j))" using o lw p by (auto simp: index_op_def bindE_Inr_iff)
      then show ?thesis using arithmetic_strictD(7) [OF vm j(2)] lw o(1) by (simp add: exec_op_def exec_plain_def)
    qed
  next
    case sw
    then have sc: "snd sc = {}" using ok o(1) by (simp add: scan_ok_def split: prod.splits)
    show ?thesis
    proof (cases "direct_access s a i")
      case None
      then show ?thesis using o sw by (auto simp: index_op_def bindE_Inr_iff)
    next
      case (Some p)
      then obtain base raw where p: "direct_access s a i = Some (base, raw)" by (cases p) simp
      obtain j where j: "imm12_new_unchecked raw ''Immediate offset too big for SW'' = Inr j"
          "unat (r base) + 8 * unat (value12 j) = unat (r a) + 8 * unat (value12 i)"
        using direct_access_address [OF rem sc p] by blast
      then have "opcode o'' = Inl (Memory (SW base d j))" using o sw p by (auto simp: index_op_def bindE_Inr_iff)
      then show ?thesis using arithmetic_strictD(8) [OF vm j(2)] sw o(1) by (simp add: exec_op_def exec_plain_def)
    qed
  qed
next
  case False
  then show ?thesis using index_op_retained [OF o] by simp
qed

text \<open>A step of the machine and of the pass over the same instruction.\<close>

definition index_step ::
  "('m, 'r) machine \<Rightarrow> data_section \<Rightarrow> op list \<Rightarrow> op \<Rightarrow> virtual_op \<Rightarrow> index_state \<Rightarrow> index_state \<Rightarrow> scan \<Rightarrow> regs \<Rightarrow> regs \<Rightarrow> bool" where
  "index_step vm ds ops o' v s s' sc r r1 \<longleftrightarrow>
     (\<exists>hidden. arithmetic_strict vm ds hidden \<and> tracked_stable hidden ops) \<and> o' \<in> set ops \<and> opcode o' = Inl v
   \<and> (\<exists>o''. index_op ds o' s = Inr (s', Some o'')) \<and> scan_ok o' sc \<and> remembers (tracked ops) s sc r
   \<and> (\<exists>m m1. vm (Inl v) r m = Next r1 m1)"

lemma index_step_frame:
  assumes "index_step vm ds ops o' v s s' sc r r1" "x \<in> tracked ops" "x \<notin> set (vop_def_registers v)"
  shows "r1 x = r x"
  using assms tracked_frame unfolding index_step_def by metis

lemma index_step_scan:
  assumes "index_step vm ds ops o' v s s' sc r r1" "\<not> is_move o'"
  shows "scan_op o' sc = (set (vop_registers v) \<union> fst sc, snd sc)"
  using assms scan_op_default [of o' v "fst sc" "snd sc"] by (simp add: index_step_def)

lemma index_step_forgets:
  assumes step: "index_step vm ds ops o' v s s' sc r r1"
    and "foldM forget (vop_def_registers v) s = Inr s'" "\<not> is_move o'"
  shows "remembers (tracked ops) s' (scan_op o' sc) r1"
proof -
  have "remembers (tracked ops) s sc r" using step by (simp add: index_step_def)
  then show ?thesis
    using remembers_forget_all [OF _ assms(2) index_step_frame [OF step]] index_step_scan [OF step assms(3)] by simp
qed

lemma index_step_forget:
  assumes step: "index_step vm ds ops o' v s s' sc r r1"
    and "forget d s = Inr s'" "\<not> is_move o'" "set (vop_def_registers v) = {d}"
  shows "remembers (tracked ops) s' (scan_op o' sc) r1"
proof -
  have rem: "remembers (tracked ops) s sc r" using step by (simp add: index_step_def)
  have "r1 x = r x" if "x \<in> tracked ops" "x \<noteq> d" for x
    using index_step_frame [OF step that(1)] that(2) assms(4) by simp
  then show ?thesis
    using remembers_forget [OF rem assms(2)] index_step_scan [OF step assms(3)] by simp
qed

lemma index_step_constant:
  assumes step: "index_step vm ds ops o' v s s' sc r r1"
    and "record_new_def d (insert_contents d (ContentsConstant k) s) = Inr s'" "\<not> is_move o'"
    and "set (vop_def_registers v) = {d}" "d \<in> set (vop_registers v)" "tracked_op v" "r1 d = k"
  shows "remembers (tracked ops) s' (scan_op o' sc) r1"
proof -
  have rem: "remembers (tracked ops) s sc r" "o' \<in> set ops" "opcode o' = Inl v" using step by (simp_all add: index_step_def)
  have "r1 x = r x" if "x \<in> tracked ops" "x \<noteq> d" for x
    using index_step_frame [OF step that(1)] that(2) assms(4) by simp
  then show ?thesis
    using remembers_new_def [OF rem(1) assms(2) [unfolded insert_contents_def], of r1 "scan_op o' sc"]
      tracked_registers [OF rem(2,3) assms(6)] assms(5,7) index_step_scan [OF step assms(3)] by auto
qed

lemma index_step_sum:
  assumes step: "index_step vm ds ops o' v s s' sc r r1"
    and "process_add d a k s = Inr s'" "\<not> is_move o'" "set (vop_def_registers v) = {d}" "{d, a} \<subseteq> set (vop_registers v)"
    and "tracked_op v" "snd sc = {}" "unat (r1 d) = unat (r a) + unat k"
  shows "remembers (tracked ops) s' (scan_op o' sc) r1"
proof -
  have rem: "remembers (tracked ops) s sc r" "o' \<in> set ops" "opcode o' = Inl v" using step by (simp_all add: index_step_def)
  have "r1 x = r x" if "x \<in> tracked ops" "x \<noteq> d" for x
    using index_step_frame [OF step that(1)] that(2) assms(4) by simp
  then show ?thesis
    using remembers_add [OF rem(1) assms(2), of r1 "scan_op o' sc"] tracked_registers [OF rem(2,3) assms(6)] assms(5,7,8)
      index_step_scan [OF step assms(3)] by auto
qed

lemma index_step_alu:
  assumes "index_step vm ds ops o' (Alu a) s s' sc r r1"
  shows "index_alu a s = Inr (s', True)"
  using assms retained_alu(1) unfolding index_step_def by blast

lemma index_step_known:
  assumes "index_step vm ds ops o' v s s' sc r r1" "contents s x = Some (ContentsConstant k)" "x \<notin> snd sc"
  shows "r x = k"
  using assms by (force simp: index_step_def remembers_def entry_true_def)

lemma index_step_add:
  assumes step: "index_step vm ds ops o' v s s' sc r r1" and v: "v = Alu (ADD d a b) \<or> v = Alu (ADDI d a i)"
  shows "remembers (tracked ops) s' (scan_op o' sc) r1"
proof -
  have nm: "\<not> is_move o'" "snd sc = {}"
    using step v by (auto simp: index_step_def is_move_def scan_ok_def split: prod.splits)
  have defs: "set (vop_def_registers v) = {d}" "{d, a} \<subseteq> set (vop_registers v)" "tracked_op v"
    using v by (auto simp: op_registers_simps)
  obtain hidden m m1 where vm: "arithmetic_strict vm ds hidden" "vm (Inl v) r m = Next r1 m1"
    using step by (auto simp: index_step_def)
  consider c where "v = Alu (ADD d a b)" "contents s b = Some (ContentsConstant c)"
    | "v = Alu (ADD d a b)" "\<And>c. contents s b \<noteq> Some (ContentsConstant c)" | "v = Alu (ADDI d a i)"
    using v by blast
  then show ?thesis
  proof cases
    case (1 c)
    have "process_add d a c s = Inr s'"
      using index_step_alu [OF step [unfolded 1(1)]] 1(2) by (auto simp: index_alu_def bindE_Inr_iff)
    moreover have "unat (r1 d) = unat (r a) + unat c"
      using arithmetic_strictD(1) [OF vm(1) vm(2) [unfolded 1(1)]] index_step_known [OF step 1(2)] nm(2) by simp
    ultimately show ?thesis using index_step_sum [OF step] nm defs by blast
  next
    case 2
    then have "forget d s = Inr s'"
      using index_step_alu [OF step [unfolded 2(1)]]
      by (auto simp: index_alu_def bindE_Inr_iff split: option.splits reg_contents.splits)
    then show ?thesis using index_step_forget [OF step] nm(1) defs(1) by blast
  next
    case 3
    have "process_add d a (ucast (value12 i)) s = Inr s'"
      using index_step_alu [OF step [unfolded 3]] by (auto simp: index_alu_def bindE_Inr_iff)
    moreover have "unat (value12 i) < 2 ^ LENGTH(16)" by (rule unsigned_less)
    then have "unat (r1 d) = unat (r a) + unat (ucast (value12 i) :: u64)"
      using arithmetic_strictD(2) [OF vm(1) vm(2) [unfolded 3]] by (simp add: unsigned_ucast_eq take_bit_nat_eq_self)
    ultimately show ?thesis using index_step_sum [OF step] nm defs by blast
  qed
qed

lemma index_step_mul:
  assumes step: "index_step vm ds ops o' (Alu (MUL d a b)) s s' sc r r1"
  shows "remembers (tracked ops) s' (scan_op o' sc) r1"
proof -
  have nm: "\<not> is_move o'" "snd sc = {}"
    using step by (auto simp: index_step_def is_move_def scan_ok_def split: prod.splits)
  obtain hidden m m1 where vm: "arithmetic_strict vm ds hidden" "vm (Inl (Alu (MUL d a b))) r m = Next r1 m1"
    using step by (auto simp: index_step_def)
  show ?thesis
  proof (cases "\<exists>c1 c2. contents s a = Some (ContentsConstant c1) \<and> contents s b = Some (ContentsConstant c2)")
    case True
    then obtain c1 c2 where c: "contents s a = Some (ContentsConstant c1)" "contents s b = Some (ContentsConstant c2)" by blast
    have new: "unat c1 * unat c2 < 2 ^ 64" "record_new_def d (insert_contents d (ContentsConstant (c1 * c2)) s) = Inr s'"
      using index_step_alu [OF step] c by (auto simp: index_alu_def bindE_Inr_iff mul_u64_def split: if_splits)
    have "unat (r1 d) = unat c1 * unat c2"
      using arithmetic_strictD(3) [OF vm] index_step_known [OF step c(1)] index_step_known [OF step c(2)] nm(2) by simp
    then have "r1 d = c1 * c2" using new(1) unat_mul_u64 [of c1 c2] by (simp add: word_unat_eq_iff)
    then show ?thesis using index_step_constant [OF step new(2) nm(1)] by (simp add: op_registers_simps)
  next
    case False
    then have "forget d s = Inr s'"
      using index_step_alu [OF step] by (auto simp: index_alu_def bindE_Inr_iff split: option.splits reg_contents.splits)
    then show ?thesis using index_step_forget [OF step] nm(1) by (simp add: op_registers_simps)
  qed
qed

lemma index_step_movi:
  assumes step: "index_step vm ds ops o' (Alu (MOVI d i)) s s' sc r r1"
  shows "remembers (tracked ops) s' (scan_op o' sc) r1"
proof -
  obtain hidden m m1 where vm: "arithmetic_strict vm ds hidden" "vm (Inl (Alu (MOVI d i))) r m = Next r1 m1" "\<not> is_move o'"
    using step by (auto simp: index_step_def is_move_def)
  have "record_new_def d (insert_contents d (ContentsConstant (ucast (value18 i))) s) = Inr s'"
    using index_step_alu [OF step] by (auto simp: index_alu_def bindE_Inr_iff)
  then show ?thesis using index_step_constant [OF step _ vm(3)] arithmetic_strictD(4) [OF vm(1,2)]
    by (simp add: op_registers_simps)
qed

lemma index_step_move:
  assumes step: "index_step vm ds ops o' (Alu (MOVE d a)) s s' sc r r1"
  shows "remembers (tracked ops) s' (scan_op o' sc) r1"
proof -
  obtain seen moved where sc: "sc = (seen, moved)" by (cases sc)
  obtain hidden m m1 where vm: "arithmetic_strict vm ds hidden" "vm (Inl (Alu (MOVE d a))) r m = Next r1 m1"
    using step by (auto simp: index_step_def)
  have o: "o' \<in> set ops" "opcode o' = Inl (Alu (MOVE d a))" "remembers (tracked ops) s (seen, moved) r"
      "d \<notin> moved" "a \<notin> moved"
    using step sc by (auto simp: index_step_def scan_ok_def)
  have "r1 x = r x" if "x \<in> tracked ops" "x \<noteq> d" for x
    using index_step_frame [OF step that(1)] that(2) by (simp add: op_registers_simps)
  then show ?thesis
    using remembers_move [OF o(3) index_step_alu [OF step], of r1] tracked_registers [OF o(1,2)] o(2,4,5) sc
      arithmetic_strictD(5) [OF vm] by (simp add: op_registers_simps scan_op_def)
qed

lemma index_step_load:
  assumes step: "index_step vm ds ops o' (NonVm (LoadDataId d did)) s s' sc r r1"
  shows "remembers (tracked ops) s' (scan_op o' sc) r1"
proof -
  obtain hidden m m1 o'' where vm: "arithmetic_strict vm ds hidden" "vm (Inl (NonVm (LoadDataId d did))) r m = Next r1 m1"
      "\<not> is_move o'" "index_op ds o' s = Inr (s', Some o'')" "opcode o' = Inl (NonVm (LoadDataId d did))"
    using step by (auto simp: index_step_def is_move_def)
  show ?thesis
  proof (cases "get_data_word ds did")
    case None
    then have "forget d s = Inr s'" using vm(4,5) by (auto simp: index_op_def bindE_Inr_iff forget_def)
    then show ?thesis using index_step_forget [OF step] vm(3) by (simp add: op_registers_simps)
  next
    case (Some c)
    then have "record_new_def d (insert_contents d (ContentsConstant c) s) = Inr s'"
      using vm(4,5) by (auto simp: index_op_def bindE_Inr_iff)
    then show ?thesis using index_step_constant [OF step _ vm(3)] arithmetic_strictD(6) [OF vm(1,2) Some]
      by (simp add: op_registers_simps)
  qed
qed

lemma index_step_access:
  assumes step: "index_step vm ds ops o' v s s' sc r r1" and v: "v = Memory (LW d a i) \<or> v = Memory (SW a d i)"
  shows "remembers (tracked ops) s' (scan_op o' sc) r1"
proof -
  obtain o'' where o: "\<not> is_move o'" "index_op ds o' s = Inr (s', Some o'')" "opcode o' = Inl v"
    using step v by (auto simp: index_step_def is_move_def)
  from v show ?thesis
  proof
    assume lw: "v = Memory (LW d a i)"
    then have "forget d s = Inr s'" using o by (auto simp: index_op_def bindE_Inr_iff split: option.splits)
    then show ?thesis using index_step_forget [OF step _ o(1)] lw by (simp add: op_registers_simps)
  next
    assume "v = Memory (SW a d i)"
    then have "foldM forget (vop_def_registers v) s = Inr s'"
      using o by (auto simp: index_op_def bindE_Inr_iff vop_def_registers_def split: option.splits)
    then show ?thesis using index_step_forgets [OF step _ o(1)] by blast
  qed
qed

lemma index_step_remembers:
  assumes step: "index_step vm ds ops o' v s s' sc r r1"
  shows "remembers (tracked ops) s' (scan_op o' sc) r1"
proof -
  consider (plain) "\<not> tracked_op v" "\<not> is_access v"
    | (add) d a b i where "v = Alu (ADD d a b) \<or> v = Alu (ADDI d a i)"
    | (mul) d a b where "v = Alu (MUL d a b)" | (movi) d i where "v = Alu (MOVI d i)"
    | (move) d a where "v = Alu (MOVE d a)" | (load) d did where "v = NonVm (LoadDataId d did)"
    | (access) d a i where "v = Memory (LW d a i) \<or> v = Memory (SW a d i)"
    by (cases v rule: tracked_op.cases; cases v rule: is_access.cases) auto
  then show ?thesis
  proof cases
    case plain
    have o: "opcode o' = Inl v" using step by (simp add: index_step_def)
    have "\<not> is_move o'" using plain(1) o
      by (cases v rule: tracked_op.cases) (auto simp: is_move_def split: alu_op.splits)
    moreover have "foldM forget (vop_def_registers v) s = Inr s'"
      using step index_op_default [OF o plain, of ds s] by (auto simp: index_step_def bindE_Inr_iff)
    ultimately show ?thesis using index_step_forgets [OF step] by blast
  next
    case (add d a b i)
    with step show ?thesis by (rule index_step_add)
  next
    case (mul d a b)
    with step show ?thesis by (simp add: index_step_mul)
  next
    case (movi d i)
    with step show ?thesis by (simp add: index_step_movi)
  next
    case (move d a)
    with step show ?thesis by (simp add: index_step_move)
  next
    case (load d did)
    with step show ?thesis by (simp add: index_step_load)
  next
    case (access d a i)
    with step show ?thesis by (rule index_step_access)
  qed
qed

section \<open>The pass\<close>

lemma index_loop_trace:
  assumes "index_loop ds ops s = Inr ops1"
  shows "length ops1 \<le> length ops \<and> (length ops1 = length ops \<longrightarrow>
    (\<exists>st. st 0 = s \<and> (\<forall>i < length ops. index_op ds (ops ! i) (st i) = Inr (st (Suc i), Some (ops1 ! i)))))"
  using assms
proof (induction ops arbitrary: s ops1)
  case (Cons o' ops)
  then obtain s1 kept rest where rest: "index_op ds o' s = Inr (s1, kept)" "index_loop ds ops s1 = Inr rest"
      "ops1 = (case kept of Some o'' \<Rightarrow> o'' # rest | None \<Rightarrow> rest)"
    by (auto simp: bindE_Inr_iff)
  note ih = Cons.IH [OF rest(2)]
  show ?case
  proof (cases kept)
    case None
    then show ?thesis using ih rest(3) by auto
  next
    case (Some o'')
    show ?thesis
    proof (intro conjI impI)
      assume "length ops1 = length (o' # ops)"
      then obtain st where st: "st 0 = s1" "\<forall>i < length ops. index_op ds (ops ! i) (st i) = Inr (st (Suc i), Some (rest ! i))"
        using ih rest(3) Some by auto
      show "\<exists>st. st 0 = s \<and> (\<forall>i < length (o' # ops). index_op ds ((o' # ops) ! i) (st i) = Inr (st (Suc i), Some (ops1 ! i)))"
        using st rest Some
        by (intro exI [of _ "case_nat s st"]) (auto simp: nth_Cons split: nat.splits)
    qed (use ih rest(3) Some in simp)
  qed
qed (auto intro: exI [of _ "\<lambda>_. s"])

lemma index_op_control:
  assumes "opcode o' = Inr c" "index_op ds o' s = Inr (s', Some o'')"
  shows "o'' = o'" "(\<forall>x l. c \<noteq> SaveRetAddr x l) \<longrightarrow> contents s' = Map.empty" "c = SaveRetAddr x l \<Longrightarrow> s' = s"
proof -
  have "o'' = o' \<and> (case c of SaveRetAddr _ _ \<Rightarrow> s' = s | _ \<Rightarrow> contents s' = Map.empty)"
    using assms by (cases c) (auto simp: index_op_def)
  then show "o'' = o'" "(\<forall>x l. c \<noteq> SaveRetAddr x l) \<longrightarrow> contents s' = Map.empty" "c = SaveRetAddr x l \<Longrightarrow> s' = s"
    by (auto split: control_flow_op.splits)
qed

lemma index_op_plain:
  assumes "opcode o' = Inl v" "index_op ds o' s = Inr (s', Some o'')"
  shows "\<exists>v'. opcode o'' = Inl v'"
proof (cases "is_access v")
  case True
  then consider d a i where "v = Memory (LW d a i)" | d a i where "v = Memory (SW a d i)"
    by (cases v rule: is_access.cases) auto
  then show ?thesis
    by cases (use assms in \<open>auto simp: index_op_def bindE_Inr_iff split: option.splits\<close>)
next
  case False
  then show ?thesis using index_op_retained [OF assms] assms(1) by blast
qed

lemma label_to_index_cong:
  assumes "length ops1 = length ops" "\<And>i. i < length ops \<Longrightarrow> label_of (ops1 ! i) = label_of (ops ! i)"
  shows "label_to_index ops1 = label_to_index ops"
proof
  fix l
  have "label_to_index ops1 l = Some i \<longleftrightarrow> label_to_index ops l = Some i" for i
    using assms unfolding label_to_index_Some by auto
  then show "label_to_index ops1 l = label_to_index ops l" by (metis not_None_eq)
qed

lemma scan_at_Suc: "i < length ops \<Longrightarrow> scan_at ops (Suc i) = scan_op (ops ! i) (scan_at ops i)"
  by (simp add: scan_at_def take_Suc_conv_app_nth)

lemma indexed_step:
  assumes vm: "arithmetic_strict vm ds hidden" and stable: "tracked_stable hidden ops" and late: "moves_late ops"
    and i: "i < length ops" and step: "index_op ds (ops ! i) s = Inr (s', Some o'')"
    and inv: "label_of (ops ! i) = None \<Longrightarrow> remembers (tracked ops) s (scan_at ops i) r"
  shows "exec_op vm o'' r m = exec_op vm (ops ! i) r m"
    "exec_op vm (ops ! i) r m = Fall r1 m1 \<Longrightarrow> remembers (tracked ops) s' (scan_at ops (Suc i)) r1"
proof -
  let ?o = "ops ! i"
  have ok: "scan_ok ?o (scan_at ops i)" using late i by (simp add: moves_late_def)
  have mem: "?o \<in> set ops" using i by simp
  have "exec_op vm o'' r m = exec_op vm ?o r m \<and> (exec_op vm ?o r m = Fall r1 m1 \<longrightarrow> remembers (tracked ops) s' (scan_at ops (Suc i)) r1)"
  proof (cases "opcode ?o")
    case (Inl v)
    have rem: "remembers (tracked ops) s (scan_at ops i) r" using inv Inl by (simp add: label_of_def)
    have "index_step vm ds ops ?o v s s' (scan_at ops i) r r1" if "exec_op vm ?o r m = Fall r1 m1"
      unfolding index_step_def using vm stable mem Inl step ok rem that [unfolded exec_Inl [OF Inl]] by blast
    then show ?thesis using index_op_same [OF vm Inl step ok rem] index_step_remembers scan_at_Suc [OF i] by metis
  next
    case (Inr c)
    note ctl = index_op_control [OF Inr step]
    have "remembers (tracked ops) s' (scan_at ops (Suc i)) r1" if fall: "exec_op vm ?o r m = Fall r1 m1"
    proof (cases "\<exists>x l. c = SaveRetAddr x l")
      case True
      then obtain x l where c: "c = SaveRetAddr x l" by blast
      have "vm (Inr (SaveRetAddr x l)) r m = Next r1 m1"
        using fall Inr c by (simp add: exec_op_def exec_plain_def split: outcome.splits)
      then have "agree (- {x} - volatile - flags) r r1" by (rule arithmetic_strictD(10) [OF vm])
      moreover have "x \<notin> tracked ops" "tracked ops \<inter> (volatile \<union> flags) = {}"
        using stable mem Inr c unfolding tracked_stable_def by fastforce+
      ultimately have "r1 y = r y" if "y \<in> tracked ops" for y using that unfolding agree_def by (metis Compl_iff DiffI IntI Un_iff empty_iff singletonD)
      moreover have "remembers (tracked ops) s (scan_at ops i) r" using inv Inr c by (simp add: label_of_def)
      ultimately show ?thesis
        using remembers_mono [of "tracked ops" s "scan_at ops i" r r1] ctl(3) [OF c] scan_at_Suc [OF i] Inr c
        by (simp add: scan_op_def split_def)
    next
      case False
      then show ?thesis using ctl(2) by (simp add: remembers_def)
    qed
    then show ?thesis using ctl(1) by simp
  qed
  then show "exec_op vm o'' r m = exec_op vm ?o r m"
    "exec_op vm ?o r m = Fall r1 m1 \<Longrightarrow> remembers (tracked ops) s' (scan_at ops (Suc i)) r1"
    by blast+
qed

lemma const_indexing_keeps_results:
  assumes "arithmetic_strict vm ds hidden" "tracked_stable hidden ops" "moves_late ops"
    and "const_indexing_aggregates_function ds ops = Inr ops1" "length ops1 = length ops"
  shows "keeps_results vm ops ops1"
proof -
  obtain st where st: "contents (st 0) = Map.empty"
      "\<And>i. i < length ops \<Longrightarrow> index_op ds (ops ! i) (st i) = Inr (st (Suc i), Some (ops1 ! i))"
    using index_loop_trace [OF assms(4) [unfolded const_indexing_aggregates_function_def]] assms(5)
    by (metis index_state.select_convs(2))
  have "label_of (ops1 ! i) = label_of (ops ! i)" if "i < length ops" for i
    using index_op_control(1) [OF _ st(2) [OF that]] index_op_plain [OF _ st(2) [OF that]]
    by (cases "opcode (ops ! i)") (auto simp: label_of_def)
  then have labels: "label_to_index ops1 = label_to_index ops" by (intro label_to_index_cong assms(5))
  have "run vm ops1 n i r m = Some x"
    if "run vm ops n i r m = Some x" "i < length ops \<Longrightarrow> label_of (ops ! i) = None \<Longrightarrow> remembers (tracked ops) (st i) (scan_at ops i) r"
    for n i r m x
    using that
  proof (induction n arbitrary: i r m)
    case (Suc n)
    have i: "i < length ops" using Suc.prems(1) by (simp add: run_Suc split: if_splits)
    note step = indexed_step [OF assms(1-3) i st(2) [OF i] Suc.prems(2) [OF i]]
    show ?case
    proof (cases "exec_op vm (ops ! i) r m")
      case (Take l r1 m1)
      then obtain t where t: "label_to_index ops l = Some t" "run vm ops n t r1 m1 = Some x"
        using Suc.prems(1) i by (auto simp: run_Suc split: option.splits)
      then obtain y where "label_of (ops ! t) = Some y" by (auto simp: label_to_index_Some)
      then have "run vm ops1 n t r1 m1 = Some x" using Suc.IH [OF t(2)] by simp
      then show ?thesis using t step(1) Take i assms(5) labels by (simp add: run_Suc)
    qed (use Suc step i assms(5) in \<open>auto simp: run_Suc\<close>)
  qed simp
  moreover have "remembers (tracked ops) (st 0) (scan_at ops 0) r" for r using st(1) by (simp add: remembers_def)
  ultimately show ?thesis by (simp add: keeps_results_def)
qed

end
