(* ===== verification/Asm_Optimized.thy ===== *)
theory Asm_Optimized
  imports Asm_Index
begin

text \<open>
  The optimizer as a whole: the facts that one pass leaves for the next, the properties of
  \<^verbatim>\<open>optimize\<close> and of its passes, and the defects that the conditions of the properties exclude.
\<close>

section \<open>Control flow is kept\<close>

definition controls :: "op list \<Rightarrow> op list" where
  "controls ops = filter (\<lambda>o'. \<not> isl (opcode o')) ops"

text \<open>The first organizational instruction after a conditional jump is not a label.\<close>

definition guarded :: "op list \<Rightarrow> bool" where
  "guarded ops \<longleftrightarrow> falls_unlabelled (controls ops)"

lemma Inl_flow:
  "isl (opcode o') \<Longrightarrow> label_of o' = None \<and> jump_target o' = None"
  by (auto simp: isl_def label_of_def jump_target_def)

lemma jumps_ok_controls:
  "jumps_ok ops \<longleftrightarrow> (\<forall>o' \<in> set ops. \<not> offset_jump o') \<and>
     (\<forall>o' \<in> set (controls ops). \<forall>l. jump_target o' = Some l \<longrightarrow> (\<exists>p \<in> set (controls ops). label_of p = Some l))"
proof -
  have ctl: "o' \<in> set (controls ops) \<longleftrightarrow> o' \<in> set ops" if "label_of o' \<noteq> None \<or> jump_target o' \<noteq> None" for o'
    using that Inl_flow [of o'] by (auto simp: controls_def)
  have "(\<exists>p \<in> set ops. label_of p = Some l) \<longleftrightarrow> (\<exists>p \<in> set (controls ops). label_of p = Some l)" for l
    using ctl by (metis option.distinct(1))
  moreover have "(\<forall>o' \<in> set ops. \<forall>l. jump_target o' = Some l \<longrightarrow> P l) \<longleftrightarrow>
      (\<forall>o' \<in> set (controls ops). \<forall>l. jump_target o' = Some l \<longrightarrow> P l)" for P
    using ctl by (metis option.distinct(1))
  ultimately show ?thesis unfolding jumps_ok_elem ball_conj_distrib by simp
qed

lemma labels_unique_controls: "labels_unique ops \<longleftrightarrow> labels_unique (controls ops)"
proof -
  have "List.map_filter label_of (controls ops) = List.map_filter label_of ops"
    using Inl_flow by (induction ops) (auto simp: List.map_filter_def controls_def)
  then show ?thesis by (simp add: labels_unique_def)
qed

lemma guarded_falls_unlabelled:
  assumes "guarded ops"
  shows "falls_unlabelled ops"
  unfolding falls_unlabelled_def
proof (intro allI impI)
  fix i assume i: "Suc i < length ops" "falls_through (ops ! i)" "jump_target (ops ! i) \<noteq> None"
  show "label_of (ops ! Suc i) = None"
  proof (cases "isl (opcode (ops ! Suc i))")
    case False
    have "\<not> isl (opcode (ops ! i))" using i(3) Inl_flow [of "ops ! i"] by auto
    moreover have "drop (Suc i) ops = ops ! Suc i # drop (Suc (Suc i)) ops"
      by (rule Cons_nth_drop_Suc [symmetric]) (rule i(1))
    moreover have "controls ops = controls (take i ops @ ops ! i # drop (Suc i) ops)"
      by (rule arg_cong [OF id_take_nth_drop]) (use i(1) in simp)
    ultimately have split: "controls ops = controls (take i ops) @ ops ! i # ops ! Suc i # controls (drop (Suc (Suc i)) ops)"
      using False by (simp add: controls_def)
    let ?k = "length (controls (take i ops))"
    have "Suc ?k < length (controls ops)" "controls ops ! ?k = ops ! i" "controls ops ! Suc ?k = ops ! Suc i"
      by (simp_all add: split nth_append)
    then show ?thesis using assms i unfolding guarded_def falls_unlabelled_def by metis
  qed (simp add: Inl_flow)
qed

lemma rewrite_kept_facts:
  assumes "\<And>i. i < length ops \<Longrightarrow> \<not> keep i \<Longrightarrow> isl (opcode (ops ! i))"
  shows "controls (rewrite (kept_at ops keep) (length ops)) = controls ops"
proof -
  have "controls (rewrite (kept_at ops keep) n) = controls (take n ops)" if "n \<le> length ops" for n
    using that
  proof (induction n)
    case (Suc n)
    then show ?case using assms [of n]
      by (cases "keep n") (simp_all add: rewrite_Suc controls_def take_Suc_conv_app_nth)
  qed (simp add: rewrite_def List.map_filter_def)
  then show ?thesis by simp
qed

lemma set_rewrite_kept: "set (rewrite (kept_at ops keep) (length ops)) \<subseteq> set ops"
  by (auto simp: set_rewrite kept_at_def split: if_splits)

lemma reads_none_subset: "reads_none R ops \<Longrightarrow> set ops' \<subseteq> set ops \<Longrightarrow> reads_none R ops'"
  by (auto simp: reads_none_def)

lemma labels_unique_rewrite:
  assumes "labels_unique ops"
  shows "labels_unique (rewrite (kept_at ops keep) (length ops))"
proof -
  have snd: "List.map_filter label_of (map snd zs) = List.map_filter (label_of \<circ> snd) zs" for zs :: "(nat \<times> op) list"
    by (induction zs) (simp_all add: List.map_filter_def)
  have sub: "set (List.map_filter f (filter P zs)) \<subseteq> set (List.map_filter f zs)" for f :: "nat \<times> op \<Rightarrow> label option" and P zs
    by (auto simp: List.map_filter_def)
  have keep: "distinct (List.map_filter f (filter P zs))" if "distinct (List.map_filter f zs)"
    for f :: "nat \<times> op \<Rightarrow> label option" and P zs
    using that
  proof (induction zs)
    case (Cons z zs)
    then show ?case using sub [of f P zs] by (cases "f z") (auto simp: List.map_filter_def)
  qed (simp add: List.map_filter_def)
  have "List.map_filter label_of ops = List.map_filter (label_of \<circ> snd) (enumerate 0 ops)"
    using snd [of "enumerate 0 ops"] by simp
  then show ?thesis
    using assms keep unfolding labels_unique_def filter_enumerate_rewrite [symmetric] snd by metis
qed

section \<open>What the first pass reads\<close>

definition bases_in :: "virtual_register set \<Rightarrow> index_state \<Rightarrow> bool" where
  "bases_in B s \<longleftrightarrow> (\<forall>x b off. contents s x = Some (BaseOffset b off) \<longrightarrow> def_reg b \<in> B)"

lemma bases_in_record:
  "record_new_def d s = Inr s' \<Longrightarrow> bases_in B s' \<longleftrightarrow> bases_in B s"
  using record_new_def_version(1) [of d s s'] by (simp add: bases_in_def)

lemma bases_in_remove: "bases_in B s \<Longrightarrow> bases_in B (remove_contents d s)"
  by (auto simp: bases_in_def remove_contents_def)

lemma bases_in_insert:
  "bases_in B s \<Longrightarrow> (\<And>b off. c = BaseOffset b off \<Longrightarrow> def_reg b \<in> B) \<Longrightarrow> bases_in B (insert_contents d c s)"
  by (auto simp: bases_in_def insert_contents_def)

lemma bases_in_forget: "forget d s = Inr s' \<Longrightarrow> bases_in B s \<Longrightarrow> bases_in B s'"
  using bases_in_record bases_in_remove by (auto simp: forget_def)

lemma bases_in_forget_all: "foldM forget ds s = Inr s' \<Longrightarrow> bases_in B s \<Longrightarrow> bases_in B s'"
  using foldM_invariant [of forget ds s s' "bases_in B"] bases_in_forget by blast

lemma bases_in_add:
  assumes "process_add d a k s = Inr s'" "bases_in B s" "a \<in> B"
  shows "bases_in B s'"
proof -
  obtain c where "record_new_def d (insert_contents d c s) = Inr s'" "\<And>b off. c = BaseOffset b off \<Longrightarrow> def_reg b \<in> B"
    using assms unfolding process_add_def Let_def bases_in_def
    by (fastforce split: option.splits reg_contents.splits if_splits)
  then show ?thesis using bases_in_insert [OF assms(2), of c d] bases_in_record by metis
qed

lemma bases_in_alu:
  assumes "index_alu a s = Inr (s', retain)" "bases_in B s" "set (vop_use_registers (Alu a)) \<subseteq> B"
  shows "bases_in B s'"
proof (cases "tracked_op (Alu a)")
  case False
  then show ?thesis using assms(1,2) index_alu_default [OF False, of s] bases_in_forget_all by (auto simp: bindE_Inr_iff)
next
  case True
  then show ?thesis
  proof (cases a)
    case (ADD d x y)
    then have "x \<in> B" using assms(3) by (simp add: vop_use_registers_def)
    then show ?thesis using assms(1,2) ADD bases_in_add bases_in_forget
      by (auto simp: index_alu_def bindE_Inr_iff split: option.splits reg_contents.splits)
  next
    case (ADDI d x i)
    then have "x \<in> B" using assms(3) by (simp add: vop_use_registers_def)
    then show ?thesis using assms(1,2) ADDI bases_in_add by (auto simp: index_alu_def bindE_Inr_iff)
  next
    case (MUL d x y)
    then show ?thesis using assms(1,2) bases_in_forget bases_in_record bases_in_insert [OF assms(2)]
      by (fastforce simp: index_alu_def bindE_Inr_iff split: option.splits reg_contents.splits)
  next
    case (MOVI d i)
    then show ?thesis using assms(1) bases_in_record bases_in_insert [OF assms(2)]
      by (fastforce simp: index_alu_def bindE_Inr_iff)
  next
    case (MOVE d x)
    then have "x \<in> B" using assms(3) by (simp add: vop_use_registers_def)
    then show ?thesis using assms(1,2) MOVE
      by (auto simp: index_alu_def Let_def split: option.splits reg_contents.splits if_splits intro!: bases_in_insert)
  qed (use True in auto)
qed

lemma index_op_reads:
  assumes "index_op ds o' s = Inr (s', Some o'')" "bases_in B s" "set (op_use_registers o') \<subseteq> B"
  shows "bases_in B s' \<and> set (op_use_registers o'') \<subseteq> B \<and> set (op_def_registers o'') = set (op_def_registers o')
    \<and> (offset_jump o'' \<longrightarrow> offset_jump o')"
proof (cases "opcode o'")
  case (Inr c)
  show ?thesis
  proof (cases "\<exists>x l. c = SaveRetAddr x l")
    case True
    then show ?thesis using index_op_control [OF Inr assms(1)] assms(2,3) by auto
  next
    case False
    then have "contents s' = Map.empty" using index_op_control(2) [OF Inr assms(1)] by blast
    then show ?thesis using index_op_control(1) [OF Inr assms(1)] assms(3) by (simp add: bases_in_def)
  qed
next
  case (Inl v)
  consider (access) d a i where "v = Memory (LW d a i) \<or> v = Memory (SW a d i)" | (alu) a where "v = Alu a"
    | (load) d did where "v = NonVm (LoadDataId d did)" | (plain) "\<not> tracked_op v" "\<not> is_access v"
    by (cases v rule: tracked_op.cases; cases v rule: is_access.cases) auto
  then show ?thesis
  proof cases
    case access
    have direct: "base \<in> B" if "direct_access s a i = Some (base, raw)" for base raw
      using that assms(2) by (auto simp: direct_access_def bases_in_def split: option.splits reg_contents.splits if_splits)
    from access Inl assms show ?thesis
      by (auto simp: index_op_def bindE_Inr_iff op_use_registers_def op_def_registers_def vop_use_registers_def
          vop_def_registers_def offset_jump_def split: option.splits) (metis direct bases_in_forget)+
  next
    case (alu a)
    then have "index_alu a s = Inr (s', True)" "o'' = o'" using retained_alu Inl assms(1) by blast+
    then show ?thesis using bases_in_alu assms(2,3) Inl alu by (auto simp: op_use_registers_def)
  next
    case (load d did)
    have "bases_in B s'" using Inl load assms(1) bases_in_insert [OF assms(2)] bases_in_remove [OF assms(2)] bases_in_record
      by (fastforce simp: index_op_def bindE_Inr_iff split: option.splits)
    then show ?thesis using index_op_retained [OF Inl assms(1)] load assms(3) by auto
  next
    case plain
    then have "o'' = o'" "foldM forget (vop_def_registers v) s = Inr s'"
      using assms(1) unfolding index_op_default [OF Inl plain] by (auto simp: bindE_Inr_iff)
    then show ?thesis using bases_in_forget_all assms(2,3) by blast
  qed
qed

lemma controls_pointwise:
  assumes "length ops1 = length ops"
    and "\<And>i. i < length ops \<Longrightarrow> ops1 ! i = ops ! i \<or> isl (opcode (ops1 ! i)) \<and> isl (opcode (ops ! i))"
  shows "controls ops1 = controls ops"
  using assms
proof (induction ops1 ops rule: list_induct2)
  case (Cons x xs y ys)
  have "controls xs = controls ys" using Cons.prems [of "Suc _"] by (intro Cons.IH) simp
  moreover have "x = y \<or> isl (opcode x) \<and> isl (opcode y)" using Cons.prems [of 0] by simp
  ultimately show ?case by (auto simp: controls_def)
qed simp

text \<open>What the first pass leaves as it is.\<close>

lemma indexed_facts:
  assumes "const_indexing_aggregates_function ds ops = Inr ops1" "length ops1 = length ops"
  shows "controls ops1 = controls ops" "reads_none R ops \<Longrightarrow> reads_none R ops1"
    "all_registers ops1 \<subseteq> all_registers ops" "\<forall>o' \<in> set ops. \<not> offset_jump o' \<Longrightarrow> \<forall>o' \<in> set ops1. \<not> offset_jump o'"
proof -
  obtain st where st: "contents (st 0) = Map.empty"
      "\<And>i. i < length ops \<Longrightarrow> index_op ds (ops ! i) (st i) = Inr (st (Suc i), Some (ops1 ! i))"
    using index_loop_trace [OF assms(1) [unfolded const_indexing_aggregates_function_def]] assms(2)
    by (metis index_state.select_convs(2))
  let ?B = "\<Union>o' \<in> set ops. set (op_use_registers o')"
  have used: "set (op_use_registers (ops ! i)) \<subseteq> ?B" if "i < length ops" for i using that by (meson UN_upper nth_mem)
  have bases: "bases_in ?B (st i)" if "i \<le> length ops" for i
    using that
  proof (induction i)
    case (Suc i)
    then show ?case using index_op_reads [OF st(2) [of i]] used [of i] by simp
  qed (simp add: bases_in_def st(1))
  have new: "set (op_use_registers (ops1 ! i)) \<subseteq> ?B" "set (op_def_registers (ops1 ! i)) = set (op_def_registers (ops ! i))"
    "offset_jump (ops1 ! i) \<longrightarrow> offset_jump (ops ! i)" if "i < length ops" for i
    using index_op_reads [OF st(2) [OF that] bases used [OF that]] that by auto
  have "ops1 ! i = ops ! i \<or> isl (opcode (ops1 ! i)) \<and> isl (opcode (ops ! i))" if "i < length ops" for i
    using index_op_control(1) [OF _ st(2) [OF that]] index_op_plain [OF _ st(2) [OF that]]
    by (cases "opcode (ops ! i)") auto
  then show "controls ops1 = controls ops" using controls_pointwise assms(2) by blast
  show "reads_none R ops \<Longrightarrow> reads_none R ops1"
    using new(1) assms(2) unfolding reads_none_def by (fastforce simp: in_set_conv_nth)
  have "set (op_registers (ops1 ! i)) \<subseteq> all_registers ops" if "i < length ops" for i
    using new(1,2) [OF that] that unfolding op_registers_use_def all_registers_def by (fastforce simp: op_registers_use_def)
  then have "set (op_registers o') \<subseteq> all_registers ops" if "o' \<in> set ops1" for o'
    using that assms(2) by (metis in_set_conv_nth)
  then show "all_registers ops1 \<subseteq> all_registers ops" unfolding all_registers_def [of ops1] by (rule UN_least)
  show "\<forall>o' \<in> set ops. \<not> offset_jump o' \<Longrightarrow> \<forall>o' \<in> set ops1. \<not> offset_jump o'"
    using new(3) assms(2) by (metis in_set_conv_nth nth_mem)
qed

section \<open>The optimizer\<close>

definition optimizable :: "(virtual_op \<Rightarrow> virtual_register set) \<Rightarrow> op list \<Rightarrow> bool" where
  "optimizable hidden ops \<longleftrightarrow> jumps_ok ops \<and> labels_unique ops \<and> guarded ops
   \<and> reads_none (volatile \<union> flags) ops \<and> tracked_stable hidden ops \<and> moves_late ops"

lemma dce_facts:
  assumes "jumps_ok ops" "2 * length ops * card (all_registers ops) < fuel"
    and "machine_ok vm" "reads_none volatile ops"
  obtains ops' where "dce fuel ops = Inr ops'" "keeps_results vm ops ops'" "controls ops' = controls ops"
    "set ops' \<subseteq> set ops" "length ops' \<le> length ops"
proof -
  obtain dead L where d: "dce fuel ops = Inr (rewrite (kept_at ops (\<lambda>i. i \<notin> dead)) (length ops))"
      "\<And>i. i < length ops \<Longrightarrow> dce_at ops L dead i"
    using dce_ok [OF assms(1,2)] by blast
  let ?ops = "rewrite (kept_at ops (\<lambda>i. i \<notin> dead)) (length ops)"
  have "isl (opcode (ops ! i))" if "i < length ops" "\<not> i \<notin> dead" for i
    using d(2) [OF that(1)] that(2) by (auto simp: dce_at_def Let_def split: if_splits)
  then have "controls ?ops = controls ops" by (rule rewrite_kept_facts)
  moreover have "length ?ops \<le> length ops"
    by (simp add: rewrite_def List.map_filter_def order.trans [OF length_filter_le])
  ultimately show ?thesis
    using that [OF d(1) dce_keeps_results [OF assms(3,1,4) d(2)]] set_rewrite_kept by blast
qed

lemma optimize_ok:
  assumes vm: "machine_ok vm" "arithmetic_strict vm ds hidden" and prog: "optimizable hidden ops"
    and pass: "const_indexing_aggregates_function ds ops = Inr ops1" "length ops1 = length ops"
    and fuel: "length ops + 2 * length ops * card (all_registers ops) < fuel"
  shows "\<exists>ops'. optimize fuel ds ops = Inr ops' \<and> keeps_results vm ops ops'"
proof -
  note p = prog [unfolded optimizable_def] and f = indexed_facts [OF pass]
  have k1: "keeps_results vm ops ops1" using const_indexing_keeps_results [OF vm(2)] p pass by blast
  have r1: "reads_none (volatile \<union> flags) ops1" using f(2) p by blast
  then have v1: "reads_none volatile ops1" by (auto simp: reads_none_def)
  have j1: "jumps_ok ops1" using p f(1,4) by (auto simp: jumps_ok_controls)
  have "card (all_registers ops1) \<le> card (all_registers ops)" using f(3) finite_all_registers by (rule card_mono [rotated])
  then have "2 * length ops1 * card (all_registers ops1) \<le> 2 * length ops * card (all_registers ops)"
    using pass(2) by (simp add: mult_le_mono2)
  then have "2 * length ops1 * card (all_registers ops1) < fuel" using fuel by linarith
  then obtain ops2 where d: "dce fuel ops1 = Inr ops2" "keeps_results vm ops1 ops2" "controls ops2 = controls ops1"
      "set ops2 \<subseteq> set ops1" "length ops2 \<le> length ops1"
    using dce_facts [OF j1 _ vm(1) v1] by blast
  have "\<forall>o' \<in> set ops2. \<not> offset_jump o'" using j1 d(4) by (auto simp: jumps_ok_controls)
  then have j2: "jumps_ok ops2" using j1 d(3) by (auto simp: jumps_ok_controls)
  have u2: "falls_unlabelled ops2" using p f(1) d(3) by (intro guarded_falls_unlabelled) (simp add: guarded_def)
  have r2: "reads_none (volatile \<union> flags) ops2" using r1 d(4) by (rule reads_none_subset)
  let ?ops3 = "rewrite (kept_at ops2 (reachable ops2)) (length ops2)"
  have s: "simplify_cfg fuel ops2 = Inr ?ops3"
    using j2 u2 by (rule simplify_cfg_ok) (use fuel d(5) pass(2) in linarith)
  have k3: "keeps_results vm ops2 ?ops3"
    using simplify_cfg_keeps_results [OF vm(1) j2] r2 by (simp add: reads_none_def Int_Un_distrib)
  have r3: "reads_none (volatile \<union> flags) ?ops3" using r2 set_rewrite_kept by (rule reads_none_subset)
  have "labels_unique ops2" using p f(1) d(3) by (metis labels_unique_controls)
  then have l3: "labels_unique ?ops3" by (rule labels_unique_rewrite)
  let ?ops4 = "remove_sequential_jumps ?ops3"
  have k4: "keeps_results vm ?ops3 ?ops4" by (rule sequential_jumps_keep_results [OF vm(1) l3 r3])
  have r4: "reads_none (volatile \<union> flags) ?ops4" unfolding remove_sequential_jumps_def by (rule reads_none_replace [OF r3])
  note k5 = redundant_moves_keep_results [OF vm(1) r4]
  have k6: "keeps_results vm (remove_redundant_moves ?ops4) (remove_redundant_ops (remove_redundant_moves ?ops4))"
    using redundant_ops_keep_results [OF vm(1)] k5 by blast
  have "keeps_results vm ops (remove_redundant_ops (remove_redundant_moves ?ops4))"
    using k1 d(2) k3 k4 k5 k6 keeps_results_trans by metis
  moreover have "optimize fuel ds ops = Inr (remove_redundant_ops (remove_redundant_moves ?ops4))"
    using pass(1) d(1) s by (simp add: optimize_def)
  ultimately show ?thesis by blast
qed

end
