(* ===== verification/Asm_Optimizer.thy ===== *)
theory Asm_Optimizer
  imports Asm_Optimized
begin

text \<open>
  The properties of the optimizer, a small machine on which their hypotheses hold, and the code
  on which the passes go wrong.
\<close>

section \<open>A small machine\<close>

text \<open>
  Arithmetic that panics when a result does not fit, a memory of words, moves, and the two ways
  to end the code; other instructions clear the registers that they define. An instruction that
  would write \<^verbatim>\<open>$flag\<close> panics.
\<close>

definition sample_value ::
  "data_section \<Rightarrow> virtual_op \<Rightarrow> regs \<Rightarrow> (nat \<Rightarrow> u64) \<Rightarrow> (virtual_register \<times> nat) option" where
  "sample_value ds v r m =
     (case v of
        Alu (ADD d a b) \<Rightarrow> Some (d, unat (r a) + unat (r b))
      | Alu (ADDI d a i) \<Rightarrow> Some (d, unat (r a) + unat (value12 i))
      | Alu (MUL d a b) \<Rightarrow> Some (d, unat (r a) * unat (r b))
      | Alu (MOVI d i) \<Rightarrow> Some (d, unat (value18 i))
      | Alu (MOVE d a) \<Rightarrow> Some (d, unat (r a))
      | NonVm (LoadDataId d did) \<Rightarrow> Some (d, unat (unwrap_or (get_data_word ds did) 0))
      | Memory (LW d a i) \<Rightarrow> Some (d, unat (m (unat (r a) + 8 * unat (value12 i))))
      | _ \<Rightarrow> None)"

definition sample_memory :: "virtual_op \<Rightarrow> regs \<Rightarrow> (nat \<Rightarrow> u64) \<Rightarrow> nat \<Rightarrow> u64" where
  "sample_memory v r m =
     (case v of Memory (SW a d i) \<Rightarrow> m(unat (r a) + 8 * unat (value12 i) := r d) | _ \<Rightarrow> m)"

definition sample_end :: "virtual_op \<Rightarrow> virtual_register option" where
  "sample_end v = (case v of ControlFlow (RET x) \<Rightarrow> Some x | Contract (RVRT x) \<Rightarrow> Some x | _ \<Rightarrow> None)"

definition cleared :: "virtual_op + virtual_register control_flow_op \<Rightarrow> regs \<Rightarrow> regs" where
  "cleared oc r = (\<lambda>x. if x \<in> oc_defs oc then 0 else r x)"

definition sample_vm :: "data_section \<Rightarrow> (nat \<Rightarrow> u64, u64) machine" where
  "sample_vm ds oc r m =
     (if Constant Flags \<in> oc_defs oc then Trap
      else case oc of
        Inr _ \<Rightarrow> Next (cleared oc r) m
      | Inl v \<Rightarrow>
          (case sample_end v of
             Some x \<Rightarrow> Stop (r x)
           | None \<Rightarrow>
               (case sample_value ds v r m of
                  None \<Rightarrow> Next (cleared oc r) (sample_memory v r m)
                | Some (d, n) \<Rightarrow> if n < 2 ^ 64 then Next ((cleared oc r)(d := of_nat n)) m else Trap)))"

definition sample_hidden :: "virtual_op \<Rightarrow> virtual_register set" where
  "sample_hidden v = set (vop_def_const_registers v)"

lemma sample_value_same:
  assumes "agree (oc_uses (Inl v)) r r'"
  shows "sample_value ds v r m = sample_value ds v r' m" "sample_memory v r m = sample_memory v r' m"
    "map_option r (sample_end v) = map_option r' (sample_end v)"
  using assms
  by (auto simp: sample_value_def sample_memory_def sample_end_def agree_def oc_uses_def plain_def
      op_use_registers_def vop_use_registers_def split: virtual_op.splits alu_op.splits memory_op.splits
      nonvm_op.splits control_op.splits contract_op.splits)


lemma sample_value_defs: "sample_value ds v r m = Some (d, n) \<Longrightarrow> d \<in> oc_defs (Inl v)"
  by (auto simp: sample_value_def oc_defs_def plain_def op_def_registers_def vop_def_registers_def
      split: virtual_op.splits alu_op.splits memory_op.splits nonvm_op.splits)

lemma sample_pure:
  assumes "\<not> vop_has_side_effect v"
  shows "sample_end v = None" "sample_memory v r m = m"
  using assms by (auto simp: sample_end_def sample_memory_def vop_has_side_effect_def
      split: virtual_op.splits memory_op.splits control_op.splits contract_op.splits)

lemma sample_next:
  assumes "sample_vm ds oc r m = Next r' m'"
  shows "agree (- oc_defs oc) r r'" "Constant Flags \<notin> oc_defs oc"
  using assms sample_value_defs [of ds _ r m]
  by (auto simp: sample_vm_def cleared_def agree_def split: option.splits if_splits sum.splits)

lemma sample_vm_same:
  assumes "agree (oc_uses oc \<union> ambient) r r'"
  shows "same_outcome (oc_defs oc \<union> ambient) (sample_vm ds oc r m) (sample_vm ds oc r' m)"
proof -
  have same: "agree (oc_defs oc \<union> ambient) (cleared oc r) (cleared oc r')"
    using assms by (auto simp: agree_def cleared_def)
  show ?thesis
  proof (cases oc)
    case (Inl v)
    have "agree (oc_uses (Inl v)) r r'" using assms Inl by (simp add: agree_def)
    note v = sample_value_same(1) [OF this, of ds m] sample_value_same(2) [OF this, of m] sample_value_same(3) [OF this]
    have "r x = r' x" if "sample_end v = Some x" for x using v(3) that by simp
    then show ?thesis using same v(1,2) Inl
      by (auto simp: sample_vm_def agree_def split: option.splits)
  qed (use same in \<open>simp add: sample_vm_def\<close>)
qed

lemma sample_vm_machine: "machine_ok (sample_vm ds)"
  unfolding machine_ok_def
proof (intro conjI allI impI)
  fix oc r m and r' :: regs and m' assume "sample_vm ds oc r m = Next r' m'"
  from sample_next(1) [OF this] show "agree (- oc_defs oc - ambient - volatile) r r'"
    by (rule agree_subset) auto
next
  fix v r m assume "\<not> vop_has_side_effect v"
  then show "case sample_vm ds (Inl v) r m of
      Next r' m' \<Rightarrow> m' = m \<and> agree (- oc_defs (Inl v) - volatile) r r' | Stop _ \<Rightarrow> False | Trap \<Rightarrow> True"
    using agree_subset [OF sample_next(1) [of ds "Inl v" r m]] sample_pure [of v]
    by (simp add: sample_vm_def split: outcome.split option.split)
qed (simp_all add: sample_vm_same, simp_all add: sample_vm_def sample_end_def sample_value_def oc_defs_def plain_def
    op_def_registers_def op_def_const_registers_def vop_def_registers_def vop_def_const_registers_def)

lemma sample_store:
  assumes "sample_vm ds (Inl v) r m = Next r' m'" "sample_value ds v r m = Some (d, n)"
  shows "unat (r' d) = n"
  using assms by (auto simp: sample_vm_def unat_of_nat simp del: of_nat_add of_nat_mult split: option.splits if_splits)

lemma sample_vm_strict: "arithmetic_strict (sample_vm ds) ds sample_hidden"
  unfolding arithmetic_strict_def accesses_ok_def
proof (intro conjI allI impI)
  fix v r m and r' :: regs and m' assume "sample_vm ds (Inl v) r m = Next r' m'"
  from sample_next(1) [OF this] show "agree (- set (vop_def_registers v) - sample_hidden v - volatile - flags) r r'"
    by (rule agree_subset)
      (auto simp: sample_hidden_def oc_defs_def plain_def op_def_registers_def op_def_const_registers_def)
next
  fix x l r m and r' :: regs and m' assume "sample_vm ds (Inr (SaveRetAddr x l)) r m = Next r' m'"
  then show "agree (- {x} - volatile - flags) r r'"
    by (auto simp: sample_vm_def cleared_def agree_def oc_defs_def plain_def op_def_registers_def
        op_def_const_registers_def cf_def_const_registers_def split: if_splits)
next
  fix d i r m and r' :: regs and m' assume "sample_vm ds (Inl (Alu (MOVI d i))) r m = Next r' m'"
  from sample_store [OF this, of d "unat (value18 i)"] show "r' d = ucast (value18 i)"
    using unsigned_less [of "value18 i", where ?'a = nat]
    by (simp add: sample_value_def word_unat_eq_iff unsigned_ucast_eq take_bit_nat_eq_self)
next
  fix d a r m and r' :: regs and m' assume "sample_vm ds (Inl (Alu (MOVE d a))) r m = Next r' m'"
  from sample_store [OF this, of d "unat (r a)"] show "r' d = r a" by (simp add: sample_value_def word_unat_eq_iff)
next
  fix d did c r m and r' :: regs and m'
  assume "sample_vm ds (Inl (NonVm (LoadDataId d did))) r m = Next r' m'" "get_data_word ds did = Some c"
  then show "r' d = c" using sample_store [of ds _ r m r' m' d "unat c"] by (simp add: sample_value_def unwrap_or_def word_unat_eq_iff)
qed ((erule sample_store; simp add: sample_value_def)+, simp_all add: sample_vm_def sample_end_def sample_value_def
    sample_memory_def cleared_def oc_defs_def plain_def op_def_registers_def op_def_const_registers_def
    vop_def_registers_def vop_def_const_registers_def)

lemma sample_vm_arithmetic: "arithmetic_ok (sample_vm ds) ds sample_hidden"
proof -
  have "r' (Constant Flags) = r (Constant Flags)" if "sample_vm ds oc r m = Next r' m'" for oc r m r' m'
    using sample_next [OF that] by (simp add: agree_def)
  then show ?thesis using sample_vm_strict [of ds] by (simp add: arithmetic_ok_def arithmetic_strict_def)
qed

section \<open>Properties\<close>

text \<open>
  An address computation, an access through it, a copy that nobody reads, a jump to the next
  label over an instruction that cannot be reached.
\<close>

definition opt_sample :: "op list" where
  "opt_sample = map plain
     [Inl (Alu (ADDI (Virtual ''2'') (Virtual ''1'') \<lparr>value12 = 8\<rparr>)),
      Inl (Alu (MOVE (Virtual ''4'') (Virtual ''1''))),
      Inl (Memory (LW (Virtual ''3'') (Virtual ''2'') \<lparr>value12 = 0\<rparr>)),
      Inr (Jump 7),
      Inl (Alu (MOVI (Virtual ''3'') \<lparr>value18 = 5\<rparr>)),
      Inr (Label 7),
      Inl (ControlFlow (RET (Virtual ''3'')))]"

definition no_data :: data_section where
  "no_data = \<lparr>non_configurables = [], configurables = [], pointer_id = Map.empty\<rparr>"


lemma opt_sample_flow: "jumps_ok opt_sample" "labels_unique opt_sample" "moves_late opt_sample"
  by code_simp+

lemma opt_sample_guarded: "guarded opt_sample"
  by (simp add: guarded_def falls_unlabelled_def controls_def opt_sample_def plain_def jump_target_def falls_through_def
      less_Suc_eq numeral_eq_Suc)

lemma opt_sample_reads: "reads_none (volatile \<union> flags) opt_sample" "reads_none volatile opt_sample"
  by (simp_all add: reads_none_def opt_sample_def plain_def op_use_registers_def vop_use_registers_def volatile_def
      flags_def btree_set_def)

lemma opt_sample_tracked: "tracked_stable sample_hidden opt_sample"
  by (auto simp: tracked_stable_def tracked_def opt_sample_def plain_def vop_registers_def volatile_def
      flags_def sample_hidden_def vop_def_const_registers_def btree_set_def)

lemma opt_sample_card: "card (all_registers opt_sample) \<le> 4"
proof -
  have "all_registers opt_sample \<subseteq> {Virtual ''1'', Virtual ''2'', Virtual ''3'', Virtual ''4''}"
    by (auto simp: all_registers_def opt_sample_def plain_def op_registers_def vop_registers_def btree_set_def)
  from card_mono [OF _ this] show ?thesis by simp
qed

lemmas index_eval = const_indexing_aggregates_function_def plain_def index_op_def index_alu_def process_add_def
  Let_def record_new_def_def insert_contents_def get_def_version_def unwrap_or_def forget_def remove_contents_def
  direct_access_def TWELVE_BITS_def imm12_new_unchecked_def unwrap_or_panic_def try_into_def vop_def_registers_def
  btree_set_def

lemma opt_sample_indexed:
  "const_indexing_aggregates_function no_data opt_sample =
     Inr (opt_sample[2 := plain (Inl (Memory (LW (Virtual ''3'') (Virtual ''1'') \<lparr>value12 = 1\<rparr>)))])"
  by (simp add: index_eval opt_sample_def)


text \<open>
  (C4) The optimizer keeps the result of code that it is right for. Let the machine behave as
  documented and not start in wrapping mode; let every jump of the code have one label, no conditional
  jump be followed by a label, the flags, the program counter and gas not be read, no \<^verbatim>\<open>FLAG\<close>
  instruction occur, and moves not overwrite what the first pass remembers; and let the first pass return
  and delete no move. Then the rest of \<^verbatim>\<open>optimize\<close> does not panic, and every run that ended with a result
  ends with the same result in the code that it returns, after at most as many steps.
\<close>

theorem optimize_keeps_results:
  assumes "machine_ok vm" "arithmetic_ok vm ds hidden" "optimizable hidden ops" "flag_free ops"
    and "const_indexing_aggregates_function ds ops = Inr ops1" "length ops1 = length ops"
    and "length ops + 2 * length ops * card (all_registers ops) < fuel"
    and "\<not> wrapping r" "run vm ops n 0 r m = Some x"
  shows "\<exists>ops'. optimize fuel ds ops = Inr ops' \<and> run vm ops' n 0 r m = Some x"
proof -
  obtain ops' where ops': "optimize fuel ds ops = Inr ops'" "keeps_results (trap_wrap vm) ops ops'"
    using optimize_ok [OF trap_wrap_machine [OF assms(1)] trap_wrap_strict [OF assms(2)] assms(3,5-7)] by blast
  have "run (trap_wrap vm) ops n 0 r m = Some x" by (rule run_strict [OF assms(2,4,9,8)])
  from keeps_resultsD [OF ops'(2) this] have "run vm ops' n 0 r m = Some x" by (rule run_not_strict)
  with ops'(1) show ?thesis by blast
qed

lemmas run_eval = run_Suc exec_op_def exec_plain_def sample_vm_def sample_end_def sample_value_def sample_memory_def
  cleared_def oc_defs_def op_def_registers_def op_def_const_registers_def vop_def_registers_def
  vop_def_const_registers_def btree_set_def plain_def label_to_index_def
  cf_def_const_registers_def

lemma opt_sample_run: "run (sample_vm no_data) opt_sample (Suc (Suc (Suc (Suc (Suc (Suc 0)))))) 0 (\<lambda>_. 0) of_nat = Some 8"
  by (simp add: run_eval opt_sample_def)

theorem optimize_keeps_results_witness:
  "\<exists>ops'. optimize 100 no_data opt_sample = Inr ops'
     \<and> run (sample_vm no_data) ops' (Suc (Suc (Suc (Suc (Suc (Suc 0)))))) 0 (\<lambda>_. 0) of_nat = Some 8"
proof (rule optimize_keeps_results [OF sample_vm_machine sample_vm_arithmetic _ _ opt_sample_indexed _ _ _ opt_sample_run])
  show "optimizable sample_hidden opt_sample"
    using opt_sample_flow opt_sample_guarded opt_sample_reads opt_sample_tracked by (simp add: optimizable_def)
  show "length opt_sample + 2 * length opt_sample * card (all_registers opt_sample) < 100"
    using opt_sample_card by (simp add: opt_sample_def)
qed (simp_all add: flag_free_def wrapping_def opt_sample_def plain_def)

lemma rewrite_kept_nths: "rewrite (kept_at ops keep) (length ops) = nths ops {i. keep i}"
proof (induction ops rule: rev_induct)
  case Nil
  show ?case by (simp add: rewrite_def List.map_filter_def)
next
  case (snoc x ops)
  have "rewrite (kept_at (ops @ [x]) keep) (length ops) = rewrite (kept_at ops keep) (length ops)"
    by (rule rewrite_cong) (simp add: kept_at_def nth_append)
  with snoc show ?case by (cases "keep (length ops)") (simp_all add: rewrite_Suc nths_append nths_singleton)
qed

text \<open>
  (C14) \<^verbatim>\<open>dce\<close> always returns when every jump has its label, deletes only instructions without
  side effect, and the rest gives the same results when the code does not read the program
  counter or gas.
\<close>

theorem dce_keeps_code_results:
  assumes "machine_ok vm" "jumps_ok ops" "reads_none volatile ops"
    and "2 * length ops * card (all_registers ops) < fuel"
  shows "\<exists>dead. dce fuel ops = Inr (nths ops (- dead))
    \<and> (\<forall>i \<in> dead. i < length ops \<longrightarrow> (\<exists>v. opcode (ops ! i) = Inl v \<and> \<not> vop_has_side_effect v))
    \<and> (\<forall>n r m x. run vm ops n 0 r m = Some x \<longrightarrow> run vm (nths ops (- dead)) n 0 r m = Some x)"
proof -
  obtain dead L where d: "dce fuel ops = Inr (rewrite (kept_at ops (\<lambda>i. i \<notin> dead)) (length ops))"
      and at: "\<And>i. i < length ops \<Longrightarrow> dce_at ops L dead i"
    using dce_ok [OF assms(2,4)] by blast
  have "\<exists>v. opcode (ops ! i) = Inl v \<and> \<not> vop_has_side_effect v" if "i \<in> dead" "i < length ops" for i
    using at [OF that(2)] that(1) by (simp add: dce_at_def Let_def split: if_splits)
  moreover have "{i. i \<notin> dead} = - dead" by auto
  ultimately show ?thesis
    using d keeps_resultsD [OF dce_keeps_results [OF assms(1-3) at]] by (auto simp: rewrite_kept_nths)
qed

theorem dce_keeps_code_results_witness:
  "\<exists>dead. dce 100 opt_sample = Inr (nths opt_sample (- dead))
    \<and> run (sample_vm no_data) (nths opt_sample (- dead)) (Suc (Suc (Suc (Suc (Suc (Suc 0)))))) 0 (\<lambda>_. 0) of_nat = Some 8"
proof -
  have "2 * length opt_sample * card (all_registers opt_sample) < 100"
    using opt_sample_card by (simp add: opt_sample_def)
  from dce_keeps_code_results [OF sample_vm_machine opt_sample_flow(1) opt_sample_reads(2) this]
  show ?thesis using opt_sample_run by blast
qed

text \<open>
  (C15) When every jump has its label and no conditional jump is directly followed by a label, the assertion of \<^verbatim>\<open>simplify_cfg\<close> that an
  instruction is visited once does not fail, and exactly the instructions that control can reach
  from the first one are kept, in their order.
\<close>

theorem simplify_cfg_keeps_reachable:
  assumes "jumps_ok ops" "falls_unlabelled ops" "length ops < fuel"
  shows "simplify_cfg fuel ops = Inr (nths ops {i. reachable ops i})"
  using simplify_cfg_ok [OF assms] by (simp add: rewrite_kept_nths)

theorem simplify_cfg_keeps_reachable_witness:
  "simplify_cfg 8 opt_sample = Inr (nths opt_sample {i. reachable opt_sample i})"
  by (rule simplify_cfg_keeps_reachable [OF opt_sample_flow(1) guarded_falls_unlabelled [OF opt_sample_guarded]])
    (simp add: opt_sample_def)

text \<open>
  (C31) \<^verbatim>\<open>verify\<close> accepts the code unchanged exactly when each virtual register that is read is
  also written somewhere; otherwise the error names all the registers that are not.
\<close>

theorem verify_accepts:
  "\<exists>bad. distinct bad
     \<and> set bad = {r. is_virtual r \<and> (\<exists>o' \<in> set ops. r \<in> set (op_use_registers o'))
         \<and> \<not> (\<exists>o' \<in> set ops. r \<in> set (op_def_registers o'))}
     \<and> verify hash_order ops =
         (if bad = [] then Inr ops
          else Inl (Internal (''Program erroneously uses uninitialized virtual registers: ''
            @ join '', '' (map (\<lambda>r. case r of Virtual name \<Rightarrow> ''$r'' @ name | Constant c \<Rightarrow> fmt_constant_register c)
                (hash_order bad)))))"
proof -
  let ?use = "remdups (concat (map (\<lambda>o'. virt_regs (op_use_registers o')) ops))"
    and ?def = "remdups (concat (map (\<lambda>o'. virt_regs (op_def_registers o')) ops))"
  let ?bad = "filter (\<lambda>r. r \<notin> set ?def) ?use"
  have "set ?use \<subseteq> set ?def \<longleftrightarrow> ?bad = []" unfolding filter_empty_conv by blast
  then show ?thesis
    by (intro exI [of _ ?bad] conjI) (auto simp: verify_def Let_def virt_regs_def)
qed


section \<open>Where the passes go wrong\<close>

text \<open>An address is computed from a register that is overwritten before the access.\<close>

definition moved_base :: "op list" where
  "moved_base = map plain
     [Inl (Alu (ADDI (Virtual ''2'') (Virtual ''1'') \<lparr>value12 = 8\<rparr>)),
      Inl (Alu (MOVE (Virtual ''1'') (Virtual ''5''))),
      Inl (Memory (LW (Virtual ''3'') (Virtual ''2'') \<lparr>value12 = 0\<rparr>)),
      Inl (ControlFlow (RET (Virtual ''3'')))]"

lemma moved_base_indexed:
  "const_indexing_aggregates_function no_data moved_base =
     Inr (moved_base[2 := plain (Inl (Memory (LW (Virtual ''3'') (Virtual ''1'') \<lparr>value12 = 1\<rparr>)))])"
  by (simp add: index_eval moved_base_def)

text \<open>
  The first pass changes results: it does not count a \<^verbatim>\<open>MOVE\<close> as a definition of its target, and
  a word that was loaded from behind the old value of a register is then loaded from behind the
  new one.
\<close>

theorem stale_base:
  "\<exists>ops. const_indexing_aggregates_function no_data moved_base = Inr ops
     \<and> run (sample_vm no_data) moved_base (Suc (Suc (Suc (Suc 0)))) 0 ((\<lambda>_. 0)(Virtual ''5'' := 64)) of_nat = Some 8
     \<and> run (sample_vm no_data) ops (Suc (Suc (Suc (Suc 0)))) 0 ((\<lambda>_. 0)(Virtual ''5'' := 64)) of_nat = Some 72"
  unfolding moved_base_indexed by (simp add: moved_base_def run_eval)

text \<open>
  Copying a register back after it was overwritten is taken for a copy that changes nothing.
\<close>

lemma restoring_move_deleted:
  "const_indexing_aggregates_function no_data (map plain
     [Inl (Alu (MOVE (Virtual ''2'') (Virtual ''1''))),
      Inl (Memory (LW (Virtual ''1'') (Virtual ''9'') \<lparr>value12 = 0\<rparr>)),
      Inl (Alu (MOVE (Virtual ''1'') (Virtual ''2'')))]) = Inr (map plain
     [Inl (Alu (MOVE (Virtual ''2'') (Virtual ''1''))),
      Inl (Memory (LW (Virtual ''1'') (Virtual ''9'') \<lparr>value12 = 0\<rparr>))])"
  by (simp add: index_eval)

text \<open>A product of known constants that does not fit stops the compiler instead of the program.\<close>

lemma constant_product_panics:
  "const_indexing_aggregates_function no_data (map plain
     [Inl (Alu (MOVI (Virtual ''1'') \<lparr>value18 = 200000\<rparr>)),
      Inl (Alu (MUL (Virtual ''2'') (Virtual ''1'') (Virtual ''1''))),
      Inl (Alu (MUL (Virtual ''3'') (Virtual ''2'') (Virtual ''2'')))]) = Inl (Panic ''attempt to multiply with overflow'')"
  by (simp add: index_eval mul_u64_def)

text \<open>\<^verbatim>\<open>NOOP\<close> clears the overflow flag; without it a later read sees the old flag.\<close>

definition flag_read :: "op list" where
  "flag_read = map plain
     [Inl (Alu NOOP), Inl (Alu (MOVE (Virtual ''1'') (Constant Overflow))), Inl (ControlFlow (RET (Virtual ''1'')))]"

lemma noop_clears_flag:
  "run (sample_vm no_data) flag_read (Suc (Suc (Suc 0))) 0 (\<lambda>_. 1) of_nat = Some 0"
  "run (sample_vm no_data) (remove_redundant_ops flag_read) (Suc (Suc (Suc 0))) 0 (\<lambda>_. 1) of_nat = Some 1"
  by (simp_all add: flag_read_def run_eval remove_redundant_ops_def is_noop_def)

text \<open>A conditional jump to the next label is visited twice, which the assertion does not allow.\<close>

lemma simplify_cfg_panics:
  "simplify_cfg 10 (map plain [Inr (JumpIfNotZero (Virtual ''1'') 7), Inr (Label 7), Inl (ControlFlow (RET (Virtual ''1'')))])
   = Inl (Panic ''assertion failed'')"
  by code_simp

end
