(* ===== verification/Asm_Labels.thy ===== *)
theory Asm_Labels
  imports Asm_Regalloc Asm_Data
begin

text \<open>
  Instructions on machine registers with labels, \<^verbatim>\<open>allocated_abstract_instruction_set.rs\<close>: the
  saving of registers around calls, and the replacement of labels by relative jumps. Offsets are
  counted in instructions of 32 bits.
\<close>

section \<open>Redundant instructions\<close>

definition redundant_alloc_op :: "allocated_abstract_op \<Rightarrow> bool" where
  "redundant_alloc_op o' \<longleftrightarrow>
     (case alloc_opcode o' of
        Inl (AMemory (alloc_memory_op.CFEI imm)) \<Rightarrow> value24 imm = 0
      | Inl (AMemory (alloc_memory_op.CFSI imm)) \<Rightarrow> value24 imm = 0
      | Inl (AMemory (alloc_memory_op.CFE reg)) \<Rightarrow> is_zero reg
      | Inl (AMemory (alloc_memory_op.CFS reg)) \<Rightarrow> is_zero reg
      | _ \<Rightarrow> False)"

definition alloc_remove_redundant_ops :: "allocated_abstract_op list \<Rightarrow> allocated_abstract_op list" where
  "alloc_remove_redundant_ops ops = filter (\<lambda>o'. \<not> redundant_alloc_op o') ops"

definition alloc_optimize :: "allocated_abstract_op list \<Rightarrow> allocated_abstract_op list" where
  "alloc_optimize ops = alloc_remove_redundant_ops ops"

section \<open>Saving registers\<close>

type_synonym section_state = "(label \<rightharpoonup> allocated_register list) \<times> label list"

text \<open>The registers that an instruction writes, for every section it lies in.\<close>

definition section_op :: "allocated_abstract_op \<Rightarrow> section_state \<Rightarrow> section_state result" where
  "section_op o' = (\<lambda>(reg_sets, active_sets).
     case alloc_opcode o' of
       Inr (PushAll label) \<Rightarrow> Inr (reg_sets, push_if_absent label active_sets)
     | Inr (PopAll label) \<Rightarrow> Inr (reg_sets, filter (\<lambda>l. l \<noteq> label) active_sets)
     | oc \<Rightarrow>
         bindE (case oc of Inl alloc_op \<Rightarrow> alloc_def_registers alloc_op | Inr ctrl_op \<Rightarrow> Inr (cf_def_registers ctrl_op))
           (\<lambda>regs. Inr (fold (\<lambda>reg. fold (\<lambda>active_label reg_sets.
              reg_sets(active_label \<mapsto> insort_insert reg (unwrap_or (reg_sets active_label) []))) active_sets) regs reg_sets,
              active_sets)))"

definition register_sets :: "allocated_abstract_op list \<Rightarrow> (label \<rightharpoonup> allocated_register list) result" where
  "register_sets ops = bindE (foldM section_op ops (Map.empty, [])) (\<lambda>(reg_sets, _). Inr reg_sets)"

definition expect_ok :: "string \<Rightarrow> 'a result \<Rightarrow> 'a result" where
  "expect_ok msg r = (case r of Inr x \<Rightarrow> Inr x | Inl _ \<Rightarrow> Inl (Panic msg))"

text \<open>\<open>reg_u8\<close> is \<^verbatim>\<open>RegId::to_u8\<close> of \<^verbatim>\<open>fuel_asm\<close>.\<close>

definition mask_bit ::
  "'id fuel_regs \<Rightarrow> ('id \<Rightarrow> u8) \<Rightarrow> allocated_register \<Rightarrow> u64 \<times> u64 \<Rightarrow> (u64 \<times> u64) result" where
  "mask_bit fuel reg_u8 reg = (\<lambda>(l, h).
     bindE (allocated_to_reg_id fuel reg) (\<lambda>rid.
     let reg_id = reg_u8 rid in
     bindE (assert_or_panic (16 \<le> reg_id \<and> reg_id < 64)) (\<lambda>_.
     let reg_id = reg_id - 16 in
     Inr (if reg_id < 24 then (l OR push_bit (unat reg_id) 1, h) else (l, h OR push_bit (unat (reg_id - 24)) 1)))))"

definition generate_mask ::
  "'id fuel_regs \<Rightarrow> ('id \<Rightarrow> u8) \<Rightarrow> allocated_register list \<Rightarrow> (imm24 \<times> imm24) result" where
  "generate_mask fuel reg_u8 regs =
     bindE (foldM (mask_bit fuel reg_u8) regs (0, 0)) (\<lambda>(l, h).
     bindE (expect_ok ''mask should have fit in 24b'' (imm24_new l)) (\<lambda>mask_l.
     bindE (expect_ok ''mask should have fit in 24b'' (imm24_new h)) (\<lambda>mask_h.
     Inr (mask_l, mask_h))))"

fun is_allocated :: "allocated_register \<Rightarrow> bool" where
  "is_allocated (Allocated _) = True"
| "is_allocated (AllocatedConstant _) = False"

definition saved_registers :: "(label \<rightharpoonup> allocated_register list) \<Rightarrow> label \<Rightarrow> allocated_register list result" where
  "saved_registers reg_sets label =
     bindE (unwrap_or_panic ''Have collected registers above.'' (reg_sets label)) (\<lambda>regs.
     Inr (filter is_allocated regs @ [AllocatedConstant LocalsBase]))"

definition mask_op :: "allocated_abstract_op \<Rightarrow> (imm24 \<Rightarrow> allocated_register alloc_memory_op) \<Rightarrow> imm24 \<Rightarrow> string
    \<Rightarrow> allocated_abstract_op list" where
  "mask_op o' push imm text =
     (if value24 imm \<noteq> 0
      then [\<lparr>alloc_opcode = Inl (AMemory (push imm)), alloc_comment = text, alloc_owning_span = alloc_owning_span o'\<rparr>]
      else [])"

definition expand_section ::
  "'id fuel_regs \<Rightarrow> ('id \<Rightarrow> u8) \<Rightarrow> (label \<rightharpoonup> allocated_register list) \<Rightarrow> allocated_abstract_op
    \<Rightarrow> allocated_abstract_op list result" where
  "expand_section fuel reg_u8 reg_sets o' =
     (case alloc_opcode o' of
        Inr (PushAll label) \<Rightarrow>
          bindE (saved_registers reg_sets label) (\<lambda>regs.
          bindE (generate_mask fuel reg_u8 regs) (\<lambda>(mask_l, mask_h).
          Inr (mask_op o' PSHL mask_l ''save registers 16..40'' @ mask_op o' PSHH mask_h ''save registers 40..64'')))
      | Inr (PopAll label) \<Rightarrow>
          bindE (saved_registers reg_sets label) (\<lambda>regs.
          bindE (generate_mask fuel reg_u8 regs) (\<lambda>(mask_l, mask_h).
          Inr (mask_op o' POPH mask_h ''restore registers 40..64'' @ mask_op o' POPL mask_l ''restore registers 16..40'')))
      | _ \<Rightarrow> Inr [o'])"

definition emit_pusha_popa ::
  "'id fuel_regs \<Rightarrow> ('id \<Rightarrow> u8) \<Rightarrow> allocated_abstract_op list \<Rightarrow> allocated_abstract_op list result" where
  "emit_pusha_popa fuel reg_u8 ops =
     bindE (register_sets ops) (\<lambda>reg_sets.
     foldM (\<lambda>o' new_ops. bindE (expand_section fuel reg_u8 reg_sets o') (\<lambda>os. Inr (new_ops @ os))) ops [])"

section \<open>Sizes and offsets\<close>

text \<open>\<^verbatim>\<open>Imm12::MAX\<close>, the largest immediate of 12 bits.\<close>

definition IMM12_MAX :: nat where
  "IMM12_MAX = 4095"

definition instruction_size :: "allocated_abstract_op \<Rightarrow> data_section \<Rightarrow> u64 result" where
  "instruction_size o' data_section =
     (case alloc_opcode o' of
        Inr (Label _) \<Rightarrow> Inr 0
      | Inl (ANonVm (LoadDataId _ data_id)) \<Rightarrow>
          bindE (unwrap_or_panic ''Internal miscalculation in data section -- data id did not match up to any actual data''
            (data_has_copy_type data_section data_id)) (\<lambda>has_copy_type. Inr (if has_copy_type then 1 else 2))
      | Inl (ANonVm (AddrDataId _ did)) \<Rightarrow>
          Inr (if data_id_to_offset data_section did > IMM12_MAX then 2 else 1)
      | Inl (AMemory (alloc_memory_op.CFEI imm)) \<Rightarrow> Inr (if value24 imm = 0 then 0 else 1)
      | Inl (AMemory (alloc_memory_op.CFSI imm)) \<Rightarrow> Inr (if value24 imm = 0 then 0 else 1)
      | Inl (ANonVm (BLOB count)) \<Rightarrow> Inr (ucast (value24 count))
      | Inl _ \<Rightarrow> Inr 1
      | Inr (Jump _) \<Rightarrow> Inr 1
      | Inr (JumpIfNotZero _ _) \<Rightarrow> Inr 1
      | Inr (Call _) \<Rightarrow> Inr 1
      | Inr (LoadLabel _ _) \<Rightarrow> Inr 1
      | Inr (SaveRetAddr _ _) \<Rightarrow> Inr 3
      | Inr Comment \<Rightarrow> Inr 0
      | Inr control_flow_op.DataSectionOffsetPlaceholder \<Rightarrow> Inr 2
      | Inr control_flow_op.ConfigurablesOffsetPlaceholder \<Rightarrow> Inr 2
      | Inr (PushAll _) \<Rightarrow> Inl (Panic ''fix me, pushall and popall do not really belong in control flow ops'')
      | Inr (PopAll _) \<Rightarrow> Inl (Panic ''fix me, pushall and popall do not really belong in control flow ops''))"

text \<open>
  The offsets of the labels and the jumps with their offsets; a jump over a distance that does
  not fit, or of distance zero, has to be rewritten.
\<close>

record label_scan =
  labelled_blocks :: "label \<rightharpoonup> u64"
  cur_offset :: u64
  cur_basic_block :: "(label \<times> nat \<times> u64) option"
  jnz_labels :: "(u64 \<times> label) list"
  jmp_labels :: "(u64 \<times> label) list"

definition close_block :: "label_scan \<Rightarrow> label_scan" where
  "close_block s =
     (case cur_basic_block s of
        Some (lab, _, offs) \<Rightarrow> s\<lparr>labelled_blocks := (labelled_blocks s)(lab \<mapsto> offs)\<rparr>
      | None \<Rightarrow> s)"

definition label_scan_op :: "data_section \<Rightarrow> nat \<times> allocated_abstract_op \<Rightarrow> label_scan \<Rightarrow> label_scan result" where
  "label_scan_op data_section = (\<lambda>(op_idx, o') s.
     let s = (case alloc_opcode o' of
                Inr (Label _) \<Rightarrow> close_block s
              | Inr (Jump _) \<Rightarrow> close_block s
              | Inr (JumpIfNotZero _ _) \<Rightarrow> close_block s
              | _ \<Rightarrow> s);
         s = (case alloc_opcode o' of
                Inr (Label cur_lab) \<Rightarrow> s\<lparr>cur_basic_block := Some (cur_lab, op_idx, cur_offset s)\<rparr>
              | Inr (Jump lab) \<Rightarrow> s\<lparr>jmp_labels := push_if_absent (cur_offset s, lab) (jmp_labels s)\<rparr>
              | Inr (Call lab) \<Rightarrow> s\<lparr>jmp_labels := push_if_absent (cur_offset s, lab) (jmp_labels s)\<rparr>
              | Inr (JumpIfNotZero _ lab) \<Rightarrow> s\<lparr>jnz_labels := push_if_absent (cur_offset s, lab) (jnz_labels s)\<rparr>
              | _ \<Rightarrow> s)
     in bindE (instruction_size o' data_section) (\<lambda>size.
        bindE (add_u64 (cur_offset s) size) (\<lambda>offset.
        Inr (s\<lparr>cur_offset := offset\<rparr>))))"

definition abs_diff :: "u64 \<Rightarrow> u64 \<Rightarrow> u64" where
  "abs_diff a b = (if a < b then b - a else a - b)"

definition rel_offset :: "(label \<rightharpoonup> u64) \<Rightarrow> u64 \<Rightarrow> label \<Rightarrow> u64 result" where
  "rel_offset label_offsets curr_offset lab =
     bindE (unwrap_or_panic ''called unwrap on a None value'' (label_offsets lab)) (\<lambda>offs.
     Inr (abs_diff offs curr_offset))"

fun any_needs_remap :: "(label \<rightharpoonup> u64) \<Rightarrow> u64 \<Rightarrow> (u64 \<times> label) list \<Rightarrow> bool result" where
  "any_needs_remap blocks limit [] = Inr False"
| "any_needs_remap blocks limit ((offset, lab) # jumps) =
     bindE (rel_offset blocks offset lab) (\<lambda>rel.
     if rel = 0 \<or> rel > limit then Inr True else any_needs_remap blocks limit jumps)"

definition map_label_offsets ::
  "allocated_abstract_op list \<Rightarrow> data_section \<Rightarrow> (bool \<times> (label \<rightharpoonup> u64)) result" where
  "map_label_offsets ops data_section =
     bindE (foldM (label_scan_op data_section) (enumerate 0 ops)
         \<lparr>labelled_blocks = Map.empty, cur_offset = 0, cur_basic_block = None, jnz_labels = [], jmp_labels = []\<rparr>)
       (\<lambda>s. let blocks = labelled_blocks (close_block s) in
        bindE (any_needs_remap blocks EIGHTEEN_BITS (jmp_labels s)) (\<lambda>far_jmp.
        bindE (if far_jmp then Inr True else any_needs_remap blocks TWELVE_BITS (jnz_labels s)) (\<lambda>remap.
        Inr (remap, blocks))))"

section \<open>Far jumps\<close>

definition scratch_register :: allocated_register where
  "scratch_register = AllocatedConstant Scratch"

definition zero_register :: allocated_register where
  "zero_register = AllocatedConstant Zero"

definition load_label_op :: "label \<Rightarrow> allocated_abstract_op" where
  "load_label_op lab = \<lparr>alloc_opcode = Inr (LoadLabel scratch_register lab), alloc_comment = [], alloc_owning_span = None\<rparr>"

definition noop_op :: allocated_abstract_op where
  "noop_op = \<lparr>alloc_opcode = Inl (AAlu NOOP), alloc_comment = ''emit noop for self loop'', alloc_owning_span = None\<rparr>"

definition far_jump :: "bool \<Rightarrow> allocated_opcode result" where
  "far_jump backward =
     bindE (imm18_new_unchecked 0 ''zero must fit in 18 bits'') (\<lambda>imm.
     Inr (AControlFlow (if backward then JMPB scratch_register imm else JMPF scratch_register imm)))"

definition far_jnz :: "bool \<Rightarrow> allocated_register \<Rightarrow> allocated_opcode result" where
  "far_jnz backward r1 =
     bindE (imm12_new_unchecked 0 ''zero must fit in 12 bits'') (\<lambda>imm.
     Inr (AControlFlow (if backward then JNZB r1 scratch_register imm else JNZF r1 scratch_register imm)))"

text \<open>
  What replaces a jump to a label; the flag says whether it differs from the jump. The last
  argument makes the jump that goes through the scratch register.
\<close>

definition rewrite_jump ::
  "(label \<rightharpoonup> u64) \<Rightarrow> u64 \<Rightarrow> u64 \<Rightarrow> allocated_abstract_op \<Rightarrow> label \<Rightarrow> (bool \<Rightarrow> allocated_opcode result)
    \<Rightarrow> (allocated_abstract_op list \<times> bool) result" where
  "rewrite_jump label_offsets curr_offset limit o' lab far =
     bindE (rel_offset label_offsets curr_offset lab) (\<lambda>rel.
     if rel = 0 then Inr ([noop_op, o'], True)
     else if rel - 1 \<le> limit then Inr ([o'], False)
     else
       bindE (unwrap_or_panic ''called unwrap on a None value'' (label_offsets lab)) (\<lambda>offs.
       bindE (far (curr_offset > offs)) (\<lambda>jump.
       Inr ([load_label_op lab, o'\<lparr>alloc_opcode := Inl jump\<rparr>], True))))"

definition rewrite_far_op ::
  "(label \<rightharpoonup> u64) \<Rightarrow> u64 \<Rightarrow> allocated_abstract_op \<Rightarrow> (allocated_abstract_op list \<times> bool) result" where
  "rewrite_far_op label_offsets curr_offset o' =
     (case alloc_opcode o' of
        Inr (Jump lab) \<Rightarrow> rewrite_jump label_offsets curr_offset EIGHTEEN_BITS o' lab far_jump
      | Inr (Call lab) \<Rightarrow> rewrite_jump label_offsets curr_offset EIGHTEEN_BITS o' lab far_jump
      | Inr (JumpIfNotZero r1 lab) \<Rightarrow>
          rewrite_jump label_offsets curr_offset TWELVE_BITS o' lab (\<lambda>backward. far_jnz backward r1)
      | Inr (SaveRetAddr _ lab) \<Rightarrow>
          bindE (rel_offset label_offsets curr_offset lab) (\<lambda>rel.
          if rel \<le> TWELVE_BITS then Inr ([o'], False)
          else Inl (Panic ''Return to address must be right after the call for which we saved this address.''))
      | _ \<Rightarrow> Inr ([o'], False))"

fun rewrite_far_loop ::
  "(label \<rightharpoonup> u64) \<Rightarrow> data_section \<Rightarrow> u64 \<Rightarrow> allocated_abstract_op list \<Rightarrow> (allocated_abstract_op list \<times> bool) result" where
  "rewrite_far_loop label_offsets data_section curr_offset [] = Inr ([], False)"
| "rewrite_far_loop label_offsets data_section curr_offset (o' # ops) =
     bindE (instruction_size o' data_section) (\<lambda>op_size.
     bindE (rewrite_far_op label_offsets curr_offset o') (\<lambda>(new, modified).
     bindE (add_u64 curr_offset op_size) (\<lambda>curr_offset.
     bindE (rewrite_far_loop label_offsets data_section curr_offset ops) (\<lambda>(rest, more).
     Inr (new @ rest, modified \<or> more)))))"

definition rewrite_far_jumps ::
  "(label \<rightharpoonup> u64) \<Rightarrow> data_section \<Rightarrow> allocated_abstract_op list \<Rightarrow> (allocated_abstract_op list \<times> bool) result" where
  "rewrite_far_jumps label_offsets data_section ops = rewrite_far_loop label_offsets data_section 0 ops"

text \<open>The instructions after all rewriting, with the offsets of their labels.\<close>

function resolve_labels ::
  "data_section \<Rightarrow> nat \<Rightarrow> allocated_abstract_op list \<Rightarrow> (allocated_abstract_op list \<times> (label \<rightharpoonup> u64)) result" where
  "resolve_labels data_section iter_count ops =
     (if iter_count > 10 then Inl (Internal ''Failed to resolve ASM label offsets.'')
      else
        (case map_label_offsets ops data_section of
           Inl e \<Rightarrow> Inl e
         | Inr (remap_needed, label_offsets) \<Rightarrow>
             if \<not> remap_needed then Inr (ops, label_offsets)
             else
               (case rewrite_far_jumps label_offsets data_section ops of
                  Inl e \<Rightarrow> Inl e
                | Inr (ops', modified) \<Rightarrow>
                    if \<not> modified then Inr (ops', label_offsets)
                    else resolve_labels data_section (iter_count + 1) ops')))"
  by pat_completeness auto
termination
  by (relation "measure (\<lambda>(_, iter_count, _). 11 - iter_count)") auto

declare resolve_labels.simps [simp del]

section \<open>Labels become distances\<close>

record realized_op =
  realized_opcode :: allocated_opcode
  realized_span :: "span option"
  realized_comment :: string

definition realized_like :: "allocated_abstract_op \<Rightarrow> allocated_opcode \<Rightarrow> realized_op" where
  "realized_like o' oc =
     \<lparr>realized_opcode = oc, realized_span = alloc_owning_span o', realized_comment = alloc_comment o'\<rparr>"

definition prev_is_noop :: "allocated_abstract_op list \<Rightarrow> nat \<Rightarrow> bool result" where
  "prev_is_noop ops op_idx =
     (if op_idx = 0 then Inl (Panic ''attempt to subtract with overflow'')
      else bindE (nth_or_panic ops (op_idx - 1)) (\<lambda>o'.
        Inr (case alloc_opcode o' of Inl (AAlu NOOP) \<Rightarrow> True | _ \<Rightarrow> False)))"

definition next_is_relative :: "allocated_abstract_op list \<Rightarrow> nat \<Rightarrow> bool result" where
  "next_is_relative ops op_idx =
     bindE (nth_or_panic ops (op_idx + 1)) (\<lambda>o'.
     Inr (case alloc_opcode o' of
        Inl (AControlFlow (JMPB _ _)) \<Rightarrow> True
      | Inl (AControlFlow (JNZB _ _ _)) \<Rightarrow> True
      | Inl (AControlFlow (JMPF _ _)) \<Rightarrow> True
      | Inl (AControlFlow (JNZF _ _ _)) \<Rightarrow> True
      | _ \<Rightarrow> False))"

text \<open>
  A jump over the distance to a label; \<open>imm\<close> makes the immediate, \<open>backward\<close> and \<open>forward\<close> the
  instruction. The distance is one more than the immediate.
\<close>

definition realize_jump ::
  "(label \<rightharpoonup> u64) \<Rightarrow> allocated_abstract_op list \<Rightarrow> nat \<Rightarrow> u64 \<Rightarrow> label \<Rightarrow> (u64 \<Rightarrow> 'i result)
    \<Rightarrow> ('i \<Rightarrow> 'a) \<Rightarrow> ('i \<Rightarrow> 'a) \<Rightarrow> 'a result" where
  "realize_jump label_offsets ops op_idx curr_offset lab imm backward forward =
     bindE (unwrap_or_panic ''called unwrap on a None value'' (label_offsets lab)) (\<lambda>offs.
     if curr_offset = offs then
       bindE (prev_is_noop ops op_idx) (\<lambda>b.
       bindE (assert_or_panic b) (\<lambda>_.
       bindE (imm 0) (\<lambda>i. Inr (backward i))))
     else
       bindE (rel_offset label_offsets curr_offset lab) (\<lambda>rel.
       bindE (sub_u64 rel 1) (\<lambda>raw.
       bindE (imm raw) (\<lambda>i.
       Inr (if curr_offset > offs then backward i else forward i)))))"

definition jump_imm :: "u64 \<Rightarrow> imm18 result" where
  "jump_imm raw = imm18_new_unchecked raw ''Programs with more than 2^18 labels are unsupported right now''"

definition jnz_imm :: "u64 \<Rightarrow> imm12 result" where
  "jnz_imm raw = imm12_new_unchecked raw ''Programs with more than 2^12 labels are unsupported right now''"

definition realize_op ::
  "(label \<rightharpoonup> u64) \<Rightarrow> allocated_abstract_op list \<Rightarrow> nat \<Rightarrow> allocated_abstract_op \<Rightarrow> u64 \<Rightarrow> data_section
    \<Rightarrow> (realized_op list \<times> data_section) result" where
  "realize_op label_offsets ops op_idx o' curr_offset data_section =
     (case alloc_opcode o' of
        Inl oc \<Rightarrow> Inr ([realized_like o' oc], data_section)
      | Inr (Jump lab) \<Rightarrow>
          bindE (realize_jump label_offsets ops op_idx curr_offset lab jump_imm (JMPB zero_register) (JMPF zero_register))
            (\<lambda>j. Inr ([realized_like o' (AControlFlow j)], data_section))
      | Inr (Call lab) \<Rightarrow>
          bindE (realize_jump label_offsets ops op_idx curr_offset lab jump_imm (JMPB zero_register) (JMPF zero_register))
            (\<lambda>j. Inr ([realized_like o' (AControlFlow j)], data_section))
      | Inr (JumpIfNotZero r1 lab) \<Rightarrow>
          bindE (realize_jump label_offsets ops op_idx curr_offset lab jnz_imm (JNZB r1 zero_register) (JNZF r1 zero_register))
            (\<lambda>j. Inr ([realized_like o' (AControlFlow j)], data_section))
      | Inr (SaveRetAddr r1 lab) \<Rightarrow>
          bindE (rel_offset label_offsets curr_offset lab) (\<lambda>rel.
          bindE (imm12_new_unchecked rel ''Programs with more than 2^12 relative offset are unsupported right now'') (\<lambda>imm.
          bindE (unwrap_or_panic ''called unwrap on a None value'' (label_offsets lab)) (\<lambda>offs.
          bindE (assert_or_panic (curr_offset < offs)) (\<lambda>_.
          bindE (imm12_new_unchecked 2 ''two must fit in 12 bits'') (\<lambda>two.
          Inr ([\<lparr>realized_opcode = AAlu (SUB r1 (AllocatedConstant ProgramCounter) (AllocatedConstant InstructionStart)),
                 realized_span = alloc_owning_span o',
                 realized_comment = ''get current instruction offset from instructions start ($is)''\<rparr>,
                \<lparr>realized_opcode = AAlu (SRLI r1 r1 two), realized_span = alloc_owning_span o',
                 realized_comment = ''get current instruction offset in 32-bit words''\<rparr>,
                realized_like o' (AAlu (ADDI r1 r1 imm))], data_section))))))
      | Inr control_flow_op.DataSectionOffsetPlaceholder \<Rightarrow>
          Inr ([\<lparr>realized_opcode = ANonVm nonvm_op.DataSectionOffsetPlaceholder, realized_span = None, realized_comment = []\<rparr>],
            data_section)
      | Inr control_flow_op.ConfigurablesOffsetPlaceholder \<Rightarrow>
          Inr ([\<lparr>realized_opcode = ANonVm nonvm_op.ConfigurablesOffsetPlaceholder, realized_span = None, realized_comment = []\<rparr>],
            data_section)
      | Inr (LoadLabel r1 lab) \<Rightarrow>
          bindE (next_is_relative ops op_idx) (\<lambda>b.
          bindE (assert_or_panic b) (\<lambda>_.
          bindE (add_u64 curr_offset 1) (\<lambda>next_offset.
          bindE (rel_offset label_offsets next_offset lab) (\<lambda>rel.
          bindE (sub_u64 rel 1) (\<lambda>offset.
          let (data_id, data_section) = insert_data_value data_section (new_word offset EntryNonConfigurable None)
          in Inr ([realized_like o' (ANonVm (LoadDataId r1 data_id))], data_section))))))
      | Inr Comment \<Rightarrow> Inr ([], data_section)
      | Inr (Label _) \<Rightarrow> Inr ([], data_section)
      | Inr (PushAll _) \<Rightarrow> Inl (Panic ''still don't belong in organisational ops'')
      | Inr (PopAll _) \<Rightarrow> Inl (Panic ''still don't belong in organisational ops''))"

definition skipped :: "allocated_abstract_op \<Rightarrow> bool" where
  "skipped o' \<longleftrightarrow> (case alloc_opcode o' of Inr Comment \<Rightarrow> True | Inr (Label _) \<Rightarrow> True | _ \<Rightarrow> False)"

fun realize_loop ::
  "(label \<rightharpoonup> u64) \<Rightarrow> allocated_abstract_op list \<Rightarrow> nat \<Rightarrow> allocated_abstract_op list \<Rightarrow> u64 \<Rightarrow> data_section
    \<Rightarrow> (realized_op list \<times> data_section) result" where
  "realize_loop label_offsets ops op_idx [] curr_offset data_section = Inr ([], data_section)"
| "realize_loop label_offsets ops op_idx (o' # rest) curr_offset data_section =
     bindE (instruction_size o' data_section) (\<lambda>op_size.
     bindE (realize_op label_offsets ops op_idx o' curr_offset data_section) (\<lambda>(realized, data_section).
     bindE (if skipped o' then Inr curr_offset else add_u64 curr_offset op_size) (\<lambda>curr_offset.
     bindE (realize_loop label_offsets ops (Suc op_idx) rest curr_offset data_section) (\<lambda>(more, data_section).
     Inr (realized @ more, data_section)))))"

definition realize_labels ::
  "allocated_abstract_op list \<Rightarrow> data_section \<Rightarrow> (realized_op list \<times> (label \<rightharpoonup> u64) \<times> data_section) result" where
  "realize_labels ops data_section =
     bindE (resolve_labels data_section 0 ops) (\<lambda>(ops, label_offsets).
     bindE (realize_loop label_offsets ops 0 ops 0 data_section) (\<lambda>(realized_ops, data_section).
     Inr (realized_ops, label_offsets, data_section)))"

end
