(* ===== verification/Asm_Sections.thy ===== *)
theory Asm_Sections
  imports Asm_Labels
begin

text \<open>
  The registers that \<^verbatim>\<open>emit_pusha_popa\<close> saves at the beginning of a section and restores at its end
  are those that the instructions of the section write, and the base of the locals.
\<close>

section \<open>The registers of a section\<close>

definition op_writes :: "allocated_abstract_op \<Rightarrow> allocated_register set" where
  "op_writes o' = (case alloc_opcode o' of
       Inl oc \<Rightarrow> (case alloc_def_registers oc of Inr regs \<Rightarrow> set regs | Inl _ \<Rightarrow> {}) | Inr c \<Rightarrow> set (cf_def_registers c))"

text \<open>The registers written while the section of a label is open.\<close>

fun section_writes :: "label \<Rightarrow> bool \<Rightarrow> allocated_abstract_op list \<Rightarrow> allocated_register set" where
  "section_writes l active [] = {}"
| "section_writes l active (o' # ops) =
     (case alloc_opcode o' of
        Inr (PushAll l') \<Rightarrow> section_writes l (l = l' \<or> active) ops
      | Inr (PopAll l') \<Rightarrow> section_writes l (active \<and> l \<noteq> l') ops
      | _ \<Rightarrow> (if active then op_writes o' else {}) \<union> section_writes l active ops)"

definition regs_of :: "allocated_register list option \<Rightarrow> allocated_register set" where
  "regs_of x = set (unwrap_or x [])"

lemma regs_of_simps [simp]: "regs_of None = {}" "regs_of (Some xs) = set xs"
  by (simp_all add: regs_of_def unwrap_or_def)

lemma fold_active:
  "regs_of (fold (\<lambda>l m. m(l \<mapsto> insort_insert r (unwrap_or (m l) []))) act m l) =
     regs_of (m l) \<union> (if l \<in> set act then {r} else {})"
  by (induction act arbitrary: m) (auto simp: set_insort_insert regs_of_def unwrap_or_def)

lemma fold_regs:
  "regs_of (fold (\<lambda>r. fold (\<lambda>l m. m(l \<mapsto> insort_insert r (unwrap_or (m l) []))) act) regs m l) =
     regs_of (m l) \<union> (if l \<in> set act then set regs else {})"
  by (induction regs arbitrary: m) (auto simp: fold_active)

lemma section_step:
  assumes "section_op o' (m, act) = Inr (m', act')"
  shows "section_writes l (l \<in> set act) (o' # ops) \<union> regs_of (m l) = section_writes l (l \<in> set act') ops \<union> regs_of (m' l)"
proof (cases "alloc_opcode o'")
  case (Inl oc)
  then show ?thesis using assms by (auto simp: section_op_def bindE_Inr_iff fold_regs op_writes_def)
next
  case (Inr c)
  then show ?thesis using assms
    by (cases c) (auto simp: section_op_def bindE_Inr_iff fold_regs op_writes_def)
qed

lemma register_sets_exact:
  assumes "register_sets ops = Inr m"
  shows "regs_of (m l) = section_writes l False ops"
proof -
  obtain act' where run: "foldM section_op ops (Map.empty, []) = Inr (m, act')"
    using assms by (auto simp: register_sets_def bindE_Inr_iff)
  have "section_writes l (l \<in> set act) ops \<union> regs_of (m0 l) = regs_of (m l)"
    if "foldM section_op ops (m0, act) = Inr (m, act')" for m0 act
    using that
  proof (induction ops arbitrary: m0 act)
    case (Cons o' ops)
    then obtain m1 act1 where 1: "section_op o' (m0, act) = Inr (m1, act1)" "foldM section_op ops (m1, act1) = Inr (m, act')"
      by (auto simp: bindE_Inr_iff)
    show ?case unfolding section_step [OF 1(1)] by (rule Cons.IH [OF 1(2)])
  qed simp
  from this [OF run] show ?thesis by simp
qed

section \<open>Masks\<close>

definition machine_number :: "'id fuel_regs \<Rightarrow> ('id \<Rightarrow> u8) \<Rightarrow> allocated_register \<Rightarrow> nat" where
  "machine_number fuel reg_u8 r = (case allocated_to_reg_id fuel r of Inr rid \<Rightarrow> unat (reg_u8 rid) | Inl _ \<Rightarrow> 0)"

lemma mask_bit_step:
  assumes "mask_bit fuel reg_u8 r (l, h) = Inr (l', h')" "k < 24"
  shows "bit l' k \<longleftrightarrow> bit l k \<or> machine_number fuel reg_u8 r = 16 + k"
    "bit h' k \<longleftrightarrow> bit h k \<or> machine_number fuel reg_u8 r = 40 + k"
proof -
  obtain rid where rid: "allocated_to_reg_id fuel r = Inr rid" "16 \<le> reg_u8 rid" "reg_u8 rid < 64"
      "(l', h') = (if reg_u8 rid - 16 < 24 then (l OR push_bit (unat (reg_u8 rid - 16)) 1, h)
        else (l, h OR push_bit (unat (reg_u8 rid - 16 - 24)) 1))"
    using assms(1) by (auto simp: mask_bit_def bindE_Inr_iff assert_or_panic_def Let_def split: if_splits)
  let ?n = "unat (reg_u8 rid)"
  have n: "16 \<le> ?n" "?n < 64" using rid(2,3) by (simp_all add: word_le_nat_alt word_less_nat_alt)
  have low: "unat (reg_u8 rid - 16) = ?n - 16" using rid(2) by (simp add: unat_sub)
  have high: "unat (reg_u8 rid - 16 - 24) = ?n - 40" if "\<not> reg_u8 rid - 16 < 24"
  proof -
    have "24 \<le> reg_u8 rid - 16" using that by simp
    from unat_sub [OF this] low show ?thesis by simp
  qed
  have one: "bit (2 ^ m :: u64) k \<longleftrightarrow> k = m" for m using assms(2) by (auto simp: bit_exp_iff)
  show "bit l' k \<longleftrightarrow> bit l k \<or> machine_number fuel reg_u8 r = 16 + k"
    "bit h' k \<longleftrightarrow> bit h k \<or> machine_number fuel reg_u8 r = 40 + k"
    using rid(1,4) n low high assms(2)
    by (auto simp: machine_number_def bit_or_iff one word_less_nat_alt split: if_splits)
qed

lemma mask_bits:
  assumes "foldM (mask_bit fuel reg_u8) regs (l, h) = Inr (l', h')" "k < 24"
  shows "(bit l' k \<longleftrightarrow> bit l k \<or> (\<exists>r \<in> set regs. machine_number fuel reg_u8 r = 16 + k))
    \<and> (bit h' k \<longleftrightarrow> bit h k \<or> (\<exists>r \<in> set regs. machine_number fuel reg_u8 r = 40 + k))"
  using assms(1)
proof (induction regs arbitrary: l h)
  case (Cons r regs)
  then obtain l1 h1 where 1: "mask_bit fuel reg_u8 r (l, h) = Inr (l1, h1)" "foldM (mask_bit fuel reg_u8) regs (l1, h1) = Inr (l', h')"
    by (auto simp: bindE_Inr_iff)
  then show ?case using Cons.IH [OF 1(2)] mask_bit_step [OF 1(1) assms(2)] by auto
qed simp

text \<open>Two masks that select the machine numbers of a set of registers.\<close>

definition masks_select :: "'id fuel_regs \<Rightarrow> ('id \<Rightarrow> u8) \<Rightarrow> allocated_register set \<Rightarrow> imm24 \<Rightarrow> imm24 \<Rightarrow> bool" where
  "masks_select fuel reg_u8 regs mask_l mask_h \<longleftrightarrow>
     (\<forall>k < 24. (bit (value24 mask_l) k \<longleftrightarrow> (\<exists>r \<in> regs. machine_number fuel reg_u8 r = 16 + k))
       \<and> (bit (value24 mask_h) k \<longleftrightarrow> (\<exists>r \<in> regs. machine_number fuel reg_u8 r = 40 + k)))"

lemma expect_ok_Inr [simp]: "expect_ok msg r = Inr x \<longleftrightarrow> r = Inr x"
  by (cases r) (auto simp: expect_ok_def)

lemma imm24_bits: "imm24_new raw = Inr m \<Longrightarrow> k < 24 \<Longrightarrow> bit (value24 m) k \<longleftrightarrow> bit raw k"
  by (auto simp: imm24_new_def TWENTY_FOUR_BITS_def try_into_def unwrap_or_panic_def bit_simps split: if_splits)

lemma generate_mask_selects:
  assumes "generate_mask fuel reg_u8 regs = Inr (mask_l, mask_h)"
  shows "masks_select fuel reg_u8 (set regs) mask_l mask_h"
proof -
  obtain l h where lh: "foldM (mask_bit fuel reg_u8) regs (0, 0) = Inr (l, h)" "imm24_new l = Inr mask_l" "imm24_new h = Inr mask_h"
    using assms by (auto simp: generate_mask_def bindE_Inr_iff expect_ok_Inr)
  show ?thesis unfolding masks_select_def
    using mask_bits [OF lh(1)] imm24_bits [OF lh(2)] imm24_bits [OF lh(3)] by simp
qed

section \<open>Sections\<close>

definition saved_at :: "allocated_abstract_op list \<Rightarrow> label \<Rightarrow> allocated_register set" where
  "saved_at ops l = {r \<in> section_writes l False ops. is_allocated r} \<union> {AllocatedConstant LocalsBase}"

lemma saved_registers_exact:
  assumes "register_sets ops = Inr m" "saved_registers m l = Inr regs"
  shows "set regs = saved_at ops l"
proof -
  obtain xs where xs: "m l = Some xs" "regs = filter is_allocated xs @ [AllocatedConstant LocalsBase]"
    using assms(2) by (auto simp: saved_registers_def bindE_Inr_iff unwrap_or_panic_def split: option.splits)
  have "set xs = section_writes l False ops" using register_sets_exact [OF assms(1), of l] xs(1) by simp
  then show ?thesis by (auto simp: xs(2) saved_at_def)
qed

definition expands_section ::
  "'id fuel_regs \<Rightarrow> ('id \<Rightarrow> u8) \<Rightarrow> allocated_abstract_op list \<Rightarrow> allocated_abstract_op \<Rightarrow> allocated_abstract_op list \<Rightarrow> bool" where
  "expands_section fuel reg_u8 ops o' new \<longleftrightarrow>
     (case alloc_opcode o' of
        Inr (PushAll l) \<Rightarrow> \<exists>mask_l mask_h. masks_select fuel reg_u8 (saved_at ops l) mask_l mask_h
          \<and> new = mask_op o' PSHL mask_l ''save registers 16..40'' @ mask_op o' PSHH mask_h ''save registers 40..64''
      | Inr (PopAll l) \<Rightarrow> \<exists>mask_l mask_h. masks_select fuel reg_u8 (saved_at ops l) mask_l mask_h
          \<and> new = mask_op o' POPH mask_h ''restore registers 40..64'' @ mask_op o' POPL mask_l ''restore registers 16..40''
      | _ \<Rightarrow> new = [o'])"

lemma expand_section_exact:
  assumes "register_sets ops = Inr m" "expand_section fuel reg_u8 m o' = Inr new"
  shows "expands_section fuel reg_u8 ops o' new"
proof -
  have "masks_select fuel reg_u8 (saved_at ops l) mask_l mask_h"
    if "saved_registers m l = Inr regs" "generate_mask fuel reg_u8 regs = Inr (mask_l, mask_h)" for l regs mask_l mask_h
    using generate_mask_selects [OF that(2)] saved_registers_exact [OF assms(1) that(1)] by simp
  then show ?thesis using assms(2)
    by (auto simp: expand_section_def expands_section_def bindE_Inr_iff split: sum.splits control_flow_op.splits) blast+
qed

text \<open>
  (C10) Calls keep registers: the instruction that opens a section becomes pushes whose masks select
  exactly the allocated registers that some instruction writes while the section is open, and the base
  of the locals; the one that closes it becomes pops with the same masks in the opposite order;
  all other instructions stay as they are.
\<close>

theorem sections_save_written_registers:
  assumes "emit_pusha_popa fuel reg_u8 ops = Inr ops'"
  shows "\<exists>segs. ops' = concat segs \<and> list_all2 (expands_section fuel reg_u8 ops) ops segs"
proof -
  obtain m where m: "register_sets ops = Inr m"
      "foldM (\<lambda>o' new_ops. bindE (expand_section fuel reg_u8 m o') (\<lambda>os. Inr (new_ops @ os))) ops [] = Inr ops'"
    using assms by (auto simp: emit_pusha_popa_def bindE_Inr_iff)
  have "\<exists>segs. out' = out @ concat segs \<and> list_all2 (expands_section fuel reg_u8 ops) xs segs"
    if "foldM (\<lambda>o' new_ops. bindE (expand_section fuel reg_u8 m o') (\<lambda>os. Inr (new_ops @ os))) xs out = Inr out'" for xs out out'
    using that
  proof (induction xs arbitrary: out)
    case (Cons x xs)
    then obtain new where new: "expand_section fuel reg_u8 m x = Inr new"
        "foldM (\<lambda>o' new_ops. bindE (expand_section fuel reg_u8 m o') (\<lambda>os. Inr (new_ops @ os))) xs (out @ new) = Inr out'"
      by (auto simp: bindE_Inr_iff)
    obtain segs where "out' = (out @ new) @ concat segs" "list_all2 (expands_section fuel reg_u8 ops) xs segs"
      using Cons.IH [OF new(2)] by blast
    then show ?case using expand_section_exact [OF m(1) new(1)] by (intro exI [of _ "new # segs"]) simp
  qed simp
  from this [OF m(2)] show ?thesis by simp
qed

definition section_sample :: "allocated_abstract_op list" where
  "section_sample = map (\<lambda>oc. \<lparr>alloc_opcode = oc, alloc_comment = [], alloc_owning_span = None\<rparr>)
     [Inr (PushAll 3), Inl (AAlu (MOVE (Allocated 2) (Allocated 1))), Inr (PopAll 3)]"

theorem sections_save_written_registers_witness:
  "\<exists>ops' segs. emit_pusha_popa example_fuel_regs (\<lambda>x. x) section_sample = Inr ops'
    \<and> ops' = concat segs \<and> list_all2 (expands_section example_fuel_regs (\<lambda>x. x) section_sample) section_sample segs"
proof -
  have "alloc_def_registers (AAlu (MOVE (Allocated 2) (Allocated 1))) = Inr [Allocated 2]" by code_simp
  then have "register_sets section_sample = Inr [3 \<mapsto> [Allocated 2]]"
    by (simp add: section_sample_def register_sets_def section_op_def push_if_absent_def vec_push_def unwrap_or_def insort_insert_key_def)
  moreover have "generate_mask example_fuel_regs (\<lambda>x. x) [Allocated 2, AllocatedConstant LocalsBase] = Inr (\<lparr>value24 = 4\<rparr>, \<lparr>value24 = 0x80000\<rparr>)"
    by (simp add: generate_mask_def mask_bit_def example_fuel_regs_def assert_or_panic_def NUM_TOTAL_REGISTERS_def and_63
        imm24_new_def TWENTY_FOUR_BITS_def try_into_def unwrap_or_panic_def expect_ok_def push_bit_eq_mult)
  ultimately obtain ops' where run: "emit_pusha_popa example_fuel_regs (\<lambda>x. x) section_sample = Inr ops'"
    by (auto simp: emit_pusha_popa_def section_sample_def expand_section_def saved_registers_def unwrap_or_panic_def)
  from sections_save_written_registers [OF this] run show ?thesis by blast
qed

end
