(* ===== verification/Asm_Encode.thy ===== *)
theory Asm_Encode
  imports Asm_Labels
begin

text \<open>
  From instructions to machine words: \<^verbatim>\<open>to_fuel_asm\<close> of \<^verbatim>\<open>allocated_ops.rs\<close>. The instruction type of
  \<^verbatim>\<open>fuel_asm\<close> is a parameter: \<open>instr_new\<close> is the constructor of the instruction with the given name,
  registers and immediate (\<^verbatim>\<open>op::ADD::new\<close> and so on), \<open>instr_bytes\<close> its bytes.
\<close>

record ('id, 'i) fuel_asm = "'id fuel_regs" +
  instr_new :: "string \<Rightarrow> 'id list \<Rightarrow> u64 option \<Rightarrow> 'i"
  instr_bytes :: "'i \<Rightarrow> u8 list"

section \<open>Names, registers and immediates\<close>

type_synonym 'r encoded = "string \<times> 'r list \<times> u64 option"

primrec encode_alu :: "'r alu_op \<Rightarrow> 'r encoded" where
  "encode_alu (ADD a b c) = (''ADD'', [a, b, c], None)"
| "encode_alu (ADDI a b c) = (''ADDI'', [a, b], Some (ucast (value12 c)))"
| "encode_alu (alu_op.AND a b c) = (''AND'', [a, b, c], None)"
| "encode_alu (ANDI a b c) = (''ANDI'', [a, b], Some (ucast (value12 c)))"
| "encode_alu (DIV a b c) = (''DIV'', [a, b, c], None)"
| "encode_alu (DIVI a b c) = (''DIVI'', [a, b], Some (ucast (value12 c)))"
| "encode_alu (EQ a b c) = (''EQ'', [a, b, c], None)"
| "encode_alu (EXP a b c) = (''EXP'', [a, b, c], None)"
| "encode_alu (EXPI a b c) = (''EXPI'', [a, b], Some (ucast (value12 c)))"
| "encode_alu (GT a b c) = (''GT'', [a, b, c], None)"
| "encode_alu (LT a b c) = (''LT'', [a, b, c], None)"
| "encode_alu (MLOG a b c) = (''MLOG'', [a, b, c], None)"
| "encode_alu (MOD a b c) = (''MOD'', [a, b, c], None)"
| "encode_alu (MODI a b c) = (''MODI'', [a, b], Some (ucast (value12 c)))"
| "encode_alu (MOVE a b) = (''MOVE'', [a, b], None)"
| "encode_alu (MOVI a b) = (''MOVI'', [a], Some (ucast (value18 b)))"
| "encode_alu (MROO a b c) = (''MROO'', [a, b, c], None)"
| "encode_alu (MUL a b c) = (''MUL'', [a, b, c], None)"
| "encode_alu (MULI a b c) = (''MULI'', [a, b], Some (ucast (value12 c)))"
| "encode_alu NOOP = (''NOOP'', [], None)"
| "encode_alu (alu_op.NOT a b) = (''NOT'', [a, b], None)"
| "encode_alu (alu_op.OR a b c) = (''OR'', [a, b, c], None)"
| "encode_alu (ORI a b c) = (''ORI'', [a, b], Some (ucast (value12 c)))"
| "encode_alu (SLL a b c) = (''SLL'', [a, b, c], None)"
| "encode_alu (SLLI a b c) = (''SLLI'', [a, b], Some (ucast (value12 c)))"
| "encode_alu (SRL a b c) = (''SRL'', [a, b, c], None)"
| "encode_alu (SRLI a b c) = (''SRLI'', [a, b], Some (ucast (value12 c)))"
| "encode_alu (SUB a b c) = (''SUB'', [a, b, c], None)"
| "encode_alu (SUBI a b c) = (''SUBI'', [a, b], Some (ucast (value12 c)))"
| "encode_alu (alu_op.XOR a b c) = (''XOR'', [a, b, c], None)"
| "encode_alu (XORI a b c) = (''XORI'', [a, b], Some (ucast (value12 c)))"
| "encode_alu (WQOP a b c d) = (''WQOP'', [a, b, c], Some (ucast (value06 d)))"
| "encode_alu (WQML a b c d) = (''WQML'', [a, b, c], Some (ucast (value06 d)))"
| "encode_alu (WQDV a b c d) = (''WQDV'', [a, b, c], Some (ucast (value06 d)))"
| "encode_alu (WQMD a b c d) = (''WQMD'', [a, b, c, d], None)"
| "encode_alu (WQCM a b c d) = (''WQCM'', [a, b, c], Some (ucast (value06 d)))"
| "encode_alu (WQAM a b c d) = (''WQAM'', [a, b, c, d], None)"
| "encode_alu (WQMM a b c d) = (''WQMM'', [a, b, c, d], None)"

primrec encode_control :: "'r alloc_control_op \<Rightarrow> 'r encoded" where
  "encode_control (alloc_control_op.JMP a) = (''JMP'', [a], None)"
| "encode_control (alloc_control_op.JI a) = (''JI'', [], Some (ucast (value24 a)))"
| "encode_control (alloc_control_op.JNE a b c) = (''JNE'', [a, b, c], None)"
| "encode_control (alloc_control_op.JNEI a b c) = (''JNEI'', [a, b], Some (ucast (value12 c)))"
| "encode_control (alloc_control_op.JNZI a b) = (''JNZI'', [a], Some (ucast (value18 b)))"
| "encode_control (JMPB a b) = (''JMPB'', [a], Some (ucast (value18 b)))"
| "encode_control (JMPF a b) = (''JMPF'', [a], Some (ucast (value18 b)))"
| "encode_control (JNZB a b c) = (''JNZB'', [a, b], Some (ucast (value12 c)))"
| "encode_control (JNZF a b c) = (''JNZF'', [a, b], Some (ucast (value12 c)))"
| "encode_control (alloc_control_op.RET a) = (''RET'', [a], None)"

primrec encode_memory :: "'r alloc_memory_op \<Rightarrow> 'r encoded" where
  "encode_memory (alloc_memory_op.ALOC a) = (''ALOC'', [a], None)"
| "encode_memory (alloc_memory_op.CFEI a) = (''CFEI'', [], Some (ucast (value24 a)))"
| "encode_memory (alloc_memory_op.CFSI a) = (''CFSI'', [], Some (ucast (value24 a)))"
| "encode_memory (alloc_memory_op.CFE a) = (''CFE'', [a], None)"
| "encode_memory (alloc_memory_op.CFS a) = (''CFS'', [a], None)"
| "encode_memory (alloc_memory_op.LB a b c) = (''LB'', [a, b], Some (ucast (value12 c)))"
| "encode_memory (alloc_memory_op.LW a b c) = (''LW'', [a, b], Some (ucast (value12 c)))"
| "encode_memory (alloc_memory_op.MCL a b) = (''MCL'', [a, b], None)"
| "encode_memory (alloc_memory_op.MCLI a b) = (''MCLI'', [a], Some (ucast (value18 b)))"
| "encode_memory (alloc_memory_op.MCP a b c) = (''MCP'', [a, b, c], None)"
| "encode_memory (alloc_memory_op.MCPI a b c) = (''MCPI'', [a, b], Some (ucast (value12 c)))"
| "encode_memory (alloc_memory_op.MEQ a b c d) = (''MEQ'', [a, b, c, d], None)"
| "encode_memory (PSHH a) = (''PSHH'', [], Some (ucast (value24 a)))"
| "encode_memory (PSHL a) = (''PSHL'', [], Some (ucast (value24 a)))"
| "encode_memory (POPH a) = (''POPH'', [], Some (ucast (value24 a)))"
| "encode_memory (POPL a) = (''POPL'', [], Some (ucast (value24 a)))"
| "encode_memory (alloc_memory_op.SB a b c) = (''SB'', [a, b], Some (ucast (value12 c)))"
| "encode_memory (alloc_memory_op.SW a b c) = (''SW'', [a, b], Some (ucast (value12 c)))"

primrec encode_contract :: "'r contract_op \<Rightarrow> 'r encoded" where
  "encode_contract (BAL a b c) = (''BAL'', [a, b, c], None)"
| "encode_contract (BHEI a) = (''BHEI'', [a], None)"
| "encode_contract (BHSH a b) = (''BHSH'', [a, b], None)"
| "encode_contract (BURN a b) = (''BURN'', [a, b], None)"
| "encode_contract (CALL a b c d) = (''CALL'', [a, b, c, d], None)"
| "encode_contract (CB a) = (''CB'', [a], None)"
| "encode_contract (CCP a b c d) = (''CCP'', [a, b, c, d], None)"
| "encode_contract (CROO a b) = (''CROO'', [a, b], None)"
| "encode_contract (CSIZ a b) = (''CSIZ'', [a, b], None)"
| "encode_contract (BSIZ a b) = (''BSIZ'', [a, b], None)"
| "encode_contract (LDC a b c d) = (''LDC'', [a, b, c], Some (ucast (value06 d)))"
| "encode_contract (BLDD a b c d) = (''BLDD'', [a, b, c, d], None)"
| "encode_contract (LOG a b c d) = (''LOG'', [a, b, c, d], None)"
| "encode_contract (LOGD a b c d) = (''LOGD'', [a, b, c, d], None)"
| "encode_contract (MINT a b) = (''MINT'', [a, b], None)"
| "encode_contract (RETD a b) = (''RETD'', [a, b], None)"
| "encode_contract (RVRT a) = (''RVRT'', [a], None)"
| "encode_contract (SMO a b c d) = (''SMO'', [a, b, c, d], None)"
| "encode_contract (SCWQ a b c) = (''SCWQ'', [a, b, c], None)"
| "encode_contract (SRW a b c) = (''SRW'', [a, b, c], None)"
| "encode_contract (SRWQ a b c d) = (''SRWQ'', [a, b, c, d], None)"
| "encode_contract (SWW a b c) = (''SWW'', [a, b, c], None)"
| "encode_contract (SWWQ a b c d) = (''SWWQ'', [a, b, c, d], None)"
| "encode_contract (TIME a b) = (''TIME'', [a, b], None)"
| "encode_contract (TR a b c) = (''TR'', [a, b, c], None)"
| "encode_contract (TRO a b c d) = (''TRO'', [a, b, c, d], None)"

primrec encode_crypto :: "'r crypto_op \<Rightarrow> 'r encoded" where
  "encode_crypto (ECK1 a b c) = (''ECK1'', [a, b, c], None)"
| "encode_crypto (ECR1 a b c) = (''ECR1'', [a, b, c], None)"
| "encode_crypto (ED19 a b c d) = (''ED19'', [a, b, c, d], None)"
| "encode_crypto (K256 a b c) = (''K256'', [a, b, c], None)"
| "encode_crypto (S256 a b c) = (''S256'', [a, b, c], None)"
| "encode_crypto (ECOP a b c d) = (''ECOP'', [a, b, c, d], None)"
| "encode_crypto (EPAR a b c d) = (''EPAR'', [a, b, c, d], None)"

primrec encode_other :: "'r other_op \<Rightarrow> 'r encoded" where
  "encode_other (ECAL a b c d) = (''ECAL'', [a, b, c, d], None)"
| "encode_other (FLAG a) = (''FLAG'', [a], None)"
| "encode_other (GM a b) = (''GM'', [a], Some (ucast (value18 b)))"
| "encode_other (GTF a b c) = (''GTF'', [a, b], Some (ucast (value12 c)))"


section \<open>Instructions\<close>

datatype 'i fuel_asm_data =
    ConfigurablesOffset "u8 list"
  | DatasectionOffset "u8 list"
  | Instructions "'i list"

definition encode ::
  "('id, 'i) fuel_asm \<Rightarrow> allocated_register encoded \<Rightarrow> 'i result" where
  "encode fuel = (\<lambda>(name, regs, imm).
     bindE (mapM (allocated_to_reg_id (fuel_regs.truncate fuel)) regs) (\<lambda>ids. Inr (instr_new fuel name ids imm)))"

definition DATA_SECTION_REGISTER :: u8 where
  "DATA_SECTION_REGISTER = NUM_TOTAL_REGISTERS - 1"

text \<open>The address of an entry of the data section.\<close>

definition addr_of ::
  "('id, 'i) fuel_asm \<Rightarrow> allocated_register \<Rightarrow> data_id \<Rightarrow> data_section \<Rightarrow> 'i list result" where
  "addr_of fuel dest data_id data_section =
     (let offset_bytes = (of_nat (data_id_to_offset data_section data_id) :: u64) in
      bindE (allocated_to_reg_id (fuel_regs.truncate fuel) dest) (\<lambda>d.
      let base = reg_id_new fuel DATA_SECTION_REGISTER in
      if offset_bytes \<le> of_nat IMM12_MAX then
        bindE (unwrap_or_panic ''unwrap'' (try_into offset_bytes :: u16 option)) (\<lambda>imm.
        Inr [instr_new fuel ''ADDI'' [d, base] (Some (ucast imm))])
      else
        bindE (unwrap_or_panic ''unwrap'' (try_into offset_bytes :: u32 option)) (\<lambda>imm.
        Inr [instr_new fuel ''MOVI'' [d] (Some (ucast imm)), instr_new fuel ''ADD'' [d, d, base] None])))"

text \<open>
  Loading an entry: the entry itself when it fits in a register, and otherwise a pointer to it,
  which was stored in the data section relative to the next instruction. The call for the pointer
  is the only recursive one; two calls are enough when pointers are words.
\<close>

fun realize_load ::
  "nat \<Rightarrow> ('id, 'i) fuel_asm \<Rightarrow> allocated_register \<Rightarrow> data_id \<Rightarrow> data_section \<Rightarrow> u64 \<Rightarrow> u64 \<Rightarrow> 'i list result" where
  "realize_load 0 fuel dest data_id data_section offset_to_data_section offset_from_instr_start = Inl OutOfFuel"
| "realize_load (Suc calls) fuel dest data_id data_section offset_to_data_section offset_from_instr_start =
     bindE (unwrap_or_panic ''Internal miscalculation in data section -- data id did not match up to any actual data''
       (data_has_copy_type data_section data_id)) (\<lambda>has_copy_type.
     bindE (unwrap_or_panic ''Internal miscalculation in data section -- data id did not match up to any actual data''
       (data_is_byte data_section data_id)) (\<lambda>is_byte.
     let offset_bytes = (of_nat (data_id_to_offset data_section data_id) :: u64) in
     bindE (assert_or_panic (offset_bytes mod 8 = 0)) (\<lambda>_.
     let offset_words = offset_bytes div 8 in
     bindE (expect_ok ''Unable to offset into the data section more than 2^12 bits.''
       (imm12_new (if is_byte then offset_bytes else offset_words))) (\<lambda>offset.
     if \<not> has_copy_type then
       bindE (sub_u64 offset_to_data_section offset_from_instr_start) (\<lambda>a.
       bindE (add_u64 a offset_bytes) (\<lambda>b.
       bindE (sub_u64 b 4) (\<lambda>pointer_offset_from_current_instr.
       bindE (unwrap_or_panic ''Pointer offset must be in data_section''
         (data_id_of_pointer data_section pointer_offset_from_current_instr)) (\<lambda>data_id_for_pointer.
       bindE (realize_load calls fuel dest data_id_for_pointer data_section offset_to_data_section offset_from_instr_start) (\<lambda>buf.
       bindE (allocated_to_reg_id (fuel_regs.truncate fuel) dest) (\<lambda>d.
       Inr (buf @ [instr_new fuel ''ADD'' [d, d, to_reg_id (fuel_regs.truncate fuel) ProgramCounter] None])))))))
     else
       bindE (allocated_to_reg_id (fuel_regs.truncate fuel) dest) (\<lambda>d.
       Inr [instr_new fuel (if is_byte then ''LB'' else ''LW'') [d, reg_id_new fuel DATA_SECTION_REGISTER]
         (Some (ucast (value12 offset)))])))))"

definition to_fuel_asm ::
  "('id, 'i) fuel_asm \<Rightarrow> allocated_opcode \<Rightarrow> u64 \<Rightarrow> u64 \<Rightarrow> data_section \<Rightarrow> 'i fuel_asm_data result" where
  "to_fuel_asm fuel oc offset_to_data_section offset_from_instr_start data_section =
     (let one = (\<lambda>e. bindE (encode fuel e) (\<lambda>i. Inr (Instructions [i]))) in
      case oc of
        AAlu op \<Rightarrow> one (encode_alu op)
      | AControlFlow op \<Rightarrow> one (encode_control op)
      | AMemory (alloc_memory_op.CFEI a) \<Rightarrow>
          if value24 a = 0 then Inr (Instructions []) else one (encode_memory (alloc_memory_op.CFEI a))
      | AMemory (alloc_memory_op.CFSI a) \<Rightarrow>
          if value24 a = 0 then Inr (Instructions []) else one (encode_memory (alloc_memory_op.CFSI a))
      | AMemory op \<Rightarrow> one (encode_memory op)
      | AContract op \<Rightarrow> one (encode_contract op)
      | ACrypto op \<Rightarrow> one (encode_crypto op)
      | AOther op \<Rightarrow> one (encode_other op)
      | ANonVm (BLOB a) \<Rightarrow> Inr (Instructions (replicate (unat (value24 a)) (instr_new fuel ''NOOP'' [] None)))
      | ANonVm nonvm_op.ConfigurablesOffsetPlaceholder \<Rightarrow> Inr (ConfigurablesOffset [0, 0, 0, 0, 0, 0, 0, 0])
      | ANonVm nonvm_op.DataSectionOffsetPlaceholder \<Rightarrow> Inr (DatasectionOffset (be_bytes 8 offset_to_data_section))
      | ANonVm (LoadDataId a b) \<Rightarrow>
          bindE (realize_load 2 fuel a b data_section offset_to_data_section offset_from_instr_start) (\<lambda>is. Inr (Instructions is))
      | ANonVm (AddrDataId a b) \<Rightarrow> bindE (addr_of fuel a b data_section) (\<lambda>is. Inr (Instructions is))
      | ANonVm Undefined \<Rightarrow> Inl (Panic ''Sway cannot generate undefined ASM opcodes''))"

end
