(* ===== verification/Asm_Bytecode.thy ===== *)
theory Asm_Bytecode
  imports Asm_Encode
begin

text \<open>
  The end of the compilation: \<^verbatim>\<open>programs/allocated.rs\<close> and \<^verbatim>\<open>programs/final.rs\<close>, which put the code of
  all functions together, \<^verbatim>\<open>finalized_asm.rs\<close>, which writes the bytes, and \<^verbatim>\<open>checks.rs\<close>. What is
  printed on the way is left out; the entries for the source map are collected in a list.
\<close>

section \<open>Programs\<close>

datatype program_kind = Contract_Program | Library_Program | Predicate_Program | Script_Program

record allocated_op =
  ao_opcode :: allocated_opcode
  ao_comment :: string
  ao_span :: "span option"

type_synonym selector_opt = "u8 list option"

definition allocated_ops :: "realized_op list \<Rightarrow> allocated_op list" where
  "allocated_ops ops =
     map (\<lambda>r. \<lparr>ao_opcode = realized_opcode r, ao_comment = realized_comment r, ao_span = realized_span r\<rparr>) ops"

record 'd allocated_program =
  ap_kind :: program_kind
  ap_data_section :: data_section
  ap_prologue :: "allocated_abstract_op list"
  ap_functions :: "allocated_abstract_op list list"
  ap_entries :: "(selector_opt \<times> label \<times> string \<times> 'd option) list"

record 'd final_program =
  fp_kind :: program_kind
  fp_data_section :: data_section
  fp_ops :: "allocated_op list"
  fp_entries :: "(selector_opt \<times> u64 \<times> string \<times> 'd option) list"

text \<open>The offset of the label of an entry is taken out of the map.\<close>

definition entry_offset ::
  "selector_opt \<times> label \<times> string \<times> 'd option
    \<Rightarrow> (selector_opt \<times> u64 \<times> string \<times> 'd option) list \<times> (label \<rightharpoonup> u64)
    \<Rightarrow> ((selector_opt \<times> u64 \<times> string \<times> 'd option) list \<times> (label \<rightharpoonup> u64)) result" where
  "entry_offset = (\<lambda>(selector, label, name, test_decl_ref) (entries, label_offsets).
     bindE (unwrap_or_panic ''no offset for entry'' (label_offsets label)) (\<lambda>offset.
     Inr (vec_push entries (selector, offset, name, test_decl_ref), label_offsets(label := None))))"

definition into_final_program :: "'d allocated_program \<Rightarrow> 'd final_program result" where
  "into_final_program self =
     bindE (realize_labels (ap_prologue self @ concat (ap_functions self)) (ap_data_section self))
       (\<lambda>(realized_ops, label_offsets, data_section).
     bindE (foldM entry_offset (ap_entries self) ([], label_offsets)) (\<lambda>(entries, _).
     Inr \<lparr>fp_kind = ap_kind self, fp_data_section = data_section, fp_ops = allocated_ops realized_ops, fp_entries = entries\<rparr>))"

record 'd finalized_entry =
  fe_fn_name :: string
  fe_imm :: u64
  fe_selector :: selector_opt
  fe_test_decl_ref :: "'d option"

record 'd finalized_asm =
  fa_data_section :: data_section
  fa_program_section :: "allocated_op list"
  fa_program_kind :: program_kind
  fa_entries :: "'d finalized_entry list"

definition finalize :: "'d final_program \<Rightarrow> 'd finalized_asm" where
  "finalize self =
     \<lparr>fa_data_section = fp_data_section self, fa_program_section = fp_ops self, fa_program_kind = fp_kind self,
      fa_entries = map (\<lambda>(selector, imm, fn_name, test_decl_ref).
        \<lparr>fe_fn_name = fn_name, fe_imm = imm, fe_selector = selector, fe_test_decl_ref = test_decl_ref\<rparr>) (fp_entries self)\<rparr>"

definition is_test :: "'d finalized_entry \<Rightarrow> bool" where
  "is_test self \<longleftrightarrow> fe_selector self = None \<and> fe_fn_name self \<noteq> ''main''"

section \<open>Bytes\<close>

definition op_size_in_bytes :: "data_section \<Rightarrow> allocated_opcode \<Rightarrow> u64 result" where
  "op_size_in_bytes data_section oc =
     (case oc of
        ANonVm (LoadDataId _ data_label) \<Rightarrow>
          bindE (unwrap_or_panic ''data label references non existent data -- internal error''
            (data_has_copy_type data_section data_label)) (\<lambda>b. Inr (if b then 4 else 8))
      | ANonVm (AddrDataId _ did) \<Rightarrow> Inr (if data_id_to_offset data_section did > IMM12_MAX then 8 else 4)
      | ANonVm nonvm_op.ConfigurablesOffsetPlaceholder \<Rightarrow> Inr 8
      | ANonVm nonvm_op.DataSectionOffsetPlaceholder \<Rightarrow> Inr 8
      | ANonVm (BLOB count) \<Rightarrow> mul_u64 (ucast (value24 count)) 4
      | AMemory (alloc_memory_op.CFEI i) \<Rightarrow> Inr (if value24 i = 0 then 0 else 4)
      | AMemory (alloc_memory_op.CFSI i) \<Rightarrow> Inr (if value24 i = 0 then 0 else 4)
      | _ \<Rightarrow> Inr 4)"

definition add_size :: "data_section \<Rightarrow> allocated_op \<Rightarrow> u64 \<Rightarrow> u64 result" where
  "add_size data_section o' acc = bindE (op_size_in_bytes data_section (ao_opcode o')) (\<lambda>sz. add_u64 acc sz)"

definition pad_ops :: "allocated_op list \<Rightarrow> u64 \<Rightarrow> (allocated_op list \<times> u64) result" where
  "pad_ops ops offset =
     (if offset AND 7 = 0 then Inr (ops, offset)
      else bindE (add_u64 offset 4) (\<lambda>offset.
        Inr (vec_push ops \<lparr>ao_opcode = AAlu NOOP, ao_comment = ''word-alignment of data section'', ao_span = None\<rparr>, offset)))"

text \<open>The pointers that loads of large entries need are put in the data section.\<close>

definition insert_pointer ::
  "u64 \<Rightarrow> allocated_op \<Rightarrow> u64 \<times> data_section \<Rightarrow> (u64 \<times> data_section) result" where
  "insert_pointer offset_to_data_section o' = (\<lambda>(offset_from_instr_start, data_section).
     bindE (case ao_opcode o' of
         ANonVm (LoadDataId _ data_label) \<Rightarrow>
           bindE (unwrap_or_panic ''data label references non existent data -- internal error''
             (data_has_copy_type data_section data_label)) (\<lambda>b.
           if b then Inr data_section
           else
             let offset_bytes = of_nat (data_id_to_offset data_section data_label) in
             bindE (sub_u64 offset_to_data_section offset_from_instr_start) (\<lambda>x.
             bindE (add_u64 x offset_bytes) (\<lambda>y.
             bindE (sub_u64 y 4) (\<lambda>pointer.
             Inr (snd (append_pointer data_section pointer))))))
       | _ \<Rightarrow> Inr data_section) (\<lambda>data_section.
     bindE (add_size data_section o' offset_from_instr_start) (\<lambda>offset_from_instr_start.
     Inr (offset_from_instr_start, data_section))))"

record bytecode_state =
  bytes :: "u8 list"
  half_word_ix :: nat
  from_instr_start :: u64
  source_spans :: "(nat \<times> span) list"

definition emit_instruction ::
  "('id, 'i) fuel_asm \<Rightarrow> span option \<Rightarrow> 'i \<Rightarrow> bytecode_state \<Rightarrow> bytecode_state" where
  "emit_instruction fuel span i s =
     s\<lparr>bytes := bytes s @ instr_bytes fuel i, half_word_ix := half_word_ix s + 1,
       source_spans := (case span of Some sp \<Rightarrow> vec_push (source_spans s) (half_word_ix s, sp) | None \<Rightarrow> source_spans s)\<rparr>"

definition emit_op ::
  "('id, 'i) fuel_asm \<Rightarrow> u64 \<Rightarrow> data_section \<Rightarrow> allocated_op \<Rightarrow> bytecode_state \<Rightarrow> bytecode_state result" where
  "emit_op fuel offset_to_data_section data_section o' s =
     bindE (to_fuel_asm fuel (ao_opcode o') offset_to_data_section (from_instr_start s) data_section) (\<lambda>fuel_op.
     bindE (add_size data_section o' (from_instr_start s)) (\<lambda>offset.
     let s = s\<lparr>from_instr_start := offset\<rparr> in
     case fuel_op of
       DatasectionOffset data \<Rightarrow> Inr (s\<lparr>bytes := bytes s @ data, half_word_ix := half_word_ix s + 2\<rparr>)
     | ConfigurablesOffset data \<Rightarrow> Inr (s\<lparr>bytes := bytes s @ data, half_word_ix := half_word_ix s + 2\<rparr>)
     | Instructions instructions \<Rightarrow> Inr (fold (emit_instruction fuel (ao_span o')) instructions s)))"

definition named_offset ::
  "data_section \<Rightarrow> u64 \<Rightarrow> nat \<times> entry \<Rightarrow> (string \<rightharpoonup> u64) \<Rightarrow> (string \<rightharpoonup> u64) result" where
  "named_offset data_section offset_to_data_section = (\<lambda>(did, entry) offsets.
     case entry_name_of entry of
       EntryNonConfigurable \<Rightarrow> Inl (Panic ''Non-configurable in configurables part of datasection'')
     | EntryConfigurable name \<Rightarrow>
         bindE (add_u64 offset_to_data_section
             (of_nat (absolute_idx_to_offset data_section (did + length (non_configurables data_section))))) (\<lambda>offset.
         Inr (offsets(name \<mapsto> offset))))"

record compiled_bytecode =
  bytecode :: "u8 list"
  named_data_section_entries_offsets :: "string \<rightharpoonup> u64"

definition to_bytecode_mut ::
  "('id, 'i) fuel_asm \<Rightarrow> allocated_op list \<Rightarrow> data_section
    \<Rightarrow> (compiled_bytecode \<times> data_section \<times> (nat \<times> span) list) result" where
  "to_bytecode_mut fuel ops data_section =
     bindE (foldM (add_size data_section) ops 0) (\<lambda>offset.
     bindE (pad_ops ops offset) (\<lambda>(ops, offset_to_data_section).
     bindE (foldM (insert_pointer offset_to_data_section) ops (0, data_section)) (\<lambda>(_, data_section).
     bindE (foldM (emit_op fuel offset_to_data_section data_section) ops
         \<lparr>bytes = [], half_word_ix = 0, from_instr_start = 0, source_spans = []\<rparr>) (\<lambda>s.
     bindE (assert_or_panic (half_word_ix s * 4 = unat offset_to_data_section)) (\<lambda>_.
     bindE (assert_or_panic (length (bytes s) = unat offset_to_data_section)) (\<lambda>_.
     bindE (foldM (named_offset data_section offset_to_data_section) (enumerate 0 (configurables data_section)) Map.empty)
       (\<lambda>named.
     Inr (\<lparr>bytecode = bytes s @ serialize_to_bytes data_section, named_data_section_entries_offsets = named\<rparr>,
       data_section, source_spans s))))))))"

definition PRELUDE_CONFIGURABLES_SIZE_IN_BYTES :: nat where
  "PRELUDE_CONFIGURABLES_SIZE_IN_BYTES = 8"

definition PRELUDE_CONFIGURABLES_OFFSET_IN_BYTES :: nat where
  "PRELUDE_CONFIGURABLES_OFFSET_IN_BYTES = 16"

definition set_bytecode_configurables_offset :: "u8 list \<Rightarrow> compiled_bytecode \<Rightarrow> compiled_bytecode result" where
  "set_bytecode_configurables_offset md compiled =
     bindE (assert_or_panic (length (bytecode compiled)
         \<ge> PRELUDE_CONFIGURABLES_OFFSET_IN_BYTES + PRELUDE_CONFIGURABLES_SIZE_IN_BYTES)) (\<lambda>_.
     Inr (compiled\<lparr>bytecode := fold (\<lambda>(index, byte) code. code[index + PRELUDE_CONFIGURABLES_OFFSET_IN_BYTES := byte])
       (enumerate 0 md) (bytecode compiled)\<rparr>))"

section \<open>Checks\<close>

datatype opcode_error =
    GMFromExternalContext span
  | MintFromExternalContext span
  | BurnFromExternalContext span
  | ContractStorageFromExternalContext span
  | InvalidOpcodeFromPredicate string span

definition get_op_span :: "allocated_op \<Rightarrow> span" where
  "get_op_span o' = unwrap_or (ao_span o') (''no span found for opcode'', 0, 1)"

text \<open>The errors that are emitted; the check succeeds when there are none.\<close>

definition script_op_errors :: "allocated_op \<Rightarrow> opcode_error list" where
  "script_op_errors o' =
     (case ao_opcode o' of
        AOther (GM _ imm) \<Rightarrow> if 1 \<le> value18 imm \<and> value18 imm \<le> 2 then [GMFromExternalContext (get_op_span o')] else []
      | AContract (MINT _ _) \<Rightarrow> [MintFromExternalContext (get_op_span o')]
      | AContract (BURN _ _) \<Rightarrow> [BurnFromExternalContext (get_op_span o')]
      | AContract (SWW _ _ _) \<Rightarrow> [ContractStorageFromExternalContext (get_op_span o')]
      | AContract (SRW _ _ _) \<Rightarrow> [ContractStorageFromExternalContext (get_op_span o')]
      | AContract (SRWQ _ _ _ _) \<Rightarrow> [ContractStorageFromExternalContext (get_op_span o')]
      | AContract (SWWQ _ _ _ _) \<Rightarrow> [ContractStorageFromExternalContext (get_op_span o')]
      | _ \<Rightarrow> [])"

definition check_script_opcodes :: "allocated_op list \<Rightarrow> opcode_error list" where
  "check_script_opcodes ops = concat (map script_op_errors ops)"

definition predicate_op_errors :: "allocated_op \<Rightarrow> opcode_error list" where
  "predicate_op_errors o' =
     (let invalid_opcode = (\<lambda>name. [InvalidOpcodeFromPredicate name (get_op_span o')]) in
      case ao_opcode o' of
        AContract (BAL _ _ _) \<Rightarrow> invalid_opcode ''BAL''
      | AContract (BHEI _) \<Rightarrow> invalid_opcode ''BHEI''
      | AContract (BHSH _ _) \<Rightarrow> invalid_opcode ''BHSH''
      | AContract (BURN _ _) \<Rightarrow> invalid_opcode ''BURN''
      | AContract (CALL _ _ _ _) \<Rightarrow> invalid_opcode ''CALL''
      | AContract (CB _) \<Rightarrow> invalid_opcode ''CB''
      | AContract (CCP _ _ _ _) \<Rightarrow> invalid_opcode ''CCP''
      | AContract (CROO _ _) \<Rightarrow> invalid_opcode ''CROO''
      | AContract (CSIZ _ _) \<Rightarrow> invalid_opcode ''CSIZ''
      | AOther (GM _ imm) \<Rightarrow> if 1 \<le> value18 imm \<and> value18 imm \<le> 2 then [GMFromExternalContext (get_op_span o')] else []
      | AContract (LOG _ _ _ _) \<Rightarrow> invalid_opcode ''LOG''
      | AContract (LOGD _ _ _ _) \<Rightarrow> invalid_opcode ''LOGD''
      | AContract (MINT _ _) \<Rightarrow> invalid_opcode ''MINT''
      | AContract (RETD _ _) \<Rightarrow> invalid_opcode ''RETD''
      | AContract (SMO _ _ _ _) \<Rightarrow> invalid_opcode ''SMO''
      | AContract (SRW _ _ _) \<Rightarrow> invalid_opcode ''SRW''
      | AContract (SRWQ _ _ _ _) \<Rightarrow> invalid_opcode ''SRWQ''
      | AContract (SWW _ _ _) \<Rightarrow> invalid_opcode ''SWW''
      | AContract (SWWQ _ _ _ _) \<Rightarrow> invalid_opcode ''SWWQ''
      | AContract (TIME _ _) \<Rightarrow> invalid_opcode ''TIME''
      | AContract (TR _ _ _) \<Rightarrow> invalid_opcode ''TR''
      | AContract (TRO _ _ _ _) \<Rightarrow> invalid_opcode ''TRO''
      | _ \<Rightarrow> [])"

definition check_predicate_opcodes :: "allocated_op list \<Rightarrow> opcode_error list" where
  "check_predicate_opcodes ops = concat (map predicate_op_errors ops)"

definition check_invalid_opcodes :: "'d finalized_asm \<Rightarrow> opcode_error list" where
  "check_invalid_opcodes asm =
     (case fa_program_kind asm of
        Contract_Program \<Rightarrow> []
      | Library_Program \<Rightarrow> []
      | Script_Program \<Rightarrow> check_script_opcodes (fa_program_section asm)
      | Predicate_Program \<Rightarrow> check_predicate_opcodes (fa_program_section asm))"

end
