(* ===== verification/Asm_Resolve.thy ===== *)
theory Asm_Resolve
  imports Asm_Labels
begin

text \<open>
  The offsets that \<^verbatim>\<open>resolve_labels\<close> computes are the places of the labels in the code that it
  leaves, every jump is near enough for its immediate, and a jump through the scratch register
  goes in the right direction.
\<close>

section \<open>Places\<close>

definition op_words :: "data_section \<Rightarrow> allocated_abstract_op \<Rightarrow> nat" where
  "op_words ds o' = (case instruction_size o' ds of Inr sz \<Rightarrow> unat sz | Inl _ \<Rightarrow> 0)"

definition words :: "data_section \<Rightarrow> allocated_abstract_op list \<Rightarrow> nat" where
  "words ds ops = sum_list (map (op_words ds) ops)"

definition alloc_label :: "allocated_abstract_op \<Rightarrow> label option" where
  "alloc_label o' = (case alloc_opcode o' of Inr (Label l) \<Rightarrow> Some l | _ \<Rightarrow> None)"

definition labels :: "allocated_abstract_op list \<Rightarrow> label list" where
  "labels ops = List.map_filter alloc_label ops"

definition label_place :: "data_section \<Rightarrow> allocated_abstract_op list \<Rightarrow> label \<Rightarrow> nat" where
  "label_place ds ops l = words ds (takeWhile (\<lambda>o'. alloc_label o' \<noteq> Some l) ops)"

lemma words_simps [simp]:
  "words ds [] = 0" "words ds (o' # ops) = op_words ds o' + words ds ops" "words ds (xs @ ys) = words ds xs + words ds ys"
  by (simp_all add: words_def)

lemma labels_simps [simp]:
  "labels [] = []" "labels (o' # ops) = (case alloc_label o' of Some l \<Rightarrow> l # labels ops | None \<Rightarrow> labels ops)"
  "labels (xs @ ys) = labels xs @ labels ys"
  by (simp_all add: labels_def List.map_filter_def split: option.splits)

lemma label_place_simps [simp]:
  "label_place ds [] l = 0"
  "label_place ds (o' # ops) l = (if alloc_label o' = Some l then 0 else op_words ds o' + label_place ds ops l)"
  by (simp_all add: label_place_def)

lemma op_words_size: "instruction_size o' ds = Inr sz \<Longrightarrow> op_words ds o' = unat sz"
  by (simp add: op_words_def)

lemma label_words [simp]: "alloc_label o' = Some l \<Longrightarrow> op_words ds o' = 0"
  by (simp add: op_words_def instruction_size_def alloc_label_def split: sum.splits control_flow_op.splits)

section \<open>Scanning the labels\<close>

text \<open>The jumps with a label, and how far they may go.\<close>

definition jump_label :: "allocated_abstract_op \<Rightarrow> (label \<times> u64) option" where
  "jump_label o' = (case alloc_opcode o' of
       Inr (Jump l) \<Rightarrow> Some (l, EIGHTEEN_BITS) | Inr (Call l) \<Rightarrow> Some (l, EIGHTEEN_BITS)
     | Inr (JumpIfNotZero _ l) \<Rightarrow> Some (l, TWELVE_BITS) | _ \<Rightarrow> None)"

definition scanned :: "label_scan \<Rightarrow> u64 \<Rightarrow> label \<Rightarrow> u64 \<Rightarrow> bool" where
  "scanned s offset l limit \<longleftrightarrow>
     (offset, l) \<in> set (jmp_labels s) \<and> limit = EIGHTEEN_BITS \<or> (offset, l) \<in> set (jnz_labels s) \<and> limit = TWELVE_BITS"

lemma label_scan_step:
  assumes "label_scan_op ds (k, o') s = Inr s'"
  shows "unat (cur_offset s') = unat (cur_offset s) + op_words ds o'"
    "labelled_blocks (close_block s') = (case alloc_label o' of
        Some l \<Rightarrow> (labelled_blocks (close_block s))(l \<mapsto> cur_offset s) | None \<Rightarrow> labelled_blocks (close_block s))"
    "jump_label o' = Some (l, limit) \<Longrightarrow> scanned s' (cur_offset s) l limit"
    "scanned s c l limit \<Longrightarrow> scanned s' c l limit"
proof -
  obtain size where size: "instruction_size o' ds = Inr size"
      "unat (cur_offset s) + unat size < 18446744073709551616" "cur_offset s' = cur_offset s + size"
    using assms
    by (auto simp: label_scan_op_def Let_def bindE_Inr_iff add_u64_iff close_block_def
        split: sum.splits control_flow_op.splits option.splits)
  then show "unat (cur_offset s') = unat (cur_offset s) + op_words ds o'"
    by (simp add: op_words_size unat_add_u64)
  show "labelled_blocks (close_block s') = (case alloc_label o' of
        Some l \<Rightarrow> (labelled_blocks (close_block s))(l \<mapsto> cur_offset s) | None \<Rightarrow> labelled_blocks (close_block s))"
    using assms
    by (auto simp: label_scan_op_def Let_def bindE_Inr_iff close_block_def alloc_label_def
        split: sum.splits control_flow_op.splits option.splits)
  show "jump_label o' = Some (l, limit) \<Longrightarrow> scanned s' (cur_offset s) l limit"
    using assms
    by (auto simp: label_scan_op_def Let_def bindE_Inr_iff close_block_def jump_label_def scanned_def
        split: sum.splits control_flow_op.splits option.splits)
  show "scanned s c l limit \<Longrightarrow> scanned s' c l limit"
    using assms
    by (auto simp: label_scan_op_def Let_def bindE_Inr_iff close_block_def scanned_def
        split: sum.splits control_flow_op.splits option.splits)
qed

text \<open>The offsets \<open>offs\<close> are the places of the labels of code that starts at the place \<open>p\<close>.\<close>

definition places :: "data_section \<Rightarrow> nat \<Rightarrow> allocated_abstract_op list \<Rightarrow> (label \<rightharpoonup> u64) \<Rightarrow> bool" where
  "places ds p ops offs \<longleftrightarrow>
     (\<forall>l \<in> set (labels ops). \<exists>c. offs l = Some c \<and> unat c = p + label_place ds ops l)"

lemma label_scan_ok:
  assumes "foldM (label_scan_op ds) (enumerate k ops) s = Inr s'" "distinct (labels ops)"
  shows "places ds (unat (cur_offset s)) ops (labelled_blocks (close_block s'))
    \<and> (\<forall>l. l \<notin> set (labels ops) \<longrightarrow> labelled_blocks (close_block s') l = labelled_blocks (close_block s) l)
    \<and> (\<forall>c l limit. scanned s c l limit \<longrightarrow> scanned s' c l limit)
    \<and> (\<forall>i < length ops. \<forall>l limit. jump_label (ops ! i) = Some (l, limit) \<longrightarrow>
        (\<exists>c. scanned s' c l limit \<and> unat c = unat (cur_offset s) + words ds (take i ops)))"
  using assms
proof (induction ops arbitrary: k s)
  case Nil
  then show ?case by (simp add: places_def)
next
  case (Cons o' ops)
  then obtain s1 where s1: "label_scan_op ds (k, o') s = Inr s1" "foldM (label_scan_op ds) (enumerate (Suc k) ops) s1 = Inr s'"
    by (auto simp: bindE_Inr_iff)
  note step = label_scan_step [OF s1(1)]
  have d: "distinct (labels ops)" using Cons.prems(2) by (cases "alloc_label o'") auto
  note IH = Cons.IH [OF s1(2) d]
  have places: "places ds (unat (cur_offset s)) (o' # ops) (labelled_blocks (close_block s'))"
    unfolding places_def
  proof
    fix l assume l: "l \<in> set (labels (o' # ops))"
    show "\<exists>c. labelled_blocks (close_block s') l = Some c \<and> unat c = unat (cur_offset s) + label_place ds (o' # ops) l"
    proof (cases "alloc_label o' = Some l")
      case True
      then have "l \<notin> set (labels ops)" using Cons.prems(2) by simp
      then show ?thesis using IH True step(2) by simp
    next
      case False
      then have "l \<in> set (labels ops)" using l by (auto split: option.splits)
      then show ?thesis using IH False step(1) by (auto simp: places_def)
    qed
  qed
  have outer: "labelled_blocks (close_block s') l = labelled_blocks (close_block s) l" if "l \<notin> set (labels (o' # ops))" for l
    using that IH step(2) by (auto split: option.splits)
  have jumps: "\<exists>c. scanned s' c l limit \<and> unat c = unat (cur_offset s) + words ds (take i (o' # ops))"
    if "i < length (o' # ops)" "jump_label ((o' # ops) ! i) = Some (l, limit)" for i l limit
  proof (cases i)
    case 0
    then have "scanned s' (cur_offset s) l limit" using that step(3) IH by simp
    then show ?thesis using 0 by auto
  next
    case (Suc j)
    then show ?thesis using that IH step(1) by fastforce
  qed
  show ?case using places outer jumps IH step(4) by blast
qed

lemma any_needs_remap_False:
  assumes "any_needs_remap blocks limit jumps = Inr False" "(c, l) \<in> set jumps"
  shows "\<exists>offs. blocks l = Some offs \<and> abs_diff offs c \<noteq> 0 \<and> abs_diff offs c \<le> limit"
  using assms
  by (induction blocks limit jumps rule: any_needs_remap.induct)
    (auto simp: rel_offset_def unwrap_or_panic_def bindE_Inr_iff split: if_splits option.splits)

lemma unat_abs_diff: "unat (abs_diff a b) = (if unat a < unat b then unat b - unat a else unat a - unat b)"
  by (auto simp: abs_diff_def word_less_nat_alt unat_sub word_le_nat_alt)

text \<open>A jump from a place to a label that its immediate can express.\<close>

definition near :: "(label \<rightharpoonup> u64) \<Rightarrow> nat \<Rightarrow> allocated_abstract_op \<Rightarrow> bool" where
  "near offs p o' \<longleftrightarrow> (\<forall>l limit. jump_label o' = Some (l, limit) \<longrightarrow>
     (\<exists>c. offs l = Some c \<and> unat c \<noteq> p \<and> (if unat c < p then p - unat c else unat c - p) - 1 \<le> unat limit))"

lemma near_abs_diff:
  assumes "offs l = Some c" "abs_diff c x \<noteq> 0" "abs_diff c x - 1 \<le> limit" "jump_label o' = Some (l, limit)"
  shows "near offs (unat x) o'"
proof -
  have "unat (abs_diff c x) \<noteq> 0" using assms(2) by (simp add: unat_eq_zero)
  moreover have "unat (abs_diff c x - 1) = unat (abs_diff c x) - 1" using assms(2) by (rule unat_minus_one)
  ultimately show ?thesis
    using assms(1,3,4) by (auto simp: near_def unat_abs_diff word_le_nat_alt split: if_splits)
qed

lemma map_label_offsets_ok:
  assumes "map_label_offsets ops ds = Inr (remap, offs)" "distinct (labels ops)"
  shows "places ds 0 ops offs" "dom offs = set (labels ops)"
    "\<not> remap \<Longrightarrow> i < length ops \<Longrightarrow> near offs (words ds (take i ops)) (ops ! i)"
proof -
  let ?s = "\<lparr>labelled_blocks = Map.empty, cur_offset = 0, cur_basic_block = None, jnz_labels = [], jmp_labels = []\<rparr>"
  obtain s where s: "foldM (label_scan_op ds) (enumerate 0 ops) ?s = Inr s" "offs = labelled_blocks (close_block s)"
    and near: "\<not> remap \<longrightarrow> any_needs_remap offs EIGHTEEN_BITS (jmp_labels s) = Inr False
        \<and> any_needs_remap offs TWELVE_BITS (jnz_labels s) = Inr False"
    using assms(1) by (auto simp: map_label_offsets_def Let_def bindE_Inr_iff split: if_splits)
  note scan = label_scan_ok [OF s(1) assms(2)]
  show p: "places ds 0 ops offs" using scan s(2) by simp
  show "dom offs = set (labels ops)"
    using scan s(2) p by (auto simp: places_def close_block_def dom_def)
  assume r: "\<not> remap" and i: "i < length ops"
  have le: "x - 1 \<le> limit" if "x \<noteq> 0" "x \<le> limit" for x limit :: u64
    using that by (simp add: unat_minus_one word_le_nat_alt)
  show "near offs (words ds (take i ops)) (ops ! i)"
  proof (cases "jump_label (ops ! i)")
    case (Some j)
    obtain l limit where j: "j = (l, limit)" by (cases j)
    obtain c where c: "scanned s c l limit" "unat c = words ds (take i ops)"
      using scan i Some j by force
    have "\<exists>o'. offs l = Some o' \<and> abs_diff o' c \<noteq> 0 \<and> abs_diff o' c \<le> limit"
      using c(1) near r any_needs_remap_False unfolding scanned_def by blast
    then show ?thesis using near_abs_diff [of offs l _ c limit "ops ! i"] le Some j c(2) by metis
  qed (simp add: near_def)
qed

section \<open>Rewriting far jumps\<close>

text \<open>A jump through the scratch register, and whether it goes backwards.\<close>

definition through :: "allocated_abstract_op \<Rightarrow> bool option" where
  "through o' = (case alloc_opcode o' of
       Inl (AControlFlow (JMPB r i)) \<Rightarrow> if r = scratch_register \<and> value18 i = 0 then Some True else None
     | Inl (AControlFlow (JMPF r i)) \<Rightarrow> if r = scratch_register \<and> value18 i = 0 then Some False else None
     | Inl (AControlFlow (JNZB _ r i)) \<Rightarrow> if r = scratch_register \<and> value12 i = 0 then Some True else None
     | Inl (AControlFlow (JNZF _ r i)) \<Rightarrow> if r = scratch_register \<and> value12 i = 0 then Some False else None
     | _ \<Rightarrow> None)"

text \<open>The register on which a jump depends.\<close>

definition condition :: "allocated_abstract_op \<Rightarrow> allocated_register option" where
  "condition o' = (case alloc_opcode o' of
       Inr (JumpIfNotZero r _) \<Rightarrow> Some r | Inl (AControlFlow (JNZB r _ _)) \<Rightarrow> Some r
     | Inl (AControlFlow (JNZF r _ _)) \<Rightarrow> Some r | _ \<Rightarrow> None)"

text \<open>
  Every distance to a label is loaded for a jump that follows, in the direction of the label;
  \<open>S\<close> are the labels before the code.
\<close>

fun far_ok :: "label set \<Rightarrow> allocated_abstract_op list \<Rightarrow> bool" where
  "far_ok S [] \<longleftrightarrow> True"
| "far_ok S (o' # ops) \<longleftrightarrow>
     (case alloc_opcode o' of
        Inr (LoadLabel r l) \<Rightarrow> r = scratch_register \<and>
          (case ops of
             [] \<Rightarrow> False
           | j # rest \<Rightarrow> through j = Some True \<and> l \<in> S \<or> through j = Some False \<and> l \<in> set (labels rest))
      | _ \<Rightarrow> True)
   \<and> far_ok (S \<union> set_option (alloc_label o')) ops"

lemma rewrite_far_op_cases:
  assumes "rewrite_far_op offs c o' = Inr (new, m)"
  obtains (same) "new = [o']" "\<not> m" "\<And>l limit. jump_label o' = Some (l, limit) \<Longrightarrow>
        \<exists>d. offs l = Some d \<and> abs_diff d c \<noteq> 0 \<and> abs_diff d c - 1 \<le> limit"
      "\<And>r l. alloc_opcode o' = Inr (SaveRetAddr r l) \<Longrightarrow> \<exists>d. offs l = Some d \<and> abs_diff d c \<le> TWELVE_BITS"
    | (self) "new = [noop_op, o']" "m" "jump_label o' \<noteq> None"
    | (far) j l limit d where "new = [load_label_op l, j]" "m" "jump_label o' = Some (l, limit)" "offs l = Some d"
        "unat d \<noteq> unat c" "through j = Some (unat d < unat c)" "condition j = condition o'"
proof (cases "jump_label o'")
  case None
  then show ?thesis using assms same
    by (auto simp: rewrite_far_op_def jump_label_def rel_offset_def unwrap_or_panic_def bindE_Inr_iff
        split: sum.splits control_flow_op.splits option.splits if_splits)
next
  case (Some j)
  obtain l limit where j: "j = (l, limit)" by (cases j)
  obtain far where far: "rewrite_far_op offs c o' = rewrite_jump offs c limit o' l far"
      "\<And>b oc. far b = Inr oc \<Longrightarrow> through (o'\<lparr>alloc_opcode := Inl oc\<rparr>) = Some b"
      "\<And>b oc. far b = Inr oc \<Longrightarrow> condition (o'\<lparr>alloc_opcode := Inl oc\<rparr>) = condition o'"
  proof (cases "\<exists>r. alloc_opcode o' = Inr (JumpIfNotZero r l)")
    case True
    then obtain r where "alloc_opcode o' = Inr (JumpIfNotZero r l)" by blast
    then show ?thesis using Some j that [of "\<lambda>b. far_jnz b r"]
      by (simp add: rewrite_far_op_def jump_label_def far_jnz_def through_def condition_def imm12_new_unchecked_def unwrap_or_panic_def
          try_into_def)
  next
    case False
    then show ?thesis using Some j that [of far_jump]
      by (auto simp: rewrite_far_op_def jump_label_def far_jump_def through_def condition_def imm18_new_unchecked_def unwrap_or_panic_def
          try_into_def split: sum.splits control_flow_op.splits)
  qed
  obtain d where d: "offs l = Some d"
    using assms far(1) by (auto simp: rewrite_jump_def rel_offset_def unwrap_or_panic_def bindE_Inr_iff split: option.splits)
  have noret: "alloc_opcode o' \<noteq> Inr (SaveRetAddr r l')" for r l' using Some by (auto simp: jump_label_def)
  consider "abs_diff d c = 0" | "abs_diff d c \<noteq> 0" "abs_diff d c - 1 \<le> limit" | "abs_diff d c \<noteq> 0" "\<not> abs_diff d c - 1 \<le> limit" by blast
  then show ?thesis
  proof cases
    case 1
    then show ?thesis using assms far(1) d Some j self by (auto simp: rewrite_jump_def rel_offset_def unwrap_or_panic_def)
  next
    case 2
    then show ?thesis using assms far(1) d Some j same noret by (auto simp: rewrite_jump_def rel_offset_def unwrap_or_panic_def)
  next
    case 3
    then have neq: "unat d \<noteq> unat c" by (auto simp: unat_abs_diff simp flip: unat_eq_zero)
    obtain oc where "far (c > d) = Inr oc" "new = [load_label_op l, o'\<lparr>alloc_opcode := Inl oc\<rparr>]" "m"
      using assms far(1) d 3 by (auto simp: rewrite_jump_def rel_offset_def unwrap_or_panic_def bindE_Inr_iff)
    then show ?thesis using far(2,3) [of "c > d" oc] that(3) [of l _ limit d] Some j d neq by (simp add: word_less_nat_alt)
  qed
qed

text \<open>
  What rewriting does to the code: a jump may get instructions without effect before it, or
  become a load of the distance with a jump over that distance, on the same condition.
\<close>

inductive expands :: "allocated_abstract_op list \<Rightarrow> allocated_abstract_op list \<Rightarrow> bool" where
  expands_nil: "expands [] []"
| expands_same: "expands xs ys \<Longrightarrow> expands (o' # xs) (o' # ys)"
| expands_noop: "expands (o' # xs) ys \<Longrightarrow> jump_label o' \<noteq> None \<Longrightarrow> expands (o' # xs) (noop_op # ys)"
| expands_far: "expands xs ys \<Longrightarrow> jump_label o' = Some (l, limit) \<Longrightarrow> through j \<noteq> None \<Longrightarrow> condition j = condition o'
    \<Longrightarrow> expands (o' # xs) (load_label_op l # j # ys)"

lemma expands_refl: "expands ops ops"
  by (induction ops) (auto intro: expands.intros)

lemma fixed_ops:
  "jump_label noop_op = None" "jump_label (load_label_op l) = None" "through j \<noteq> None \<Longrightarrow> jump_label j = None"
  "through j \<noteq> None \<Longrightarrow> alloc_label j = None" "alloc_label noop_op = None" "alloc_label (load_label_op l) = None"
  "jump_label o' \<noteq> None \<Longrightarrow> alloc_label o' = None"
  by (auto simp: jump_label_def noop_op_def load_label_op_def through_def alloc_label_def split: sum.splits control_flow_op.splits)

lemma expands_same_then:
  assumes "expands (o' # ys) zs" "\<And>d. expands ys d \<Longrightarrow> expands xs d"
  shows "expands (o' # xs) zs"
  using assms(1)
proof (induction "o' # ys" zs rule: expands.induct)
  case (expands_same ys')
  then show ?case using assms(2) by (auto intro: expands.expands_same)
next
  case (expands_noop ys')
  then show ?case by (auto intro: expands.expands_noop)
next
  case (expands_far ys' l limit j)
  then show ?case using assms(2) by (auto intro: expands.expands_far)
qed

lemma expands_fixed:
  assumes "expands (o' # xs) zs" "jump_label o' = None"
  obtains ys where "zs = o' # ys" "expands xs ys"
  using assms(1) by (cases rule: expands.cases) (use assms(2) that in auto)

lemma expands_trans: "expands xs ys \<Longrightarrow> expands ys zs \<Longrightarrow> expands xs zs"
proof (induction xs ys arbitrary: zs rule: expands.induct)
  case (expands_same xs ys o')
  show ?case by (rule expands_same_then [OF expands_same.prems expands_same.IH])
next
  case (expands_noop o' xs ys)
  obtain zs' where "zs = noop_op # zs'" "expands ys zs'" by (rule expands_fixed [OF expands_noop.prems fixed_ops(1)])
  then show ?case using expands_noop.IH expands_noop.hyps(2) by (auto intro: expands.expands_noop)
next
  case (expands_far xs ys o' l limit j)
  obtain zs' where z: "zs = load_label_op l # zs'" "expands (j # ys) zs'"
    by (rule expands_fixed [OF expands_far.prems fixed_ops(2)])
  obtain zs'' where "zs' = j # zs''" "expands ys zs''" by (rule expands_fixed [OF z(2) fixed_ops(3) [OF expands_far.hyps(3)]])
  then show ?case using z(1) expands_far by (auto intro: expands.expands_far)
qed simp

lemma expands_labels: "expands xs ys \<Longrightarrow> labels ys = labels xs"
  by (induction rule: expands.induct) (auto simp: fixed_ops split: option.splits)

lemma rewrite_far_loop_Cons:
  assumes "rewrite_far_loop offs ds c (o' # ops) = Inr (ops', m)"
  obtains sz new m1 rest m2 where "instruction_size o' ds = Inr sz" "rewrite_far_op offs c o' = Inr (new, m1)"
    "add_u64 c sz = Inr (c + sz)" "unat (c + sz) = unat c + op_words ds o'"
    "rewrite_far_loop offs ds (c + sz) ops = Inr (rest, m2)" "ops' = new @ rest" "m \<longleftrightarrow> m1 \<or> m2"
proof -
  obtain sz p c1 q where r: "instruction_size o' ds = Inr sz" "rewrite_far_op offs c o' = Inr p" "add_u64 c sz = Inr c1"
      "rewrite_far_loop offs ds c1 ops = Inr q" "ops' = fst p @ fst q" "m \<longleftrightarrow> snd p \<or> snd q"
    using assms by (fastforce simp: bindE_Inr_iff)
  then show ?thesis
    using that [of sz "fst p" "snd p" "fst q" "snd q"] by (auto simp: add_u64_iff op_words_size unat_add_u64)
qed

lemma rewrite_far_loop_expands: "rewrite_far_loop offs ds c ops = Inr (ops', m) \<Longrightarrow> expands ops ops'"
proof (induction ops arbitrary: c ops' m)
  case (Cons o' ops)
  from Cons.prems obtain sz new m1 rest m2 where r: "rewrite_far_op offs c o' = Inr (new, m1)"
      "rewrite_far_loop offs ds (c + sz) ops = Inr (rest, m2)" "ops' = new @ rest"
    by (rule rewrite_far_loop_Cons)
  from Cons.IH [OF r(2)] have e: "expands ops rest" .
  from r(1) show ?case
  proof (cases rule: rewrite_far_op_cases)
    case same
    then show ?thesis using e r(3) by (auto intro: expands.intros)
  next
    case self
    then show ?thesis using e r(3) by (auto intro: expands.intros)
  next
    case (far j l limit d)
    then show ?thesis using e r(3) by (auto intro: expands.expands_far)
  qed
qed (simp add: expands.expands_nil)

text \<open>The offsets of the labels before and in code that starts at a place.\<close>

definition placed :: "data_section \<Rightarrow> label set \<Rightarrow> nat \<Rightarrow> allocated_abstract_op list \<Rightarrow> (label \<rightharpoonup> u64) \<Rightarrow> bool" where
  "placed ds S p ops offs \<longleftrightarrow>
     distinct (labels ops) \<and> dom offs = S \<union> set (labels ops) \<and> places ds p ops offs
   \<and> (\<forall>l \<in> S. \<exists>c. offs l = Some c \<and> unat c \<le> p)"

lemma placed_Cons:
  assumes "placed ds S p (o' # ops) offs"
  shows "placed ds (S \<union> set_option (alloc_label o')) (p + op_words ds o') ops offs"
proof -
  have a: "distinct (labels ops)" "dom offs = S \<union> set_option (alloc_label o') \<union> set (labels ops)"
    using assms by (auto simp: placed_def split: option.splits)
  have b: "places ds (p + op_words ds o') ops offs"
    using assms by (fastforce simp: placed_def places_def split: option.splits if_splits)
  have "\<exists>c. offs l = Some c \<and> unat c \<le> p + op_words ds o'" if "l \<in> S \<union> set_option (alloc_label o')" for l
  proof (cases "l \<in> S")
    case False
    then have "alloc_label o' = Some l" using that by auto
    then show ?thesis using assms by (auto simp: placed_def places_def)
  qed (use assms in \<open>fastforce simp: placed_def\<close>)
  then show ?thesis using a b by (simp add: placed_def)
qed

lemma placed_direction:
  assumes "placed ds S p (o' # ops) offs" "offs l = Some d" "unat d \<noteq> p" "alloc_label o' = None"
  shows "unat d < p \<and> l \<in> S \<or> p < unat d \<and> l \<in> set (labels ops)"
proof -
  have "l \<in> S \<union> set (labels ops)" using assms(1,2,4) by (auto simp: placed_def)
  moreover have "unat d \<le> p" if "l \<in> S" using assms(1,2) that by (fastforce simp: placed_def)
  moreover have "p \<le> unat d" if "l \<in> set (labels ops)"
    using assms(1,2,4) that by (fastforce simp: placed_def places_def)
  ultimately show ?thesis using assms(3) by force
qed

lemma far_ok_through: "far_ok S (j # ops) \<Longrightarrow> through j \<noteq> None \<Longrightarrow> far_ok S ops"
  using fixed_ops(4) [of j] by simp

lemma rewrite_far_loop_far_ok:
  assumes "rewrite_far_loop offs ds c ops = Inr (ops', m)" "placed ds S (unat c) ops offs" "far_ok S ops"
  shows "far_ok S ops'"
  using assms
proof (induction ops arbitrary: S c ops' m)
  case (Cons o' ops)
  from Cons.prems(1) obtain sz new m1 rest m2 where r: "rewrite_far_op offs c o' = Inr (new, m1)"
      "unat (c + sz) = unat c + op_words ds o'" "rewrite_far_loop offs ds (c + sz) ops = Inr (rest, m2)" "ops' = new @ rest"
    by (rule rewrite_far_loop_Cons)
  have l: "labels rest = labels ops" using rewrite_far_loop_expands [OF r(3)] by (rule expands_labels)
  have IH: "far_ok (S \<union> set_option (alloc_label o')) rest"
    using Cons.IH [OF r(3)] placed_Cons [OF Cons.prems(2)] Cons.prems(3) r(2) by simp
  from r(1) show ?case
  proof (cases rule: rewrite_far_op_cases)
    case same
    show ?thesis
    proof (cases "\<exists>q k. alloc_opcode o' = Inr (LoadLabel q k)")
      case True
      then obtain q k where q: "alloc_opcode o' = Inr (LoadLabel q k)" by blast
      then obtain j ops1 where k: "alloc_opcode o' = Inr (LoadLabel q k)" "q = scratch_register" "ops = j # ops1"
          "through j = Some True \<and> k \<in> S \<or> through j = Some False \<and> k \<in> set (labels ops1)"
        using Cons.prems(3) by (cases ops) auto
      have j: "through j \<noteq> None" using k(4) by auto
      have "expands (j # ops1) rest" using rewrite_far_loop_expands [OF r(3)] k(3) by simp
      then obtain rest1 where r1: "rest = j # rest1" "expands ops1 rest1" by (rule expands_fixed [OF _ fixed_ops(3) [OF j]])
      then show ?thesis using same(1) r(4) k IH expands_labels [OF r1(2)] by auto
    next
      case False
      then show ?thesis using same(1) r(4) IH by (auto split: sum.splits control_flow_op.splits)
    qed
  next
    case self
    then have "\<exists>p. jump_label o' = Some p" "alloc_label o' = None" using fixed_ops(7) by auto
    then show ?thesis using self(1) r(4) IH
      by (auto simp: noop_op_def jump_label_def alloc_label_def split: sum.splits control_flow_op.splits)
  next
    case (far j l' limit d)
    have o': "alloc_label o' = None" using far(3) fixed_ops(7) by simp
    have j: "through j \<noteq> None" "alloc_label j = None" "\<exists>oc. alloc_opcode j = Inl oc"
      using far(6) fixed_ops(4) [of j] by (auto simp: through_def split: sum.splits)
    have "unat d < unat c \<and> l' \<in> S \<or> unat c < unat d \<and> l' \<in> set (labels ops)"
      using placed_direction [OF Cons.prems(2) far(4,5) o'] .
    then show ?thesis using far(1,6) r(4) IH o' j l by (auto simp: load_label_op_def alloc_label_def)
  qed
qed simp

lemma rewrite_far_loop_near:
  assumes "rewrite_far_loop offs ds c ops = Inr (ops', False)"
  shows "ops' = ops \<and> (\<forall>i < length ops. near offs (unat c + words ds (take i ops)) (ops ! i))"
  using assms
proof (induction ops arbitrary: c ops')
  case (Cons o' ops)
  from Cons.prems obtain sz new m1 rest m2 where r: "rewrite_far_op offs c o' = Inr (new, m1)"
      "unat (c + sz) = unat c + op_words ds o'" "rewrite_far_loop offs ds (c + sz) ops = Inr (rest, m2)" "ops' = new @ rest"
      "False \<longleftrightarrow> m1 \<or> m2"
    by (rule rewrite_far_loop_Cons)
  have IH: "rest = ops \<and> (\<forall>i < length ops. near offs (unat (c + sz) + words ds (take i ops)) (ops ! i))"
    using Cons.IH r(3,5) by simp
  from r(1) have new: "new = [o'] \<and> near offs (unat c) o'"
  proof (cases rule: rewrite_far_op_cases)
    case same
    then show ?thesis using near_abs_diff [of offs _ _ c _ o'] by (cases "jump_label o'") (fastforce simp: near_def)+
  qed (use r(5) in simp_all)
  show ?case
  proof (intro conjI allI impI)
    show "ops' = o' # ops" using new IH r(4) by simp
    fix i assume "i < length (o' # ops)"
    then show "near offs (unat c + words ds (take i (o' # ops))) ((o' # ops) ! i)"
      using new IH r(2) by (cases i) (simp_all add: add.assoc)
  qed
qed simp

lemma resolve_labels_ok:
  assumes "resolve_labels ds k ops = Inr (ops', offs)" "distinct (labels ops)" "far_ok {} ops"
  shows "expands ops ops' \<and> places ds 0 ops' offs \<and> dom offs = set (labels ops') \<and> far_ok {} ops'
    \<and> (\<forall>i < length ops'. near offs (words ds (take i ops')) (ops' ! i))"
  using assms
proof (induction ds k ops rule: resolve_labels.induct)
  case (1 ds k ops)
  obtain remap offs1 where m: "map_label_offsets ops ds = Inr (remap, offs1)" "\<not> k > 10"
    using "1.prems"(1) by (subst (asm) resolve_labels.simps) (auto split: if_splits sum.splits)
  note ok = map_label_offsets_ok [OF m(1) "1.prems"(2)]
  have placed: "placed ds {} 0 ops offs1" using ok(1,2) "1.prems"(2) by (simp add: placed_def)
  show ?case
  proof (cases remap)
    case False
    then have "ops' = ops" "offs = offs1"
      using "1.prems"(1) m by (subst (asm) resolve_labels.simps, simp)+
    then show ?thesis using ok False "1.prems"(3) expands_refl by simp
  next
    case True
    obtain ops1 modified where f: "rewrite_far_jumps offs1 ds ops = Inr (ops1, modified)"
      using "1.prems"(1) m True by (subst (asm) resolve_labels.simps) (auto split: sum.splits)
    then have loop: "rewrite_far_loop offs1 ds 0 ops = Inr (ops1, modified)" by (simp add: rewrite_far_jumps_def)
    have e: "expands ops ops1" using loop by (rule rewrite_far_loop_expands)
    show ?thesis
    proof (cases modified)
      case False
      have "ops' = ops1" "offs = offs1"
        using "1.prems"(1) m True f False by (subst (asm) resolve_labels.simps, simp)+
      then show ?thesis using rewrite_far_loop_near [of offs1 ds 0 ops ops1] loop False ok(1,2) "1.prems"(3) expands_refl by simp
    next
      case modified: True
      have r: "resolve_labels ds (k + 1) ops1 = Inr (ops', offs)"
        using "1.prems"(1) m True f modified by (subst (asm) resolve_labels.simps) simp
      have "far_ok {} ops1" using rewrite_far_loop_far_ok [OF loop, of "{}"] placed "1.prems"(3) by simp
      moreover have "distinct (labels ops1)" using expands_labels [OF e] "1.prems"(2) by simp
      ultimately show ?thesis
        using "1.IH" [OF m(2) m(1) refl _ f refl _ r] True modified expands_trans [OF e] by simp
    qed
  qed
qed

end
