(* ===== verification/Asm_Realize.thy ===== *)
theory Asm_Realize
  imports Asm_Resolve
begin

text \<open>
  \<^verbatim>\<open>realize_labels\<close>: in the code without labels every jump goes to the place of its label.
\<close>

section \<open>A data section that grows\<close>

text \<open>New words are put behind the other entries that are not configurable.\<close>

definition grows :: "data_section \<Rightarrow> data_section \<Rightarrow> bool" where
  "grows ds ds' \<longleftrightarrow>
     (\<exists>ext. non_configurables ds' = non_configurables ds @ ext) \<and> configurables ds' = configurables ds"

lemma grows_refl [simp]: "grows ds ds"
  by (simp add: grows_def)

lemma grows_trans: "grows a b \<Longrightarrow> grows b c \<Longrightarrow> grows a c"
  by (auto simp: grows_def)

lemma data_get_grows: "grows ds ds' \<Longrightarrow> data_get ds did = Some e \<Longrightarrow> data_get ds' did = Some e"
  by (auto simp: grows_def data_get_def list_get_def nth_append split: data_id_entry_kind.splits if_splits)

lemma data_get_length:
  assumes "data_get ds did = Some e"
  shows "case data_kind did of
      NonConfigurable \<Rightarrow> unat (data_idx did) < length (non_configurables ds)
    | Configurable \<Rightarrow> unat (data_idx did) < length (configurables ds)"
  using assms by (auto simp: data_get_def list_get_def split: data_id_entry_kind.splits if_splits)

lemma fold_offset_mono:
  "a \<le> b \<Longrightarrow> fold (\<lambda>e offset. round_up_nat (offset + length (to_bytes e))) es a
     \<le> fold (\<lambda>e offset. round_up_nat (offset + length (to_bytes e))) es b"
proof (induction es arbitrary: a b)
  case (Cons e es)
  have "round_up_nat (a + length (to_bytes e)) \<le> round_up_nat (b + length (to_bytes e))"
    using Cons.prems by (simp add: round_up_nat_align align8_mono)
  then show ?case using Cons.IH by simp
qed simp

lemma fold_offset_le: "a \<le> fold (\<lambda>e offset. round_up_nat (offset + length (to_bytes e))) es a"
proof (induction es arbitrary: a)
  case (Cons e es)
  have "a \<le> round_up_nat (a + length (to_bytes e))" unfolding round_up_nat_def by presburger
  then show ?case using Cons.IH [of "round_up_nat (a + length (to_bytes e))"] by simp
qed simp

lemma data_id_offset_grows:
  assumes "grows ds ds'" "data_get ds did = Some e"
  shows "data_id_to_offset ds did \<le> data_id_to_offset ds' did"
    "data_kind did = NonConfigurable \<Longrightarrow> data_id_to_offset ds' did = data_id_to_offset ds did"
proof -
  obtain ext where ext: "non_configurables ds' = non_configurables ds @ ext" "configurables ds' = configurables ds"
    using assms(1) by (auto simp: grows_def)
  show "data_kind did = NonConfigurable \<Longrightarrow> data_id_to_offset ds' did = data_id_to_offset ds did"
    using data_get_length [OF assms(2)] ext
    by (simp add: data_id_to_offset_def absolute_idx_to_offset_def absolute_idx_def iter_all_entries_def)
  then show "data_id_to_offset ds did \<le> data_id_to_offset ds' did"
    using ext fold_offset_mono [OF fold_offset_le, of "take (unat (data_idx did)) (configurables ds)" _ ext]
    by (cases "data_kind did")
      (simp_all add: data_id_to_offset_def absolute_idx_to_offset_def absolute_idx_def iter_all_entries_def)
qed

lemma insert_word:
  assumes "insert_data_value ds (new_word w EntryNonConfigurable None) = (did, ds')" "length (non_configurables ds) < 2 ^ 32"
  shows "grows ds ds'" "get_data_word ds' did = Some w" "length (non_configurables ds') \<le> Suc (length (non_configurables ds))"
proof -
  let ?e = "new_word w EntryNonConfigurable None"
  from assms(1) have i: "data_kind did = NonConfigurable" "configurables ds' = configurables ds"
      "insert_entry (non_configurables ds) ?e = (data_idx did, non_configurables ds')"
    by (cases rule: insert_data_value_cases; simp add: new_word_def)+
  note ok = insert_entry_ok [OF i(3) assms(2)]
  show "grows ds ds'" "length (non_configurables ds') \<le> Suc (length (non_configurables ds))"
    using ok i(2) by (auto simp: grows_def)
  have "entry_value (non_configurables ds' ! unat (data_idx did)) = Word w"
    using ok(2) by (auto simp: new_word_def entry_equiv_def)
  then show "get_data_word ds' did = Some w"
    using ok(1) i(1) by (simp add: get_data_word_def data_get_def list_get_def)
qed

section \<open>Relative jumps\<close>

text \<open>
  The condition of a relative jump, the register whose value is added to the distance, its
  direction and its immediate; and where such a jump goes from a place, as the machine documents
  it: the distance is one more than the sum of the value and the immediate.
\<close>

definition jump_parts :: "allocated_opcode \<Rightarrow> (allocated_register option \<times> allocated_register \<times> bool \<times> nat) option" where
  "jump_parts oc = (case oc of
       AControlFlow (JMPB r i) \<Rightarrow> Some (None, r, True, unat (value18 i))
     | AControlFlow (JMPF r i) \<Rightarrow> Some (None, r, False, unat (value18 i))
     | AControlFlow (JNZB x r i) \<Rightarrow> Some (Some x, r, True, unat (value12 i))
     | AControlFlow (JNZF x r i) \<Rightarrow> Some (Some x, r, False, unat (value12 i))
     | _ \<Rightarrow> None)"

definition jump_dest :: "bool \<Rightarrow> nat \<Rightarrow> nat \<Rightarrow> nat option" where
  "jump_dest backward p distance =
     (if backward then if distance + 1 \<le> p then Some (p - (distance + 1)) else None else Some (p + distance + 1))"

definition lands :: "(label \<rightharpoonup> u64) \<Rightarrow> nat \<Rightarrow> label \<Rightarrow> allocated_register option \<Rightarrow> nat \<Rightarrow> allocated_opcode \<Rightarrow> bool" where
  "lands offs p l cond limit oc \<longleftrightarrow>
     (\<exists>backward n. jump_parts oc = Some (cond, zero_register, backward, n) \<and> n \<le> limit
       \<and> jump_dest backward p n = map_option unat (offs l))"

text \<open>
  What stands in the code without labels for the instruction \<open>i\<close> at the place \<open>p\<close>.
\<close>

definition realized_as ::
  "data_section \<Rightarrow> (label \<rightharpoonup> u64) \<Rightarrow> nat \<Rightarrow> allocated_abstract_op list \<Rightarrow> nat \<Rightarrow> allocated_opcode list \<Rightarrow> bool" where
  "realized_as ds offs p ops i seg \<longleftrightarrow>
     (case alloc_opcode (ops ! i) of
        Inl oc \<Rightarrow> seg = [oc]
      | Inr (Jump l) \<Rightarrow> \<exists>oc. seg = [oc] \<and> lands offs p l None (unat EIGHTEEN_BITS) oc
      | Inr (Call l) \<Rightarrow> \<exists>oc. seg = [oc] \<and> lands offs p l None (unat EIGHTEEN_BITS) oc
      | Inr (JumpIfNotZero r l) \<Rightarrow> \<exists>oc. seg = [oc] \<and> lands offs p l (Some r) (unat TWELVE_BITS) oc
      | Inr (LoadLabel r l) \<Rightarrow>
          \<exists>did w oc cond backward. seg = [ANonVm (LoadDataId r did)] \<and> get_data_word ds did = Some w
            \<and> Suc i < length ops \<and> alloc_opcode (ops ! Suc i) = Inl oc \<and> jump_parts oc = Some (cond, r, backward, 0)
            \<and> jump_dest backward (p + 1) (unat w) = map_option unat (offs l)
      | Inr (SaveRetAddr r l) \<Rightarrow>
          \<exists>two imm. seg = [AAlu (SUB r (AllocatedConstant ProgramCounter) (AllocatedConstant InstructionStart)),
              AAlu (SRLI r r two), AAlu (ADDI r r imm)] \<and> value12 two = 2
            \<and> Some (p + unat (value12 imm)) = map_option unat (offs l)
      | Inr control_flow_op.DataSectionOffsetPlaceholder \<Rightarrow> seg = [ANonVm nonvm_op.DataSectionOffsetPlaceholder]
      | Inr control_flow_op.ConfigurablesOffsetPlaceholder \<Rightarrow> seg = [ANonVm nonvm_op.ConfigurablesOffsetPlaceholder]
      | Inr Comment \<Rightarrow> seg = []
      | Inr (Label _) \<Rightarrow> seg = []
      | Inr (PushAll _) \<Rightarrow> False
      | Inr (PopAll _) \<Rightarrow> False)"

lemma unchecked_value:
  "imm18_new_unchecked raw msg = Inr i \<Longrightarrow> unat (value18 i) = unat raw"
  "imm12_new_unchecked raw msg = Inr k \<Longrightarrow> unat (value12 k) = unat raw"
  by (auto simp: imm18_new_unchecked_def imm12_new_unchecked_def bindE_Inr_iff unwrap_or_panic_def try_into_def
      unsigned_ucast_eq take_bit_nat_eq_self split: option.splits if_splits)

text \<open>A jump that is near is realized by one that goes to its label.\<close>

lemma realize_jump_lands:
  assumes "realize_jump offs ops i c l imm backward forward = Inr j" "near offs (unat c) o'"
    and "jump_label o' = Some (l, limit)"
    and "\<And>raw k b. imm raw = Inr k \<Longrightarrow>
      jump_parts (AControlFlow (if b then backward k else forward k)) = Some (cond, zero_register, b, unat raw)"
  shows "lands offs (unat c) l cond (unat limit) (AControlFlow j)"
proof -
  obtain d where d: "offs l = Some d" "unat d \<noteq> unat c"
      "(if unat d < unat c then unat c - unat d else unat d - unat c) - 1 \<le> unat limit"
    using assms(2,3) by (auto simp: near_def)
  then have "c \<noteq> d" by auto
  then obtain raw k where k: "sub_u64 (abs_diff d c) 1 = Inr raw" "imm raw = Inr k" "j = (if c > d then backward k else forward k)"
    using assms(1) d(1) by (auto simp: realize_jump_def rel_offset_def unwrap_or_panic_def bindE_Inr_iff split: if_splits)
  have "abs_diff d c \<noteq> 0" using d(2) by (auto simp: unat_abs_diff simp flip: unat_eq_zero)
  then have raw: "unat raw = (if unat d < unat c then unat c - unat d else unat d - unat c) - 1"
    using k(1) by (auto simp: sub_u64_def unat_minus_one unat_abs_diff split: if_splits)
  have "jump_parts (AControlFlow j) = Some (cond, zero_register, c > d, unat raw)"
    using assms(4) [OF k(2), of "c > d"] k(3) by simp
  moreover have "jump_dest (c > d) (unat c) (unat raw) = Some (unat d)"
    using raw d(2) by (auto simp: jump_dest_def word_less_nat_alt)
  ultimately show ?thesis using d(1,3) raw by (simp add: lands_def)
qed

section \<open>One instruction\<close>

text \<open>The label whose distance is loaded lies in the direction of the jump that follows.\<close>

definition load_ok :: "(label \<rightharpoonup> u64) \<Rightarrow> nat \<Rightarrow> allocated_abstract_op list \<Rightarrow> nat \<Rightarrow> bool" where
  "load_ok offs p ops i \<longleftrightarrow> (\<forall>r l. alloc_opcode (ops ! i) = Inr (LoadLabel r l) \<longrightarrow>
     r = scratch_register \<and> Suc i < length ops
     \<and> (\<exists>d. offs l = Some d \<and> (through (ops ! Suc i) = Some True \<and> unat d \<le> p
          \<or> through (ops ! Suc i) = Some False \<and> p + 2 \<le> unat d)))"

lemma realized_as_grows:
  assumes "realized_as ds offs p ops i seg" "grows ds ds'"
  shows "realized_as ds' offs p ops i seg"
proof -
  have "get_data_word ds' did = Some w" if "get_data_word ds did = Some w" for did w
    using that data_get_grows [OF assms(2), of did] by (auto simp: get_data_word_def split: option.splits)
  then show ?thesis using assms(1) unfolding realized_as_def
    by (simp split: sum.splits control_flow_op.splits) blast
qed

lemma through_parts: "through o' = Some b \<Longrightarrow> \<exists>oc cond. alloc_opcode o' = Inl oc \<and> jump_parts oc = Some (cond, scratch_register, b, 0)"
  by (auto simp: through_def jump_parts_def split: sum.splits allocated_opcode.splits alloc_control_op.splits if_splits)

lemma realize_load_lands:
  assumes "realize_op offs ops i (ops ! i) c ds = Inr (seg, ds')" "alloc_opcode (ops ! i) = Inr (LoadLabel r l)"
    and "load_ok offs (unat c) ops i" "length (non_configurables ds) < 2 ^ 32"
  shows "grows ds ds'" "realized_as ds' offs (unat c) ops i (map realized_opcode seg)"
    "length (non_configurables ds') \<le> Suc (length (non_configurables ds))"
proof -
  obtain d where d: "offs l = Some d" "r = scratch_register" "Suc i < length ops"
      "through (ops ! Suc i) = Some True \<and> unat d \<le> unat c \<or> through (ops ! Suc i) = Some False \<and> unat c + 2 \<le> unat d"
    using assms(2,3) by (auto simp: load_ok_def)
  let ?ins = "\<lambda>w. insert_data_value ds (new_word w EntryNonConfigurable None)"
  obtain c1 w where w1: "add_u64 c 1 = Inr c1" "sub_u64 (abs_diff d c1) 1 = Inr w" "ds' = snd (?ins w)"
      "map realized_opcode seg = [ANonVm (LoadDataId r (fst (?ins w)))]"
    using assms(1,2) d(1)
    by (auto simp: realize_op_def rel_offset_def unwrap_or_panic_def realized_like_def bindE_Inr_iff Let_def split_beta)
  obtain did where w: "add_u64 c 1 = Inr c1" "sub_u64 (abs_diff d c1) 1 = Inr w" "?ins w = (did, ds')"
      "map realized_opcode seg = [ANonVm (LoadDataId r did)]"
    using w1 by (metis prod.collapse)
  have c1: "unat c1 = unat c + 1" using w(1) by (auto simp: add_u64_iff unat_add_u64)
  have "unat (abs_diff d c1) \<noteq> 0" using c1 d(4) by (auto simp: unat_abs_diff)
  then have "abs_diff d c1 \<noteq> 0" by (simp add: unat_eq_zero)
  then have wv: "unat w = (if unat d < unat c1 then unat c1 - unat d else unat d - unat c1) - 1"
    using w(2) by (auto simp: sub_u64_def unat_minus_one unat_abs_diff split: if_splits)
  note ins = insert_word [OF w(3) assms(4)]
  show "grows ds ds'" "length (non_configurables ds') \<le> Suc (length (non_configurables ds))" using ins by blast+
  have b: "through (ops ! Suc i) = Some (unat d < unat c1)" using d(4) c1 by auto
  obtain oc cond where oc: "alloc_opcode (ops ! Suc i) = Inl oc"
      "jump_parts oc = Some (cond, scratch_register, unat d < unat c1, 0)"
    using through_parts [OF b] by blast
  have "jump_dest (unat d < unat c1) (unat c + 1) (unat w) = Some (unat d)" using wv c1 d(4) by (auto simp: jump_dest_def)
  then show "realized_as ds' offs (unat c) ops i (map realized_opcode seg)"
    using assms(2) w(4) ins(2) d(1,2,3) oc by (auto simp: realized_as_def)
qed

lemma realize_op_lands:
  assumes "realize_op offs ops i (ops ! i) c ds = Inr (seg, ds')" "near offs (unat c) (ops ! i)"
    and "load_ok offs (unat c) ops i" "length (non_configurables ds) < 2 ^ 32"
  shows "grows ds ds' \<and> realized_as ds' offs (unat c) ops i (map realized_opcode seg)
    \<and> length (non_configurables ds') \<le> Suc (length (non_configurables ds))"
proof (cases "alloc_opcode (ops ! i)")
  case (Inl oc)
  then show ?thesis using assms(1) by (auto simp: realize_op_def realized_as_def realized_like_def)
next
  case (Inr cf)
  have jump: "lands offs (unat c) l None (unat EIGHTEEN_BITS) (AControlFlow j)"
    if "realize_jump offs ops i c l jump_imm (JMPB zero_register) (JMPF zero_register) = Inr j"
      "jump_label (ops ! i) = Some (l, EIGHTEEN_BITS)" for l j
    using that(1) assms(2) that(2) by (rule realize_jump_lands) (auto simp: jump_parts_def jump_imm_def unchecked_value)
  have jnz: "lands offs (unat c) l (Some r) (unat TWELVE_BITS) (AControlFlow j)"
    if "realize_jump offs ops i c l jnz_imm (JNZB r zero_register) (JNZF r zero_register) = Inr j"
      "jump_label (ops ! i) = Some (l, TWELVE_BITS)" for l j r
    using that(1) assms(2) that(2) by (rule realize_jump_lands) (auto simp: jump_parts_def jnz_imm_def unchecked_value)
  show ?thesis
  proof (cases cf)
    case (LoadLabel r l)
    then show ?thesis using realize_load_lands [OF assms(1) _ assms(3,4)] Inr by blast
  next
    case (SaveRetAddr r l)
    then obtain d k two where d: "offs l = Some d" "imm12_new_unchecked (abs_diff d c) ''Programs with more than 2^12 relative offset are unsupported right now'' = Inr k"
        "c < d" "imm12_new_unchecked 2 ''two must fit in 12 bits'' = Inr two" "ds' = ds"
        "map realized_opcode seg = [AAlu (SUB r (AllocatedConstant ProgramCounter) (AllocatedConstant InstructionStart)),
           AAlu (SRLI r r two), AAlu (ADDI r r k)]"
      using assms(1) Inr by (auto simp: realize_op_def rel_offset_def unwrap_or_panic_def assert_or_panic_def realized_like_def
          bindE_Inr_iff split: option.splits if_splits)
    have "unat c + unat (value12 k) = unat d"
      using unchecked_value(2) [OF d(2)] d(3) by (simp add: unat_abs_diff word_less_nat_alt)
    moreover have "value12 two = 2"
      using d(4) by (simp add: imm12_new_unchecked_def unwrap_or_panic_def try_into_def) (metis imm12.select_convs(1))
    ultimately show ?thesis using d Inr SaveRetAddr by (auto simp: realized_as_def)
  qed (use assms(1) Inr jump jnz in \<open>auto simp: realize_op_def realized_as_def realized_like_def jump_label_def bindE_Inr_iff\<close>)
qed

section \<open>All instructions\<close>

lemma far_ok_nth:
  assumes "far_ok S ops" "i < length ops" "alloc_opcode (ops ! i) = Inr (LoadLabel r l)"
  shows "r = scratch_register \<and> Suc i < length ops
    \<and> (through (ops ! Suc i) = Some True \<and> l \<in> S \<union> set (labels (take i ops))
      \<or> through (ops ! Suc i) = Some False \<and> l \<in> set (labels (drop (i + 2) ops)))"
  using assms
proof (induction ops arbitrary: S i)
  case (Cons o' ops)
  show ?case
  proof (cases i)
    case 0
    then show ?thesis using Cons.prems by (cases ops) auto
  next
    case (Suc k)
    then show ?thesis using Cons.IH [of "S \<union> set_option (alloc_label o')" k] Cons.prems
      by (cases "alloc_label o'") auto
  qed
qed simp

lemma label_place_append:
  "label_place ds (xs @ ys) l = (if l \<in> set (labels xs) then label_place ds xs l else words ds xs + label_place ds ys l)"
  by (induction xs) (auto split: option.splits)

lemma label_place_le: "label_place ds xs l \<le> words ds xs"
  by (induction xs) auto

lemma far_ok_load:
  assumes "far_ok {} ops" "places ds 0 ops offs" "distinct (labels ops)" "i < length ops"
  shows "load_ok offs (words ds (take i ops)) ops i"
  unfolding load_ok_def
proof (intro allI impI)
  fix r l assume o': "alloc_opcode (ops ! i) = Inr (LoadLabel r l)"
  from far_ok_nth [OF assms(1,4) o'] have n: "r = scratch_register" "Suc i < length ops"
      "through (ops ! Suc i) = Some True \<and> l \<in> set (labels (take i ops))
      \<or> through (ops ! Suc i) = Some False \<and> l \<in> set (labels (drop (i + 2) ops))" by auto
  have split: "ops = take i ops @ drop i ops" "ops = take (i + 2) ops @ drop (i + 2) ops" by simp_all
  have "l \<in> set (labels ops)" using n(3) by (metis Un_iff labels_simps(3) set_append split)
  then obtain d where d: "offs l = Some d" "unat d = label_place ds ops l" using assms(2) by (auto simp: places_def)
  have two: "words ds (take (i + 2) ops) = words ds (take i ops) + 2" if j: "through (ops ! Suc i) = Some b" for b
  proof -
    have "op_words ds (ops ! i) = 1" using o' by (simp add: op_words_def instruction_size_def)
    moreover have "op_words ds (ops ! Suc i) = 1"
      using j by (auto simp: through_def op_words_def instruction_size_def split: sum.splits allocated_opcode.splits)
    moreover have "take (i + 2) ops = take i ops @ [ops ! i, ops ! Suc i]"
      using n(2) by (simp add: take_Suc_conv_app_nth)
    ultimately show ?thesis by simp
  qed
  from n(3) have "through (ops ! Suc i) = Some True \<and> unat d \<le> words ds (take i ops)
      \<or> through (ops ! Suc i) = Some False \<and> words ds (take i ops) + 2 \<le> unat d"
  proof
    assume t: "through (ops ! Suc i) = Some True \<and> l \<in> set (labels (take i ops))"
    have "label_place ds ops l = label_place ds (take i ops) l"
      using t label_place_append [of ds "take i ops" "drop i ops" l] by simp
    then show ?thesis using t d(2) label_place_le [of ds "take i ops" l] by simp
  next
    assume t: "through (ops ! Suc i) = Some False \<and> l \<in> set (labels (drop (i + 2) ops))"
    have "distinct (labels (take (i + 2) ops) @ labels (drop (i + 2) ops))"
      using assms(3) labels_simps(3) [of "take (i + 2) ops" "drop (i + 2) ops"] by simp
    then have "l \<notin> set (labels (take (i + 2) ops))" using t by auto
    then have "words ds (take (i + 2) ops) \<le> label_place ds ops l"
      using label_place_append [of ds "take (i + 2) ops" "drop (i + 2) ops" l] by simp
    then show ?thesis using t two [of False] d(2) by simp
  qed
  then show "r = scratch_register \<and> Suc i < length ops \<and> (\<exists>d. offs l = Some d
      \<and> (through (ops ! Suc i) = Some True \<and> unat d \<le> words ds (take i ops)
        \<or> through (ops ! Suc i) = Some False \<and> words ds (take i ops) + 2 \<le> unat d))"
    using n(1,2) d(1) by blast
qed

text \<open>Data ids of the code are in the data section.\<close>

definition ids_ok :: "data_section \<Rightarrow> allocated_abstract_op \<Rightarrow> bool" where
  "ids_ok ds o' \<longleftrightarrow> (case alloc_opcode o' of
       Inl (ANonVm (LoadDataId _ did)) \<Rightarrow> data_get ds did \<noteq> None
     | Inl (ANonVm (AddrDataId _ did)) \<Rightarrow> data_get ds did \<noteq> None
     | _ \<Rightarrow> True)"

lemma op_words_grows:
  assumes "ids_ok ds o'" "grows ds ds'"
  shows "op_words ds o' \<le> op_words ds' o'"
proof -
  have "data_id_to_offset ds did \<le> data_id_to_offset ds' did" if "alloc_opcode o' = Inl (ANonVm (AddrDataId r did))" for r did
    using assms that data_id_offset_grows(1) [OF assms(2), of did] by (auto simp: ids_ok_def)
  moreover have "data_has_copy_type ds' did = data_has_copy_type ds did"
    if "alloc_opcode o' = Inl (ANonVm (LoadDataId r did))" for r did
    using assms that data_get_grows [OF assms(2), of did] by (auto simp: ids_ok_def data_has_copy_type_def)
  ultimately show ?thesis
    by (cases "alloc_opcode o'")
      (auto simp: op_words_def instruction_size_def split: allocated_opcode.splits alloc_memory_op.splits nonvm_op.splits
        control_flow_op.splits sum.splits)
qed

lemma realize_op_grows:
  assumes "realize_op offs ops i o' c ds = Inr (seg, ds')"
  shows "grows ds ds'"
proof -
  have "grows ds (snd (insert_data_value ds (new_word w EntryNonConfigurable None)))" for w
    by (auto simp: insert_data_value_def insert_entry_def new_word_def grows_def vec_push_def Let_def split: option.splits)
  then show ?thesis using assms
    by (auto simp: realize_op_def bindE_Inr_iff Let_def split_beta split: sum.splits control_flow_op.splits)
qed

lemma realize_loop_Cons:
  assumes "realize_loop offs ops i (o' # rest) c ds = Inr (realized, ds')"
  obtains sz seg ds1 c1 more where "instruction_size o' ds = Inr sz" "realize_op offs ops i o' c ds = Inr (seg, ds1)"
    "unat c1 = unat c + op_words ds o'" "realize_loop offs ops (Suc i) rest c1 ds1 = Inr (more, ds')" "realized = seg @ more"
proof -
  obtain sz p c1 q where r: "instruction_size o' ds = Inr sz" "realize_op offs ops i o' c ds = Inr p"
      "(if skipped o' then Inr c else add_u64 c sz) = Inr c1" "realize_loop offs ops (Suc i) rest c1 (snd p) = Inr q"
      "realized = fst p @ fst q" "ds' = snd q"
    using assms by (fastforce simp: bindE_Inr_iff)
  have "skipped o' \<Longrightarrow> op_words ds o' = 0"
    by (simp add: skipped_def op_words_def instruction_size_def split: sum.splits control_flow_op.splits)
  then have "unat c1 = unat c + op_words ds o'"
    using r(1,3) by (auto simp: add_u64_iff op_words_size unat_add_u64 split: if_splits)
  then show ?thesis using r that [of sz "fst p" "snd p" c1 "fst q"] by simp
qed

lemma realize_loop_grows: "realize_loop offs ops i rest c ds = Inr (realized, ds') \<Longrightarrow> grows ds ds'"
proof (induction rest arbitrary: i c ds realized)
  case (Cons o' rest)
  from Cons.prems obtain sz seg ds1 c1 more where r: "realize_op offs ops i o' c ds = Inr (seg, ds1)"
      "realize_loop offs ops (Suc i) rest c1 ds1 = Inr (more, ds')"
    by (rule realize_loop_Cons)
  then show ?case using realize_op_grows [OF r(1)] Cons.IH [OF r(2)] grows_trans by blast
qed simp

lemma realize_loop_lands:
  assumes "realize_loop offs ops i (drop i ops) c dk = Inr (realized, ds')" "unat c = words ds (take i ops)" "grows ds dk"
    and near: "\<forall>j < length ops. near offs (words ds (take j ops)) (ops ! j) \<and> load_ok offs (words ds (take j ops)) ops j"
    and ids: "\<forall>o' \<in> set ops. ids_ok ds o' \<and> op_words ds' o' = op_words ds o'"
    and "length (non_configurables dk) + (length ops - i) < 2 ^ 32"
  shows "\<exists>segs. map realized_opcode realized = concat segs \<and> length segs = length ops - i
    \<and> (\<forall>j < length ops - i. realized_as ds' offs (words ds (take (i + j) ops)) ops (i + j) (segs ! j))"
  using assms(1-3,6)
proof (induction "length ops - i" arbitrary: i c dk realized)
  case 0
  then show ?case by simp
next
  case (Suc n)
  then have i: "i < length ops" by simp
  then have d: "drop i ops = ops ! i # drop (Suc i) ops" by (simp add: Cons_nth_drop_Suc)
  from Suc.prems(1) obtain sz seg d1 c1 more where r: "realize_op offs ops i (ops ! i) c dk = Inr (seg, d1)"
      "unat c1 = unat c + op_words dk (ops ! i)" "realize_loop offs ops (Suc i) (drop (Suc i) ops) c1 d1 = Inr (more, ds')"
      "realized = seg @ more"
    unfolding d by (rule realize_loop_Cons)
  have g: "grows dk d1" "grows d1 ds'" using realize_op_grows [OF r(1)] realize_loop_grows [OF r(3)] .
  have gds: "grows ds d1" "grows dk ds'" using grows_trans [OF Suc.prems(3) g(1)] grows_trans [OF g] .
  have o': "ids_ok ds (ops ! i)" "op_words ds' (ops ! i) = op_words ds (ops ! i)" using ids i by auto
  have "ids_ok dk (ops ! i)"
    using o'(1) data_get_grows [OF Suc.prems(3)]
    by (fastforce simp: ids_ok_def split: sum.splits allocated_opcode.splits nonvm_op.splits)
  then have same: "op_words dk (ops ! i) = op_words ds (ops ! i)"
    using op_words_grows [OF o'(1) Suc.prems(3)] op_words_grows [OF _ gds(2)] o'(2) by fastforce
  have lands: "realized_as d1 offs (unat c) ops i (map realized_opcode seg)"
      "length (non_configurables d1) \<le> Suc (length (non_configurables dk))"
    using realize_op_lands [OF r(1)] near i Suc.prems(2,4) by auto
  have c1: "unat c1 = words ds (take (Suc i) ops)" using r(2) same Suc.prems(2) i by (simp add: take_Suc_conv_app_nth)
  obtain segs where segs: "map realized_opcode more = concat segs" "length segs = length ops - Suc i"
      "\<forall>j < length ops - Suc i. realized_as ds' offs (words ds (take (Suc i + j) ops)) ops (Suc i + j) (segs ! j)"
    using Suc.hyps(1) [OF _ r(3) c1 gds(1)] Suc.hyps(2) Suc.prems(4) lands(2) by fastforce
  have first: "realized_as ds' offs (words ds (take i ops)) ops i (map realized_opcode seg)"
    using realized_as_grows [OF lands(1) g(2)] Suc.prems(2) by simp
  have "realized_as ds' offs (words ds (take (i + j) ops)) ops (i + j) ((map realized_opcode seg # segs) ! j)"
    if "j < length ops - i" for j
    using that first segs(3) by (cases j) auto
  then show ?case using segs(1,2) r(4) i by (intro exI [of _ "map realized_opcode seg # segs"]) simp
qed

section \<open>The property\<close>

lemma rewrite_far_loop_length: "rewrite_far_loop offs ds c ops = Inr (ops', m) \<Longrightarrow> length ops' \<le> 2 * length ops"
proof (induction ops arbitrary: c ops' m)
  case (Cons o' ops)
  from Cons.prems obtain sz new m1 rest m2 where r: "rewrite_far_op offs c o' = Inr (new, m1)"
      "rewrite_far_loop offs ds (c + sz) ops = Inr (rest, m2)" "ops' = new @ rest"
    by (rule rewrite_far_loop_Cons)
  from r(1) have "length new \<le> 2" by (cases rule: rewrite_far_op_cases) auto
  then show ?case using Cons.IH [OF r(2)] r(3) by simp
qed simp

lemma resolve_labels_length: "resolve_labels ds k ops = Inr (ops', offs) \<Longrightarrow> length ops' \<le> 2 ^ (11 - k) * length ops"
proof (induction ds k ops rule: resolve_labels.induct)
  case (1 ds k ops)
  obtain remap offs1 where m: "map_label_offsets ops ds = Inr (remap, offs1)" "\<not> k > 10"
    using "1.prems" by (subst (asm) resolve_labels.simps) (auto split: if_splits sum.splits)
  show ?case
  proof (cases "\<exists>ops1. remap \<and> rewrite_far_jumps offs1 ds ops = Inr (ops1, True)")
    case True
    then obtain ops1 where f: "remap" "rewrite_far_jumps offs1 ds ops = Inr (ops1, True)" by blast
    have "length ops1 \<le> 2 * length ops" using f(2) rewrite_far_loop_length by (simp add: rewrite_far_jumps_def)
    then have "2 ^ (10 - k) * length ops1 \<le> 2 ^ (10 - k) * (2 * length ops)" by (rule mult_le_mono2)
    moreover have "resolve_labels ds (k + 1) ops1 = Inr (ops', offs)"
      using "1.prems" m f by (subst (asm) resolve_labels.simps) simp
    then have "length ops' \<le> 2 ^ (10 - k) * length ops1"
      using "1.IH" [OF m(2) m(1) refl _ f(2) refl] f(1) by simp
    ultimately have "length ops' \<le> 2 ^ (10 - k) * (2 * length ops)" by (rule order.trans [rotated])
    moreover have "11 - k = Suc (10 - k)" using m(2) by simp
    ultimately show ?thesis by (simp add: mult.left_commute)
  next
    case False
    then have "ops' = ops \<or> (\<exists>ops1. rewrite_far_jumps offs1 ds ops = Inr (ops1, False) \<and> ops' = ops1)"
      using "1.prems" m by (subst (asm) resolve_labels.simps) (auto split: if_splits sum.splits)
    then have "ops' = ops" using rewrite_far_loop_near by (auto simp: rewrite_far_jumps_def)
    then show ?thesis by simp
  qed
qed

lemma through_opcode: "through o' \<noteq> None \<Longrightarrow> \<exists>cf. alloc_opcode o' = Inl (AControlFlow cf)"
  by (auto simp: through_def split: sum.splits allocated_opcode.splits)

lemma expands_all:
  assumes "expands xs ys" "\<forall>o' \<in> set xs. P o'" "P noop_op" "\<And>l. P (load_label_op l)"
    and "\<And>j cf. alloc_opcode j = Inl (AControlFlow cf) \<Longrightarrow> P j"
  shows "\<forall>o' \<in> set ys. P o'"
  using assms(1,2)
proof (induction rule: expands.induct)
  case (expands_far xs ys o' l limit j)
  then show ?case using assms(4,5) through_opcode [of j] by auto
qed (use assms(3) in auto)

lemma expands_ids:
  assumes "expands xs ys" "\<forall>o' \<in> set xs. ids_ok ds o' \<and> op_words ds' o' = op_words ds o'"
  shows "\<forall>o' \<in> set ys. ids_ok ds o' \<and> op_words ds' o' = op_words ds o'"
  using assms by (rule expands_all) (simp_all add: ids_ok_def op_words_def instruction_size_def
    noop_op_def load_label_op_def)

lemma words_cong: "(\<And>o'. o' \<in> set ops \<Longrightarrow> op_words ds o' = op_words ds' o') \<Longrightarrow> words ds ops = words ds' ops"
  unfolding words_def by (metis (no_types, lifting) map_eq_conv)

text \<open>
  (C6) Jumps land on their labels: the code is expanded by instructions without effect before jumps
  to themselves and by loads of distances for far jumps, and then replaced piece by piece. The
  offset returned for a label is its place in this code; each jump leads from its own place to the
  place of its label, with a distance that fits its immediate, and a far jump adds the loaded
  word; each saved return address is computed as the place of its label, without the claim that
  its distance fits in 12 bits. It is assumed that labels are distinct, that the code has no load
  of a label yet, and that the words added to the data section change the size of no instruction.
\<close>

theorem jumps_land_on_labels:
  assumes "realize_labels ops ds = Inr (realized, offs, ds')" "distinct (labels ops)"
    and "\<forall>o' \<in> set ops. \<forall>r l. alloc_opcode o' \<noteq> Inr (LoadLabel r l)"
    and "\<forall>o' \<in> set ops. ids_ok ds o' \<and> op_words ds' o' = op_words ds o'"
    and "length (non_configurables ds) + 2048 * length ops < 2 ^ 32"
  shows "\<exists>final segs. expands ops final \<and> map realized_opcode realized = concat segs \<and> length segs = length final
    \<and> (\<forall>l \<in> set (labels ops). map_option unat (offs l) = Some (label_place ds' final l))
    \<and> (\<forall>i < length final. realized_as ds' offs (words ds' (take i final)) final i (segs ! i))"
proof -
  obtain final where f: "resolve_labels ds 0 ops = Inr (final, offs)"
      "realize_loop offs final 0 final 0 ds = Inr (realized, ds')"
    using assms(1) by (auto simp: realize_labels_def bindE_Inr_iff)
  have "far_ok S ops" for S
    using assms(3) by (induction ops arbitrary: S) (auto split: sum.splits control_flow_op.splits)
  then have r: "expands ops final" "places ds 0 final offs" "far_ok {} final"
      "\<forall>i < length final. near offs (words ds (take i final)) (final ! i)"
    using resolve_labels_ok [OF f(1) assms(2)] by auto
  have l: "labels final = labels ops" using r(1) by (rule expands_labels)
  have ids: "\<forall>o' \<in> set final. ids_ok ds o' \<and> op_words ds' o' = op_words ds o'" using r(1) assms(4) by (rule expands_ids)
  have len: "length (non_configurables ds) + (length final - 0) < 2 ^ 32"
    using resolve_labels_length [OF f(1)] assms(5) by simp
  have near: "\<forall>j < length final. near offs (words ds (take j final)) (final ! j) \<and> load_ok offs (words ds (take j final)) final j"
    using r(4) far_ok_load [OF r(3,2)] l assms(2) by simp
  obtain segs where segs: "map realized_opcode realized = concat segs" "length segs = length final"
      "\<forall>j < length final. realized_as ds' offs (words ds (take j final)) final j (segs ! j)"
    using realize_loop_lands [of offs final 0 0 ds realized ds' ds, OF _ _ _ near ids len] f(2) by auto
  have w: "words ds xs = words ds' xs" if "set xs \<subseteq> set final" for xs
    using ids that by (intro words_cong) auto
  have "map_option unat (offs l) = Some (label_place ds' final l)" if "l \<in> set (labels ops)" for l
    using r(2) l that w [of "takeWhile (\<lambda>o'. alloc_label o' \<noteq> Some l) final"] set_takeWhileD
    by (fastforce simp: places_def label_place_def)
  moreover have "\<forall>i < length final. realized_as ds' offs (words ds' (take i final)) final i (segs ! i)"
    using segs(3) w set_take_subset by metis
  ultimately show ?thesis using r(1) segs(1,2) by blast
qed

definition jump_sample :: "allocated_abstract_op list" where
  "jump_sample = map (\<lambda>oc. \<lparr>alloc_opcode = oc, alloc_comment = [], alloc_owning_span = None\<rparr>)
     [Inr (SaveRetAddr (Allocated 0) 9), Inr (Label 8), Inr (Jump 8), Inr (JumpIfNotZero (Allocated 1) 9),
      Inl (AAlu (MOVE (Allocated 1) zero_register)), Inr (Label 9), Inr (Call 8)]"

definition empty_section :: data_section where
  "empty_section = \<lparr>non_configurables = [], configurables = [], pointer_id = Map.empty\<rparr>"

lemmas resolve_eval = map_label_offsets_def label_scan_op_def close_block_def instruction_size_def add_u64_def
  push_if_absent_def vec_push_def rel_offset_def unwrap_or_panic_def abs_diff_def EIGHTEEN_BITS_def TWELVE_BITS_def
  rewrite_far_jumps_def rewrite_far_op_def rewrite_jump_def noop_op_def Let_def

lemmas realize_eval = realize_op_def realize_jump_def rel_offset_def unwrap_or_panic_def abs_diff_def sub_u64_def add_u64_def
  jump_imm_def jnz_imm_def imm18_new_unchecked_def imm12_new_unchecked_def try_into_def assert_or_panic_def
  realized_like_def skipped_def instruction_size_def noop_op_def

abbreviation jump_sample_final :: "allocated_abstract_op list" where
  "jump_sample_final \<equiv> take 2 jump_sample @ noop_op # drop 2 jump_sample"

lemma jump_sample_scan:
  "map_label_offsets jump_sample empty_section = Inr (True, [8 \<mapsto> 3, 9 \<mapsto> 6])"
  "map_label_offsets jump_sample_final empty_section = Inr (False, [8 \<mapsto> 3, 9 \<mapsto> 7])"
  by (simp_all add: jump_sample_def resolve_eval fun_upd_twist)

lemma jump_sample_rewritten:
  "rewrite_far_jumps [8 \<mapsto> 3, 9 \<mapsto> 6] empty_section jump_sample = Inr (jump_sample_final, True)"
  by (simp add: jump_sample_def resolve_eval)

lemma jump_sample_resolved:
  "resolve_labels empty_section 0 jump_sample = Inr (jump_sample_final, [8 \<mapsto> 3, 9 \<mapsto> 7])"
  by (subst resolve_labels.simps, simp add: jump_sample_scan(1) jump_sample_rewritten)
    (subst resolve_labels.simps, simp add: jump_sample_scan(2))

lemma jump_sample_realized:
  "\<exists>realized. realize_labels jump_sample empty_section = Inr (realized, [8 \<mapsto> 3, 9 \<mapsto> 7], empty_section)
    \<and> map realized_opcode realized =
      [AAlu (SUB (Allocated 0) (AllocatedConstant ProgramCounter) (AllocatedConstant InstructionStart)),
       AAlu (SRLI (Allocated 0) (Allocated 0) \<lparr>value12 = 2\<rparr>), AAlu (ADDI (Allocated 0) (Allocated 0) \<lparr>value12 = 7\<rparr>),
       AAlu NOOP, AControlFlow (JMPB zero_register \<lparr>value18 = 0\<rparr>),
       AControlFlow (JNZF (Allocated 1) zero_register \<lparr>value12 = 1\<rparr>), AAlu (MOVE (Allocated 1) zero_register),
       AControlFlow (JMPB zero_register \<lparr>value18 = 3\<rparr>)]"
  by (simp add: realize_labels_def jump_sample_resolved) (simp add: jump_sample_def realize_eval)

theorem jumps_land_on_labels_witness:
  "\<exists>realized final segs. realize_labels jump_sample empty_section = Inr (realized, [8 \<mapsto> 3, 9 \<mapsto> 7], empty_section)
    \<and> expands jump_sample final \<and> map realized_opcode realized = concat segs \<and> length segs = length final
    \<and> label_place empty_section final 9 = 7"
proof -
  obtain realized where r: "realize_labels jump_sample empty_section = Inr (realized, [8 \<mapsto> 3, 9 \<mapsto> 7], empty_section)"
    using jump_sample_realized by blast
  have hyps: "distinct (labels jump_sample)" "\<forall>o' \<in> set jump_sample. \<forall>r l. alloc_opcode o' \<noteq> Inr (LoadLabel r l)"
      "\<forall>o' \<in> set jump_sample. ids_ok empty_section o' \<and> op_words empty_section o' = op_words empty_section o'"
      "length (non_configurables empty_section) + 2048 * length jump_sample < 2 ^ 32" "9 \<in> set (labels jump_sample)"
    by (simp_all add: jump_sample_def alloc_label_def ids_ok_def empty_section_def)
  then show ?thesis using r jumps_land_on_labels [OF r hyps(1-4)] by fastforce
qed

end
