(* ===== verification/Asm_Emit.thy ===== *)
theory Asm_Emit
  imports Asm_Bytecode Asm_Realize Asm_Layout
begin

text \<open>
  The bytes that \<^verbatim>\<open>to_bytecode_mut\<close> writes: where the bytes of each instruction, of the data section
  and of each configurable stand, and what a load of a large entry computes.
\<close>

section \<open>Sizes\<close>

definition op_bytes :: "data_section \<Rightarrow> allocated_op \<Rightarrow> nat" where
  "op_bytes ds o' = (case op_size_in_bytes ds (ao_opcode o') of Inr sz \<Rightarrow> unat sz | Inl _ \<Rightarrow> 0)"

definition code_bytes :: "data_section \<Rightarrow> allocated_op list \<Rightarrow> nat" where
  "code_bytes ds ops = sum_list (map (op_bytes ds) ops)"

definition instruction_code :: "('id, 'i) fuel_asm \<Rightarrow> 'i fuel_asm_data \<Rightarrow> u8 list" where
  "instruction_code fuel d = (case d of
     Instructions is \<Rightarrow> concat (map (instr_bytes fuel) is) | DatasectionOffset bs \<Rightarrow> bs | ConfigurablesOffset bs \<Rightarrow> bs)"

lemma offset_le_length: "absolute_idx_to_offset ds idx \<le> length (serialize_to_bytes ds)"
proof -
  let ?f = "\<lambda>entry offset. round_up_nat (offset + length (to_bytes entry))"
  have "length (serialize_to_bytes ds) = fold ?f (iter_all_entries ds) 0"
    using serialize_length [of "[]" "iter_all_entries ds"] by (simp add: serialize_to_bytes_def)
  also have "\<dots> = fold ?f (drop idx (iter_all_entries ds)) (absolute_idx_to_offset ds idx)"
    unfolding absolute_idx_to_offset_def by (metis append_take_drop_id comp_apply fold_append)
  finally show ?thesis using fold_offset_le by metis
qed

lemma unat_offset:
  assumes "length (serialize_to_bytes ds) < 2 ^ 64"
  shows "unat (of_nat (data_id_to_offset ds did) :: u64) = data_id_to_offset ds did"
  using offset_le_length [of ds "absolute_idx ds did"] assms
  by (simp add: data_id_to_offset_def unsigned_of_nat take_bit_nat_eq_self)

declare realize_load.simps [simp del]

text \<open>
  A load of a large entry is one of the pointer that was stored for it, and an addition.
\<close>

lemma realize_load_Suc:
  assumes "realize_load (Suc n) fuel a did ds off p = Inr ins"
  shows "data_has_copy_type ds did = Some True \<and> length ins = 1
    \<or> data_has_copy_type ds did = Some False \<and> (\<exists>x y pointer did' buf d.
        sub_u64 off p = Inr x \<and> add_u64 x (of_nat (data_id_to_offset ds did)) = Inr y \<and> sub_u64 y 4 = Inr pointer
      \<and> data_id_of_pointer ds pointer = Some did' \<and> realize_load n fuel a did' ds off p = Inr buf
      \<and> allocated_to_reg_id (fuel_regs.truncate fuel) a = Inr d
      \<and> ins = buf @ [instr_new fuel ''ADD'' [d, d, to_reg_id (fuel_regs.truncate fuel) ProgramCounter] None])"
  using assms unfolding realize_load.simps
  by (simp add: bindE_Inr_iff unwrap_or_panic_def Let_def split: option.splits if_splits) auto

lemma realize_load_length:
  "realize_load 1 fuel a did ds off p = Inr ins \<Longrightarrow> data_has_copy_type ds did = Some True \<and> length ins = 1"
  "realize_load 2 fuel a did ds off p = Inr ins \<Longrightarrow>
     \<exists>b. data_has_copy_type ds did = Some b \<and> length ins = (if b then 1 else 2)"
proof -
  have one: "realize_load 1 fuel a did ds off p = Inr ins \<Longrightarrow> data_has_copy_type ds did = Some True \<and> length ins = 1" for did ins
    using realize_load_Suc [of 0 fuel a did ds off p ins] by (fastforce simp: realize_load.simps(1))
  then show "realize_load 1 fuel a did ds off p = Inr ins \<Longrightarrow> data_has_copy_type ds did = Some True \<and> length ins = 1" .
  assume two: "realize_load 2 fuel a did ds off p = Inr ins"
  have "realize_load (Suc 1) fuel a did ds off p = Inr ins" by (rule two [unfolded Suc_1 [symmetric]])
  from realize_load_Suc [OF this]
  show "\<exists>b. data_has_copy_type ds did = Some b \<and> length ins = (if b then 1 else 2)"
  proof (elim disjE conjE exE)
    fix did' buf i assume "data_has_copy_type ds did = Some False" "realize_load 1 fuel a did' ds off p = Inr buf" "ins = buf @ [i]"
    then show ?thesis using one [of did' buf] by (intro exI [of _ False]) simp
  qed (intro exI [of _ True], simp)
qed

lemma addr_of_length:
  assumes "addr_of fuel a did ds = Inr ins" "length (serialize_to_bytes ds) < 2 ^ 64"
  shows "length ins = (if data_id_to_offset ds did > IMM12_MAX then 2 else 1)"
  using assms(1) unat_offset [OF assms(2), of did]
  by (auto simp: addr_of_def Let_def bindE_Inr_iff IMM12_MAX_def word_le_nat_alt split: if_splits)

text \<open>The number of bytes that an instruction becomes is the size that was computed for it.\<close>

lemma to_fuel_asm_size:
  assumes "to_fuel_asm fuel (ao_opcode o') off p ds = Inr d" "op_size_in_bytes ds (ao_opcode o') = Inr sz"
    and "\<And>i. length (instr_bytes fuel i) = 4" "length (serialize_to_bytes ds) < 2 ^ 64"
  shows "length (instruction_code fuel d) = unat sz \<and> unat sz = (case d of Instructions ins \<Rightarrow> 4 * length ins | _ \<Rightarrow> 8)"
proof -
  have instrs: "length (instruction_code fuel (Instructions ins)) = 4 * length ins" for ins
    using assms(3) by (induction ins) (simp_all add: instruction_code_def)
  have count: "unat sz = (case d of Instructions ins \<Rightarrow> 4 * length ins | _ \<Rightarrow> 8)"
  proof (cases "ao_opcode o'")
    case (ANonVm op)
    show ?thesis
    proof (cases op)
      case (BLOB x)
      then show ?thesis using assms(1,2) ANonVm
        by (auto simp: to_fuel_asm_def op_size_in_bytes_def mul_u64_iff unat_mul_u64 unat_ucast_u32)
    next
      case (LoadDataId r did)
      then show ?thesis using assms(1,2) ANonVm realize_load_length(2) [of fuel r did ds off p]
        by (auto simp: to_fuel_asm_def op_size_in_bytes_def bindE_Inr_iff unwrap_or_panic_def split: option.splits if_splits)
    next
      case (AddrDataId r did)
      then show ?thesis using assms(1,2) ANonVm addr_of_length [OF _ assms(4), of fuel r did]
        by (auto simp: to_fuel_asm_def op_size_in_bytes_def bindE_Inr_iff split: if_splits)
    qed (use assms(1,2) ANonVm in \<open>auto simp: to_fuel_asm_def op_size_in_bytes_def\<close>)
  next
    case (AMemory op)
    then show ?thesis using assms(1,2)
      by (cases op) (auto simp: to_fuel_asm_def op_size_in_bytes_def bindE_Inr_iff Let_def split: if_splits)
  qed (use assms(1,2) in \<open>auto simp: to_fuel_asm_def op_size_in_bytes_def bindE_Inr_iff\<close>)
  moreover have "length (instruction_code fuel d) = (case d of Instructions ins \<Rightarrow> 4 * length ins | _ \<Rightarrow> 8)"
    using assms(1) instrs
    by (auto simp: to_fuel_asm_def instruction_code_def be_bytes_def Let_def bindE_Inr_iff
        split: fuel_asm_data.splits allocated_opcode.splits alloc_memory_op.splits nonvm_op.splits if_splits)
  ultimately show ?thesis by simp
qed

section \<open>Emission\<close>

lemma add_size_Inr:
  assumes "add_size ds o' p = Inr q"
  shows "unat q = unat p + op_bytes ds o'" "\<exists>sz. op_size_in_bytes ds (ao_opcode o') = Inr sz \<and> op_bytes ds o' = unat sz"
  using assms by (auto simp: add_size_def op_bytes_def bindE_Inr_iff add_u64_iff unat_add_u64)

lemma emit_instructions:
  assumes "\<And>i. length (instr_bytes fuel i) = 4"
  shows "bytes (fold (emit_instruction fuel sp) ins s) = bytes s @ concat (map (instr_bytes fuel) ins)
    \<and> half_word_ix (fold (emit_instruction fuel sp) ins s) = half_word_ix s + length ins
    \<and> from_instr_start (fold (emit_instruction fuel sp) ins s) = from_instr_start s"
  by (induction ins arbitrary: s) (auto simp: emit_instruction_def)

lemma emit_op_ok:
  assumes "emit_op fuel off ds o' s = Inr s'" "\<And>i. length (instr_bytes fuel i) = 4" "length (serialize_to_bytes ds) < 2 ^ 64"
  obtains d where "to_fuel_asm fuel (ao_opcode o') off (from_instr_start s) ds = Inr d"
    "bytes s' = bytes s @ instruction_code fuel d" "length (instruction_code fuel d) = op_bytes ds o'"
    "4 * half_word_ix s' = 4 * half_word_ix s + op_bytes ds o'"
    "unat (from_instr_start s') = unat (from_instr_start s) + op_bytes ds o'"
proof -
  obtain d q where d: "to_fuel_asm fuel (ao_opcode o') off (from_instr_start s) ds = Inr d"
      "add_size ds o' (from_instr_start s) = Inr q"
    and s': "(let s = s\<lparr>from_instr_start := q\<rparr> in case d of
        DatasectionOffset data \<Rightarrow> Inr (s\<lparr>bytes := bytes s @ data, half_word_ix := half_word_ix s + 2\<rparr>)
      | ConfigurablesOffset data \<Rightarrow> Inr (s\<lparr>bytes := bytes s @ data, half_word_ix := half_word_ix s + 2\<rparr>)
      | Instructions instructions \<Rightarrow> Inr (fold (emit_instruction fuel (ao_span o')) instructions s)) = (Inr s' :: bytecode_state result)"
    using assms(1) unfolding emit_op_def bindE_Inr_iff by blast
  note size = add_size_Inr [OF d(2)]
  obtain sz where sz: "op_size_in_bytes ds (ao_opcode o') = Inr sz" "op_bytes ds o' = unat sz" using size(2) by blast
  note len = to_fuel_asm_size [OF d(1) sz(1) assms(2,3)]
  have "bytes s' = bytes s @ instruction_code fuel d \<and> 4 * half_word_ix s' = 4 * half_word_ix s + op_bytes ds o'
      \<and> from_instr_start s' = q"
    using len s' sz(2) emit_instructions [OF assms(2), of "ao_span o'"]
    by (cases d) (auto simp: instruction_code_def)
  then show ?thesis using that [OF d(1)] len sz(2) size(1) by simp
qed

text \<open>The bytes of an instruction that stands at a place in the code.\<close>

definition code_at :: "('id, 'i) fuel_asm \<Rightarrow> u64 \<Rightarrow> data_section \<Rightarrow> nat \<Rightarrow> allocated_op \<Rightarrow> u8 list \<Rightarrow> bool" where
  "code_at fuel off ds p o' code \<longleftrightarrow>
     (\<exists>from d. unat from = p \<and> to_fuel_asm fuel (ao_opcode o') off from ds = Inr d
       \<and> code = instruction_code fuel d \<and> length code = op_bytes ds o')"

lemma emit_ops_ok:
  assumes "foldM (emit_op fuel off ds) ops s = Inr s'" "\<And>i. length (instr_bytes fuel i) = 4"
    and "length (serialize_to_bytes ds) < 2 ^ 64"
  shows "\<exists>codes. bytes s' = bytes s @ concat codes \<and> length codes = length ops
    \<and> 4 * half_word_ix s' = 4 * half_word_ix s + code_bytes ds ops
    \<and> (\<forall>i < length ops. code_at fuel off ds (unat (from_instr_start s) + code_bytes ds (take i ops)) (ops ! i) (codes ! i))"
  using assms(1)
proof (induction ops arbitrary: s)
  case (Cons o' ops)
  then obtain s1 where s1: "emit_op fuel off ds o' s = Inr s1" "foldM (emit_op fuel off ds) ops s1 = Inr s'"
    by (auto simp: bindE_Inr_iff)
  from s1(1) assms(2,3) obtain d where d: "to_fuel_asm fuel (ao_opcode o') off (from_instr_start s) ds = Inr d"
      "bytes s1 = bytes s @ instruction_code fuel d" "length (instruction_code fuel d) = op_bytes ds o'"
      "4 * half_word_ix s1 = 4 * half_word_ix s + op_bytes ds o'"
      "unat (from_instr_start s1) = unat (from_instr_start s) + op_bytes ds o'"
    by (rule emit_op_ok)
  obtain codes where c: "bytes s' = bytes s1 @ concat codes" "length codes = length ops"
      "4 * half_word_ix s' = 4 * half_word_ix s1 + code_bytes ds ops"
      "\<forall>i < length ops. code_at fuel off ds (unat (from_instr_start s1) + code_bytes ds (take i ops)) (ops ! i) (codes ! i)"
    using Cons.IH [OF s1(2)] by blast
  have first: "code_at fuel off ds (unat (from_instr_start s)) o' (instruction_code fuel d)"
    using d(1,3) by (auto simp: code_at_def)
  have "code_at fuel off ds (unat (from_instr_start s) + code_bytes ds (take i (o' # ops))) ((o' # ops) ! i)
      ((instruction_code fuel d # codes) ! i)" if "i < length (o' # ops)" for i
    using that first c(4) d(5) by (cases i) (auto simp: code_bytes_def add.assoc)
  then show ?case using c d(2,4) by (intro exI [of _ "instruction_code fuel d # codes"]) (auto simp: code_bytes_def)
qed (simp add: code_bytes_def)

section \<open>Pointers\<close>

text \<open>A recorded pointer is stored under its id.\<close>

definition pointers_ok :: "data_section \<Rightarrow> bool" where
  "pointers_ok ds \<longleftrightarrow> (\<forall>w did. pointer_id ds w = Some did \<longrightarrow> get_data_word ds did = Some w)"

text \<open>
  A word stands in the first bytes of its entry. Entries that are equivalent are shared without
  regard to padding, so a pointer may share the entry of a word that was there before.
\<close>

definition words_first :: "data_section \<Rightarrow> bool" where
  "words_first ds \<longleftrightarrow> (\<forall>e \<in> set (iter_all_entries ds). \<forall>w. entry_value e = Word w \<longrightarrow> take 8 (to_bytes e) = be_bytes 8 w)"

lemma words_first_append:
  assumes "words_first ds"
  shows "words_first (snd (append_pointer ds w))"
proof -
  have "take 8 (to_bytes (new_word w EntryNonConfigurable None)) = be_bytes 8 w"
    by (simp add: new_word_def pad_bytes_def default_for_u64_def unwrap_or_def target_size_def be_bytes_def)
  moreover have "entry_value (new_word w EntryNonConfigurable None) = Word w" by (simp add: new_word_def)
  ultimately show ?thesis using assms
    by (auto simp: words_first_def append_pointer_def insert_data_value_def insert_entry_def new_word_def iter_all_entries_def
        Let_def vec_push_def split: prod.splits option.splits)
qed

lemma get_data_word_grows: "grows ds ds' \<Longrightarrow> get_data_word ds did = Some w \<Longrightarrow> get_data_word ds' did = Some w"
  using data_get_grows [of ds ds' did] by (auto simp: get_data_word_def split: option.splits)

lemma append_pointer_ok:
  assumes "length (non_configurables ds) < 2 ^ 32"
  shows "grows ds (snd (append_pointer ds w))" "pointers_ok ds \<Longrightarrow> pointers_ok (snd (append_pointer ds w))"
    "length (non_configurables (snd (append_pointer ds w))) \<le> Suc (length (non_configurables ds))"
proof -
  obtain did ds1 where i: "insert_data_value ds (new_word w EntryNonConfigurable None) = (did, ds1)" by force
  note ok = insert_word [OF i assms]
  have a: "snd (append_pointer ds w) = ds1\<lparr>pointer_id := (pointer_id ds1)(w \<mapsto> did)\<rparr>"
    using i by (simp add: append_pointer_def)
  have p: "pointer_id ds1 = pointer_id ds"
    using i by (auto simp: insert_data_value_def new_word_def Let_def split: prod.splits)
  have g: "get_data_word (ds1\<lparr>pointer_id := x\<rparr>) did' = get_data_word ds1 did'" for x did'
    by (cases "data_kind did'") (simp_all add: get_data_word_def data_get_def)
  show "grows ds (snd (append_pointer ds w))" "length (non_configurables (snd (append_pointer ds w))) \<le> Suc (length (non_configurables ds))"
    using ok(1,3) a by (simp_all add: grows_def)
  show "pointers_ok ds \<Longrightarrow> pointers_ok (snd (append_pointer ds w))"
    using ok(2) get_data_word_grows [OF ok(1)] unfolding a pointers_ok_def g by (auto simp: p split: if_splits)
qed

lemma insert_pointer_ok:
  assumes "insert_pointer off o' (p, ds) = Inr (q, ds')" "length (non_configurables ds) < 2 ^ 32"
  shows "grows ds ds' \<and> (pointers_ok ds \<longrightarrow> pointers_ok ds') \<and> (words_first ds \<longrightarrow> words_first ds')
    \<and> length (non_configurables ds') \<le> Suc (length (non_configurables ds))"
  using assms(1) append_pointer_ok [OF assms(2)] words_first_append
  by (auto simp: insert_pointer_def bindE_Inr_iff Let_def
      split: allocated_opcode.splits nonvm_op.splits if_splits)

lemma insert_pointers_ok:
  assumes "foldM (insert_pointer off) ops (p, ds) = Inr (q, ds')" "length (non_configurables ds) + length ops < 2 ^ 32"
  shows "grows ds ds' \<and> (pointers_ok ds \<longrightarrow> pointers_ok ds') \<and> (words_first ds \<longrightarrow> words_first ds')"
  using assms
proof (induction ops arbitrary: p ds)
  case (Cons o' ops)
  then obtain p1 d1 where 1: "insert_pointer off o' (p, ds) = Inr (p1, d1)" "foldM (insert_pointer off) ops (p1, d1) = Inr (q, ds')"
    by (auto simp: bindE_Inr_iff)
  from insert_pointer_ok [OF 1(1)] Cons.prems(2) have "grows ds d1" "pointers_ok ds \<longrightarrow> pointers_ok d1"
    "words_first ds \<longrightarrow> words_first d1" "length (non_configurables d1) + length ops < 2 ^ 32" by auto
  with Cons.IH [OF 1(2)] show ?case using grows_trans [of ds d1 ds'] by blast
qed simp

text \<open>Loading the pointer of a large entry and adding the program counter gives its address.\<close>

lemma pointer_load:
  assumes "to_fuel_asm fuel (ANonVm (LoadDataId r did)) off p ds = Inr d" "data_has_copy_type ds did = Some False"
    and "pointers_ok ds" "length (serialize_to_bytes ds) < 2 ^ 64"
  shows "\<exists>reg imm did' w. allocated_to_reg_id (fuel_regs.truncate fuel) r = Inr reg
    \<and> d = Instructions [instr_new fuel ''LW'' [reg, reg_id_new fuel DATA_SECTION_REGISTER] (Some imm),
      instr_new fuel ''ADD'' [reg, reg, to_reg_id (fuel_regs.truncate fuel) ProgramCounter] None]
    \<and> 8 * unat imm = data_id_to_offset ds did' \<and> get_data_word ds did' = Some w
    \<and> unat p + 4 + unat w = unat off + data_id_to_offset ds did"
proof -
  obtain ins where ins: "realize_load (Suc 1) fuel r did ds off p = Inr ins" "d = Instructions ins"
    using assms(1) by (auto simp: to_fuel_asm_def bindE_Inr_iff simp flip: Suc_1)
  obtain x y w did' buf reg where l: "sub_u64 off p = Inr x" "add_u64 x (of_nat (data_id_to_offset ds did)) = Inr y"
      "sub_u64 y 4 = Inr w" "pointer_id ds w = Some did'" "realize_load (Suc 0) fuel r did' ds off p = Inr buf"
      "allocated_to_reg_id (fuel_regs.truncate fuel) r = Inr reg"
      "ins = buf @ [instr_new fuel ''ADD'' [reg, reg, to_reg_id (fuel_regs.truncate fuel) ProgramCounter] None]"
    using realize_load_Suc [OF ins(1)] assms(2) by (auto simp: data_id_of_pointer_def)
  have word: "get_data_word ds did' = Some w" using assms(3) l(4) by (simp add: pointers_ok_def)
  then have kind: "data_has_copy_type ds did' = Some True" "data_is_byte ds did' = Some False"
    by (auto simp: get_data_word_def data_has_copy_type_def data_is_byte_def entry_has_copy_type_def entry_is_byte_def
        split: option.splits datum.splits)
  let ?o = "of_nat (data_id_to_offset ds did') :: u64"
  obtain k where k: "imm12_new (?o div 8) = Inr k" "?o mod 8 = 0"
      "buf = [instr_new fuel ''LW'' [reg, reg_id_new fuel DATA_SECTION_REGISTER] (Some (ucast (value12 k)))]"
    using l(5,6) kind
    by (auto simp: realize_load.simps bindE_Inr_iff unwrap_or_panic_def Let_def assert_or_panic_def expect_ok_def
        split: if_splits sum.splits)
  have small: "unat (?o div 8) < 2 ^ 12" "k = \<lparr>value12 = ucast (?o div 8)\<rparr>"
    using k(1) by (auto simp: imm12_new_def TWELVE_BITS_def try_into_def unwrap_or_panic_def word_less_nat_alt split: if_splits)
  then have "unat (ucast (value12 k) :: u64) = unat (?o div 8)"
    by (simp add: unsigned_ucast_eq unsigned_take_bit_eq take_bit_nat_eq_self)
  moreover have "8 * unat (?o div 8) = data_id_to_offset ds did'"
  proof -
    have "unat ?o = data_id_to_offset ds did'" by (rule unat_offset [OF assms(4)])
    moreover have "unat ?o mod 8 = 0" using k(2) unat_mod_distrib [of ?o 8] by simp
    ultimately show ?thesis using unat_div_distrib [of ?o 8] by auto
  qed
  moreover have "unat p + 4 + unat w = unat off + data_id_to_offset ds did"
  proof -
    have "unat x + unat p = unat off" using l(1) by (auto simp: sub_u64_def word_le_nat_alt unat_sub split: if_splits)
    moreover have "unat y = unat x + data_id_to_offset ds did"
      using l(2) unat_offset [OF assms(4), of did] by (auto simp: add_u64_iff unat_add_u64)
    moreover have "unat w + 4 = unat y" using l(3) by (auto simp: sub_u64_def word_le_nat_alt unat_sub split: if_splits)
    ultimately show ?thesis by simp
  qed
  ultimately show ?thesis using ins(2) l(6,7) k(3) word
    by (simp, metis)
qed

section \<open>Layout\<close>

lemma op_bytes_words: "4 dvd op_bytes ds o'"
proof -
  have "4 dvd unat sz" if "op_size_in_bytes ds (ao_opcode o') = Inr sz" for sz
    using that
    by (auto simp: op_size_in_bytes_def mul_u64_iff unat_mul_u64 bindE_Inr_iff
        split: allocated_opcode.splits nonvm_op.splits alloc_memory_op.splits if_splits)
  then show ?thesis by (auto simp: op_bytes_def split: sum.splits)
qed

lemma code_bytes_words: "4 dvd code_bytes ds ops"
  by (induction ops) (auto simp: code_bytes_def op_bytes_words intro: dvd_add)

lemma sizes_Inr: "foldM (add_size ds) ops p = Inr q \<Longrightarrow> unat q = unat p + code_bytes ds ops"
  by (induction ops arbitrary: p) (auto simp: code_bytes_def bindE_Inr_iff dest: add_size_Inr(1))

lemma pad_ops_ok:
  assumes "pad_ops ops offset = Inr (ops', off)" "4 dvd unat offset"
  shows "8 dvd unat off" "\<exists>pad. ops' = ops @ pad \<and> length pad \<le> 1 \<and> (\<forall>o' \<in> set pad. ao_opcode o' = AAlu NOOP)"
proof -
  have "offset AND 7 = take_bit 3 offset" by (simp add: take_bit_eq_mask mask_eq_exp_minus_1)
  then have "unat (offset AND 7) = unat offset mod 8" by (simp add: take_bit_eq_mod unat_mod_distrib)
  then have low: "offset AND 7 = 0 \<longleftrightarrow> 8 dvd unat offset" by (simp add: unat_eq_0 dvd_eq_mod_eq_0 flip: unat_eq_0)
  have "8 dvd unat offset + 4" if "\<not> 8 dvd unat offset" using that assms(2) by presburger
  then show "8 dvd unat off" using assms(1) low
    by (auto simp: pad_ops_def bindE_Inr_iff add_u64_iff unat_add_u64 split: if_splits)
  show "\<exists>pad. ops' = ops @ pad \<and> length pad \<le> 1 \<and> (\<forall>o' \<in> set pad. ao_opcode o' = AAlu NOOP)"
    using assms(1) by (auto simp: pad_ops_def bindE_Inr_iff vec_push_def split: if_splits)
qed

lemma named_offsets_ok:
  assumes "foldM (named_offset ds off) (enumerate k es) m = Inr named"
  shows "(\<forall>c v. named c = Some v \<longrightarrow> m c = Some v \<or> (\<exists>i < length es. entry_name_of (es ! i) = EntryConfigurable c
      \<and> unat v = unat off + unat (of_nat (absolute_idx_to_offset ds (k + i + length (non_configurables ds))) :: u64)))
    \<and> dom m \<subseteq> dom named \<and> (\<forall>e \<in> set es. \<exists>c \<in> dom named. entry_name_of e = EntryConfigurable c)"
  using assms
proof (induction es arbitrary: k m)
  case (Cons e es)
  then obtain m' where m': "named_offset ds off (k, e) m = Inr m'" "foldM (named_offset ds off) (enumerate (Suc k) es) m' = Inr named"
    by (auto simp: bindE_Inr_iff)
  obtain c v where c: "entry_name_of e = EntryConfigurable c" "m' = m(c \<mapsto> v)"
      "unat v = unat off + unat (of_nat (absolute_idx_to_offset ds (k + length (non_configurables ds))) :: u64)"
    using m'(1) by (auto simp: named_offset_def bindE_Inr_iff add_u64_iff unat_add_u64 split: entry_name.splits)
  note IH = Cons.IH [OF m'(2)]
  show ?case
  proof (intro conjI allI impI)
    fix c' v' assume "named c' = Some v'"
    then consider "m' c' = Some v'" | i where "i < length es" "entry_name_of (es ! i) = EntryConfigurable c'"
      "unat v' = unat off + unat (of_nat (absolute_idx_to_offset ds (Suc k + i + length (non_configurables ds))) :: u64)"
      using IH by blast
    then show "m c' = Some v' \<or> (\<exists>i < length (e # es). entry_name_of ((e # es) ! i) = EntryConfigurable c'
      \<and> unat v' = unat off + unat (of_nat (absolute_idx_to_offset ds (k + i + length (non_configurables ds))) :: u64))"
    proof cases
      case 1
      then show ?thesis using c by (cases "c' = c") (auto intro!: exI [of _ 0])
    next
      case 2
      then show ?thesis by (intro disjI2 exI [of _ "Suc i"]) simp
    qed
  next
    show "dom m \<subseteq> dom named" using IH c(2) by (metis dom_fun_upd insert_subset option.distinct(1))
  next
    show "\<forall>e \<in> set (e # es). \<exists>c \<in> dom named. entry_name_of e = EntryConfigurable c"
      using IH c(1,2) by (metis dom_fun_upd insert_subset option.distinct(1) set_ConsD)
  qed
qed simp

text \<open>The parts of a successful run.\<close>

lemma to_bytecode_parts:
  assumes "to_bytecode_mut fuel ops ds = Inr (b, ds', spans)"
  obtains offset ops' off q s where "foldM (add_size ds) ops 0 = Inr offset" "pad_ops ops offset = Inr (ops', off)"
    "foldM (insert_pointer off) ops' (0, ds) = Inr (q, ds')"
    "foldM (emit_op fuel off ds') ops' \<lparr>bytes = [], half_word_ix = 0, from_instr_start = 0, source_spans = []\<rparr> = Inr s"
    "length (bytes s) = unat off" "bytecode b = bytes s @ serialize_to_bytes ds'"
    "foldM (named_offset ds' off) (enumerate 0 (configurables ds')) Map.empty = Inr (named_data_section_entries_offsets b)"
  using assms unfolding to_bytecode_mut_def
  by (auto simp: bindE_Inr_iff assert_or_panic_def split: prod.splits if_splits)

lemma codes_slice:
  assumes "length codes = length ops" "\<forall>i < length ops. length (codes ! i) = op_bytes ds (ops ! i)" "i < length ops"
  shows "take (op_bytes ds (ops ! i)) (drop (code_bytes ds (take i ops)) (concat codes @ rest)) = codes ! i"
    "length (concat codes) = code_bytes ds ops"
proof -
  have "map length codes = map (op_bytes ds) ops" using assms(1,2) by (simp add: list_eq_iff_nth_eq)
  then have len: "sum_list (map length (take n codes)) = code_bytes ds (take n ops)" for n
    by (simp add: code_bytes_def flip: take_map)
  show all: "length (concat codes) = code_bytes ds ops" using len [of "length ops"] assms(1) by (simp add: length_concat)
  have "code_bytes ds (take (Suc i) ops) \<le> code_bytes ds ops"
    by (metis append_take_drop_id code_bytes_def le_add1 map_append sum_list_append)
  then have "code_bytes ds (take i ops) + op_bytes ds (ops ! i) \<le> length (concat codes)"
    using assms(3) all by (simp add: take_Suc_conv_app_nth code_bytes_def)
  then show "take (op_bytes ds (ops ! i)) (drop (code_bytes ds (take i ops)) (concat codes @ rest)) = codes ! i"
    using concat_slice [of i codes] len [of i] assms by simp
qed

definition bytes_at :: "u8 list \<Rightarrow> nat \<Rightarrow> u8 list \<Rightarrow> bool" where
  "bytes_at code p bs \<longleftrightarrow> take (length bs) (drop p code) = bs"

lemma bytes_at_take:
  assumes "bytes_at code p bs"
  shows "bytes_at code p (take n bs)"
proof -
  have "take (length (take n bs)) (drop p code) = take n (take (length bs) (drop p code))" by (simp add: min.commute)
  then show ?thesis using assms by (simp only: bytes_at_def)
qed

lemma bytes_at_section:
  assumes "length code = n" "idx < length (iter_all_entries ds)"
  shows "bytes_at (code @ serialize_to_bytes ds) (n + absolute_idx_to_offset ds idx) (to_bytes (iter_all_entries ds ! idx))"
  using assms serialized_at_offset(1) [OF assms(2)] by (auto simp: bytes_at_def)

definition laid_out ::
  "('id, 'i) fuel_asm \<Rightarrow> allocated_op list \<Rightarrow> data_section \<Rightarrow> u64 \<Rightarrow> compiled_bytecode \<Rightarrow> bool" where
  "laid_out fuel ops ds off b \<longleftrightarrow>
     8 dvd unat off \<and> unat off \<le> length (bytecode b) \<and> drop (unat off) (bytecode b) = serialize_to_bytes ds
   \<and> (\<forall>i < length ops. \<exists>code. code_at fuel off ds (code_bytes ds (take i ops)) (ops ! i) code
       \<and> bytes_at (bytecode b) (code_bytes ds (take i ops)) code)
   \<and> (\<forall>did e. data_get ds did = Some e \<longrightarrow> bytes_at (bytecode b) (unat off + data_id_to_offset ds did) (to_bytes e))
   \<and> (\<forall>e \<in> set (configurables ds). \<exists>c v. entry_name_of e = EntryConfigurable c \<and> named_data_section_entries_offsets b c = Some v)
   \<and> (\<forall>c v. named_data_section_entries_offsets b c = Some v \<longrightarrow>
       (\<exists>e \<in> set (configurables ds). entry_name_of e = EntryConfigurable c \<and> bytes_at (bytecode b) (unat v) (to_bytes e)))"

lemma to_bytecode_laid_out:
  assumes "to_bytecode_mut fuel ops ds = Inr (b, ds', spans)" "\<And>i. length (instr_bytes fuel i) = 4"
    and "length (serialize_to_bytes ds') < 2 ^ 64"
  obtains off pad where "laid_out fuel ops ds' off b" "unat off = code_bytes ds' (ops @ pad)"
    "length pad \<le> 1" "\<forall>o' \<in> set pad. ao_opcode o' = AAlu NOOP" "\<exists>q. foldM (insert_pointer off) (ops @ pad) (0, ds) = Inr (q, ds')"
proof -
  from assms(1) obtain offset ops' off q s where p: "foldM (add_size ds) ops 0 = Inr offset" "pad_ops ops offset = Inr (ops', off)"
    "foldM (insert_pointer off) ops' (0, ds) = Inr (q, ds')"
    "foldM (emit_op fuel off ds') ops' \<lparr>bytes = [], half_word_ix = 0, from_instr_start = 0, source_spans = []\<rparr> = Inr s"
    "length (bytes s) = unat off" "bytecode b = bytes s @ serialize_to_bytes ds'"
    "foldM (named_offset ds' off) (enumerate 0 (configurables ds')) Map.empty = Inr (named_data_section_entries_offsets b)"
    by (rule to_bytecode_parts)
  have "4 dvd unat offset" using sizes_Inr [OF p(1)] code_bytes_words by simp
  note pad = pad_ops_ok [OF p(2) this]
  then obtain pad where ops': "ops' = ops @ pad" "length pad \<le> 1" "\<forall>o' \<in> set pad. ao_opcode o' = AAlu NOOP" by blast
  obtain codes where c: "bytes s = concat codes" "length codes = length ops'"
      "\<forall>i < length ops'. code_at fuel off ds' (code_bytes ds' (take i ops')) (ops' ! i) (codes ! i)"
    using emit_ops_ok [OF p(4) assms(2,3)] by auto
  then have lens: "\<forall>i < length ops'. length (codes ! i) = op_bytes ds' (ops' ! i)" by (auto simp: code_at_def)
  have "code_at fuel off ds' (code_bytes ds' (take i ops)) (ops ! i) (codes ! i)
      \<and> bytes_at (bytecode b) (code_bytes ds' (take i ops)) (codes ! i)" if "i < length ops" for i
    using that c(3) [rule_format, of i] codes_slice(1) [OF c(2) lens, of i "serialize_to_bytes ds'"] lens p(6) c(1) ops'(1)
    by (simp add: nth_append bytes_at_def)
  moreover have "bytes_at (bytecode b) (unat off + data_id_to_offset ds' did) (to_bytes e)" if "data_get ds' did = Some e" for did e
    using that bytes_at_section [OF p(5), of "absolute_idx ds' did" ds'] p(6)
    by (auto simp: data_get_absolute data_id_to_offset_def)
  moreover have "\<exists>e \<in> set (configurables ds'). entry_name_of e = EntryConfigurable c' \<and> bytes_at (bytecode b) (unat v) (to_bytes e)"
    if named: "named_data_section_entries_offsets b c' = Some v" for c' v
  proof -
    obtain i where i: "i < length (configurables ds')" "entry_name_of (configurables ds' ! i) = EntryConfigurable c'"
      "unat v = unat off + unat (of_nat (absolute_idx_to_offset ds' (i + length (non_configurables ds'))) :: u64)"
      using named_offsets_ok [OF p(7)] named by fastforce
    moreover have "unat (of_nat (absolute_idx_to_offset ds' n) :: u64) = absolute_idx_to_offset ds' n" for n
      using offset_le_length [of ds' n] assms(3) by (simp add: unsigned_of_nat take_bit_nat_eq_self)
    ultimately show ?thesis
      using bytes_at_section [OF p(5), of "i + length (non_configurables ds')" ds'] p(6)
      by (intro bexI [of _ "configurables ds' ! i"]) (auto simp: iter_all_entries_def nth_append)
  qed
  moreover have "\<exists>c v. entry_name_of e = EntryConfigurable c \<and> named_data_section_entries_offsets b c = Some v"
    if "e \<in> set (configurables ds')" for e
    using named_offsets_ok [OF p(7)] that by blast
  ultimately have "laid_out fuel ops ds' off b" using pad(1) p(5,6) unfolding laid_out_def by auto
  moreover have "unat off = code_bytes ds' ops'"
    using p(5) c(1,2) lens length_concat [of codes] by (simp add: code_bytes_def) (metis (no_types, lifting) length_map map_equality_iff)
  ultimately show ?thesis using that [of off pad] ops' p(3) by blast
qed

section \<open>Properties\<close>

text \<open>
  (C7) The layout of the bytecode: behind the code, padded by at most one instruction to whole
  words, stand the bytes of the data section. Each instruction stands where the sizes of those
  before it say, encoded for the final data section and for that place; each entry stands at the
  offset of its handle; and the offset recorded for a configurable is where the bytes of an entry
  of that name stand, for every configurable. It is assumed that an encoded instruction has four
  bytes, and that the data section is smaller than the address space.
\<close>

theorem bytecode_layout:
  assumes "to_bytecode_mut fuel ops ds = Inr (b, ds', spans)" "\<forall>i. length (instr_bytes fuel i) = 4"
    and "length (serialize_to_bytes ds') < 2 ^ 64"
  shows "\<exists>off. laid_out fuel ops ds' off b \<and> unat off \<in> {code_bytes ds' ops, code_bytes ds' ops + 4}"
proof -
  from assms obtain off pad where l: "laid_out fuel ops ds' off b" "unat off = code_bytes ds' (ops @ pad)"
      "length pad \<le> 1" "\<forall>o' \<in> set pad. ao_opcode o' = AAlu NOOP"
    by (metis to_bytecode_laid_out)
  have "code_bytes ds' pad \<in> {0, 4}"
    using l(3,4) by (cases pad) (auto simp: code_bytes_def op_bytes_def op_size_in_bytes_def)
  then show ?thesis using l(1,2) by (auto simp: code_bytes_def)
qed

text \<open>
  (C8) A load of an entry that does not fit in a register gives the address of its bytes: the load
  becomes two instructions that both write the register of the load, the first reads a word of
  the data section, the second adds the program counter to it, and the sum is where the bytes of
  the entry stand. It is assumed that an encoded instruction has four bytes, that the section is
  smaller than the address space, that the pointers recorded in the data section are stored in
  it, as they are when there are none, and that the words in it are not padded on the left.
\<close>

theorem large_entry_address:
  assumes "to_bytecode_mut fuel ops ds = Inr (b, ds', spans)" "\<forall>i. length (instr_bytes fuel i) = 4"
    and "length (serialize_to_bytes ds') < 2 ^ 64" "pointers_ok ds" "words_first ds"
    and "length (non_configurables ds) + length ops < 2 ^ 32 - 1"
    and "i < length ops" "ao_opcode (ops ! i) = ANonVm (LoadDataId r did)" "data_get ds did = Some e" "\<not> entry_has_copy_type e"
  shows "let p = code_bytes ds' (take i ops) in \<exists>(off :: u64) reg imm (w :: u64).
      allocated_to_reg_id (fuel_regs.truncate fuel) r = Inr reg \<and> drop (unat off) (bytecode b) = serialize_to_bytes ds'
    \<and> bytes_at (bytecode b) p (instr_bytes fuel (instr_new fuel ''LW'' [reg, reg_id_new fuel DATA_SECTION_REGISTER] (Some imm))
        @ instr_bytes fuel (instr_new fuel ''ADD'' [reg, reg, to_reg_id (fuel_regs.truncate fuel) ProgramCounter] None))
    \<and> bytes_at (bytecode b) (unat off + 8 * unat imm) (be_bytes 8 w)
    \<and> bytes_at (bytecode b) (p + 4 + unat w) (to_bytes e)"
proof -
  have four: "\<And>i. length (instr_bytes fuel i) = 4" using assms(2) by simp
  from assms(1) four assms(3) obtain off pad where l: "laid_out fuel ops ds' off b" "length pad \<le> 1"
      "\<exists>q. foldM (insert_pointer off) (ops @ pad) (0, ds) = Inr (q, ds')"
    by (rule to_bytecode_laid_out)
  obtain q where "foldM (insert_pointer off) (ops @ pad) (0, ds) = Inr (q, ds')" using l(3) by blast
  from insert_pointers_ok [OF this] have g: "grows ds ds'" "pointers_ok ds'" "words_first ds'" using assms(4-6) l(2) by auto
  have e: "data_get ds' did = Some e" using g(1) assms(9) by (rule data_get_grows)
  let ?p = "code_bytes ds' (take i ops)"
  obtain code where code: "code_at fuel off ds' ?p (ops ! i) code" "bytes_at (bytecode b) ?p code"
    using l(1) assms(7) by (auto simp: laid_out_def)
  then obtain start d where d: "unat start = ?p" "to_fuel_asm fuel (ANonVm (LoadDataId r did)) off start ds' = Inr d"
      "code = instruction_code fuel d"
    by (auto simp: code_at_def assms(8))
  have "data_has_copy_type ds' did = Some False" using e assms(10) by (simp add: data_has_copy_type_def)
  from pointer_load [OF d(2) this g(2) assms(3)]
  obtain reg imm did' w where x: "d = Instructions [instr_new fuel ''LW'' [reg, reg_id_new fuel DATA_SECTION_REGISTER] (Some imm),
      instr_new fuel ''ADD'' [reg, reg, to_reg_id (fuel_regs.truncate fuel) ProgramCounter] None]"
    "8 * unat imm = data_id_to_offset ds' did'" "get_data_word ds' did' = Some w"
    "unat start + 4 + unat w = unat off + data_id_to_offset ds' did"
    "allocated_to_reg_id (fuel_regs.truncate fuel) r = Inr reg" by blast
  obtain pointer where pointer: "data_get ds' did' = Some pointer" "entry_value pointer = Word w"
    using x(3) by (auto simp: get_data_word_def split: option.splits datum.splits)
  have at: "bytes_at (bytecode b) (unat off + data_id_to_offset ds' did) (to_bytes e)"
    "bytes_at (bytecode b) (unat off + data_id_to_offset ds' did') (to_bytes pointer)"
    using l(1) e pointer(1) by (auto simp: laid_out_def)
  have "pointer \<in> set (iter_all_entries ds')" using pointer(1) nth_mem by (auto simp: data_get_absolute)
  then have "take 8 (to_bytes pointer) = be_bytes 8 w" using g(3) pointer(2) by (simp add: words_first_def)
  then have "bytes_at (bytecode b) (unat off + data_id_to_offset ds' did') (be_bytes 8 w)" using bytes_at_take [OF at(2), of 8] by simp
  then show ?thesis unfolding Let_def
    by (intro exI [of _ off] exI [of _ reg] exI [of _ imm] exI [of _ w])
      (use at(1) l(1) code(2) d(1,3) x in \<open>simp add: laid_out_def instruction_code_def\<close>)
qed

section \<open>Examples\<close>

definition example_fuel :: "(u8, string \<times> u8 list \<times> u64 option) fuel_asm" where
  "example_fuel = \<lparr>vm_reg = vm_reg example_fuel_regs, reg_id_new = reg_id_new example_fuel_regs,
     instr_new = (\<lambda>name ids imm. (name, ids, imm)),
     instr_bytes = (\<lambda>(name, ids, imm). [of_nat (length name), of_nat (length ids), 0, 0])\<rparr>"

definition layout_ops :: "allocated_op list" where
  "layout_ops = map (\<lambda>oc. \<lparr>ao_opcode = oc, ao_comment = [], ao_span = None\<rparr>)
     [ANonVm (LoadDataId (Allocated 1) \<lparr>data_idx = 0, data_kind = NonConfigurable\<rparr>), AAlu NOOP]"

definition layout_entry :: entry where
  "layout_entry = new_byte_array [1, 2, 3, 4, 5, 6, 7, 8, 9] EntryNonConfigurable None"

definition layout_section :: data_section where
  "layout_section = \<lparr>non_configurables = [layout_entry],
     configurables = [new_byte 7 (EntryConfigurable ''C'') None], pointer_id = Map.empty\<rparr>"

definition layout_final :: data_section where
  "layout_final = layout_section\<lparr>non_configurables := [layout_entry, new_word 12 EntryNonConfigurable None],
     pointer_id := [12 \<mapsto> \<lparr>data_idx = 1, data_kind = NonConfigurable\<rparr>]\<rparr>"

abbreviation layout_pad :: allocated_op where
  "layout_pad \<equiv> \<lparr>ao_opcode = AAlu NOOP, ao_comment = ''word-alignment of data section'', ao_span = None\<rparr>"

lemma layout_entries [simp]:
  "entry_has_copy_type layout_entry = False" "entry_is_byte layout_entry = False"
  "entry_has_copy_type (new_word w n p) = True" "entry_is_byte (new_word w n p) = False"
  "entry_equiv layout_entry (new_word w EntryNonConfigurable None) = False"
  "length (to_bytes layout_entry) = 16" "length (to_bytes (new_byte x n None)) = 1"
  "length (to_bytes (new_word w n None)) = 8" "entry_name_of (new_word w n p) = n" "entry_name_of (new_byte x n p) = n"
  by (simp_all add: layout_entry_def new_byte_array_def new_byte_def new_word_def entry_has_copy_type_def entry_is_byte_def
      entry_equiv_def pad_bytes_length array_bytes_def default_for_byte_array_def default_for_u8_def default_for_u64_def
      target_size_def unwrap_or_def round_up_nat_def equiv_data.simps)

lemma layout_append: "append_pointer layout_section 12 = (\<lparr>data_idx = 1, data_kind = NonConfigurable\<rparr>, layout_final)"
  by (simp add: append_pointer_def insert_data_value_def insert_entry_def layout_section_def layout_final_def vec_push_def)

lemma layout_sized:
  "bindE (foldM (add_size layout_section) layout_ops 0) (pad_ops layout_ops) = Inr (layout_ops @ [layout_pad], 16)"
  by (simp add: layout_ops_def layout_section_def add_size_def op_size_in_bytes_def data_has_copy_type_def data_get_def
      list_get_def unwrap_or_panic_def add_u64_def pad_ops_def vec_push_def)

lemmas layout_eval = layout_ops_def insert_pointer_def add_size_def op_size_in_bytes_def data_has_copy_type_def data_is_byte_def
  data_get_def list_get_def unwrap_or_panic_def sub_u64_def add_u64_def data_id_to_offset_def absolute_idx_def
  absolute_idx_to_offset_def iter_all_entries_def round_up_nat_def emit_op_def to_fuel_asm_def encode_def encode_alu_def

lemma layout_pointers: "foldM (insert_pointer 16) (layout_ops @ [layout_pad]) (0, layout_section) = Inr (16, layout_final)"
  by (simp add: layout_eval layout_append) (simp add: layout_eval layout_section_def layout_append [unfolded layout_section_def] layout_final_def)

text \<open>A load through a pointer that is stored in the second entry.\<close>

lemma two_step_load:
  assumes "data_has_copy_type ds \<lparr>data_idx = 0, data_kind = NonConfigurable\<rparr> = Some False"
    "data_is_byte ds \<lparr>data_idx = 0, data_kind = NonConfigurable\<rparr> = Some False"
    "data_id_to_offset ds \<lparr>data_idx = 0, data_kind = NonConfigurable\<rparr> = 0"
    "data_id_of_pointer ds 12 = Some \<lparr>data_idx = 1, data_kind = NonConfigurable\<rparr>"
    "data_has_copy_type ds \<lparr>data_idx = 1, data_kind = NonConfigurable\<rparr> = Some True"
    "data_is_byte ds \<lparr>data_idx = 1, data_kind = NonConfigurable\<rparr> = Some False"
    "(of_nat (data_id_to_offset ds \<lparr>data_idx = 1, data_kind = NonConfigurable\<rparr>) :: u64) mod 8 = 0"
    "imm12_new (of_nat (data_id_to_offset ds \<lparr>data_idx = 1, data_kind = NonConfigurable\<rparr>) div 8) = Inr k" "ucast (value12 k) = imm"
  shows "realize_load 2 example_fuel (Allocated 1) \<lparr>data_idx = 0, data_kind = NonConfigurable\<rparr> ds 16 0 =
     Inr [instr_new example_fuel ''LW'' [reg_id_new example_fuel 17, reg_id_new example_fuel DATA_SECTION_REGISTER] (Some imm),
       instr_new example_fuel ''ADD'' [reg_id_new example_fuel 17, reg_id_new example_fuel 17, vm_reg example_fuel ProgramCounter] None]"
proof -
  have small: "imm12_new 0 = Inr \<lparr>value12 = 0\<rparr>"
    by (simp add: imm12_new_def TWELVE_BITS_def try_into_def unwrap_or_panic_def)
  have "realize_load (Suc (Suc 0)) example_fuel (Allocated 1) \<lparr>data_idx = 0, data_kind = NonConfigurable\<rparr> ds 16 0 =
     Inr [instr_new example_fuel ''LW'' [reg_id_new example_fuel 17, reg_id_new example_fuel DATA_SECTION_REGISTER] (Some imm),
       instr_new example_fuel ''ADD'' [reg_id_new example_fuel 17, reg_id_new example_fuel 17, vm_reg example_fuel ProgramCounter] None]"
    by (simp add: realize_load.simps assms small unwrap_or_panic_def assert_or_panic_def expect_ok_def sub_u64_def add_u64_def
        fuel_regs.truncate_def)
  then show ?thesis unfolding numeral_2_eq_2 by simp
qed

lemma layout_load:
  "realize_load 2 example_fuel (Allocated 1) \<lparr>data_idx = 0, data_kind = NonConfigurable\<rparr> layout_final 16 0 =
     Inr [instr_new example_fuel ''LW'' [reg_id_new example_fuel 17, reg_id_new example_fuel DATA_SECTION_REGISTER] (Some 2),
       instr_new example_fuel ''ADD'' [reg_id_new example_fuel 17, reg_id_new example_fuel 17, vm_reg example_fuel ProgramCounter] None]"
  by (rule two_step_load [where k = "\<lparr>value12 = 2\<rparr>"])
    (simp_all add: layout_eval layout_final_def layout_section_def data_id_of_pointer_def imm12_new_def TWELVE_BITS_def try_into_def)

lemma layout_emitted: "\<exists>s. foldM (emit_op example_fuel 16 layout_final) (layout_ops @ [layout_pad])
   \<lparr>bytes = [], half_word_ix = 0, from_instr_start = 0, source_spans = []\<rparr> = Inr s \<and> half_word_ix s = 4 \<and> length (bytes s) = 16"
  by (simp add: layout_eval layout_load) (simp add: layout_final_def layout_section_def example_fuel_def emit_instruction_def)

lemma layout_named: "\<exists>m. foldM (named_offset layout_final 16) (enumerate 0 (configurables layout_final)) Map.empty = Inr m"
  by (simp add: layout_final_def layout_section_def named_offset_def) (simp add: layout_eval)

lemma layout_run: "\<exists>b spans. to_bytecode_mut example_fuel layout_ops layout_section = Inr (b, layout_final, spans)"
proof -
  obtain s where s: "foldM (emit_op example_fuel 16 layout_final) (layout_ops @ [layout_pad])
      \<lparr>bytes = [], half_word_ix = 0, from_instr_start = 0, source_spans = []\<rparr> = Inr s" "half_word_ix s = 4" "length (bytes s) = 16"
    using layout_emitted by blast
  obtain m where m: "foldM (named_offset layout_final 16) (enumerate 0 (configurables layout_final)) Map.empty = Inr m"
    using layout_named by blast
  obtain offset where "foldM (add_size layout_section) layout_ops 0 = Inr offset" "pad_ops layout_ops offset = Inr (layout_ops @ [layout_pad], 16)"
    using layout_sized by (auto simp: bindE_Inr_iff)
  then show ?thesis using s m layout_pointers by (simp add: to_bytecode_mut_def assert_or_panic_def)
qed

lemma layout_hyps:
  "\<forall>i. length (instr_bytes example_fuel i) = 4" "length (serialize_to_bytes layout_final) < 2 ^ 64"
  "pointers_ok layout_section" "words_first layout_section" "length (non_configurables layout_section) + length layout_ops < 2 ^ 32 - 1"
  "data_get layout_section \<lparr>data_idx = 0, data_kind = NonConfigurable\<rparr> = Some layout_entry"
proof -
  have "length (serialize_to_bytes layout_final) = fold (\<lambda>e n. round_up_nat (n + length (to_bytes e))) (iter_all_entries layout_final) 0"
    using serialize_length [of "[]" "iter_all_entries layout_final"] by (simp add: serialize_to_bytes_def)
  then show "length (serialize_to_bytes layout_final) < 2 ^ 64"
    by (simp add: iter_all_entries_def layout_final_def layout_section_def round_up_nat_def)
qed (simp_all add: example_fuel_def layout_section_def layout_ops_def pointers_ok_def data_get_def list_get_def
    words_first_def iter_all_entries_def layout_entry_def new_byte_array_def new_byte_def split: prod.split)

theorem bytecode_layout_witness:
  "\<exists>b spans off. to_bytecode_mut example_fuel layout_ops layout_section = Inr (b, layout_final, spans)
    \<and> laid_out example_fuel layout_ops layout_final off b"
  using layout_run bytecode_layout [OF _ layout_hyps(1,2)] by blast

theorem large_entry_address_witness:
  "\<exists>b spans w. to_bytecode_mut example_fuel layout_ops layout_section = Inr (b, layout_final, spans)
    \<and> bytes_at (bytecode b) (4 + unat (w :: u64)) (to_bytes layout_entry)
    \<and> (\<exists>n. bytes_at (bytecode b) n (be_bytes 8 w))"
proof -
  obtain b spans where run: "to_bytecode_mut example_fuel layout_ops layout_section = Inr (b, layout_final, spans)"
    using layout_run by blast
  have "0 < length layout_ops" "ao_opcode (layout_ops ! 0) = ANonVm (LoadDataId (Allocated 1) \<lparr>data_idx = 0, data_kind = NonConfigurable\<rparr>)"
      "\<not> entry_has_copy_type layout_entry"
    by (simp_all add: layout_ops_def)
  from large_entry_address [OF run layout_hyps(1-5) this(1,2) layout_hyps(6) this(3)] run
  show ?thesis by (auto simp: code_bytes_def Let_def)
qed

section \<open>A moving configurable\<close>

text \<open>
  The size of an instruction that takes the address of a configurable is computed before the
  pointers are stored, which moves the configurables.
\<close>

definition moved_ops :: "allocated_op list" where
  "moved_ops = map (\<lambda>oc. \<lparr>ao_opcode = oc, ao_comment = [], ao_span = None\<rparr>)
     [ANonVm (LoadDataId (Allocated 1) \<lparr>data_idx = 0, data_kind = NonConfigurable\<rparr>),
      ANonVm (AddrDataId (Allocated 0) \<lparr>data_idx = 0, data_kind = Configurable\<rparr>)]"

definition moved_entry :: entry where
  "moved_entry = new_byte_array (replicate 4088 0) EntryNonConfigurable None"

definition moved_section :: data_section where
  "moved_section = \<lparr>non_configurables = [moved_entry],
     configurables = [new_word 7 (EntryConfigurable ''C'') None], pointer_id = Map.empty\<rparr>"

definition moved_final :: data_section where
  "moved_final = moved_section\<lparr>non_configurables := [moved_entry, new_word 12 EntryNonConfigurable None],
     pointer_id := [12 \<mapsto> \<lparr>data_idx = 1, data_kind = NonConfigurable\<rparr>]\<rparr>"

lemma moved_entry_simps [simp]:
  "entry_has_copy_type moved_entry = False" "entry_is_byte moved_entry = False"
  "entry_equiv moved_entry (new_word w EntryNonConfigurable None) = False" "length (to_bytes moved_entry) = 4088"
  by (simp_all add: moved_entry_def new_byte_array_def new_word_def entry_has_copy_type_def entry_is_byte_def
      entry_equiv_def pad_bytes_length array_bytes_def default_for_byte_array_def target_size_def unwrap_or_def
      round_up_nat_def equiv_data.simps)

lemma moved_append: "append_pointer moved_section 12 = (\<lparr>data_idx = 1, data_kind = NonConfigurable\<rparr>, moved_final)"
  by (simp add: append_pointer_def insert_data_value_def insert_entry_def moved_section_def moved_final_def vec_push_def)

lemma moved_sized: "bindE (foldM (add_size moved_section) moved_ops 0) (pad_ops moved_ops) = Inr (moved_ops @ [layout_pad], 16)"
  by (simp add: layout_eval moved_ops_def moved_section_def IMM12_MAX_def pad_ops_def vec_push_def)

lemma moved_pointers: "\<exists>q. foldM (insert_pointer 16) (moved_ops @ [layout_pad]) (0, moved_section) = Inr (q, moved_final)"
  by (simp add: layout_eval moved_ops_def moved_append)
    (simp add: layout_eval moved_section_def moved_append [unfolded moved_section_def] moved_final_def IMM12_MAX_def)

lemma moved_load:
  "realize_load 2 example_fuel (Allocated 1) \<lparr>data_idx = 0, data_kind = NonConfigurable\<rparr> moved_final 16 0 =
     Inr [instr_new example_fuel ''LW'' [reg_id_new example_fuel 17, reg_id_new example_fuel DATA_SECTION_REGISTER] (Some 511),
       instr_new example_fuel ''ADD'' [reg_id_new example_fuel 17, reg_id_new example_fuel 17, vm_reg example_fuel ProgramCounter] None]"
  by (rule two_step_load [where k = "\<lparr>value12 = 511\<rparr>"])
    (simp_all add: layout_eval moved_final_def moved_section_def data_id_of_pointer_def imm12_new_def TWELVE_BITS_def try_into_def)

lemma moved_address:
  "addr_of example_fuel (Allocated 0) \<lparr>data_idx = 0, data_kind = Configurable\<rparr> moved_final =
     Inr [instr_new example_fuel ''MOVI'' [reg_id_new example_fuel 16] (Some 4096),
       instr_new example_fuel ''ADD'' [reg_id_new example_fuel 16, reg_id_new example_fuel 16, reg_id_new example_fuel DATA_SECTION_REGISTER] None]"
  by (simp add: addr_of_def layout_eval moved_final_def moved_section_def IMM12_MAX_def try_into_def fuel_regs.truncate_def)

lemma moved_emitted: "\<exists>s. foldM (emit_op example_fuel 16 moved_final) (moved_ops @ [layout_pad])
   \<lparr>bytes = [], half_word_ix = 0, from_instr_start = 0, source_spans = []\<rparr> = Inr s \<and> half_word_ix s = 5"
  by (simp add: layout_eval moved_ops_def moved_load moved_address)
    (simp add: moved_final_def moved_section_def example_fuel_def emit_instruction_def IMM12_MAX_def)

text \<open>
  The pointers that are stored for loads of large entries can move a configurable past the
  reach of a short address computation; the code then has another length than was computed,
  and the assertion on it panics.
\<close>

theorem moved_configurable_panics:
  "to_bytecode_mut example_fuel moved_ops moved_section = Inl (Panic ''assertion failed'')"
proof -
  obtain s where s: "foldM (emit_op example_fuel 16 moved_final) (moved_ops @ [layout_pad])
      \<lparr>bytes = [], half_word_ix = 0, from_instr_start = 0, source_spans = []\<rparr> = Inr s" "half_word_ix s = 5"
    using moved_emitted by blast
  obtain offset q where "foldM (add_size moved_section) moved_ops 0 = Inr offset" "pad_ops moved_ops offset = Inr (moved_ops @ [layout_pad], 16)"
      "foldM (insert_pointer 16) (moved_ops @ [layout_pad]) (0, moved_section) = Inr (q, moved_final)"
    using moved_sized moved_pointers by (auto simp: bindE_Inr_iff)
  then show ?thesis using s by (simp add: to_bytecode_mut_def assert_or_panic_def)
qed

end
