(* ===== verification/Sway_Decimal.thy ===== *)
theory Sway_Decimal
  imports Sway_Prelude
begin

text \<open>
  Decimal numbers as text: \<^verbatim>\<open>to_string\<close> of the unsigned integers and \<^verbatim>\<open>parse\<close> for \<^verbatim>\<open>u64\<close>, which allows
  a leading plus sign.
\<close>

definition digit :: "nat \<Rightarrow> char" where
  "digit n = char_of (48 + n)"

fun to_string :: "nat \<Rightarrow> string" where
  "to_string n = (if n < 10 then [digit n] else to_string (n div 10) @ [digit (n mod 10)])"

declare to_string.simps [simp del]

fun parse_digits :: "nat \<Rightarrow> string \<Rightarrow> nat option" where
  "parse_digits acc [] = Some acc"
| "parse_digits acc (c # cs) =
     (let d = of_char c :: nat in if 48 \<le> d \<and> d \<le> 57 then parse_digits (10 * acc + (d - 48)) cs else None)"

definition strip_plus :: "string \<Rightarrow> string" where
  "strip_plus s = (case s of [] \<Rightarrow> [] | c # cs \<Rightarrow> if c = CHR ''+'' then cs else s)"

definition parse_u64 :: "string \<Rightarrow> u64 option" where
  "parse_u64 s =
     (if strip_plus s = [] then None
      else (case parse_digits 0 (strip_plus s) of
          Some n \<Rightarrow> if n < 2 ^ 64 then Some (of_nat n) else None
        | None \<Rightarrow> None))"

lemma of_char_digit: "n < 10 \<Longrightarrow> (of_char (digit n) :: nat) = 48 + n"
  by (simp add: digit_def take_bit_nat_eq_self)

lemma parse_digits_append: "parse_digits acc (xs @ ys) = Option.bind (parse_digits acc xs) (\<lambda>n. parse_digits n ys)"
  by (induction xs arbitrary: acc) (auto simp: Let_def)

lemma parse_digits_to_string: "parse_digits 0 (to_string n) = Some n"
proof (induction n rule: to_string.induct)
  case (1 n)
  show ?case
  proof (cases "n < 10")
    case True
    then show ?thesis by (simp add: to_string.simps [of n] of_char_digit)
  next
    case False
    then show ?thesis using 1 by (simp add: to_string.simps [of n] parse_digits_append of_char_digit)
  qed
qed

lemma to_string_inject: "to_string m = to_string n \<Longrightarrow> m = n"
  by (metis option.inject parse_digits_to_string)

lemma to_string_Cons: "\<exists>d cs. to_string n = digit d # cs \<and> d < 10"
proof (induction n rule: to_string.induct)
  case (1 n)
  then show ?case by (cases "n < 10") (auto simp: to_string.simps [of n])
qed

lemma parse_u64_to_string: "n < 2 ^ 64 \<Longrightarrow> parse_u64 (to_string n) = Some (of_nat n)"
proof -
  obtain d cs where s: "to_string n = digit d # cs" "d < 10" using to_string_Cons by blast
  have "digit d \<noteq> CHR ''+''" using of_char_digit [OF s(2)] by auto
  then have "strip_plus (to_string n) = to_string n" "to_string n \<noteq> []" using s(1) by (simp_all add: strip_plus_def)
  then show "n < 2 ^ 64 \<Longrightarrow> ?thesis" by (simp add: parse_u64_def parse_digits_to_string)
qed

end
