(* ===== verification/Asm_Entry.thy ===== *)
theory Asm_Entry
  imports Asm_Emit Asm_Optimize Sway_Decimal
begin

text \<open>
  The beginning of the back end: \<^verbatim>\<open>globals_section.rs\<close>, \<^verbatim>\<open>register_sequencer.rs\<close> and
  \<^verbatim>\<open>programs/abstract.rs\<close>, which puts the prologue and the selection of a contract method before
  the code of the functions and lowers each function, and \<^verbatim>\<open>FuelAsmBuilder::finalize\<close>, which runs
  the whole back end. What is printed on the way is left out.
\<close>

section \<open>Globals\<close>

record global_content =
  global_name :: string
  global_size_in_bytes :: u64
  global_offset_in_bytes :: u64

record globals_section =
  global_entries :: "global_content list"
  current_offset_in_bytes :: u64

definition globals_default :: globals_section where
  "globals_default = \<lparr>global_entries = [], current_offset_in_bytes = 0\<rparr>"

definition globals_insert :: "globals_section \<Rightarrow> string \<Rightarrow> u64 \<Rightarrow> globals_section result" where
  "globals_insert self name num_bytes =
     (let g = \<lparr>global_name = name, global_size_in_bytes = num_bytes,
                global_offset_in_bytes = current_offset_in_bytes self\<rparr>;
          self = self\<lparr>global_entries := vec_push (global_entries self) g\<rparr>
      in bindE (add_u64 (current_offset_in_bytes self) num_bytes) (\<lambda>offset.
         Inr (self\<lparr>current_offset_in_bytes := offset\<rparr>)))"

definition len_in_bytes :: "globals_section \<Rightarrow> u64 result" where
  "len_in_bytes self = foldM (\<lambda>x acc. add_u64 acc (global_size_in_bytes x)) (global_entries self) 0"

definition get_by_name :: "globals_section \<Rightarrow> string \<Rightarrow> global_content option" where
  "get_by_name self name = find (\<lambda>x. global_name x = name) (global_entries self)"

section \<open>Fresh registers and labels\<close>

record register_sequencer =
  next_register :: nat
  next_jump_label :: nat

definition sequencer_new :: register_sequencer where
  "sequencer_new = \<lparr>next_register = 0, next_jump_label = 0\<rparr>"

definition sequencer_next :: "register_sequencer \<Rightarrow> virtual_register \<times> register_sequencer" where
  "sequencer_next self =
     (let next_val = next_register self
      in (Virtual (to_string next_val), self\<lparr>next_register := next_val + 1\<rparr>))"

definition get_label :: "register_sequencer \<Rightarrow> label \<times> register_sequencer" where
  "get_label self = (let next_val = next_jump_label self in (next_val, self\<lparr>next_jump_label := next_val + 1\<rparr>))"

section \<open>Programs\<close>

record 'd abstract_entry =
  ae_selector :: selector_opt
  ae_label :: label
  ae_ops :: "op list"
  ae_name :: string
  ae_test_decl_ref :: "'d option"

record 'd abstract_program =
  ab_kind :: program_kind
  ab_data_section :: data_section
  ab_globals_section :: globals_section
  ab_before_entries :: "op list"
  ab_entries :: "'d abstract_entry list"
  ab_non_entries :: "op list list"
  ab_reg_seqr :: register_sequencer
  ab_new_encoding :: bool

definition program_is_empty :: "'d abstract_program \<Rightarrow> bool" where
  "program_is_empty self \<longleftrightarrow>
     ab_non_entries self = [] \<and> ab_entries self = [] \<and> iter_all_entries (ab_data_section self) = []"

text \<open>An instruction without a place in the source.\<close>

definition prologue_op :: "allocated_opcode + allocated_register control_flow_op \<Rightarrow> string \<Rightarrow> allocated_abstract_op" where
  "prologue_op oc cmt = \<lparr>alloc_opcode = oc, alloc_comment = cmt, alloc_owning_span = None\<rparr>"

definition ds_register :: allocated_register where
  "ds_register = AllocatedConstant DataSectionStart"

definition build_prologue :: "'d abstract_program \<Rightarrow> (allocated_abstract_op list \<times> 'd abstract_program) result" where
  "build_prologue self =
     (let (label, seqr) = get_label (ab_reg_seqr self)
      in bindE (imm12_new_unchecked 1 ''1 doesn't fit in 12 bits'') (\<lambda>one.
         Inr ([prologue_op (Inl (AAlu (MOVE scratch_register (AllocatedConstant ProgramCounter)))) [],
               prologue_op (Inr (Jump label)) [],
               prologue_op (Inr control_flow_op.DataSectionOffsetPlaceholder) ''data section offset'',
               prologue_op (Inr control_flow_op.ConfigurablesOffsetPlaceholder) ''configurables offset'',
               prologue_op (Inr (Label label)) ''end of configurables offset'',
               prologue_op (Inl (AMemory (alloc_memory_op.LW ds_register scratch_register one))) [],
               prologue_op (Inl (AAlu (ADD ds_register ds_register scratch_register))) []],
              self\<lparr>ab_reg_seqr := seqr\<rparr>)))"

definition append_globals_allocation ::
  "'d abstract_program \<Rightarrow> allocated_abstract_op list \<Rightarrow> allocated_abstract_op list result" where
  "append_globals_allocation self asm =
     bindE (len_in_bytes (ab_globals_section self)) (\<lambda>len.
     bindE (imm24_new_unchecked len ''length (bytes) must fit in 24 bits'') (\<lambda>imm.
     Inr (vec_push asm (prologue_op (Inl (AMemory (alloc_memory_op.CFEI imm))) ''allocate stack space for globals''))))"

definition append_jump_to_entry ::
  "'d abstract_program \<Rightarrow> allocated_abstract_op list \<Rightarrow> allocated_abstract_op list result" where
  "append_jump_to_entry self asm =
     bindE (unwrap_or_panic ''called unwrap on a None value'' (find (\<lambda>x. ae_name x = ''__entry'') (ab_entries self))) (\<lambda>entry.
     Inr (vec_push asm (prologue_op (Inr (Jump (ae_label entry))) ''jump to ABI function selector'')))"

section \<open>Selection of a contract method\<close>

definition SELECTOR_WORD_OFFSET :: u64 where
  "SELECTOR_WORD_OFFSET = 73"

definition MISMATCHED_SELECTOR_REVERT_CODE :: u32 where
  "MISMATCHED_SELECTOR_REVERT_CODE = 123"

definition INPUT_SELECTOR_REG :: allocated_register where
  "INPUT_SELECTOR_REG = Allocated 0"

definition PROG_SELECTOR_REG :: allocated_register where
  "PROG_SELECTOR_REG = Allocated 1"

definition CMP_RESULT_REG :: allocated_register where
  "CMP_RESULT_REG = Allocated 2"

definition from_be_bytes :: "u8 list \<Rightarrow> u32" where
  "from_be_bytes bs = fold (\<lambda>b acc. push_bit 8 acc OR ucast b) bs 0"

definition selector_case ::
  "'d abstract_entry \<Rightarrow> allocated_abstract_op list \<times> data_section \<Rightarrow> allocated_abstract_op list \<times> data_section" where
  "selector_case entry = (\<lambda>(asm, data_section).
     case ae_selector entry of
       None \<Rightarrow> (asm, data_section)
     | Some selector \<Rightarrow>
         let (data_label, data_section) =
               insert_data_value data_section (new_word (ucast (from_be_bytes selector)) EntryNonConfigurable None)
         in (asm @
              [prologue_op (Inl (ANonVm (LoadDataId PROG_SELECTOR_REG data_label)))
                 (''[function selection]: load function '' @ ae_name entry @ '' selector for comparison''),
               prologue_op (Inl (AAlu (EQ CMP_RESULT_REG INPUT_SELECTOR_REG PROG_SELECTOR_REG)))
                 (''[function selection]: compare function '' @ ae_name entry @ '' selector with input selector''),
               prologue_op (Inr (JumpIfNotZero CMP_RESULT_REG (ae_label entry)))
                 ''[function selection]: jump to selected contract function''],
             data_section))"

definition append_encoding_v0_contract_abi_switch ::
  "'d abstract_program \<Rightarrow> allocated_abstract_op list \<Rightarrow> label option
    \<Rightarrow> (allocated_abstract_op list \<times> 'd abstract_program) result" where
  "append_encoding_v0_contract_abi_switch self asm fallback_fn =
     bindE (imm12_new_unchecked SELECTOR_WORD_OFFSET ''constant infallible value'') (\<lambda>offset.
     bindE (imm18_new_unchecked (ucast MISMATCHED_SELECTOR_REVERT_CODE) ''constant must fit in 18 bits'') (\<lambda>code.
     let begin_switch =
           [prologue_op (Inr Comment) ''[function selection]: begin contract function selector switch'',
            prologue_op (Inl (AMemory (alloc_memory_op.LW INPUT_SELECTOR_REG (AllocatedConstant FramePointer) offset)))
              ''[function selection]: load input function selector''];
         (asm, data_section) = fold selector_case (ab_entries self) (asm @ begin_switch, ab_data_section self);
         fallback = (case fallback_fn of
             Some fallback_fn \<Rightarrow> [prologue_op (Inr (Call fallback_fn)) ''[function selection]: call contract fallback function'']
           | None \<Rightarrow> []);
         revert =
           [prologue_op (Inl (AAlu (MOVI scratch_register code)))
              ''[function selection]: load revert code for mismatched function selector'',
            prologue_op (Inl (AContract (RVRT scratch_register))) ''[function selection]: revert if no selectors have matched'']
     in Inr (asm @ fallback @ revert, self\<lparr>ab_data_section := data_section\<rparr>)))"

section \<open>Lowering\<close>

text \<open>
  What the back end takes from other libraries: the graph and the order of hash sets of the
  register allocator, the order of the hash set of the verifier, the registers of the machine; and
  the fuel of the optimizer and of the allocator.
\<close>

record ('g, 'id) lowering =
  low_graph :: "'g graph_api"
  low_order :: hash_order
  low_fuel_regs :: "'id fuel_regs"
  low_reg_u8 :: "'id \<Rightarrow> u8"
  low_optimize_fuel :: nat
  low_allocate_fuel :: nat

definition optimize_and_verify :: "('g, 'id) lowering \<Rightarrow> data_section \<Rightarrow> op list \<Rightarrow> op list result" where
  "optimize_and_verify low ds ops =
     bindE (optimize (low_optimize_fuel low) ds ops) (verify (reg_order (low_order low)))"

definition allocate_function :: "('g, 'id) lowering \<Rightarrow> op list \<Rightarrow> allocated_abstract_op list result" where
  "allocate_function low ops =
     bindE (allocate_registers (low_graph low) (low_order low) (low_allocate_fuel low) ops)
       (emit_pusha_popa (low_fuel_regs low) (low_reg_u8 low))"

definition append_before_entries ::
  "('g, 'id) lowering \<Rightarrow> 'd abstract_program \<Rightarrow> allocated_abstract_op list \<Rightarrow> allocated_abstract_op list result" where
  "append_before_entries low self prologue =
     bindE (optimize_and_verify low (ab_data_section self) (ab_before_entries self)) (\<lambda>before_entries.
     bindE (allocate_registers (low_graph low) (low_order low) (low_allocate_fuel low) before_entries) (\<lambda>before_entries.
     Inr (prologue @ before_entries)))"

definition into_allocated_program ::
  "('g, 'id) lowering \<Rightarrow> 'd abstract_program \<Rightarrow> label option \<Rightarrow> 'd allocated_program result" where
  "into_allocated_program low self fallback_fn =
     bindE (build_prologue self) (\<lambda>(prologue, self).
     bindE (append_globals_allocation self prologue) (\<lambda>prologue.
     bindE (append_before_entries low self prologue) (\<lambda>prologue.
     bindE (case (ab_new_encoding self, ab_kind self) of
         (True, Contract_Program) \<Rightarrow> bindE (append_jump_to_entry self prologue) (\<lambda>prologue. Inr (prologue, self))
       | (False, Contract_Program) \<Rightarrow> append_encoding_v0_contract_abi_switch self prologue fallback_fn
       | _ \<Rightarrow> Inr (prologue, self)) (\<lambda>(prologue, self).
     let entries = map (\<lambda>entry. (ae_selector entry, ae_label entry, ae_name entry, ae_test_decl_ref entry)) (ab_entries self);
         all_functions = map ae_ops (ab_entries self) @ ab_non_entries self
     in bindE (mapM (optimize_and_verify low (ab_data_section self)) all_functions) (\<lambda>abstract_functions.
        bindE (mapM (allocate_function low) abstract_functions) (\<lambda>allocated_functions.
        Inr \<lparr>ap_kind = ab_kind self, ap_data_section = ab_data_section self, ap_prologue = prologue,
             ap_functions = map alloc_optimize allocated_functions, ap_entries = entries\<rparr>))))))"

text \<open>The whole back end, up to the check of opcodes; the check succeeds when it finds no errors.\<close>

definition finalize_program ::
  "('g, 'id) lowering \<Rightarrow> 'd abstract_program \<Rightarrow> label option \<Rightarrow> 'd finalized_asm result" where
  "finalize_program low program fallback_fn =
     bindE (into_allocated_program low program fallback_fn) (\<lambda>allocated.
     bindE (into_final_program allocated) (\<lambda>final. Inr (finalize final)))"

end
