(* ===== verification/Asm_Start.thy ===== *)
theory Asm_Start
  imports Asm_Entry Asm_Properties
begin

text \<open>
  What the beginning of the back end promises: where globals lie, that registers and labels are
  fresh, which method a contract selects, and what stands in the first bytes of the bytecode.
\<close>

section \<open>Globals\<close>

text \<open>Globals lie one behind the other, and the next one behind them all.\<close>

fun globals_from :: "nat \<Rightarrow> global_content list \<Rightarrow> nat \<Rightarrow> bool" where
  "globals_from p [] q \<longleftrightarrow> p = q"
| "globals_from p (g # gs) q \<longleftrightarrow>
     unat (global_offset_in_bytes g) = p \<and> globals_from (p + unat (global_size_in_bytes g)) gs q"

definition globals_ok :: "globals_section \<Rightarrow> bool" where
  "globals_ok g \<longleftrightarrow> globals_from 0 (global_entries g) (unat (current_offset_in_bytes g))"

lemma globals_from_le: "globals_from p gs q \<Longrightarrow> p \<le> q"
  by (induction gs arbitrary: p) fastforce+

lemma globals_from_append:
  "globals_from p (xs @ ys) q \<longleftrightarrow> (\<exists>m. globals_from p xs m \<and> globals_from m ys q)"
  by (induction xs arbitrary: p) auto

lemma globals_insert_ok:
  assumes "globals_insert g n s = Inr g'" "globals_ok g"
  shows "globals_ok g'"
  using assms by (auto simp: globals_insert_def globals_ok_def Let_def bindE_Inr_iff vec_push_def globals_from_append
      add_u64_iff unat_add_u64)

lemma globals_from_len:
  assumes "globals_from (unat acc) gs q" "q < 2 ^ 64"
  shows "\<exists>len. foldM (\<lambda>x acc. add_u64 acc (global_size_in_bytes x)) gs acc = Inr len \<and> unat len = q"
  using assms
proof (induction gs arbitrary: acc)
  case (Cons g gs)
  from Cons.prems have "unat acc + unat (global_size_in_bytes g) < 2 ^ 64" using globals_from_le by fastforce
  then have "add_u64 acc (global_size_in_bytes g) = Inr (acc + global_size_in_bytes g)"
      "unat (acc + global_size_in_bytes g) = unat acc + unat (global_size_in_bytes g)"
    by (simp_all add: add_u64_def unat_add_u64)
  then show ?case using Cons.IH [of "acc + global_size_in_bytes g"] Cons.prems by simp
qed simp

lemma globals_ok_len: "globals_ok g \<Longrightarrow> len_in_bytes g = Inr (current_offset_in_bytes g)"
proof -
  assume "globals_ok g"
  moreover have "unat (current_offset_in_bytes g) < 2 ^ 64" using unsigned_less [of "current_offset_in_bytes g"] by simp
  ultimately show ?thesis using globals_from_len [of 0 "global_entries g" "unat (current_offset_in_bytes g)"]
    by (auto simp: globals_ok_def len_in_bytes_def word_unat_eq_iff)
qed

lemma globals_ok_apart:
  assumes "globals_ok g" "i < j" "j < length (global_entries g)"
  shows "unat (global_offset_in_bytes (global_entries g ! i)) + unat (global_size_in_bytes (global_entries g ! i))
      \<le> unat (global_offset_in_bytes (global_entries g ! j))"
proof -
  let ?es = "global_entries g"
  have split: "?es = take i ?es @ ?es ! i # take (j - Suc i) (drop (Suc i) ?es) @ ?es ! j # drop (Suc j) ?es"
    using assms(2,3) by (metis Cons_nth_drop_Suc Suc_leI append_take_drop_id drop_drop le_add_diff_inverse2 order.strict_trans)
  have "globals_from 0 (take i ?es @ ?es ! i # take (j - Suc i) (drop (Suc i) ?es) @ ?es ! j # drop (Suc j) ?es)
      (unat (current_offset_in_bytes g))"
    using assms(1) split by (simp add: globals_ok_def)
  then show "unat (global_offset_in_bytes (?es ! i)) + unat (global_size_in_bytes (?es ! i)) \<le> unat (global_offset_in_bytes (?es ! j))"
    using globals_from_le unfolding globals_from_append globals_from.simps by blast
qed

lemma globals_from_sum:
  "globals_from p gs q \<Longrightarrow> q = p + (\<Sum>g\<leftarrow>gs. unat (global_size_in_bytes g))
    \<and> (\<forall>j < length gs. unat (global_offset_in_bytes (gs ! j)) = p + (\<Sum>g\<leftarrow>take j gs. unat (global_size_in_bytes g)))"
proof (induction gs arbitrary: p)
  case (Cons g gs)
  then have "unat (global_offset_in_bytes g) = p" "globals_from (p + unat (global_size_in_bytes g)) gs q" by auto
  then show ?case using Cons.IH [of "p + unat (global_size_in_bytes g)"] by (auto simp: nth_Cons take_Cons split: nat.splits)
qed simp

lemma globals_ok_within:
  assumes "globals_ok g" "j < length (global_entries g)"
  shows "unat (global_offset_in_bytes (global_entries g ! j)) + unat (global_size_in_bytes (global_entries g ! j))
      \<le> unat (current_offset_in_bytes g)"
proof -
  let ?es = "global_entries g"
  have "?es = take j ?es @ ?es ! j # drop (Suc j) ?es" using assms(2) by (rule id_take_nth_drop)
  then have "globals_from 0 (take j ?es @ ?es ! j # drop (Suc j) ?es) (unat (current_offset_in_bytes g))"
    using assms(1) by (simp add: globals_ok_def)
  then show ?thesis using globals_from_le unfolding globals_from_append globals_from.simps by blast
qed

section \<open>Fresh names\<close>

text \<open>The registers and labels that a sequencer gives out are fresh.\<close>

fun draw :: "(register_sequencer \<Rightarrow> 'a \<times> register_sequencer) \<Rightarrow> nat \<Rightarrow> register_sequencer \<Rightarrow> 'a list" where
  "draw next_of 0 s = []"
| "draw next_of (Suc n) s = (case next_of s of (x, s') \<Rightarrow> x # draw next_of n s')"

lemma draw_registers: "draw sequencer_next n s = map (\<lambda>i. Virtual (to_string i)) [next_register s..<next_register s + n]"
  by (induction n arbitrary: s) (simp_all add: sequencer_next_def Let_def upt_rec)

lemma draw_labels: "draw get_label n s = [next_jump_label s..<next_jump_label s + n]"
  by (induction n arbitrary: s) (simp_all add: get_label_def Let_def upt_rec)

lemma sequencer_fresh: "distinct (draw sequencer_next n s)" "distinct (draw get_label n s)"
  by (auto simp: draw_registers draw_labels distinct_map inj_on_def dest: to_string_inject)

section \<open>Selection of a contract method\<close>

text \<open>
  Running the selection: the input selector is the word of the call frame that the code loads, a
  load from the data section gives the stored word, a jump or a call leaves with its label, and
  \<^verbatim>\<open>RVRT\<close> leaves without one.
\<close>

datatype selection = Selected label | Reverted | Stuck

fun run_selection :: "data_section \<Rightarrow> u64 \<Rightarrow> (allocated_register \<Rightarrow> u64) \<Rightarrow> allocated_abstract_op list \<Rightarrow> selection" where
  "run_selection ds input regs [] = Stuck"
| "run_selection ds input regs (o' # ops) =
     (case alloc_opcode o' of
        Inr Comment \<Rightarrow> run_selection ds input regs ops
      | Inr (Call l) \<Rightarrow> Selected l
      | Inr (JumpIfNotZero r l) \<Rightarrow> if regs r \<noteq> 0 then Selected l else run_selection ds input regs ops
      | Inl (AMemory (alloc_memory_op.LW r (AllocatedConstant FramePointer) k)) \<Rightarrow>
          if value12 k = 73 then run_selection ds input (regs(r := input)) ops else Stuck
      | Inl (ANonVm (LoadDataId r did)) \<Rightarrow>
          (case get_data_word ds did of Some w \<Rightarrow> run_selection ds input (regs(r := w)) ops | None \<Rightarrow> Stuck)
      | Inl (AAlu (EQ a b c)) \<Rightarrow> run_selection ds input (regs(a := if regs b = regs c then 1 else 0)) ops
      | Inl (AAlu (MOVI r k)) \<Rightarrow> run_selection ds input (regs(r := ucast (value18 k))) ops
      | Inl (AContract (RVRT r)) \<Rightarrow> Reverted
      | _ \<Rightarrow> Stuck)"

text \<open>The label that the input selector asks for.\<close>

fun selected_label :: "u64 \<Rightarrow> 'd abstract_entry list \<Rightarrow> label option" where
  "selected_label input [] = None"
| "selected_label input (e # es) =
     (if map_option (\<lambda>s. ucast (from_be_bytes s)) (ae_selector e) = Some input then Some (ae_label e) else selected_label input es)"

abbreviation selector_ops :: "'d abstract_entry \<Rightarrow> data_id \<Rightarrow> allocated_abstract_op list" where
  "selector_ops e did \<equiv>
     [prologue_op (Inl (ANonVm (LoadDataId PROG_SELECTOR_REG did)))
        (''[function selection]: load function '' @ ae_name e @ '' selector for comparison''),
      prologue_op (Inl (AAlu (EQ CMP_RESULT_REG INPUT_SELECTOR_REG PROG_SELECTOR_REG)))
        (''[function selection]: compare function '' @ ae_name e @ '' selector with input selector''),
      prologue_op (Inr (JumpIfNotZero CMP_RESULT_REG (ae_label e)))
        ''[function selection]: jump to selected contract function'']"

lemma run_selector_ops:
  assumes "get_data_word ds did = Some w" "regs INPUT_SELECTOR_REG = input"
  shows "\<exists>regs'. regs' INPUT_SELECTOR_REG = input \<and> run_selection ds input regs (selector_ops e did @ rest) =
      (if w = input then Selected (ae_label e) else run_selection ds input regs' rest)"
  using assms
  by (intro exI [of _ "regs(PROG_SELECTOR_REG := w, CMP_RESULT_REG := 0)"])
    (auto simp: prologue_op_def INPUT_SELECTOR_REG_def PROG_SELECTOR_REG_def CMP_RESULT_REG_def)

text \<open>The cases of the switch, run on a later data section.\<close>

lemma selector_cases_run:
  assumes "length (non_configurables ds) + length es < 2 ^ 32"
  shows "\<exists>code ds'. fold selector_case es (asm, ds) = (asm @ code, ds') \<and> grows ds ds'
    \<and> (\<forall>final input regs rest. grows ds' final \<longrightarrow> regs INPUT_SELECTOR_REG = input \<longrightarrow>
        (\<exists>regs'. run_selection final input regs (code @ rest) =
          (case selected_label input es of Some l \<Rightarrow> Selected l | None \<Rightarrow> run_selection final input regs' rest)))"
  using assms
proof (induction es arbitrary: asm ds)
  case Nil
  then show ?case by (intro exI [of _ "[]"] exI [of _ ds]) auto
next
  case (Cons e es)
  show ?case
  proof (cases "ae_selector e")
    case None
    then have "selector_case e (asm, ds) = (asm, ds)" by (simp add: selector_case_def)
    then show ?thesis using Cons.IH [of ds asm] Cons.prems None by simp
  next
    case (Some sel)
    let ?w = "ucast (from_be_bytes sel) :: u64"
    obtain did ds1 where i: "insert_data_value ds (new_word ?w EntryNonConfigurable None) = (did, ds1)" by force
    have "length (non_configurables ds) < 2 ^ 32" using Cons.prems by simp
    note ok = insert_word [OF i this]
    have sel: "selector_case e (asm, ds) = (asm @ selector_ops e did, ds1)" using i Some by (simp add: selector_case_def)
    obtain code ds' where c: "fold selector_case es (asm @ selector_ops e did, ds1) = ((asm @ selector_ops e did) @ code, ds')"
        "grows ds1 ds'"
        "\<And>final input regs rest. grows ds' final \<Longrightarrow> regs INPUT_SELECTOR_REG = input \<Longrightarrow>
          \<exists>regs'. run_selection final input regs (code @ rest) =
            (case selected_label input es of Some l \<Rightarrow> Selected l | None \<Rightarrow> run_selection final input regs' rest)"
      using Cons.IH [of ds1 "asm @ selector_ops e did"] ok(3) Cons.prems by fastforce
    have "\<exists>regs'. run_selection final input regs ((selector_ops e did @ code) @ rest) =
          (case selected_label input (e # es) of Some l \<Rightarrow> Selected l | None \<Rightarrow> run_selection final input regs' rest)"
      if g: "grows ds' final" "regs INPUT_SELECTOR_REG = input" for final input regs rest
    proof -
      have w: "get_data_word final did = Some ?w"
        using ok(2) get_data_word_grows grows_trans [OF c(2) g(1)] by blast
      obtain regs1 where r: "regs1 INPUT_SELECTOR_REG = input" "run_selection final input regs (selector_ops e did @ code @ rest) =
          (if ?w = input then Selected (ae_label e) else run_selection final input regs1 (code @ rest))"
        using run_selector_ops [of final did ?w regs input e "code @ rest", OF w g(2)] by blast
      then show ?thesis using c(3) [of final regs1 input rest, OF g(1) r(1)] Some unfolding append_assoc r(2) by auto
    qed
    then show ?thesis using sel c(1,2) ok(1) grows_trans
      by (intro exI [of _ "selector_ops e did @ code"] exI [of _ ds']) auto
  qed
qed

text \<open>The switch that is appended to the prologue.\<close>

lemma switch_runs:
  assumes "append_encoding_v0_contract_abi_switch p asm fb = Inr (asm', p')"
    and "length (non_configurables (ab_data_section p)) + length (ab_entries p) < 2 ^ 32"
  obtains code where "asm' = asm @ code" "grows (ab_data_section p) (ab_data_section p')"
    "\<And>final input regs. grows (ab_data_section p') final \<Longrightarrow> run_selection final input regs code =
      (case selected_label input (ab_entries p) of Some l \<Rightarrow> Selected l
       | None \<Rightarrow> (case fb of Some l \<Rightarrow> Selected l | None \<Rightarrow> Reverted))"
proof -
  let ?load = "prologue_op (Inl (AMemory (alloc_memory_op.LW INPUT_SELECTOR_REG (AllocatedConstant FramePointer) \<lparr>value12 = 73\<rparr>)))
      ''[function selection]: load input function selector''"
  let ?head = "[prologue_op (Inr Comment) ''[function selection]: begin contract function selector switch'', ?load]"
  let ?last = "(case fb of Some l \<Rightarrow> [prologue_op (Inr (Call l)) ''[function selection]: call contract fallback function''] | None \<Rightarrow> [])
    @ [prologue_op (Inl (AAlu (MOVI scratch_register \<lparr>value18 = 123\<rparr>)))
         ''[function selection]: load revert code for mismatched function selector'',
       prologue_op (Inl (AContract (RVRT scratch_register))) ''[function selection]: revert if no selectors have matched'']"
  obtain code ds' where c: "fold selector_case (ab_entries p) (asm @ ?head, ab_data_section p) = ((asm @ ?head) @ code, ds')"
      "grows (ab_data_section p) ds'"
      "\<And>final input regs rest. grows ds' final \<Longrightarrow> regs INPUT_SELECTOR_REG = input \<Longrightarrow>
        \<exists>regs'. run_selection final input regs (code @ rest) =
          (case selected_label input (ab_entries p) of Some l \<Rightarrow> Selected l | None \<Rightarrow> run_selection final input regs' rest)"
    using selector_cases_run [OF assms(2), of "asm @ ?head"] by blast
  have imms: "imm12_new_unchecked SELECTOR_WORD_OFFSET msg = Inr \<lparr>value12 = 73\<rparr>"
      "imm18_new_unchecked (ucast MISMATCHED_SELECTOR_REVERT_CODE) msg = Inr \<lparr>value18 = 123\<rparr>" for msg
    by (simp_all add: imm12_new_unchecked_def imm18_new_unchecked_def SELECTOR_WORD_OFFSET_def
        MISMATCHED_SELECTOR_REVERT_CODE_def try_into_def unwrap_or_panic_def)
  have out: "asm' = asm @ ?head @ code @ ?last" "ab_data_section p' = ds'"
    using assms(1) c(1) by (auto simp: append_encoding_v0_contract_abi_switch_def imms Let_def)
  have run_end: "run_selection final input regs ?last = (case fb of Some l \<Rightarrow> Selected l | None \<Rightarrow> Reverted)" for final input regs
    by (simp add: prologue_op_def split: option.split)
  have "run_selection final input regs (?head @ code @ ?last) =
      (case selected_label input (ab_entries p) of Some l \<Rightarrow> Selected l
       | None \<Rightarrow> (case fb of Some l \<Rightarrow> Selected l | None \<Rightarrow> Reverted))" if g: "grows ds' final" for final input regs
  proof -
    obtain regs' where "run_selection final input (regs(INPUT_SELECTOR_REG := input)) (code @ ?last) =
          (case selected_label input (ab_entries p) of Some l \<Rightarrow> Selected l | None \<Rightarrow> run_selection final input regs' ?last)"
      using c(3) [of final "regs(INPUT_SELECTOR_REG := input)" input ?last, OF g fun_upd_same] by blast
    then show ?thesis unfolding run_end by (simp add: prologue_op_def)
  qed
  then show ?thesis using that [of "?head @ code @ ?last"] out c(2) by simp
qed

section \<open>The prologue\<close>

definition prologue_ops :: "label \<Rightarrow> allocated_abstract_op list" where
  "prologue_ops l =
     [prologue_op (Inl (AAlu (MOVE scratch_register (AllocatedConstant ProgramCounter)))) [],
      prologue_op (Inr (Jump l)) [],
      prologue_op (Inr control_flow_op.DataSectionOffsetPlaceholder) ''data section offset'',
      prologue_op (Inr control_flow_op.ConfigurablesOffsetPlaceholder) ''configurables offset'',
      prologue_op (Inr (Label l)) ''end of configurables offset'',
      prologue_op (Inl (AMemory (alloc_memory_op.LW ds_register scratch_register \<lparr>value12 = 1\<rparr>))) [],
      prologue_op (Inl (AAlu (ADD ds_register ds_register scratch_register))) []]"

lemma build_prologue_ops: "build_prologue p = Inr (ops, p') \<Longrightarrow> ops = prologue_ops (next_jump_label (ab_reg_seqr p))"
  by (auto simp: build_prologue_def prologue_ops_def get_label_def imm12_new_unchecked_def try_into_def unwrap_or_panic_def Let_def)

lemma prologue_label: "labels (prologue_ops l) = [l]" "label_place ds (prologue_ops l @ rest) l = 6"
  by (simp_all add: prologue_ops_def prologue_op_def alloc_label_def op_words_def instruction_size_def)

lemma prologue_kept:
  assumes "rewrite_far_loop offs ds 0 (prologue_ops l @ rest) = Inr (ops', m)" "offs l = Some 6"
  shows "\<exists>rest'. ops' = prologue_ops l @ rest'"
  using assms by (auto simp: prologue_ops_def prologue_op_def instruction_size_def rewrite_far_op_def rewrite_jump_def rel_offset_def
      abs_diff_def unwrap_or_panic_def EIGHTEEN_BITS_def add_u64_def bindE_Inr_iff)

lemma prologue_offset:
  assumes "map_label_offsets (prologue_ops l @ rest) ds = Inr (remap, offs)" "distinct (labels (prologue_ops l @ rest))"
  shows "offs l = Some 6"
proof -
  have "l \<in> set (labels (prologue_ops l @ rest))" by (simp add: prologue_label(1))
  then obtain c where c: "offs l = Some c" "unat c = 6"
    using map_label_offsets_ok(1) [OF assms] prologue_label(2) [of ds l rest] unfolding places_def by fastforce
  then have "c = 6" by (simp add: word_unat_eq_iff)
  with c show ?thesis by simp
qed

lemma resolve_prologue:
  assumes "resolve_labels ds n (prologue_ops l @ rest) = Inr (final, offs)" "distinct (labels (prologue_ops l @ rest))"
  shows "\<exists>rest'. final = prologue_ops l @ rest' \<and> offs l = Some 6"
  using assms
proof (induction "11 - n" arbitrary: n rest rule: less_induct)
  case less
  let ?ops = "prologue_ops l @ rest"
  have small: "\<not> n > 10" using less.prems(1) by (subst (asm) resolve_labels.simps) (auto split: if_splits)
  then obtain remap offs1 where m: "map_label_offsets ?ops ds = Inr (remap, offs1)"
    using less.prems(1) by (subst (asm) resolve_labels.simps) (auto split: sum.splits)
  note six = prologue_offset [OF m less.prems(2)]
  show ?case
  proof (cases remap)
    case False
    then show ?thesis using less.prems(1) small m six by (subst (asm) resolve_labels.simps) auto
  next
    case True
    then obtain ops' modified where r: "rewrite_far_loop offs1 ds 0 ?ops = Inr (ops', modified)"
      using less.prems(1) small m by (subst (asm) resolve_labels.simps) (auto simp: rewrite_far_jumps_def split: sum.splits)
    obtain rest' where rest': "ops' = prologue_ops l @ rest'" using prologue_kept [OF r six] by blast
    have "distinct (labels ops')" using rewrite_far_loop_expands [OF r] expands_labels less.prems(2) by metis
    then show ?thesis
      using less.hyps [of "Suc n" rest'] less.prems(1) small m six True r rest'
      by (subst (asm) resolve_labels.simps) (auto simp: rewrite_far_jumps_def split: if_splits)
  qed
qed

definition prologue_opcodes :: "allocated_opcode list" where
  "prologue_opcodes =
     [AAlu (MOVE scratch_register (AllocatedConstant ProgramCounter)), AControlFlow (JMPF zero_register \<lparr>value18 = 4\<rparr>),
      ANonVm nonvm_op.DataSectionOffsetPlaceholder, ANonVm nonvm_op.ConfigurablesOffsetPlaceholder,
      AMemory (alloc_memory_op.LW ds_register scratch_register \<lparr>value12 = 1\<rparr>), AAlu (ADD ds_register ds_register scratch_register)]"

lemma realize_prologue:
  assumes "realize_loop offs final 0 (prologue_ops l @ rest) 0 ds = Inr (realized, ds')" "offs l = Some 6"
  shows "\<exists>tail. map realized_opcode realized = prologue_opcodes @ tail"
  using assms by (auto simp: prologue_ops_def prologue_op_def prologue_opcodes_def instruction_size_def realize_op_def realize_jump_def
      rel_offset_def abs_diff_def unwrap_or_panic_def sub_u64_def add_u64_def jump_imm_def imm18_new_unchecked_def try_into_def
      realized_like_def skipped_def bindE_Inr_iff)

lemma selector_cases_extend: "\<exists>c ds'. fold selector_case es (asm, ds) = (asm @ c, ds')"
proof (induction es arbitrary: asm ds)
  case (Cons e es)
  have "\<exists>c ds'. selector_case e (asm, ds) = (asm @ c, ds')"
    by (cases "ae_selector e") (simp_all add: selector_case_def split_beta Let_def)
  then obtain c ds1 where "selector_case e (asm, ds) = (asm @ c, ds1)" by blast
  moreover obtain c' ds' where "fold selector_case es (asm @ c, ds1) = ((asm @ c) @ c', ds')" using Cons.IH by blast
  ultimately show ?case by simp
qed simp

lemma switch_extends:
  assumes "append_encoding_v0_contract_abi_switch p asm fb = Inr (asm', p')"
  shows "\<exists>c. asm' = asm @ c"
proof -
  have ext: "\<exists>c. fst (fold selector_case es (asm @ start, ds)) @ rest = asm @ c" for es start ds rest
    using selector_cases_extend [of es "asm @ start" ds] by auto
  show ?thesis
    using assms unfolding append_encoding_v0_contract_abi_switch_def
    by (clarsimp simp: bindE_Inr_iff Let_def split_beta) (rule ext)
qed

lemma program_starts:
  assumes "into_allocated_program low p fb = Inr ap"
  shows "\<exists>rest. ap_prologue ap = prologue_ops (next_jump_label (ab_reg_seqr p)) @ rest"
proof -
  obtain pro p' pro1 pro2 pro3 p3 where s: "build_prologue p = Inr (pro, p')" "append_globals_allocation p' pro = Inr pro1"
      "append_before_entries low p' pro1 = Inr pro2" "ap_prologue ap = pro3"
      "(case (ab_new_encoding p', ab_kind p') of
         (True, Contract_Program) \<Rightarrow> bindE (append_jump_to_entry p' pro2) (\<lambda>prologue. Inr (prologue, p'))
       | (False, Contract_Program) \<Rightarrow> append_encoding_v0_contract_abi_switch p' pro2 fb
       | _ \<Rightarrow> Inr (pro2, p')) = Inr (pro3, p3)"
    using assms unfolding into_allocated_program_def by (auto simp: bindE_Inr_iff Let_def)
  have "\<exists>c. pro3 = pro2 @ c"
    using s(5) switch_extends [of p' pro2 fb pro3 p3]
    by (auto simp: append_jump_to_entry_def bindE_Inr_iff vec_push_def split: bool.splits program_kind.splits)
  moreover have "\<exists>c. pro1 = pro @ c" "\<exists>c. pro2 = pro1 @ c"
    using s(2,3) by (auto simp: append_globals_allocation_def append_before_entries_def bindE_Inr_iff vec_push_def)
  ultimately show ?thesis using s(4) build_prologue_ops [OF s(1)] by auto
qed

lemma final_program_starts:
  assumes "into_allocated_program low p fb = Inr ap" "into_final_program ap = Inr fp"
    and "distinct (labels (ap_prologue ap @ concat (ap_functions ap)))"
  shows "\<exists>tail. map ao_opcode (fp_ops fp) = prologue_opcodes @ tail"
proof -
  obtain l rest where rest: "ap_prologue ap = prologue_ops l @ rest" using program_starts [OF assms(1)] by blast
  obtain realized offs ds' where r: "realize_labels (prologue_ops l @ rest @ concat (ap_functions ap)) (ap_data_section ap)
      = Inr (realized, offs, ds')" "fp_ops fp = allocated_ops realized"
    using assms(2) rest by (auto simp: into_final_program_def bindE_Inr_iff)
  then obtain final where f: "resolve_labels (ap_data_section ap) 0 (prologue_ops l @ rest @ concat (ap_functions ap)) = Inr (final, offs)"
      "realize_loop offs final 0 final 0 (ap_data_section ap) = Inr (realized, ds')"
    by (auto simp: realize_labels_def bindE_Inr_iff)
  obtain rest' where "final = prologue_ops l @ rest'" "offs l = Some 6"
    using resolve_prologue [OF f(1)] assms(3) rest by auto
  then have "\<exists>tail. map realized_opcode realized = prologue_opcodes @ tail" using realize_prologue f(2) by blast
  then show ?thesis using r(2) by (simp add: allocated_ops_def comp_def)
qed

lemma bytes_at_append: "bytes_at c p xs \<Longrightarrow> bytes_at c (p + length xs) ys \<Longrightarrow> bytes_at c p (xs @ ys)"
  by (simp add: bytes_at_def take_add add.commute)

text \<open>The first bytes of a program whose data section starts at an offset.\<close>

definition prelude_bytes :: "('id, 'i) fuel_asm \<Rightarrow> u64 \<Rightarrow> u8 list" where
  "prelude_bytes fuel off =
     (let reg = to_reg_id (fuel_regs.truncate fuel); i = (\<lambda>name ids imm. instr_bytes fuel (instr_new fuel name ids imm)) in
      i ''MOVE'' [reg Scratch, reg ProgramCounter] None @ i ''JMPF'' [reg Zero] (Some 4)
    @ be_bytes 8 off @ replicate 8 0
    @ i ''LW'' [reg DataSectionStart, reg Scratch] (Some 1) @ i ''ADD'' [reg DataSectionStart, reg DataSectionStart, reg Scratch] None)"

lemma prelude_laid_out:
  assumes "laid_out fuel ops ds off b" "map ao_opcode ops = prologue_opcodes @ tail" "\<And>i. length (instr_bytes fuel i) = 4"
  shows "bytes_at (bytecode b) 0 (prelude_bytes fuel off)"
proof -
  obtain o0 o1 o2 o3 o4 o5 rest where ops: "ops = o0 # o1 # o2 # o3 # o4 # o5 # rest"
      "map ao_opcode [o0, o1, o2, o3, o4, o5] = prologue_opcodes"
    using assms(2) by (auto simp: prologue_opcodes_def map_eq_Cons_conv map_eq_append_conv)
  have sizes: "map (op_bytes ds) [o0, o1, o2, o3, o4, o5] = [4, 4, 8, 8, 4, 4]"
    using ops(2) by (simp add: prologue_opcodes_def op_bytes_def op_size_in_bytes_def)
  have "\<exists>code. code_at fuel off ds (code_bytes ds (take i ops)) (ops ! i) code \<and> bytes_at (bytecode b) (code_bytes ds (take i ops)) code"
    if "i < 6" for i
    using assms(1) that ops(1) unfolding laid_out_def by auto
  from this [of 0] this [of 1] this [of 2] this [of 3] this [of 4] this [of 5]
  obtain c0 c1 c2 c3 c4 c5 where at: "bytes_at (bytecode b) 0 c0" "bytes_at (bytecode b) 4 c1" "bytes_at (bytecode b) 8 c2"
      "bytes_at (bytecode b) 16 c3" "bytes_at (bytecode b) 24 c4" "bytes_at (bytecode b) 28 c5"
    and code: "code_at fuel off ds 0 o0 c0" "code_at fuel off ds 4 o1 c1" "code_at fuel off ds 8 o2 c2"
      "code_at fuel off ds 16 o3 c3" "code_at fuel off ds 24 o4 c4" "code_at fuel off ds 28 o5 c5"
    using ops(1) sizes by (auto simp: code_bytes_def numeral_eq_Suc)
  have lens: "length c0 = 4" "length c1 = 4" "length c2 = 8" "length c3 = 8" "length c4 = 4"
    using code sizes by (auto simp: code_at_def)
  have "bytes_at (bytecode b) 0 (c0 @ c1 @ c2 @ c3 @ c4 @ c5)"
    using at lens by (intro bytes_at_append) simp_all
  moreover have zeros: "replicate 8 (0 :: u8) = [0, 0, 0, 0, 0, 0, 0, 0]" by (simp add: numeral_eq_Suc)
  have "c0 @ c1 @ c2 @ c3 @ c4 @ c5 = prelude_bytes fuel off"
    using code ops(2) by (auto simp: zeros Let_def prologue_opcodes_def prelude_bytes_def code_at_def to_fuel_asm_def encode_def instruction_code_def
        bindE_Inr_iff scratch_register_def zero_register_def ds_register_def)
  ultimately show ?thesis by simp
qed

lemma fold_update:
  "n + k + length md \<le> length bc \<Longrightarrow>
    fold (\<lambda>(i, x) code. code[i + k := x]) (enumerate n md) bc = take (n + k) bc @ md @ drop (n + k + length md) bc"
proof (induction md arbitrary: n bc)
  case (Cons x md)
  then show ?case by (simp add: take_Suc_conv_app_nth)
qed simp

lemma configurables_offset_set:
  assumes "length md = PRELUDE_CONFIGURABLES_SIZE_IN_BYTES" "24 \<le> length (bytecode b)"
  shows "set_bytecode_configurables_offset md b = Inr (b\<lparr>bytecode := take 16 (bytecode b) @ md @ drop 24 (bytecode b)\<rparr>)"
  using assms fold_update [of 0 16 md "bytecode b"]
  by (simp add: set_bytecode_configurables_offset_def PRELUDE_CONFIGURABLES_SIZE_IN_BYTES_def
      PRELUDE_CONFIGURABLES_OFFSET_IN_BYTES_def assert_or_panic_def)

section \<open>Properties\<close>

text \<open>
  (C9) The first 32 bytes of a program: the machine jumps over two words to the instructions that
  load the first of the words and add it to the address of the program; this word is
  the offset at which the data section stands. The second word is zero, and setting the
  configurables offset replaces it and nothing else. It is assumed that labels are distinct.
\<close>

theorem program_prelude:
  assumes "finalize_program low p fb = Inr asm" "into_allocated_program low p fb = Inr ap"
    and "to_bytecode_mut fuel (fa_program_section asm) (fa_data_section asm) = Inr (b, ds', spans)"
    and "distinct (labels (ap_prologue ap @ concat (ap_functions ap)))"
    and "\<forall>i. length (instr_bytes fuel i) = 4" "length (serialize_to_bytes ds') < 2 ^ 64"
    and "length md = PRELUDE_CONFIGURABLES_SIZE_IN_BYTES"
  shows "\<exists>off. take 32 (bytecode b) = prelude_bytes fuel off \<and> drop (unat off) (bytecode b) = serialize_to_bytes ds'
    \<and> set_bytecode_configurables_offset md b = Inr (b\<lparr>bytecode := take 16 (bytecode b) @ md @ drop 24 (bytecode b)\<rparr>)"
proof -
  have four: "\<And>i. length (instr_bytes fuel i) = 4" using assms(5) by simp
  obtain fp where fp: "into_final_program ap = Inr fp" "asm = finalize fp"
    using assms(1,2) by (auto simp: finalize_program_def bindE_Inr_iff)
  obtain tail where starts: "map ao_opcode (fp_ops fp) = prologue_opcodes @ tail"
    using final_program_starts [OF assms(2) fp(1) assms(4)] by blast
  have run: "to_bytecode_mut fuel (fp_ops fp) (fp_data_section fp) = Inr (b, ds', spans)"
    using assms(3) fp(2) by (simp add: finalize_def)
  from run four assms(6) obtain off where l: "laid_out fuel (fp_ops fp) ds' off b" by (rule to_bytecode_laid_out)
  have len: "length (prelude_bytes fuel off) = 32" by (simp add: prelude_bytes_def four Let_def)
  have prelude: "take 32 (bytecode b) = prelude_bytes fuel off"
    using prelude_laid_out [OF l starts four] len by (simp add: bytes_at_def)
  then have "length (take 32 (bytecode b)) = 32" using len by simp
  then have "24 \<le> length (bytecode b)" by simp
  then show ?thesis using prelude l configurables_offset_set [OF assms(7)] by (auto simp: laid_out_def)
qed

text \<open>
  (C11) A contract selects the method that is asked for: the switch that is put behind the prologue
  goes to the first entry whose selector is the input selector, to the fallback function when no
  selector matches, and reverts when there is none; also after the data section has grown.
\<close>

theorem contract_selection:
  assumes "append_encoding_v0_contract_abi_switch p asm fb = Inr (asm', p')"
    and "length (non_configurables (ab_data_section p)) + length (ab_entries p) < 2 ^ 32"
    and "grows (ab_data_section p') final"
  shows "\<exists>code. asm' = asm @ code \<and> run_selection final input regs code =
      (case selected_label input (ab_entries p) of Some l \<Rightarrow> Selected l
       | None \<Rightarrow> (case fb of Some l \<Rightarrow> Selected l | None \<Rightarrow> Reverted))"
  by (rule switch_runs [OF assms(1,2)]) (use assms(3) in auto)

text \<open>
  (C28) Globals are packed and lie within the stack space allocated for them: after any insertions
  into an empty section each global begins at the sum of the sizes of the earlier ones, so that no
  two overlap; and when the prologue allocates their space, the stack extension that it appends
  has the sum of all sizes as its immediate, so that every global ends within it.
\<close>

theorem globals_disjoint:
  assumes "foldM (\<lambda>(name, n) g. globals_insert g name n) xs globals_default = Inr g"
    and "ab_globals_section p = g" "append_globals_allocation p asm = Inr asm'"
  shows "(\<forall>j < length (global_entries g). unat (global_offset_in_bytes (global_entries g ! j))
        = (\<Sum>x\<leftarrow>take j (global_entries g). unat (global_size_in_bytes x)))
    \<and> (\<forall>i j. i < j \<longrightarrow> j < length (global_entries g) \<longrightarrow>
        unat (global_offset_in_bytes (global_entries g ! i)) + unat (global_size_in_bytes (global_entries g ! i))
          \<le> unat (global_offset_in_bytes (global_entries g ! j)))
    \<and> (\<exists>imm c. asm' = asm @ [prologue_op (Inl (AMemory (alloc_memory_op.CFEI imm))) c]
        \<and> unat (value24 imm) = (\<Sum>x\<leftarrow>global_entries g. unat (global_size_in_bytes x))
        \<and> (\<forall>j < length (global_entries g). unat (global_offset_in_bytes (global_entries g ! j))
            + unat (global_size_in_bytes (global_entries g ! j)) \<le> unat (value24 imm)))"
proof -
  have "globals_ok globals_default" by (simp add: globals_default_def globals_ok_def)
  with assms(1) have ok: "globals_ok g" by (rule foldM_invariant) (auto intro: globals_insert_ok)
  note sums = globals_from_sum [OF ok [unfolded globals_ok_def]]
  let ?n = "current_offset_in_bytes g"
  obtain imm c where imm: "imm24_new_unchecked ?n ''length (bytes) must fit in 24 bits'' = Inr imm"
      "asm' = asm @ [prologue_op (Inl (AMemory (alloc_memory_op.CFEI imm))) c]"
    using assms(2,3) globals_ok_len [OF ok] by (auto simp: append_globals_allocation_def bindE_Inr_iff vec_push_def)
  have "unat (value24 imm) = unat ?n"
    using imm(1) by (auto simp: imm24_new_unchecked_def bindE_Inr_iff unwrap_or_panic_def try_into_def unsigned_ucast_eq
        take_bit_nat_eq_self split: if_splits)
  then show ?thesis using sums imm(2) globals_ok_apart [OF ok] globals_ok_within [OF ok] by auto
qed

section \<open>Examples\<close>

definition example_lowering :: "(list_graph, u8) lowering" where
  "example_lowering = \<lparr>low_graph = list_graph, low_order = insertion_order, low_fuel_regs = example_fuel_regs,
     low_reg_u8 = (\<lambda>x. x), low_optimize_fuel = 10, low_allocate_fuel = 10\<rparr>"

definition empty_program :: "unit abstract_program" where
  "empty_program = \<lparr>ab_kind = Script_Program, ab_data_section = empty_section, ab_globals_section = globals_default,
     ab_before_entries = [], ab_entries = [], ab_non_entries = [], ab_reg_seqr = sequencer_new, ab_new_encoding = True\<rparr>"

lemma empty_lowered:
  "optimize 10 empty_section [] = Inr []" "allocate_registers list_graph insertion_order 10 [] = Inr []"
  by code_simp+

abbreviation empty_allocated :: "unit allocated_program" where
  "empty_allocated \<equiv> \<lparr>ap_kind = Script_Program, ap_data_section = empty_section,
     ap_prologue = prologue_ops 0 @ [prologue_op (Inl (AMemory (alloc_memory_op.CFEI \<lparr>value24 = 0\<rparr>))) ''allocate stack space for globals''],
     ap_functions = [], ap_entries = []\<rparr>"

lemma empty_into_allocated: "into_allocated_program example_lowering empty_program None = Inr empty_allocated"
  by (simp add: into_allocated_program_def build_prologue_def append_globals_allocation_def append_before_entries_def
      optimize_and_verify_def empty_program_def example_lowering_def empty_lowered verify_def prologue_ops_def get_label_def
      sequencer_new_def len_in_bytes_def globals_default_def imm12_new_unchecked_def imm24_new_unchecked_def try_into_def
      unwrap_or_panic_def vec_push_def)

abbreviation empty_opcodes :: "allocated_opcode list" where
  "empty_opcodes \<equiv> prologue_opcodes @ [AMemory (alloc_memory_op.CFEI \<lparr>value24 = 0\<rparr>)]"

lemma empty_resolved:
  "map_label_offsets (ap_prologue empty_allocated) empty_section = Inr (False, [0 \<mapsto> 6])"
  "resolve_labels empty_section 0 (ap_prologue empty_allocated) = Inr (ap_prologue empty_allocated, [0 \<mapsto> 6])"
proof -
  show m: "map_label_offsets (ap_prologue empty_allocated) empty_section = Inr (False, [0 \<mapsto> 6])"
    by (simp add: prologue_ops_def prologue_op_def resolve_eval)
  then show "resolve_labels empty_section 0 (ap_prologue empty_allocated) = Inr (ap_prologue empty_allocated, [0 \<mapsto> 6])"
    by (subst resolve_labels.simps) simp
qed

lemma empty_into_final: "\<exists>fp. into_final_program empty_allocated = Inr fp \<and> fp_data_section fp = empty_section
    \<and> map ao_opcode (fp_ops fp) = empty_opcodes"
proof -
  obtain realized where "realize_loop [0 \<mapsto> 6] (ap_prologue empty_allocated) 0 (ap_prologue empty_allocated) 0 empty_section
      = Inr (realized, empty_section)" "map realized_opcode realized = empty_opcodes"
    by (simp add: prologue_ops_def prologue_op_def prologue_opcodes_def realize_eval)
  then show ?thesis using empty_resolved(2)
    by (simp add: into_final_program_def realize_labels_def allocated_ops_def comp_def)
qed

lemma empty_emitted:
  assumes "map ao_opcode ops = empty_opcodes"
  shows "\<exists>b spans. to_bytecode_mut example_fuel ops empty_section = Inr (b, empty_section, spans)"
proof -
  obtain o0 o1 o2 o3 o4 o5 o6 where ops: "ops = [o0, o1, o2, o3, o4, o5, o6]" and oc: "map ao_opcode [o0, o1, o2, o3, o4, o5, o6] = empty_opcodes"
    using assms by (auto simp: prologue_opcodes_def map_eq_Cons_conv)
  have sized: "foldM (add_size empty_section) ops 0 = Inr 32"
    using oc by (simp add: ops prologue_opcodes_def add_size_def op_size_in_bytes_def add_u64_def)
  have pointers: "foldM (insert_pointer 32) ops (0, empty_section) = Inr (32, empty_section)"
    using oc by (simp add: ops prologue_opcodes_def insert_pointer_def add_size_def op_size_in_bytes_def add_u64_def)
  have "\<exists>s. foldM (emit_op example_fuel 32 empty_section) ops \<lparr>bytes = [], half_word_ix = 0, from_instr_start = 0, source_spans = []\<rparr>
      = Inr s \<and> half_word_ix s = 8 \<and> length (bytes s) = 32"
    using oc by (simp add: ops prologue_opcodes_def emit_op_def to_fuel_asm_def encode_def add_size_def op_size_in_bytes_def add_u64_def
        example_fuel_def scratch_register_def zero_register_def ds_register_def emit_instruction_def Let_def)
  then show ?thesis using sized pointers
    by (auto simp: to_bytecode_mut_def pad_ops_def assert_or_panic_def empty_section_def)
qed

theorem program_prelude_witness:
  "\<exists>asm b spans off. finalize_program example_lowering empty_program None = Inr asm
    \<and> to_bytecode_mut example_fuel (fa_program_section asm) (fa_data_section asm) = Inr (b, empty_section, spans)
    \<and> take 32 (bytecode b) = prelude_bytes example_fuel off"
proof -
  obtain fp where fp: "into_final_program empty_allocated = Inr fp" "fp_data_section fp = empty_section"
      "map ao_opcode (fp_ops fp) = empty_opcodes"
    using empty_into_final by blast
  have asm: "finalize_program example_lowering empty_program None = Inr (finalize fp)"
    by (simp add: finalize_program_def empty_into_allocated fp(1))
  obtain b spans where b: "to_bytecode_mut example_fuel (fa_program_section (finalize fp)) (fa_data_section (finalize fp)) = Inr (b, empty_section, spans)"
    using empty_emitted [OF fp(3)] fp(2) by (auto simp: finalize_def)
  have hyps: "distinct (labels (ap_prologue empty_allocated @ concat (ap_functions empty_allocated)))"
      "\<forall>i. length (instr_bytes example_fuel i) = 4" "length (serialize_to_bytes empty_section) < 2 ^ 64"
      "length (replicate 8 (0 :: u8)) = PRELUDE_CONFIGURABLES_SIZE_IN_BYTES"
    by (simp_all add: prologue_ops_def prologue_op_def alloc_label_def example_fuel_def empty_section_def serialize_to_bytes_def
        iter_all_entries_def PRELUDE_CONFIGURABLES_SIZE_IN_BYTES_def split: prod.split)
  show ?thesis using program_prelude [OF asm empty_into_allocated b hyps] asm b by blast
qed

definition dispatch_program :: "unit abstract_program" where
  "dispatch_program = empty_program\<lparr>ab_kind := Contract_Program, ab_new_encoding := False, ab_entries :=
     [\<lparr>ae_selector = Some [0, 0, 1, 2], ae_label = 5, ae_ops = [], ae_name = ''first'', ae_test_decl_ref = None\<rparr>,
      \<lparr>ae_selector = Some [0, 0, 0, 9], ae_label = 7, ae_ops = [], ae_name = ''second'', ae_test_decl_ref = None\<rparr>]\<rparr>"

theorem contract_selection_witness:
  "\<exists>code p'. append_encoding_v0_contract_abi_switch dispatch_program [] None = Inr (code, p')
    \<and> run_selection (ab_data_section p') 9 (\<lambda>_. 0) code = Selected 7
    \<and> run_selection (ab_data_section p') 3 (\<lambda>_. 0) code = Reverted"
proof -
  obtain code p' where r: "append_encoding_v0_contract_abi_switch dispatch_program [] None = Inr (code, p')"
    by (auto simp: append_encoding_v0_contract_abi_switch_def imm12_new_unchecked_def imm18_new_unchecked_def SELECTOR_WORD_OFFSET_def
        MISMATCHED_SELECTOR_REVERT_CODE_def try_into_def unwrap_or_panic_def Let_def split_beta)
  have small: "length (non_configurables (ab_data_section dispatch_program)) + length (ab_entries dispatch_program) < 2 ^ 32"
    by (simp add: dispatch_program_def empty_program_def empty_section_def)
  have labels: "selected_label 9 (ab_entries dispatch_program) = Some 7" "selected_label 3 (ab_entries dispatch_program) = None"
    by (simp_all add: dispatch_program_def from_be_bytes_def)
  show ?thesis using r contract_selection [OF r small grows_refl, of 9 "\<lambda>_. 0"]
      contract_selection [OF r small grows_refl, of 3 "\<lambda>_. 0"] labels by auto
qed

theorem globals_disjoint_witness:
  "\<exists>g asm'. foldM (\<lambda>(name, n) g. globals_insert g name n) [(''a'', 8)] globals_default = Inr g
    \<and> append_globals_allocation (empty_program\<lparr>ab_globals_section := g\<rparr>) [] = Inr asm'
    \<and> (\<exists>imm c. asm' = [prologue_op (Inl (AMemory (alloc_memory_op.CFEI imm))) c]
        \<and> unat (global_offset_in_bytes (global_entries g ! 0)) + unat (global_size_in_bytes (global_entries g ! 0))
          \<le> unat (value24 imm))"
proof -
  obtain g where g: "foldM (\<lambda>(name, n) g. globals_insert g name n) [(''a'', 8)] globals_default = Inr g"
      "length (global_entries g) = 1" "len_in_bytes g = Inr 8"
    by (simp add: globals_insert_def globals_default_def add_u64_def vec_push_def len_in_bytes_def)
  then obtain asm' where "append_globals_allocation (empty_program\<lparr>ab_globals_section := g\<rparr>) [] = Inr asm'"
    by (simp add: append_globals_allocation_def imm24_new_unchecked_def try_into_def unwrap_or_panic_def)
  with globals_disjoint [OF g(1), of "empty_program\<lparr>ab_globals_section := g\<rparr>" "[]"] g(1,2) show ?thesis by auto
qed

end
