(* ===== verification/Asm_Parse.thy ===== *)
theory Asm_Parse
  imports Asm_Program Sway_Decimal
begin

text \<open>
  The rest of \<^verbatim>\<open>asm_lang/mod.rs\<close>: \<^verbatim>\<open>parse_opcode\<close>, which reads an instruction of an inline assembly block,
  and the text form of instructions. The handler is the list of the errors emitted so far; errors
  do not stop the parser unless it returns without a value.
\<close>

section \<open>Errors\<close>

text \<open>Text is the list of its bytes in UTF-8.\<close>

record ident =
  as_str :: string
  ident_span :: span

datatype asm_error =
    IncorrectNumberOfAsmRegisters nat nat span
  | UnnecessaryImmediate span
  | MissingImmediate span
  | InvalidImmediateValue span
  | ImmediateError compile_error span
  | UnrecognizedOp string span

type_synonym 'a parsed = "asm_error list \<Rightarrow> ('a option \<times> asm_error list) result"

definition parse_ok :: "'a \<Rightarrow> 'a parsed" where
  "parse_ok x handler = Inr (Some x, handler)"

definition parse_err :: "asm_error \<Rightarrow> 'a parsed" where
  "parse_err e handler = Inr (None, vec_push handler e)"

definition bindP :: "'a parsed \<Rightarrow> ('a \<Rightarrow> 'b parsed) \<Rightarrow> 'b parsed" where
  "bindP m f handler =
     bindE (m handler) (\<lambda>(x, handler). case x of Some y \<Rightarrow> f y handler | None \<Rightarrow> Inr (None, handler))"

section \<open>Arguments\<close>

text \<open>An error that is emitted and does not stop the parser.\<close>

definition emit_if :: "bool \<Rightarrow> asm_error \<Rightarrow> unit parsed" where
  "emit_if b e handler = Inr (Some (), if b then vec_push handler e else handler)"

definition no_immediate :: "(span \<Rightarrow> asm_error) \<Rightarrow> ident option \<Rightarrow> unit parsed" where
  "no_immediate err immediate =
     (case immediate of None \<Rightarrow> parse_ok () | Some i \<Rightarrow> emit_if True (err (ident_span i)))"

text \<open>
  \<^verbatim>\<open>s[1..]\<close> panics unless byte one is the end of the text or begins a character: in UTF-8 the
  bytes 128 to 191 continue one.
\<close>

definition is_char_boundary_one :: "string \<Rightarrow> bool" where
  "is_char_boundary_one s =
     (case s of [] \<Rightarrow> False | [_] \<Rightarrow> True | _ # b # _ \<Rightarrow> (of_char b :: nat) < 128 \<or> 192 \<le> (of_char b :: nat))"

definition slice_from_one :: "string \<Rightarrow> string result" where
  "slice_from_one s =
     (if is_char_boundary_one s then Inr (tl s)
      else Inl (Panic (if s = [] then ''byte index 1 is out of bounds'' else ''byte index 1 is not a char boundary'')))"

definition read_immediate :: "(u64 \<Rightarrow> 'i result) \<Rightarrow> ident option \<Rightarrow> span \<Rightarrow> 'i parsed" where
  "read_immediate new immediate whole_op_span handler =
     (case immediate of
        None \<Rightarrow> parse_err (MissingImmediate whole_op_span) handler
      | Some i \<Rightarrow>
          bindE (slice_from_one (as_str i)) (\<lambda>digits.
            case parse_u64 digits of
              None \<Rightarrow> parse_err (InvalidImmediateValue (ident_span i)) handler
            | Some imm \<Rightarrow>
                (case new imm of
                   Inr o' \<Rightarrow> parse_ok o' handler
                 | Inl e \<Rightarrow> parse_err (ImmediateError e (ident_span i)) handler)))"

definition single_reg :: "virtual_register list \<Rightarrow> ident option \<Rightarrow> span \<Rightarrow> virtual_register parsed" where
  "single_reg args immediate whole_op_span =
     bindP (emit_if (length args > 1) (IncorrectNumberOfAsmRegisters 1 (length args) whole_op_span)) (\<lambda>_.
     case args of
       reg # _ \<Rightarrow> bindP (no_immediate UnnecessaryImmediate immediate) (\<lambda>_. parse_ok reg)
     | _ \<Rightarrow> parse_err (IncorrectNumberOfAsmRegisters 1 (length args) whole_op_span))"

definition two_regs ::
  "virtual_register list \<Rightarrow> ident option \<Rightarrow> span \<Rightarrow> (virtual_register \<times> virtual_register) parsed" where
  "two_regs args immediate whole_op_span =
     bindP (emit_if (length args > 2) (IncorrectNumberOfAsmRegisters 2 (length args) whole_op_span)) (\<lambda>_.
     case args of
       reg # reg2 # _ \<Rightarrow> bindP (no_immediate UnnecessaryImmediate immediate) (\<lambda>_. parse_ok (reg, reg2))
     | _ \<Rightarrow> parse_err (IncorrectNumberOfAsmRegisters 2 (length args) whole_op_span))"

definition four_regs ::
  "virtual_register list \<Rightarrow> ident option \<Rightarrow> span
    \<Rightarrow> (virtual_register \<times> virtual_register \<times> virtual_register \<times> virtual_register) parsed" where
  "four_regs args immediate whole_op_span =
     bindP (emit_if (length args > 4) (IncorrectNumberOfAsmRegisters 4 (length args) whole_op_span)) (\<lambda>_.
     case args of
       reg # reg2 # reg3 # reg4 # _ \<Rightarrow> bindP (no_immediate MissingImmediate immediate) (\<lambda>_. parse_ok (reg, reg2, reg3, reg4))
     | _ \<Rightarrow> parse_err (IncorrectNumberOfAsmRegisters 4 (length args) whole_op_span))"

definition three_regs ::
  "virtual_register list \<Rightarrow> ident option \<Rightarrow> span \<Rightarrow> (virtual_register \<times> virtual_register \<times> virtual_register) parsed" where
  "three_regs args immediate whole_op_span =
     bindP (emit_if (length args > 3) (IncorrectNumberOfAsmRegisters 3 (length args) whole_op_span)) (\<lambda>_.
     case args of
       reg # reg2 # reg3 # _ \<Rightarrow> bindP (no_immediate UnnecessaryImmediate immediate) (\<lambda>_. parse_ok (reg, reg2, reg3))
     | _ \<Rightarrow> parse_err (IncorrectNumberOfAsmRegisters 3 (length args) whole_op_span))"

definition single_imm_24 :: "virtual_register list \<Rightarrow> ident option \<Rightarrow> span \<Rightarrow> imm24 parsed" where
  "single_imm_24 args immediate whole_op_span =
     bindP (emit_if (args \<noteq> []) (IncorrectNumberOfAsmRegisters 0 (length args) whole_op_span)) (\<lambda>_.
     read_immediate imm24_new immediate whole_op_span)"

definition single_reg_imm_18 ::
  "virtual_register list \<Rightarrow> ident option \<Rightarrow> span \<Rightarrow> (virtual_register \<times> imm18) parsed" where
  "single_reg_imm_18 args immediate whole_op_span =
     bindP (emit_if (length args > 1) (IncorrectNumberOfAsmRegisters 1 (length args) whole_op_span)) (\<lambda>_.
     case args of
       reg # _ \<Rightarrow> bindP (read_immediate imm18_new immediate whole_op_span) (\<lambda>imm. parse_ok (reg, imm))
     | _ \<Rightarrow> parse_err (IncorrectNumberOfAsmRegisters 1 (length args) whole_op_span))"

definition two_regs_imm_12 ::
  "virtual_register list \<Rightarrow> ident option \<Rightarrow> span \<Rightarrow> (virtual_register \<times> virtual_register \<times> imm12) parsed" where
  "two_regs_imm_12 args immediate whole_op_span =
     bindP (emit_if (length args > 2) (IncorrectNumberOfAsmRegisters 2 (length args) whole_op_span)) (\<lambda>_.
     case args of
       reg # reg2 # _ \<Rightarrow> bindP (read_immediate imm12_new immediate whole_op_span) (\<lambda>imm. parse_ok (reg, reg2, imm))
     | _ \<Rightarrow> parse_err (IncorrectNumberOfAsmRegisters 2 (length args) whole_op_span))"

definition three_regs_imm_06 ::
  "virtual_register list \<Rightarrow> ident option \<Rightarrow> span
    \<Rightarrow> (virtual_register \<times> virtual_register \<times> virtual_register \<times> imm06) parsed" where
  "three_regs_imm_06 args immediate whole_op_span =
     bindP (emit_if (length args > 3) (IncorrectNumberOfAsmRegisters 3 (length args) whole_op_span)) (\<lambda>_.
     case args of
       reg # reg2 # reg3 # _ \<Rightarrow> bindP (read_immediate imm06_new immediate whole_op_span) (\<lambda>imm. parse_ok (reg, reg2, reg3, imm))
     | _ \<Rightarrow> parse_err (IncorrectNumberOfAsmRegisters 3 (length args) whole_op_span))"

section \<open>Instructions\<close>

text \<open>For every name the arguments that are read, and the instruction made of them.\<close>

datatype opcode_args =
    NoArgs virtual_op
  | SingleReg "virtual_register \<Rightarrow> virtual_op"
  | TwoRegs "virtual_register \<Rightarrow> virtual_register \<Rightarrow> virtual_op"
  | ThreeRegs "virtual_register \<Rightarrow> virtual_register \<Rightarrow> virtual_register \<Rightarrow> virtual_op"
  | FourRegs "virtual_register \<Rightarrow> virtual_register \<Rightarrow> virtual_register \<Rightarrow> virtual_register \<Rightarrow> virtual_op"
  | SingleImm24 "imm24 \<Rightarrow> virtual_op"
  | SingleRegImm18 "virtual_register \<Rightarrow> imm18 \<Rightarrow> virtual_op"
  | TwoRegsImm12 "virtual_register \<Rightarrow> virtual_register \<Rightarrow> imm12 \<Rightarrow> virtual_op"
  | ThreeRegsImm06 "virtual_register \<Rightarrow> virtual_register \<Rightarrow> virtual_register \<Rightarrow> imm06 \<Rightarrow> virtual_op"

definition read_args :: "opcode_args \<Rightarrow> virtual_register list \<Rightarrow> ident option \<Rightarrow> span \<Rightarrow> virtual_op parsed" where
  "read_args a args immediate whole_op_span =
     (case a of
        NoArgs oc \<Rightarrow> parse_ok oc
      | SingleReg f \<Rightarrow> bindP (single_reg args immediate whole_op_span) (\<lambda>r1. parse_ok (f r1))
      | TwoRegs f \<Rightarrow> bindP (two_regs args immediate whole_op_span) (\<lambda>(r1, r2). parse_ok (f r1 r2))
      | ThreeRegs f \<Rightarrow> bindP (three_regs args immediate whole_op_span) (\<lambda>(r1, r2, r3). parse_ok (f r1 r2 r3))
      | FourRegs f \<Rightarrow> bindP (four_regs args immediate whole_op_span) (\<lambda>(r1, r2, r3, r4). parse_ok (f r1 r2 r3 r4))
      | SingleImm24 f \<Rightarrow> bindP (single_imm_24 args immediate whole_op_span) (\<lambda>imm. parse_ok (f imm))
      | SingleRegImm18 f \<Rightarrow> bindP (single_reg_imm_18 args immediate whole_op_span) (\<lambda>(r1, imm). parse_ok (f r1 imm))
      | TwoRegsImm12 f \<Rightarrow> bindP (two_regs_imm_12 args immediate whole_op_span) (\<lambda>(r1, r2, imm). parse_ok (f r1 r2 imm))
      | ThreeRegsImm06 f \<Rightarrow>
          bindP (three_regs_imm_06 args immediate whole_op_span) (\<lambda>(r1, r2, r3, imm). parse_ok (f r1 r2 r3 imm)))"

definition alu_table :: "(string \<times> opcode_args) list" where
  "alu_table =
     [(''add'', ThreeRegs (\<lambda>r1 r2 r3. Alu (ADD r1 r2 r3))),
      (''addi'', TwoRegsImm12 (\<lambda>r1 r2 imm. Alu (ADDI r1 r2 imm))),
      (''and'', ThreeRegs (\<lambda>r1 r2 r3. Alu (alu_op.AND r1 r2 r3))),
      (''andi'', TwoRegsImm12 (\<lambda>r1 r2 imm. Alu (ANDI r1 r2 imm))),
      (''div'', ThreeRegs (\<lambda>r1 r2 r3. Alu (DIV r1 r2 r3))),
      (''divi'', TwoRegsImm12 (\<lambda>r1 r2 imm. Alu (DIVI r1 r2 imm))),
      (''eq'', ThreeRegs (\<lambda>r1 r2 r3. Alu (EQ r1 r2 r3))),
      (''exp'', ThreeRegs (\<lambda>r1 r2 r3. Alu (EXP r1 r2 r3))),
      (''expi'', TwoRegsImm12 (\<lambda>r1 r2 imm. Alu (EXPI r1 r2 imm))),
      (''gt'', ThreeRegs (\<lambda>r1 r2 r3. Alu (GT r1 r2 r3))),
      (''lt'', ThreeRegs (\<lambda>r1 r2 r3. Alu (LT r1 r2 r3))),
      (''mlog'', ThreeRegs (\<lambda>r1 r2 r3. Alu (MLOG r1 r2 r3))),
      (''mod'', ThreeRegs (\<lambda>r1 r2 r3. Alu (MOD r1 r2 r3))),
      (''modi'', TwoRegsImm12 (\<lambda>r1 r2 imm. Alu (MODI r1 r2 imm))),
      (''move'', TwoRegs (\<lambda>r1 r2. Alu (MOVE r1 r2))),
      (''movi'', SingleRegImm18 (\<lambda>r1 imm. Alu (MOVI r1 imm))),
      (''mroo'', ThreeRegs (\<lambda>r1 r2 r3. Alu (MROO r1 r2 r3))),
      (''mul'', ThreeRegs (\<lambda>r1 r2 r3. Alu (MUL r1 r2 r3))),
      (''muli'', TwoRegsImm12 (\<lambda>r1 r2 imm. Alu (MULI r1 r2 imm))),
      (''noop'', NoArgs (Alu NOOP)),
      (''not'', TwoRegs (\<lambda>r1 r2. Alu (alu_op.NOT r1 r2))),
      (''or'', ThreeRegs (\<lambda>r1 r2 r3. Alu (alu_op.OR r1 r2 r3))),
      (''ori'', TwoRegsImm12 (\<lambda>r1 r2 imm. Alu (ORI r1 r2 imm))),
      (''sll'', ThreeRegs (\<lambda>r1 r2 r3. Alu (SLL r1 r2 r3))),
      (''slli'', TwoRegsImm12 (\<lambda>r1 r2 imm. Alu (SLLI r1 r2 imm))),
      (''srl'', ThreeRegs (\<lambda>r1 r2 r3. Alu (SRL r1 r2 r3))),
      (''srli'', TwoRegsImm12 (\<lambda>r1 r2 imm. Alu (SRLI r1 r2 imm))),
      (''sub'', ThreeRegs (\<lambda>r1 r2 r3. Alu (SUB r1 r2 r3))),
      (''subi'', TwoRegsImm12 (\<lambda>r1 r2 imm. Alu (SUBI r1 r2 imm))),
      (''wqcm'', ThreeRegsImm06 (\<lambda>r1 r2 r3 imm. Alu (WQCM r1 r2 r3 imm))),
      (''wqop'', ThreeRegsImm06 (\<lambda>r1 r2 r3 imm. Alu (WQOP r1 r2 r3 imm))),
      (''wqml'', ThreeRegsImm06 (\<lambda>r1 r2 r3 imm. Alu (WQML r1 r2 r3 imm))),
      (''wqdv'', ThreeRegsImm06 (\<lambda>r1 r2 r3 imm. Alu (WQDV r1 r2 r3 imm))),
      (''wqmd'', FourRegs (\<lambda>r1 r2 r3 r4. Alu (WQMD r1 r2 r3 r4))),
      (''wqam'', FourRegs (\<lambda>r1 r2 r3 r4. Alu (WQAM r1 r2 r3 r4))),
      (''wqmm'', FourRegs (\<lambda>r1 r2 r3 r4. Alu (WQMM r1 r2 r3 r4))),
      (''xor'', ThreeRegs (\<lambda>r1 r2 r3. Alu (alu_op.XOR r1 r2 r3))),
      (''xori'', TwoRegsImm12 (\<lambda>r1 r2 imm. Alu (XORI r1 r2 imm)))]"

definition control_table :: "(string \<times> opcode_args) list" where
  "control_table =
     [(''jmp'', SingleReg (\<lambda>r1. ControlFlow (control_op.JMP r1))),
      (''ji'', SingleImm24 (\<lambda>imm. ControlFlow (control_op.JI imm))),
      (''jne'', ThreeRegs (\<lambda>r1 r2 r3. ControlFlow (control_op.JNE r1 r2 r3))),
      (''jnei'', TwoRegsImm12 (\<lambda>r1 r2 imm. ControlFlow (control_op.JNEI r1 r2 imm))),
      (''jnzi'', SingleRegImm18 (\<lambda>r1 imm. ControlFlow (control_op.JNZI r1 imm))),
      (''ret'', SingleReg (\<lambda>r1. ControlFlow (control_op.RET r1)))]"

definition memory_table :: "(string \<times> opcode_args) list" where
  "memory_table =
     [(''aloc'', SingleReg (\<lambda>r1. Memory (memory_op.ALOC (Constant HeapPointer) r1))),
      (''cfei'', SingleImm24 (\<lambda>imm. Memory (memory_op.CFEI (Constant StackPointer) imm))),
      (''cfsi'', SingleImm24 (\<lambda>imm. Memory (memory_op.CFSI (Constant StackPointer) imm))),
      (''cfe'', SingleReg (\<lambda>r1. Memory (memory_op.CFE (Constant StackPointer) r1))),
      (''cfs'', SingleReg (\<lambda>r1. Memory (memory_op.CFS (Constant StackPointer) r1))),
      (''lb'', TwoRegsImm12 (\<lambda>r1 r2 imm. Memory (memory_op.LB r1 r2 imm))),
      (''lw'', TwoRegsImm12 (\<lambda>r1 r2 imm. Memory (memory_op.LW r1 r2 imm))),
      (''mcl'', TwoRegs (\<lambda>r1 r2. Memory (memory_op.MCL r1 r2))),
      (''mcli'', SingleRegImm18 (\<lambda>r1 imm. Memory (memory_op.MCLI r1 imm))),
      (''mcp'', ThreeRegs (\<lambda>r1 r2 r3. Memory (memory_op.MCP r1 r2 r3))),
      (''mcpi'', TwoRegsImm12 (\<lambda>r1 r2 imm. Memory (memory_op.MCPI r1 r2 imm))),
      (''meq'', FourRegs (\<lambda>r1 r2 r3 r4. Memory (memory_op.MEQ r1 r2 r3 r4))),
      (''sb'', TwoRegsImm12 (\<lambda>r1 r2 imm. Memory (memory_op.SB r1 r2 imm))),
      (''sw'', TwoRegsImm12 (\<lambda>r1 r2 imm. Memory (memory_op.SW r1 r2 imm)))]"

definition contract_table :: "(string \<times> opcode_args) list" where
  "contract_table =
     [(''bal'', ThreeRegs (\<lambda>r1 r2 r3. Contract (BAL r1 r2 r3))),
      (''bhei'', SingleReg (\<lambda>r1. Contract (BHEI r1))),
      (''bhsh'', TwoRegs (\<lambda>r1 r2. Contract (BHSH r1 r2))),
      (''burn'', TwoRegs (\<lambda>r1 r2. Contract (BURN r1 r2))),
      (''call'', FourRegs (\<lambda>r1 r2 r3 r4. Contract (CALL r1 r2 r3 r4))),
      (''cb'', SingleReg (\<lambda>r1. Contract (CB r1))),
      (''ccp'', FourRegs (\<lambda>r1 r2 r3 r4. Contract (CCP r1 r2 r3 r4))),
      (''croo'', TwoRegs (\<lambda>r1 r2. Contract (CROO r1 r2))),
      (''csiz'', TwoRegs (\<lambda>r1 r2. Contract (CSIZ r1 r2))),
      (''bsiz'', TwoRegs (\<lambda>r1 r2. Contract (BSIZ r1 r2))),
      (''ldc'', ThreeRegsImm06 (\<lambda>r1 r2 r3 i0. Contract (LDC r1 r2 r3 i0))),
      (''bldd'', FourRegs (\<lambda>r1 r2 r3 r4. Contract (BLDD r1 r2 r3 r4))),
      (''log'', FourRegs (\<lambda>r1 r2 r3 r4. Contract (LOG r1 r2 r3 r4))),
      (''logd'', FourRegs (\<lambda>r1 r2 r3 r4. Contract (LOGD r1 r2 r3 r4))),
      (''mint'', TwoRegs (\<lambda>r1 r2. Contract (MINT r1 r2))),
      (''retd'', TwoRegs (\<lambda>r1 r2. Contract (RETD r1 r2))),
      (''rvrt'', SingleReg (\<lambda>r1. Contract (RVRT r1))),
      (''smo'', FourRegs (\<lambda>r1 r2 r3 r4. Contract (SMO r1 r2 r3 r4))),
      (''scwq'', ThreeRegs (\<lambda>r1 r2 r3. Contract (SCWQ r1 r2 r3))),
      (''srw'', ThreeRegs (\<lambda>r1 r2 r3. Contract (SRW r1 r2 r3))),
      (''srwq'', FourRegs (\<lambda>r1 r2 r3 r4. Contract (SRWQ r1 r2 r3 r4))),
      (''sww'', ThreeRegs (\<lambda>r1 r2 r3. Contract (SWW r1 r2 r3))),
      (''swwq'', FourRegs (\<lambda>r1 r2 r3 r4. Contract (SWWQ r1 r2 r3 r4))),
      (''time'', TwoRegs (\<lambda>r1 r2. Contract (TIME r1 r2))),
      (''tr'', ThreeRegs (\<lambda>r1 r2 r3. Contract (TR r1 r2 r3))),
      (''tro'', FourRegs (\<lambda>r1 r2 r3 r4. Contract (TRO r1 r2 r3 r4)))]"

definition crypto_table :: "(string \<times> opcode_args) list" where
  "crypto_table =
     [(''eck1'', ThreeRegs (\<lambda>r1 r2 r3. Crypto (ECK1 r1 r2 r3))),
      (''ecr1'', ThreeRegs (\<lambda>r1 r2 r3. Crypto (ECR1 r1 r2 r3))),
      (''ed19'', FourRegs (\<lambda>r1 r2 r3 r4. Crypto (ED19 r1 r2 r3 r4))),
      (''k256'', ThreeRegs (\<lambda>r1 r2 r3. Crypto (K256 r1 r2 r3))),
      (''s256'', ThreeRegs (\<lambda>r1 r2 r3. Crypto (S256 r1 r2 r3))),
      (''ecop'', FourRegs (\<lambda>r1 r2 r3 r4. Crypto (ECOP r1 r2 r3 r4))),
      (''epar'', FourRegs (\<lambda>r1 r2 r3 r4. Crypto (EPAR r1 r2 r3 r4)))]"

definition other_table :: "(string \<times> opcode_args) list" where
  "other_table =
     [(''ecal'', FourRegs (\<lambda>r1 r2 r3 r4. Other (ECAL r1 r2 r3 r4))),
      (''flag'', SingleReg (\<lambda>r1. Other (FLAG r1))),
      (''gm'', SingleRegImm18 (\<lambda>r1 imm. Other (GM r1 imm))),
      (''gtf'', TwoRegsImm12 (\<lambda>r1 r2 imm. Other (GTF r1 r2 imm)))]"

definition nonvm_table :: "(string \<times> opcode_args) list" where
  "nonvm_table =
     [(''blob'', SingleImm24 (\<lambda>imm. NonVm (BLOB imm)))]"

definition opcode_table :: "(string \<times> opcode_args) list" where
  "opcode_table = alu_table @ control_table @ memory_table @ contract_table @ crypto_table @ other_table @ nonvm_table"

definition parse_opcode :: "ident \<Rightarrow> virtual_register list \<Rightarrow> ident option \<Rightarrow> span \<Rightarrow> virtual_op parsed" where
  "parse_opcode name args immediate whole_op_span =
     (case map_of opcode_table (as_str name) of
        Some a \<Rightarrow> read_args a args immediate whole_op_span
      | None \<Rightarrow> parse_err (UnrecognizedOp (as_str name) (ident_span name)))"

section \<open>Text\<close>

fun spaced :: "string list \<Rightarrow> string" where
  "spaced [] = []"
| "spaced [x] = x"
| "spaced (x # xs) = x @ '' '' @ spaced xs"

definition fmt_imm06 :: "imm06 \<Rightarrow> string" where
  "fmt_imm06 imm = ''i'' @ to_string (unat (value06 imm))"

definition fmt_imm12 :: "imm12 \<Rightarrow> string" where
  "fmt_imm12 imm = ''i'' @ to_string (unat (value12 imm))"

definition fmt_imm18 :: "imm18 \<Rightarrow> string" where
  "fmt_imm18 imm = ''i'' @ to_string (unat (value18 imm))"

definition fmt_imm24 :: "imm24 \<Rightarrow> string" where
  "fmt_imm24 imm = ''i'' @ to_string (unat (value24 imm))"

definition fmt_data_id :: "data_id \<Rightarrow> string" where
  "fmt_data_id did = ''data_'' @ (case data_kind did of NonConfigurable \<Rightarrow> ''NonConfigurable'' | Configurable \<Rightarrow> ''Configurable'')
     @ ''_'' @ to_string (unat (data_idx did))"

primrec fmt_alu :: "virtual_register alu_op \<Rightarrow> string" where
  "fmt_alu (ADD a b c) = spaced [''add'', fmt_virtual_register a, fmt_virtual_register b, fmt_virtual_register c]"
| "fmt_alu (ADDI a b c) = spaced [''addi'', fmt_virtual_register a, fmt_virtual_register b, fmt_imm12 c]"
| "fmt_alu (alu_op.AND a b c) = spaced [''and'', fmt_virtual_register a, fmt_virtual_register b, fmt_virtual_register c]"
| "fmt_alu (ANDI a b c) = spaced [''andi'', fmt_virtual_register a, fmt_virtual_register b, fmt_imm12 c]"
| "fmt_alu (DIV a b c) = spaced [''div'', fmt_virtual_register a, fmt_virtual_register b, fmt_virtual_register c]"
| "fmt_alu (DIVI a b c) = spaced [''divi'', fmt_virtual_register a, fmt_virtual_register b, fmt_imm12 c]"
| "fmt_alu (EQ a b c) = spaced [''eq'', fmt_virtual_register a, fmt_virtual_register b, fmt_virtual_register c]"
| "fmt_alu (EXP a b c) = spaced [''exp'', fmt_virtual_register a, fmt_virtual_register b, fmt_virtual_register c]"
| "fmt_alu (EXPI a b c) = spaced [''expi'', fmt_virtual_register a, fmt_virtual_register b, fmt_imm12 c]"
| "fmt_alu (GT a b c) = spaced [''gt'', fmt_virtual_register a, fmt_virtual_register b, fmt_virtual_register c]"
| "fmt_alu (LT a b c) = spaced [''lt'', fmt_virtual_register a, fmt_virtual_register b, fmt_virtual_register c]"
| "fmt_alu (MLOG a b c) = spaced [''mlog'', fmt_virtual_register a, fmt_virtual_register b, fmt_virtual_register c]"
| "fmt_alu (MOD a b c) = spaced [''mod'', fmt_virtual_register a, fmt_virtual_register b, fmt_virtual_register c]"
| "fmt_alu (MODI a b c) = spaced [''modi'', fmt_virtual_register a, fmt_virtual_register b, fmt_imm12 c]"
| "fmt_alu (MOVE a b) = spaced [''move'', fmt_virtual_register a, fmt_virtual_register b]"
| "fmt_alu (MOVI a b) = spaced [''movi'', fmt_virtual_register a, fmt_imm18 b]"
| "fmt_alu (MROO a b c) = spaced [''mroo'', fmt_virtual_register a, fmt_virtual_register b, fmt_virtual_register c]"
| "fmt_alu (MUL a b c) = spaced [''mul'', fmt_virtual_register a, fmt_virtual_register b, fmt_virtual_register c]"
| "fmt_alu (MULI a b c) = spaced [''muli'', fmt_virtual_register a, fmt_virtual_register b, fmt_imm12 c]"
| "fmt_alu NOOP = []"
| "fmt_alu (alu_op.NOT a b) = spaced [''not'', fmt_virtual_register a, fmt_virtual_register b]"
| "fmt_alu (alu_op.OR a b c) = spaced [''or'', fmt_virtual_register a, fmt_virtual_register b, fmt_virtual_register c]"
| "fmt_alu (ORI a b c) = spaced [''ori'', fmt_virtual_register a, fmt_virtual_register b, fmt_imm12 c]"
| "fmt_alu (SLL a b c) = spaced [''sll'', fmt_virtual_register a, fmt_virtual_register b, fmt_virtual_register c]"
| "fmt_alu (SLLI a b c) = spaced [''slli'', fmt_virtual_register a, fmt_virtual_register b, fmt_imm12 c]"
| "fmt_alu (SRL a b c) = spaced [''srl'', fmt_virtual_register a, fmt_virtual_register b, fmt_virtual_register c]"
| "fmt_alu (SRLI a b c) = spaced [''srli'', fmt_virtual_register a, fmt_virtual_register b, fmt_imm12 c]"
| "fmt_alu (SUB a b c) = spaced [''sub'', fmt_virtual_register a, fmt_virtual_register b, fmt_virtual_register c]"
| "fmt_alu (SUBI a b c) = spaced [''subi'', fmt_virtual_register a, fmt_virtual_register b, fmt_imm12 c]"
| "fmt_alu (alu_op.XOR a b c) = spaced [''xor'', fmt_virtual_register a, fmt_virtual_register b, fmt_virtual_register c]"
| "fmt_alu (XORI a b c) = spaced [''xori'', fmt_virtual_register a, fmt_virtual_register b, fmt_imm12 c]"
| "fmt_alu (WQOP a b c d) = spaced [''wqop'', fmt_virtual_register a, fmt_virtual_register b, fmt_virtual_register c, fmt_imm06 d]"
| "fmt_alu (WQML a b c d) = spaced [''wqml'', fmt_virtual_register a, fmt_virtual_register b, fmt_virtual_register c, fmt_imm06 d]"
| "fmt_alu (WQDV a b c d) = spaced [''wqdv'', fmt_virtual_register a, fmt_virtual_register b, fmt_virtual_register c, fmt_imm06 d]"
| "fmt_alu (WQMD a b c d) = spaced [''wqmd'', fmt_virtual_register a, fmt_virtual_register b, fmt_virtual_register c, fmt_virtual_register d]"
| "fmt_alu (WQCM a b c d) = spaced [''wqcm'', fmt_virtual_register a, fmt_virtual_register b, fmt_virtual_register c, fmt_imm06 d]"
| "fmt_alu (WQAM a b c d) = spaced [''wqam'', fmt_virtual_register a, fmt_virtual_register b, fmt_virtual_register c, fmt_virtual_register d]"
| "fmt_alu (WQMM a b c d) = spaced [''wqmm'', fmt_virtual_register a, fmt_virtual_register b, fmt_virtual_register c, fmt_virtual_register d]"

primrec fmt_control :: "virtual_register control_op \<Rightarrow> string" where
  "fmt_control (control_op.JMP a) = spaced [''jmp'', fmt_virtual_register a]"
| "fmt_control (control_op.JI a) = spaced [''ji'', fmt_imm24 a]"
| "fmt_control (control_op.JNE a b c) = spaced [''jne'', fmt_virtual_register a, fmt_virtual_register b, fmt_virtual_register c]"
| "fmt_control (control_op.JNEI a b c) = spaced [''jnei'', fmt_virtual_register a, fmt_virtual_register b, fmt_imm12 c]"
| "fmt_control (control_op.JNZI a b) = spaced [''jnzi'', fmt_virtual_register a, fmt_imm18 b]"
| "fmt_control (control_op.RET a) = spaced [''ret'', fmt_virtual_register a]"

primrec fmt_memory :: "virtual_register memory_op \<Rightarrow> string" where
  "fmt_memory (memory_op.ALOC _ a) = spaced [''aloc'', fmt_virtual_register a]"
| "fmt_memory (memory_op.CFEI _ a) = spaced [''cfei'', fmt_imm24 a]"
| "fmt_memory (memory_op.CFSI _ a) = spaced [''cfsi'', fmt_imm24 a]"
| "fmt_memory (memory_op.CFE _ a) = spaced [''cfe'', fmt_virtual_register a]"
| "fmt_memory (memory_op.CFS _ a) = spaced [''cfs'', fmt_virtual_register a]"
| "fmt_memory (memory_op.LB a b c) = spaced [''lb'', fmt_virtual_register a, fmt_virtual_register b, fmt_imm12 c]"
| "fmt_memory (memory_op.LW a b c) = spaced [''lw'', fmt_virtual_register a, fmt_virtual_register b, fmt_imm12 c]"
| "fmt_memory (memory_op.MCL a b) = spaced [''mcl'', fmt_virtual_register a, fmt_virtual_register b]"
| "fmt_memory (memory_op.MCLI a b) = spaced [''mcli'', fmt_virtual_register a, fmt_imm18 b]"
| "fmt_memory (memory_op.MCP a b c) = spaced [''mcp'', fmt_virtual_register a, fmt_virtual_register b, fmt_virtual_register c]"
| "fmt_memory (memory_op.MCPI a b c) = spaced [''mcpi'', fmt_virtual_register a, fmt_virtual_register b, fmt_imm12 c]"
| "fmt_memory (memory_op.MEQ a b c d) = spaced [''meq'', fmt_virtual_register a, fmt_virtual_register b, fmt_virtual_register c, fmt_virtual_register d]"
| "fmt_memory (memory_op.SB a b c) = spaced [''sb'', fmt_virtual_register a, fmt_virtual_register b, fmt_imm12 c]"
| "fmt_memory (memory_op.SW a b c) = spaced [''sw'', fmt_virtual_register a, fmt_virtual_register b, fmt_imm12 c]"

primrec fmt_contract :: "virtual_register contract_op \<Rightarrow> string" where
  "fmt_contract (BAL a b c) = spaced [''bal'', fmt_virtual_register a, fmt_virtual_register b, fmt_virtual_register c]"
| "fmt_contract (BHEI a) = spaced [''bhei'', fmt_virtual_register a]"
| "fmt_contract (BHSH a b) = spaced [''bhsh'', fmt_virtual_register a, fmt_virtual_register b]"
| "fmt_contract (BURN a b) = spaced [''burn'', fmt_virtual_register a, fmt_virtual_register b]"
| "fmt_contract (CALL a b c d) = spaced [''call'', fmt_virtual_register a, fmt_virtual_register b, fmt_virtual_register c, fmt_virtual_register d]"
| "fmt_contract (CB a) = spaced [''cb'', fmt_virtual_register a]"
| "fmt_contract (CCP a b c d) = spaced [''ccp'', fmt_virtual_register a, fmt_virtual_register b, fmt_virtual_register c, fmt_virtual_register d]"
| "fmt_contract (CROO a b) = spaced [''croo'', fmt_virtual_register a, fmt_virtual_register b]"
| "fmt_contract (CSIZ a b) = spaced [''csiz'', fmt_virtual_register a, fmt_virtual_register b]"
| "fmt_contract (BSIZ a b) = spaced [''bsiz'', fmt_virtual_register a, fmt_virtual_register b]"
| "fmt_contract (LDC a b c d) = spaced [''ldc'', fmt_virtual_register a, fmt_virtual_register b, fmt_virtual_register c, fmt_imm06 d]"
| "fmt_contract (BLDD a b c d) = spaced [''bldd'', fmt_virtual_register a, fmt_virtual_register b, fmt_virtual_register c, fmt_virtual_register d]"
| "fmt_contract (LOG a b c d) = spaced [''log'', fmt_virtual_register a, fmt_virtual_register b, fmt_virtual_register c, fmt_virtual_register d]"
| "fmt_contract (LOGD a b c d) = spaced [''logd'', fmt_virtual_register a, fmt_virtual_register b, fmt_virtual_register c, fmt_virtual_register d]"
| "fmt_contract (MINT a b) = spaced [''mint'', fmt_virtual_register a, fmt_virtual_register b]"
| "fmt_contract (RETD a b) = spaced [''retd'', fmt_virtual_register a, fmt_virtual_register b]"
| "fmt_contract (RVRT a) = spaced [''rvrt'', fmt_virtual_register a]"
| "fmt_contract (SMO a b c d) = spaced [''smo'', fmt_virtual_register a, fmt_virtual_register b, fmt_virtual_register c, fmt_virtual_register d]"
| "fmt_contract (SCWQ a b c) = spaced [''scwq'', fmt_virtual_register a, fmt_virtual_register b, fmt_virtual_register c]"
| "fmt_contract (SRW a b c) = spaced [''srw'', fmt_virtual_register a, fmt_virtual_register b, fmt_virtual_register c]"
| "fmt_contract (SRWQ a b c d) = spaced [''srwq'', fmt_virtual_register a, fmt_virtual_register b, fmt_virtual_register c, fmt_virtual_register d]"
| "fmt_contract (SWW a b c) = spaced [''sww'', fmt_virtual_register a, fmt_virtual_register b, fmt_virtual_register c]"
| "fmt_contract (SWWQ a b c d) = spaced [''swwq'', fmt_virtual_register a, fmt_virtual_register b, fmt_virtual_register c, fmt_virtual_register d]"
| "fmt_contract (TIME a b) = spaced [''time'', fmt_virtual_register a, fmt_virtual_register b]"
| "fmt_contract (TR a b c) = spaced [''tr'', fmt_virtual_register a, fmt_virtual_register b, fmt_virtual_register c]"
| "fmt_contract (TRO a b c d) = spaced [''tro'', fmt_virtual_register a, fmt_virtual_register b, fmt_virtual_register c, fmt_virtual_register d]"

primrec fmt_crypto :: "virtual_register crypto_op \<Rightarrow> string" where
  "fmt_crypto (ECK1 a b c) = spaced [''eck1'', fmt_virtual_register a, fmt_virtual_register b, fmt_virtual_register c]"
| "fmt_crypto (ECR1 a b c) = spaced [''ecr1'', fmt_virtual_register a, fmt_virtual_register b, fmt_virtual_register c]"
| "fmt_crypto (ED19 a b c d) = spaced [''ed19'', fmt_virtual_register a, fmt_virtual_register b, fmt_virtual_register c, fmt_virtual_register d]"
| "fmt_crypto (K256 a b c) = spaced [''k256'', fmt_virtual_register a, fmt_virtual_register b, fmt_virtual_register c]"
| "fmt_crypto (S256 a b c) = spaced [''s256'', fmt_virtual_register a, fmt_virtual_register b, fmt_virtual_register c]"
| "fmt_crypto (ECOP a b c d) = spaced [''ecop'', fmt_virtual_register a, fmt_virtual_register b, fmt_virtual_register c, fmt_virtual_register d]"
| "fmt_crypto (EPAR a b c d) = spaced [''epar'', fmt_virtual_register a, fmt_virtual_register b, fmt_virtual_register c, fmt_virtual_register d]"

primrec fmt_other :: "virtual_register other_op \<Rightarrow> string" where
  "fmt_other (ECAL a b c d) = spaced [''ecal'', fmt_virtual_register a, fmt_virtual_register b, fmt_virtual_register c, fmt_virtual_register d]"
| "fmt_other (FLAG a) = spaced [''flag'', fmt_virtual_register a]"
| "fmt_other (GM a b) = spaced [''gm'', fmt_virtual_register a, fmt_imm18 b]"
| "fmt_other (GTF a b c) = spaced [''gtf'', fmt_virtual_register a, fmt_virtual_register b, fmt_imm12 c]"

primrec fmt_nonvm :: "virtual_register nonvm_op \<Rightarrow> string" where
  "fmt_nonvm (BLOB a) = spaced [''blob'', fmt_imm24 a]"
| "fmt_nonvm nonvm_op.DataSectionOffsetPlaceholder = ''data section offset placeholder''"
| "fmt_nonvm nonvm_op.ConfigurablesOffsetPlaceholder = ''configurables offset placeholder''"
| "fmt_nonvm (LoadDataId a b) = spaced [''load'', fmt_virtual_register a, fmt_data_id b]"
| "fmt_nonvm (AddrDataId a b) = spaced [''addr'', fmt_virtual_register a, fmt_data_id b]"
| "fmt_nonvm Undefined = ''undefined op''"

primrec fmt_virtual_op :: "virtual_op \<Rightarrow> string" where
  "fmt_virtual_op (Alu op) = fmt_alu op"
| "fmt_virtual_op (ControlFlow op) = fmt_control op"
| "fmt_virtual_op (Memory op) = fmt_memory op"
| "fmt_virtual_op (Contract op) = fmt_contract op"
| "fmt_virtual_op (Crypto op) = fmt_crypto op"
| "fmt_virtual_op (Other op) = fmt_other op"
| "fmt_virtual_op (NonVm op) = fmt_nonvm op"

definition fmt_label :: "label \<Rightarrow> string" where
  "fmt_label lab = ''.'' @ to_string lab"

primrec fmt_control_flow :: "('r \<Rightarrow> string) \<Rightarrow> 'r control_flow_op \<Rightarrow> string" where
  "fmt_control_flow fmt (Label lab) = fmt_label lab"
| "fmt_control_flow fmt (Jump lab) = ''ji  '' @ fmt_label lab"
| "fmt_control_flow fmt Comment = []"
| "fmt_control_flow fmt (JumpIfNotZero r1 lab) = spaced [''jnzi'', fmt r1, fmt_label lab]"
| "fmt_control_flow fmt (Call lab) = spaced [''fncall'', fmt_label lab]"
| "fmt_control_flow fmt (SaveRetAddr r1 lab) = spaced [''mova'', fmt r1, fmt_label lab]"
| "fmt_control_flow fmt control_flow_op.DataSectionOffsetPlaceholder =
     ''DATA SECTION OFFSET[0..32]'' @ [CHR 0x0A] @ ''DATA SECTION OFFSET[32..64]''"
| "fmt_control_flow fmt control_flow_op.ConfigurablesOffsetPlaceholder =
     ''CONFIGURABLES_OFFSET[0..32]'' @ [CHR 0x0A] @ ''CONFIGURABLES_OFFSET[32..64]''"
| "fmt_control_flow fmt (LoadLabel r1 lab) = spaced [''lwlab'', fmt r1, fmt_label lab]"
| "fmt_control_flow fmt (PushAll lab) = spaced [''pusha'', fmt_label lab]"
| "fmt_control_flow fmt (PopAll lab) = spaced [''popa'', fmt_label lab]"

definition COMMENT_START_COLUMN :: nat where
  "COMMENT_START_COLUMN = 40"

definition fmt_opcode_and_comment :: "string \<Rightarrow> string \<Rightarrow> string" where
  "fmt_opcode_and_comment oc cmt =
     (if cmt = [] then oc
      else let op_length = length (takeWhile (\<lambda>c. c \<noteq> CHR 0x0A) (rev oc))
           in oc @ replicate (COMMENT_START_COLUMN - op_length) CHR '' '' @ ''; '' @ cmt)"

definition fmt_op :: "op \<Rightarrow> string" where
  "fmt_op o' = fmt_opcode_and_comment
     (case opcode o' of Inl v \<Rightarrow> fmt_virtual_op v | Inr c \<Rightarrow> fmt_control_flow fmt_virtual_register c) (comment o')"

end
