(* ===== verification/Asm_Inline.thy ===== *)
theory Asm_Inline
  imports Asm_Parse
begin

text \<open>
  Properties of the inline assembly parser: a reference definition of the instructions that are
  well formed, what the parser reports, and that the text printed for an instruction is read back
  as the same instruction.
\<close>

section \<open>Well-formed instructions\<close>

text \<open>
  An immediate as it is written, a letter and a decimal number, with a given constructor. Its
  first character has to be a single byte.
\<close>

definition sliceable :: "string option \<Rightarrow> bool" where
  "sliceable imm \<longleftrightarrow> (case imm of None \<Rightarrow> True | Some i \<Rightarrow> is_char_boundary_one i)"

definition written :: "(u64 \<Rightarrow> 'i result) \<Rightarrow> string \<Rightarrow> 'i option" where
  "written new s =
     (case s of [] \<Rightarrow> None
      | _ # digits \<Rightarrow> Option.bind (parse_u64 digits) (\<lambda>v. case new v of Inr i \<Rightarrow> Some i | Inl _ \<Rightarrow> None))"

text \<open>The instruction of a shape, when it has exactly the registers and the immediate of the shape.\<close>

definition accepted :: "opcode_args \<Rightarrow> virtual_register list \<Rightarrow> string option \<Rightarrow> virtual_op option" where
  "accepted s args imm =
     (case s of
        NoArgs oc \<Rightarrow> if args = [] \<and> imm = None then Some oc else None
      | SingleReg f \<Rightarrow> (case (args, imm) of ([a], None) \<Rightarrow> Some (f a) | _ \<Rightarrow> None)
      | TwoRegs f \<Rightarrow> (case (args, imm) of ([a, b], None) \<Rightarrow> Some (f a b) | _ \<Rightarrow> None)
      | ThreeRegs f \<Rightarrow> (case (args, imm) of ([a, b, c], None) \<Rightarrow> Some (f a b c) | _ \<Rightarrow> None)
      | FourRegs f \<Rightarrow> (case (args, imm) of ([a, b, c, d], None) \<Rightarrow> Some (f a b c d) | _ \<Rightarrow> None)
      | SingleImm24 f \<Rightarrow> (case (args, imm) of ([], Some i) \<Rightarrow> map_option f (written imm24_new i) | _ \<Rightarrow> None)
      | SingleRegImm18 f \<Rightarrow> (case (args, imm) of ([a], Some i) \<Rightarrow> map_option (f a) (written imm18_new i) | _ \<Rightarrow> None)
      | TwoRegsImm12 f \<Rightarrow> (case (args, imm) of ([a, b], Some i) \<Rightarrow> map_option (f a b) (written imm12_new i) | _ \<Rightarrow> None)
      | ThreeRegsImm06 f \<Rightarrow>
          (case (args, imm) of ([a, b, c], Some i) \<Rightarrow> map_option (f a b c) (written imm06_new i) | _ \<Rightarrow> None))"

definition well_formed :: "string \<Rightarrow> virtual_register list \<Rightarrow> string option \<Rightarrow> virtual_op option" where
  "well_formed n args imm = Option.bind (map_of opcode_table n) (\<lambda>s. accepted s args imm)"

section \<open>What the parser reports\<close>

text \<open>
  A parser that does not panic, only adds errors, adds some when it has no value, and adds none
  exactly when the reference has a value, which is then the value returned.
\<close>

definition reports :: "'a parsed \<Rightarrow> 'a option \<Rightarrow> bool" where
  "reports m spec \<longleftrightarrow> (\<forall>handler. \<exists>x es. m handler = Inr (x, handler @ es)
     \<and> (x = None \<longrightarrow> es \<noteq> []) \<and> (es = [] \<longrightarrow> x = spec) \<and> (spec \<noteq> None \<longrightarrow> es = []))"

named_theorems parser_reports

lemma reports_clean: "reports m spec \<Longrightarrow> m handler = Inr (Some x, handler) \<longleftrightarrow> spec = Some x"
  unfolding reports_def by (metis append_Nil2 append_self_conv option.discI old.sum.inject(2) prod.inject)

lemma reports_ok [parser_reports]: "reports (parse_ok x) (Some x)"
  by (simp add: reports_def parse_ok_def)

lemma reports_err [parser_reports]: "reports (parse_err e) None"
  by (simp add: reports_def parse_err_def vec_push_def)

lemma reports_emit_if [parser_reports]: "reports (emit_if b e) (if b then None else Some ())"
  by (simp add: reports_def emit_if_def vec_push_def)

lemma reports_bind [parser_reports]:
  assumes "reports m spec" "\<And>x. reports (f x) (g x)"
  shows "reports (bindP m f) (Option.bind spec g)"
  unfolding reports_def
proof
  fix handler
  obtain x es where m: "m handler = Inr (x, handler @ es)" "x = None \<longrightarrow> es \<noteq> []" "es = [] \<longrightarrow> x = spec"
    "spec \<noteq> None \<longrightarrow> es = []" using assms(1) unfolding reports_def by blast
  show "\<exists>y es. bindP m f handler = Inr (y, handler @ es) \<and> (y = None \<longrightarrow> es \<noteq> [])
      \<and> (es = [] \<longrightarrow> y = Option.bind spec g) \<and> (Option.bind spec g \<noteq> None \<longrightarrow> es = [])"
  proof (cases x)
    case None
    then show ?thesis using m by (cases spec) (auto simp: bindP_def)
  next
    case (Some y)
    obtain z es' where "f y (handler @ es) = Inr (z, (handler @ es) @ es')" "z = None \<longrightarrow> es' \<noteq> []"
      "es' = [] \<longrightarrow> z = g y" "g y \<noteq> None \<longrightarrow> es' = []" using assms(2) [of y] unfolding reports_def by blast
    then show ?thesis using m Some by (cases spec) (auto simp: bindP_def intro!: exI [of _ "es @ es'"])
  qed
qed

lemma reports_no_immediate [parser_reports]:
  "reports (no_immediate err imm) (if imm = None then Some () else None)"
  by (cases imm) (simp_all add: no_immediate_def reports_ok reports_emit_if [of True, simplified])

lemma reports_read_immediate [parser_reports]:
  assumes "sliceable (map_option as_str imm)"
  shows "reports (read_immediate new imm sp) (Option.bind imm (\<lambda>i. written new (as_str i)))"
proof (cases imm)
  case None
  then show ?thesis by (simp add: reports_def read_immediate_def parse_err_def vec_push_def)
next
  case (Some i)
  then have one: "is_char_boundary_one (as_str i)" using assms by (simp add: sliceable_def)
  then obtain c digits where "as_str i = c # digits" by (cases "as_str i") (auto simp: is_char_boundary_one_def)
  then show ?thesis using Some one
    by (auto simp: reports_def read_immediate_def slice_from_one_def written_def parse_err_def parse_ok_def vec_push_def
        split: option.splits sum.splits)
qed

lemma reports_after_emit: "reports m spec \<Longrightarrow> reports (bindP (emit_if b e) (\<lambda>_. m)) (if b then None else spec)"
  using reports_bind [OF reports_emit_if, of "\<lambda>_. m" "\<lambda>_. spec" b e] by (cases b) simp_all

lemma reports_guarded:
  "reports m spec \<Longrightarrow> spec' = (if b then None else spec) \<Longrightarrow> reports (bindP (emit_if b e) (\<lambda>_. m)) spec'"
  by (simp only: reports_after_emit)

lemma reports_build: "reports m spec \<Longrightarrow> reports (bindP m (\<lambda>x. parse_ok (f x))) (map_option f spec)"
  using reports_bind [OF _ reports_ok, of m spec f] by (simp add: map_conv_bind_option comp_def)

lemma reports_checked:
  "reports (bindP (no_immediate err imm) (\<lambda>_. parse_ok x)) (if imm = None then Some x else None)"
  using reports_bind [OF reports_no_immediate reports_ok, of err imm "\<lambda>_. x"] by (cases imm) simp_all

lemma reports_regs:
  "reports (single_reg args imm sp) (case (args, imm) of ([a], None) \<Rightarrow> Some a | _ \<Rightarrow> None)"
  "reports (two_regs args imm sp) (case (args, imm) of ([a, b], None) \<Rightarrow> Some (a, b) | _ \<Rightarrow> None)"
  "reports (three_regs args imm sp) (case (args, imm) of ([a, b, c], None) \<Rightarrow> Some (a, b, c) | _ \<Rightarrow> None)"
  "reports (four_regs args imm sp) (case (args, imm) of ([a, b, c, d], None) \<Rightarrow> Some (a, b, c, d) | _ \<Rightarrow> None)"
  by (auto simp: single_reg_def two_regs_def three_regs_def four_regs_def reports_def bindP_def emit_if_def parse_ok_def
      parse_err_def no_immediate_def vec_push_def split: list.splits option.splits)

lemma reports_imms:
  assumes "sliceable (map_option as_str imm)"
  shows "reports (single_imm_24 args imm sp)
      (case args of [] \<Rightarrow> Option.bind imm (\<lambda>i. written imm24_new (as_str i)) | _ \<Rightarrow> None)"
    "reports (single_reg_imm_18 args imm sp)
      (case args of [a] \<Rightarrow> map_option (Pair a) (Option.bind imm (\<lambda>i. written imm18_new (as_str i))) | _ \<Rightarrow> None)"
    "reports (two_regs_imm_12 args imm sp)
      (case args of [a, b] \<Rightarrow> map_option (\<lambda>i. (a, b, i)) (Option.bind imm (\<lambda>i. written imm12_new (as_str i))) | _ \<Rightarrow> None)"
    "reports (three_regs_imm_06 args imm sp)
      (case args of [a, b, c] \<Rightarrow> map_option (\<lambda>i. (a, b, c, i)) (Option.bind imm (\<lambda>i. written imm06_new (as_str i))) | _ \<Rightarrow> None)"
proof -
  note read = reports_read_immediate [OF assms]
  have build: "reports (bindP (read_immediate new imm sp) (\<lambda>i. parse_ok (f i)))
      (map_option f (Option.bind imm (\<lambda>i. written new (as_str i))))" for new :: "u64 \<Rightarrow> 'i result" and f :: "'i \<Rightarrow> 'o"
    by (rule reports_build) (rule read)
  let ?w = "\<lambda>new. Option.bind imm (\<lambda>i. written new (as_str i))"
  show "reports (single_imm_24 args imm sp) (case args of [] \<Rightarrow> ?w imm24_new | _ \<Rightarrow> None)"
    unfolding single_imm_24_def by (rule reports_guarded [OF read]) (auto split: list.splits)
  show "reports (single_reg_imm_18 args imm sp) (case args of [a] \<Rightarrow> map_option (Pair a) (?w imm18_new) | _ \<Rightarrow> None)"
    unfolding single_reg_imm_18_def
    by (rule reports_guarded [where spec = "case args of a # _ \<Rightarrow> map_option (Pair a) (?w imm18_new) | _ \<Rightarrow> None"])
      (auto split: list.splits intro: build reports_err)
  show "reports (two_regs_imm_12 args imm sp)
      (case args of [a, b] \<Rightarrow> map_option (\<lambda>i. (a, b, i)) (?w imm12_new) | _ \<Rightarrow> None)"
    unfolding two_regs_imm_12_def
    by (rule reports_guarded [where spec = "case args of a # b # _ \<Rightarrow> map_option (\<lambda>i. (a, b, i)) (?w imm12_new) | _ \<Rightarrow> None"])
      (auto split: list.splits intro: build reports_err)
  show "reports (three_regs_imm_06 args imm sp)
      (case args of [a, b, c] \<Rightarrow> map_option (\<lambda>i. (a, b, c, i)) (?w imm06_new) | _ \<Rightarrow> None)"
    unfolding three_regs_imm_06_def
    by (rule reports_guarded [where spec = "case args of a # b # c # _ \<Rightarrow> map_option (\<lambda>i. (a, b, c, i)) (?w imm06_new) | _ \<Rightarrow> None"])
      (auto split: list.splits intro: build reports_err)
qed

lemma reports_build_tuple:
  "reports m2 spec2 \<Longrightarrow> reports (bindP m2 (\<lambda>(a, b). parse_ok (f2 a b))) (map_option (\<lambda>(a, b). f2 a b) spec2)"
  "reports m3 spec3 \<Longrightarrow> reports (bindP m3 (\<lambda>(a, b, c). parse_ok (f3 a b c))) (map_option (\<lambda>(a, b, c). f3 a b c) spec3)"
  "reports m4 spec4 \<Longrightarrow>
    reports (bindP m4 (\<lambda>(a, b, c, d). parse_ok (f4 a b c d))) (map_option (\<lambda>(a, b, c, d). f4 a b c d) spec4)"
  using reports_build [of m2 spec2 "\<lambda>(a, b). f2 a b"] reports_build [of m3 spec3 "\<lambda>(a, b, c). f3 a b c"]
    reports_build [of m4 spec4 "\<lambda>(a, b, c, d). f4 a b c d"]
  by (simp_all add: case_prod_unfold)

lemma reports_eq: "reports m spec \<Longrightarrow> spec = spec' \<Longrightarrow> reports m spec'"
  by simp

lemmas shapes = accepted_def option.map_comp comp_def

lemma reports_read_args:
  assumes "sliceable (map_option as_str imm)" "\<And>oc. s \<noteq> NoArgs oc"
  shows "reports (read_args s args imm sp) (accepted s args (map_option as_str imm))"
proof -
  note imms = reports_imms [OF assms(1)]
  show ?thesis
  proof (cases s)
    case (SingleReg x)
    then show ?thesis
      by (simp only: read_args_def opcode_args.case, intro reports_eq [OF reports_build [OF reports_regs(1)]]) (cases imm; auto simp: shapes split: list.splits)
  next
    case (TwoRegs x)
    then show ?thesis
      by (simp only: read_args_def opcode_args.case, intro reports_eq [OF reports_build_tuple(1) [OF reports_regs(2)]]) (cases imm; auto simp: shapes split: list.splits)
  next
    case (ThreeRegs x)
    then show ?thesis
      by (simp only: read_args_def opcode_args.case, intro reports_eq [OF reports_build_tuple(2) [OF reports_regs(3)]]) (cases imm; auto simp: shapes split: list.splits)
  next
    case (FourRegs x)
    then show ?thesis
      by (simp only: read_args_def opcode_args.case, intro reports_eq [OF reports_build_tuple(3) [OF reports_regs(4)]]) (cases imm; auto simp: shapes split: list.splits)
  next
    case (SingleImm24 x)
    then show ?thesis
      by (simp only: read_args_def opcode_args.case, intro reports_eq [OF reports_build [OF imms(1)]]) (cases imm; auto simp: shapes split: list.splits)
  next
    case (SingleRegImm18 x)
    then show ?thesis
      by (simp only: read_args_def opcode_args.case, intro reports_eq [OF reports_build_tuple(1) [OF imms(2)]]) (cases imm; auto simp: shapes split: list.splits)
  next
    case (TwoRegsImm12 x)
    then show ?thesis
      by (simp only: read_args_def opcode_args.case, intro reports_eq [OF reports_build_tuple(2) [OF imms(3)]]) (cases imm; auto simp: shapes split: list.splits)
  next
    case (ThreeRegsImm06 x)
    then show ?thesis
      by (simp only: read_args_def opcode_args.case, intro reports_eq [OF reports_build_tuple(3) [OF imms(4)]]) (cases imm; auto simp: shapes split: list.splits)
  qed (use assms(2) in simp)
qed

text \<open>\<^verbatim>\<open>noop\<close> is the only name whose arguments are not checked.\<close>

lemma table_checked: "map_of opcode_table n = Some s \<Longrightarrow> n \<noteq> ''noop'' \<Longrightarrow> s \<noteq> NoArgs oc"
proof -
  have "\<forall>(n, s) \<in> set opcode_table. s = NoArgs oc \<longrightarrow> n = ''noop''"
    by (simp add: opcode_table_def alu_table_def control_table_def memory_table_def contract_table_def crypto_table_def
        other_table_def nonvm_table_def)
  then show "map_of opcode_table n = Some s \<Longrightarrow> n \<noteq> ''noop'' \<Longrightarrow> s \<noteq> NoArgs oc" using map_of_SomeD by fastforce
qed

lemma read_args_sliceable:
  assumes "read_args s args imm sp [] = Inr (Some oc, [])" "\<And>oc. s \<noteq> NoArgs oc"
  shows "sliceable (map_option as_str imm)"
proof (cases imm)
  case (Some i)
  then show ?thesis using assms
    by (cases s)
      (auto simp: sliceable_def read_args_def single_reg_def two_regs_def three_regs_def four_regs_def single_imm_24_def
        single_reg_imm_18_def two_regs_imm_12_def three_regs_imm_06_def bindP_def bindE_Inr_iff emit_if_def no_immediate_def
        parse_ok_def parse_err_def vec_push_def read_immediate_def slice_from_one_def split: list.splits if_splits)
qed (simp add: sliceable_def)

section \<open>Properties\<close>

text \<open>
  (C29) For any instruction of an inline assembly block whose name is not \<^verbatim>\<open>noop\<close> and whose
  immediate, when there is one, is not empty and begins with a single-byte character,
  \<^verbatim>\<open>parse_opcode\<close> returns without a panic and keeps the errors that the handler had. It emits no
  error exactly when the name is an instruction and the registers and the immediate are what this
  instruction takes, the immediate in its bits, and it returns then that instruction. When it
  returns no instruction it has emitted an error.
\<close>

theorem parse_opcode_reports:
  assumes "sliceable (map_option as_str immediate)" "as_str name \<noteq> ''noop''"
  shows "\<exists>x errors. parse_opcode name args immediate whole_op_span handler = Inr (x, handler @ errors)
    \<and> (errors = [] \<longleftrightarrow> well_formed (as_str name) args (map_option as_str immediate) \<noteq> None)
    \<and> (errors = [] \<longrightarrow> x = well_formed (as_str name) args (map_option as_str immediate))
    \<and> (x = None \<longrightarrow> errors \<noteq> [])"
proof (cases "map_of opcode_table (as_str name)")
  case None
  then show ?thesis by (simp add: parse_opcode_def well_formed_def parse_err_def vec_push_def)
next
  case (Some s)
  obtain x es where "read_args s args immediate whole_op_span handler = Inr (x, handler @ es)"
    "x = None \<longrightarrow> es \<noteq> []" "es = [] \<longrightarrow> x = accepted s args (map_option as_str immediate)"
    "accepted s args (map_option as_str immediate) \<noteq> None \<longrightarrow> es = []"
    using reports_read_args [OF assms(1) table_checked [OF Some assms(2)], of args whole_op_span] unfolding reports_def by blast
  then show ?thesis using Some
    by (cases "accepted s args (map_option as_str immediate)"; intro exI [of _ x] exI [of _ es];
        auto simp: parse_opcode_def well_formed_def)
qed

section \<open>Text that is read back\<close>

text \<open>What is printed for an instruction of a shape, with the name under which the shape stands.\<close>

definition prints :: "string \<Rightarrow> opcode_args \<Rightarrow> bool" where
  "prints n s \<longleftrightarrow>
     (case s of
        NoArgs oc \<Rightarrow> n = ''noop''
      | SingleReg f \<Rightarrow> \<forall>a. fmt_virtual_op (f a) = spaced [n, fmt_virtual_register a]
      | TwoRegs f \<Rightarrow> \<forall>a b. fmt_virtual_op (f a b) = spaced [n, fmt_virtual_register a, fmt_virtual_register b]
      | ThreeRegs f \<Rightarrow> \<forall>a b c. fmt_virtual_op (f a b c)
          = spaced [n, fmt_virtual_register a, fmt_virtual_register b, fmt_virtual_register c]
      | FourRegs f \<Rightarrow> \<forall>a b c d. fmt_virtual_op (f a b c d)
          = spaced [n, fmt_virtual_register a, fmt_virtual_register b, fmt_virtual_register c, fmt_virtual_register d]
      | SingleImm24 f \<Rightarrow> \<forall>i. fmt_virtual_op (f i) = spaced [n, fmt_imm24 i]
      | SingleRegImm18 f \<Rightarrow> \<forall>a i. fmt_virtual_op (f a i) = spaced [n, fmt_virtual_register a, fmt_imm18 i]
      | TwoRegsImm12 f \<Rightarrow> \<forall>a b i. fmt_virtual_op (f a b i)
          = spaced [n, fmt_virtual_register a, fmt_virtual_register b, fmt_imm12 i]
      | ThreeRegsImm06 f \<Rightarrow> \<forall>a b c i. fmt_virtual_op (f a b c i)
          = spaced [n, fmt_virtual_register a, fmt_virtual_register b, fmt_virtual_register c, fmt_imm06 i])"

lemma table_prints: "\<forall>(n, s) \<in> set opcode_table. prints n s"
  by (simp add: opcode_table_def alu_table_def control_table_def memory_table_def contract_table_def crypto_table_def
      other_table_def nonvm_table_def prints_def)

lemma unat_ucast_small: "unat (raw :: u64) < 2 ^ LENGTH('a) \<Longrightarrow> unat (ucast raw :: 'a::len word) = unat raw"
  by (simp add: unsigned_ucast_eq take_bit_nat_eq_self)

lemma parse_u64_unat: "parse_u64 (to_string (unat (raw :: u64))) = Some raw"
proof -
  have "unat raw < 2 ^ 64" using unsigned_less [of raw] by simp
  then show ?thesis by (simp add: parse_u64_to_string)
qed

text \<open>An immediate that was read is printed with the same value.\<close>

lemma written_printed:
  "written imm06_new s = Some i06 \<Longrightarrow> written imm06_new (fmt_imm06 i06) = Some i06"
  "written imm12_new s = Some i12 \<Longrightarrow> written imm12_new (fmt_imm12 i12) = Some i12"
  "written imm18_new s = Some i18 \<Longrightarrow> written imm18_new (fmt_imm18 i18) = Some i18"
  "written imm24_new s = Some i24 \<Longrightarrow> written imm24_new (fmt_imm24 i24) = Some i24"
  by (auto simp: written_def immediates_checked fmt_imm06_def fmt_imm12_def fmt_imm18_def fmt_imm24_def
      unat_ucast_small parse_u64_unat bind_eq_Some_conv split: list.splits if_splits)

definition words :: "string \<Rightarrow> virtual_register list \<Rightarrow> string option \<Rightarrow> string list" where
  "words n args imm = n # map fmt_virtual_register args @ (case imm of None \<Rightarrow> [] | Some i \<Rightarrow> [i])"

definition printed_immediate :: "opcode_args \<Rightarrow> string option \<Rightarrow> string option" where
  "printed_immediate s imm =
     (case s of
        SingleImm24 _ \<Rightarrow> map_option fmt_imm24 (Option.bind imm (written imm24_new))
      | SingleRegImm18 _ \<Rightarrow> map_option fmt_imm18 (Option.bind imm (written imm18_new))
      | TwoRegsImm12 _ \<Rightarrow> map_option fmt_imm12 (Option.bind imm (written imm12_new))
      | ThreeRegsImm06 _ \<Rightarrow> map_option fmt_imm06 (Option.bind imm (written imm06_new))
      | _ \<Rightarrow> None)"

lemma digit_boundary: "is_char_boundary_one (c # to_string n)"
proof -
  obtain d cs where "to_string n = digit d # cs" "d < 10" using to_string_Cons by blast
  then show ?thesis by (simp add: is_char_boundary_one_def of_char_digit)
qed

lemma fmt_imms_sliceable:
  "is_char_boundary_one (fmt_imm06 i06)" "is_char_boundary_one (fmt_imm12 i12)"
  "is_char_boundary_one (fmt_imm18 i18)" "is_char_boundary_one (fmt_imm24 i24)"
  by (simp_all add: fmt_imm06_def fmt_imm12_def fmt_imm18_def fmt_imm24_def digit_boundary)

lemma accepted_printed:
  assumes "prints n s" "n \<noteq> ''noop''" "accepted s args imm = Some oc"
  shows "fmt_virtual_op oc = spaced (words n args (printed_immediate s imm))
    \<and> accepted s args (printed_immediate s imm) = Some oc \<and> sliceable (printed_immediate s imm)"
  using assms
  by (cases s; cases imm)
    (auto simp: prints_def accepted_def words_def printed_immediate_def written_printed fmt_imms_sliceable sliceable_def
      split: list.splits)

text \<open>
  (C30) An instruction that was read without an error and is not \<^verbatim>\<open>noop\<close> is printed as its name,
  its registers and its immediate, separated by single spaces, and reading the name, the same
  registers and the printed immediate again gives the same instruction without an error, whatever
  form the immediate had at first.
\<close>

theorem print_parse:
  assumes "parse_opcode name args immediate whole_op_span [] = Inr (Some oc, [])" "as_str name \<noteq> ''noop''"
  shows "\<exists>imm. fmt_virtual_op oc = spaced (words (as_str name) args imm)
    \<and> parse_opcode name args (map_option (\<lambda>s. \<lparr>as_str = s, ident_span = sp\<rparr>) imm) whole_op_span' [] = Inr (Some oc, [])"
proof -
  obtain s where s: "map_of opcode_table (as_str name) = Some s" "read_args s args immediate whole_op_span [] = Inr (Some oc, [])"
    using assms(1) by (auto simp: parse_opcode_def parse_err_def split: option.splits)
  note checked = table_checked [OF s(1) assms(2)]
  have "accepted s args (map_option as_str immediate) = Some oc"
    using reports_clean [OF reports_read_args [OF read_args_sliceable [OF s(2) checked] checked]] s(2) by blast
  moreover have "prints (as_str name) s" using table_prints map_of_SomeD [OF s(1)] by fast
  ultimately obtain imm where imm: "fmt_virtual_op oc = spaced (words (as_str name) args imm)"
    "accepted s args imm = Some oc" "sliceable imm" using accepted_printed assms(2) by blast
  let ?i = "map_option (\<lambda>s. \<lparr>as_str = s, ident_span = sp\<rparr>) imm"
  have "map_option as_str ?i = imm" by (cases imm) simp_all
  then have "read_args s args ?i whole_op_span' [] = Inr (Some oc, [])"
    using reports_clean [OF reports_read_args [OF _ checked], of ?i args whole_op_span' "[]" oc] imm(2,3) by simp
  then show ?thesis using imm(1) s(1) by (auto simp: parse_opcode_def)
qed

section \<open>Witnesses\<close>

abbreviation a_span :: span where
  "a_span \<equiv> (''main.sw'', 0, 4)"

abbreviation an_ident :: "string \<Rightarrow> ident" where
  "an_ident s \<equiv> \<lparr>as_str = s, ident_span = a_span\<rparr>"

lemmas reading = parse_opcode_def well_formed_def opcode_table_def alu_table_def accepted_def written_def immediates_checked
  parse_u64_def strip_plus_def of_char_def

lemma parse_addi:
  "parse_opcode (an_ident ''addi'') [Virtual ''0'', Constant Zero] (Some (an_ident ''i+07'')) a_span []
    = Inr (Some (Alu (ADDI (Virtual ''0'') (Constant Zero) \<lparr>value12 = 7\<rparr>)), [])"
  by (simp add: reading read_args_def two_regs_imm_12_def bindP_def emit_if_def read_immediate_def slice_from_one_def is_char_boundary_one_def
      parse_ok_def)

theorem parse_opcode_reports_witness:
  "\<exists>x errors. parse_opcode (an_ident ''addi'') [Virtual ''0'', Constant Zero] (Some (an_ident ''i4096'')) a_span [] = Inr (x, errors)
    \<and> errors \<noteq> []"
proof -
  have "well_formed ''addi'' [Virtual ''0'', Constant Zero] (Some ''i4096'') = None"
    by (simp add: reading)
  then show ?thesis
    using parse_opcode_reports [of "Some (an_ident ''i4096'')" "an_ident ''addi''" "[Virtual ''0'', Constant Zero]" a_span "[]"]
    by (auto simp: sliceable_def is_char_boundary_one_def)
qed

theorem print_parse_witness:
  "\<exists>imm. fmt_virtual_op (Alu (ADDI (Virtual ''0'') (Constant Zero) \<lparr>value12 = 7\<rparr>))
      = spaced (words ''addi'' [Virtual ''0'', Constant Zero] imm)
    \<and> parse_opcode (an_ident ''addi'') [Virtual ''0'', Constant Zero] (map_option an_ident imm) a_span []
      = Inr (Some (Alu (ADDI (Virtual ''0'') (Constant Zero) \<lparr>value12 = 7\<rparr>)), [])"
  using print_parse [OF parse_addi, of a_span a_span] by simp

end
