(* ===== verification/Spec2Isabelle.thy ===== *)
theory Spec2Isabelle
  imports Match_Properties Asm_Properties Asm_Spilled Asm_Layout Asm_Optimizer Asm_Sections Asm_Start Asm_Inline
begin

text \<open>
  A verification library for the Sway compiler (the crates under \<^verbatim>\<open>src/sway-core\<close> and
  \<^verbatim>\<open>src/sway-ir\<close>). It models two parts of the compiler: the analysis that decides whether a match
  expression is exhaustive and which of its arms are reachable, and the back end that optimizes
  instructions on virtual registers, turns them into instructions on the registers of the
  machine, lays out the constants of the program, and writes the bytecode.

  \<^bold>\<open>Conventions.\<close> A fallible or panicking computation returns a value of the type \<open>result\<close> of
  \<open>Sway_Prelude\<close>: on the left a compile error, a panic with its message, or the end of the fuel;
  \<open>bindE\<close>, \<open>mapM\<close> and \<open>foldM\<close> sequence such computations in the order of the source. Integer types
  keep their width as words; an addition that Rust checks is a panic when it overflows. Vectors
  are lists with \<open>vec_push\<close> and \<open>vec_pop\<close> at the end, ordered sets are sorted lists without
  duplicates, index sets and index maps are lists in the order of insertion.

  \<open>Sway_Arith\<close> holds the checked arithmetic and the helpers on options and vectors.

  \<^bold>\<open>Match analysis\<close> (\<^verbatim>\<open>semantic_analysis/ast_node/expression/match_expression/analysis\<close>).
  \<^item> \<open>Match_Range\<close>: \<^verbatim>\<open>range.rs\<close>, ranges of integers and the operations on lists of them.
  \<^item> \<open>Match_Pattern\<close>: \<^verbatim>\<open>pattern.rs\<close>, \<^verbatim>\<open>patstack.rs\<close>, \<^verbatim>\<open>matrix.rs\<close>, \<^verbatim>\<open>witness_report.rs\<close>.
  \<^item> \<open>Match_Factory\<close>: \<^verbatim>\<open>constructor_factory.rs\<close>, with the types it reads of \<^verbatim>\<open>type_system/info.rs\<close>.
  \<^item> \<open>Match_Usefulness\<close>: \<^verbatim>\<open>usefulness.rs\<close>, the algorithm and its entry point. The recursion of the
    algorithm is on fuel; fuel above the size of the type plus one is enough (\<open>usefulness_total\<close>).
  \<^item> \<open>Match_Semantics\<close>, \<open>Match_Values\<close>: values of the types and when a pattern matches a value; the
    contract between patterns and values that the algorithm needs is the locale \<open>value_semantics\<close>,
    interpreted on the values of the language.
  \<^item> \<open>Match_Soundness\<close>, \<open>Match_Total\<close>: the algorithm against this contract.
  \<^item> \<open>Match_Properties\<close>: what follows for the entry point, and four defects with their inputs.
  The list of possible types of the factory is filled by the type engine and is an argument.

  \<^bold>\<open>Back end\<close> (\<^verbatim>\<open>asm_lang\<close> and \<^verbatim>\<open>asm_generation/fuel\<close>).
  \<^item> \<open>Asm_Registers\<close>: \<^verbatim>\<open>virtual_register.rs\<close>, \<^verbatim>\<open>virtual_immediate.rs\<close>, \<^verbatim>\<open>compiler_constants.rs\<close>.
  \<^item> \<open>Asm_Ops\<close>, \<open>Asm_Renaming\<close>: \<^verbatim>\<open>virtual_ops.rs\<close>, all instructions in seven groups with the
    registers they read and write, and the renaming of registers.
  \<^item> \<open>Asm_Program\<close>: \<^verbatim>\<open>Op\<close> and \<^verbatim>\<open>ControlFlowOp\<close> of \<^verbatim>\<open>asm_lang/mod.rs\<close>, and successors.
  \<^item> \<open>Asm_Allocated\<close>: \<^verbatim>\<open>allocated_ops.rs\<close> and the register pool.
  \<^item> \<open>Asm_Liveness\<close>, \<open>Asm_Cfg\<close>: \<^verbatim>\<open>analyses.rs\<close>. The fixed-point loop is on fuel; fuel above twice
    the number of instructions times the number of registers is enough.
  \<^item> \<open>Asm_Graph\<close>, \<open>Asm_Assign\<close>, \<open>Asm_Coalesce\<close>, \<open>Asm_Coalesce_Live\<close>, \<open>Asm_Simplify\<close>, \<open>Asm_Colouring\<close>,
    \<open>Asm_Spill\<close>, \<open>Asm_Regalloc\<close>: \<^verbatim>\<open>register_allocator.rs\<close>, one theory per phase: the interference
    graph, the assignment from the stack, coalescing (and its effect on liveness), simplification
    with the choice of spills (and its invariants), the insertion of spill code, and the driver.
    Chains of merged registers are followed on fuel above the number of instructions; for the
    driver \<open>alloc_fuel\<close> bounds the growth of the code over four rounds of spilling.
  \<^item> \<open>Asm_Properties\<close>: the locale \<open>allocator\<close> over the libraries of the allocator, the properties of
    the phases and of the whole. \<open>Asm_Spilled\<close>: the code that spilling inserts, run on a machine with
    a memory: what it loads, what it stores, and what it leaves alone.
  \<^item> \<open>Ir_Types\<close>, \<open>Ir_Constants\<close>: \<^verbatim>\<open>sway-ir/src/irtype.rs\<close> and \<^verbatim>\<open>constant.rs\<close>, types with their sizes
    and the offsets of their parts, constants with the paddings of their elements.
  \<^item> \<open>Asm_Data\<close>, \<open>Asm_Layout\<close>: \<^verbatim>\<open>data_section.rs\<close>, the entries of the data section and their bytes, and
    the agreement of these bytes with the layout that the types prescribe.
  \<^item> \<open>Asm_Optimize\<close>: \<^verbatim>\<open>optimizations.rs\<close> and \<^verbatim>\<open>abstract_instruction_set.rs\<close>, the passes of the
    optimizer and the verifier. The worklist of \<^verbatim>\<open>simplify_cfg\<close> is on fuel above the number of
    instructions, \<^verbatim>\<open>dce\<close> has the fuel of liveness; the other loops are total.
  \<^item> \<open>Asm_Machine\<close>: runs of code on virtual registers, on a machine that is an argument, and the
    simulation with which \<open>Asm_Dce\<close>, \<open>Asm_Reach\<close>, \<open>Asm_Cleanup\<close> and \<open>Asm_Index\<close> show that a pass keeps
    results; \<open>Asm_Optimized\<close> composes the passes. \<open>machine_ok\<close> says that an instruction depends on the
    registers it lists and on those of the machine, and changes no others; \<open>arithmetic_ok\<close> that
    sums and products do not wrap around unless the wrapping bit of \<^verbatim>\<open>$flag\<close> is set, which only \<^verbatim>\<open>FLAG\<close>
    changes, and that an access depends on its address only. Gas is
    not modelled: a run that ends keeps its result, and the number of steps does not grow.
  \<^item> \<open>Asm_Optimizer\<close>: the properties of the optimizer, a machine on which the hypotheses hold, and
    five defects with their code.
  \<^item> \<open>Asm_Labels\<close>: \<^verbatim>\<open>allocated_abstract_instruction_set.rs\<close>, what happens after allocation: saving of
    registers around calls, the places of labels, the rewriting of far jumps and the jumps
    themselves. Places are computed at most eleven times, as in the code; the recursion is total.
  \<^item> \<open>Asm_Sections\<close>: which registers are saved. \<open>Asm_Resolve\<close>, \<open>Asm_Realize\<close>: the places of labels are right
    in the code that is left, and every jump lands on its label.
  \<^item> \<open>Asm_Encode\<close>: \<^verbatim>\<open>to_fuel_asm\<close> of \<^verbatim>\<open>allocated_ops.rs\<close>, for every instruction its name, registers and
    immediate; a load of a large entry calls itself once, for the pointer, so fuel two is enough.
  \<^item> \<open>Asm_Bytecode\<close>: \<^verbatim>\<open>programs/allocated.rs\<close>, \<^verbatim>\<open>programs/final.rs\<close>, \<^verbatim>\<open>finalized_asm.rs\<close> and \<^verbatim>\<open>checks.rs\<close>;
    \<open>Asm_Emit\<close>: where everything stands in the bytecode, and a defect.
  \<^item> \<open>Asm_Entry\<close>: \<^verbatim>\<open>globals_section.rs\<close>, \<^verbatim>\<open>register_sequencer.rs\<close>, \<^verbatim>\<open>programs/abstract.rs\<close> and the end of
    \<^verbatim>\<open>FuelAsmBuilder::finalize\<close>, which composes optimizer, verifier, allocator, labels and bytecode;
    \<open>Asm_Start\<close>: the prologue in the bytecode, the selection of contract methods, and globals. The
    selection is stated with \<open>run_selection\<close>, which runs the few kinds of instructions of which the
    switch consists and is stuck on all others.
  \<^item> \<open>Asm_Parse\<close>: the rest of \<^verbatim>\<open>asm_lang/mod.rs\<close>, the parser of inline assembly instructions and the text
    form of instructions, with the numbers of \<open>Sway_Decimal\<close>; \<open>Asm_Inline\<close>: what the parser accepts and
    reports, and that printed instructions are read back.
  The registers, instructions and bytes of the machine (\<^verbatim>\<open>fuel_asm\<close>), the graph library (\<^verbatim>\<open>petgraph\<close>),
  the order in which hash sets are walked, and the machine are arguments of the definitions;
  \<open>fuel_regs_ok\<close>, \<open>graph_ok\<close>, \<open>hash_order_ok\<close>, \<open>machine_ok\<close>, \<open>arithmetic_ok\<close> and \<open>spill_vm_ok\<close> state what
  their documentation promises, and an encoded instruction is assumed to have four bytes.

  \<^bold>\<open>What is shown.\<close> An exhaustive verdict is right, an arm reported unreachable is covered by earlier
  arms, and the analysis always answers, for arms without or-patterns and partial struct patterns;
  for those two, and for signatures with wildcards, the algorithm is shown to be wrong. Liveness
  is exactly reachability of a read; the interference graph is exactly what the table says;
  coalescing, simplification, assignment and spilling never panic on code with one stack extension
  and a frame of 24 bits, and keep their invariants; spilled registers are loaded from and
  stored to disjoint slots around the instructions that use them; the allocated instructions never
  overwrite a live value. The optimizer keeps results of code without the patterns on which it is
  shown to be wrong, deletes only instructions without side effect, and keeps exactly the reachable
  ones. The bytes of a constant
  stand where the type says, and the handles of the data section stay valid. In the bytecode every
  jump lands on its label, registers written by a called function are saved and restored, every
  instruction and every entry stands where the offsets say, a load of a large entry gives its
  address, the first bytes locate the data section, and a contract selects the right method;
  one layout for which the compiler panics is given. The parser of inline assembly reports an error
  exactly for instructions that are not well formed, and reads back what is printed, apart from
  \<^verbatim>\<open>noop\<close>, whose arguments are not checked and which prints nothing.

  \<^bold>\<open>Not modelled.\<close> The lexer, parser and type checker, which work on trees and engines shared by all
  of the front end; the instructions of the intermediate representation with its optimisations
  and the translation from it to virtual instructions (\<^verbatim>\<open>fuel_asm_builder.rs\<close> up to \<^verbatim>\<open>finalize\<close>); the
  bytes of single machine instructions, which \<^verbatim>\<open>fuel_asm\<close> makes; the
  EVM target, the package manager, the tools, and all input and output.
\<close>

end
